(* ===== verification/Prelude.thy ===== *)
theory Prelude
  imports Main "HOL-Library.Word" "HOL-Library.Monad_Syntax"
begin

text \<open>
  Shared ground of the development: how the C machine is represented and the loop rule every
  component uses.

  \<^item> A C scalar of type \<^verbatim>\<open>jint\<close> or \<^verbatim>\<open>jlong\<close> is an \<^typ>\<open>int\<close>. Signed arithmetic wraps around
    on the compilers the code is built with. Addition, subtraction, multiplication and left shift
    commute with the wrap-around, so \<open>i32\<close> and \<open>i64\<close> are written where the value is observed:
    at a right shift, a division, a comparison, a conversion to \<^verbatim>\<open>jlong\<close> or an array index.
  \<^item> A 32-bit pixel (\<^verbatim>\<open>jint\<close> used as a bit pattern) is a \<open>32 word\<close>, a \<^verbatim>\<open>jbyte\<close> of a mask an \<open>8 word\<close>.
  \<^item> A C array is a list, an access to it is \<open>rd\<close>, \<open>wr\<close> or \<open>upd\<close>, and an access outside of
    the array, which C leaves undefined, is \<^term>\<open>None\<close>.
  \<^item> A C loop is \<open>wloop\<close>: \<^term>\<open>None\<close> when its body is undefined or when it never ends, so
    a theorem that says \<^term>\<open>Some\<close> is a theorem of memory safety and of termination.
\<close>

section \<open>Names of the model's types and collections of facts\<close>

type_synonym jint = int
type_synonym jlong = int
type_synonym pixel = "32 word"
type_synonym jbyte = "8 word"

named_theorems mem_simps \<open>reads and writes of arrays\<close>
named_theorems wrap_simps \<open>wrap-around that does not change a value in range\<close>

section \<open>Machine integers\<close>

definition i32 :: "int \<Rightarrow> jint" where
  "i32 x = (x + 2147483648) mod 4294967296 - 2147483648"

definition i64 :: "int \<Rightarrow> jlong" where
  "i64 x = (x + 9223372036854775808) mod 18446744073709551616 - 9223372036854775808"

definition is_jint :: "int \<Rightarrow> bool" where
  "is_jint x \<longleftrightarrow> - 2147483648 \<le> x \<and> x < 2147483648"

definition is_jlong :: "int \<Rightarrow> bool" where
  "is_jlong x \<longleftrightarrow> - 9223372036854775808 \<le> x \<and> x < 9223372036854775808"

text \<open>\<^verbatim>\<open>x >> n\<close> on a \<^verbatim>\<open>jint\<close> and on a \<^verbatim>\<open>jlong\<close>: the arithmetic shift.\<close>

definition sar :: "nat \<Rightarrow> int \<Rightarrow> jint" where
  "sar n x = i32 x div 2 ^ n"

definition sar64 :: "nat \<Rightarrow> int \<Rightarrow> jlong" where
  "sar64 n x = i64 x div 2 ^ n"

text \<open>\<^verbatim>\<open>a % b\<close> of C: the sign of the dividend.\<close>

definition crem :: "int \<Rightarrow> int \<Rightarrow> int" where
  "crem a b = (if a < 0 then - ((- a) mod \<bar>b\<bar>) else a mod \<bar>b\<bar>)"

lemma i32_id [wrap_simps]: "- 2147483648 \<le> x \<Longrightarrow> x < 2147483648 \<Longrightarrow> i32 x = x"
  by (simp add: i32_def)

lemma i64_id [wrap_simps]:
  "- 9223372036854775808 \<le> x \<Longrightarrow> x < 9223372036854775808 \<Longrightarrow> i64 x = x"
  by (simp add: i64_def)

lemma i32_range: "- 2147483648 \<le> i32 x" "i32 x < 2147483648"
  by (simp_all add: i32_def)

lemma i32_jint [wrap_simps]: "is_jint x \<Longrightarrow> i32 x = x"
  by (simp add: is_jint_def i32_id)

lemma is_jint_i32 [simp]: "is_jint (i32 x)"
  using i32_range [of x] by (simp add: is_jint_def)

lemma i32_mod: "i32 x mod 4294967296 = x mod 4294967296"
  by (simp add: i32_def mod_simps)

lemma i64_mod: "i64 x mod 18446744073709551616 = x mod 18446744073709551616"
  by (simp add: i64_def mod_simps)

lemma i32_cong: "x mod 4294967296 = y mod 4294967296 \<Longrightarrow> i32 x = i32 y"
  unfolding i32_def by (metis mod_add_left_eq)

lemma i32_i32_add: "i32 (i32 x + y) = i32 (x + y)"
  by (rule i32_cong) (metis i32_mod mod_add_left_eq)

lemma i32_i32_mult: "i32 (i32 x * y) = i32 (x * y)"
  by (rule i32_cong) (metis i32_mod mod_mult_left_eq)

lemma sar_id [wrap_simps]:
  "- 2147483648 \<le> x \<Longrightarrow> x < 2147483648 \<Longrightarrow> sar n x = x div 2 ^ n"
  by (simp add: sar_def i32_id)

lemma sar64_id [wrap_simps]:
  "- 9223372036854775808 \<le> x \<Longrightarrow> x < 9223372036854775808 \<Longrightarrow> sar64 n x = x div 2 ^ n"
  by (simp add: sar64_def i64_id)

lemma crem_nonneg [simp]: "0 \<le> a \<Longrightarrow> 0 < b \<Longrightarrow> crem a b = a mod b"
  by (simp add: crem_def)

section \<open>Arrays\<close>

definition in_arr :: "'a list \<Rightarrow> int \<Rightarrow> bool" where
  "in_arr xs i \<longleftrightarrow> 0 \<le> i \<and> i < int (length xs)"

definition rd :: "'a list \<Rightarrow> int \<Rightarrow> 'a option" where
  "rd xs i = (if in_arr xs i then Some (xs ! nat i) else None)"

definition wr :: "'a list \<Rightarrow> int \<Rightarrow> 'a \<Rightarrow> 'a list option" where
  "wr xs i v = (if in_arr xs i then Some (xs[nat i := v]) else None)"

text \<open>\<^verbatim>\<open>f(&xs[i])\<close> for a function that reads and replaces the one element.\<close>

definition upd :: "'a list \<Rightarrow> int \<Rightarrow> ('a \<Rightarrow> 'a) \<Rightarrow> 'a list option" where
  "upd xs i f = (if in_arr xs i then Some (xs[nat i := f (xs ! nat i)]) else None)"

text \<open>The same for a function that may itself be undefined.\<close>

definition updo :: "'a list \<Rightarrow> int \<Rightarrow> ('a \<Rightarrow> 'a option) \<Rightarrow> 'a list option" where
  "updo xs i f = do { v \<leftarrow> rd xs i; v' \<leftarrow> f v; wr xs i v' }"

lemma rd_in [mem_simps]: "0 \<le> i \<Longrightarrow> i < int (length xs) \<Longrightarrow> rd xs i = Some (xs ! nat i)"
  by (simp add: rd_def in_arr_def)

lemma wr_in [mem_simps]: "0 \<le> i \<Longrightarrow> i < int (length xs) \<Longrightarrow> wr xs i v = Some (xs[nat i := v])"
  by (simp add: wr_def in_arr_def)

lemma upd_in [mem_simps]:
  "0 \<le> i \<Longrightarrow> i < int (length xs) \<Longrightarrow> upd xs i f = Some (xs[nat i := f (xs ! nat i)])"
  by (simp add: upd_def in_arr_def)

lemma updo_in [mem_simps]:
  "0 \<le> i \<Longrightarrow> i < int (length xs) \<Longrightarrow> updo xs i f = map_option (\<lambda>v. xs[nat i := v]) (f (xs ! nat i))"
  by (cases "f (xs ! nat i)") (simp_all add: updo_def rd_def wr_def in_arr_def)

lemma rd_None_iff: "rd xs i = None \<longleftrightarrow> \<not> (0 \<le> i \<and> i < int (length xs))"
  by (simp add: rd_def in_arr_def)

lemma length_wr: "wr xs i v = Some ys \<Longrightarrow> length ys = length xs"
  by (auto simp: wr_def split: if_splits)

lemma length_upd: "upd xs i f = Some ys \<Longrightarrow> length ys = length xs"
  by (auto simp: upd_def split: if_splits)

text \<open>
  \<open>slice_map a w g xs ys\<close>: \<open>ys\<close> is \<open>xs\<close> with the \<open>w\<close> elements from index \<open>a\<close> on replaced,
  the one at \<open>a + i\<close> by \<open>g i\<close> of its old value, and nothing else changed.
\<close>

definition slice_map :: "int \<Rightarrow> int \<Rightarrow> (int \<Rightarrow> 'a \<Rightarrow> 'a) \<Rightarrow> 'a list \<Rightarrow> 'a list \<Rightarrow> bool" where
  "slice_map a w g xs ys \<longleftrightarrow> length ys = length xs \<and>
     (\<forall>k < length xs. ys ! k =
        (if a \<le> int k \<and> int k < a + w then g (int k - a) (xs ! k) else xs ! k))"

lemma slice_map_length: "slice_map a w g xs ys \<Longrightarrow> length ys = length xs"
  by (simp add: slice_map_def)

lemma slice_map_refl: "w \<le> 0 \<Longrightarrow> slice_map a w g xs xs"
  by (auto simp: slice_map_def)

lemma slice_map_nth:
  "slice_map a w g xs ys \<Longrightarrow> k < length xs \<Longrightarrow>
   ys ! k = (if a \<le> int k \<and> int k < a + w then g (int k - a) (xs ! k) else xs ! k)"
  by (simp add: slice_map_def)

text \<open>Extending a slice by its next element, at the cursor \<open>i\<close>.\<close>

lemma slice_map_snoc:
  assumes "slice_map a w g xs ys" and "0 \<le> a" "0 \<le> w" and "i = a + w"
    and "v = g w (ys ! nat i)"
  shows "slice_map a (w + 1) g xs (ys[nat i := v])"
  unfolding slice_map_def
proof (intro conjI allI impI)
  show "length (ys[nat i := v]) = length xs" using assms(1) by (simp add: slice_map_def)
next
  fix k assume k: "k < length xs"
  note old = slice_map_nth [OF assms(1) k]
  show "ys[nat i := v] ! k =
      (if a \<le> int k \<and> int k < a + (w + 1) then g (int k - a) (xs ! k) else xs ! k)"
  proof (cases "k = nat i")
    case True
    with assms(2-4) have "int k = a + w" by simp
    with True k old assms show ?thesis by (simp add: slice_map_def)
  next
    case False
    with assms(2-4) have "int k \<noteq> a + w" by auto
    with False old show ?thesis by auto
  qed
qed

lemma slice_map_keep:
  assumes "slice_map a w g xs ys" "0 \<le> a" "0 \<le> w" "a + w < int (length xs)"
    and "g w (ys ! nat (a + w)) = ys ! nat (a + w)"
  shows "slice_map a (w + 1) g xs ys"
proof -
  have "ys[nat (a + w) := ys ! nat (a + w)] = ys" by simp
  with slice_map_snoc [OF assms(1-3) refl assms(5) [symmetric]] show ?thesis by simp
qed

lemma slice_map_unique:
  "slice_map a w g xs ys \<Longrightarrow> slice_map a w g xs zs \<Longrightarrow> ys = zs"
  by (auto simp: slice_map_def intro: nth_equalityI)

lemma slice_map_cong:
  assumes "slice_map a w g xs ys"
    and "\<And>i p. 0 \<le> i \<Longrightarrow> i < w \<Longrightarrow> g i p = g' i p"
  shows "slice_map a w g' xs ys"
  using assms by (auto simp: slice_map_def)

text \<open>
  \<open>rect_map off stride x0 w h g xs ys\<close>: \<open>ys\<close> is \<open>xs\<close> with a rectangle of an image of row length
  \<open>stride\<close> starting at \<open>off\<close> replaced: rows \<open>0..<h\<close>, columns \<open>x0..<x0+w\<close>, the pixel in row \<open>j\<close>
  and column \<open>x0+i\<close> by \<open>g j i\<close> of its old value.
\<close>

definition rect_map ::
  "int \<Rightarrow> int \<Rightarrow> int \<Rightarrow> int \<Rightarrow> int \<Rightarrow> (int \<Rightarrow> int \<Rightarrow> 'a \<Rightarrow> 'a) \<Rightarrow> 'a list \<Rightarrow> 'a list \<Rightarrow> bool" where
  "rect_map off stride x0 w h g xs ys \<longleftrightarrow> length ys = length xs \<and>
     (\<forall>k < length xs. ys ! k =
        (let q = int k - off; j = q div stride; c = q mod stride
         in if 0 \<le> j \<and> j < h \<and> x0 \<le> c \<and> c < x0 + w then g j (c - x0) (xs ! k) else xs ! k))"

lemma rect_map_length: "rect_map off stride x0 w h g xs ys \<Longrightarrow> length ys = length xs"
  by (simp add: rect_map_def)

lemma rect_map_none: "h \<le> 0 \<Longrightarrow> rect_map off stride x0 w h g xs xs"
  by (auto simp: rect_map_def Let_def)

lemma rect_map_at:
  assumes "rect_map off stride x0 w h g xs ys" "k < length xs"
    and "int k = off + j * stride + c" "0 \<le> c" "c < stride"
  shows "ys ! k = (if 0 \<le> j \<and> j < h \<and> x0 \<le> c \<and> c < x0 + w then g j (c - x0) (xs ! k) else xs ! k)"
proof -
  have "int k - off = c + j * stride" using assms(3) by simp
  then have "(int k - off) div stride = j" "(int k - off) mod stride = c" using assms(4,5) by simp_all
  with assms(1,2) show ?thesis by (simp add: rect_map_def Let_def)
qed

lemma rect_map_nth:
  assumes "rect_map off stride x0 w h g xs ys"
    and "0 \<le> j" "j < h" "0 \<le> i" "i < w" "0 \<le> x0" "x0 + w \<le> stride"
    and "k = off + j * stride + x0 + i" "0 \<le> k" "k < int (length xs)"
  shows "ys ! nat k = g j i (xs ! nat k)"
  using rect_map_at [OF assms(1), of "nat k" j "x0 + i"] assms(2-) by auto

lemma rect_map_outside:
  assumes "rect_map off stride x0 w h g xs ys" "k < length xs"
    and "(int k - off) div stride < 0 \<or> h \<le> (int k - off) div stride \<or>
         (int k - off) mod stride < x0 \<or> x0 + w \<le> (int k - off) mod stride"
  shows "ys ! k = xs ! k"
  using assms by (auto simp: rect_map_def Let_def)

text \<open>One more row.\<close>

lemma rect_map_snoc:
  assumes r: "rect_map off stride x0 w h g xs ys"
    and s: "slice_map (off + h * stride + x0) w (g h) ys zs"
    and b: "0 \<le> h" "0 \<le> x0" "x0 + w \<le> stride" "0 < stride"
  shows "rect_map off stride x0 w (h + 1) g xs zs"
  unfolding rect_map_def
proof (intro conjI allI impI)
  show "length zs = length xs" using r s by (simp add: rect_map_def slice_map_def)
next
  fix k assume k: "k < length xs"
  define j c where "j = (int k - off) div stride" and "c = (int k - off) mod stride"
  have c: "0 \<le> c" "c < stride" using b by (simp_all add: c_def)
  have "int k - off = j * stride + c" unfolding j_def c_def by simp
  then have kk: "int k = off + j * stride + c" by simp
  have ly: "k < length ys" using r k by (simp add: rect_map_def)
  note old = rect_map_at [OF r k kk c]
  have "zs ! k = (if 0 \<le> j \<and> j < h + 1 \<and> x0 \<le> c \<and> c < x0 + w then g j (c - x0) (xs ! k) else xs ! k)"
  proof (cases "j = h")
    case True
    with kk have e: "int k - (off + h * stride + x0) = c - x0"
      and i: "off + h * stride + x0 \<le> int k \<longleftrightarrow> x0 \<le> c"
        "int k < off + h * stride + x0 + w \<longleftrightarrow> c < x0 + w" by auto
    show ?thesis using True old b by (simp add: slice_map_nth [OF s ly] e i)
  next
    case False
    have "\<not> (off + h * stride + x0 \<le> int k \<and> int k < off + h * stride + x0 + w)"
    proof
      assume a: "off + h * stride + x0 \<le> int k \<and> int k < off + h * stride + x0 + w"
      define e where "e = int k - off - h * stride"
      have e: "0 \<le> e" "e < stride" using a b by (auto simp: e_def)
      have "int k - off = e + h * stride" by (simp add: e_def)
      then have "j = h" unfolding j_def using e by simp
      with False show False ..
    qed
    with False slice_map_nth [OF s ly] old show ?thesis by auto
  qed
  then show "zs ! k =
    (let q = int k - off; j = q div stride; c = q mod stride
     in if 0 \<le> j \<and> j < h + 1 \<and> x0 \<le> c \<and> c < x0 + w then g j (c - x0) (xs ! k) else xs ! k)"
    by (simp add: j_def c_def Let_def)
qed

text \<open>Two blocks of rows, one below the other, and a single row.\<close>

lemma rect_map_append:
  assumes "rect_map off stride x0 w h1 g xs ys"
    and "rect_map (off + h1 * stride) stride x0 w h2 g' ys zs" "0 \<le> h1" "0 \<le> h2" "0 < stride"
  shows "rect_map off stride x0 w (h1 + h2) (\<lambda>j. if j < h1 then g j else g' (j - h1)) xs zs"
  unfolding rect_map_def
proof (intro conjI allI impI)
  show "length zs = length xs" using assms(1,2) by (simp add: rect_map_def)
next
  fix k assume k: "k < length xs"
  define j c where "j = (int k - off) div stride" and "c = (int k - off) mod stride"
  have c: "0 \<le> c" "c < stride" using assms(5) by (simp_all add: c_def)
  have "int k - off = j * stride + c" unfolding j_def c_def by simp
  then have kk: "int k = off + j * stride + c" and kk': "int k = off + h1 * stride + (j - h1) * stride + c"
    by (simp_all add: algebra_simps)
  have ly: "k < length ys" using assms(1) k by (simp add: rect_map_def)
  note r1 = rect_map_at [OF assms(1) k kk c] and r2 = rect_map_at [OF assms(2) ly kk' c]
  have "zs ! k = (if 0 \<le> j \<and> j < h1 + h2 \<and> x0 \<le> c \<and> c < x0 + w
    then (if j < h1 then g j else g' (j - h1)) (c - x0) (xs ! k) else xs ! k)"
    using r1 r2 assms(3,4) by auto
  then show "zs ! k =
    (let q = int k - off; j = q div stride; c = q mod stride
     in if 0 \<le> j \<and> j < h1 + h2 \<and> x0 \<le> c \<and> c < x0 + w
        then (if j < h1 then g j else g' (j - h1)) (c - x0) (xs ! k) else xs ! k)"
    by (simp add: j_def c_def Let_def)
qed

lemma rect_map_row:
  assumes "slice_map (off + x0) w g xs ys" "0 \<le> x0" "x0 + w \<le> stride" "0 < stride"
  shows "rect_map off stride x0 w 1 (\<lambda>j. g) xs ys"
proof -
  have "rect_map off stride x0 w 0 (\<lambda>j. g) xs xs" by (rule rect_map_none) simp
  from rect_map_snoc [OF this, of ys] assms show ?thesis by simp
qed

lemma rect_map_cong:
  assumes "rect_map off stride x0 w h g xs ys"
    and "\<And>j i p. 0 \<le> j \<Longrightarrow> j < h \<Longrightarrow> 0 \<le> i \<Longrightarrow> i < w \<Longrightarrow> g j i p = g' j i p"
  shows "rect_map off stride x0 w h g' xs ys"
  using assms by (auto simp: rect_map_def Let_def)

lemma rect_map_unique:
  "rect_map off stride x0 w h g xs ys \<Longrightarrow> rect_map off stride x0 w h g xs zs \<Longrightarrow> ys = zs"
  by (auto simp: rect_map_def intro: nth_equalityI)

section \<open>Loops\<close>

partial_function (option) wloop :: "('s \<Rightarrow> bool) \<Rightarrow> ('s \<Rightarrow> 's option) \<Rightarrow> 's \<Rightarrow> 's option" where
  "wloop b c s = (if b s then Option.bind (c s) (wloop b c) else Some s)"

declare wloop.simps [code]

lemma wloop_stop: "\<not> b s \<Longrightarrow> wloop b c s = Some s"
  by (subst wloop.simps) simp

lemma wloop_step: "b s \<Longrightarrow> c s = Some s' \<Longrightarrow> wloop b c s = wloop b c s'"
  by (subst wloop.simps) simp

lemma wloop_fail: "b s \<Longrightarrow> c s = None \<Longrightarrow> wloop b c s = None"
  by (subst wloop.simps) simp

text \<open>
  The total rule: an invariant that the body keeps while it is defined and a measure it
  decreases. The conclusion says that the loop ends, with no undefined access on the way.
\<close>

lemma wloop_total:
  fixes m :: "'s \<Rightarrow> nat"
  assumes "I s"
    and "\<And>t. I t \<Longrightarrow> b t \<Longrightarrow> \<exists>u. c t = Some u \<and> I u \<and> m u < m t"
  shows "\<exists>t. wloop b c s = Some t \<and> I t \<and> \<not> b t"
  using assms(1)
proof (induction "m s" arbitrary: s rule: less_induct)
  case less
  show ?case
  proof (cases "b s")
    case True
    with less.prems assms(2) obtain u where u: "c s = Some u" "I u" "m u < m s"
      by blast
    from less.hyps [OF u(3,2)] obtain t where "wloop b c u = Some t \<and> I t \<and> \<not> b t"
      by blast
    with u(1) True show ?thesis by (auto simp: wloop_step)
  next
    case False
    with less.prems show ?thesis by (auto simp: wloop_stop)
  qed
qed

text \<open>The partial rule: what the body keeps holds after a loop that ended.\<close>

lemma wloop_invariant:
  assumes "wloop b c s = Some t" "I s" and step: "\<And>s u. I s \<Longrightarrow> b s \<Longrightarrow> c s = Some u \<Longrightarrow> I u"
  shows "I t" "\<not> b t"
proof -
  let ?P = "\<lambda>b c s t. (\<forall>s u. I s \<longrightarrow> b s \<longrightarrow> c s = Some u \<longrightarrow> I u) \<longrightarrow> I s \<longrightarrow> I t \<and> \<not> b t"
  have "?P b c s t"
  proof (rule wloop.raw_induct [where P = ?P, OF _ assms(1)])
    fix w :: "('a \<Rightarrow> bool) \<Rightarrow> ('a \<Rightarrow> 'a option) \<Rightarrow> 'a \<Rightarrow> 'a option" and b c s t
    assume ih: "\<And>c s b y. w c s b = Some y \<Longrightarrow> ?P c s b y" and eq: "(if b s then Option.bind (c s) (w b c) else Some s) = Some t"
    show "?P b c s t"
    proof (cases "b s")
      case True
      then obtain u where "c s = Some u" "w b c u = Some t" using eq by (auto simp: bind_eq_Some_conv)
      with ih [of b c u t] True show ?thesis by blast
    next
      case False
      with eq show ?thesis by simp
    qed
  qed
  with assms(2) step show "I t" "\<not> b t" by blast+
qed

text \<open>
  The C idiom \<^verbatim>\<open>for (j = 0; j < height; j++)\<close> over a state that carries no counter of its own.
\<close>

definition cfor :: "int \<Rightarrow> (int \<Rightarrow> 's \<Rightarrow> 's option) \<Rightarrow> 's \<Rightarrow> 's option" where
  "cfor n f s = map_option snd
     (wloop (\<lambda>(j, s). j < n) (\<lambda>(j, s). map_option (\<lambda>s'. (j + 1, s')) (f j s)) (0, s))"

lemma cfor_total:
  assumes "I 0 s"
    and "\<And>j t. 0 \<le> j \<Longrightarrow> j < n \<Longrightarrow> I j t \<Longrightarrow> \<exists>u. f j t = Some u \<and> I (j + 1) u"
  shows "\<exists>t. cfor n f s = Some t \<and> I (max 0 n) t"
proof -
  let ?b = "\<lambda>(j, s). j < n"
  let ?c = "\<lambda>(j, s). map_option (\<lambda>s'. (j + 1, s')) (f j s)"
  let ?J = "\<lambda>(j, t). 0 \<le> j \<and> j \<le> max 0 n \<and> I j t"
  have "\<exists>r. wloop ?b ?c (0, s) = Some r \<and> ?J r \<and> \<not> ?b r"
  proof (rule wloop_total [where m = "\<lambda>(j, s). nat (n - j)"])
    show "?J (0, s)" using assms(1) by simp
  next
    fix r assume r: "?J r" "?b r"
    obtain j t where [simp]: "r = (j, t)" by (cases r)
    from r assms(2) [of j t] obtain u where "f j t = Some u" "I (j + 1) u" by auto
    with r show "\<exists>u. ?c r = Some u \<and> ?J u \<and> (case u of (j, s) \<Rightarrow> nat (n - j)) < (case r of (j, s) \<Rightarrow> nat (n - j))"
      by auto
  qed
  then show ?thesis by (auto simp: cfor_def max_def split: if_splits)
qed

lemma cfor_invariant:
  assumes "cfor n f s = Some t" "I s" "\<And>j s u. I s \<Longrightarrow> f j s = Some u \<Longrightarrow> I u"
  shows "I t"
proof -
  let ?b = "\<lambda>(j, s). j < n" and ?c = "\<lambda>(j, s). map_option (\<lambda>s'. (j + 1, s')) (f j s)"
  obtain j where "wloop ?b ?c (0, s) = Some (j, t)" using assms(1) by (auto simp: cfor_def)
  from wloop_invariant(1) [OF this, of "\<lambda>(j, s). I s"] assms(2,3) show ?thesis by auto
qed
text \<open>The body's value where it is known, and where the loop does nothing.\<close>

lemma cfor_none: "n \<le> 0 \<Longrightarrow> cfor n f s = Some s"
  by (simp add: cfor_def wloop_stop)

text \<open>Two loops in lock step.\<close>

lemma wloop_sim:
  fixes m :: "'s \<Rightarrow> nat"
  assumes "R s t"
    and "\<And>s t. R s t \<Longrightarrow> b s = b' t"
    and "\<And>s t. R s t \<Longrightarrow> b s \<Longrightarrow> rel_option R (c s) (c' t)"
    and "\<And>s u. b s \<Longrightarrow> c s = Some u \<Longrightarrow> m u < m s"
  shows "rel_option R (wloop b c s) (wloop b' c' t)"
  using assms(1)
proof (induction "m s" arbitrary: s t rule: less_induct)
  case less
  show ?case
  proof (cases "b s")
    case False
    with less.prems assms(2) [OF less.prems] show ?thesis by (simp add: wloop_stop)
  next
    case True
    then have b': "b' t" using assms(2) [OF less.prems] by simp
    show ?thesis
    proof (cases "c s")
      case None
      then have "c' t = None" using assms(3) [OF less.prems True] by simp
      with None True b' show ?thesis by (simp add: wloop_fail)
    next
      case (Some u)
      then obtain v where v: "c' t = Some v" "R u v"
        using assms(3) [OF less.prems True] by (auto simp: option_rel_Some1)
      with less.hyps [OF assms(4) [OF True Some] v(2)] Some True b' show ?thesis
        by (simp add: wloop_step)
    qed
  qed
qed

lemma cfor_sim:
  assumes "R 0 s t"
    and "\<And>j s t. 0 \<le> j \<Longrightarrow> j < n \<Longrightarrow> R j s t \<Longrightarrow> rel_option (R (j + 1)) (f j s) (g j t)"
  shows "rel_option (\<lambda>s t. \<exists>j. R j s t) (cfor n f s) (cfor n g t)"
proof -
  let ?R = "\<lambda>(i, s) (j, t). i = j \<and> 0 \<le> j \<and> R j s t"
  let ?b = "\<lambda>(j, s). j < n" and ?c = "\<lambda>(j, s). map_option (\<lambda>s'. (j + 1, s')) (f j s)"
    and ?b' = "\<lambda>(j, s). j < n" and ?c' = "\<lambda>(j, s). map_option (\<lambda>s'. (j + 1, s')) (g j s)"
  have "rel_option ?R (wloop ?b ?c (0, s)) (wloop ?b' ?c' (0, t))"
  proof (rule wloop_sim [where m = "\<lambda>(j, _). nat (n - j)"])
    show "?R (0, s) (0, t)" using assms(1) by simp
  next
    fix u v assume r: "?R u v" and b: "?b u"
    obtain i s' where u: "u = (i, s')" by (cases u)
    obtain j t' where v: "v = (j, t')" by (cases v)
    from r b have "i = j" "0 \<le> j" "j < n" "R j s' t'" by (simp_all add: u v)
    with assms(2) [of j s' t'] show "rel_option ?R (?c u) (?c' v)"
      by (simp add: u v option.rel_map case_prod_unfold)
  qed auto
  then show ?thesis unfolding cfor_def option.rel_map by (rule option.rel_mono_strong) auto
qed

end
