(* ===== verification/Pixel_Blend.thy ===== *)
theory Pixel_Blend
  imports Prelude
begin

text \<open>
  The per-pixel blending of \<^verbatim>\<open>native-prism-sw/PiscesBlit.c\<close>: the channel accessors, \<^verbatim>\<open>div255\<close> and
  the \<^verbatim>\<open>blend...8888\<close> functions. Each C function takes a pointer to one destination pixel, reads
  it once and overwrites it once; its model is a function of the old pixel to the new one.
  Channel values are integers, packing them into a pixel truncates to 32 bits as the C
  shifts do, so a channel above 255 spills into the next one here as it does there.
\<close>

unbundle bit_operations_syntax

section \<open>Channels and packing\<close>

definition MAX_ALPHA :: jint where "MAX_ALPHA = 255"

definition chA :: "pixel \<Rightarrow> jint" where "chA x = uint (drop_bit 24 x AND 0xFF)"
definition chR :: "pixel \<Rightarrow> jint" where "chR x = uint (drop_bit 16 x AND 0xFF)"
definition chG :: "pixel \<Rightarrow> jint" where "chG x = uint (drop_bit 8 x AND 0xFF)"
definition chB :: "pixel \<Rightarrow> jint" where "chB x = uint (x AND 0xFF)"

text \<open>\<^verbatim>\<open>(a << 24) | (r << 16) | (g << 8) | b\<close>\<close>

definition pack :: "jint \<Rightarrow> jint \<Rightarrow> jint \<Rightarrow> jint \<Rightarrow> pixel" where
  "pack a r g b = push_bit 24 (word_of_int a) OR push_bit 16 (word_of_int r)
                  OR push_bit 8 (word_of_int g) OR word_of_int b"

definition byte :: "int \<Rightarrow> bool" where
  "byte x \<longleftrightarrow> 0 \<le> x \<and> x \<le> 255"

named_theorems byte_intros \<open>values that fit in a channel\<close>

lemma byte_take_bit: "byte x \<Longrightarrow> take_bit 8 x = x"
  by (simp add: byte_def take_bit_int_eq_self_iff)

lemma mask8_word: "(255 :: pixel) = mask 8"
  by (simp add: mask_eq_exp_minus_1)

lemma channel_uint:
  "uint (w AND 255 :: pixel) = take_bit 8 (uint w)"
  unfolding mask8_word take_bit_eq_mask [symmetric] by (simp add: unsigned_take_bit_eq)

lemma byte_take_bit8 [byte_intros, simp]: "byte (take_bit 8 (x :: int))"
  using take_bit_int_less_exp [of 8 x] by (simp add: byte_def)

lemma byte_channels [byte_intros, simp]: "byte (chA p)" "byte (chR p)" "byte (chG p)" "byte (chB p)"
  unfolding chA_def chR_def chG_def chB_def by (simp_all add: channel_uint)

lemma channel_range:
  "0 \<le> chA p" "chA p \<le> 255" "0 \<le> chR p" "chR p \<le> 255"
  "0 \<le> chG p" "chG p \<le> 255" "0 \<le> chB p" "chB p \<le> 255"
  using byte_channels [of p] by (simp_all add: byte_def)

lemma channels_of_pack_take_bit:
  "chA (pack (take_bit 8 a) (take_bit 8 r) (take_bit 8 g) (take_bit 8 b)) = take_bit 8 a"
  "chR (pack (take_bit 8 a) (take_bit 8 r) (take_bit 8 g) (take_bit 8 b)) = take_bit 8 r"
  "chG (pack (take_bit 8 a) (take_bit 8 r) (take_bit 8 g) (take_bit 8 b)) = take_bit 8 g"
  "chB (pack (take_bit 8 a) (take_bit 8 r) (take_bit 8 g) (take_bit 8 b)) = take_bit 8 b"
  unfolding chA_def chR_def chG_def chB_def channel_uint
  by (rule bit_eqI; auto simp: pack_def bit_simps)+

lemma channels_of_pack [simp]:
  assumes "byte a" "byte r" "byte g" "byte b"
  shows "chA (pack a r g b) = a" "chR (pack a r g b) = r"
    "chG (pack a r g b) = g" "chB (pack a r g b) = b"
  using channels_of_pack_take_bit [of a r g b] assms by (simp_all add: byte_take_bit)

lemma pack_of_channels [simp]: "pack (chA p) (chR p) (chG p) (chB p) = p"
  unfolding chA_def chR_def chG_def chB_def
proof (rule bit_word_eqI)
  fix n
  assume n: "n < LENGTH(32)"
  consider "n < 8" | "8 \<le> n" "n < 16" | "16 \<le> n" "n < 24" | "24 \<le> n" by linarith
  then show "bit (pack (uint (drop_bit 24 p AND 0xFF)) (uint (drop_bit 16 p AND 0xFF))
      (uint (drop_bit 8 p AND 0xFF)) (uint (p AND 0xFF))) n = bit p n"
    using n by cases (auto simp: pack_def bit_simps channel_uint)
qed

lemma pixel_eqI:
  "chA p = chA q \<Longrightarrow> chR p = chR q \<Longrightarrow> chG p = chG q \<Longrightarrow> chB p = chB q \<Longrightarrow> p = q"
  by (metis pack_of_channels)

section \<open>Division by 255\<close>

definition div255 :: "jint \<Rightarrow> jint" where
  "div255 x = sar 16 (x * 257 + 257)"

lemma div255_eq:
  "- 8000000 \<le> x \<Longrightarrow> x \<le> 8000000 \<Longrightarrow> div255 x = (x * 257 + 257) div 65536"
  by (simp add: div255_def sar_id)

lemma div255_exact: "0 \<le> x \<Longrightarrow> x \<le> 65535 \<Longrightarrow> div255 x = x div 255"
  by (simp add: div255_eq)

lemma div255_mono: "0 \<le> x \<Longrightarrow> x \<le> y \<Longrightarrow> y \<le> 8000000 \<Longrightarrow> div255 x \<le> div255 y"
  by (simp add: div255_eq zdiv_mono1)

lemma div255_times [simp]: "byte x \<Longrightarrow> div255 (255 * x) = x" "byte x \<Longrightarrow> div255 (x * 255) = x"
  by (simp_all add: byte_def div255_exact)

lemma div255_zero [simp]: "div255 0 = 0"
  by (simp add: div255_eq)

section \<open>The blending functions\<close>

text \<open>Destination premultiplied, source colour not premultiplied.\<close>

definition blendSrcOver8888_pre :: "jint \<Rightarrow> jint \<Rightarrow> jint \<Rightarrow> jint \<Rightarrow> pixel \<Rightarrow> pixel" where
  "blendSrcOver8888_pre aval sred sgreen sblue ival =
    (let dalpha = chA ival; dred = chR ival; dgreen = chG ival; dblue = chB ival;
         oneminusaval = 255 - aval;
         oalpha = div255 (255 * aval + oneminusaval * dalpha);
         ored = div255 (sred * aval + oneminusaval * dred);
         ogreen = div255 (sgreen * aval + oneminusaval * dgreen);
         oblue = div255 (sblue * aval + oneminusaval * dblue)
     in pack oalpha ored ogreen oblue)"

text \<open>Destination and source premultiplied, source scaled by \<^verbatim>\<open>frac / 256\<close>.\<close>

definition blendSrcOver8888_pre_pre ::
  "jint \<Rightarrow> jint \<Rightarrow> jint \<Rightarrow> jint \<Rightarrow> jint \<Rightarrow> pixel \<Rightarrow> pixel" where
  "blendSrcOver8888_pre_pre frac aval sred sgreen sblue ival =
    (let dalpha = chA ival; dred = chR ival; dgreen = chG ival; dblue = chB ival;
         aval2 = sar 8 (aval * frac);
         oneminusaval = 255 - aval2;
         oalpha = aval2 + div255 (oneminusaval * dalpha);
         ored = sar 8 (sred * frac) + div255 (oneminusaval * dred);
         ogreen = sar 8 (sgreen * frac) + div255 (oneminusaval * dgreen);
         oblue = sar 8 (sblue * frac) + div255 (oneminusaval * dblue)
     in pack oalpha ored ogreen oblue)"

definition blendSrcOver8888_pre_pre_fullFrac ::
  "jint \<Rightarrow> jint \<Rightarrow> jint \<Rightarrow> jint \<Rightarrow> pixel \<Rightarrow> pixel" where
  "blendSrcOver8888_pre_pre_fullFrac aval sred sgreen sblue ival =
    (let dalpha = chA ival; dred = chR ival; dgreen = chG ival; dblue = chB ival;
         oneminusaval = 255 - aval;
         oalpha = aval + div255 (oneminusaval * dalpha);
         ored = sred + div255 (oneminusaval * dred);
         ogreen = sgreen + div255 (oneminusaval * dgreen);
         oblue = sblue + div255 (oneminusaval * dblue)
     in pack oalpha ored ogreen oblue)"

definition blendSrc8888_pre ::
  "jint \<Rightarrow> jint \<Rightarrow> jint \<Rightarrow> jint \<Rightarrow> jint \<Rightarrow> pixel \<Rightarrow> pixel" where
  "blendSrc8888_pre aval raaval sred sgreen sblue ival =
    (let dalpha = chA ival; dred = chR ival; dgreen = chG ival; dblue = chB ival;
         denom = 255 * aval + dalpha * raaval
     in if i32 denom = 0 then 0
        else
          (let oalpha = div255 denom;
               ored = div255 (aval * sred + raaval * dred);
               ogreen = div255 (aval * sgreen + raaval * dgreen);
               oblue = div255 (aval * sblue + raaval * dblue)
           in pack oalpha ored ogreen oblue))"

definition blendSrc8888_pre_pre ::
  "jint \<Rightarrow> jint \<Rightarrow> jint \<Rightarrow> jint \<Rightarrow> jint \<Rightarrow> pixel \<Rightarrow> pixel" where
  "blendSrc8888_pre_pre aval raaval sred sgreen sblue ival =
    (let dalpha = chA ival; dred = chR ival; dgreen = chG ival; dblue = chB ival;
         denom = 255 * aval + dalpha * raaval
     in if i32 denom = 0 then 0
        else
          (let oalpha = div255 denom;
               ored = sred + div255 (raaval * dred);
               ogreen = sgreen + div255 (raaval * dgreen);
               oblue = sblue + div255 (raaval * dblue)
           in pack oalpha ored ogreen oblue))"

section \<open>Gamma tables and the LCD blend\<close>

text \<open>
  The two static tables and the gamma they were built for. The floating-point \<^verbatim>\<open>pow\<close> is
  given by \<open>pw\<close>, with \<open>pw g i\<close> the \<^verbatim>\<open>(jint)(255 * pow(i/255.0, g))\<close> of the C library, and \<open>rcp\<close>
  is the float \<^verbatim>\<open>1.0f / gamma\<close>.
\<close>

record 'f gamma_state =
  currentGamma :: 'f
  gammaArray :: "jint list"
  invGammaArray :: "jint list"

definition initGammaArrays ::
  "('f \<Rightarrow> int \<Rightarrow> jint) \<Rightarrow> ('f \<Rightarrow> 'f) \<Rightarrow> 'f \<Rightarrow> 'f gamma_state \<Rightarrow> 'f gamma_state" where
  "initGammaArrays pw rcp gamma gs =
    (if currentGamma gs \<noteq> gamma then
       (let invgamma = rcp gamma
        in gs\<lparr>currentGamma := gamma,
              gammaArray := map (\<lambda>i. pw gamma (int i)) [0..<256],
              invGammaArray := map (\<lambda>i. pw invgamma (int i)) [0..<256]\<rparr>)
     else gs)"

definition blendLCDSrcOver8888_pre ::
  "'f gamma_state \<Rightarrow> jint \<Rightarrow> jint \<Rightarrow> jint \<Rightarrow> jint \<Rightarrow> jint \<Rightarrow> jint \<Rightarrow> pixel \<Rightarrow> pixel option" where
  "blendLCDSrcOver8888_pre gs ared agreen ablue sred sgreen sblue ival = do {
     dred \<leftarrow> rd (invGammaArray gs) (chR ival);
     dgreen \<leftarrow> rd (invGammaArray gs) (chG ival);
     dblue \<leftarrow> rd (invGammaArray gs) (chB ival);
     ored \<leftarrow> rd (gammaArray gs) (div255 (ared * sred + (255 - ared) * dred));
     ogreen \<leftarrow> rd (gammaArray gs) (div255 (agreen * sgreen + (255 - agreen) * dgreen));
     oblue \<leftarrow> rd (gammaArray gs) (div255 (ablue * sblue + (255 - ablue) * dblue));
     Some (0xFF000000 OR push_bit 16 (word_of_int ored) OR push_bit 8 (word_of_int ogreen)
           OR word_of_int oblue)
   }"

section \<open>Facts about the blends\<close>

definition premult :: "pixel \<Rightarrow> bool" where
  "premult p \<longleftrightarrow> chR p \<le> chA p \<and> chG p \<le> chA p \<and> chB p \<le> chA p"

lemma sar8_byte: "byte x \<Longrightarrow> sar 8 (x * 256) = x"
  by (simp add: byte_def sar_id)

lemma sar8_scale:
  assumes "byte x" "0 \<le> f" "f \<le> 256"
  shows "0 \<le> sar 8 (x * f)" "sar 8 (x * f) \<le> x" "sar 8 (x * f) = x * f div 256"
proof -
  have p: "0 \<le> x * f" "x * f \<le> x * 256" using assms by (auto simp: byte_def intro: mult_left_mono)
  then have "x * f \<le> 65280" using assms(1) by (simp add: byte_def)
  with p(1) show e: "sar 8 (x * f) = x * f div 256" by (simp add: sar_id)
  show "0 \<le> sar 8 (x * f)" using p(1) by (simp add: e)
  have "x * f div 256 \<le> x * 256 div 256" using p(2) by (intro zdiv_mono1) simp_all
  then show "sar 8 (x * f) \<le> x" by (simp add: e)
qed

lemma sar8_mono:
  assumes "byte x" "byte y" "x \<le> y" "0 \<le> f" "f \<le> 256"
  shows "sar 8 (x * f) \<le> sar 8 (y * f)"
  using assms by (simp add: sar8_scale zdiv_mono1 mult_right_mono)

text \<open>The two weights of a blend, \<open>a\<close> for the source and at most \<open>255 - a\<close> for the destination.\<close>

lemma weighted_bound:
  assumes "byte a" "byte s" "byte d" "0 \<le> b" "a + b \<le> 255"
  shows "0 \<le> s * a + b * d" "s * a + b * d \<le> 65025"
proof -
  have sa: "s * a \<le> 255 * a" and bd: "b * d \<le> b * 255"
    using assms by (auto simp: byte_def intro: mult_right_mono mult_left_mono)
  have "255 * a + b * 255 = (a + b) * 255" by simp
  also have "\<dots> \<le> 255 * 255" using assms by (intro mult_right_mono) simp_all
  finally show "s * a + b * d \<le> 65025" using sa bd by linarith
  show "0 \<le> s * a + b * d" using assms by (auto simp: byte_def intro!: add_nonneg_nonneg mult_nonneg_nonneg)
qed

lemma div255_byte: "0 \<le> x \<Longrightarrow> x \<le> 65025 \<Longrightarrow> byte (div255 x)"
  using zdiv_mono1 [of x 65025 255] by (simp add: byte_def div255_exact pos_imp_zdiv_nonneg_iff)

lemma weighted_byte:
  assumes "byte a" "byte s" "byte d" "0 \<le> b" "a + b \<le> 255"
  shows "byte (div255 (s * a + b * d))"
  using weighted_bound [OF assms] by (rule div255_byte)

lemma weighted_mono:
  assumes "byte a" "byte s" "byte s'" "byte d" "byte d'" "0 \<le> b" "a + b \<le> 255" "s \<le> s'" "d \<le> d'"
  shows "div255 (s * a + b * d) \<le> div255 (s' * a + b * d')"
proof (rule div255_mono)
  show "0 \<le> s * a + b * d" using assms weighted_bound by blast
  show "s * a + b * d \<le> s' * a + b * d'"
    using assms by (auto simp: byte_def intro!: add_mono mult_right_mono mult_left_mono)
  show "s' * a + b * d' \<le> 8000000" using weighted_bound [of a s' d' b] assms by linarith
qed

lemma premult_packI:
  "byte a \<Longrightarrow> byte r \<Longrightarrow> byte g \<Longrightarrow> byte b \<Longrightarrow> r \<le> a \<Longrightarrow> g \<le> a \<Longrightarrow> b \<le> a \<Longrightarrow> premult (pack a r g b)"
  by (simp add: premult_def)

text \<open>Source-over with a colour that is not premultiplied.\<close>

lemma blendSrcOver_channels:
  fixes aval r g b :: int and p :: pixel
  assumes "byte aval" "byte r" "byte g" "byte b"
  defines "q \<equiv> blendSrcOver8888_pre aval r g b p"
  shows "chA q = div255 (255 * aval + (255 - aval) * chA p)"
    and "chR q = div255 (r * aval + (255 - aval) * chR p)"
    and "chG q = div255 (g * aval + (255 - aval) * chG p)"
    and "chB q = div255 (b * aval + (255 - aval) * chB p)"
proof -
  have *: "byte (div255 (s * aval + (255 - aval) * d))" if "byte s" "byte d" for s d
    using assms(1) that by (intro weighted_byte) (simp_all add: byte_def)
  have "byte 255" by (simp add: byte_def)
  note bs = * [OF this] * [OF assms(2)] * [OF assms(3)] * [OF assms(4)]
  show "chA q = div255 (255 * aval + (255 - aval) * chA p)"
    "chR q = div255 (r * aval + (255 - aval) * chR p)"
    "chG q = div255 (g * aval + (255 - aval) * chG p)"
    "chB q = div255 (b * aval + (255 - aval) * chB p)"
    by (simp_all add: q_def blendSrcOver8888_pre_def Let_def bs)
qed

lemma blendSrcOver_premult:
  assumes "byte aval" "byte r" "byte g" "byte b" "premult p"
  shows "premult (blendSrcOver8888_pre aval r g b p)"
proof -
  have *: "div255 (s * aval + (255 - aval) * d) \<le> div255 (255 * aval + (255 - aval) * chA p)"
    if "byte s" "byte d" "d \<le> chA p" for s d
    using assms(1) that by (intro weighted_mono) (simp_all add: byte_def channel_range)
  show ?thesis
    using assms unfolding premult_def by (simp add: blendSrcOver_channels *)
qed

lemma blendSrcOver_transparent:
  "byte r \<Longrightarrow> byte g \<Longrightarrow> byte b \<Longrightarrow> blendSrcOver8888_pre 0 r g b p = p"
  by (simp add: blendSrcOver8888_pre_def Let_def)

text \<open>Source-over with premultiplied colour, scaled by \<open>f / 256\<close>.\<close>

lemma over_sum_byte:
  assumes "byte a" "byte s" "s \<le> a" "byte d"
  shows "byte (s + div255 ((255 - a) * d))"
proof -
  have p: "0 \<le> (255 - a) * d" "(255 - a) * d \<le> (255 - a) * 255"
    using assms mult_left_mono [of d 255 "255 - a"] by (simp_all add: byte_def)
  have "(255 - a) * 255 \<le> 65025" using assms(1) by (simp add: byte_def)
  then have d0: "0 \<le> div255 ((255 - a) * d)" using p div255_byte [of "(255 - a) * d"] by (simp add: byte_def)
  have "div255 ((255 - a) * d) \<le> div255 ((255 - a) * 255)"
    using p assms(1) by (intro div255_mono) (simp_all add: byte_def)
  also have "\<dots> = 255 - a" using assms(1) by (intro div255_times) (simp add: byte_def)
  finally show ?thesis using d0 assms by (simp add: byte_def)
qed

lemma over_sum_mono:
  assumes "byte a" "byte d" "byte d'" "d \<le> d'" "s \<le> s'"
  shows "s + div255 ((255 - a) * d) \<le> s' + div255 ((255 - a) * d')"
proof -
  have "(255 - a) * d' \<le> 255 * 255" using assms by (intro mult_mono) (simp_all add: byte_def)
  then have "div255 ((255 - a) * d) \<le> div255 ((255 - a) * d')"
    using assms by (intro div255_mono mult_left_mono) (simp_all add: byte_def)
  with assms(5) show ?thesis by simp
qed

lemma blendSrcOver_pre_pre_channels:
  fixes f a r g b :: int and p :: pixel
  assumes f: "0 \<le> f" "f \<le> 256" and s: "byte a" "byte r" "byte g" "byte b" "r \<le> a" "g \<le> a" "b \<le> a"
  defines "q \<equiv> blendSrcOver8888_pre_pre f a r g b p" and "a2 \<equiv> a * f div 256"
  shows "chA q = a2 + div255 ((255 - a2) * chA p)"
    and "chR q = r * f div 256 + div255 ((255 - a2) * chR p)"
    and "chG q = g * f div 256 + div255 ((255 - a2) * chG p)"
    and "chB q = b * f div 256 + div255 ((255 - a2) * chB p)"
    and "byte a2" "byte (r * f div 256)" "byte (g * f div 256)" "byte (b * f div 256)"
    and "r * f div 256 \<le> a2" "g * f div 256 \<le> a2" "b * f div 256 \<le> a2"
proof -
  have sc: "byte (x * f div 256)" "sar 8 (x * f) = x * f div 256" if "byte x" for x
    using sar8_scale [OF that f] that by (simp_all add: byte_def)
  show b: "byte a2" "byte (r * f div 256)" "byte (g * f div 256)" "byte (b * f div 256)"
    using sc s by (simp_all add: a2_def)
  show m: "r * f div 256 \<le> a2" "g * f div 256 \<le> a2" "b * f div 256 \<le> a2"
    unfolding a2_def using s f by (auto intro!: zdiv_mono1 mult_right_mono)
  have bs: "byte (a2 + div255 ((255 - a2) * chA p))"
    "byte (r * f div 256 + div255 ((255 - a2) * chR p))"
    "byte (g * f div 256 + div255 ((255 - a2) * chG p))"
    "byte (b * f div 256 + div255 ((255 - a2) * chB p))"
    using b m by (auto intro!: over_sum_byte)
  show "chA q = a2 + div255 ((255 - a2) * chA p)"
    "chR q = r * f div 256 + div255 ((255 - a2) * chR p)"
    "chG q = g * f div 256 + div255 ((255 - a2) * chG p)"
    "chB q = b * f div 256 + div255 ((255 - a2) * chB p)"
    using bs s by (simp_all add: q_def blendSrcOver8888_pre_pre_def Let_def sc a2_def)
qed

lemma blendSrcOver_pre_pre_premult:
  assumes "0 \<le> f" "f \<le> 256" "premult c" "premult p"
  shows "premult (blendSrcOver8888_pre_pre f (chA c) (chR c) (chG c) (chB c) p)"
proof -
  have c: "chR c \<le> chA c" "chG c \<le> chA c" "chB c \<le> chA c" using assms(3) by (simp_all add: premult_def)
  note ch = blendSrcOver_pre_pre_channels [OF assms(1,2) byte_channels c]
  show ?thesis
    using assms(4) unfolding premult_def by (simp add: ch over_sum_mono)
qed

text \<open>The fast paths of \<^verbatim>\<open>emitLinePTSourceOver8888_pre\<close> compute the general blend at full coverage.\<close>

lemma blendSrcOver_fullFrac_eq:
  assumes "byte a" "byte r" "byte g" "byte b"
  shows "blendSrcOver8888_pre_pre_fullFrac a r g b p = blendSrcOver8888_pre_pre 256 a r g b p"
  using assms by (simp add: blendSrcOver8888_pre_pre_fullFrac_def blendSrcOver8888_pre_pre_def sar8_byte Let_def)

lemma blendSrcOver_full_opaque:
  "chA c = 255 \<Longrightarrow> blendSrcOver8888_pre_pre 256 (chA c) (chR c) (chG c) (chB c) p = c"
  using pack_of_channels [of c]
  by (simp add: blendSrcOver8888_pre_pre_def sar8_byte Let_def) (simp add: sar_id)

lemma blendSrcOver_full_transparent:
  assumes "premult c" "chA c = 0"
  shows "blendSrcOver8888_pre_pre f (chA c) (chR c) (chG c) (chB c) p = p"
proof -
  have "chR c = 0" "chG c = 0" "chB c = 0"
    using assms channel_range [of c] by (simp_all add: premult_def)
  with assms(2) show ?thesis by (simp add: blendSrcOver8888_pre_pre_def Let_def sar_id)
qed

text \<open>The source rule with weights that add up to at most 255.\<close>

lemma blendSrc_channels:
  fixes aval ra r g b :: int and p :: pixel
  assumes "byte aval" "0 \<le> ra" "aval + ra \<le> 255" "byte r" "byte g" "byte b"
  defines "q \<equiv> blendSrc8888_pre aval ra r g b p"
  shows "chA q = div255 (255 * aval + ra * chA p)"
    and "255 * aval + ra * chA p \<noteq> 0 \<Longrightarrow> chR q = div255 (r * aval + ra * chR p)"
    and "255 * aval + ra * chA p \<noteq> 0 \<Longrightarrow> chG q = div255 (g * aval + ra * chG p)"
    and "255 * aval + ra * chA p \<noteq> 0 \<Longrightarrow> chB q = div255 (b * aval + ra * chB p)"
    and "255 * aval + ra * chA p = 0 \<Longrightarrow> q = 0"
proof -
  have *: "byte (div255 (aval * s + ra * d))" if "byte s" "byte d" for s d
    using weighted_byte [OF assms(1) that assms(2,3)] by (simp add: mult.commute)
  have d: "i32 (aval * 255 + ra * chA p) = aval * 255 + ra * chA p"
    using weighted_bound [OF assms(1) _ byte_channels(1) assms(2,3), of 255 p]
    by (simp add: i32_id byte_def mult.commute)
  note bs = * [of 255 "chA p"] * [OF assms(4) byte_channels(2)] * [OF assms(5) byte_channels(3)]
    * [OF assms(6) byte_channels(4)]
  have A0: "chA 0 = 0" by (simp add: chA_def)
  have "byte 255" by (simp add: byte_def)
  then show "chA q = div255 (255 * aval + ra * chA p)"
    "255 * aval + ra * chA p \<noteq> 0 \<Longrightarrow> chR q = div255 (r * aval + ra * chR p)"
    "255 * aval + ra * chA p \<noteq> 0 \<Longrightarrow> chG q = div255 (g * aval + ra * chG p)"
    "255 * aval + ra * chA p \<noteq> 0 \<Longrightarrow> chB q = div255 (b * aval + ra * chB p)"
    "255 * aval + ra * chA p = 0 \<Longrightarrow> q = 0"
    using bs by (simp_all add: q_def blendSrc8888_pre_def Let_def d i32_id A0 mult.commute)
qed

end
