(* ===== verification/Float_Ops.thy ===== *)
theory Float_Ops
  imports Prelude
begin

text \<open>
  C leaves the evaluation of \<^verbatim>\<open>float\<close> expressions to the implementation (format, excess precision,
  rounding). The arithmetic is therefore a parameter: a record of the operations the source uses,
  passed to every definition that computes with \<^verbatim>\<open>float\<close> or \<^verbatim>\<open>double\<close>. Theorems hold for every
  such arithmetic; the witnesses run it in fixed point.
\<close>

record 'f flops =
  f_of_int :: "int \<Rightarrow> 'f"
  f_lit :: "int \<Rightarrow> int \<Rightarrow> 'f" \<comment> \<open>a decimal literal, as numerator and denominator\<close>
  f_to_int :: "'f \<Rightarrow> int" \<comment> \<open>the value of the conversion \<^verbatim>\<open>(jint)x\<close>, truncated to 32 bits where used\<close>
  f_add :: "'f \<Rightarrow> 'f \<Rightarrow> 'f"
  f_sub :: "'f \<Rightarrow> 'f \<Rightarrow> 'f"
  f_mul :: "'f \<Rightarrow> 'f \<Rightarrow> 'f"
  f_div :: "'f \<Rightarrow> 'f \<Rightarrow> 'f"
  f_neg :: "'f \<Rightarrow> 'f"
  f_sqrt :: "'f \<Rightarrow> 'f"
  f_less :: "'f \<Rightarrow> 'f \<Rightarrow> bool"

text \<open>\<^verbatim>\<open>(jint)x\<close>\<close>

definition to_jint :: "'f flops \<Rightarrow> 'f \<Rightarrow> jint" where
  "to_jint F x = i32 (f_to_int F x)"

text \<open>
  An instance for evaluation: fixed-point numbers with 16 fractional bits. Conversions truncate
  towards zero; the square root is found by bisection in 40 steps.
\<close>

fun fx_bisect :: "nat \<Rightarrow> int \<Rightarrow> int \<Rightarrow> int \<Rightarrow> int" where
  "fx_bisect 0 lo hi x = lo"
| "fx_bisect (Suc n) lo hi x =
     (let mid = (lo + hi) div 2
      in if mid * mid \<le> x then fx_bisect n mid hi x else fx_bisect n lo mid x)"

definition fx_flops :: "int flops" where
  "fx_flops = \<lparr>f_of_int = (\<lambda>i. i * 65536), f_lit = (\<lambda>n d. n * 65536 div d),
     f_to_int = (\<lambda>x. if x < 0 then - ((- x) div 65536) else x div 65536),
     f_add = (+), f_sub = (-), f_mul = (\<lambda>x y. x * y div 65536),
     f_div = (\<lambda>x y. x * 65536 div y), f_neg = uminus,
     f_sqrt = (\<lambda>x. fx_bisect 40 0 (2 ^ 40) (x * 65536)), f_less = (<)\<rparr>"

end
