(* ===== verification/Transform.thy ===== *)
theory Transform
  imports Float_Ops
begin

text \<open>
  \<^verbatim>\<open>native-prism-sw/PiscesTransform.c\<close>: the 2x3 matrices in S15.16 fixed point that place gradients
  and textures. A struct the C functions update through a pointer is returned updated.
\<close>

record transform6 =
  m00 :: jint
  m01 :: jint
  m10 :: jint
  m11 :: jint
  m02 :: jint
  m12 :: jint

definition pisces_transform_assign :: "transform6 \<Rightarrow> transform6 \<Rightarrow> transform6" where
  "pisces_transform_assign transformD transformS =
     \<lparr>m00 = m00 transformS, m01 = m01 transformS, m10 = m10 transformS, m11 = m11 transformS,
      m02 = m02 transformS, m12 = m12 transformS\<rparr>"

definition pisces_transform_invert :: "'f flops \<Rightarrow> transform6 \<Rightarrow> transform6" where
  "pisces_transform_invert F t =
    (let one = f_of_int F 65536;
         fm00 = f_div F (f_of_int F (m00 t)) one;
         fm01 = f_div F (f_of_int F (m01 t)) one;
         fm02 = f_div F (f_of_int F (m02 t)) one;
         fm10 = f_div F (f_of_int F (m10 t)) one;
         fm11 = f_div F (f_of_int F (m11 t)) one;
         fm12 = f_div F (f_of_int F (m12 t)) one;
         fdet = f_sub F (f_mul F fm00 fm11) (f_mul F fm01 fm10);
         fa00 = f_div F fm11 fdet;
         fa01 = f_div F (f_neg F fm01) fdet;
         fa10 = f_div F (f_neg F fm10) fdet;
         fa11 = f_div F fm00 fdet;
         fa02 = f_div F (f_sub F (f_mul F fm01 fm12) (f_mul F fm02 fm11)) fdet;
         fa12 = f_div F (f_sub F (f_mul F fm02 fm10) (f_mul F fm00 fm12)) fdet
     in \<lparr>m00 = to_jint F (f_mul F fa00 one), m01 = to_jint F (f_mul F fa01 one),
         m10 = to_jint F (f_mul F fa10 one), m11 = to_jint F (f_mul F fa11 one),
         m02 = to_jint F (f_mul F fa02 one), m12 = to_jint F (f_mul F fa12 one)\<rparr>)"

definition pisces_transform_multiply :: "transform6 \<Rightarrow> transform6 \<Rightarrow> transform6" where
  "pisces_transform_multiply D S =
    (let n00 = sar64 16 (m00 D * m00 S + m01 D * m10 S);
         n01 = sar64 16 (m00 D * m01 S + m01 D * m11 S);
         n10 = sar64 16 (m10 D * m00 S + m11 D * m10 S);
         n11 = sar64 16 (m10 D * m01 S + m11 D * m11 S);
         n02 = sar64 16 (m02 D * 65536 + m00 D * m02 S + m01 D * m12 S);
         n12 = sar64 16 (m12 D * 65536 + m10 D * m02 S + m11 D * m12 S)
     in \<lparr>m00 = i32 n00, m01 = i32 n01, m10 = i32 n10, m11 = i32 n11, m02 = i32 n02, m12 = i32 n12\<rparr>)"

text \<open>Pointers that may be null: \<^term>\<open>None\<close>.\<close>

definition pisces_transform_equals :: "transform6 option \<Rightarrow> transform6 option \<Rightarrow> bool" where
  "pisces_transform_equals tr1 tr2 =
    (case (tr1, tr2) of
       (None, None) \<Rightarrow> True
     | (Some a, Some b) \<Rightarrow>
         m00 a = m00 b \<and> m01 a = m01 b \<and> m02 a = m02 b \<and>
         m10 a = m10 b \<and> m11 a = m11 b \<and> m12 a = m12 b
     | _ \<Rightarrow> False)"

section \<open>Facts\<close>

definition jint_transform :: "transform6 \<Rightarrow> bool" where
  "jint_transform t \<longleftrightarrow> is_jint (m00 t) \<and> is_jint (m01 t) \<and> is_jint (m10 t) \<and>
     is_jint (m11 t) \<and> is_jint (m02 t) \<and> is_jint (m12 t)"

definition identity6 :: transform6 where
  "identity6 = \<lparr>m00 = 65536, m01 = 0, m10 = 0, m11 = 65536, m02 = 0, m12 = 0\<rparr>"

definition translate6 :: "jint \<Rightarrow> jint \<Rightarrow> transform6" where
  "translate6 x y = \<lparr>m00 = 65536, m01 = 0, m10 = 0, m11 = 65536, m02 = x, m12 = y\<rparr>"

lemma sar64_shift16: "is_jint x \<Longrightarrow> sar64 16 (x * 65536) = x"
  by (simp add: is_jint_def sar64_id)

lemma sar64_shift16': "is_jint x \<Longrightarrow> sar64 16 (65536 * x) = x"
  by (simp add: is_jint_def sar64_id)

lemmas jint_transform_wrap = jint_transform_def sar64_shift16 sar64_shift16' i32_jint

lemma multiply_identity_right: "jint_transform t \<Longrightarrow> pisces_transform_multiply t identity6 = t"
  by (cases t) (simp add: pisces_transform_multiply_def identity6_def jint_transform_wrap)

lemma multiply_identity_left: "jint_transform t \<Longrightarrow> pisces_transform_multiply identity6 t = t"
  by (cases t) (simp add: pisces_transform_multiply_def identity6_def jint_transform_wrap)

end
