(* ===== verification/Renderer.thy ===== *)
theory Renderer
  imports Transform
begin

text \<open>
  The renderer of \<^verbatim>\<open>native-prism-sw/PiscesRenderer.h\<close> and \<^verbatim>\<open>PiscesRenderer.inl\<close>: its struct, the
  setters that invalidate parts of it, and the functions that revalidate them by choosing the
  painting routines for the current surface type, mask, composite rule and paint mode.

  Function pointers are datatypes with one constructor per function they can point to, wrapped in
  an \<^theory_text>\<open>option\<close> whose \<^term>\<open>None\<close> is the null pointer. The bits of \<^verbatim>\<open>_rendererState\<close>, distinct powers
  of two, are a set of flags. The surface's pixels are the Java array that \<^verbatim>\<open>ACQUIRE_SURFACE\<close>
  pins; \<^verbatim>\<open>_data\<close> holds its contents from \<^verbatim>\<open>updateRendererSurface\<close> on, and releasing the surface
  copies them back, as the JNI allows.
\<close>

section \<open>Constants\<close>

abbreviation (input) COMPOSITE_CLEAR :: jint where "COMPOSITE_CLEAR \<equiv> 0"
abbreviation (input) COMPOSITE_SRC :: jint where "COMPOSITE_SRC \<equiv> 1"
abbreviation (input) COMPOSITE_SRC_OVER :: jint where "COMPOSITE_SRC_OVER \<equiv> 2"

abbreviation (input) PAINT_FLAT_COLOR :: jint where "PAINT_FLAT_COLOR \<equiv> 0"
abbreviation (input) PAINT_LINEAR_GRADIENT :: jint where "PAINT_LINEAR_GRADIENT \<equiv> 1"
abbreviation (input) PAINT_RADIAL_GRADIENT :: jint where "PAINT_RADIAL_GRADIENT \<equiv> 2"
abbreviation (input) PAINT_TEXTURE8888 :: jint where "PAINT_TEXTURE8888 \<equiv> 4"
abbreviation (input) PAINT_TEXTURE8888_MULTIPLY :: jint where "PAINT_TEXTURE8888_MULTIPLY \<equiv> 5"

abbreviation (input) TYPE_INT_ARGB_PRE :: jint where "TYPE_INT_ARGB_PRE \<equiv> 1"

abbreviation (input) IMAGE_MODE_NORMAL :: jint where "IMAGE_MODE_NORMAL \<equiv> 1"
abbreviation (input) IMAGE_FRAC_EDGE_KEEP :: jint where "IMAGE_FRAC_EDGE_KEEP \<equiv> 0"
abbreviation (input) IMAGE_FRAC_EDGE_PAD :: jint where "IMAGE_FRAC_EDGE_PAD \<equiv> 1"
abbreviation (input) IMAGE_FRAC_EDGE_TRIM :: jint where "IMAGE_FRAC_EDGE_TRIM \<equiv> 2"

abbreviation (input) CYCLE_NONE :: jint where "CYCLE_NONE \<equiv> 0"
abbreviation (input) CYCLE_REPEAT :: jint where "CYCLE_REPEAT \<equiv> 1"
abbreviation (input) CYCLE_REFLECT :: jint where "CYCLE_REFLECT \<equiv> 2"

abbreviation (input) NO_MASK :: jint where "NO_MASK \<equiv> 0"
abbreviation (input) ALPHA_MASK :: jint where "ALPHA_MASK \<equiv> 1"
abbreviation (input) LCD_ALPHA_MASK :: jint where "LCD_ALPHA_MASK \<equiv> 2"

abbreviation (input) TEXTURE_TRANSFORM_IDENTITY :: jint where "TEXTURE_TRANSFORM_IDENTITY \<equiv> 1"
abbreviation (input) TEXTURE_TRANSFORM_TRANSLATE :: jint where "TEXTURE_TRANSFORM_TRANSLATE \<equiv> 2"
abbreviation (input) TEXTURE_TRANSFORM_SCALE_TRANSLATE :: jint where
  "TEXTURE_TRANSFORM_SCALE_TRANSLATE \<equiv> 3"
abbreviation (input) TEXTURE_TRANSFORM_GENERIC :: jint where "TEXTURE_TRANSFORM_GENERIC \<equiv> 4"

section \<open>State\<close>

datatype inv_flag = INVALID_COLOR_ALPHA_MAP | INVALID_PAINT_ALPHA_MAP | INVALID_INTERNAL_COLOR
  | INVALID_RENDERER_SURFACE | INVALID_COMPOSITE_DEPENDED_ROUTINES
  | INVALID_PAINT_DEPENDED_ROUTINES | INVALID_MASK_DEPENDED_ROUTINES

definition INVALID_BLITTING_MASK :: "inv_flag set" where
  "INVALID_BLITTING_MASK = {INVALID_INTERNAL_COLOR, INVALID_RENDERER_SURFACE,
     INVALID_COMPOSITE_DEPENDED_ROUTINES, INVALID_PAINT_DEPENDED_ROUTINES,
     INVALID_MASK_DEPENDED_ROUTINES}"

definition INVALID_ALL :: "inv_flag set" where
  "INVALID_ALL = {INVALID_COLOR_ALPHA_MAP, INVALID_PAINT_ALPHA_MAP} \<union> INVALID_BLITTING_MASK"

datatype blit_fn = Blit_SrcOver8888 | Blit_PTSrcOver8888 | Blit_Src8888 | Blit_PTSrc8888
  | Blit_SrcOverMask8888 | Blit_PTSrcOverMask8888 | Blit_SrcMask8888 | Blit_PTSrcMask8888
  | Blit_SrcOverLCDMask8888

datatype line_fn = Emit_LineSource | Emit_LineSourceOver | Emit_LinePTSource | Emit_LinePTSourceOver

datatype paint_fn = Gen_LinearGradient | Gen_RadialGradient | Gen_Texture | Gen_TextureMultiply

record surface =
  s_width :: jint
  s_height :: jint
  s_offset :: jint
  s_scanlineStride :: jint
  s_pixelStride :: jint
  s_imageType :: jint
  s_data :: "pixel list"

text \<open>The routine pointers of \<^verbatim>\<open>_Renderer\<close>.\<close>

record routines =
  bl_SourceOverMask :: "blit_fn option"
  bl_PT_SourceOverMask :: "blit_fn option"
  bl_SourceMask :: "blit_fn option"
  bl_PT_SourceMask :: "blit_fn option"
  bl_SourceOverLCDMask :: "blit_fn option"
  bl_PT_SourceOverLCDMask :: "blit_fn option"
  bl_SourceLCDMask :: "blit_fn option"
  bl_PT_SourceLCDMask :: "blit_fn option"
  bl_SourceOverNoMask :: "blit_fn option"
  bl_PT_SourceOverNoMask :: "blit_fn option"
  bl_SourceNoMask :: "blit_fn option"
  bl_PT_SourceNoMask :: "blit_fn option"
  bl_SourceOver :: "blit_fn option"
  bl_PT_SourceOver :: "blit_fn option"
  bl_Source :: "blit_fn option"
  bl_PT_Source :: "blit_fn option"
  el_Source :: "line_fn option"
  el_SourceOver :: "line_fn option"
  el_PT_Source :: "line_fn option"
  el_PT_SourceOver :: "line_fn option"
  bl_Clear :: "blit_fn option"
  bl_PT_Clear :: "blit_fn option"
  rt_bl :: "blit_fn option"
  rt_bl_PT :: "blit_fn option"
  rt_el :: "line_fn option"
  rt_el_PT :: "line_fn option"
  clearRect_set :: bool \<comment> \<open>\<^verbatim>\<open>_clearRect\<close> points to \<^verbatim>\<open>clearRect8888_any\<close>\<close>
  emitRows :: "blit_fn option"
  emitLine :: "line_fn option"
  genPaint :: "paint_fn option"

text \<open>The texture paint of \<^verbatim>\<open>_Renderer\<close>.\<close>

record texture =
  t_intData :: "pixel list"
  t_hasAlpha :: bool
  t_imageWidth :: jint
  t_imageHeight :: jint
  t_stride :: jint
  t_txMin :: jint
  t_tyMin :: jint
  t_txMax :: jint
  t_tyMax :: jint
  t_repeat :: bool
  t_m00 :: jlong
  t_m01 :: jlong
  t_m02 :: jlong
  t_m10 :: jlong
  t_m11 :: jlong
  t_m12 :: jlong
  t_interpolate :: bool
  t_transformType :: jint
  t_free :: bool

text \<open>The gradient paint of \<^verbatim>\<open>_Renderer\<close>, linear and radial.\<close>

record 'f gradient =
  g_transform :: transform6
  g_inverse_transform :: transform6
  lg_mx :: 'f
  lg_my :: 'f
  lg_b :: 'f
  rg_a00 :: 'f
  rg_a01 :: 'f
  rg_a02 :: 'f
  rg_a10 :: 'f
  rg_a11 :: 'f
  rg_a12 :: 'f
  rg_cx :: 'f
  rg_cy :: 'f
  rg_fx :: 'f
  rg_fy :: 'f
  rg_r :: 'f
  rg_rsq :: 'f
  rg_a00a00 :: 'f
  rg_a10a10 :: 'f
  rg_a00a10 :: 'f
  g_colors :: "pixel list"
  g_cycleMethod :: jint

record 'f renderer =
  r_paintMode :: jint
  r_prevPaintMode :: jint
  r_ured :: jint
  r_ugreen :: jint
  r_ublue :: jint
  r_ualpha :: jint
  r_cred :: jint
  r_cgreen :: jint
  r_cblue :: jint
  r_calpha :: jint
  r_compositeRule :: jint
  r_surface :: surface
  r_data :: "pixel list"
  r_width :: jint
  r_height :: jint
  r_imageOffset :: jint
  r_imageScanlineStride :: jint
  r_imagePixelStride :: jint
  r_imageType :: jint
  r_rt :: routines
  r_rowNum :: jint
  r_alphaWidth :: jint
  r_minTouched :: jint
  r_maxTouched :: jint
  r_currX :: jint
  r_currY :: jint
  r_currImageOffset :: jint
  r_alphaMap :: "jbyte list"
  r_rowAAInt :: "jint list"
  r_rectX :: jint
  r_rectY :: jint
  r_maskType :: jint
  r_mask_byteData :: "jbyte list"
  r_maskOffset :: jint
  r_mask_width :: jint
  r_mask_height :: jint
  r_paint :: "pixel list"
  r_paint_transform :: transform6
  r_gr :: "'f gradient"
  r_tx :: texture
  r_clip_bbMinX :: jint
  r_clip_bbMinY :: jint
  r_clip_bbMaxX :: jint
  r_clip_bbMaxY :: jint
  r_el_lfrac :: jint
  r_el_rfrac :: jint
  r_state :: "inv_flag set"

section \<open>Choosing the routines\<close>

text \<open>
  Each \<^verbatim>\<open>update...DependedRoutines\<close> switches on one mode (the \<open>select\<close> function), goes on with
  the next one and clears its flag. An unsupported mode leaves the pointers as they are.
\<close>

definition select_paint :: "jint \<Rightarrow> routines \<Rightarrow> routines" where
  "select_paint m rt =
    (if m = PAINT_LINEAR_GRADIENT then
       rt\<lparr>genPaint := Some Gen_LinearGradient, emitRows := rt_bl_PT rt, emitLine := rt_el_PT rt\<rparr>
     else if m = PAINT_RADIAL_GRADIENT then
       rt\<lparr>genPaint := Some Gen_RadialGradient, emitRows := rt_bl_PT rt, emitLine := rt_el_PT rt\<rparr>
     else if m = PAINT_TEXTURE8888 then
       rt\<lparr>genPaint := Some Gen_Texture, emitRows := rt_bl_PT rt, emitLine := rt_el_PT rt\<rparr>
     else if m = PAINT_TEXTURE8888_MULTIPLY then
       rt\<lparr>genPaint := Some Gen_TextureMultiply, emitRows := rt_bl_PT rt, emitLine := rt_el_PT rt\<rparr>
     else if m = PAINT_FLAT_COLOR then
       rt\<lparr>genPaint := None, emitRows := rt_bl rt, emitLine := rt_el rt\<rparr>
     else rt)"

definition updatePaintDependedRoutines :: "'f renderer \<Rightarrow> 'f renderer" where
  "updatePaintDependedRoutines rdr =
     rdr\<lparr>r_rt := select_paint (r_paintMode rdr) (r_rt rdr),
         r_state := r_state rdr - {INVALID_PAINT_DEPENDED_ROUTINES}\<rparr>"

definition select_composite :: "jint \<Rightarrow> routines \<Rightarrow> routines" where
  "select_composite c rt =
    (if c = COMPOSITE_SRC_OVER then
       rt\<lparr>rt_bl := bl_SourceOver rt, rt_bl_PT := bl_PT_SourceOver rt,
          rt_el := el_SourceOver rt, rt_el_PT := el_PT_SourceOver rt\<rparr>
     else if c = COMPOSITE_SRC then
       rt\<lparr>rt_bl := bl_Source rt, rt_bl_PT := bl_PT_Source rt,
          rt_el := el_Source rt, rt_el_PT := el_PT_Source rt\<rparr>
     else if c = COMPOSITE_CLEAR then
       rt\<lparr>rt_bl := bl_Clear rt, rt_bl_PT := bl_PT_Clear rt,
          rt_el := el_Source rt, rt_el_PT := el_Source rt\<rparr>
     else rt)"

definition updateCompositeDependedRoutines :: "'f renderer \<Rightarrow> 'f renderer" where
  "updateCompositeDependedRoutines rdr =
    (let rdr1 = updatePaintDependedRoutines
                  (rdr\<lparr>r_rt := select_composite (r_compositeRule rdr) (r_rt rdr)\<rparr>)
     in rdr1\<lparr>r_state := r_state rdr1 - {INVALID_COMPOSITE_DEPENDED_ROUTINES}\<rparr>)"

definition select_mask :: "jint \<Rightarrow> routines \<Rightarrow> routines" where
  "select_mask m rt =
    (if m = NO_MASK then
       rt\<lparr>bl_SourceOver := bl_SourceOverNoMask rt, bl_PT_SourceOver := bl_PT_SourceOverNoMask rt,
          bl_Source := bl_SourceNoMask rt, bl_PT_Source := bl_PT_SourceNoMask rt\<rparr>
     else if m = ALPHA_MASK then
       rt\<lparr>bl_SourceOver := bl_SourceOverMask rt, bl_PT_SourceOver := bl_PT_SourceOverMask rt,
          bl_Source := bl_SourceMask rt, bl_PT_Source := bl_PT_SourceMask rt\<rparr>
     else if m = LCD_ALPHA_MASK then
       rt\<lparr>bl_SourceOver := bl_SourceOverLCDMask rt, bl_PT_SourceOver := bl_PT_SourceOverLCDMask rt,
          bl_Source := bl_SourceLCDMask rt, bl_PT_Source := bl_PT_SourceLCDMask rt\<rparr>
     else rt)"

definition updateMaskDependedRoutines :: "'f renderer \<Rightarrow> 'f renderer" where
  "updateMaskDependedRoutines rdr =
    (let rdr1 = updateCompositeDependedRoutines
                  (rdr\<lparr>r_rt := select_mask (r_maskType rdr) (r_rt rdr)\<rparr>)
     in rdr1\<lparr>r_state := r_state rdr1 - {INVALID_MASK_DEPENDED_ROUTINES}\<rparr>)"

definition select_surface :: "jint \<Rightarrow> routines \<Rightarrow> routines" where
  "select_surface imageType rt =
    (if imageType = TYPE_INT_ARGB_PRE then
       rt\<lparr>bl_SourceOverNoMask := Some Blit_SrcOver8888,
          bl_PT_SourceOverNoMask := Some Blit_PTSrcOver8888,
          bl_SourceNoMask := Some Blit_Src8888,
          bl_PT_SourceNoMask := Some Blit_PTSrc8888,
          bl_SourceOverMask := Some Blit_SrcOverMask8888,
          bl_PT_SourceOverMask := Some Blit_PTSrcOverMask8888,
          bl_SourceMask := Some Blit_SrcMask8888,
          bl_PT_SourceMask := Some Blit_PTSrcMask8888,
          bl_SourceOverLCDMask := Some Blit_SrcOverLCDMask8888,
          bl_PT_SourceOverLCDMask := None,
          bl_SourceLCDMask := None,
          bl_PT_SourceLCDMask := None,
          bl_Clear := Some Blit_Src8888,
          bl_PT_Clear := Some Blit_Src8888,
          clearRect_set := True,
          el_Source := Some Emit_LineSource,
          el_SourceOver := Some Emit_LineSourceOver,
          el_PT_Source := Some Emit_LinePTSource,
          el_PT_SourceOver := Some Emit_LinePTSourceOver\<rparr>
     else rt)"

definition updateSurfaceDependedRoutines :: "'f renderer \<Rightarrow> 'f renderer" where
  "updateSurfaceDependedRoutines rdr =
     updateMaskDependedRoutines (rdr\<lparr>r_rt := select_surface (r_imageType rdr) (r_rt rdr)\<rparr>)"

definition updateRendererSurface :: "'f renderer \<Rightarrow> 'f renderer" where
  "updateRendererSurface rdr =
    (let s = r_surface rdr;
         rdr1 = rdr\<lparr>r_width := s_width s, r_height := s_height s, r_data := s_data s,
                    r_imageOffset := s_offset s, r_imageScanlineStride := s_scanlineStride s,
                    r_imagePixelStride := s_pixelStride s\<rparr>;
         rdr2 = (if r_imageType rdr1 \<noteq> s_imageType s then
                   (let rdr3 = (if r_compositeRule rdr1 \<noteq> COMPOSITE_SRC_OVER \<and>
                                   s_imageType s = TYPE_INT_ARGB_PRE then
                                  rdr1\<lparr>r_state := r_state rdr1 \<union>
                                     {INVALID_COLOR_ALPHA_MAP, INVALID_PAINT_ALPHA_MAP}\<rparr>
                                else rdr1)
                    in updateSurfaceDependedRoutines (rdr3\<lparr>r_imageType := s_imageType s\<rparr>))
                 else rdr1)
     in rdr2\<lparr>r_state := r_state rdr2 - {INVALID_RENDERER_SURFACE}\<rparr>)"

definition updateInternalColor :: "'f renderer \<Rightarrow> 'f renderer" where
  "updateInternalColor rdr =
    (let rdr1 = (if r_compositeRule rdr = COMPOSITE_CLEAR then
                   rdr\<lparr>r_cred := 0, r_cgreen := 0, r_cblue := 0, r_calpha := 0\<rparr>
                 else
                   rdr\<lparr>r_cred := r_ured rdr, r_cgreen := r_ugreen rdr, r_cblue := r_ublue rdr,
                       r_calpha := r_ualpha rdr\<rparr>)
     in rdr1\<lparr>r_state := r_state rdr1 - {INVALID_INTERNAL_COLOR}\<rparr>)"

text \<open>The macro \<^verbatim>\<open>VALIDATE_BLITTING\<close>, which tests a snapshot of the state.\<close>

definition VALIDATE_BLITTING :: "'f renderer \<Rightarrow> 'f renderer" where
  "VALIDATE_BLITTING rdr =
    (if r_state rdr \<inter> INVALID_BLITTING_MASK \<noteq> {} then
       (let state = r_state rdr;
            rdr1 = (if INVALID_RENDERER_SURFACE \<in> state then updateRendererSurface rdr else rdr);
            rdr2 = (if INVALID_INTERNAL_COLOR \<in> state then updateInternalColor rdr1 else rdr1)
        in if INVALID_MASK_DEPENDED_ROUTINES \<in> state then updateMaskDependedRoutines rdr2
           else if INVALID_COMPOSITE_DEPENDED_ROUTINES \<in> state then updateCompositeDependedRoutines rdr2
           else if INVALID_PAINT_DEPENDED_ROUTINES \<in> state then updatePaintDependedRoutines rdr2
           else rdr2)
     else rdr)"

definition INVALIDATE_RENDERER_SURFACE :: "'f renderer \<Rightarrow> 'f renderer" where
  "INVALIDATE_RENDERER_SURFACE rdr = rdr\<lparr>r_state := insert INVALID_RENDERER_SURFACE (r_state rdr)\<rparr>"

end
