(* ===== verification/Renderer_Ops.thy ===== *)
theory Renderer_Ops
  imports Renderer
begin

text \<open>
  The renderer's constructor and setters (\<^verbatim>\<open>PiscesRenderer.inl\<close>), the step relation of the calls
  Java makes on a renderer, and the invariant that ties the routine pointers to the mask type, the
  composite rule and the paint mode whenever the flags do not say otherwise.
\<close>

section \<open>Construction and setters\<close>

definition null_routines :: routines where
  "null_routines = \<lparr>bl_SourceOverMask = None, bl_PT_SourceOverMask = None, bl_SourceMask = None,
     bl_PT_SourceMask = None, bl_SourceOverLCDMask = None, bl_PT_SourceOverLCDMask = None,
     bl_SourceLCDMask = None, bl_PT_SourceLCDMask = None, bl_SourceOverNoMask = None,
     bl_PT_SourceOverNoMask = None, bl_SourceNoMask = None, bl_PT_SourceNoMask = None,
     bl_SourceOver = None, bl_PT_SourceOver = None, bl_Source = None, bl_PT_Source = None,
     el_Source = None, el_SourceOver = None, el_PT_Source = None, el_PT_SourceOver = None,
     bl_Clear = None, bl_PT_Clear = None, rt_bl = None, rt_bl_PT = None, rt_el = None,
     rt_el_PT = None, clearRect_set = False, emitRows = None, emitLine = None, genPaint = None\<rparr>"

definition zero_transform :: transform6 where
  "zero_transform = \<lparr>m00 = 0, m01 = 0, m10 = 0, m11 = 0, m02 = 0, m12 = 0\<rparr>"

definition zero_texture :: texture where
  "zero_texture = \<lparr>t_intData = [], t_hasAlpha = False, t_imageWidth = 0, t_imageHeight = 0,
     t_stride = 0, t_txMin = 0, t_tyMin = 0, t_txMax = 0, t_tyMax = 0, t_repeat = False,
     t_m00 = 0, t_m01 = 0, t_m02 = 0, t_m10 = 0, t_m11 = 0, t_m12 = 0, t_interpolate = False,
     t_transformType = 0, t_free = False\<rparr>"

definition zero_gradient :: "'f flops \<Rightarrow> 'f gradient" where
  "zero_gradient F = (let z = f_of_int F 0 in
     \<lparr>g_transform = zero_transform, g_inverse_transform = zero_transform,
      lg_mx = z, lg_my = z, lg_b = z, rg_a00 = z, rg_a01 = z, rg_a02 = z, rg_a10 = z, rg_a11 = z,
      rg_a12 = z, rg_cx = z, rg_cy = z, rg_fx = z, rg_fy = z, rg_r = z, rg_rsq = z,
      rg_a00a00 = z, rg_a10a10 = z, rg_a00a10 = z, g_colors = replicate 256 0, g_cycleMethod = 0\<rparr>)"

text \<open>\<^verbatim>\<open>my_malloc\<close> is a \<^verbatim>\<open>calloc\<close>: every field that is not set below is zero.\<close>

definition createCommon :: "'f flops \<Rightarrow> surface \<Rightarrow> 'f renderer" where
  "createCommon F surf =
     \<lparr>r_paintMode = PAINT_FLAT_COLOR, r_prevPaintMode = 0,
      r_ured = 0, r_ugreen = 0, r_ublue = 0, r_ualpha = 0,
      r_cred = 0, r_cgreen = 0, r_cblue = 0, r_calpha = 0,
      r_compositeRule = COMPOSITE_SRC_OVER, r_surface = surf,
      r_data = [], r_width = 0, r_height = 0, r_imageOffset = 0, r_imageScanlineStride = 0,
      r_imagePixelStride = 0, r_imageType = -1, r_rt = null_routines,
      r_rowNum = 0, r_alphaWidth = 0, r_minTouched = 0, r_maxTouched = 0, r_currX = 0, r_currY = 0,
      r_currImageOffset = 0, r_alphaMap = [], r_rowAAInt = [], r_rectX = 0, r_rectY = 0,
      r_maskType = NO_MASK, r_mask_byteData = [], r_maskOffset = 0, r_mask_width = 0,
      r_mask_height = 0, r_paint = [], r_paint_transform = zero_transform,
      r_gr = zero_gradient F, r_tx = zero_texture,
      r_clip_bbMinX = 0, r_clip_bbMinY = 0,
      r_clip_bbMaxX = i32 (s_width surf - 1), r_clip_bbMaxY = i32 (s_height surf - 1),
      r_el_lfrac = 0, r_el_rfrac = 0, r_state = INVALID_ALL\<rparr>"

definition setPaintMode :: "jint \<Rightarrow> 'f renderer \<Rightarrow> 'f renderer" where
  "setPaintMode newPaintMode rdr =
    (if r_paintMode rdr \<noteq> newPaintMode then
       rdr\<lparr>r_tx := (r_tx rdr)\<lparr>t_intData := []\<rparr>,
           r_state := insert INVALID_PAINT_DEPENDED_ROUTINES (r_state rdr),
           r_prevPaintMode := r_paintMode rdr,
           r_paintMode := newPaintMode\<rparr>
     else rdr)"

definition renderer_setClip :: "jint \<Rightarrow> jint \<Rightarrow> jint \<Rightarrow> jint \<Rightarrow> 'f renderer \<Rightarrow> 'f renderer" where
  "renderer_setClip minX minY width height rdr =
     rdr\<lparr>r_clip_bbMinX := minX, r_clip_bbMinY := minY,
         r_clip_bbMaxX := i32 (minX + width - 1), r_clip_bbMaxY := i32 (minY + height - 1)\<rparr>"

definition renderer_setColor :: "jint \<Rightarrow> jint \<Rightarrow> jint \<Rightarrow> jint \<Rightarrow> 'f renderer \<Rightarrow> 'f renderer" where
  "renderer_setColor red green blue alpha rdr =
    (let rdr1 =
       (if r_ured rdr \<noteq> red \<or> r_ugreen rdr \<noteq> green \<or> r_ublue rdr \<noteq> blue \<or> r_ualpha rdr \<noteq> alpha then
          rdr\<lparr>r_state := insert INVALID_INTERNAL_COLOR (r_state rdr) \<union>
                (if r_ualpha rdr \<noteq> alpha then {INVALID_COLOR_ALPHA_MAP, INVALID_PAINT_ALPHA_MAP} else {}),
              r_ured := red, r_ugreen := green, r_ublue := blue, r_ualpha := alpha\<rparr>
        else rdr)
     in setPaintMode PAINT_FLAT_COLOR rdr1)"

definition renderer_setCompositeRule :: "jint \<Rightarrow> 'f renderer \<Rightarrow> 'f renderer" where
  "renderer_setCompositeRule compositeRule rdr =
    (if r_compositeRule rdr \<noteq> compositeRule then
       rdr\<lparr>r_state := r_state rdr \<union> {INVALID_INTERNAL_COLOR, INVALID_COMPOSITE_DEPENDED_ROUTINES} \<union>
             (if compositeRule = COMPOSITE_SRC_OVER \<or>
                 (compositeRule = COMPOSITE_CLEAR \<or> compositeRule = COMPOSITE_SRC) \<and>
                 r_imageType rdr = TYPE_INT_ARGB_PRE
              then {INVALID_COLOR_ALPHA_MAP, INVALID_PAINT_ALPHA_MAP} else {}),
           r_compositeRule := compositeRule\<rparr>
     else rdr)"

definition renderer_setMask :: "jint \<Rightarrow> jbyte list \<Rightarrow> jint \<Rightarrow> jint \<Rightarrow> 'f renderer \<Rightarrow> 'f renderer" where
  "renderer_setMask maskType dat width height rdr =
     rdr\<lparr>r_maskType := maskType, r_mask_byteData := dat, r_mask_width := width,
         r_mask_height := height,
         r_state := r_state rdr \<union> INVALID_BLITTING_MASK \<union> {INVALID_MASK_DEPENDED_ROUTINES}\<rparr>"

definition renderer_removeMask :: "'f renderer \<Rightarrow> 'f renderer" where
  "renderer_removeMask rdr =
     rdr\<lparr>r_maskType := NO_MASK, r_mask_byteData := [],
         r_state := r_state rdr \<union> INVALID_BLITTING_MASK \<union> {INVALID_MASK_DEPENDED_ROUTINES}\<rparr>"

definition renderer_setLinearGradient ::
  "'f flops \<Rightarrow> jint \<Rightarrow> jint \<Rightarrow> jint \<Rightarrow> jint \<Rightarrow> pixel list \<Rightarrow> transform6 \<Rightarrow> 'f renderer \<Rightarrow> 'f renderer option" where
  "renderer_setLinearGradient F x0 y0 x1 y1 colors transform rdr =
    (let inv = pisces_transform_invert F (pisces_transform_assign (g_inverse_transform (r_gr rdr)) transform);
         one = f_of_int F 65536;
         a00 = f_of_int F (m00 inv);
         a01 = f_of_int F (m01 inv);
         a02 = f_div F (f_of_int F (m02 inv)) one;
         a10 = f_of_int F (m10 inv);
         a11 = f_of_int F (m11 inv);
         a12 = f_div F (f_of_int F (m12 inv)) one;
         fx0 = f_div F (f_of_int F x0) one;
         fx1 = f_div F (f_of_int F x1) one;
         fy0 = f_div F (f_of_int F y0) one;
         fy1 = f_div F (f_of_int F y1) one;
         fdx = f_sub F fx1 fx0;
         fdy = f_sub F fy1 fy0;
         flensq = f_add F (f_mul F fdx fdx) (f_mul F fdy fdy);
         t = f_add F (f_mul F fdx fx0) (f_mul F fdy fy0);
         gr = (r_gr rdr)\<lparr>
           g_transform := pisces_transform_assign (g_transform (r_gr rdr)) transform,
           g_inverse_transform := inv,
           lg_mx := f_div F (f_add F (f_mul F a00 fdx) (f_mul F a10 fdy)) flensq,
           lg_my := f_div F (f_add F (f_mul F a01 fdx) (f_mul F a11 fdy)) flensq,
           lg_b := f_div F (f_mul F one (f_sub F (f_add F (f_mul F a02 fdx) (f_mul F a12 fdy)) t)) flensq\<rparr>;
         rdr1 = setPaintMode PAINT_LINEAR_GRADIENT (rdr\<lparr>r_gr := gr\<rparr>)
     in if length colors < 256 then None
        else Some (rdr1\<lparr>r_gr := (r_gr rdr1)\<lparr>g_colors := take 256 colors\<rparr>\<rparr>))"

definition renderer_setRadialGradient ::
  "'f flops \<Rightarrow> jint \<Rightarrow> jint \<Rightarrow> jint \<Rightarrow> jint \<Rightarrow> jint \<Rightarrow> pixel list \<Rightarrow> transform6 \<Rightarrow> 'f renderer \<Rightarrow>
   'f renderer option" where
  "renderer_setRadialGradient F cx cy fx fy radius colors transform rdr =
    (let inv = pisces_transform_invert F (pisces_transform_assign (g_inverse_transform (r_gr rdr)) transform);
         one = f_of_int F 65536;
         a00 = f_div F (f_of_int F (m00 inv)) one;
         a01 = f_div F (f_of_int F (m01 inv)) one;
         a02 = f_div F (f_of_int F (m02 inv)) one;
         a10 = f_div F (f_of_int F (m10 inv)) one;
         a11 = f_div F (f_of_int F (m11 inv)) one;
         a12 = f_div F (f_of_int F (m12 inv)) one;
         ccx = f_div F (f_of_int F cx) one;
         ccy = f_div F (f_of_int F cy) one;
         ffx = f_div F (f_of_int F fx) one;
         ffy = f_div F (f_of_int F fy) one;
         rr = f_div F (f_of_int F radius) one;
         rsq = f_mul F rr rr;
         fcx = f_sub F ffx ccx;
         fcy = f_sub F ffy ccy;
         dsq = f_add F (f_mul F fcx fcx) (f_mul F fcy fcy);
         (ffx', ffy') =
           (if f_less F (f_mul F rsq (f_lit F 94 100)) dsq then
              (let f = f_div F (f_mul F rr (f_lit F 97 100)) (f_sqrt F dsq)
               in (f_add F ccx (f_mul F f fcx), f_add F ccy (f_mul F f fcy)))
            else (ffx, ffy));
         gr = (r_gr rdr)\<lparr>
           g_transform := pisces_transform_assign (g_transform (r_gr rdr)) transform,
           g_inverse_transform := inv,
           rg_a00 := a00, rg_a01 := a01, rg_a02 := a02, rg_a10 := a10, rg_a11 := a11, rg_a12 := a12,
           rg_a00a00 := f_mul F a00 a00, rg_a10a10 := f_mul F a10 a10, rg_a00a10 := f_mul F a00 a10,
           rg_r := rr, rg_rsq := rsq, rg_cx := ccx, rg_cy := ccy, rg_fx := ffx', rg_fy := ffy'\<rparr>;
         rdr1 = setPaintMode PAINT_RADIAL_GRADIENT (rdr\<lparr>r_gr := gr\<rparr>)
     in if length colors < 256 then None
        else Some (rdr1\<lparr>r_gr := (r_gr rdr1)\<lparr>g_colors := take 256 colors\<rparr>\<rparr>))"

text \<open>
  The classification of the texture's transform in \<^verbatim>\<open>renderer_setTexture\<close>: type and whether
  to interpolate, from the inverted matrix and the half-pixel correction.
\<close>

definition setTexture_matrix :: "transform6 \<Rightarrow> bool \<Rightarrow> texture \<Rightarrow> texture" where
  "setTexture_matrix ct smooth tx =
    (let tx1 = tx\<lparr>t_m00 := m00 ct, t_m01 := m01 ct, t_m10 := m10 ct, t_m11 := m11 ct,
                  t_m02 := m02 ct, t_m12 := m12 ct\<rparr>;
         tx2 = (if smooth then
                  tx1\<lparr>t_interpolate := True,
                      t_m02 := t_m02 tx1 + (t_m00 tx1 div 2 + t_m01 tx1 div 2 - 32768),
                      t_m12 := t_m12 tx1 + (t_m10 tx1 div 2 + t_m11 tx1 div 2 - 32768)\<rparr>
                else tx1\<lparr>t_interpolate := False\<rparr>)
     in if t_m00 tx2 = 65536 \<and> t_m11 tx2 = 65536 \<and> t_m01 tx2 = 0 \<and> t_m10 tx2 = 0 then
          (if t_m02 tx2 = 0 \<and> t_m12 tx2 = 0 then tx2\<lparr>t_transformType := TEXTURE_TRANSFORM_IDENTITY\<rparr>
           else
             (let tx3 = tx2\<lparr>t_transformType := TEXTURE_TRANSFORM_TRANSLATE\<rparr>
              in if t_m02 tx2 mod 65536 = 0 \<and> t_m12 tx2 mod 65536 = 0
                 then tx3\<lparr>t_interpolate := False\<rparr> else tx3))
        else if t_m01 tx2 = 0 \<and> t_m10 tx2 = 0
             then tx2\<lparr>t_transformType := TEXTURE_TRANSFORM_SCALE_TRANSLATE\<rparr>
             else tx2\<lparr>t_transformType := TEXTURE_TRANSFORM_GENERIC\<rparr>)"

definition renderer_setTexture ::
  "'f flops \<Rightarrow> jint \<Rightarrow> pixel list \<Rightarrow> jint \<Rightarrow> jint \<Rightarrow> jint \<Rightarrow> bool \<Rightarrow> bool \<Rightarrow> transform6 \<Rightarrow> bool \<Rightarrow> bool \<Rightarrow>
   jint \<Rightarrow> jint \<Rightarrow> jint \<Rightarrow> jint \<Rightarrow> 'f renderer \<Rightarrow> 'f renderer" where
  "renderer_setTexture F renderMode dat width height stride rep smooth transform freeData
      textureHasAlpha txMin tyMin txMax tyMax rdr =
    (let ct = pisces_transform_invert F transform;
         rdr1 = setPaintMode (if renderMode = IMAGE_MODE_NORMAL then PAINT_TEXTURE8888
                              else PAINT_TEXTURE8888_MULTIPLY)
                  (rdr\<lparr>r_paint_transform := pisces_transform_assign (r_paint_transform rdr) transform\<rparr>);
         tx = (r_tx rdr1)\<lparr>t_free := freeData, t_hasAlpha := textureHasAlpha, t_intData := dat,
                t_imageWidth := width, t_imageHeight := height, t_stride := stride, t_repeat := rep,
                t_txMin := txMin, t_tyMin := tyMin, t_txMax := txMax, t_tyMax := tyMax\<rparr>
     in rdr1\<lparr>r_tx := setTexture_matrix ct smooth tx\<rparr>)"

section \<open>The tables the pointers must follow\<close>

definition tbl_bl :: "jint \<Rightarrow> jint \<Rightarrow> blit_fn option" where
  "tbl_bl mk rule =
    (if rule = COMPOSITE_CLEAR then Some Blit_Src8888
     else if rule = COMPOSITE_SRC then
       (if mk = NO_MASK then Some Blit_Src8888
        else if mk = ALPHA_MASK then Some Blit_SrcMask8888 else None)
     else (if mk = NO_MASK then Some Blit_SrcOver8888
           else if mk = ALPHA_MASK then Some Blit_SrcOverMask8888
           else Some Blit_SrcOverLCDMask8888))"

definition tbl_bl_PT :: "jint \<Rightarrow> jint \<Rightarrow> blit_fn option" where
  "tbl_bl_PT mk rule =
    (if rule = COMPOSITE_CLEAR then Some Blit_Src8888
     else if rule = COMPOSITE_SRC then
       (if mk = NO_MASK then Some Blit_PTSrc8888
        else if mk = ALPHA_MASK then Some Blit_PTSrcMask8888 else None)
     else (if mk = NO_MASK then Some Blit_PTSrcOver8888
           else if mk = ALPHA_MASK then Some Blit_PTSrcOverMask8888 else None))"

definition tbl_el :: "jint \<Rightarrow> line_fn option" where
  "tbl_el rule = Some (if rule = COMPOSITE_SRC_OVER then Emit_LineSourceOver else Emit_LineSource)"

definition tbl_el_PT :: "jint \<Rightarrow> line_fn option" where
  "tbl_el_PT rule = Some (if rule = COMPOSITE_SRC_OVER then Emit_LinePTSourceOver
     else if rule = COMPOSITE_SRC then Emit_LinePTSource else Emit_LineSource)"

definition tbl_gen :: "jint \<Rightarrow> paint_fn option" where
  "tbl_gen mode =
    (if mode = PAINT_FLAT_COLOR then None
     else if mode = PAINT_LINEAR_GRADIENT then Some Gen_LinearGradient
     else if mode = PAINT_RADIAL_GRADIENT then Some Gen_RadialGradient
     else if mode = PAINT_TEXTURE8888 then Some Gen_Texture
     else Some Gen_TextureMultiply)"

definition tbl_emitRows :: "jint \<Rightarrow> jint \<Rightarrow> jint \<Rightarrow> blit_fn option" where
  "tbl_emitRows mk rule mode = (if mode = PAINT_FLAT_COLOR then tbl_bl mk rule else tbl_bl_PT mk rule)"

definition tbl_emitLine :: "jint \<Rightarrow> jint \<Rightarrow> line_fn option" where
  "tbl_emitLine rule mode = (if mode = PAINT_FLAT_COLOR then tbl_el rule else tbl_el_PT rule)"

definition supported :: "'f renderer \<Rightarrow> bool" where
  "supported rdr \<longleftrightarrow> r_maskType rdr \<in> {NO_MASK, ALPHA_MASK, LCD_ALPHA_MASK} \<and>
     r_compositeRule rdr \<in> {COMPOSITE_CLEAR, COMPOSITE_SRC, COMPOSITE_SRC_OVER} \<and>
     r_paintMode rdr \<in> {PAINT_FLAT_COLOR, PAINT_LINEAR_GRADIENT, PAINT_RADIAL_GRADIENT,
                        PAINT_TEXTURE8888, PAINT_TEXTURE8888_MULTIPLY}"

definition surface_ok :: "routines \<Rightarrow> bool" where
  "surface_ok rt \<longleftrightarrow>
     bl_SourceOverNoMask rt = Some Blit_SrcOver8888 \<and> bl_PT_SourceOverNoMask rt = Some Blit_PTSrcOver8888 \<and>
     bl_SourceNoMask rt = Some Blit_Src8888 \<and> bl_PT_SourceNoMask rt = Some Blit_PTSrc8888 \<and>
     bl_SourceOverMask rt = Some Blit_SrcOverMask8888 \<and> bl_PT_SourceOverMask rt = Some Blit_PTSrcOverMask8888 \<and>
     bl_SourceMask rt = Some Blit_SrcMask8888 \<and> bl_PT_SourceMask rt = Some Blit_PTSrcMask8888 \<and>
     bl_SourceOverLCDMask rt = Some Blit_SrcOverLCDMask8888 \<and> bl_PT_SourceOverLCDMask rt = None \<and>
     bl_SourceLCDMask rt = None \<and> bl_PT_SourceLCDMask rt = None \<and>
     bl_Clear rt = Some Blit_Src8888 \<and> bl_PT_Clear rt = Some Blit_Src8888 \<and> clearRect_set rt \<and>
     el_Source rt = Some Emit_LineSource \<and> el_SourceOver rt = Some Emit_LineSourceOver \<and>
     el_PT_Source rt = Some Emit_LinePTSource \<and> el_PT_SourceOver rt = Some Emit_LinePTSourceOver"

definition mask_ok :: "jint \<Rightarrow> routines \<Rightarrow> bool" where
  "mask_ok m rt \<longleftrightarrow>
     bl_SourceOver rt = tbl_bl m COMPOSITE_SRC_OVER \<and> bl_PT_SourceOver rt = tbl_bl_PT m COMPOSITE_SRC_OVER \<and>
     bl_Source rt = tbl_bl m COMPOSITE_SRC \<and> bl_PT_Source rt = tbl_bl_PT m COMPOSITE_SRC"

definition composite_ok :: "jint \<Rightarrow> jint \<Rightarrow> routines \<Rightarrow> bool" where
  "composite_ok m c rt \<longleftrightarrow>
     rt_bl rt = tbl_bl m c \<and> rt_bl_PT rt = tbl_bl_PT m c \<and> rt_el rt = tbl_el c \<and> rt_el_PT rt = tbl_el_PT c"

definition paint_ok :: "jint \<Rightarrow> jint \<Rightarrow> jint \<Rightarrow> routines \<Rightarrow> bool" where
  "paint_ok m c p rt \<longleftrightarrow>
     genPaint rt = tbl_gen p \<and> emitRows rt = tbl_emitRows m c p \<and> emitLine rt = tbl_emitLine c p"

text \<open>The internal colour: transparent black under \<^verbatim>\<open>COMPOSITE_CLEAR\<close>, the user's colour otherwise.\<close>

definition colour_ok :: "'f renderer \<Rightarrow> bool" where
  "colour_ok rdr \<longleftrightarrow>
    (if r_compositeRule rdr = COMPOSITE_CLEAR then
       r_cred rdr = 0 \<and> r_cgreen rdr = 0 \<and> r_cblue rdr = 0 \<and> r_calpha rdr = 0
     else r_cred rdr = r_ured rdr \<and> r_cgreen rdr = r_ugreen rdr \<and> r_cblue rdr = r_ublue rdr \<and>
          r_calpha rdr = r_ualpha rdr)"

definition routines_inv :: "'f renderer \<Rightarrow> bool" where
  "routines_inv rdr \<longleftrightarrow>
    (let st = r_state rdr; rt = r_rt rdr; m = r_maskType rdr; c = r_compositeRule rdr; p = r_paintMode rdr
     in (INVALID_INTERNAL_COLOR \<notin> st \<longrightarrow> colour_ok rdr) \<and>
        (r_imageType rdr = TYPE_INT_ARGB_PRE \<longrightarrow>
           surface_ok rt \<and>
           (INVALID_MASK_DEPENDED_ROUTINES \<notin> st \<longrightarrow> mask_ok m rt \<and>
             (INVALID_COMPOSITE_DEPENDED_ROUTINES \<notin> st \<longrightarrow> composite_ok m c rt \<and>
               (INVALID_PAINT_DEPENDED_ROUTINES \<notin> st \<longrightarrow> paint_ok m c p rt)))))"

lemmas table_defs = tbl_bl_def tbl_bl_PT_def tbl_el_def tbl_el_PT_def tbl_gen_def
  tbl_emitRows_def tbl_emitLine_def
lemmas ok_defs = surface_ok_def mask_ok_def composite_ok_def paint_ok_def

section \<open>Revalidation establishes the tables\<close>

lemma updateComposite_eq:
  "updateCompositeDependedRoutines rdr =
     rdr\<lparr>r_rt := select_paint (r_paintMode rdr) (select_composite (r_compositeRule rdr) (r_rt rdr)),
         r_state := r_state rdr - {INVALID_PAINT_DEPENDED_ROUTINES} - {INVALID_COMPOSITE_DEPENDED_ROUTINES}\<rparr>"
  by (simp add: updateCompositeDependedRoutines_def updatePaintDependedRoutines_def Let_def)

lemma updateMask_eq:
  "updateMaskDependedRoutines rdr =
     rdr\<lparr>r_rt := select_paint (r_paintMode rdr)
                  (select_composite (r_compositeRule rdr) (select_mask (r_maskType rdr) (r_rt rdr))),
         r_state := r_state rdr - {INVALID_PAINT_DEPENDED_ROUTINES} - {INVALID_COMPOSITE_DEPENDED_ROUTINES}
                    - {INVALID_MASK_DEPENDED_ROUTINES}\<rparr>"
  by (simp add: updateMaskDependedRoutines_def updateComposite_eq Let_def)

lemma surface_ok_select [simp]:
  "surface_ok (select_surface TYPE_INT_ARGB_PRE rt)"
  "surface_ok (select_mask m rt) = surface_ok rt"
  "surface_ok (select_composite c rt) = surface_ok rt"
  "surface_ok (select_paint p rt) = surface_ok rt"
  by (simp_all add: surface_ok_def select_surface_def select_mask_def select_composite_def select_paint_def)

lemma mask_ok_select:
  "mask_ok m (select_composite c rt) = mask_ok m rt"
  "mask_ok m (select_paint p rt) = mask_ok m rt"
  "surface_ok rt \<Longrightarrow> m \<in> {NO_MASK, ALPHA_MASK, LCD_ALPHA_MASK} \<Longrightarrow> mask_ok m (select_mask m rt)"
  by (auto simp: mask_ok_def surface_ok_def select_mask_def select_composite_def select_paint_def
      tbl_bl_def tbl_bl_PT_def)

lemma composite_ok_select:
  "composite_ok m c (select_paint p rt) = composite_ok m c rt"
  "surface_ok rt \<Longrightarrow> mask_ok m rt \<Longrightarrow> c \<in> {COMPOSITE_CLEAR, COMPOSITE_SRC, COMPOSITE_SRC_OVER} \<Longrightarrow>
   composite_ok m c (select_composite c rt)"
  by (auto simp: composite_ok_def mask_ok_def surface_ok_def select_composite_def select_paint_def
      tbl_bl_def tbl_bl_PT_def tbl_el_def tbl_el_PT_def)

lemma paint_ok_select:
  "composite_ok m c rt \<Longrightarrow>
   p \<in> {PAINT_FLAT_COLOR, PAINT_LINEAR_GRADIENT, PAINT_RADIAL_GRADIENT, PAINT_TEXTURE8888,
        PAINT_TEXTURE8888_MULTIPLY} \<Longrightarrow>
   paint_ok m c p (select_paint p rt)"
  by (auto simp: composite_ok_def paint_ok_def select_paint_def tbl_gen_def tbl_emitRows_def
      tbl_emitLine_def)

lemmas select_simps = mask_ok_select composite_ok_select paint_ok_select

lemma updateMask_ok:
  assumes "supported rdr" "surface_ok (r_rt rdr)"
  shows "paint_ok (r_maskType rdr) (r_compositeRule rdr) (r_paintMode rdr)
           (r_rt (updateMaskDependedRoutines rdr))"
    and "composite_ok (r_maskType rdr) (r_compositeRule rdr) (r_rt (updateMaskDependedRoutines rdr))"
    and "mask_ok (r_maskType rdr) (r_rt (updateMaskDependedRoutines rdr))"
  using assms by (simp_all add: updateMask_eq supported_def select_simps)

lemma updateSurface_eq:
  "updateSurfaceDependedRoutines rdr =
     rdr\<lparr>r_rt := select_paint (r_paintMode rdr)
                  (select_composite (r_compositeRule rdr)
                    (select_mask (r_maskType rdr) (select_surface (r_imageType rdr) (r_rt rdr)))),
         r_state := r_state rdr - {INVALID_PAINT_DEPENDED_ROUTINES} - {INVALID_COMPOSITE_DEPENDED_ROUTINES}
                    - {INVALID_MASK_DEPENDED_ROUTINES}\<rparr>"
  by (simp add: updateSurfaceDependedRoutines_def updateMask_eq)

lemma colour_ok_update [simp]:
  "colour_ok (rdr\<lparr>r_rt := x\<rparr>) = colour_ok rdr" "colour_ok (rdr\<lparr>r_state := st\<rparr>) = colour_ok rdr"
  "colour_ok (rdr\<lparr>r_imageType := i\<rparr>) = colour_ok rdr"
  by (simp_all add: colour_ok_def)

lemma supported_update [simp]:
  "supported (rdr\<lparr>r_rt := x\<rparr>) = supported rdr" "supported (rdr\<lparr>r_state := st\<rparr>) = supported rdr"
  "supported (rdr\<lparr>r_imageType := i\<rparr>) = supported rdr"
  by (simp_all add: supported_def)

text \<open>The renderer with the surface's layout copied in, before any routine is chosen.\<close>

definition adopt_surface :: "'f renderer \<Rightarrow> 'f renderer" where
  "adopt_surface rdr =
    (let s = r_surface rdr in
     rdr\<lparr>r_width := s_width s, r_height := s_height s, r_data := s_data s,
         r_imageOffset := s_offset s, r_imageScanlineStride := s_scanlineStride s,
         r_imagePixelStride := s_pixelStride s, r_imageType := s_imageType s\<rparr>)"

lemma colour_ok_adopt [simp]: "colour_ok (adopt_surface rdr) = colour_ok rdr"
  by (simp add: adopt_surface_def colour_ok_def Let_def)

lemma adopt_surface_simps [simp]:
  "r_rt (adopt_surface rdr) = r_rt rdr" "r_state (adopt_surface rdr) = r_state rdr"
  "r_maskType (adopt_surface rdr) = r_maskType rdr" "r_compositeRule (adopt_surface rdr) = r_compositeRule rdr"
  "r_paintMode (adopt_surface rdr) = r_paintMode rdr" "r_imageType (adopt_surface rdr) = s_imageType (r_surface rdr)"
  "r_surface (adopt_surface rdr) = r_surface rdr"
  by (simp_all add: adopt_surface_def Let_def)

lemma updateRendererSurface_same:
  assumes "r_imageType rdr = s_imageType (r_surface rdr)"
  shows "updateRendererSurface rdr =
    (adopt_surface rdr)\<lparr>r_state := r_state rdr - {INVALID_RENDERER_SURFACE}\<rparr>"
  using assms by (simp add: updateRendererSurface_def adopt_surface_def Let_def)

text \<open>The flags of the two alpha maps are set and never tested.\<close>

definition alpha_map_flags :: "inv_flag set" where
  "alpha_map_flags = {INVALID_COLOR_ALPHA_MAP, INVALID_PAINT_ALPHA_MAP}"

lemma updateRendererSurface_new:
  assumes "r_imageType rdr \<noteq> s_imageType (r_surface rdr)"
  shows "updateRendererSurface rdr =
    (let st = (if r_compositeRule rdr \<noteq> COMPOSITE_SRC_OVER \<and> s_imageType (r_surface rdr) = TYPE_INT_ARGB_PRE
               then r_state rdr \<union> alpha_map_flags else r_state rdr);
         rdr1 = updateSurfaceDependedRoutines ((adopt_surface rdr)\<lparr>r_state := st\<rparr>)
     in rdr1\<lparr>r_state := r_state rdr1 - {INVALID_RENDERER_SURFACE}\<rparr>)"
  using assms
  by (cases rdr) (simp add: updateRendererSurface_def adopt_surface_def Let_def alpha_map_flags_def)

definition current :: "'f renderer \<Rightarrow> bool" where
  "current rdr \<longleftrightarrow> adopt_surface rdr = rdr"

lemma updateRendererSurface_config:
  "r_maskType (updateRendererSurface rdr) = r_maskType rdr"
  "r_compositeRule (updateRendererSurface rdr) = r_compositeRule rdr"
  "r_paintMode (updateRendererSurface rdr) = r_paintMode rdr"
  "r_imageType (updateRendererSurface rdr) = s_imageType (r_surface rdr)"
  "r_surface (updateRendererSurface rdr) = r_surface rdr"
  "INVALID_RENDERER_SURFACE \<notin> r_state (updateRendererSurface rdr)"
  "r_state (updateRendererSurface rdr) \<subseteq> r_state rdr \<union> alpha_map_flags"
  by (cases "r_imageType rdr = s_imageType (r_surface rdr)";
      auto simp: updateRendererSurface_same updateRendererSurface_new updateSurface_eq Let_def)+

lemma updateRendererSurface_inv:
  assumes "supported rdr" "routines_inv rdr"
  shows "routines_inv (updateRendererSurface rdr)"
proof (cases "r_imageType rdr = s_imageType (r_surface rdr)")
  case True
  with assms(2) show ?thesis by (simp add: updateRendererSurface_same routines_inv_def Let_def)
next
  case False
  with assms show ?thesis
    by (auto simp: updateRendererSurface_new updateSurface_eq routines_inv_def supported_def
        alpha_map_flags_def Let_def select_simps)
qed

lemma updateInternalColor_eq:
  "r_rt (updateInternalColor rdr) = r_rt rdr"
  "r_state (updateInternalColor rdr) = r_state rdr - {INVALID_INTERNAL_COLOR}"
  "r_maskType (updateInternalColor rdr) = r_maskType rdr"
  "r_compositeRule (updateInternalColor rdr) = r_compositeRule rdr"
  "r_paintMode (updateInternalColor rdr) = r_paintMode rdr"
  "r_imageType (updateInternalColor rdr) = r_imageType rdr"
  "r_surface (updateInternalColor rdr) = r_surface rdr"
  "colour_ok (updateInternalColor rdr)"
  by (simp_all add: updateInternalColor_def Let_def colour_ok_def)

lemma updateInternalColor_inv: "routines_inv rdr \<Longrightarrow> routines_inv (updateInternalColor rdr)"
  by (auto simp: routines_inv_def Let_def updateInternalColor_eq)

lemma update_routines_inv:
  assumes "supported rdr" "routines_inv rdr"
  shows "routines_inv (updateMaskDependedRoutines rdr)"
    and "INVALID_MASK_DEPENDED_ROUTINES \<notin> r_state rdr \<Longrightarrow> routines_inv (updateCompositeDependedRoutines rdr)"
    and "INVALID_MASK_DEPENDED_ROUTINES \<notin> r_state rdr \<Longrightarrow>
         INVALID_COMPOSITE_DEPENDED_ROUTINES \<notin> r_state rdr \<Longrightarrow> routines_inv (updatePaintDependedRoutines rdr)"
  using assms
  by (auto simp: routines_inv_def Let_def updateMask_eq updateComposite_eq updatePaintDependedRoutines_def
      supported_def select_simps)

section \<open>VALIDATE_BLITTING\<close>

text \<open>The fields of the image layout agree with the surface.\<close>

definition layout_ok :: "'f renderer \<Rightarrow> bool" where
  "layout_ok rdr \<longleftrightarrow> (let s = r_surface rdr in
     r_width rdr = s_width s \<and> r_height rdr = s_height s \<and> r_data rdr = s_data s \<and>
     r_imageOffset rdr = s_offset s \<and> r_imageScanlineStride rdr = s_scanlineStride s \<and>
     r_imagePixelStride rdr = s_pixelStride s \<and> r_imageType rdr = s_imageType s)"

lemma layout_ok_adopt: "layout_ok (adopt_surface rdr)"
  by (simp add: layout_ok_def adopt_surface_def Let_def)

lemma layout_ok_updates:
  "layout_ok (rdr\<lparr>r_state := st\<rparr>) = layout_ok rdr" "layout_ok (rdr\<lparr>r_rt := x\<rparr>) = layout_ok rdr"
  by (simp_all add: layout_ok_def)

lemma layout_ok_steps:
  "layout_ok (updateRendererSurface rdr)"
  "layout_ok rdr \<Longrightarrow> layout_ok (updateInternalColor rdr)"
  "layout_ok rdr \<Longrightarrow> layout_ok (updateMaskDependedRoutines rdr)"
  "layout_ok rdr \<Longrightarrow> layout_ok (updateCompositeDependedRoutines rdr)"
  "layout_ok rdr \<Longrightarrow> layout_ok (updatePaintDependedRoutines rdr)"
proof -
  show "layout_ok (updateRendererSurface rdr)"
    by (cases "r_imageType rdr = s_imageType (r_surface rdr)")
      (simp_all add: updateRendererSurface_same updateRendererSurface_new updateSurface_eq Let_def
        layout_ok_updates layout_ok_adopt)
qed (simp_all add: updateInternalColor_def updateMask_eq updateComposite_eq updatePaintDependedRoutines_def
      layout_ok_def Let_def)

text \<open>The state after each stage of the macro, over the snapshot it tests.\<close>

definition validate1 :: "'f renderer \<Rightarrow> 'f renderer" where
  "validate1 rdr = (if INVALID_RENDERER_SURFACE \<in> r_state rdr then updateRendererSurface rdr else rdr)"

definition validate2 :: "'f renderer \<Rightarrow> 'f renderer" where
  "validate2 rdr = (if INVALID_INTERNAL_COLOR \<in> r_state rdr then updateInternalColor (validate1 rdr)
                    else validate1 rdr)"

lemma VALIDATE_BLITTING_eq:
  "r_state rdr \<inter> INVALID_BLITTING_MASK \<noteq> {} \<Longrightarrow> VALIDATE_BLITTING rdr =
    (if INVALID_MASK_DEPENDED_ROUTINES \<in> r_state rdr then updateMaskDependedRoutines (validate2 rdr)
     else if INVALID_COMPOSITE_DEPENDED_ROUTINES \<in> r_state rdr then updateCompositeDependedRoutines (validate2 rdr)
     else if INVALID_PAINT_DEPENDED_ROUTINES \<in> r_state rdr then updatePaintDependedRoutines (validate2 rdr)
     else validate2 rdr)"
  by (simp add: VALIDATE_BLITTING_def validate1_def validate2_def Let_def)

lemma validate2_config:
  "r_maskType (validate2 rdr) = r_maskType rdr" "r_compositeRule (validate2 rdr) = r_compositeRule rdr"
  "r_paintMode (validate2 rdr) = r_paintMode rdr" "r_surface (validate2 rdr) = r_surface rdr"
  by (simp_all add: validate2_def validate1_def updateInternalColor_eq updateRendererSurface_config)

lemma validate2_state:
  "r_state (validate2 rdr) \<subseteq> (r_state rdr \<union> alpha_map_flags) - {INVALID_RENDERER_SURFACE, INVALID_INTERNAL_COLOR}"
  using updateRendererSurface_config(6,7) [of rdr]
  by (auto simp: validate2_def validate1_def updateInternalColor_eq alpha_map_flags_def)

lemma validate2_inv:
  assumes "supported rdr" "routines_inv rdr"
  shows "routines_inv (validate2 rdr)" "supported (validate2 rdr)"
  using assms updateRendererSurface_inv [OF assms]
  by (auto simp: validate2_def validate1_def updateInternalColor_inv supported_def
      updateInternalColor_eq updateRendererSurface_config)

lemma VALIDATE_BLITTING_config:
  "r_maskType (VALIDATE_BLITTING rdr) = r_maskType rdr"
  "r_compositeRule (VALIDATE_BLITTING rdr) = r_compositeRule rdr"
  "r_paintMode (VALIDATE_BLITTING rdr) = r_paintMode rdr"
  "r_surface (VALIDATE_BLITTING rdr) = r_surface rdr"
  by (simp_all add: VALIDATE_BLITTING_def Let_def updateMask_eq updateComposite_eq
      updatePaintDependedRoutines_def updateRendererSurface_config updateInternalColor_eq)

text \<open>What validation leaves alone.\<close>

lemma update_other_fields:
  "r_ured (updateRendererSurface rdr) = r_ured rdr" "r_ugreen (updateRendererSurface rdr) = r_ugreen rdr"
  "r_ublue (updateRendererSurface rdr) = r_ublue rdr" "r_ualpha (updateRendererSurface rdr) = r_ualpha rdr"
  "r_gr (updateRendererSurface rdr) = r_gr rdr" "r_tx (updateRendererSurface rdr) = r_tx rdr"
  "r_clip_bbMinX (updateRendererSurface rdr) = r_clip_bbMinX rdr" "r_clip_bbMaxX (updateRendererSurface rdr) = r_clip_bbMaxX rdr"
  "r_clip_bbMinY (updateRendererSurface rdr) = r_clip_bbMinY rdr" "r_clip_bbMaxY (updateRendererSurface rdr) = r_clip_bbMaxY rdr"
  by (simp_all add: updateRendererSurface_def updateSurfaceDependedRoutines_def updateMask_eq Let_def)

lemma VALIDATE_other_fields:
  "r_ured (VALIDATE_BLITTING rdr) = r_ured rdr" "r_ugreen (VALIDATE_BLITTING rdr) = r_ugreen rdr"
  "r_ublue (VALIDATE_BLITTING rdr) = r_ublue rdr" "r_ualpha (VALIDATE_BLITTING rdr) = r_ualpha rdr"
  "r_gr (VALIDATE_BLITTING rdr) = r_gr rdr" "r_tx (VALIDATE_BLITTING rdr) = r_tx rdr"
  "r_clip_bbMinX (VALIDATE_BLITTING rdr) = r_clip_bbMinX rdr" "r_clip_bbMaxX (VALIDATE_BLITTING rdr) = r_clip_bbMaxX rdr"
  "r_clip_bbMinY (VALIDATE_BLITTING rdr) = r_clip_bbMinY rdr" "r_clip_bbMaxY (VALIDATE_BLITTING rdr) = r_clip_bbMaxY rdr"
  by (simp_all add: VALIDATE_BLITTING_def Let_def updateMask_eq updateComposite_eq
      updatePaintDependedRoutines_def update_other_fields updateInternalColor_def)

lemma VALIDATE_BLITTING_clears: "r_state (VALIDATE_BLITTING rdr) \<inter> INVALID_BLITTING_MASK = {}"
proof (cases "r_state rdr \<inter> INVALID_BLITTING_MASK = {}")
  case True
  then show ?thesis by (simp add: VALIDATE_BLITTING_def)
next
  case False
  with validate2_state [of rdr] show ?thesis
    by (auto simp: VALIDATE_BLITTING_eq updateMask_eq updateComposite_eq updatePaintDependedRoutines_def
        INVALID_BLITTING_MASK_def alpha_map_flags_def)
qed

lemma VALIDATE_BLITTING_inv:
  assumes "supported rdr" "routines_inv rdr"
  shows "routines_inv (VALIDATE_BLITTING rdr)"
proof (cases "r_state rdr \<inter> INVALID_BLITTING_MASK = {}")
  case True
  with assms show ?thesis by (simp add: VALIDATE_BLITTING_def)
next
  case False
  note v2 = validate2_inv [OF assms] and st = validate2_state [of rdr]
  have m: "INVALID_MASK_DEPENDED_ROUTINES \<notin> r_state rdr \<Longrightarrow> INVALID_MASK_DEPENDED_ROUTINES \<notin> r_state (validate2 rdr)"
    and c: "INVALID_COMPOSITE_DEPENDED_ROUTINES \<notin> r_state rdr \<Longrightarrow>
      INVALID_COMPOSITE_DEPENDED_ROUTINES \<notin> r_state (validate2 rdr)"
    using st by (auto simp: alpha_map_flags_def)
  from False v2 m c update_routines_inv [OF v2(2,1)] show ?thesis
    by (simp add: VALIDATE_BLITTING_eq)
qed

lemma VALIDATE_BLITTING_layout:
  assumes "INVALID_RENDERER_SURFACE \<in> r_state rdr"
  shows "layout_ok (VALIDATE_BLITTING rdr)"
proof -
  have "layout_ok (validate2 rdr)"
    using assms by (simp add: validate2_def validate1_def layout_ok_steps)
  moreover have "r_state rdr \<inter> INVALID_BLITTING_MASK \<noteq> {}"
    using assms by (auto simp: INVALID_BLITTING_MASK_def)
  ultimately show ?thesis by (simp add: VALIDATE_BLITTING_eq layout_ok_steps)
qed

text \<open>With no flag left, the invariant says that every pointer is the table's.\<close>

lemma routines_inv_validated:
  assumes "routines_inv rdr" "r_state rdr \<inter> INVALID_BLITTING_MASK = {}"
  shows "colour_ok rdr"
    and "r_imageType rdr = TYPE_INT_ARGB_PRE \<Longrightarrow>
         clearRect_set (r_rt rdr) \<and> paint_ok (r_maskType rdr) (r_compositeRule rdr) (r_paintMode rdr) (r_rt rdr)"
proof -
  have n: "INVALID_INTERNAL_COLOR \<notin> r_state rdr" "INVALID_MASK_DEPENDED_ROUTINES \<notin> r_state rdr"
    "INVALID_COMPOSITE_DEPENDED_ROUTINES \<notin> r_state rdr" "INVALID_PAINT_DEPENDED_ROUTINES \<notin> r_state rdr"
    using assms(2) by (auto simp: INVALID_BLITTING_MASK_def)
  show "colour_ok rdr" using assms(1) n by (simp add: routines_inv_def Let_def)
  show "clearRect_set (r_rt rdr) \<and> paint_ok (r_maskType rdr) (r_compositeRule rdr) (r_paintMode rdr) (r_rt rdr)"
    if "r_imageType rdr = TYPE_INT_ARGB_PRE"
    using assms(1) n that by (simp add: routines_inv_def Let_def surface_ok_def)
qed

section \<open>The calls of the Java side\<close>

text \<open>
  What happens between two calls of the painting routines: the setters, an invalidation of the
  surface (whose array Java may have replaced), a revalidation, and drawing, which changes pixels and
  cursors but none of the fields of \<open>frame_fields\<close>.
\<close>

definition same_control :: "'f renderer \<Rightarrow> 'f renderer \<Rightarrow> bool" where
  "same_control a b \<longleftrightarrow> r_maskType a = r_maskType b \<and> r_compositeRule a = r_compositeRule b \<and>
     r_paintMode a = r_paintMode b \<and> r_rt a = r_rt b \<and> r_state a = r_state b \<and>
     r_imageType a = r_imageType b \<and> s_imageType (r_surface a) = s_imageType (r_surface b) \<and>
     r_cred a = r_cred b \<and> r_cgreen a = r_cgreen b \<and> r_cblue a = r_cblue b \<and> r_calpha a = r_calpha b \<and>
     r_ured a = r_ured b \<and> r_ugreen a = r_ugreen b \<and> r_ublue a = r_ublue b \<and> r_ualpha a = r_ualpha b"

inductive api_step :: "'f flops \<Rightarrow> 'f renderer \<Rightarrow> 'f renderer \<Rightarrow> bool" for F where
  set_clip: "api_step F rdr (renderer_setClip x y w h rdr)"
| set_color: "api_step F rdr (renderer_setColor r g b a rdr)"
| set_composite: "c \<in> {COMPOSITE_CLEAR, COMPOSITE_SRC, COMPOSITE_SRC_OVER} \<Longrightarrow>
    api_step F rdr (renderer_setCompositeRule c rdr)"
| set_mask: "m \<in> {ALPHA_MASK, LCD_ALPHA_MASK} \<Longrightarrow> api_step F rdr (renderer_setMask m dat w h rdr)"
| remove_mask: "api_step F rdr (renderer_removeMask rdr)"
| set_linear: "renderer_setLinearGradient F x0 y0 x1 y1 cols t rdr = Some rdr' \<Longrightarrow> api_step F rdr rdr'"
| set_radial: "renderer_setRadialGradient F cx cy fx fy rad cols t rdr = Some rdr' \<Longrightarrow> api_step F rdr rdr'"
| set_texture: "api_step F rdr
    (renderer_setTexture F md dat w h str rp sm t fd ha x0 y0 x1 y1 rdr)"
| acquire: "s_imageType s = s_imageType (r_surface rdr) \<Longrightarrow>
    api_step F rdr (INVALIDATE_RENDERER_SURFACE (rdr\<lparr>r_surface := s\<rparr>))"
| validate: "api_step F rdr (VALIDATE_BLITTING rdr)"
| draw: "same_control rdr rdr' \<Longrightarrow> api_step F rdr rdr'"

inductive reachable :: "'f flops \<Rightarrow> surface \<Rightarrow> 'f renderer \<Rightarrow> bool" for F surf where
  create: "reachable F surf (createCommon F surf)"
| step: "reachable F surf rdr \<Longrightarrow> api_step F rdr rdr' \<Longrightarrow> reachable F surf rdr'"

definition control_inv :: "jint \<Rightarrow> 'f renderer \<Rightarrow> bool" where
  "control_inv ty rdr \<longleftrightarrow> supported rdr \<and> routines_inv rdr \<and> s_imageType (r_surface rdr) = ty"

lemma setPaintMode_inv:
  "control_inv ty rdr \<Longrightarrow> m \<in> {PAINT_FLAT_COLOR, PAINT_LINEAR_GRADIENT, PAINT_RADIAL_GRADIENT,
     PAINT_TEXTURE8888, PAINT_TEXTURE8888_MULTIPLY} \<Longrightarrow> control_inv ty (setPaintMode m rdr)"
  by (cases "r_paintMode rdr = m")
    (simp_all add: control_inv_def setPaintMode_def supported_def routines_inv_def Let_def colour_ok_def)

lemma same_control_inv:
  assumes "same_control a b" "control_inv ty a"
  shows "control_inv ty b"
proof -
  have "colour_ok a = colour_ok b"
    using assms(1) by (simp add: same_control_def colour_ok_def)
  with assms show ?thesis
    by (simp add: same_control_def control_inv_def supported_def routines_inv_def Let_def)
qed

lemma control_inv_updates [simp]:
  "control_inv ty (rdr\<lparr>r_gr := g\<rparr>) = control_inv ty rdr"
  "control_inv ty (rdr\<lparr>r_tx := x\<rparr>) = control_inv ty rdr"
  "control_inv ty (rdr\<lparr>r_paint_transform := t\<rparr>) = control_inv ty rdr"
  by (simp_all add: control_inv_def supported_def routines_inv_def Let_def colour_ok_def)

lemma setTexture_inv:
  "control_inv ty rdr \<Longrightarrow> control_inv ty (renderer_setTexture F md dat w h str rp sm t fd ha x0 y0 x1 y1 rdr)"
  by (simp add: renderer_setTexture_def Let_def setPaintMode_inv)

lemma setGradient_inv:
  "control_inv ty rdr \<Longrightarrow> renderer_setLinearGradient F x0 y0 x1 y1 cols t rdr = Some rdr' \<Longrightarrow> control_inv ty rdr'"
  "control_inv ty rdr \<Longrightarrow> renderer_setRadialGradient F cx cy fx fy rad cols t rdr = Some rdr' \<Longrightarrow> control_inv ty rdr'"
  by (auto simp: renderer_setLinearGradient_def renderer_setRadialGradient_def Let_def setPaintMode_inv
      split: if_splits prod.splits)

lemma setColor_inv: "control_inv ty rdr \<Longrightarrow> control_inv ty (renderer_setColor r g b a rdr)"
  unfolding renderer_setColor_def Let_def
  by (rule setPaintMode_inv) (simp_all add: control_inv_def supported_def routines_inv_def Let_def)

lemma setCompositeRule_inv:
  "control_inv ty rdr \<Longrightarrow> c \<in> {COMPOSITE_CLEAR, COMPOSITE_SRC, COMPOSITE_SRC_OVER} \<Longrightarrow>
   control_inv ty (renderer_setCompositeRule c rdr)"
  by (cases "r_compositeRule rdr = c")
    (simp_all add: renderer_setCompositeRule_def control_inv_def supported_def routines_inv_def Let_def)

lemma setMask_inv:
  "control_inv ty rdr \<Longrightarrow> m \<in> {ALPHA_MASK, LCD_ALPHA_MASK} \<Longrightarrow> control_inv ty (renderer_setMask m dat w h rdr)"
  "control_inv ty rdr \<Longrightarrow> control_inv ty (renderer_removeMask rdr)"
  by (simp_all add: renderer_setMask_def renderer_removeMask_def control_inv_def supported_def
      routines_inv_def Let_def INVALID_BLITTING_MASK_def)

lemma VALIDATE_control_inv: "control_inv ty rdr \<Longrightarrow> control_inv ty (VALIDATE_BLITTING rdr)"
  by (simp add: control_inv_def VALIDATE_BLITTING_inv VALIDATE_BLITTING_config)
    (simp add: supported_def VALIDATE_BLITTING_config)

lemma INVALIDATE_control_inv:
  "control_inv ty rdr \<Longrightarrow> s_imageType s = ty \<Longrightarrow>
   control_inv ty (INVALIDATE_RENDERER_SURFACE (rdr\<lparr>r_surface := s\<rparr>))"
  by (simp add: INVALIDATE_RENDERER_SURFACE_def control_inv_def supported_def routines_inv_def Let_def
      colour_ok_def)

lemma setClip_control: "same_control rdr (renderer_setClip x y w h rdr)"
  by (simp add: renderer_setClip_def same_control_def)

lemma createCommon_inv: "control_inv (s_imageType surf) (createCommon F surf)"
  by (auto simp: control_inv_def createCommon_def supported_def routines_inv_def Let_def INVALID_ALL_def
      INVALID_BLITTING_MASK_def)

lemma api_step_inv: "api_step F rdr rdr' \<Longrightarrow> control_inv ty rdr \<Longrightarrow> control_inv ty rdr'"
proof (induction rule: api_step.induct)
  case (acquire s rdr)
  then show ?case by (intro INVALIDATE_control_inv) (simp_all add: control_inv_def)
qed (blast intro: setTexture_inv setGradient_inv setColor_inv setCompositeRule_inv setMask_inv
      VALIDATE_control_inv same_control_inv setClip_control)+

lemma reachable_inv: "reachable F surf rdr \<Longrightarrow> control_inv (s_imageType surf) rdr"
  by (induction rule: reachable.induct) (auto intro: createCommon_inv api_step_inv)

end
