(* ===== verification/Emit_Lines.thy ===== *)
theory Emit_Lines
  imports Pixel_Blend Renderer_Ops
begin

text \<open>
  The line emitters of \<^verbatim>\<open>PiscesBlit.c\<close> (\<^verbatim>\<open>emitLine...8888_pre\<close>): they fill \<^verbatim>\<open>height\<close> rows of the
  touched span with a colour or with the paint buffer, the first and last pixel with the coverage
  of a fractional edge. The four functions share the shape of a row; \<open>emit_row\<close> is that shape
  (a first pixel, a run, a last pixel, with the destination pointer and the paint index advanced
  together) over the three pixel operations, and \<open>emit_rows\<close> the loop over the rows.
\<close>

section \<open>Rows\<close>

definition emit_row ::
  "jint \<Rightarrow> jint \<Rightarrow> bool \<Rightarrow> bool \<Rightarrow> (jint \<Rightarrow> pixel \<Rightarrow> pixel option) \<Rightarrow> (jint \<Rightarrow> pixel \<Rightarrow> pixel option) \<Rightarrow>
   (jint \<Rightarrow> pixel \<Rightarrow> pixel option) \<Rightarrow> jint \<Rightarrow> jint \<Rightarrow> pixel list \<Rightarrow> pixel list option" where
  "emit_row ps w l r fl fm fr a0 aidx0 d0 = do {
     (a1, aidx1, d1) \<leftarrow> (if l then do { d \<leftarrow> updo d0 a0 (fl aidx0); Some (a0 + ps, aidx0 + 1, d) }
                        else Some (a0, aidx0, d0));
     let am = a1 + w;
     (a2, aidx2, d2) \<leftarrow> wloop (\<lambda>(a, aidx, d). a < am)
        (\<lambda>(a, aidx, d). do { d' \<leftarrow> updo d a (fm aidx); Some (a + ps, aidx + 1, d') }) (a1, aidx1, d1);
     if r then updo d2 a2 (fr aidx2) else Some d2
   }"

definition emit_rows ::
  "'f renderer \<Rightarrow> jint \<Rightarrow> jint \<Rightarrow> (jint \<Rightarrow> jint \<Rightarrow> pixel list \<Rightarrow> pixel list option) \<Rightarrow> 'f renderer option" where
  "emit_rows rdr height paint_stride row = do {
     (_, _, d) \<leftarrow> cfor height
        (\<lambda>j (imageOffset, paint_offset, d). do {
           let iidx = i32 (imageOffset + r_minTouched rdr * r_imagePixelStride rdr);
           d' \<leftarrow> row iidx paint_offset d;
           Some (imageOffset + r_imageScanlineStride rdr, paint_offset + paint_stride, d') })
        (r_currImageOffset rdr, 0, r_data rdr);
     Some (rdr\<lparr>r_data := d\<rparr>)
   }"

section \<open>The four emitters\<close>

definition emitLineSource8888_pre :: "'f renderer \<Rightarrow> jint \<Rightarrow> jint \<Rightarrow> 'f renderer option" where
  "emitLineSource8888_pre rdr height fr =
    (let ps = r_imagePixelStride rdr;
         calpha = r_calpha rdr; cred = r_cred rdr; cgreen = r_cgreen rdr; cblue = r_cblue rdr;
         lfrac = r_el_lfrac rdr; rfrac = r_el_rfrac rdr;
         w = r_alphaWidth rdr - (if lfrac \<noteq> 0 then 1 else 0) - (if rfrac \<noteq> 0 then 1 else 0);
         edge = (\<lambda>e aidx p. Some (blendSrc8888_pre calpha (255 - sar 8 e) cred cgreen cblue p))
     in if fr = 0x10000 then
          (let pre_red = sar 8 ((calpha + 1) * cred);
               pre_green = sar 8 ((calpha + 1) * cgreen);
               pre_blue = sar 8 ((calpha + 1) * cblue);
               pixel = pack calpha pre_red pre_green pre_blue
           in emit_rows rdr height 0
                (emit_row ps w (lfrac \<noteq> 0) (rfrac \<noteq> 0) (edge lfrac) (\<lambda>aidx p. Some pixel) (edge rfrac)))
        else
          (let comp_frac = 255 - sar 8 fr;
               lfrac' = i32 (sar64 16 (lfrac * fr));
               rfrac' = i32 (sar64 16 (rfrac * fr))
           in emit_rows rdr height 0
                (emit_row ps w (lfrac' \<noteq> 0) (rfrac' \<noteq> 0) (edge lfrac')
                   (\<lambda>aidx p. Some (blendSrc8888_pre calpha comp_frac cred cgreen cblue p)) (edge rfrac'))))"

definition emitLinePTSource8888_pre :: "'f renderer \<Rightarrow> jint \<Rightarrow> jint \<Rightarrow> 'f renderer option" where
  "emitLinePTSource8888_pre rdr height fr =
    (let ps = r_imagePixelStride rdr; paint = r_paint rdr;
         comp_frac = 255 - sar 8 fr;
         lfrac = i32 (sar64 16 (r_el_lfrac rdr * fr));
         rfrac = i32 (sar64 16 (r_el_rfrac rdr * fr));
         paint_stride = r_alphaWidth rdr;
         w = r_alphaWidth rdr - (if lfrac \<noteq> 0 then 1 else 0) - (if rfrac \<noteq> 0 then 1 else 0);
         blend = (\<lambda>ra aidx p. do { cval \<leftarrow> rd paint aidx;
                    Some (blendSrc8888_pre_pre (chA cval) ra (chR cval) (chG cval) (chB cval) p) })
     in emit_rows rdr height paint_stride
          (emit_row ps w (lfrac \<noteq> 0) (rfrac \<noteq> 0) (blend (255 - sar 8 lfrac))
             (if fr = 0x10000 then (\<lambda>aidx p. rd paint aidx) else blend comp_frac)
             (blend (255 - sar 8 rfrac))))"

definition emitLineSourceOver8888_pre :: "'f renderer \<Rightarrow> jint \<Rightarrow> jint \<Rightarrow> 'f renderer option" where
  "emitLineSourceOver8888_pre rdr height fr =
    (let ps = r_imagePixelStride rdr;
         calpha = r_calpha rdr; cred = r_cred rdr; cgreen = r_cgreen rdr; cblue = r_cblue rdr;
         alpha = sar 16 (calpha * fr);
         lfrac = r_el_lfrac rdr; rfrac = r_el_rfrac rdr;
         w = r_alphaWidth rdr - (if lfrac \<noteq> 0 then 1 else 0) - (if rfrac \<noteq> 0 then 1 else 0);
         over = (\<lambda>av aidx p. Some (blendSrcOver8888_pre av cred cgreen cblue p))
     in if alpha = MAX_ALPHA then
          (let solid_pixel = 0xFF000000 OR push_bit 16 (word_of_int cred) OR push_bit 8 (word_of_int cgreen)
                             OR word_of_int cblue
           in emit_rows rdr height 0
                (emit_row ps w (lfrac \<noteq> 0) (rfrac \<noteq> 0) (over (sar 8 lfrac)) (\<lambda>aidx p. Some solid_pixel)
                   (over (sar 8 rfrac))))
        else
          (let lalpha = sar 16 (lfrac * alpha); ralpha = sar 16 (rfrac * alpha)
           in emit_rows rdr height 0
                (emit_row ps w (lfrac \<noteq> 0) (rfrac \<noteq> 0) (over lalpha) (over alpha) (over ralpha))))"

definition emitLinePTSourceOver8888_pre :: "'f renderer \<Rightarrow> jint \<Rightarrow> jint \<Rightarrow> 'f renderer option" where
  "emitLinePTSourceOver8888_pre rdr height fr =
    (let ps = r_imagePixelStride rdr; paint = r_paint rdr;
         lfrac = i32 (sar64 16 (r_el_lfrac rdr * fr));
         rfrac = i32 (sar64 16 (r_el_rfrac rdr * fr));
         paint_stride = r_alphaWidth rdr;
         w = r_alphaWidth rdr - (if lfrac \<noteq> 0 then 1 else 0) - (if rfrac \<noteq> 0 then 1 else 0);
         over = (\<lambda>f aidx p. do { cval \<leftarrow> rd paint aidx;
                   Some (blendSrcOver8888_pre_pre (sar 8 f) (chA cval) (chR cval) (chG cval) (chB cval) p) });
         full = (\<lambda>aidx p. do { cval \<leftarrow> rd paint aidx;
                   let palpha = chA cval;
                   Some (if palpha = 0 then p
                         else if palpha = MAX_ALPHA then cval
                         else blendSrcOver8888_pre_pre_fullFrac palpha (chR cval) (chG cval) (chB cval) p) })
     in emit_rows rdr height paint_stride
          (emit_row ps w (lfrac \<noteq> 0) (rfrac \<noteq> 0) (over lfrac)
             (if fr = 0x10000 then full else over fr) (over rfrac)))"

text \<open>A call through a \<^verbatim>\<open>_emitLine\<close> pointer; calling the null pointer is undefined.\<close>

fun call_emitLine :: "line_fn option \<Rightarrow> 'f renderer \<Rightarrow> jint \<Rightarrow> jint \<Rightarrow> 'f renderer option" where
  "call_emitLine None rdr height fr = None"
| "call_emitLine (Some Emit_LineSource) rdr height fr = emitLineSource8888_pre rdr height fr"
| "call_emitLine (Some Emit_LineSourceOver) rdr height fr = emitLineSourceOver8888_pre rdr height fr"
| "call_emitLine (Some Emit_LinePTSource) rdr height fr = emitLinePTSource8888_pre rdr height fr"
| "call_emitLine (Some Emit_LinePTSourceOver) rdr height fr = emitLinePTSourceOver8888_pre rdr height fr"

section \<open>What a row does\<close>

lemma emit_row_slice:
  fixes l r :: bool and a0 w :: int
  defines "L \<equiv> (if l then 1 else 0 :: int)"
  defines "W \<equiv> w + L + (if r then 1 else 0)"
  assumes w: "0 \<le> w" and a: "0 \<le> a0" "a0 + W \<le> int (length d0)"
    and f: "\<And>i p. 0 \<le> i \<Longrightarrow> i < W \<Longrightarrow>
      (if l \<and> i = 0 then fl else if r \<and> i = W - 1 then fr else fm) (aidx0 + i) p = Some (g i p)"
  shows "\<exists>d. emit_row 1 w l r fl fm fr a0 aidx0 d0 = Some d \<and> slice_map a0 W g d0 d"
proof -
  have L: "0 \<le> L" "L + w \<le> W" "W \<le> L + w + 1" by (auto simp: L_def W_def)
  obtain d1 where d1: "(if l then do { d \<leftarrow> updo d0 a0 (fl aidx0); Some (a0 + 1, aidx0 + 1, d) }
      else Some (a0, aidx0, d0)) = Some (a0 + L, aidx0 + L, d1)" and s1: "slice_map a0 L g d0 d1"
  proof (cases l)
    case True
    then have W1: "0 < W" using w by (auto simp: L_def W_def)
    have u: "updo d0 a0 (fl aidx0) = Some (d0[nat a0 := g 0 (d0 ! nat a0)])"
      using a True W1 f [of 0 "d0 ! nat a0"] by (simp add: mem_simps)
    have "slice_map a0 (0 + 1) g d0 (d0[nat a0 := g 0 (d0 ! nat a0)])"
      using a by (intro slice_map_snoc slice_map_refl) simp_all
    with u True that show thesis by (simp add: L_def)
  next
    case False
    with that [of d0] slice_map_refl [of 0 a0 g d0] show thesis by (simp add: L_def)
  qed
  define I where "I t \<longleftrightarrow> (\<exists>k d. t = (a0 + k, aidx0 + k, d) \<and> L \<le> k \<and> k \<le> L + w \<and> slice_map a0 k g d0 d)"
    for t
  let ?b = "\<lambda>(a, aidx, d). a < a0 + L + w"
  let ?c = "\<lambda>(a, aidx, d). do { d' \<leftarrow> updo d a (fm aidx); Some (a + 1, aidx + 1, d') }"
  have "\<exists>t. wloop ?b ?c (a0 + L, aidx0 + L, d1) = Some t \<and> I t \<and> \<not> ?b t"
  proof (rule wloop_total [where m = "\<lambda>(a, aidx, d). nat (a0 + L + w - a)"])
    show "I (a0 + L, aidx0 + L, d1)" using s1 w by (simp add: I_def)
  next
    fix t assume "I t" and b: "?b t"
    then obtain k d where t [simp]: "t = (a0 + k, aidx0 + k, d)" and k: "L \<le> k" "k < L + w"
      and s: "slice_map a0 k g d0 d" by (auto simp: I_def)
    have fm: "fm (aidx0 + k) p = Some (g k p)" for p
      using f [of k p] k L by (auto simp: L_def W_def split: if_splits)
    define d' where "d' = d[nat (a0 + k) := g k (d ! nat (a0 + k))]"
    have u: "updo d (a0 + k) (fm (aidx0 + k)) = Some d'"
      using k a L slice_map_length [OF s] by (simp add: mem_simps fm d'_def)
    have s': "slice_map a0 (k + 1) g d0 d'"
      unfolding d'_def using s k a L by (intro slice_map_snoc) simp_all
    have "I (a0 + k + 1, aidx0 + k + 1, d')"
      unfolding I_def using s' k by (intro exI [of _ "k + 1"] exI [of _ d']) simp
    with u k show "\<exists>u. ?c t = Some u \<and> I u \<and>
       (case u of (a, aidx, d) \<Rightarrow> nat (a0 + L + w - a)) < (case t of (a, aidx, d) \<Rightarrow> nat (a0 + L + w - a))"
      by simp
  qed
  then obtain d2 where d2: "wloop ?b ?c (a0 + L, aidx0 + L, d1) = Some (a0 + (L + w), aidx0 + (L + w), d2)"
    and s2: "slice_map a0 (L + w) g d0 d2"
    by (fastforce simp: I_def)
  have len: "length d2 = length d0" using s2 by (rule slice_map_length)
  show ?thesis
  proof (cases r)
    case True
    then have W: "W = L + w + 1" by (simp add: W_def)
    have fr: "fr (aidx0 + (L + w)) p = Some (g (L + w) p)" for p
      using f [of "L + w" p] True w by (auto simp: W L_def split: if_splits)
    have u: "updo d2 (a0 + (L + w)) (fr (aidx0 + (L + w))) =
        Some (d2[nat (a0 + (L + w)) := g (L + w) (d2 ! nat (a0 + (L + w)))])"
      using a w L W len by (simp add: mem_simps fr)
    have "slice_map a0 W g d0 (d2[nat (a0 + (L + w)) := g (L + w) (d2 ! nat (a0 + (L + w)))])"
      unfolding W using s2 a w L by (intro slice_map_snoc) simp_all
    with True u d1 d2 show ?thesis by (simp add: emit_row_def)
  next
    case False
    then have "W = L + w" by (simp add: W_def)
    with False s2 d1 d2 show ?thesis by (simp add: emit_row_def)
  qed
qed

text \<open>The rows together: a rectangle.\<close>

lemma emit_rows_rect:
  assumes fit: "r_imagePixelStride rdr = 1" "0 \<le> r_minTouched rdr" "0 \<le> W"
      "r_minTouched rdr + W \<le> r_imageScanlineStride rdr" "0 < r_imageScanlineStride rdr"
      "0 \<le> r_currImageOffset rdr" "length (r_data rdr) < 2147483648"
    and last: "0 < height \<Longrightarrow> r_currImageOffset rdr + (height - 1) * r_imageScanlineStride rdr +
       r_minTouched rdr + W \<le> int (length (r_data rdr))"
    and row: "\<And>j d a. 0 \<le> j \<Longrightarrow> j < height \<Longrightarrow> length d = length (r_data rdr) \<Longrightarrow>
       a = r_currImageOffset rdr + j * r_imageScanlineStride rdr + r_minTouched rdr \<Longrightarrow>
       0 \<le> a \<Longrightarrow> a + W \<le> int (length d) \<Longrightarrow>
       \<exists>d'. row a (j * ps) d = Some d' \<and> slice_map a W (g j) d d'"
  shows "\<exists>d. emit_rows rdr height ps row = Some (rdr\<lparr>r_data := d\<rparr>) \<and>
     rect_map (r_currImageOffset rdr) (r_imageScanlineStride rdr) (r_minTouched rdr) W height g (r_data rdr) d"
proof -
  let ?off = "r_currImageOffset rdr" and ?st = "r_imageScanlineStride rdr" and ?x = "r_minTouched rdr"
  let ?f = "\<lambda>(j::int) (imageOffset, paint_offset, d). do {
           let iidx = i32 (imageOffset + r_minTouched rdr * r_imagePixelStride rdr);
           d' \<leftarrow> row iidx paint_offset d;
           Some (imageOffset + r_imageScanlineStride rdr, paint_offset + ps, d') }"
  define I where "I = (\<lambda>(j::int) (io, po, d). io = ?off + j * ?st \<and> po = j * ps \<and>
     rect_map ?off ?st ?x W j g (r_data rdr) d)"
  have "\<exists>t. cfor height ?f (?off, 0, r_data rdr) = Some t \<and> I (max 0 height) t"
  proof (rule cfor_total)
    show "I 0 (?off, 0, r_data rdr)" by (simp add: I_def rect_map_none)
  next
    fix j t assume j: "0 \<le> j" "j < height" and It: "I j t"
    obtain io po d where [simp]: "t = (io, po, d)" by (cases t)
    from It have t: "io = ?off + j * ?st" "po = j * ps" "rect_map ?off ?st ?x W j g (r_data rdr) d"
      by (simp_all add: I_def)
    have len: "length d = length (r_data rdr)" using t(3) by (rule rect_map_length)
    have "j * ?st \<le> (height - 1) * ?st" using j fit by (intro mult_right_mono) simp_all
    then have bound: "?off + j * ?st + ?x + W \<le> int (length d)" using last j len by simp
    have nn: "0 \<le> ?off + j * ?st + ?x" using fit j by simp
    have iidx: "i32 (io + ?x * r_imagePixelStride rdr) = ?off + j * ?st + ?x"
      using fit t(1) bound nn len by (simp add: i32_id)
    from row [OF j len refl nn bound] obtain d'
      where d': "row (?off + j * ?st + ?x) (j * ps) d = Some d'"
        and s: "slice_map (?off + j * ?st + ?x) W (g j) d d'" by blast
    have "rect_map ?off ?st ?x W (j + 1) g (r_data rdr) d'"
      using t(3) s j fit by (intro rect_map_snoc) simp_all
    with d' iidx t show "\<exists>u. ?f j t = Some u \<and> I (j + 1) u"
      by (simp add: I_def algebra_simps)
  qed
  then obtain io po d where "cfor height ?f (?off, 0, r_data rdr) = Some (io, po, d)"
    and rm: "rect_map ?off ?st ?x W (max 0 height) g (r_data rdr) d" by (auto simp: I_def)
  moreover have "rect_map ?off ?st ?x W height g (r_data rdr) d"
    using rm by (cases "0 \<le> height") (auto simp: max_def rect_map_def Let_def)
  ultimately show ?thesis by (auto simp: emit_rows_def)
qed

section \<open>The emitters fill their rectangle\<close>

text \<open>
  What the callers establish: unit pixel stride, the touched span inside of an image row, the rows
  inside of the image, fractional edges in \<open>0..<65536\<close> that fit in the span.
\<close>

definition nz :: "jint \<Rightarrow> jint" where "nz e = (if e \<noteq> 0 then 1 else 0)"

definition line_fit :: "'f renderer \<Rightarrow> jint \<Rightarrow> bool" where
  "line_fit rdr height \<longleftrightarrow>
     r_imagePixelStride rdr = 1 \<and> 0 \<le> r_minTouched rdr \<and> 0 \<le> r_alphaWidth rdr \<and>
     r_minTouched rdr + r_alphaWidth rdr \<le> r_imageScanlineStride rdr \<and> 0 < r_imageScanlineStride rdr \<and>
     0 \<le> r_currImageOffset rdr \<and> length (r_data rdr) < 2147483648 \<and>
     r_currImageOffset rdr + (height - 1) * r_imageScanlineStride rdr + r_minTouched rdr + r_alphaWidth rdr
       \<le> int (length (r_data rdr)) \<and>
     0 \<le> r_el_lfrac rdr \<and> r_el_lfrac rdr < 65536 \<and> 0 \<le> r_el_rfrac rdr \<and> r_el_rfrac rdr < 65536 \<and>
     nz (r_el_lfrac rdr) + nz (r_el_rfrac rdr) \<le> r_alphaWidth rdr"

definition paint_fit :: "'f renderer \<Rightarrow> jint \<Rightarrow> bool" where
  "paint_fit rdr height \<longleftrightarrow> height * r_alphaWidth rdr \<le> int (length (r_paint rdr))"

text \<open>The rectangle of a call: \<open>height\<close> rows of \<open>W\<close> pixels from the current offset on.\<close>

abbreviation line_rect ::
  "'f renderer \<Rightarrow> jint \<Rightarrow> jint \<Rightarrow> (jint \<Rightarrow> jint \<Rightarrow> pixel \<Rightarrow> pixel) \<Rightarrow> pixel list \<Rightarrow> bool" where
  "line_rect rdr W height g d \<equiv>
     rect_map (r_currImageOffset rdr) (r_imageScanlineStride rdr) (r_minTouched rdr) W height g (r_data rdr) d"

lemma emit_rows_emit_row:
  assumes fit: "line_fit rdr height" and w: "0 \<le> w"
    and W: "W = w + (if l then 1 else 0) + (if r then 1 else 0)" "W \<le> r_alphaWidth rdr"
    and f: "\<And>j i p. 0 \<le> j \<Longrightarrow> j < height \<Longrightarrow> 0 \<le> i \<Longrightarrow> i < W \<Longrightarrow>
      (if l \<and> i = 0 then fl else if r \<and> i = W - 1 then fr else fm) (j * ps + i) p = Some (g j i p)"
  shows "\<exists>d. emit_rows rdr height ps (emit_row (r_imagePixelStride rdr) w l r fl fm fr) =
      Some (rdr\<lparr>r_data := d\<rparr>) \<and> line_rect rdr W height g d"
proof (rule emit_rows_rect)
  have W0: "0 \<le> W" using w W(1) by auto
  then show "0 \<le> W" .
  show "r_imagePixelStride rdr = 1" "0 \<le> r_minTouched rdr" "0 < r_imageScanlineStride rdr"
    "0 \<le> r_currImageOffset rdr" "length (r_data rdr) < 2147483648"
    "r_minTouched rdr + W \<le> r_imageScanlineStride rdr"
    using fit W(2) by (simp_all add: line_fit_def)
  show "r_currImageOffset rdr + (height - 1) * r_imageScanlineStride rdr + r_minTouched rdr + W
      \<le> int (length (r_data rdr))" if "0 < height"
    using fit W(2) by (simp add: line_fit_def)
next
  fix j a :: int and d :: "pixel list"
  assume j: "0 \<le> j" "j < height" and a: "0 \<le> a" "a + W \<le> int (length d)"
  have ps: "r_imagePixelStride rdr = 1" using fit by (simp add: line_fit_def)
  have "\<exists>d'. emit_row 1 w l r fl fm fr a (j * ps) d = Some d' \<and>
    slice_map a (w + (if l then 1 else 0) + (if r then 1 else 0)) (g j) d d'"
    using w a f [OF j] unfolding W(1) by (intro emit_row_slice) simp_all
  then show "\<exists>d'. emit_row (r_imagePixelStride rdr) w l r fl fm fr a (j * ps) d = Some d' \<and>
    slice_map a W (g j) d d'"
    by (simp add: W(1) ps)
qed

text \<open>A narrower rectangle is a rectangle whose other columns keep their value.\<close>

lemma rect_map_widen:
  assumes "rect_map off stride x0 w h g xs ys" "w \<le> w'"
  shows "rect_map off stride x0 w' h (\<lambda>j i p. if i < w then g j i p else p) xs ys"
  using assms by (auto simp: rect_map_def Let_def)

lemma fit_frac_range:
  "line_fit rdr h \<Longrightarrow> 0 \<le> fr \<Longrightarrow> fr \<le> 65536 \<Longrightarrow>
   i32 (sar64 16 (r_el_lfrac rdr * fr)) = r_el_lfrac rdr * fr div 65536"
  "line_fit rdr h \<Longrightarrow> 0 \<le> fr \<Longrightarrow> fr \<le> 65536 \<Longrightarrow>
   i32 (sar64 16 (r_el_rfrac rdr * fr)) = r_el_rfrac rdr * fr div 65536"
proof -
  have *: "i32 (sar64 16 (e * fr)) = e * fr div 65536"
    if e: "0 \<le> e" "e < 65536" and fr: "0 \<le> fr" "fr \<le> 65536" for e fr :: int
  proof -
    have "e * fr \<le> 65536 * 65536" using e fr by (intro mult_mono) simp_all
    moreover have "0 \<le> e * fr" using e fr by simp
    ultimately show ?thesis by (simp add: sar64_id i32_id)
  qed
  show "line_fit rdr h \<Longrightarrow> 0 \<le> fr \<Longrightarrow> fr \<le> 65536 \<Longrightarrow>
     i32 (sar64 16 (r_el_lfrac rdr * fr)) = r_el_lfrac rdr * fr div 65536"
    "line_fit rdr h \<Longrightarrow> 0 \<le> fr \<Longrightarrow> fr \<le> 65536 \<Longrightarrow>
     i32 (sar64 16 (r_el_rfrac rdr * fr)) = r_el_rfrac rdr * fr div 65536"
    by (auto simp: line_fit_def intro!: *)
qed

lemma nz_scaled:
  assumes "0 \<le> e" "e < 65536" "0 \<le> fr" "fr \<le> 65536"
  shows "nz (e * fr div 65536) \<le> nz e"
  using assms by (auto simp: nz_def)

lemma nz_if: "(if e \<noteq> 0 then 1 else 0) = nz e" "0 \<le> nz e" "nz e \<le> 1"
  by (simp_all add: nz_def)

text \<open>The coverage source-over uses in column \<open>i\<close> of a row of width \<open>W\<close>.\<close>

definition over_alpha :: "'f renderer \<Rightarrow> jint \<Rightarrow> jint \<Rightarrow> jint" where
  "over_alpha rdr fr i =
    (let alpha = sar 16 (r_calpha rdr * fr);
         edge = (\<lambda>e. if alpha = MAX_ALPHA then sar 8 e else sar 16 (e * alpha))
     in if r_el_lfrac rdr \<noteq> 0 \<and> i = 0 then edge (r_el_lfrac rdr)
        else if r_el_rfrac rdr \<noteq> 0 \<and> i = r_alphaWidth rdr - 1 then edge (r_el_rfrac rdr)
        else alpha)"

lemma blendSrcOver_opaque:
  assumes "byte r" "byte g" "byte b"
  shows "blendSrcOver8888_pre MAX_ALPHA r g b p =
    0xFF000000 OR push_bit 16 (word_of_int r) OR push_bit 8 (word_of_int g) OR word_of_int b"
proof -
  have "(255 :: int) * 255 = 65025" by simp
  have "div255 65025 = 255" by (simp add: div255_eq)
  then show ?thesis
    using assms by (simp add: blendSrcOver8888_pre_def MAX_ALPHA_def Let_def pack_def)
qed

definition colour_bytes :: "'f renderer \<Rightarrow> bool" where
  "colour_bytes rdr \<longleftrightarrow> byte (r_calpha rdr) \<and> byte (r_cred rdr) \<and> byte (r_cgreen rdr) \<and> byte (r_cblue rdr)"

lemma emitLineSourceOver_rect:
  assumes fit: "line_fit rdr height" and col: "colour_bytes rdr"
  shows "\<exists>d. emitLineSourceOver8888_pre rdr height fr = Some (rdr\<lparr>r_data := d\<rparr>) \<and>
    line_rect rdr (r_alphaWidth rdr) height
      (\<lambda>j i. blendSrcOver8888_pre (over_alpha rdr fr i) (r_cred rdr) (r_cgreen rdr) (r_cblue rdr)) d"
proof -
  have nz: "nz (r_el_lfrac rdr) + nz (r_el_rfrac rdr) \<le> r_alphaWidth rdr" using fit by (simp add: line_fit_def)
  have op: "0xFF000000 OR push_bit 16 (word_of_int (r_cred rdr)) OR push_bit 8 (word_of_int (r_cgreen rdr))
      OR word_of_int (r_cblue rdr) = blendSrcOver8888_pre MAX_ALPHA (r_cred rdr) (r_cgreen rdr) (r_cblue rdr) p"
    for p using col by (simp add: blendSrcOver_opaque colour_bytes_def)
  show ?thesis
  proof (cases "sar 16 (r_calpha rdr * fr) = MAX_ALPHA")
    case True
    show ?thesis
      unfolding emitLineSourceOver8888_pre_def Let_def if_P [OF True]
      by (rule emit_rows_emit_row [OF fit]) (use True nz in \<open>auto simp: over_alpha_def Let_def nz_def op\<close>)
  next
    case False
    show ?thesis
      unfolding emitLineSourceOver8888_pre_def Let_def if_not_P [OF False]
      by (rule emit_rows_emit_row [OF fit]) (use False nz in \<open>auto simp: over_alpha_def Let_def nz_def\<close>)
  qed
qed

text \<open>The edge fractions scaled by the row's coverage.\<close>

definition scaled :: "jint \<Rightarrow> jint \<Rightarrow> jint" where "scaled e fr = e * fr div 65536"

lemma scaled_range:
  assumes "0 \<le> e" "e < 65536" "0 \<le> fr" "fr \<le> 65536"
  shows "0 \<le> scaled e fr" "scaled e fr < 65536" "nz (scaled e fr) \<le> nz e"
proof -
  have "e * fr \<le> 65535 * 65536" using assms by (intro mult_mono) simp_all
  then have "e * fr div 65536 \<le> 65535 * 65536 div 65536" by (intro zdiv_mono1) simp_all
  then show "scaled e fr < 65536" by (simp add: scaled_def)
  show "0 \<le> scaled e fr" using assms by (simp add: scaled_def pos_imp_zdiv_nonneg_iff)
  show "nz (scaled e fr) \<le> nz e" using nz_scaled [OF assms] by (simp add: scaled_def)
qed

lemma fit_scaled:
  assumes "line_fit rdr h" "0 \<le> fr" "fr \<le> 65536"
  shows "i32 (sar64 16 (r_el_lfrac rdr * fr)) = scaled (r_el_lfrac rdr) fr"
    and "i32 (sar64 16 (r_el_rfrac rdr * fr)) = scaled (r_el_rfrac rdr) fr"
    and "nz (scaled (r_el_lfrac rdr) fr) + nz (scaled (r_el_rfrac rdr) fr) \<le> r_alphaWidth rdr"
proof -
  show "i32 (sar64 16 (r_el_lfrac rdr * fr)) = scaled (r_el_lfrac rdr) fr"
    "i32 (sar64 16 (r_el_rfrac rdr * fr)) = scaled (r_el_rfrac rdr) fr"
    using fit_frac_range [OF assms] by (simp_all add: scaled_def)
  show "nz (scaled (r_el_lfrac rdr) fr) + nz (scaled (r_el_rfrac rdr) fr) \<le> r_alphaWidth rdr"
    using scaled_range(3) [of "r_el_lfrac rdr" fr] scaled_range(3) [of "r_el_rfrac rdr" fr] assms
    by (simp add: line_fit_def)
qed

text \<open>The coverage of column \<open>i\<close> once both fractions are applied.\<close>

definition pt_frac :: "'f renderer \<Rightarrow> jint \<Rightarrow> jint \<Rightarrow> jint" where
  "pt_frac rdr fr i =
    (let l = scaled (r_el_lfrac rdr) fr; r = scaled (r_el_rfrac rdr) fr
     in if l \<noteq> 0 \<and> i = 0 then l else if r \<noteq> 0 \<and> i = r_alphaWidth rdr - 1 then r else fr)"

definition paint_at :: "'f renderer \<Rightarrow> jint \<Rightarrow> jint \<Rightarrow> pixel" where
  "paint_at rdr j i = r_paint rdr ! nat (j * r_alphaWidth rdr + i)"

lemma rd_paint_at:
  assumes "paint_fit rdr h" "0 \<le> j" "j < h" "0 \<le> i" "i < r_alphaWidth rdr"
  shows "rd (r_paint rdr) (j * r_alphaWidth rdr + i) = Some (paint_at rdr j i)"
proof -
  have "(j + 1) * r_alphaWidth rdr \<le> h * r_alphaWidth rdr" using assms by (intro mult_right_mono) simp_all
  then have "j * r_alphaWidth rdr + i < int (length (r_paint rdr))"
    using assms by (simp add: paint_fit_def algebra_simps)
  with assms show ?thesis by (simp add: rd_in paint_at_def)
qed

text \<open>The first \<open>h\<close> rows of the paint buffer are premultiplied.\<close>

definition paint_premult :: "'f renderer \<Rightarrow> jint \<Rightarrow> bool" where
  "paint_premult rdr h \<longleftrightarrow> (\<forall>k. 0 \<le> k \<and> k < h * r_alphaWidth rdr \<longrightarrow> premult (r_paint rdr ! nat k))"

lemma paint_at_premult:
  assumes "paint_premult rdr h" "0 \<le> j" "j < h" "0 \<le> i" "i < r_alphaWidth rdr"
  shows "premult (paint_at rdr j i)"
proof -
  have "(j + 1) * r_alphaWidth rdr \<le> h * r_alphaWidth rdr" using assms by (intro mult_right_mono) simp_all
  then have "j * r_alphaWidth rdr + i < h * r_alphaWidth rdr" using assms by (simp add: algebra_simps)
  with assms show ?thesis by (simp add: paint_premult_def paint_at_def)
qed

text \<open>The three ways of the full-coverage switch are one blend.\<close>

lemma full_cover_switch:
  assumes "premult c"
  shows "(if chA c = 0 then p else if chA c = MAX_ALPHA then c
          else blendSrcOver8888_pre_pre_fullFrac (chA c) (chR c) (chG c) (chB c) p) =
         blendSrcOver8888_pre_pre 256 (chA c) (chR c) (chG c) (chB c) p"
  using assms blendSrcOver_full_transparent [of c 256 p] blendSrcOver_full_opaque [of c p]
  by (auto simp: MAX_ALPHA_def blendSrcOver_fullFrac_eq)

definition ptover_pix :: "'f renderer \<Rightarrow> jint \<Rightarrow> jint \<Rightarrow> jint \<Rightarrow> pixel \<Rightarrow> pixel" where
  "ptover_pix rdr fr j i p =
    (let c = paint_at rdr j i
     in blendSrcOver8888_pre_pre (pt_frac rdr fr i div 256) (chA c) (chR c) (chG c) (chB c) p)"

lemma emitLinePTSourceOver_rect:
  assumes fit: "line_fit rdr height" and pf: "paint_fit rdr height" "paint_premult rdr height"
    and fr: "0 \<le> fr" "fr \<le> 65536"
  shows "\<exists>d. emitLinePTSourceOver8888_pre rdr height fr = Some (rdr\<lparr>r_data := d\<rparr>) \<and>
    line_rect rdr (r_alphaWidth rdr) height (ptover_pix rdr fr) d"
proof -
  note sc = fit_scaled [OF fit fr]
  have lr: "0 \<le> r_el_lfrac rdr" "r_el_lfrac rdr < 65536" "0 \<le> r_el_rfrac rdr" "r_el_rfrac rdr < 65536"
    using fit by (simp_all add: line_fit_def)
  note rg = scaled_range [OF lr(1,2) fr] scaled_range [OF lr(3,4) fr]
  have s8: "sar 8 e = e div 256" if "0 \<le> e" "e \<le> 65536" for e using that by (simp add: sar_id)
  show ?thesis
    unfolding emitLinePTSourceOver8888_pre_def Let_def sc(1,2)
  proof (rule emit_rows_emit_row [OF fit, where W = "r_alphaWidth rdr"])
    fix j i :: int and p :: pixel
    assume j: "0 \<le> j" "j < height" and i: "0 \<le> i" "i < r_alphaWidth rdr"
    define k where "k = j * r_alphaWidth rdr + i"
    define c where "c = paint_at rdr j i"
    have rdp: "rd (r_paint rdr) k = Some c" using rd_paint_at [OF pf(1) j i] by (simp add: k_def c_def)
    have pp: "ptover_pix rdr fr j i p =
      blendSrcOver8888_pre_pre (pt_frac rdr fr i div 256) (chA c) (chR c) (chG c) (chB c) p"
      by (simp add: ptover_pix_def c_def Let_def)
    have pm: "premult c" using paint_at_premult [OF pf(2) j i] by (simp add: c_def)
    note sw = full_cover_switch [OF pm, of p]
    show "(if scaled (r_el_lfrac rdr) fr \<noteq> 0 \<and> i = 0 then \<lambda>aidx p. do {
             cval \<leftarrow> rd (r_paint rdr) aidx;
             Some (blendSrcOver8888_pre_pre (sar 8 (scaled (r_el_lfrac rdr) fr)) (chA cval) (chR cval) (chG cval) (chB cval) p) }
          else if scaled (r_el_rfrac rdr) fr \<noteq> 0 \<and> i = r_alphaWidth rdr - 1 then \<lambda>aidx p. do {
             cval \<leftarrow> rd (r_paint rdr) aidx;
             Some (blendSrcOver8888_pre_pre (sar 8 (scaled (r_el_rfrac rdr) fr)) (chA cval) (chR cval) (chG cval) (chB cval) p) }
          else if fr = 65536 then \<lambda>aidx p. do {
             cval \<leftarrow> rd (r_paint rdr) aidx;
             Some (if chA cval = 0 then p else if chA cval = MAX_ALPHA then cval
                   else blendSrcOver8888_pre_pre_fullFrac (chA cval) (chR cval) (chG cval) (chB cval) p) }
          else (\<lambda>aidx p. do {
             cval \<leftarrow> rd (r_paint rdr) aidx;
             Some (blendSrcOver8888_pre_pre (sar 8 fr) (chA cval) (chR cval) (chG cval) (chB cval) p) }))
       (j * r_alphaWidth rdr + i) p = Some (ptover_pix rdr fr j i p)"
      unfolding k_def [symmetric] pp using rg fr sw by (simp add: rdp pt_frac_def Let_def s8)
  qed (use sc(3) in \<open>simp_all add: nz_if\<close>)
qed

text \<open>
  The source rule. \<^verbatim>\<open>emitLineSource8888_pre\<close> counts the run with the unscaled fractions and
  draws the edges with the scaled ones: where a scaled fraction is 0 the run is a column short.
\<close>

definition src_width :: "'f renderer \<Rightarrow> jint \<Rightarrow> jint" where
  "src_width rdr fr = (let l = r_el_lfrac rdr; r = r_el_rfrac rdr
     in if fr = 65536 then r_alphaWidth rdr
        else r_alphaWidth rdr - nz l - nz r + nz (scaled l fr) + nz (scaled r fr))"

definition src_pix :: "'f renderer \<Rightarrow> jint \<Rightarrow> jint \<Rightarrow> pixel \<Rightarrow> pixel" where
  "src_pix rdr fr i p =
    (let l = (if fr = 65536 then r_el_lfrac rdr else scaled (r_el_lfrac rdr) fr);
         r = (if fr = 65536 then r_el_rfrac rdr else scaled (r_el_rfrac rdr) fr);
         blend = (\<lambda>e. blendSrc8888_pre (r_calpha rdr) (255 - e div 256) (r_cred rdr) (r_cgreen rdr) (r_cblue rdr) p)
     in if src_width rdr fr \<le> i then p
        else if l \<noteq> 0 \<and> i = 0 then blend l
        else if r \<noteq> 0 \<and> i = src_width rdr fr - 1 then blend r
        else if fr = 65536 then
          pack (r_calpha rdr) (sar 8 ((r_calpha rdr + 1) * r_cred rdr)) (sar 8 ((r_calpha rdr + 1) * r_cgreen rdr))
            (sar 8 ((r_calpha rdr + 1) * r_cblue rdr))
        else blend fr)"

lemma line_rect_widen:
  assumes "line_rect rdr W h g d" "W \<le> W'" "\<And>j i p. W \<le> i \<Longrightarrow> g' j i p = p"
    "\<And>j i p. 0 \<le> i \<Longrightarrow> i < W \<Longrightarrow> g' j i p = g j i p"
  shows "line_rect rdr W' h g' d"
  using assms unfolding rect_map_def Let_def by auto

lemma emitLineSource_rect:
  assumes fit: "line_fit rdr height" and fr: "0 \<le> fr" "fr \<le> 65536"
  shows "\<exists>d. emitLineSource8888_pre rdr height fr = Some (rdr\<lparr>r_data := d\<rparr>) \<and>
    line_rect rdr (r_alphaWidth rdr) height (\<lambda>j. src_pix rdr fr) d"
proof -
  note sc = fit_scaled [OF fit fr]
  have lr: "0 \<le> r_el_lfrac rdr" "r_el_lfrac rdr < 65536" "0 \<le> r_el_rfrac rdr" "r_el_rfrac rdr < 65536"
    and nz: "nz (r_el_lfrac rdr) + nz (r_el_rfrac rdr) \<le> r_alphaWidth rdr"
    using fit by (simp_all add: line_fit_def)
  note rg = scaled_range [OF lr(1,2) fr] scaled_range [OF lr(3,4) fr]
  have s8: "sar 8 e = e div 256" if "0 \<le> e" "e \<le> 65536" for e using that by (simp add: sar_id)
  have W: "src_width rdr fr \<le> r_alphaWidth rdr" using rg by (simp add: src_width_def Let_def)
  have "\<exists>d. emitLineSource8888_pre rdr height fr = Some (rdr\<lparr>r_data := d\<rparr>) \<and>
    line_rect rdr (src_width rdr fr) height (\<lambda>j. src_pix rdr fr) d"
  proof (cases "fr = 65536")
    case True
    then have w: "src_width rdr fr = r_alphaWidth rdr" by (simp add: src_width_def)
    show ?thesis
      unfolding emitLineSource8888_pre_def Let_def if_P [OF True] w
      by (rule emit_rows_emit_row [OF fit])
        (use True nz lr w in \<open>auto simp: src_pix_def Let_def nz_if s8\<close>)
  next
    case False
    have w: "src_width rdr fr = r_alphaWidth rdr - nz (r_el_lfrac rdr) - nz (r_el_rfrac rdr)
        + nz (scaled (r_el_lfrac rdr) fr) + nz (scaled (r_el_rfrac rdr) fr)"
      using False by (simp add: src_width_def Let_def)
    show ?thesis
      unfolding emitLineSource8888_pre_def Let_def if_not_P [OF False] sc(1,2)
    proof (rule emit_rows_emit_row [OF fit])
      show "0 \<le> r_alphaWidth rdr - (if r_el_lfrac rdr \<noteq> 0 then 1 else 0) - (if r_el_rfrac rdr \<noteq> 0 then 1 else 0)"
        using nz by (simp add: nz_if)
    next
      fix j i :: int and p :: pixel
      assume "0 \<le> i" "i < src_width rdr fr"
      then show "(if scaled (r_el_lfrac rdr) fr \<noteq> 0 \<and> i = 0 then
            \<lambda>aidx p. Some (blendSrc8888_pre (r_calpha rdr) (255 - sar 8 (scaled (r_el_lfrac rdr) fr))
               (r_cred rdr) (r_cgreen rdr) (r_cblue rdr) p)
          else if scaled (r_el_rfrac rdr) fr \<noteq> 0 \<and> i = src_width rdr fr - 1 then
            \<lambda>aidx p. Some (blendSrc8888_pre (r_calpha rdr) (255 - sar 8 (scaled (r_el_rfrac rdr) fr))
               (r_cred rdr) (r_cgreen rdr) (r_cblue rdr) p)
          else (\<lambda>aidx p. Some (blendSrc8888_pre (r_calpha rdr) (255 - sar 8 fr)
               (r_cred rdr) (r_cgreen rdr) (r_cblue rdr) p))) (j * 0 + i) p = Some (src_pix rdr fr i p)"
        using False rg fr by (simp add: src_pix_def Let_def s8)
    qed (use W in \<open>simp_all add: w nz_if\<close>)
  qed
  then obtain d where d: "emitLineSource8888_pre rdr height fr = Some (rdr\<lparr>r_data := d\<rparr>)"
    and r: "line_rect rdr (src_width rdr fr) height (\<lambda>j. src_pix rdr fr) d" by blast
  have "line_rect rdr (r_alphaWidth rdr) height (\<lambda>j. src_pix rdr fr) d"
    by (rule line_rect_widen [OF r W]) (simp_all add: src_pix_def Let_def)
  with d show ?thesis by blast
qed

definition ptsrc_pix :: "'f renderer \<Rightarrow> jint \<Rightarrow> jint \<Rightarrow> jint \<Rightarrow> pixel \<Rightarrow> pixel" where
  "ptsrc_pix rdr fr j i p =
    (let c = paint_at rdr j i; f = pt_frac rdr fr i
     in if f = 65536 then c else blendSrc8888_pre_pre (chA c) (255 - f div 256) (chR c) (chG c) (chB c) p)"

lemma emitLinePTSource_rect:
  assumes fit: "line_fit rdr height" and pf: "paint_fit rdr height" and fr: "0 \<le> fr" "fr \<le> 65536"
  shows "\<exists>d. emitLinePTSource8888_pre rdr height fr = Some (rdr\<lparr>r_data := d\<rparr>) \<and>
    line_rect rdr (r_alphaWidth rdr) height (ptsrc_pix rdr fr) d"
proof -
  note sc = fit_scaled [OF fit fr]
  have lr: "0 \<le> r_el_lfrac rdr" "r_el_lfrac rdr < 65536" "0 \<le> r_el_rfrac rdr" "r_el_rfrac rdr < 65536"
    using fit by (simp_all add: line_fit_def)
  note rg = scaled_range [OF lr(1,2) fr] scaled_range [OF lr(3,4) fr]
  have s8: "sar 8 e = e div 256" if "0 \<le> e" "e \<le> 65536" for e using that by (simp add: sar_id)
  define blend where "blend = (\<lambda>ra aidx p. do { cval \<leftarrow> rd (r_paint rdr) aidx;
                    Some (blendSrc8888_pre_pre (chA cval) ra (chR cval) (chG cval) (chB cval) p) })"
  have fold: "(\<lambda>aidx p. do { cval \<leftarrow> rd (r_paint rdr) aidx;
      Some (blendSrc8888_pre_pre (chA cval) ra (chR cval) (chG cval) (chB cval) p) }) = blend ra" for ra
    by (simp add: blend_def)
  show ?thesis
    unfolding emitLinePTSource8888_pre_def Let_def sc(1,2) fold
  proof (rule emit_rows_emit_row [OF fit, where W = "r_alphaWidth rdr"])
    fix j i :: int and p :: pixel
    assume j: "0 \<le> j" "j < height" and i: "0 \<le> i" "i < r_alphaWidth rdr"
    define k where "k = j * r_alphaWidth rdr + i"
    define c where "c = paint_at rdr j i"
    have rdp: "rd (r_paint rdr) k = Some c" using rd_paint_at [OF pf(1) j i] by (simp add: k_def c_def)
    have pp: "ptsrc_pix rdr fr j i p = (if pt_frac rdr fr i = 65536 then c else
        blendSrc8888_pre_pre (chA c) (255 - pt_frac rdr fr i div 256) (chR c) (chG c) (chB c) p)"
      by (simp add: ptsrc_pix_def c_def Let_def)
    show "(if scaled (r_el_lfrac rdr) fr \<noteq> 0 \<and> i = 0 then blend (255 - sar 8 (scaled (r_el_lfrac rdr) fr))
          else if scaled (r_el_rfrac rdr) fr \<noteq> 0 \<and> i = r_alphaWidth rdr - 1
               then blend (255 - sar 8 (scaled (r_el_rfrac rdr) fr))
          else if fr = 65536 then (\<lambda>aidx p. rd (r_paint rdr) aidx) else blend (255 - sar 8 fr))
       (j * r_alphaWidth rdr + i) p = Some (ptsrc_pix rdr fr j i p)"
      unfolding k_def [symmetric] pp using rg fr by (simp add: rdp pt_frac_def Let_def s8 blend_def)
  qed (use sc(3) in \<open>simp_all add: nz_if\<close>)
qed

section \<open>The contract of an emitter\<close>

text \<open>
  What \<^verbatim>\<open>fillRect\<close> relies on: a call fills the rectangle of the touched span, pixel \<open>i\<close> of row \<open>j\<close>
  by \<open>pix rdr fr j i\<close> of its old value, whenever the span lies in the image and the paint is ready.
\<close>

locale line_emitter =
  fixes emit :: "'f renderer \<Rightarrow> jint \<Rightarrow> jint \<Rightarrow> 'f renderer option"
    and ready :: "'f renderer \<Rightarrow> jint \<Rightarrow> bool"
    and pix :: "'f renderer \<Rightarrow> jint \<Rightarrow> jint \<Rightarrow> jint \<Rightarrow> pixel \<Rightarrow> pixel"
  assumes draws: "line_fit rdr h \<Longrightarrow> ready rdr h \<Longrightarrow> 0 \<le> fr \<Longrightarrow> fr \<le> 65536 \<Longrightarrow>
    \<exists>d. emit rdr h fr = Some (rdr\<lparr>r_data := d\<rparr>) \<and> line_rect rdr (r_alphaWidth rdr) h (pix rdr fr) d"
begin

lemma emits:
  assumes "line_fit rdr h" "ready rdr h" "0 \<le> fr" "fr \<le> 65536"
  obtains d where "emit rdr h fr = Some (rdr\<lparr>r_data := d\<rparr>)"
    "line_rect rdr (r_alphaWidth rdr) h (pix rdr fr) d" "length d = length (r_data rdr)"
  using draws [OF assms] rect_map_length by blast

lemma keeps_outside:
  assumes "line_fit rdr h" "ready rdr h" "0 \<le> fr" "fr \<le> 65536"
    and "emit rdr h fr = Some rdr'" "k < length (r_data rdr)"
    and "(int k - r_currImageOffset rdr) mod r_imageScanlineStride rdr < r_minTouched rdr \<or>
         r_minTouched rdr + r_alphaWidth rdr \<le> (int k - r_currImageOffset rdr) mod r_imageScanlineStride rdr"
  shows "r_data rdr' ! k = r_data rdr ! k"
proof -
  obtain d where d: "emit rdr h fr = Some (rdr\<lparr>r_data := d\<rparr>)"
    and r: "line_rect rdr (r_alphaWidth rdr) h (pix rdr fr) d"
    using emits [OF assms(1-4)] by blast
  from d assms(5) have "r_data rdr' = d" by auto
  with rect_map_outside [OF r assms(6)] assms(7) show ?thesis by simp
qed

end

interpretation le_over: line_emitter emitLineSourceOver8888_pre "\<lambda>rdr h. colour_bytes rdr"
  "\<lambda>rdr fr j i. blendSrcOver8888_pre (over_alpha rdr fr i) (r_cred rdr) (r_cgreen rdr) (r_cblue rdr)"
  by unfold_locales (rule emitLineSourceOver_rect)

interpretation le_ptover: line_emitter emitLinePTSourceOver8888_pre
  "\<lambda>rdr h. paint_fit rdr h \<and> paint_premult rdr h" ptover_pix
  by unfold_locales (blast intro: emitLinePTSourceOver_rect)

interpretation le_src: line_emitter emitLineSource8888_pre "\<lambda>rdr h. True" "\<lambda>rdr fr j. src_pix rdr fr"
  by unfold_locales (rule emitLineSource_rect)

interpretation le_ptsrc: line_emitter emitLinePTSource8888_pre paint_fit ptsrc_pix
  by unfold_locales (rule emitLinePTSource_rect)

text \<open>The contract of a call through \<^verbatim>\<open>_emitLine\<close>.\<close>

fun line_ready :: "line_fn \<Rightarrow> 'f renderer \<Rightarrow> jint \<Rightarrow> bool" where
  "line_ready Emit_LineSource rdr h = True"
| "line_ready Emit_LineSourceOver rdr h = colour_bytes rdr"
| "line_ready Emit_LinePTSource rdr h = paint_fit rdr h"
| "line_ready Emit_LinePTSourceOver rdr h = (paint_fit rdr h \<and> paint_premult rdr h)"

fun line_pix :: "line_fn \<Rightarrow> 'f renderer \<Rightarrow> jint \<Rightarrow> jint \<Rightarrow> jint \<Rightarrow> pixel \<Rightarrow> pixel" where
  "line_pix Emit_LineSource rdr fr j i = src_pix rdr fr i"
| "line_pix Emit_LineSourceOver rdr fr j i =
     blendSrcOver8888_pre (over_alpha rdr fr i) (r_cred rdr) (r_cgreen rdr) (r_cblue rdr)"
| "line_pix Emit_LinePTSource rdr fr j i = ptsrc_pix rdr fr j i"
| "line_pix Emit_LinePTSourceOver rdr fr j i = ptover_pix rdr fr j i"

lemma line_pix_fun:
  "line_pix Emit_LineSource rdr fr = (\<lambda>j. src_pix rdr fr)"
  "line_pix Emit_LineSourceOver rdr fr =
     (\<lambda>j i. blendSrcOver8888_pre (over_alpha rdr fr i) (r_cred rdr) (r_cgreen rdr) (r_cblue rdr))"
  "line_pix Emit_LinePTSource rdr fr = ptsrc_pix rdr fr"
  "line_pix Emit_LinePTSourceOver rdr fr = ptover_pix rdr fr"
  by (simp_all add: fun_eq_iff)

interpretation le_call: line_emitter "call_emitLine (Some fn)" "line_ready fn" "line_pix fn" for fn
proof
  fix rdr :: "'f renderer" and h fr :: int
  assume "line_fit rdr h" "line_ready fn rdr h" "0 \<le> fr" "fr \<le> 65536"
  then show "\<exists>d. call_emitLine (Some fn) rdr h fr = Some (rdr\<lparr>r_data := d\<rparr>) \<and>
      line_rect rdr (r_alphaWidth rdr) h (line_pix fn rdr fr) d"
    using le_over.draws [of rdr h fr] le_ptover.draws [of rdr h fr] le_src.draws [of rdr h fr]
      le_ptsrc.draws [of rdr h fr]
    by (cases fn) (simp_all add: line_pix_fun)
qed

end
