(* ===== verification/Blit_Rows.thy ===== *)
theory Blit_Rows
  imports Emit_Lines
begin

text \<open>
  The row blitters of \<^verbatim>\<open>PiscesBlit.c\<close> (\<^verbatim>\<open>blit...8888_pre\<close>, \<^verbatim>\<open>clearRect8888_any\<close>). The antialiased
  ones turn the coverage deltas of \<^verbatim>\<open>_rowAAInt\<close> into a running sum, look it up in \<^verbatim>\<open>alphaMap\<close> and
  zero the deltas behind them; the masked ones read one coverage byte per pixel. \<open>aa_row\<close>,
  \<open>mask_row\<close> and \<open>lcd_row\<close> are those three loops over a pixel function, which says whether the
  pixel is written and how.
\<close>

unbundle bit_operations_syntax

section \<open>The loops\<close>

text \<open>A pixel function answers \<^term>\<open>None\<close> for an undefined access, else the write, if there is one.\<close>

type_synonym action = "(pixel \<Rightarrow> pixel option) option"

definition apply_action :: "pixel list \<Rightarrow> jint \<Rightarrow> action \<Rightarrow> pixel list option" where
  "apply_action d iidx act = (case act of None \<Rightarrow> Some d | Some f \<Rightarrow> updo d (i32 iidx) f)"

definition aa_row ::
  "jint \<Rightarrow> jint \<Rightarrow> (jint \<Rightarrow> jint \<Rightarrow> action option) \<Rightarrow> jint \<Rightarrow> jint list \<Rightarrow> pixel list \<Rightarrow>
   (jint list \<times> pixel list) option" where
  "aa_row ps w px iidx0 aa0 d0 = do {
     (_, _, _, _, aa, d) \<leftarrow> wloop (\<lambda>(a, aval_relative, aidx, iidx, aa, d). a < w)
       (\<lambda>(a, aval_relative, aidx, iidx, aa, d). do {
          v \<leftarrow> rd aa a;
          let aval_relative' = i32 (aval_relative + v);
          aa' \<leftarrow> wr aa a 0;
          act \<leftarrow> px aval_relative' aidx;
          d' \<leftarrow> apply_action d iidx act;
          Some (a + 1, aval_relative', aidx + 1, iidx + ps, aa', d') })
       (0, 0, 0, iidx0, aa0, d0);
     Some (aa, d)
   }"

definition mask_row ::
  "jint \<Rightarrow> jint \<Rightarrow> jbyte list \<Rightarrow> (jbyte \<Rightarrow> jint \<Rightarrow> action option) \<Rightarrow> jint \<Rightarrow> jint \<Rightarrow> pixel list \<Rightarrow>
   pixel list option" where
  "mask_row ps w alpha px iidx0 alphaOffset d0 = do {
     (_, _, _, d) \<leftarrow> wloop (\<lambda>(a, aidx, iidx, d). a < alphaOffset + w)
       (\<lambda>(a, aidx, iidx, d). do {
          b \<leftarrow> rd alpha a;
          act \<leftarrow> px b aidx;
          d' \<leftarrow> apply_action d iidx act;
          Some (a + 1, aidx + 1, iidx + ps, d') })
       (alphaOffset, 0, iidx0, d0);
     Some d
   }"

definition lcd_row ::
  "jint \<Rightarrow> jint \<Rightarrow> jbyte list \<Rightarrow> (jbyte \<Rightarrow> jbyte \<Rightarrow> jbyte \<Rightarrow> action) \<Rightarrow> jint \<Rightarrow> jint \<Rightarrow> pixel list \<Rightarrow>
   pixel list option" where
  "lcd_row ps w alpha px iidx0 alphaOffset d0 = do {
     (_, _, d) \<leftarrow> wloop (\<lambda>(a, iidx, d). a < alphaOffset + 3 * w)
       (\<lambda>(a, iidx, d). do {
          r \<leftarrow> rd alpha a; g \<leftarrow> rd alpha (a + 1); b \<leftarrow> rd alpha (a + 2);
          d' \<leftarrow> apply_action d iidx (px r g b);
          Some (a + 3, iidx + ps, d') })
       (alphaOffset, iidx0, d0);
     Some d
   }"

text \<open>\<^verbatim>\<open>w = (maxX >= minX) ? (maxX - minX + 1) : 0\<close>\<close>

definition touched_width :: "'f renderer \<Rightarrow> jint" where
  "touched_width rdr = (if r_minTouched rdr \<le> r_maxTouched rdr
     then i32 (r_maxTouched rdr - r_minTouched rdr + 1) else 0)"

definition aa_rows ::
  "'f renderer \<Rightarrow> jint \<Rightarrow> (jint \<Rightarrow> jint \<Rightarrow> action option) \<Rightarrow> 'f renderer option" where
  "aa_rows rdr height px = do {
     (_, aa, d) \<leftarrow> cfor height
       (\<lambda>j (imageOffset, aa, d). do {
          (aa', d') \<leftarrow> aa_row (r_imagePixelStride rdr) (touched_width rdr) px
             (imageOffset + r_minTouched rdr * r_imagePixelStride rdr) aa d;
          Some (imageOffset + r_imageScanlineStride rdr, aa', d') })
       (r_currImageOffset rdr, r_rowAAInt rdr, r_data rdr);
     Some (rdr\<lparr>r_rowAAInt := aa, r_data := d\<rparr>)
   }"

definition mask_rows ::
  "'f renderer \<Rightarrow> jint \<Rightarrow> jint \<Rightarrow> (jint \<Rightarrow> jint \<Rightarrow> pixel list \<Rightarrow> pixel list option) \<Rightarrow> 'f renderer option" where
  "mask_rows rdr height alphaStride row = do {
     (_, _, d) \<leftarrow> cfor height
       (\<lambda>j (imageOffset, alphaOffset, d). do {
          d' \<leftarrow> row (imageOffset + r_minTouched rdr * r_imagePixelStride rdr) alphaOffset d;
          Some (imageOffset + r_imageScanlineStride rdr, alphaOffset + alphaStride, d') })
       (r_currImageOffset rdr, r_maskOffset rdr, r_data rdr);
     Some (rdr\<lparr>r_data := d\<rparr>)
   }"

section \<open>The blitters\<close>

definition const_px :: "pixel \<Rightarrow> action" where "const_px c = Some (\<lambda>p. Some c)"
definition blend_px :: "(pixel \<Rightarrow> pixel) \<Rightarrow> action" where "blend_px f = Some (\<lambda>p. Some (f p))"

text \<open>The source rule at a coverage.\<close>

definition src_cover :: "'f renderer \<Rightarrow> jint \<Rightarrow> action" where
  "src_cover rdr acoverage =
    (if acoverage = MAX_ALPHA then
       const_px (pack (r_calpha rdr) (r_cred rdr) (r_cgreen rdr) (r_cblue rdr))
     else if 0 < acoverage then
       (let aval = sar 8 ((acoverage + 1) * r_calpha rdr)
        in blend_px (blendSrc8888_pre aval (255 - acoverage) (r_cred rdr) (r_cgreen rdr) (r_cblue rdr)))
     else None)"

definition blitSrc8888_pre :: "'f renderer \<Rightarrow> jint \<Rightarrow> 'f renderer option" where
  "blitSrc8888_pre rdr height =
     aa_rows rdr height (\<lambda>aval_relative aidx. do {
       acoverage \<leftarrow> rd (r_alphaMap rdr) aval_relative;
       Some (src_cover rdr (uint acoverage)) })"

definition blitSrcMask8888_pre :: "'f renderer \<Rightarrow> jint \<Rightarrow> 'f renderer option" where
  "blitSrcMask8888_pre rdr height =
     mask_rows rdr height (r_alphaWidth rdr)
       (mask_row (r_imagePixelStride rdr) (touched_width rdr) (r_mask_byteData rdr)
          (\<lambda>b aidx. Some (src_cover rdr (uint b))))"

text \<open>The source rule with a paint pixel.\<close>

definition ptsrc_cover :: "pixel \<Rightarrow> jint \<Rightarrow> action" where
  "ptsrc_cover cval acoverage =
    (if acoverage = MAX_ALPHA then const_px cval
     else if 0 < acoverage then
       (let aval = sar 8 ((acoverage + 1) * chA cval)
        in blend_px (blendSrc8888_pre_pre aval (255 - acoverage) (chR cval) (chG cval) (chB cval)))
     else None)"

definition blitPTSrc8888_pre :: "'f renderer \<Rightarrow> jint \<Rightarrow> 'f renderer option" where
  "blitPTSrc8888_pre rdr height =
     aa_rows rdr height (\<lambda>aval_relative aidx. do {
       cval \<leftarrow> rd (r_paint rdr) aidx;
       acoverage \<leftarrow> rd (r_alphaMap rdr) aval_relative;
       Some (ptsrc_cover cval (uint acoverage)) })"

definition blitPTSrcMask8888_pre :: "'f renderer \<Rightarrow> jint \<Rightarrow> 'f renderer option" where
  "blitPTSrcMask8888_pre rdr height =
     mask_rows rdr height 0
       (mask_row (r_imagePixelStride rdr) (touched_width rdr) (r_mask_byteData rdr)
          (\<lambda>b aidx. do {
             cval \<leftarrow> rd (r_paint rdr) aidx;
             Some (ptsrc_cover cval (uint b)) }))"

text \<open>Source-over with the flat colour.\<close>

definition over_cover :: "'f renderer \<Rightarrow> jint \<Rightarrow> action" where
  "over_cover rdr acoverage =
    (let aval = sar 8 ((acoverage + 1) * r_calpha rdr)
     in if aval = MAX_ALPHA then
          const_px (0xFF000000 OR push_bit 16 (word_of_int (r_cred rdr))
                    OR push_bit 8 (word_of_int (r_cgreen rdr)) OR word_of_int (r_cblue rdr))
        else if 0 < aval then
          blend_px (blendSrcOver8888_pre aval (r_cred rdr) (r_cgreen rdr) (r_cblue rdr))
        else None)"

definition blitSrcOver8888_pre :: "'f renderer \<Rightarrow> jint \<Rightarrow> 'f renderer option" where
  "blitSrcOver8888_pre rdr height =
     aa_rows rdr height (\<lambda>aval_relative aidx.
       if aval_relative \<noteq> 0 then do {
         aval \<leftarrow> rd (r_alphaMap rdr) aval_relative;
         Some (over_cover rdr (uint aval)) }
       else Some None)"

definition blitSrcOverMask8888_pre :: "'f renderer \<Rightarrow> jint \<Rightarrow> 'f renderer option" where
  "blitSrcOverMask8888_pre rdr height =
     mask_rows rdr height (r_alphaWidth rdr)
       (mask_row (r_imagePixelStride rdr) (touched_width rdr) (r_mask_byteData rdr)
          (\<lambda>b aidx. Some (if b \<noteq> 0 then over_cover rdr (uint b) else None)))"

text \<open>Source-over of subpixel text: one coverage byte per colour component.\<close>

definition lcd_cover ::
  "'f gamma_state \<Rightarrow> jint \<Rightarrow> jint \<Rightarrow> jint \<Rightarrow> jint \<Rightarrow> jbyte \<Rightarrow> jbyte \<Rightarrow> jbyte \<Rightarrow> action" where
  "lcd_cover gs calpha cred cgreen cblue r g b =
    (let scale = (\<lambda>x. if calpha < MAX_ALPHA then sar 8 ((x + 1) * calpha) else x);
         ared = scale (uint r); agreen = scale (uint g); ablue = scale (uint b);
         aval_ismax = ared AND agreen AND ablue
     in if aval_ismax = MAX_ALPHA then
          const_px (0xFF000000 OR push_bit 16 (word_of_int cred)
                    OR push_bit 8 (word_of_int cgreen) OR word_of_int cblue)
        else Some (blendLCDSrcOver8888_pre gs ared agreen ablue cred cgreen cblue))"

definition blitSrcOverLCDMask8888_pre ::
  "'f gamma_state \<Rightarrow> 'f renderer \<Rightarrow> jint \<Rightarrow> 'f renderer option" where
  "blitSrcOverLCDMask8888_pre gs rdr height = do {
     calpha \<leftarrow> rd (invGammaArray gs) (r_calpha rdr);
     cred \<leftarrow> rd (invGammaArray gs) (r_cred rdr);
     cgreen \<leftarrow> rd (invGammaArray gs) (r_cgreen rdr);
     cblue \<leftarrow> rd (invGammaArray gs) (r_cblue rdr);
     mask_rows rdr height (r_alphaWidth rdr)
       (lcd_row (r_imagePixelStride rdr) (touched_width rdr) (r_mask_byteData rdr)
          (lcd_cover gs calpha cred cgreen cblue))
   }"

text \<open>Source-over with a paint pixel.\<close>

definition ptover_cover :: "pixel \<Rightarrow> jint \<Rightarrow> action" where
  "ptover_cover cval malpha =
    (let palpha = chA cval; aval = sar 8 ((malpha + 1) * palpha)
     in if aval = MAX_ALPHA then const_px cval
        else if 0 < aval then
          blend_px (blendSrcOver8888_pre_pre (malpha + 1) palpha (chR cval) (chG cval) (chB cval))
        else None)"

definition blitPTSrcOver8888_pre :: "'f renderer \<Rightarrow> jint \<Rightarrow> 'f renderer option" where
  "blitPTSrcOver8888_pre rdr height =
     aa_rows rdr height (\<lambda>aval_relative aidx. do {
       cval \<leftarrow> rd (r_paint rdr) aidx;
       if aval_relative \<noteq> 0 then do {
         malpha \<leftarrow> rd (r_alphaMap rdr) aval_relative;
         Some (ptover_cover cval (uint malpha)) }
       else Some None })"

definition blitPTSrcOverMask8888_pre :: "'f renderer \<Rightarrow> jint \<Rightarrow> 'f renderer option" where
  "blitPTSrcOverMask8888_pre rdr height =
     mask_rows rdr height 0
       (mask_row (r_imagePixelStride rdr) (touched_width rdr) (r_mask_byteData rdr)
          (\<lambda>b aidx. if b \<noteq> 0 then do {
             cval \<leftarrow> rd (r_paint rdr) aidx;
             Some (ptover_cover cval (uint b)) }
           else Some None))"

text \<open>A call through \<^verbatim>\<open>_emitRows\<close>.\<close>

fun call_emitRows :: "'f gamma_state \<Rightarrow> blit_fn option \<Rightarrow> 'f renderer \<Rightarrow> jint \<Rightarrow> 'f renderer option" where
  "call_emitRows gs None rdr h = None"
| "call_emitRows gs (Some Blit_Src8888) rdr h = blitSrc8888_pre rdr h"
| "call_emitRows gs (Some Blit_SrcMask8888) rdr h = blitSrcMask8888_pre rdr h"
| "call_emitRows gs (Some Blit_PTSrc8888) rdr h = blitPTSrc8888_pre rdr h"
| "call_emitRows gs (Some Blit_PTSrcMask8888) rdr h = blitPTSrcMask8888_pre rdr h"
| "call_emitRows gs (Some Blit_SrcOver8888) rdr h = blitSrcOver8888_pre rdr h"
| "call_emitRows gs (Some Blit_SrcOverMask8888) rdr h = blitSrcOverMask8888_pre rdr h"
| "call_emitRows gs (Some Blit_SrcOverLCDMask8888) rdr h = blitSrcOverLCDMask8888_pre gs rdr h"
| "call_emitRows gs (Some Blit_PTSrcOver8888) rdr h = blitPTSrcOver8888_pre rdr h"
| "call_emitRows gs (Some Blit_PTSrcOverMask8888) rdr h = blitPTSrcOverMask8888_pre rdr h"

section \<open>clearRect\<close>

text \<open>
  \<^verbatim>\<open>memset\<close> and \<^verbatim>\<open>memcpy\<close> over whole pixels, the length in bytes: a negative length is a huge one,
  overlapping copies are undefined.
\<close>

definition memset_px :: "pixel list \<Rightarrow> jint \<Rightarrow> jint \<Rightarrow> pixel \<Rightarrow> pixel list option" where
  "memset_px d p bytes v =
    (let n = i32 bytes div 4
     in if i32 bytes = 0 then Some d
        else if 0 < i32 bytes \<and> 0 \<le> p \<and> p + n \<le> int (length d)
        then Some (take (nat p) d @ replicate (nat n) v @ drop (nat (p + n)) d)
        else None)"

definition memcpy_px :: "pixel list \<Rightarrow> jint \<Rightarrow> jint \<Rightarrow> jint \<Rightarrow> pixel list option" where
  "memcpy_px d dst src bytes =
    (let n = i32 bytes div 4
     in if i32 bytes = 0 then Some d
        else if 0 < i32 bytes \<and> 0 \<le> dst \<and> dst + n \<le> int (length d) \<and> 0 \<le> src \<and> src + n \<le> int (length d) \<and>
                (dst + n \<le> src \<or> src + n \<le> dst)
        then Some (take (nat dst) d @ take (nat n) (drop (nat src) d) @ drop (nat (dst + n)) d)
        else None)"

definition clearRect8888_any :: "'f renderer \<Rightarrow> jint \<Rightarrow> jint \<Rightarrow> jint \<Rightarrow> jint \<Rightarrow> 'f renderer option" where
  "clearRect8888_any rdr x y w h =
    (let cval = pack (r_calpha rdr) (r_cred rdr) (r_cgreen rdr) (r_cblue rdr);
         pixelStride = r_imagePixelStride rdr;
         intData = r_imageOffset rdr + i32 (y * r_imageScanlineStride rdr) + i32 (x * pixelStride);
         size = i32 (4 * w)
     in if cval = 0 then
          (if x = 0 \<and> w = r_width rdr then do {
             d \<leftarrow> memset_px (r_data rdr) intData (size * h) 0;
             Some (rdr\<lparr>r_data := d\<rparr>) }
           else do {
             (_, d) \<leftarrow> cfor h (\<lambda>j (intData, d). do {
                 d' \<leftarrow> memset_px d intData size 0;
                 Some (intData + r_imageScanlineStride rdr, d') }) (intData, r_data rdr);
             Some (rdr\<lparr>r_data := d\<rparr>) })
        else do {
          (intData2, d) \<leftarrow> wloop (\<lambda>(p, d). p < intData + w)
             (\<lambda>(p, d). do { d' \<leftarrow> wr d p cval; Some (p + 1, d') }) (intData, r_data rdr);
          (_, d) \<leftarrow> cfor (h - 1) (\<lambda>j (p, d). do {
              d' \<leftarrow> memcpy_px d p intData size;
              Some (p + r_imageScanlineStride rdr, d') }) (intData + r_imageScanlineStride rdr, d);
          Some (rdr\<lparr>r_data := d\<rparr>) })"

section \<open>What the loops do\<close>

definition action_ok :: "action \<Rightarrow> bool" where
  "action_ok act = (case act of None \<Rightarrow> True | Some f \<Rightarrow> (\<forall>p. f p \<noteq> None))"

definition act_on :: "action \<Rightarrow> pixel \<Rightarrow> pixel" where
  "act_on act p = (case act of None \<Rightarrow> p | Some f \<Rightarrow> the (f p))"

lemma action_simps [simp]:
  "action_ok None" "action_ok (const_px c)" "action_ok (blend_px h)"
  "act_on None p = p" "act_on (const_px c) p = c" "act_on (blend_px h) p = h p"
  by (simp_all add: action_ok_def act_on_def const_px_def blend_px_def)

lemma apply_action_slice:
  assumes s: "slice_map a k (\<lambda>i. act_on (act i)) d0 d" and ok: "action_ok (act k)"
    and b: "0 \<le> a" "0 \<le> k" "a + k < int (length d0)" "length d0 < 2147483648"
  shows "\<exists>d'. apply_action d (a + k) (act k) = Some d' \<and> slice_map a (k + 1) (\<lambda>i. act_on (act i)) d0 d'"
proof (cases "act k")
  case None
  with slice_map_keep [OF s b(1-3)] show ?thesis by (simp add: apply_action_def)
next
  case (Some f)
  have i: "i32 (a + k) = a + k" using b by (simp add: i32_id)
  obtain v where v: "f (d ! nat (a + k)) = Some v" using ok Some by (auto simp: action_ok_def)
  have "act_on (act k) (d ! nat (a + k)) = v" by (simp add: act_on_def Some v)
  then have "slice_map a (k + 1) (\<lambda>i. act_on (act i)) d0 (d[nat (a + k) := v])"
    using s b by (intro slice_map_snoc) simp_all
  moreover have "apply_action d (a + k) (act k) = Some (d[nat (a + k) := v])"
    using b slice_map_length [OF s] by (simp add: apply_action_def Some i mem_simps v)
  ultimately show ?thesis by blast
qed

text \<open>The running sum of the deltas.\<close>

definition psum :: "jint list \<Rightarrow> jint \<Rightarrow> jint" where
  "psum xs k = sum_list (take (nat k) xs)"

lemma psum_0 [simp]: "psum xs 0 = 0" by (simp add: psum_def)

lemma psum_Suc: "0 \<le> k \<Longrightarrow> k < int (length xs) \<Longrightarrow> psum xs (k + 1) = psum xs k + xs ! nat k"
  by (simp add: psum_def nat_add_distrib take_Suc_conv_app_nth)

lemma aa_row_slice:
  assumes w: "0 \<le> w" "w \<le> int (length aa)" and a: "0 \<le> a0" "a0 + w \<le> int (length d0)"
      "length d0 < 2147483648"
    and sums: "\<And>k. 0 \<le> k \<Longrightarrow> k < w \<Longrightarrow> is_jint (psum aa (k + 1))"
    and px: "\<And>k. 0 \<le> k \<Longrightarrow> k < w \<Longrightarrow> px (psum aa (k + 1)) k = Some (act k) \<and> action_ok (act k)"
  shows "\<exists>aa' d. aa_row 1 w px a0 aa d0 = Some (aa', d) \<and> slice_map 0 w (\<lambda>i v. 0) aa aa' \<and>
    slice_map a0 w (\<lambda>i. act_on (act i)) d0 d"
proof -
  let ?b = "\<lambda>(a, aval_relative, aidx, iidx, aa, d). a < w"
  let ?c = "\<lambda>(a, aval_relative, aidx, iidx, aa, d). do {
          v \<leftarrow> rd aa a;
          let aval_relative' = i32 (aval_relative + v);
          aa' \<leftarrow> wr aa a 0;
          act \<leftarrow> px aval_relative' aidx;
          d' \<leftarrow> apply_action d iidx act;
          Some (a + 1, aval_relative', aidx + 1, iidx + 1, aa', d') }"
  define I where "I t \<longleftrightarrow> (\<exists>k aa' d. t = (k, psum aa k, k, a0 + k, aa', d) \<and> 0 \<le> k \<and> k \<le> w \<and>
     slice_map 0 k (\<lambda>i v. 0) aa aa' \<and> slice_map a0 k (\<lambda>i. act_on (act i)) d0 d)" for t
  have "\<exists>t. wloop ?b ?c (0, 0, 0, a0, aa, d0) = Some t \<and> I t \<and> \<not> ?b t"
  proof (rule wloop_total [where m = "\<lambda>(a, _). nat (w - a)"])
    show "I (0, 0, 0, a0, aa, d0)" using w by (simp add: I_def slice_map_refl)
  next
    fix t assume "I t" and b: "?b t"
    then obtain k aa' d where t [simp]: "t = (k, psum aa k, k, a0 + k, aa', d)" and k: "0 \<le> k" "k < w"
      and sa: "slice_map 0 k (\<lambda>i v. 0) aa aa'" and sd: "slice_map a0 k (\<lambda>i. act_on (act i)) d0 d"
      by (auto simp: I_def)
    have v: "aa' ! nat k = aa ! nat k" using k w slice_map_nth [OF sa, of "nat k"] by simp
    have len: "length aa' = length aa" using sa by (rule slice_map_length)
    have ps: "i32 (psum aa k + aa ! nat k) = psum aa (k + 1)"
      using sums [OF k] k w by (simp add: psum_Suc i32_jint)
    obtain d' where d': "apply_action d (a0 + k) (act k) = Some d'"
      and sd': "slice_map a0 (k + 1) (\<lambda>i. act_on (act i)) d0 d'"
      using apply_action_slice [OF sd] px [OF k] k a by auto
    have sa': "slice_map 0 (k + 1) (\<lambda>i v. 0) aa (aa'[nat k := 0])"
      using sa k by (intro slice_map_snoc) simp_all
    have "?c t = Some (k + 1, psum aa (k + 1), k + 1, a0 + k + 1, aa'[nat k := 0], d')"
      using k w len px [OF k] d' by (simp add: mem_simps v ps)
    moreover have "I (k + 1, psum aa (k + 1), k + 1, a0 + k + 1, aa'[nat k := 0], d')"
      unfolding I_def using sa' sd' k by (intro exI [of _ "k + 1"]) (simp add: add.assoc)
    ultimately show "\<exists>u. ?c t = Some u \<and> I u \<and>
        (case u of (a, _) \<Rightarrow> nat (w - a)) < (case t of (a, _) \<Rightarrow> nat (w - a))"
      using k by simp
  qed
  then obtain r where r: "wloop ?b ?c (0, 0, 0, a0, aa, d0) = Some r" "I r" "\<not> ?b r" by blast
  then obtain k aa' d where e: "r = (k, psum aa k, k, a0 + k, aa', d)" "0 \<le> k" "k \<le> w"
    "slice_map 0 k (\<lambda>i v. 0) aa aa'" "slice_map a0 k (\<lambda>i. act_on (act i)) d0 d"
    unfolding I_def by blast
  with r(3) have "k = w" by simp
  with e r(1) show ?thesis by (simp add: aa_row_def)
qed

lemma mask_row_slice:
  assumes w: "0 \<le> w" "0 \<le> m0" "m0 + w \<le> int (length alpha)" and a: "0 \<le> a0" "a0 + w \<le> int (length d0)"
      "length d0 < 2147483648"
    and px: "\<And>k. 0 \<le> k \<Longrightarrow> k < w \<Longrightarrow> px (alpha ! nat (m0 + k)) k = Some (act k) \<and> action_ok (act k)"
  shows "\<exists>d. mask_row 1 w alpha px a0 m0 d0 = Some d \<and> slice_map a0 w (\<lambda>i. act_on (act i)) d0 d"
proof -
  let ?b = "\<lambda>(a, aidx, iidx, d). a < m0 + w"
  let ?c = "\<lambda>(a, aidx, iidx, d). do {
          b \<leftarrow> rd alpha a;
          act \<leftarrow> px b aidx;
          d' \<leftarrow> apply_action d iidx act;
          Some (a + 1, aidx + 1, iidx + 1, d') }"
  define I where "I t \<longleftrightarrow> (\<exists>k d. t = (m0 + k, k, a0 + k, d) \<and> 0 \<le> k \<and> k \<le> w \<and>
     slice_map a0 k (\<lambda>i. act_on (act i)) d0 d)" for t
  have "\<exists>t. wloop ?b ?c (m0, 0, a0, d0) = Some t \<and> I t \<and> \<not> ?b t"
  proof (rule wloop_total [where m = "\<lambda>(a, _). nat (m0 + w - a)"])
    show "I (m0, 0, a0, d0)" using w by (simp add: I_def slice_map_refl)
  next
    fix t assume "I t" and b: "?b t"
    then obtain k d where t [simp]: "t = (m0 + k, k, a0 + k, d)" and k: "0 \<le> k" "k < w"
      and sd: "slice_map a0 k (\<lambda>i. act_on (act i)) d0 d"
      by (auto simp: I_def)
    obtain d' where d': "apply_action d (a0 + k) (act k) = Some d'"
      and sd': "slice_map a0 (k + 1) (\<lambda>i. act_on (act i)) d0 d'"
      using apply_action_slice [OF sd] px [OF k] k a by auto
    have "?c t = Some (m0 + k + 1, k + 1, a0 + k + 1, d')"
      using k w px [OF k] d' by (simp add: mem_simps)
    moreover have "I (m0 + k + 1, k + 1, a0 + k + 1, d')"
      unfolding I_def using sd' k by (intro exI [of _ "k + 1"]) (simp add: add.assoc)
    ultimately show "\<exists>u. ?c t = Some u \<and> I u \<and>
        (case u of (a, _) \<Rightarrow> nat (m0 + w - a)) < (case t of (a, _) \<Rightarrow> nat (m0 + w - a))"
      using k by simp
  qed
  then obtain r where r: "wloop ?b ?c (m0, 0, a0, d0) = Some r" "I r" "\<not> ?b r" by blast
  then obtain k d where e: "r = (m0 + k, k, a0 + k, d)" "0 \<le> k" "k \<le> w"
    "slice_map a0 k (\<lambda>i. act_on (act i)) d0 d"
    unfolding I_def by blast
  with r(3) have "k = w" by simp
  with e r(1) show ?thesis by (simp add: mask_row_def)
qed

section \<open>One call, one row\<close>

lemma cfor_one: "cfor 1 f s = f 0 s"
  by (cases "f 0 s") (simp_all add: cfor_def wloop_step wloop_fail wloop_stop)

text \<open>What the callers establish before \<^verbatim>\<open>_emitRows(rdr, 1)\<close>.\<close>

definition blit_fit :: "'f renderer \<Rightarrow> bool" where
  "blit_fit rdr \<longleftrightarrow> r_imagePixelStride rdr = 1 \<and> 0 \<le> r_minTouched rdr \<and>
     r_minTouched rdr \<le> r_maxTouched rdr \<and> r_maxTouched rdr < r_imageScanlineStride rdr \<and>
     r_alphaWidth rdr = r_maxTouched rdr - r_minTouched rdr + 1 \<and>
     0 \<le> r_currImageOffset rdr \<and> r_currImageOffset rdr + r_maxTouched rdr < int (length (r_data rdr)) \<and>
     length (r_data rdr) < 2147483648"

lemma blit_fit_facts:
  assumes "blit_fit rdr"
  shows "touched_width rdr = r_alphaWidth rdr" "0 \<le> r_alphaWidth rdr" "0 < r_imageScanlineStride rdr"
    "r_minTouched rdr + r_alphaWidth rdr \<le> r_imageScanlineStride rdr"
    "r_imagePixelStride rdr = 1" "0 \<le> r_minTouched rdr"
    "0 \<le> r_currImageOffset rdr + r_minTouched rdr"
    "r_currImageOffset rdr + r_minTouched rdr + r_alphaWidth rdr \<le> int (length (r_data rdr))"
    "length (r_data rdr) < 2147483648"
  using assms by (auto simp: blit_fit_def touched_width_def i32_id)

lemma aa_rows_one:
  assumes fit: "blit_fit rdr" and aw: "r_alphaWidth rdr \<le> int (length (r_rowAAInt rdr))"
    and sums: "\<And>k. 0 \<le> k \<Longrightarrow> k < r_alphaWidth rdr \<Longrightarrow> is_jint (psum (r_rowAAInt rdr) (k + 1))"
    and px: "\<And>k. 0 \<le> k \<Longrightarrow> k < r_alphaWidth rdr \<Longrightarrow>
      px (psum (r_rowAAInt rdr) (k + 1)) k = Some (act k) \<and> action_ok (act k)"
  shows "\<exists>aa d. aa_rows rdr 1 px = Some (rdr\<lparr>r_rowAAInt := aa, r_data := d\<rparr>) \<and>
    slice_map 0 (r_alphaWidth rdr) (\<lambda>i v. 0) (r_rowAAInt rdr) aa \<and>
    line_rect rdr (r_alphaWidth rdr) 1 (\<lambda>j i. act_on (act i)) d"
proof -
  note b = blit_fit_facts [OF fit]
  obtain aa d where r: "aa_row 1 (r_alphaWidth rdr) px (r_currImageOffset rdr + r_minTouched rdr)
      (r_rowAAInt rdr) (r_data rdr) = Some (aa, d)"
    and z: "slice_map 0 (r_alphaWidth rdr) (\<lambda>i v. 0) (r_rowAAInt rdr) aa"
    and s: "slice_map (r_currImageOffset rdr + r_minTouched rdr) (r_alphaWidth rdr) (\<lambda>i. act_on (act i)) (r_data rdr) d"
    using aa_row_slice [where px = px and act = act, OF b(2) aw b(7,8,9) sums px] by blast
  have "line_rect rdr (r_alphaWidth rdr) 1 (\<lambda>j i. act_on (act i)) d"
    using s b by (intro rect_map_row) simp_all
  with r z b show ?thesis by (intro exI [of _ aa] exI [of _ d]) (simp add: aa_rows_def cfor_one)
qed

lemma mask_rows_one:
  assumes fit: "blit_fit rdr" and m: "0 \<le> r_maskOffset rdr"
      "r_maskOffset rdr + r_alphaWidth rdr \<le> int (length (r_mask_byteData rdr))"
    and px: "\<And>k. 0 \<le> k \<Longrightarrow> k < r_alphaWidth rdr \<Longrightarrow>
      px (r_mask_byteData rdr ! nat (r_maskOffset rdr + k)) k = Some (act k) \<and> action_ok (act k)"
  shows "\<exists>d. mask_rows rdr 1 astr
      (mask_row (r_imagePixelStride rdr) (touched_width rdr) (r_mask_byteData rdr) px) =
      Some (rdr\<lparr>r_data := d\<rparr>) \<and> line_rect rdr (r_alphaWidth rdr) 1 (\<lambda>j i. act_on (act i)) d"
proof -
  note b = blit_fit_facts [OF fit]
  obtain d where r: "mask_row 1 (r_alphaWidth rdr) (r_mask_byteData rdr) px
      (r_currImageOffset rdr + r_minTouched rdr) (r_maskOffset rdr) (r_data rdr) = Some d"
    and s: "slice_map (r_currImageOffset rdr + r_minTouched rdr) (r_alphaWidth rdr) (\<lambda>i. act_on (act i)) (r_data rdr) d"
    using mask_row_slice [where px = px and act = act, OF b(2) m b(7,8,9) px] by blast
  have "line_rect rdr (r_alphaWidth rdr) 1 (\<lambda>j i. act_on (act i)) d"
    using s b by (intro rect_map_row) simp_all
  with r b show ?thesis by (intro exI [of _ d]) (simp add: mask_rows_def cfor_one)
qed

section \<open>The coverage of a pixel and the contract of a blitter\<close>

text \<open>Where the coverage of column \<open>k\<close> comes from.\<close>

definition aa_cover :: "'f renderer \<Rightarrow> jint \<Rightarrow> jint" where
  "aa_cover rdr k = uint (r_alphaMap rdr ! nat (psum (r_rowAAInt rdr) (k + 1)))"

definition mask_cover :: "'f renderer \<Rightarrow> jint \<Rightarrow> jint" where
  "mask_cover rdr k = uint (r_mask_byteData rdr ! nat (r_maskOffset rdr + k))"

definition aa_ready :: "'f renderer \<Rightarrow> bool" where
  "aa_ready rdr \<longleftrightarrow> r_alphaWidth rdr \<le> int (length (r_rowAAInt rdr)) \<and>
     length (r_alphaMap rdr) \<le> 2147483648 \<and>
     (\<forall>k. 0 \<le> k \<and> k < r_alphaWidth rdr \<longrightarrow> in_arr (r_alphaMap rdr) (psum (r_rowAAInt rdr) (k + 1)))"

definition mask_ready :: "'f renderer \<Rightarrow> bool" where
  "mask_ready rdr \<longleftrightarrow> 0 \<le> r_maskOffset rdr \<and>
     r_maskOffset rdr + r_alphaWidth rdr \<le> int (length (r_mask_byteData rdr))"

text \<open>The first map entry is the coverage of an untouched pixel.\<close>

definition map_zero :: "'f renderer \<Rightarrow> bool" where
  "map_zero rdr \<longleftrightarrow> r_alphaMap rdr ! 0 = 0"

lemma byte_uint8 [byte_intros, simp]: "byte (uint (b :: jbyte))"
  using uint_lt2p [of b] by (simp add: byte_def)

lemma byte_cover [byte_intros, simp]: "byte (aa_cover rdr k)" "byte (mask_cover rdr k)"
  by (simp_all add: aa_cover_def mask_cover_def)

lemma aa_ready_facts:
  assumes "aa_ready rdr" "0 \<le> k" "k < r_alphaWidth rdr"
  shows "is_jint (psum (r_rowAAInt rdr) (k + 1))"
    and "rd (r_alphaMap rdr) (psum (r_rowAAInt rdr) (k + 1)) =
         Some (r_alphaMap rdr ! nat (psum (r_rowAAInt rdr) (k + 1)))"
  using assms by (auto simp: aa_ready_def in_arr_def is_jint_def rd_def)

definition over_scale :: "'f renderer \<Rightarrow> jint \<Rightarrow> jint" where
  "over_scale rdr m = (m + 1) * r_calpha rdr div 256"

lemma cover_scale:
  assumes "byte m" "byte c"
  shows "sar 8 ((m + 1) * c) = (m + 1) * c div 256" "byte ((m + 1) * c div 256)" "(m + 1) * c div 256 \<le> c"
  using sar8_scale [of c "m + 1"] assms by (auto simp: byte_def mult.commute)

lemma over_cover_eq:
  assumes "colour_bytes rdr" "byte m"
  shows "act_on (over_cover rdr m) p =
      blendSrcOver8888_pre (over_scale rdr m) (r_cred rdr) (r_cgreen rdr) (r_cblue rdr) p"
    and "action_ok (over_cover rdr m)"
proof -
  have c: "byte (r_calpha rdr)" "byte (r_cred rdr)" "byte (r_cgreen rdr)" "byte (r_cblue rdr)"
    using assms(1) by (simp_all add: colour_bytes_def)
  note sc = cover_scale [OF assms(2) c(1)]
  have nn: "0 \<le> over_scale rdr m" using sc(2) by (simp add: over_scale_def byte_def)
  have av: "over_cover rdr m =
      (if over_scale rdr m = MAX_ALPHA then
         const_px (0xFF000000 OR push_bit 16 (word_of_int (r_cred rdr)) OR
           push_bit 8 (word_of_int (r_cgreen rdr)) OR word_of_int (r_cblue rdr))
       else if 0 < over_scale rdr m then
         blend_px (blendSrcOver8888_pre (over_scale rdr m) (r_cred rdr) (r_cgreen rdr) (r_cblue rdr))
       else None)"
    unfolding over_cover_def Let_def sc(1) over_scale_def [symmetric] ..
  show "action_ok (over_cover rdr m)" by (simp add: av)
  show "act_on (over_cover rdr m) p =
      blendSrcOver8888_pre (over_scale rdr m) (r_cred rdr) (r_cgreen rdr) (r_cblue rdr) p"
  proof (cases "over_scale rdr m = MAX_ALPHA \<or> 0 < over_scale rdr m")
    case True
    then show ?thesis using c by (auto simp: av blendSrcOver_opaque)
  next
    case False
    with nn have "over_scale rdr m = 0" by simp
    with False c show ?thesis by (simp add: av blendSrcOver_transparent)
  qed
qed

lemma ptover_cover_eq:
  assumes "premult c" "byte m"
  shows "act_on (ptover_cover c m) p = blendSrcOver8888_pre_pre (m + 1) (chA c) (chR c) (chG c) (chB c) p"
    and "action_ok (ptover_cover c m)"
proof -
  note sc = cover_scale [OF assms(2) byte_channels(1)]
  have m: "0 \<le> m + 1" "m + 1 \<le> 256" using assms(2) by (simp_all add: byte_def)
  let ?a = "(m + 1) * chA c div 256"
  have av: "ptover_cover c m = (if ?a = MAX_ALPHA then const_px c
      else if 0 < ?a then blend_px (blendSrcOver8888_pre_pre (m + 1) (chA c) (chR c) (chG c) (chB c)) else None)"
    unfolding ptover_cover_def Let_def sc(1) ..
  show "action_ok (ptover_cover c m)" by (simp add: av)
  consider "?a = 255" | "0 < ?a" "?a \<noteq> 255" | "?a = 0" using sc(2) [of c] by (fastforce simp: byte_def)
  then show "act_on (ptover_cover c m) p = blendSrcOver8888_pre_pre (m + 1) (chA c) (chR c) (chG c) (chB c) p"
  proof cases
    case 1
    with sc(3) [of c] channel_range [of c] have a: "chA c = 255" by simp
    have "65280 \<le> x" if "x div 256 = 255" for x :: int using that by presburger
    from this [of "(m + 1) * chA c"] 1 a have "m + 1 = 256" using m by simp
    moreover have "ptover_cover c m = const_px c" unfolding av using 1 by (simp add: MAX_ALPHA_def)
    ultimately show ?thesis using blendSrcOver_full_opaque [of c p] a by simp
  next
    case 2
    then show ?thesis by (simp add: av MAX_ALPHA_def)
  next
    case 3
    have z: "x * (m + 1) div 256 = 0" if "0 \<le> x" "x \<le> chA c" for x
    proof -
      have "x * (m + 1) div 256 \<le> chA c * (m + 1) div 256" using that m by (intro zdiv_mono1 mult_right_mono) simp_all
      moreover have "0 \<le> x * (m + 1) div 256" using that m by (simp add: pos_imp_zdiv_nonneg_iff)
      ultimately show ?thesis using 3 by (simp add: mult.commute)
    qed
    have s: "sar 8 (x * (m + 1)) = 0" if "byte x" "x \<le> chA c" for x
      using sar8_scale(3) [OF that(1) m] z [of x] that by (simp add: byte_def)
    have "sar 8 (chA c * (m + 1)) = 0" "sar 8 (chR c * (m + 1)) = 0" "sar 8 (chG c * (m + 1)) = 0"
      "sar 8 (chB c * (m + 1)) = 0"
      using s [OF byte_channels(1)] s [OF byte_channels(2)] s [OF byte_channels(3)] s [OF byte_channels(4)]
        assms(1) by (simp_all add: premult_def)
    with 3 show ?thesis by (simp add: av MAX_ALPHA_def blendSrcOver8888_pre_pre_def Let_def)
  qed
qed

section \<open>Subpixel text\<close>

definition gamma_ok :: "'f gamma_state \<Rightarrow> bool" where
  "gamma_ok gs \<longleftrightarrow> length (gammaArray gs) = 256 \<and> length (invGammaArray gs) = 256 \<and>
     (\<forall>x \<in> set (gammaArray gs) \<union> set (invGammaArray gs). byte x)"

lemma gamma_rd:
  assumes "gamma_ok gs" "byte i"
  shows "\<exists>v. rd (gammaArray gs) i = Some v \<and> byte v" "\<exists>v. rd (invGammaArray gs) i = Some v \<and> byte v"
  using assms by (auto simp: gamma_ok_def byte_def rd_def in_arr_def)

text \<open>The LCD blend stays inside its tables and makes an opaque pixel.\<close>

lemma blendLCD_total:
  assumes g: "gamma_ok gs" and b: "byte ar" "byte ag" "byte ab" "byte sr" "byte sg" "byte sb"
  shows "\<exists>q. blendLCDSrcOver8888_pre gs ar ag ab sr sg sb p = Some q \<and> chA q = 255"
proof -
  have w: "byte (div255 (a * s + (255 - a) * d))" if "byte a" "byte s" "byte d" for a s d
    using weighted_byte [of a s d "255 - a"] that by (simp add: byte_def mult.commute)
  obtain dr dg db where d: "rd (invGammaArray gs) (chR p) = Some dr" "rd (invGammaArray gs) (chG p) = Some dg"
    "rd (invGammaArray gs) (chB p) = Some db" "byte dr" "byte dg" "byte db"
    using gamma_rd(2) [OF g] by (meson byte_channels)
  obtain r' g' b' where o: "rd (gammaArray gs) (div255 (ar * sr + (255 - ar) * dr)) = Some r'"
    "rd (gammaArray gs) (div255 (ag * sg + (255 - ag) * dg)) = Some g'"
    "rd (gammaArray gs) (div255 (ab * sb + (255 - ab) * db)) = Some b'" "byte r'" "byte g'" "byte b'"
    using gamma_rd(1) [OF g w] b d by metis
  have e: "0xFF000000 OR push_bit 16 (word_of_int r') OR push_bit 8 (word_of_int g') OR word_of_int b' =
      pack 255 r' g' b'" by (simp add: pack_def)
  have "chA (pack 255 r' g' b') = 255" using o by (intro channels_of_pack) (simp_all add: byte_def)
  then show ?thesis by (simp add: blendLCDSrcOver8888_pre_def d(1-3) o(1-3) e)
qed

lemma lcd_cover_ok:
  assumes "gamma_ok gs" "byte ca" "byte cr" "byte cg" "byte cb"
  shows "action_ok (lcd_cover gs ca cr cg cb r g b)"
    and "chA (act_on (lcd_cover gs ca cr cg cb r g b) p) = 255"
proof -
  define scale where "scale x = (if ca < MAX_ALPHA then sar 8 ((x + 1) * ca) else x)" for x
  have sc: "byte (scale (uint x))" for x :: jbyte
    using cover_scale [OF byte_uint8 [of x] assms(2)] by (simp add: scale_def)
  have e: "0xFF000000 OR push_bit 16 (word_of_int cr) OR push_bit 8 (word_of_int cg) OR word_of_int cb =
      pack 255 cr cg cb" by (simp add: pack_def)
  have A: "chA (pack 255 cr cg cb) = 255" using assms by (intro channels_of_pack) (simp_all add: byte_def)
  note bl = blendLCD_total [OF assms(1) sc [of r] sc [of g] sc [of b] assms(3-5)]
  have lc: "lcd_cover gs ca cr cg cb r g b =
      (if scale (uint r) AND scale (uint g) AND scale (uint b) = MAX_ALPHA
       then const_px (pack 255 cr cg cb)
       else Some (blendLCDSrcOver8888_pre gs (scale (uint r)) (scale (uint g)) (scale (uint b)) cr cg cb))"
    by (simp add: lcd_cover_def scale_def Let_def e)
  show "action_ok (lcd_cover gs ca cr cg cb r g b)"
    using bl by (auto simp: lc action_ok_def const_px_def)
  show "chA (act_on (lcd_cover gs ca cr cg cb r g b) p) = 255"
    using bl [of p] A by (auto simp: lc act_on_def const_px_def)
qed

lemma lcd_row_slice:
  assumes w: "0 \<le> w" "0 \<le> m0" "m0 + 3 * w \<le> int (length alpha)" and a: "0 \<le> a0" "a0 + w \<le> int (length d0)"
      "length d0 < 2147483648"
    and px: "\<And>k. 0 \<le> k \<Longrightarrow> k < w \<Longrightarrow>
      px (alpha ! nat (m0 + 3 * k)) (alpha ! nat (m0 + 3 * k + 1)) (alpha ! nat (m0 + 3 * k + 2)) = act k \<and>
      action_ok (act k)"
  shows "\<exists>d. lcd_row 1 w alpha px a0 m0 d0 = Some d \<and> slice_map a0 w (\<lambda>i. act_on (act i)) d0 d"
proof -
  let ?b = "\<lambda>(a, iidx, d). a < m0 + 3 * w"
  let ?c = "\<lambda>(a, iidx, d). do {
          r \<leftarrow> rd alpha a; g \<leftarrow> rd alpha (a + 1); b \<leftarrow> rd alpha (a + 2);
          d' \<leftarrow> apply_action d iidx (px r g b);
          Some (a + 3, iidx + 1, d') }"
  define I where "I t \<longleftrightarrow> (\<exists>k d. t = (m0 + 3 * k, a0 + k, d) \<and> 0 \<le> k \<and> k \<le> w \<and>
     slice_map a0 k (\<lambda>i. act_on (act i)) d0 d)" for t
  have "\<exists>t. wloop ?b ?c (m0, a0, d0) = Some t \<and> I t \<and> \<not> ?b t"
  proof (rule wloop_total [where m = "\<lambda>(a, _). nat (m0 + 3 * w - a)"])
    show "I (m0, a0, d0)" using w by (simp add: I_def slice_map_refl)
  next
    fix t assume "I t" and b: "?b t"
    then obtain k d where t [simp]: "t = (m0 + 3 * k, a0 + k, d)" and k: "0 \<le> k" "k < w"
      and sd: "slice_map a0 k (\<lambda>i. act_on (act i)) d0 d"
      by (auto simp: I_def)
    obtain d' where d': "apply_action d (a0 + k) (act k) = Some d'"
      and sd': "slice_map a0 (k + 1) (\<lambda>i. act_on (act i)) d0 d'"
      using apply_action_slice [OF sd] px [OF k] k a by auto
    have "?c t = Some (m0 + 3 * k + 3, a0 + k + 1, d')"
      using k w px [OF k] d' by (simp add: mem_simps)
    moreover have "I (m0 + 3 * k + 3, a0 + k + 1, d')"
      unfolding I_def using sd' k by (intro exI [of _ "k + 1"]) (simp add: add.assoc)
    ultimately show "\<exists>u. ?c t = Some u \<and> I u \<and>
        (case u of (a, _) \<Rightarrow> nat (m0 + 3 * w - a)) < (case t of (a, _) \<Rightarrow> nat (m0 + 3 * w - a))"
      using k by simp
  qed
  then obtain r where r: "wloop ?b ?c (m0, a0, d0) = Some r" "I r" "\<not> ?b r" by blast
  then obtain k d where e: "r = (m0 + 3 * k, a0 + k, d)" "0 \<le> k" "k \<le> w"
    "slice_map a0 k (\<lambda>i. act_on (act i)) d0 d"
    unfolding I_def by blast
  with r(3) have "k = w" by simp
  with e r(1) show ?thesis by (simp add: lcd_row_def)
qed

definition lcd_ready :: "'f gamma_state \<Rightarrow> 'f renderer \<Rightarrow> bool" where
  "lcd_ready gs rdr \<longleftrightarrow> gamma_ok gs \<and> colour_bytes rdr \<and> 0 \<le> r_maskOffset rdr \<and>
     r_maskOffset rdr + 3 * r_alphaWidth rdr \<le> int (length (r_mask_byteData rdr))"

definition lcd_pix :: "'f gamma_state \<Rightarrow> 'f renderer \<Rightarrow> jint \<Rightarrow> pixel \<Rightarrow> pixel" where
  "lcd_pix gs rdr k =
    (let g = (\<lambda>c. invGammaArray gs ! nat c); m = r_mask_byteData rdr; o3 = r_maskOffset rdr + 3 * k
     in act_on (lcd_cover gs (g (r_calpha rdr)) (g (r_cred rdr)) (g (r_cgreen rdr)) (g (r_cblue rdr))
                  (m ! nat o3) (m ! nat (o3 + 1)) (m ! nat (o3 + 2))))"

lemma blitLCD_row:
  assumes fit: "blit_fit rdr" and rdy: "lcd_ready gs rdr"
  shows "\<exists>d. blitSrcOverLCDMask8888_pre gs rdr 1 = Some (rdr\<lparr>r_data := d\<rparr>) \<and>
    line_rect rdr (r_alphaWidth rdr) 1 (\<lambda>j. lcd_pix gs rdr) d"
proof -
  note b = blit_fit_facts [OF fit]
  let ?g = "\<lambda>c. invGammaArray gs ! nat c"
  have c: "byte (r_calpha rdr)" "byte (r_cred rdr)" "byte (r_cgreen rdr)" "byte (r_cblue rdr)"
    and gm: "gamma_ok gs" using rdy by (simp_all add: lcd_ready_def colour_bytes_def)
  have g: "rd (invGammaArray gs) x = Some (?g x)" "byte (?g x)" if "byte x" for x
    using gamma_rd(2) [OF gm that] by (auto simp: rd_def split: if_splits)
  note gb = g(2) [OF c(1)] g(2) [OF c(2)] g(2) [OF c(3)] g(2) [OF c(4)]
  have m: "0 \<le> r_maskOffset rdr" "r_maskOffset rdr + 3 * r_alphaWidth rdr \<le> int (length (r_mask_byteData rdr))"
    using rdy by (simp_all add: lcd_ready_def)
  let ?px = "lcd_cover gs (?g (r_calpha rdr)) (?g (r_cred rdr)) (?g (r_cgreen rdr)) (?g (r_cblue rdr))"
  let ?m = "\<lambda>k. r_mask_byteData rdr ! nat k"
  let ?act = "\<lambda>k. ?px (?m (r_maskOffset rdr + 3 * k)) (?m (r_maskOffset rdr + 3 * k + 1)) (?m (r_maskOffset rdr + 3 * k + 2))"
  have "\<exists>d. lcd_row 1 (r_alphaWidth rdr) (r_mask_byteData rdr) ?px
      (r_currImageOffset rdr + r_minTouched rdr) (r_maskOffset rdr) (r_data rdr) = Some d \<and>
      slice_map (r_currImageOffset rdr + r_minTouched rdr) (r_alphaWidth rdr) (\<lambda>i. act_on (?act i)) (r_data rdr) d"
    by (rule lcd_row_slice [OF b(2) m b(7,8,9)]) (simp add: lcd_cover_ok gm gb)
  then obtain d where r: "lcd_row 1 (r_alphaWidth rdr) (r_mask_byteData rdr) ?px
      (r_currImageOffset rdr + r_minTouched rdr) (r_maskOffset rdr) (r_data rdr) = Some d"
    and s: "slice_map (r_currImageOffset rdr + r_minTouched rdr) (r_alphaWidth rdr) (\<lambda>i. act_on (?act i)) (r_data rdr) d"
    by blast
  have "line_rect rdr (r_alphaWidth rdr) 1 (\<lambda>j i. act_on (?act i)) d"
    using s b by (intro rect_map_row) simp_all
  moreover have "lcd_pix gs rdr = (\<lambda>i. act_on (?act i))" by (simp add: lcd_pix_def Let_def fun_eq_iff)
  ultimately show ?thesis using r b
    by (intro exI [of _ d]) (simp add: blitSrcOverLCDMask8888_pre_def g c mask_rows_def cfor_one)
qed

section \<open>The contract of a row blitter\<close>

text \<open>
  What the callers of \<^verbatim>\<open>_emitRows\<close> rely on: one row, pixel \<open>i\<close> of the touched span by \<open>pix rdr i\<close> of
  its old value. The antialiased ones also leave the deltas of the span zero for the next row.
\<close>

locale row_blitter =
  fixes blit :: "'f renderer \<Rightarrow> jint \<Rightarrow> 'f renderer option"
    and ready :: "'f renderer \<Rightarrow> bool"
    and pix :: "'f renderer \<Rightarrow> jint \<Rightarrow> pixel \<Rightarrow> pixel"
  assumes draws_row: "blit_fit rdr \<Longrightarrow> ready rdr \<Longrightarrow>
    \<exists>aa d. blit rdr 1 = Some (rdr\<lparr>r_rowAAInt := aa, r_data := d\<rparr>) \<and>
      line_rect rdr (r_alphaWidth rdr) 1 (\<lambda>j. pix rdr) d"
begin

lemma never_faults: "blit_fit rdr \<Longrightarrow> ready rdr \<Longrightarrow> blit rdr 1 \<noteq> None"
  using draws_row by fastforce

lemma row_data:
  assumes "blit_fit rdr" "ready rdr" "blit rdr 1 = Some rdr'"
  shows "line_rect rdr (r_alphaWidth rdr) 1 (\<lambda>j. pix rdr) (r_data rdr')"
  using draws_row [OF assms(1,2)] assms(3) by auto

end

locale aa_blitter =
  fixes blit :: "'f renderer \<Rightarrow> jint \<Rightarrow> 'f renderer option"
    and ready :: "'f renderer \<Rightarrow> bool"
    and pix :: "'f renderer \<Rightarrow> jint \<Rightarrow> pixel \<Rightarrow> pixel"
  assumes draws_and_clears: "blit_fit rdr \<Longrightarrow> ready rdr \<Longrightarrow>
    \<exists>aa d. blit rdr 1 = Some (rdr\<lparr>r_rowAAInt := aa, r_data := d\<rparr>) \<and>
      slice_map 0 (r_alphaWidth rdr) (\<lambda>i v. 0) (r_rowAAInt rdr) aa \<and>
      line_rect rdr (r_alphaWidth rdr) 1 (\<lambda>j. pix rdr) d"
begin

lemma deltas_cleared:
  assumes "blit_fit rdr" "ready rdr" "blit rdr 1 = Some rdr'"
  shows "slice_map 0 (r_alphaWidth rdr) (\<lambda>i v. 0) (r_rowAAInt rdr) (r_rowAAInt rdr')"
  using draws_and_clears [OF assms(1,2)] assms(3) by auto

end

sublocale aa_blitter \<subseteq> row_blitter
  by unfold_locales (use draws_and_clears in blast)

locale mask_blitter =
  fixes blit :: "'f renderer \<Rightarrow> jint \<Rightarrow> 'f renderer option"
    and ready :: "'f renderer \<Rightarrow> bool"
    and pix :: "'f renderer \<Rightarrow> jint \<Rightarrow> pixel \<Rightarrow> pixel"
  assumes draws_masked: "blit_fit rdr \<Longrightarrow> ready rdr \<Longrightarrow>
    \<exists>d. blit rdr 1 = Some (rdr\<lparr>r_data := d\<rparr>) \<and>
      line_rect rdr (r_alphaWidth rdr) 1 (\<lambda>j. pix rdr) d"

sublocale mask_blitter \<subseteq> row_blitter
proof
  fix rdr :: "'f renderer"
  assume "blit_fit rdr" "ready rdr"
  then obtain d where d: "blit rdr 1 = Some (rdr\<lparr>r_data := d\<rparr>)"
    "line_rect rdr (r_alphaWidth rdr) 1 (\<lambda>j. pix rdr) d" using draws_masked by blast
  have "rdr\<lparr>r_rowAAInt := r_rowAAInt rdr, r_data := d\<rparr> = rdr\<lparr>r_data := d\<rparr>" by simp
  with d show "\<exists>aa d. blit rdr 1 = Some (rdr\<lparr>r_rowAAInt := aa, r_data := d\<rparr>) \<and>
      line_rect rdr (r_alphaWidth rdr) 1 (\<lambda>j. pix rdr) d" by metis
qed

lemma rd_paint_0:
  "paint_fit rdr 1 \<Longrightarrow> 0 \<le> k \<Longrightarrow> k < r_alphaWidth rdr \<Longrightarrow> rd (r_paint rdr) k = Some (paint_at rdr 0 k)"
  using rd_paint_at [of rdr 1 0 k] by simp

lemma paint_row_premult:
  "paint_premult rdr 1 \<Longrightarrow> 0 \<le> k \<Longrightarrow> k < r_alphaWidth rdr \<Longrightarrow> premult (paint_at rdr 0 k)"
  using paint_at_premult [of rdr 1 0 k] by simp

text \<open>A pixel function that skips zero coverage draws what the full one does.\<close>

lemma line_rect_cong:
  assumes "line_rect rdr W h g d" "\<And>j i p. 0 \<le> i \<Longrightarrow> i < W \<Longrightarrow> g j i p = g' j i p"
  shows "line_rect rdr W h g' d"
  using assms rect_map_cong by blast

definition over_pix :: "('f renderer \<Rightarrow> jint \<Rightarrow> jint) \<Rightarrow> 'f renderer \<Rightarrow> jint \<Rightarrow> pixel \<Rightarrow> pixel" where
  "over_pix cover rdr k =
     blendSrcOver8888_pre (over_scale rdr (cover rdr k)) (r_cred rdr) (r_cgreen rdr) (r_cblue rdr)"

definition ptover_row_pix :: "('f renderer \<Rightarrow> jint \<Rightarrow> jint) \<Rightarrow> 'f renderer \<Rightarrow> jint \<Rightarrow> pixel \<Rightarrow> pixel" where
  "ptover_row_pix cover rdr k =
    (let c = paint_at rdr 0 k
     in blendSrcOver8888_pre_pre (cover rdr k + 1) (chA c) (chR c) (chG c) (chB c))"

definition src_row_pix :: "('f renderer \<Rightarrow> jint \<Rightarrow> jint) \<Rightarrow> 'f renderer \<Rightarrow> jint \<Rightarrow> pixel \<Rightarrow> pixel" where
  "src_row_pix cover rdr k = act_on (src_cover rdr (cover rdr k))"

definition ptsrc_row_pix :: "('f renderer \<Rightarrow> jint \<Rightarrow> jint) \<Rightarrow> 'f renderer \<Rightarrow> jint \<Rightarrow> pixel \<Rightarrow> pixel" where
  "ptsrc_row_pix cover rdr k = act_on (ptsrc_cover (paint_at rdr 0 k) (cover rdr k))"

lemma src_action_ok [simp]: "action_ok (src_cover rdr m)" "action_ok (ptsrc_cover c m)"
  by (simp_all add: src_cover_def ptsrc_cover_def Let_def)

lemma over_cover_zero: "colour_bytes rdr \<Longrightarrow> act_on (over_cover rdr 0) p = p"
  using cover_scale [of 0 "r_calpha rdr"] by (auto simp: over_cover_def Let_def colour_bytes_def byte_def MAX_ALPHA_def)

lemma aa_rows_pix:
  assumes fit: "blit_fit rdr" and r: "aa_ready rdr"
    and px: "\<And>k. 0 \<le> k \<Longrightarrow> k < r_alphaWidth rdr \<Longrightarrow>
      px (psum (r_rowAAInt rdr) (k + 1)) k = Some (act k) \<and> action_ok (act k) \<and>
      (\<forall>p. act_on (act k) p = pix k p)"
  shows "\<exists>aa d. aa_rows rdr 1 px = Some (rdr\<lparr>r_rowAAInt := aa, r_data := d\<rparr>) \<and>
    slice_map 0 (r_alphaWidth rdr) (\<lambda>i v. 0) (r_rowAAInt rdr) aa \<and>
    line_rect rdr (r_alphaWidth rdr) 1 (\<lambda>j. pix) d"
proof -
  obtain aa d where d: "aa_rows rdr 1 px = Some (rdr\<lparr>r_rowAAInt := aa, r_data := d\<rparr>)"
    "slice_map 0 (r_alphaWidth rdr) (\<lambda>i v. 0) (r_rowAAInt rdr) aa"
    and l: "line_rect rdr (r_alphaWidth rdr) 1 (\<lambda>j i. act_on (act i)) d"
    using aa_rows_one [where px = px and act = act, OF fit] r aa_ready_facts(1) [OF r] px
    by (auto simp: aa_ready_def)
  have "line_rect rdr (r_alphaWidth rdr) 1 (\<lambda>j. pix) d"
    by (rule line_rect_cong [OF l]) (use px in blast)
  with d show ?thesis by blast
qed

lemma mask_rows_pix:
  assumes fit: "blit_fit rdr" and r: "mask_ready rdr"
    and px: "\<And>k. 0 \<le> k \<Longrightarrow> k < r_alphaWidth rdr \<Longrightarrow>
      px (r_mask_byteData rdr ! nat (r_maskOffset rdr + k)) k = Some (act k) \<and> action_ok (act k) \<and>
      (\<forall>p. act_on (act k) p = pix k p)"
  shows "\<exists>d. mask_rows rdr 1 astr
      (mask_row (r_imagePixelStride rdr) (touched_width rdr) (r_mask_byteData rdr) px) =
      Some (rdr\<lparr>r_data := d\<rparr>) \<and> line_rect rdr (r_alphaWidth rdr) 1 (\<lambda>j. pix) d"
proof -
  obtain d where d: "mask_rows rdr 1 astr
      (mask_row (r_imagePixelStride rdr) (touched_width rdr) (r_mask_byteData rdr) px) = Some (rdr\<lparr>r_data := d\<rparr>)"
    and l: "line_rect rdr (r_alphaWidth rdr) 1 (\<lambda>j i. act_on (act i)) d"
    using mask_rows_one [where px = px and act = act and astr = astr, OF fit] r px
    unfolding mask_ready_def by blast
  have "line_rect rdr (r_alphaWidth rdr) 1 (\<lambda>j. pix) d"
    by (rule line_rect_cong [OF l]) (use px in blast)
  with d show ?thesis by blast
qed

text \<open>Skipping a pixel is blending it with coverage 0.\<close>

lemma over_skip:
  assumes "colour_bytes rdr" "byte m" "z \<Longrightarrow> m = 0"
  shows "act_on (if z then None else over_cover rdr m) p =
    blendSrcOver8888_pre (over_scale rdr m) (r_cred rdr) (r_cgreen rdr) (r_cblue rdr) p"
    and "action_ok (if z then None else over_cover rdr m)"
  using assms over_cover_eq [OF assms(1,2)] over_cover_zero [OF assms(1), of p] by auto

lemma ptover_skip:
  assumes "premult c" "byte m" "z \<Longrightarrow> m = 0"
  shows "act_on (if z then None else ptover_cover c m) p =
    blendSrcOver8888_pre_pre (m + 1) (chA c) (chR c) (chG c) (chB c) p"
    and "action_ok (if z then None else ptover_cover c m)"
proof -
  have z: "ptover_cover c 0 = None" using cover_scale [of 0 "chA c"] channel_range [of c]
    by (simp add: ptover_cover_def Let_def byte_def MAX_ALPHA_def)
  show "act_on (if z then None else ptover_cover c m) p =
    blendSrcOver8888_pre_pre (m + 1) (chA c) (chR c) (chG c) (chB c) p"
    "action_ok (if z then None else ptover_cover c m)"
    using assms(3) z ptover_cover_eq [OF assms(1,2)] by (auto split: if_splits)
qed

lemma map_zero_cover: "map_zero rdr \<Longrightarrow> psum (r_rowAAInt rdr) (k + 1) = 0 \<Longrightarrow> aa_cover rdr k = 0"
  by (simp add: map_zero_def aa_cover_def)

interpretation bl_over: aa_blitter blitSrcOver8888_pre
  "\<lambda>rdr. aa_ready rdr \<and> map_zero rdr \<and> colour_bytes rdr" "over_pix aa_cover"
proof
  fix rdr :: "'f renderer"
  assume fit: "blit_fit rdr" and r: "aa_ready rdr \<and> map_zero rdr \<and> colour_bytes rdr"
  show "\<exists>aa d. blitSrcOver8888_pre rdr 1 = Some (rdr\<lparr>r_rowAAInt := aa, r_data := d\<rparr>) \<and>
      slice_map 0 (r_alphaWidth rdr) (\<lambda>i v. 0) (r_rowAAInt rdr) aa \<and>
      line_rect rdr (r_alphaWidth rdr) 1 (\<lambda>j. over_pix aa_cover rdr) d"
    unfolding blitSrcOver8888_pre_def
  proof (rule aa_rows_pix [OF fit, where act = "\<lambda>k. if psum (r_rowAAInt rdr) (k + 1) = 0 then None
      else over_cover rdr (aa_cover rdr k)"])
    fix k assume k: "0 \<le> k" "k < r_alphaWidth rdr"
    from r have c: "colour_bytes rdr" and mz: "map_zero rdr" and a: "aa_ready rdr" by simp_all
    note sk = over_skip [OF c byte_cover(1) map_zero_cover [OF mz]]
    show "(if psum (r_rowAAInt rdr) (k + 1) \<noteq> 0 then do {
          aval \<leftarrow> rd (r_alphaMap rdr) (psum (r_rowAAInt rdr) (k + 1)); Some (over_cover rdr (uint aval)) }
        else Some None) = Some (if psum (r_rowAAInt rdr) (k + 1) = 0 then None else over_cover rdr (aa_cover rdr k)) \<and>
      action_ok (if psum (r_rowAAInt rdr) (k + 1) = 0 then None else over_cover rdr (aa_cover rdr k)) \<and>
      (\<forall>p. act_on (if psum (r_rowAAInt rdr) (k + 1) = 0 then None else over_cover rdr (aa_cover rdr k)) p =
           over_pix aa_cover rdr k p)"
      using sk aa_ready_facts [OF a k] by (simp add: over_pix_def) (simp add: aa_cover_def)
  qed (use r in simp)
qed

interpretation bl_overmask: mask_blitter blitSrcOverMask8888_pre
  "\<lambda>rdr. mask_ready rdr \<and> colour_bytes rdr" "over_pix mask_cover"
proof
  fix rdr :: "'f renderer"
  assume fit: "blit_fit rdr" and r: "mask_ready rdr \<and> colour_bytes rdr"
  let ?b = "\<lambda>k. r_mask_byteData rdr ! nat (r_maskOffset rdr + k)"
  show "\<exists>d. blitSrcOverMask8888_pre rdr 1 = Some (rdr\<lparr>r_data := d\<rparr>) \<and>
    line_rect rdr (r_alphaWidth rdr) 1 (\<lambda>j. over_pix mask_cover rdr) d"
    unfolding blitSrcOverMask8888_pre_def
  proof (rule mask_rows_pix [OF fit, where act = "\<lambda>k. if ?b k = 0 then None else over_cover rdr (mask_cover rdr k)"])
    fix k
    have z: "?b k = 0 \<Longrightarrow> mask_cover rdr k = 0" by (simp add: mask_cover_def)
    from r have c: "colour_bytes rdr" by simp
    show "Some (if ?b k \<noteq> 0 then over_cover rdr (uint (?b k)) else None) =
        Some (if ?b k = 0 then None else over_cover rdr (mask_cover rdr k)) \<and>
      action_ok (if ?b k = 0 then None else over_cover rdr (mask_cover rdr k)) \<and>
      (\<forall>p. act_on (if ?b k = 0 then None else over_cover rdr (mask_cover rdr k)) p = over_pix mask_cover rdr k p)"
      using over_skip [OF c byte_cover(2) z] by (simp add: over_pix_def) (simp add: mask_cover_def)
  qed (use r in simp)
qed

interpretation bl_ptover: aa_blitter blitPTSrcOver8888_pre
  "\<lambda>rdr. aa_ready rdr \<and> map_zero rdr \<and> paint_fit rdr 1 \<and> paint_premult rdr 1" "ptover_row_pix aa_cover"
proof
  fix rdr :: "'f renderer"
  assume fit: "blit_fit rdr" and r: "aa_ready rdr \<and> map_zero rdr \<and> paint_fit rdr 1 \<and> paint_premult rdr 1"
  let ?s = "\<lambda>k. psum (r_rowAAInt rdr) (k + 1)" and ?c = "\<lambda>k. paint_at rdr 0 k"
  show "\<exists>aa d. blitPTSrcOver8888_pre rdr 1 = Some (rdr\<lparr>r_rowAAInt := aa, r_data := d\<rparr>) \<and>
      slice_map 0 (r_alphaWidth rdr) (\<lambda>i v. 0) (r_rowAAInt rdr) aa \<and>
      line_rect rdr (r_alphaWidth rdr) 1 (\<lambda>j. ptover_row_pix aa_cover rdr) d"
    unfolding blitPTSrcOver8888_pre_def
  proof (rule aa_rows_pix [OF fit, where act = "\<lambda>k. if ?s k = 0 then None else ptover_cover (?c k) (aa_cover rdr k)"])
    fix k assume k: "0 \<le> k" "k < r_alphaWidth rdr"
    from r have mz: "map_zero rdr" and a: "aa_ready rdr" and pf: "paint_fit rdr 1" "paint_premult rdr 1" by simp_all
    note sk = ptover_skip [OF paint_row_premult [OF pf(2) k] byte_cover(1) map_zero_cover [OF mz]]
    show "do { cval \<leftarrow> rd (r_paint rdr) k;
          if ?s k \<noteq> 0 then do { malpha \<leftarrow> rd (r_alphaMap rdr) (?s k); Some (ptover_cover cval (uint malpha)) }
          else Some None } = Some (if ?s k = 0 then None else ptover_cover (?c k) (aa_cover rdr k)) \<and>
      action_ok (if ?s k = 0 then None else ptover_cover (?c k) (aa_cover rdr k)) \<and>
      (\<forall>p. act_on (if ?s k = 0 then None else ptover_cover (?c k) (aa_cover rdr k)) p = ptover_row_pix aa_cover rdr k p)"
      using sk aa_ready_facts [OF a k] rd_paint_0 [OF pf(1) k]
      by (simp add: ptover_row_pix_def Let_def) (simp add: aa_cover_def)
  qed (use r in simp)
qed

interpretation bl_ptovermask: mask_blitter blitPTSrcOverMask8888_pre
  "\<lambda>rdr. mask_ready rdr \<and> paint_fit rdr 1 \<and> paint_premult rdr 1" "ptover_row_pix mask_cover"
proof
  fix rdr :: "'f renderer"
  assume fit: "blit_fit rdr" and r: "mask_ready rdr \<and> paint_fit rdr 1 \<and> paint_premult rdr 1"
  let ?b = "\<lambda>k. r_mask_byteData rdr ! nat (r_maskOffset rdr + k)" and ?c = "\<lambda>k. paint_at rdr 0 k"
  show "\<exists>d. blitPTSrcOverMask8888_pre rdr 1 = Some (rdr\<lparr>r_data := d\<rparr>) \<and>
    line_rect rdr (r_alphaWidth rdr) 1 (\<lambda>j. ptover_row_pix mask_cover rdr) d"
    unfolding blitPTSrcOverMask8888_pre_def
  proof (rule mask_rows_pix [OF fit, where act = "\<lambda>k. if ?b k = 0 then None else ptover_cover (?c k) (mask_cover rdr k)"])
    fix k assume k: "0 \<le> k" "k < r_alphaWidth rdr"
    from r have pf: "paint_fit rdr 1" "paint_premult rdr 1" by simp_all
    have z: "?b k = 0 \<Longrightarrow> mask_cover rdr k = 0" by (simp add: mask_cover_def)
    show "(if ?b k \<noteq> 0 then do { cval \<leftarrow> rd (r_paint rdr) k; Some (ptover_cover cval (uint (?b k))) }
          else Some None) = Some (if ?b k = 0 then None else ptover_cover (?c k) (mask_cover rdr k)) \<and>
      action_ok (if ?b k = 0 then None else ptover_cover (?c k) (mask_cover rdr k)) \<and>
      (\<forall>p. act_on (if ?b k = 0 then None else ptover_cover (?c k) (mask_cover rdr k)) p = ptover_row_pix mask_cover rdr k p)"
      using ptover_skip [OF paint_row_premult [OF pf(2) k] byte_cover(2) z] rd_paint_0 [OF pf(1) k]
      by (simp add: ptover_row_pix_def Let_def) (simp add: mask_cover_def)
  qed (use r in simp)
qed

interpretation bl_src: aa_blitter blitSrc8888_pre aa_ready "src_row_pix aa_cover"
proof
  fix rdr :: "'f renderer"
  assume fit: "blit_fit rdr" and r: "aa_ready rdr"
  show "\<exists>aa d. blitSrc8888_pre rdr 1 = Some (rdr\<lparr>r_rowAAInt := aa, r_data := d\<rparr>) \<and>
      slice_map 0 (r_alphaWidth rdr) (\<lambda>i v. 0) (r_rowAAInt rdr) aa \<and>
      line_rect rdr (r_alphaWidth rdr) 1 (\<lambda>j. src_row_pix aa_cover rdr) d"
    unfolding blitSrc8888_pre_def
    by (rule aa_rows_pix [OF fit r, where act = "\<lambda>k. src_cover rdr (aa_cover rdr k)"])
      (simp add: aa_ready_facts [OF r] src_row_pix_def aa_cover_def)
qed

interpretation bl_srcmask: mask_blitter blitSrcMask8888_pre mask_ready "src_row_pix mask_cover"
proof
  fix rdr :: "'f renderer"
  assume fit: "blit_fit rdr" and r: "mask_ready rdr"
  show "\<exists>d. blitSrcMask8888_pre rdr 1 = Some (rdr\<lparr>r_data := d\<rparr>) \<and>
    line_rect rdr (r_alphaWidth rdr) 1 (\<lambda>j. src_row_pix mask_cover rdr) d"
    unfolding blitSrcMask8888_pre_def
    by (rule mask_rows_pix [OF fit r, where act = "\<lambda>k. src_cover rdr (mask_cover rdr k)"])
      (simp add: src_row_pix_def mask_cover_def)
qed

interpretation bl_ptsrc: aa_blitter blitPTSrc8888_pre "\<lambda>rdr. aa_ready rdr \<and> paint_fit rdr 1"
  "ptsrc_row_pix aa_cover"
proof
  fix rdr :: "'f renderer"
  assume fit: "blit_fit rdr" and r: "aa_ready rdr \<and> paint_fit rdr 1"
  then have a: "aa_ready rdr" and pf: "paint_fit rdr 1" by simp_all
  show "\<exists>aa d. blitPTSrc8888_pre rdr 1 = Some (rdr\<lparr>r_rowAAInt := aa, r_data := d\<rparr>) \<and>
      slice_map 0 (r_alphaWidth rdr) (\<lambda>i v. 0) (r_rowAAInt rdr) aa \<and>
      line_rect rdr (r_alphaWidth rdr) 1 (\<lambda>j. ptsrc_row_pix aa_cover rdr) d"
    unfolding blitPTSrc8888_pre_def
    by (rule aa_rows_pix [OF fit a, where act = "\<lambda>k. ptsrc_cover (paint_at rdr 0 k) (aa_cover rdr k)"])
      (simp add: aa_ready_facts [OF a] rd_paint_0 [OF pf] ptsrc_row_pix_def aa_cover_def)
qed

interpretation bl_ptsrcmask: mask_blitter blitPTSrcMask8888_pre "\<lambda>rdr. mask_ready rdr \<and> paint_fit rdr 1"
  "ptsrc_row_pix mask_cover"
proof
  fix rdr :: "'f renderer"
  assume fit: "blit_fit rdr" and r: "mask_ready rdr \<and> paint_fit rdr 1"
  then have m: "mask_ready rdr" and pf: "paint_fit rdr 1" by simp_all
  show "\<exists>d. blitPTSrcMask8888_pre rdr 1 = Some (rdr\<lparr>r_data := d\<rparr>) \<and>
    line_rect rdr (r_alphaWidth rdr) 1 (\<lambda>j. ptsrc_row_pix mask_cover rdr) d"
    unfolding blitPTSrcMask8888_pre_def
    by (rule mask_rows_pix [OF fit m, where act = "\<lambda>k. ptsrc_cover (paint_at rdr 0 k) (mask_cover rdr k)"])
      (simp add: rd_paint_0 [OF pf] ptsrc_row_pix_def mask_cover_def)
qed

interpretation bl_lcd: mask_blitter "blitSrcOverLCDMask8888_pre gs" "lcd_ready gs" "lcd_pix gs" for gs
  by unfold_locales (rule blitLCD_row)


text \<open>The contract of a call through \<^verbatim>\<open>_emitRows\<close>.\<close>

fun row_ready :: "'f gamma_state \<Rightarrow> blit_fn \<Rightarrow> 'f renderer \<Rightarrow> bool" where
  "row_ready gs Blit_Src8888 rdr = aa_ready rdr"
| "row_ready gs Blit_SrcMask8888 rdr = mask_ready rdr"
| "row_ready gs Blit_PTSrc8888 rdr = (aa_ready rdr \<and> paint_fit rdr 1)"
| "row_ready gs Blit_PTSrcMask8888 rdr = (mask_ready rdr \<and> paint_fit rdr 1)"
| "row_ready gs Blit_SrcOver8888 rdr = (aa_ready rdr \<and> map_zero rdr \<and> colour_bytes rdr)"
| "row_ready gs Blit_SrcOverMask8888 rdr = (mask_ready rdr \<and> colour_bytes rdr)"
| "row_ready gs Blit_SrcOverLCDMask8888 rdr = lcd_ready gs rdr"
| "row_ready gs Blit_PTSrcOver8888 rdr = (aa_ready rdr \<and> map_zero rdr \<and> paint_fit rdr 1 \<and> paint_premult rdr 1)"
| "row_ready gs Blit_PTSrcOverMask8888 rdr = (mask_ready rdr \<and> paint_fit rdr 1 \<and> paint_premult rdr 1)"

fun row_pix :: "'f gamma_state \<Rightarrow> blit_fn \<Rightarrow> 'f renderer \<Rightarrow> jint \<Rightarrow> pixel \<Rightarrow> pixel" where
  "row_pix gs Blit_Src8888 = src_row_pix aa_cover"
| "row_pix gs Blit_SrcMask8888 = src_row_pix mask_cover"
| "row_pix gs Blit_PTSrc8888 = ptsrc_row_pix aa_cover"
| "row_pix gs Blit_PTSrcMask8888 = ptsrc_row_pix mask_cover"
| "row_pix gs Blit_SrcOver8888 = over_pix aa_cover"
| "row_pix gs Blit_SrcOverMask8888 = over_pix mask_cover"
| "row_pix gs Blit_SrcOverLCDMask8888 = lcd_pix gs"
| "row_pix gs Blit_PTSrcOver8888 = ptover_row_pix aa_cover"
| "row_pix gs Blit_PTSrcOverMask8888 = ptover_row_pix mask_cover"

interpretation bl_call: row_blitter "call_emitRows gs (Some fn)" "row_ready gs fn" "row_pix gs fn" for gs fn
proof
  fix rdr :: "'a renderer"
  assume f: "blit_fit rdr" and r: "row_ready gs fn rdr"
  show "\<exists>aa d. call_emitRows gs (Some fn) rdr 1 = Some (rdr\<lparr>r_rowAAInt := aa, r_data := d\<rparr>) \<and>
      line_rect rdr (r_alphaWidth rdr) 1 (\<lambda>j. row_pix gs fn rdr) d"
    using f r bl_over.draws_row [OF f] bl_overmask.draws_row [OF f] bl_lcd.draws_row [OF f, of gs]
      bl_ptover.draws_row [OF f] bl_ptovermask.draws_row [OF f] bl_src.draws_row [OF f]
      bl_srcmask.draws_row [OF f] bl_ptsrc.draws_row [OF f] bl_ptsrcmask.draws_row [OF f]
    by (cases fn) simp_all
qed

section \<open>clearRect fills its rectangle\<close>

lemma memset_slice:
  assumes "0 \<le> n" "n < 536870912" "0 \<le> p" "p + n \<le> int (length d)"
  shows "\<exists>d'. memset_px d p (4 * n) v = Some d' \<and> slice_map p n (\<lambda>i q. v) d d'"
proof (cases "n = 0")
  case True
  then show ?thesis by (simp add: memset_px_def i32_id slice_map_refl)
next
  case False
  have i: "i32 (4 * n) = 4 * n" using assms by (simp add: i32_id)
  have "slice_map p n (\<lambda>i q. v) d (take (nat p) d @ replicate (nat n) v @ drop (nat (p + n)) d)"
    unfolding slice_map_def
  proof (intro conjI allI impI)
    show "length (take (nat p) d @ replicate (nat n) v @ drop (nat (p + n)) d) = length d"
      using assms by simp
  next
    fix k assume k: "k < length d"
    show "(take (nat p) d @ replicate (nat n) v @ drop (nat (p + n)) d) ! k =
        (if p \<le> int k \<and> int k < p + n then v else d ! k)"
      using k assms by (auto simp: nth_append nat_add_distrib min_def)
  qed
  with False assms show ?thesis by (simp add: memset_px_def i Let_def)
qed

lemma memcpy_slice:
  assumes "0 \<le> n" "n < 536870912" "0 \<le> dst" "dst + n \<le> int (length d)" "0 \<le> src" "src + n \<le> dst"
    and "\<And>k. 0 \<le> k \<Longrightarrow> k < n \<Longrightarrow> d ! nat (src + k) = v"
  shows "\<exists>d'. memcpy_px d dst src (4 * n) = Some d' \<and> slice_map dst n (\<lambda>i q. v) d d'"
proof (cases "n = 0")
  case True
  then show ?thesis by (simp add: memcpy_px_def i32_id slice_map_refl)
next
  case False
  have i: "i32 (4 * n) = 4 * n" using assms by (simp add: i32_id)
  have e: "take (nat n) (drop (nat src) d) = replicate (nat n) v"
  proof (rule nth_equalityI)
    show "length (take (nat n) (drop (nat src) d)) = length (replicate (nat n) v)" using assms by simp
    fix k assume "k < length (take (nat n) (drop (nat src) d))"
    then show "take (nat n) (drop (nat src) d) ! k = replicate (nat n) v ! k"
      using assms(7) [of "int k"] assms by (simp add: nat_add_distrib)
  qed
  have "memcpy_px d dst src (4 * n) = memset_px d dst (4 * n) v"
    using False assms e by (simp add: memcpy_px_def memset_px_def i Let_def)
  with memset_slice [OF assms(1-4)] show ?thesis by simp
qed

lemma zdiv_less_mult:
  fixes w q h :: int
  assumes "0 < w"
  shows "q div w < h \<longleftrightarrow> q < w * h"
proof -
  have q: "q = w * (q div w) + q mod w" "0 \<le> q mod w" "q mod w < w" using assms by simp_all
  show ?thesis
  proof
    assume "q div w < h"
    then have "w * (q div w + 1) \<le> w * h" using assms by (intro mult_left_mono) simp_all
    then show "q < w * h" using q by (simp only: distrib_left)
  next
    assume l: "q < w * h"
    show "q div w < h"
    proof (rule ccontr)
      assume "\<not> q div w < h"
      then have "w * h \<le> w * (q div w)" using assms by (intro mult_left_mono) simp_all
      with q l show False by linarith
    qed
  qed
qed

lemma slice_rect_full:
  assumes "slice_map off (w * h) (\<lambda>i p. v) xs ys" "0 < w" "0 \<le> h"
  shows "rect_map off w 0 w h (\<lambda>j i p. v) xs ys"
  unfolding rect_map_def
proof (intro conjI allI impI)
  show "length ys = length xs" using assms(1) by (rule slice_map_length)
next
  fix k assume k: "k < length xs"
  have m: "0 \<le> (int k - off) mod w" "(int k - off) mod w < w" using assms(2) by simp_all
  have "off \<le> int k \<longleftrightarrow> 0 \<le> (int k - off) div w"
    using pos_imp_zdiv_nonneg_iff [OF assms(2), of "int k - off"] by simp
  moreover have "int k < off + w * h \<longleftrightarrow> (int k - off) div w < h"
    using zdiv_less_mult [OF assms(2), of "int k - off" h] by auto
  ultimately show "ys ! k = (let q = int k - off; j = q div w; c = q mod w
      in if 0 \<le> j \<and> j < h \<and> 0 \<le> c \<and> c < 0 + w then v else xs ! k)"
    using slice_map_nth [OF assms(1) k] m by (simp add: Let_def)
qed

lemma fill_loop:
  assumes "0 \<le> p0" "0 \<le> w" "p0 + w \<le> int (length d0)"
  shows "\<exists>d. wloop (\<lambda>(p, d). p < p0 + w) (\<lambda>(p, d). do { d' \<leftarrow> wr d p v; Some (p + 1, d') }) (p0, d0) =
    Some (p0 + w, d) \<and> slice_map p0 w (\<lambda>i q. v) d0 d"
proof -
  let ?b = "\<lambda>(p, d). p < p0 + w" and ?c = "\<lambda>(p, d). do { d' \<leftarrow> wr d p v; Some (p + 1, d') }"
  define I where "I t \<longleftrightarrow> (\<exists>k d. t = (p0 + k, d) \<and> 0 \<le> k \<and> k \<le> w \<and> slice_map p0 k (\<lambda>i q. v) d0 d)" for t
  have "\<exists>t. wloop ?b ?c (p0, d0) = Some t \<and> I t \<and> \<not> ?b t"
  proof (rule wloop_total [where m = "\<lambda>(p, _). nat (p0 + w - p)"])
    show "I (p0, d0)" using assms by (simp add: I_def slice_map_refl)
  next
    fix t assume "I t" and b: "?b t"
    then obtain k d where t [simp]: "t = (p0 + k, d)" and k: "0 \<le> k" "k < w"
      and s: "slice_map p0 k (\<lambda>i q. v) d0 d" by (auto simp: I_def)
    have "?c t = Some (p0 + k + 1, d[nat (p0 + k) := v])"
      using k assms slice_map_length [OF s] by (simp add: mem_simps)
    moreover have "slice_map p0 (k + 1) (\<lambda>i q. v) d0 (d[nat (p0 + k) := v])"
      using s assms k by (intro slice_map_snoc) simp_all
    then have "I (p0 + k + 1, d[nat (p0 + k) := v])"
      unfolding I_def using k by (intro exI [of _ "k + 1"]) simp
    ultimately show "\<exists>u. ?c t = Some u \<and> I u \<and>
        (case u of (p, _) \<Rightarrow> nat (p0 + w - p)) < (case t of (p, _) \<Rightarrow> nat (p0 + w - p))"
      using k by simp
  qed
  then obtain r where r: "wloop ?b ?c (p0, d0) = Some r" "I r" "\<not> ?b r" by blast
  then obtain k d where e: "r = (p0 + k, d)" "0 \<le> k" "k \<le> w" "slice_map p0 k (\<lambda>i q. v) d0 d"
    unfolding I_def by blast
  with r(3) have "k = w" by simp
  with e r(1) show ?thesis by simp
qed

text \<open>What \<^verbatim>\<open>renderer_clearRect\<close> establishes before the call.\<close>

definition clear_fit :: "'f renderer \<Rightarrow> jint \<Rightarrow> jint \<Rightarrow> jint \<Rightarrow> jint \<Rightarrow> bool" where
  "clear_fit rdr x y w h \<longleftrightarrow> r_imagePixelStride rdr = 1 \<and> 0 \<le> x \<and> 0 \<le> y \<and> 0 < w \<and> 0 < h \<and>
     r_imageScanlineStride rdr = r_width rdr \<and> x + w \<le> r_width rdr \<and> 0 \<le> r_imageOffset rdr \<and>
     r_imageOffset rdr + (y + h - 1) * r_width rdr + x + w \<le> int (length (r_data rdr)) \<and>
     length (r_data rdr) < 536870912"

lemma clear_rows:
  assumes fit: "0 \<le> off" "0 \<le> x" "0 \<le> w" "x + w \<le> st" "0 < st"
    and last: "off + (h - 1) * st + x + w \<le> int (length xs)"
    and j0: "0 \<le> j0" "j0 \<le> h" "rect_map off st x w j0 g xs d0" and p0: "p0 = off + j0 * st + x"
    and row: "\<And>j d. j0 \<le> j \<Longrightarrow> j < h \<Longrightarrow> rect_map off st x w j g xs d \<Longrightarrow>
      0 \<le> off + j * st + x \<Longrightarrow> off + j * st + x + w \<le> int (length d) \<Longrightarrow>
      \<exists>d'. f d (off + j * st + x) = Some d' \<and> slice_map (off + j * st + x) w (g j) d d'"
  shows "\<exists>d p. cfor (h - j0) (\<lambda>j (p, d). do { d' \<leftarrow> f d p; Some (p + st, d') }) (p0, d0) = Some (p, d) \<and>
    rect_map off st x w h g xs d"
proof -
  define I where "I j t \<longleftrightarrow> fst t = off + (j0 + j) * st + x \<and> rect_map off st x w (j0 + j) g xs (snd t)"
    for j :: int and t :: "int \<times> 'a list"
  have "\<exists>t. cfor (h - j0) (\<lambda>j (p, d). do { d' \<leftarrow> f d p; Some (p + st, d') }) (p0, d0) = Some t \<and> I (max 0 (h - j0)) t"
  proof (rule cfor_total)
    show "I 0 (p0, d0)" using j0 by (simp add: I_def p0)
  next
    fix j t assume j: "0 \<le> j" "j < h - j0" and It: "I j t"
    obtain p d where [simp]: "t = (p, d)" by (cases t)
    from It have p: "p = off + (j0 + j) * st + x" and r: "rect_map off st x w (j0 + j) g xs d"
      by (simp_all add: I_def)
    have "(j0 + j) * st \<le> (h - 1) * st" using j fit by (intro mult_right_mono) simp_all
    then have "off + (j0 + j) * st + x + w \<le> int (length d)"
      using last rect_map_length [OF r] by linarith
    moreover have "0 \<le> off + (j0 + j) * st + x" using fit j j0 by simp
    ultimately obtain d' where d': "f d p = Some d'"
      "slice_map (off + (j0 + j) * st + x) w (g (j0 + j)) d d'"
      using row [of "j0 + j" d] r j j0 by (auto simp: p)
    have "rect_map off st x w (j0 + j + 1) g xs d'"
      using r d'(2) j j0 fit by (intro rect_map_snoc) simp_all
    with d' show "\<exists>u. (\<lambda>(p, d). do { d' \<leftarrow> f d p; Some (p + st, d') }) t = Some u \<and> I (j + 1) u"
      by (simp add: I_def p algebra_simps)
  qed
  with j0 show ?thesis by (auto simp: I_def)
qed

lemma clearRect_rect:
  assumes fit: "clear_fit rdr x y w h"
  defines "cval \<equiv> pack (r_calpha rdr) (r_cred rdr) (r_cgreen rdr) (r_cblue rdr)"
    and "off \<equiv> r_imageOffset rdr + y * r_width rdr"
  shows "\<exists>d. clearRect8888_any rdr x y w h = Some (rdr\<lparr>r_data := d\<rparr>) \<and>
    rect_map off (r_width rdr) x w h (\<lambda>j i p. cval) (r_data rdr) d"
proof -
  let ?st = "r_width rdr" and ?xs = "r_data rdr"
  have f: "r_imagePixelStride rdr = 1" "0 \<le> x" "0 \<le> y" "0 < w" "0 < h" "r_imageScanlineStride rdr = ?st"
    "x + w \<le> ?st" "0 \<le> r_imageOffset rdr" "length ?xs < 536870912" "0 < ?st"
    using fit by (simp_all add: clear_fit_def)
  have last: "off + (h - 1) * ?st + x + w \<le> int (length ?xs)"
    using fit by (simp add: clear_fit_def off_def algebra_simps)
  have off0: "0 \<le> off" using f by (simp add: off_def)
  have yst: "0 \<le> y * ?st" "y * ?st \<le> off" "0 \<le> (h - 1) * ?st" using f by (simp_all add: off_def)
  have base: "r_imageOffset rdr + i32 (y * r_imageScanlineStride rdr) + i32 (x * r_imagePixelStride rdr) = off + x"
  proof -
    have "i32 (y * ?st) = y * ?st" "i32 x = x" by (rule i32_id; use f(2,4,8,9) last yst in linarith)+
    then show ?thesis using f by (simp add: off_def)
  qed
  have w29: "w < 536870912" using last yst f off0 by linarith
  then have size: "i32 (4 * w) = 4 * w" using f by (simp add: i32_id)
  have whole: "?thesis" if "cval = 0" "x = 0" "w = ?st"
  proof -
    have "off + w * h = off + (h - 1) * ?st + x + w" using that(2,3) by (simp add: algebra_simps)
    then have wh: "off + w * h \<le> int (length ?xs)" using last by simp
    have wh0: "0 \<le> w * h" using f by simp
    have "w * h < 536870912" using wh off0 f by linarith
    then obtain d where d: "memset_px ?xs off (4 * (w * h)) 0 = Some d"
      and s: "slice_map off (w * h) (\<lambda>i q. 0) ?xs d"
      using memset_slice [of "w * h" off ?xs 0] wh wh0 off0 by auto
    have "rect_map off ?st x w h (\<lambda>j i p. cval) ?xs d"
      using slice_rect_full [OF s] f that by simp
    with d that size base show ?thesis
      by (intro exI [of _ d]) (simp add: clearRect8888_any_def cval_def [symmetric] Let_def mult.assoc)
  qed
  have part: "?thesis" if "cval = 0" "\<not> (x = 0 \<and> w = ?st)"
  proof -
    have "\<exists>d p. cfor (h - 0) (\<lambda>j (p, d). do { d' \<leftarrow> memset_px d p (4 * w) 0; Some (p + ?st, d') }) (off + x, ?xs) =
        Some (p, d) \<and> rect_map off ?st x w h (\<lambda>j i p. 0) ?xs d"
      by (rule clear_rows [OF off0 f(2) _ f(7,10) last])
        (use f w29 in \<open>simp_all add: rect_map_none memset_slice\<close>)
    then obtain d p where "cfor h (\<lambda>j (p, d). do { d' \<leftarrow> memset_px d p (4 * w) 0; Some (p + ?st, d') }) (off + x, ?xs) =
        Some (p, d)" "rect_map off ?st x w h (\<lambda>j i p. 0) ?xs d" by auto
    with that size base f show ?thesis
      by (intro exI [of _ d]) (auto simp: clearRect8888_any_def cval_def [symmetric] Let_def)
  qed
  have colour: "?thesis" if c: "cval \<noteq> 0"
  proof -
    have "off + x + w \<le> int (length ?xs)" using last yst f off0 by linarith
    then obtain d1 where l: "wloop (\<lambda>(p, d). p < off + x + w)
        (\<lambda>(p, d). do { d' \<leftarrow> wr d p cval; Some (p + 1, d') }) (off + x, ?xs) = Some (off + x + w, d1)"
      and s1: "slice_map (off + x) w (\<lambda>i q. cval) ?xs d1"
      using fill_loop [of "off + x" w ?xs cval] off0 f by auto
    have r1: "rect_map off ?st x w 1 (\<lambda>j i p. cval) ?xs d1" using s1 f by (intro rect_map_row) simp_all
    have "\<exists>d p. cfor (h - 1) (\<lambda>j (p, d). do { d' \<leftarrow> memcpy_px d p (off + x) (4 * w); Some (p + ?st, d') })
        (off + x + ?st, d1) = Some (p, d) \<and> rect_map off ?st x w h (\<lambda>j i p. cval) ?xs d"
    proof (rule clear_rows [OF off0 f(2) _ f(7,10) last])
      fix j d
      assume j: "1 \<le> j" "j < h" and r: "rect_map off ?st x w j (\<lambda>j i p. cval) ?xs d"
        and b: "0 \<le> off + j * ?st + x" "off + j * ?st + x + w \<le> int (length d)"
      have len: "length d = length ?xs" using r by (rule rect_map_length)
      have "1 * ?st \<le> j * ?st" using j f by (intro mult_right_mono) simp_all
      then have jst: "w \<le> j * ?st" using f(2,7) by linarith
      show "\<exists>d'. memcpy_px d (off + j * ?st + x) (off + x) (4 * w) = Some d' \<and>
          slice_map (off + j * ?st + x) w (\<lambda>i p. cval) d d'"
      proof (rule memcpy_slice)
        fix k assume k: "0 \<le> k" "k < w"
        show "d ! nat (off + x + k) = cval"
          using rect_map_nth [OF r, of 0 k "off + x + k"] j k f off0 len b jst by simp
      qed (use f w29 off0 b jst in simp_all)
    qed (use f r1 in \<open>simp_all add: algebra_simps\<close>)
    then obtain d p where "cfor (h - 1) (\<lambda>j (p, d). do { d' \<leftarrow> memcpy_px d p (off + x) (4 * w); Some (p + ?st, d') })
        (off + x + ?st, d1) = Some (p, d)" "rect_map off ?st x w h (\<lambda>j i p. cval) ?xs d" by blast
    with l c size base f show ?thesis
      by (intro exI [of _ d]) (simp add: clearRect8888_any_def cval_def [symmetric] Let_def)
  qed
  show ?thesis using whole part colour by blast
qed

end
