(* ===== verification/Paint.thy ===== *)
theory Paint
  imports Blit_Rows
begin

text \<open>
  The paint generators' ground (\<^verbatim>\<open>native-prism-sw/PiscesPaint.c\<close>): gradient padding, colour
  interpolation, the bounds checks of texture coordinates, and the two gradient generators. A
  generator fills \<^verbatim>\<open>height\<close> rows of \<^verbatim>\<open>_alphaWidth\<close> pixels of \<^verbatim>\<open>_paint\<close>; \<open>gen_rows\<close> is that double
  loop over a row initialiser and a step that yields the next pixel.
\<close>

unbundle bit_operations_syntax

section \<open>Padding and remainders\<close>

text \<open>\<^verbatim>\<open>lmod\<close>; a zero divisor is undefined.\<close>

definition lmod :: "jlong \<Rightarrow> jlong \<Rightarrow> jlong option" where
  "lmod x y = (if y = 0 then None
     else (let r = crem (i64 x) y in Some (if r < 0 then r + y else r)))"

definition pad :: "jint \<Rightarrow> jint \<Rightarrow> jint" where
  "pad ifrac cycleMethod =
    (if cycleMethod = CYCLE_NONE then
       (if ifrac < 0 then 0 else if 0xffff < ifrac then 0xffff else ifrac)
     else if cycleMethod = CYCLE_REPEAT then ifrac mod 0x10000
     else if cycleMethod = CYCLE_REFLECT then
       (let i1 = (if ifrac < 0 then i32 (- ifrac) else ifrac);
            i2 = i1 mod 0x20000
        in if 0xffff < i2 then 0x1ffff - i2 else i2)
     else ifrac)"

lemma pad_range:
  "cycleMethod \<in> {CYCLE_NONE, CYCLE_REPEAT, CYCLE_REFLECT} \<Longrightarrow> 0 \<le> pad x cycleMethod \<and> pad x cycleMethod < 65536"
  using pos_mod_bound [of 131072 "if x < 0 then i32 (- x) else x"]
    pos_mod_sign [of 131072 "if x < 0 then i32 (- x) else x"]
  by (auto simp: pad_def Let_def)

text \<open>Clamping, a sawtooth and a triangle wave.\<close>

lemma pad_none: "pad x CYCLE_NONE = max 0 (min 65535 x)"
  by (simp add: pad_def)

lemma pad_repeat: "pad (x + 65536 * k) CYCLE_REPEAT = pad x CYCLE_REPEAT"
  by (simp add: pad_def)

lemma pad_reflect:
  assumes "is_jint x"
  shows "pad x CYCLE_REFLECT = (let m = \<bar>x\<bar> mod 131072 in min m (131071 - m))"
proof -
  have "(if x < 0 then i32 (- x) else x) mod 131072 = \<bar>x\<bar> mod 131072"
  proof (cases "x = - 2147483648")
    case True
    then show ?thesis by (simp add: i32_def)
  next
    case False
    with assms have "x < 0 \<Longrightarrow> i32 (- x) = - x" by (simp add: is_jint_def i32_id)
    then show ?thesis by auto
  qed
  then show ?thesis by (simp add: pad_def Let_def min_def)
qed

section \<open>Interpolation\<close>

definition interp :: "jint \<Rightarrow> jint \<Rightarrow> jint \<Rightarrow> jint" where
  "interp x0 x1 fr = sar 16 (x0 * 65536 + (x1 - x0) * fr + 0x8000)"

definition interpolate2points :: "pixel \<Rightarrow> pixel \<Rightarrow> jint \<Rightarrow> pixel" where
  "interpolate2points p0 p1 fr =
     pack (interp (chA p0) (chA p1) fr) (interp (chR p0) (chR p1) fr)
          (interp (chG p0) (chG p1) fr) (interp (chB p0) (chB p1) fr)"

definition interpolate4points :: "pixel \<Rightarrow> pixel \<Rightarrow> pixel \<Rightarrow> pixel \<Rightarrow> jint \<Rightarrow> jint \<Rightarrow> pixel" where
  "interpolate4points p00 p01 p10 p11 hfrac vfrac =
    (let a0 = interp (chA p00) (chA p01) hfrac; r0 = interp (chR p00) (chR p01) hfrac;
         g0 = interp (chG p00) (chG p01) hfrac; b0 = interp (chB p00) (chB p01) hfrac;
         a1 = interp (chA p10) (chA p11) hfrac; r1 = interp (chR p10) (chR p11) hfrac;
         g1 = interp (chG p10) (chG p11) hfrac; b1 = interp (chB p10) (chB p11) hfrac
     in pack (interp a0 a1 vfrac) (interp r0 r1 vfrac) (interp g0 g1 vfrac) (interp b0 b1 vfrac))"

definition interpolate2pointsNoAlpha :: "pixel \<Rightarrow> pixel \<Rightarrow> jint \<Rightarrow> pixel" where
  "interpolate2pointsNoAlpha p0 p1 fr =
     0xff000000 OR push_bit 16 (word_of_int (interp (chR p0) (chR p1) fr))
                OR push_bit 8 (word_of_int (interp (chG p0) (chG p1) fr))
                OR word_of_int (interp (chB p0) (chB p1) fr)"

definition interpolate4pointsNoAlpha :: "pixel \<Rightarrow> pixel \<Rightarrow> pixel \<Rightarrow> pixel \<Rightarrow> jint \<Rightarrow> jint \<Rightarrow> pixel" where
  "interpolate4pointsNoAlpha p00 p01 p10 p11 hfrac vfrac =
    (let r0 = interp (chR p00) (chR p01) hfrac;
         g0 = interp (chG p00) (chG p01) hfrac; b0 = interp (chB p00) (chB p01) hfrac;
         r1 = interp (chR p10) (chR p11) hfrac;
         g1 = interp (chG p10) (chG p11) hfrac; b1 = interp (chB p10) (chB p11) hfrac
     in 0xff000000 OR push_bit 16 (word_of_int (interp r0 r1 vfrac))
                   OR push_bit 8 (word_of_int (interp g0 g1 vfrac)) OR word_of_int (interp b0 b1 vfrac))"

definition frac16 :: "jint \<Rightarrow> bool" where "frac16 f \<longleftrightarrow> 0 \<le> f \<and> f < 65536"

lemma interp_bound:
  assumes "byte x" "byte y" "frac16 f"
  shows "0 \<le> x * 65536 + (y - x) * f" "x * 65536 + (y - x) * f \<le> 16711680"
    "interp x y f = (x * 65536 + (y - x) * f + 32768) div 65536"
proof -
  have e: "x * 65536 + (y - x) * f = x * (65536 - f) + y * f" by (simp add: algebra_simps)
  have "0 \<le> x * (65536 - f)" "0 \<le> y * f" using assms by (simp_all add: byte_def frac16_def)
  then show p: "0 \<le> x * 65536 + (y - x) * f" by (simp add: e)
  have "x * (65536 - f) \<le> 255 * (65536 - f)" "y * f \<le> 255 * f"
    by (rule mult_right_mono; use assms in \<open>simp add: byte_def frac16_def\<close>)+
  moreover have "255 * (65536 - f) = 16711680 - 255 * f" by simp
  ultimately have "x * (65536 - f) + y * f \<le> 16711680" by simp
  then show q: "x * 65536 + (y - x) * f \<le> 16711680"
    by (simp only: e)
  show "interp x y f = (x * 65536 + (y - x) * f + 32768) div 65536"
    using p q by (simp add: interp_def sar_id)
qed

lemma interp_byte [byte_intros, simp]: "byte x \<Longrightarrow> byte y \<Longrightarrow> frac16 f \<Longrightarrow> byte (interp x y f)"
  using interp_bound [of x y f] zdiv_mono1 [of "x * 65536 + (y - x) * f + 32768" 16744448 65536]
  by (simp add: byte_def pos_imp_zdiv_nonneg_iff)

lemma interp_zero [simp]: "byte x \<Longrightarrow> interp x y 0 = x"
  by (simp add: interp_def byte_def sar_id)

lemma interp_mono:
  assumes "byte x" "byte y" "byte x'" "byte y'" "frac16 f" "x \<le> x'" "y \<le> y'"
  shows "interp x y f \<le> interp x' y' f"
proof -
  have "x * (65536 - f) \<le> x' * (65536 - f)" "y * f \<le> y' * f"
    using assms by (auto simp: frac16_def intro!: mult_right_mono)
  then have "x * 65536 + (y - x) * f \<le> x' * 65536 + (y' - x') * f" by (simp add: algebra_simps)
  then show ?thesis using assms by (simp add: interp_bound zdiv_mono1)
qed

lemma interp_same [simp]: "byte x \<Longrightarrow> frac16 f \<Longrightarrow> interp x x f = x"
  by (simp add: interp_bound)

text \<open>An interpolated colour lies between its two ends.\<close>

lemma interp_between:
  assumes "byte x" "byte y" "frac16 f"
  shows "min x y \<le> interp x y f" "interp x y f \<le> max x y"
proof -
  have b: "byte (min x y)" "byte (max x y)" using assms by (auto simp: byte_def min_def max_def)
  show "min x y \<le> interp x y f"
    using interp_mono [of "min x y" "min x y" x y f] interp_same [OF b(1) assms(3)] b assms by simp
  show "interp x y f \<le> max x y"
    using interp_mono [of x y "max x y" "max x y" f] interp_same [OF b(2) assms(3)] b assms by simp
qed

text \<open>Bilinear interpolation with a zero fraction is the linear one, so the case distinction of the
  texture loops is an optimisation.\<close>

lemma interpolate4_cases:
  assumes "frac16 h" "frac16 v"
  shows "interpolate4points p00 p01 p10 p11 h 0 = interpolate2points p00 p01 h"
    and "interpolate4points p00 p01 p10 p11 0 v = interpolate2points p00 p10 v"
    and "interpolate4points p00 p01 p10 p11 0 0 = p00"
  using assms by (simp_all add: interpolate4points_def interpolate2points_def frac16_def Let_def)

lemma NoAlpha_pack:
  "interpolate2pointsNoAlpha p0 p1 f =
     pack 255 (interp (chR p0) (chR p1) f) (interp (chG p0) (chG p1) f) (interp (chB p0) (chB p1) f)"
  "interpolate4pointsNoAlpha p00 p01 p10 p11 h v =
     pack 255 (interp (interp (chR p00) (chR p01) h) (interp (chR p10) (chR p11) h) v)
              (interp (interp (chG p00) (chG p01) h) (interp (chG p10) (chG p11) h) v)
              (interp (interp (chB p00) (chB p01) h) (interp (chB p10) (chB p11) h) v)"
  by (simp_all add: interpolate2pointsNoAlpha_def interpolate4pointsNoAlpha_def pack_def Let_def)

lemma interpolate4NoAlpha_cases:
  assumes "frac16 h" "frac16 v"
  shows "interpolate4pointsNoAlpha p00 p01 p10 p11 h 0 = interpolate2pointsNoAlpha p00 p01 h"
    and "interpolate4pointsNoAlpha p00 p01 p10 p11 0 v = interpolate2pointsNoAlpha p00 p10 v"
    and "chA p00 = 255 \<Longrightarrow> interpolate4pointsNoAlpha p00 p01 p10 p11 0 0 = p00"
  using assms pack_of_channels [of p00] by (simp_all add: NoAlpha_pack frac16_def del: pack_of_channels)

text \<open>Interpolation keeps colours premultiplied.\<close>

lemma premult_channels: "premult p \<Longrightarrow> chR p \<le> chA p" "premult p \<Longrightarrow> chG p \<le> chA p" "premult p \<Longrightarrow> chB p \<le> chA p"
  by (simp_all add: premult_def)

lemma interpolate2_premult:
  "premult p0 \<Longrightarrow> premult p1 \<Longrightarrow> frac16 f \<Longrightarrow> premult (interpolate2points p0 p1 f)"
  unfolding interpolate2points_def by (intro premult_packI interp_mono) (simp_all add: premult_channels)

lemma interpolate4_premult:
  "premult p00 \<Longrightarrow> premult p01 \<Longrightarrow> premult p10 \<Longrightarrow> premult p11 \<Longrightarrow> frac16 h \<Longrightarrow> frac16 v \<Longrightarrow>
   premult (interpolate4points p00 p01 p10 p11 h v)"
  unfolding interpolate4points_def Let_def
  by (intro premult_packI interp_mono) (simp_all add: premult_channels)

lemma byte_le_255: "byte x \<Longrightarrow> x \<le> 255" "byte 255"
  by (simp_all add: byte_def)

lemma interpolateNoAlpha_premult:
  "frac16 f \<Longrightarrow> premult (interpolate2pointsNoAlpha p0 p1 f)"
  "frac16 h \<Longrightarrow> frac16 v \<Longrightarrow> premult (interpolate4pointsNoAlpha p00 p01 p10 p11 h v)"
  unfolding NoAlpha_pack by (intro premult_packI; simp add: byte_le_255)+

section \<open>Filling the paint buffer\<close>

definition gen_row ::
  "jint \<Rightarrow> ('s \<Rightarrow> ('s \<times> pixel) option) \<Rightarrow> jint \<Rightarrow> 's \<Rightarrow> pixel list \<Rightarrow> pixel list option" where
  "gen_row width step pidx0 s0 paint0 = do {
     (_, _, paint) \<leftarrow> cfor width (\<lambda>i (pidx, s, paint). do {
         (s', c) \<leftarrow> step s;
         paint' \<leftarrow> wr paint pidx c;
         Some (pidx + 1, s', paint') }) (pidx0, s0, paint0);
     Some paint
   }"

definition gen_rows ::
  "jint \<Rightarrow> jint \<Rightarrow> ('r \<Rightarrow> ('s \<times> 'r) option) \<Rightarrow> ('s \<Rightarrow> ('s \<times> pixel) option) \<Rightarrow> 'r \<Rightarrow> pixel list \<Rightarrow>
   pixel list option" where
  "gen_rows height width init step r0 paint0 = do {
     (_, _, paint) \<leftarrow> cfor height (\<lambda>j (paintOffset, r, paint). do {
         (s, r') \<leftarrow> init r;
         paint' \<leftarrow> gen_row width step paintOffset s paint;
         Some (paintOffset + width, r', paint') }) (0, r0, paint0);
     Some paint
   }"

text \<open>
  The rule for both loops: row \<open>j\<close> starts in a state of \<open>I j 0\<close>, a step keeps \<open>I j\<close> and its pixel
  meets \<open>Q j i\<close>. Then nothing faults and every pixel of the block meets its \<open>Q\<close>.
\<close>

definition block_ok :: "jint \<Rightarrow> jint \<Rightarrow> (jint \<Rightarrow> jint \<Rightarrow> pixel \<Rightarrow> bool) \<Rightarrow> pixel list \<Rightarrow> bool" where
  "block_ok width n Q paint \<longleftrightarrow> (\<forall>k. 0 \<le> k \<and> k < n \<longrightarrow> Q (k div width) (k mod width) (paint ! nat k))"

lemma gen_row_total:
  assumes b: "0 \<le> width" "0 \<le> p0" "p0 + width \<le> int (length paint0)"
    and s0: "I 0 s0"
    and step: "\<And>i s. 0 \<le> i \<Longrightarrow> i < width \<Longrightarrow> I i s \<Longrightarrow> \<exists>s' c. step s = Some (s', c) \<and> I (i + 1) s' \<and> Q i c"
  shows "\<exists>paint. gen_row width step p0 s0 paint0 = Some paint \<and> length paint = length paint0 \<and>
    (\<forall>k. 0 \<le> k \<and> k < p0 \<longrightarrow> paint ! nat k = paint0 ! nat k) \<and>
    (\<forall>i. 0 \<le> i \<and> i < width \<longrightarrow> Q i (paint ! nat (p0 + i)))"
proof -
  let ?f = "\<lambda>i (pidx, s, paint). do {
         (s', c) \<leftarrow> step s;
         paint' \<leftarrow> wr paint pidx c;
         Some (pidx + 1, s', paint') }"
  define J where "J i t \<longleftrightarrow> (\<exists>s paint. t = (p0 + i, s, paint) \<and> I i s \<and> length paint = length paint0 \<and>
     (\<forall>k. 0 \<le> k \<and> k < p0 \<longrightarrow> paint ! nat k = paint0 ! nat k) \<and>
     (\<forall>k. 0 \<le> k \<and> k < i \<longrightarrow> Q k (paint ! nat (p0 + k))))" for i t
  have "\<exists>t. cfor width ?f (p0, s0, paint0) = Some t \<and> J (max 0 width) t"
  proof (rule cfor_total)
    show "J 0 (p0, s0, paint0)" using s0 by (auto simp: J_def)
  next
    fix i t assume i: "0 \<le> i" "i < width" and "J i t"
    then obtain s paint where t [simp]: "t = (p0 + i, s, paint)" and J: "I i s" "length paint = length paint0"
      "\<forall>k. 0 \<le> k \<and> k < p0 \<longrightarrow> paint ! nat k = paint0 ! nat k"
      "\<forall>k. 0 \<le> k \<and> k < i \<longrightarrow> Q k (paint ! nat (p0 + k))" by (auto simp: J_def)
    obtain s' c where st: "step s = Some (s', c)" "I (i + 1) s'" "Q i c" using step [OF i J(1)] by blast
    have w: "wr paint (p0 + i) c = Some (paint[nat (p0 + i) := c])" using i b J(2) by (simp add: mem_simps)
    have q: "Q k (paint[nat (p0 + i) := c] ! nat (p0 + k))" if "0 \<le> k" "k < i + 1" for k
    proof (cases "k = i")
      case True
      then show ?thesis using st(3) i b J(2) by simp
    next
      case False
      with that J(4) i b show ?thesis by (simp add: nth_list_update nat_eq_iff)
    qed
    have o: "paint[nat (p0 + i) := c] ! nat k = paint0 ! nat k" if "0 \<le> k" "k < p0" for k
      using that J(3) i b by (simp add: nth_list_update nat_eq_iff)
    have "J (i + 1) (p0 + i + 1, s', paint[nat (p0 + i) := c])"
      unfolding J_def using st J(2) q o by auto
    with st w show "\<exists>u. ?f i t = Some u \<and> J (i + 1) u" by simp
  qed
  with b show ?thesis by (auto simp: J_def gen_row_def)
qed

lemma gen_rows_total:
  assumes b: "0 \<le> width" "height * width \<le> int (length paint0)"
    and r0: "R 0 r0"
    and init: "\<And>j r. 0 \<le> j \<Longrightarrow> j < height \<Longrightarrow> R j r \<Longrightarrow> \<exists>s r'. init r = Some (s, r') \<and> I j 0 s \<and> R (j + 1) r'"
    and step: "\<And>j i s. 0 \<le> j \<Longrightarrow> j < height \<Longrightarrow> 0 \<le> i \<Longrightarrow> i < width \<Longrightarrow> I j i s \<Longrightarrow>
      \<exists>s' c. step s = Some (s', c) \<and> I j (i + 1) s' \<and> Q j i c"
  shows "\<exists>paint. gen_rows height width init step r0 paint0 = Some paint \<and> length paint = length paint0 \<and>
    block_ok width (height * width) Q paint"
proof -
  let ?f = "\<lambda>j (paintOffset, r, paint). do {
         (s, r') \<leftarrow> init r;
         paint' \<leftarrow> gen_row width step paintOffset s paint;
         Some (paintOffset + width, r', paint') }"
  define J where "J j t \<longleftrightarrow> (\<exists>r paint. t = (j * width, r, paint) \<and> R j r \<and> length paint = length paint0 \<and>
     block_ok width (j * width) Q paint)" for j t
  have "\<exists>t. cfor height ?f (0, r0, paint0) = Some t \<and> J (max 0 height) t"
  proof (rule cfor_total)
    show "J 0 (0, r0, paint0)" using r0 by (auto simp: J_def block_ok_def)
  next
    fix j t assume j: "0 \<le> j" "j < height" and "J j t"
    then obtain r paint where t [simp]: "t = (j * width, r, paint)" and J: "R j r"
      "length paint = length paint0" "block_ok width (j * width) Q paint" by (auto simp: J_def)
    obtain s r' where s: "init r = Some (s, r')" "I j 0 s" "R (j + 1) r'" using init [OF j J(1)] by blast
    have "(j + 1) * width \<le> height * width" using j b by (intro mult_right_mono) simp_all
    then have fit: "0 \<le> j * width" "j * width + width \<le> int (length paint)"
      using b j J(2) by (simp_all add: algebra_simps)
    obtain paint' where p: "gen_row width step (j * width) s paint = Some paint'" "length paint' = length paint"
      "\<forall>k. 0 \<le> k \<and> k < j * width \<longrightarrow> paint' ! nat k = paint ! nat k"
      "\<forall>i. 0 \<le> i \<and> i < width \<longrightarrow> Q j i (paint' ! nat (j * width + i))"
      using gen_row_total [where I = "I j" and Q = "Q j", OF b(1) fit s(2)] step [OF j] by blast
    have "Q (k div width) (k mod width) (paint' ! nat k)" if k: "0 \<le> k" "k < (j + 1) * width" for k
    proof (cases "k < j * width")
      case True
      with k p(3) J(3) show ?thesis by (simp add: block_ok_def)
    next
      case False
      define i where "i = k - j * width"
      have i: "0 \<le> i" "i < width" "k = i + j * width" using False k by (auto simp: i_def algebra_simps)
      then have "k div width = j" "k mod width = i" by simp_all
      with p(4) i show ?thesis by (simp add: add.commute)
    qed
    then have "J (j + 1) ((j + 1) * width, r', paint')"
      using s p J(2) by (auto simp: J_def block_ok_def)
    with s p show "\<exists>u. ?f j t = Some u \<and> J (j + 1) u" by (simp add: distrib_right)
  qed
  moreover have "block_ok width (height * width) Q paint" if "height \<le> 0" for paint
  proof -
    have "height * width \<le> 0" using that b(1) by (simp add: mult_nonpos_nonneg)
    then show ?thesis by (auto simp: block_ok_def)
  qed
  ultimately show ?thesis by (cases "0 \<le> height") (auto simp: J_def gen_rows_def max_def)
qed


section \<open>The gradients\<close>

definition gradient_colour :: "'f gradient \<Rightarrow> jint \<Rightarrow> pixel option" where
  "gradient_colour g ifrac = rd (g_colors g) (sar 8 (pad ifrac (g_cycleMethod g)))"

definition genLinearGradientPaint :: "'f flops \<Rightarrow> 'f renderer \<Rightarrow> jint \<Rightarrow> 'f renderer option" where
  "genLinearGradientPaint F rdr height =
    (let g = r_gr rdr; width = r_alphaWidth rdr; x = r_currX rdr
     in do {
       paint \<leftarrow> gen_rows height width
         (\<lambda>y. Some (f_add F (f_add F (f_mul F (f_of_int F x) (lg_mx g)) (f_mul F (f_of_int F (i32 y)) (lg_my g))) (lg_b g), y + 1))
         (\<lambda>fr. do { c \<leftarrow> gradient_colour g (to_jint F fr); Some (f_add F fr (lg_mx g), c) })
         (r_currY rdr) (r_paint rdr);
       Some (rdr\<lparr>r_paint := paint\<rparr>)
     })"

text \<open>The values \<open>U\<close>, \<open>V\<close>, \<open>dV\<close> at the start of a row, and \<open>dU\<close>, \<open>ddV\<close>.\<close>

definition radial_start :: "'f flops \<Rightarrow> 'f gradient \<Rightarrow> jint \<Rightarrow> jint \<Rightarrow> 'f \<times> 'f \<times> 'f \<times> 'f \<times> 'f" where
  "radial_start F g x y =
    (let add = f_add F; sub = f_sub F; mul = f_mul F; two = f_of_int F 2; one16 = f_of_int F 65536;
         fx = f_of_int F x; fy = f_of_int F y;
         txx = add (add (mul fx (rg_a00 g)) (mul fy (rg_a01 g))) (rg_a02 g);
         tyy = add (add (mul fx (rg_a10 g)) (mul fy (rg_a11 g))) (rg_a12 g);
         fxx = sub (rg_fx g) txx;
         fyy = sub (rg_fy g) tyy;
         A = add (mul fxx fxx) (mul fyy fyy);
         cfx = sub (rg_cx g) (rg_fx g);
         cfy = sub (rg_cy g) (rg_fy g);
         cfxcfx = mul cfx cfx;
         cfycfy = mul cfy cfy;
         cfxcfy = mul cfx cfy;
         B = add (mul cfx fxx) (mul cfy fyy);
         B2 = mul (f_neg F B) two;
         C = sub (add cfxcfx cfycfy) (rg_rsq g);
         C2 = mul two C;
         rC = f_div F (f_of_int F 1) C;
         rCsq = mul rC rC;
         U = mul (f_neg F B) rC;
         dU = mul (add (mul (rg_a00 g) cfx) (mul (rg_a10 g) cfy)) rC;
         V = mul (sub (mul B B) (mul A C)) rCsq;
         sube = mul (mul two (rg_a00a10 g)) cfxcfy;
         dV = mul (add (add sube
                (add (mul (rg_a00a00 g) (sub cfxcfx C)) (mul (rg_a00 g) (add (mul B2 cfx) (mul C2 fxx)))))
                (add (mul (rg_a10a10 g) (sub cfycfy C)) (mul (rg_a10 g) (add (mul B2 cfy) (mul C2 fyy))))) rCsq;
         tmp = add (sub (mul (rg_a00a00 g) cfycfy) sube) (mul (rg_a10a10 g) cfxcfx);
         ddV = mul (mul two (sub (mul (add (rg_a00a00 g) (rg_a10a10 g)) (rg_rsq g)) tmp)) rCsq
     in (mul one16 U, mul (mul one16 one16) V, mul (mul one16 one16) dV,
         mul one16 dU, mul (mul one16 one16) ddV))"

definition radial_step ::
  "'f flops \<Rightarrow> 'f gradient \<Rightarrow> 'f \<times> 'f \<times> 'f \<times> 'f \<times> 'f \<Rightarrow> (('f \<times> 'f \<times> 'f \<times> 'f \<times> 'f) \<times> pixel) option" where
  "radial_step F g = (\<lambda>(U, V, dV, dU, ddV).
    (let V' = (if f_less F V (f_of_int F 0) then f_of_int F 0 else V);
         ifrac = to_jint F (f_add F U (f_sqrt F V'))
     in do {
       c \<leftarrow> gradient_colour g ifrac;
       Some ((f_add F U dU, f_add F V' dV, f_add F dV ddV, dU, ddV), c) }))"

definition genRadialGradientPaint :: "'f flops \<Rightarrow> 'f renderer \<Rightarrow> jint \<Rightarrow> 'f renderer option" where
  "genRadialGradientPaint F rdr height =
    (let g = r_gr rdr
     in do {
       paint \<leftarrow> gen_rows height (r_alphaWidth rdr)
         (\<lambda>y. Some (radial_start F g (r_currX rdr) (i32 y), y + 1))
         (radial_step F g) (r_currY rdr) (r_paint rdr);
       Some (rdr\<lparr>r_paint := paint\<rparr>)
     })"

text \<open>A gradient indexes its 256 colours whatever its arithmetic computes.\<close>

definition gradient_ok :: "'f gradient \<Rightarrow> bool" where
  "gradient_ok g \<longleftrightarrow> length (g_colors g) = 256 \<and>
     g_cycleMethod g \<in> {CYCLE_NONE, CYCLE_REPEAT, CYCLE_REFLECT}"

lemma gradient_colour_ok:
  assumes "gradient_ok g"
  shows "\<exists>c. gradient_colour g x = Some c \<and> c \<in> set (g_colors g)"
proof -
  have p: "0 \<le> pad x (g_cycleMethod g)" "pad x (g_cycleMethod g) < 65536"
    using pad_range [of "g_cycleMethod g" x] assms by (simp_all add: gradient_ok_def)
  then have s: "sar 8 (pad x (g_cycleMethod g)) = pad x (g_cycleMethod g) div 256" by (simp add: sar_id)
  have "pad x (g_cycleMethod g) div 256 \<le> 65535 div 256" using p by (intro zdiv_mono1) simp_all
  with p assms show ?thesis
    by (simp add: gradient_colour_def s gradient_ok_def rd_in pos_imp_zdiv_nonneg_iff)
qed

lemma genLinear_total:
  assumes "gradient_ok (r_gr rdr)" "0 \<le> r_alphaWidth rdr" "paint_fit rdr height"
  shows "\<exists>paint. genLinearGradientPaint F rdr height = Some (rdr\<lparr>r_paint := paint\<rparr>) \<and>
    length paint = length (r_paint rdr) \<and>
    block_ok (r_alphaWidth rdr) (height * r_alphaWidth rdr) (\<lambda>j i c. c \<in> set (g_colors (r_gr rdr))) paint"
proof -
  let ?g = "r_gr rdr"
  have "\<exists>paint. gen_rows height (r_alphaWidth rdr)
         (\<lambda>y. Some (f_add F (f_add F (f_mul F (f_of_int F (r_currX rdr)) (lg_mx ?g)) (f_mul F (f_of_int F (i32 y)) (lg_my ?g))) (lg_b ?g), y + 1))
         (\<lambda>fr. do { c \<leftarrow> gradient_colour ?g (to_jint F fr); Some (f_add F fr (lg_mx ?g), c) })
         (r_currY rdr) (r_paint rdr) = Some paint \<and> length paint = length (r_paint rdr) \<and>
    block_ok (r_alphaWidth rdr) (height * r_alphaWidth rdr) (\<lambda>j i c. c \<in> set (g_colors ?g)) paint"
  proof (rule gen_rows_total [where R = "\<lambda>j r. True" and I = "\<lambda>j i s. True"])
    fix fr
    obtain c where "gradient_colour ?g (to_jint F fr) = Some c" "c \<in> set (g_colors ?g)"
      using gradient_colour_ok [OF assms(1)] by blast
    then show "\<exists>s' c. do { c \<leftarrow> gradient_colour ?g (to_jint F fr); Some (f_add F fr (lg_mx ?g), c) } = Some (s', c) \<and>
        True \<and> c \<in> set (g_colors ?g)" by simp
  qed (use assms in \<open>simp_all add: paint_fit_def\<close>)
  then show ?thesis by (auto simp: genLinearGradientPaint_def Let_def)
qed

lemma genRadial_total:
  assumes "gradient_ok (r_gr rdr)" "0 \<le> r_alphaWidth rdr" "paint_fit rdr height"
  shows "\<exists>paint. genRadialGradientPaint F rdr height = Some (rdr\<lparr>r_paint := paint\<rparr>) \<and>
    length paint = length (r_paint rdr) \<and>
    block_ok (r_alphaWidth rdr) (height * r_alphaWidth rdr) (\<lambda>j i c. c \<in> set (g_colors (r_gr rdr))) paint"
proof -
  let ?g = "r_gr rdr"
  have "\<exists>paint. gen_rows height (r_alphaWidth rdr)
         (\<lambda>y. Some (radial_start F ?g (r_currX rdr) (i32 y), y + 1))
         (radial_step F ?g) (r_currY rdr) (r_paint rdr) = Some paint \<and> length paint = length (r_paint rdr) \<and>
    block_ok (r_alphaWidth rdr) (height * r_alphaWidth rdr) (\<lambda>j i c. c \<in> set (g_colors ?g)) paint"
  proof (rule gen_rows_total [where R = "\<lambda>j r. True" and I = "\<lambda>j i s. True"])
    fix s :: "'a \<times> 'a \<times> 'a \<times> 'a \<times> 'a"
    obtain U V dV dU ddV where [simp]: "s = (U, V, dV, dU, ddV)" by (cases s)
    obtain c where "gradient_colour ?g (to_jint F (f_add F U (f_sqrt F (if f_less F V (f_of_int F 0) then f_of_int F 0 else V)))) = Some c"
      "c \<in> set (g_colors ?g)"
      using gradient_colour_ok [OF assms(1)] by blast
    then show "\<exists>s' c. radial_step F ?g s = Some (s', c) \<and> True \<and> c \<in> set (g_colors ?g)"
      by (simp add: radial_step_def Let_def)
  next
    fix y
    show "\<exists>s r'. Some (radial_start F ?g (r_currX rdr) (i32 y), y + 1) = Some (s, r') \<and> True \<and> True"
      by blast
  qed (use assms in \<open>simp_all add: paint_fit_def\<close>)
  then show ?thesis by (auto simp: genRadialGradientPaint_def Let_def)
qed

end
