(* ===== verification/Texture_Paint.thy ===== *)
theory Texture_Paint
  imports Paint
begin

text \<open>
  The texture paint (\<^verbatim>\<open>genTexturePaintTarget\<close>, \<^verbatim>\<open>genTexturePaint\<close> and \<^verbatim>\<open>genTexturePaintMultiply\<close> of
  \<^verbatim>\<open>PiscesPaint.c\<close>). The source has one loop for each of three kinds of transform and six
  combinations of repetition and filtering; here each pair of loops that differ in repetition
  only is one step function with a flag.
\<close>

unbundle bit_operations_syntax

section \<open>Bounds and neighbours\<close>

definition isInBoundsNoRepeat :: "jint \<Rightarrow> jint \<Rightarrow> jint \<Rightarrow> bool" where
  "isInBoundsNoRepeat aval mn mx = (if aval < mn \<or> mx < aval then False else True)"

definition checkBoundsRepeat :: "jint \<Rightarrow> jlong \<Rightarrow> jint \<Rightarrow> jint \<Rightarrow> (jint \<times> jlong) option" where
  "checkBoundsRepeat aval la mn mx =
    (if aval < mn \<or> mx < aval then
       (if 0 \<le> mx then do {
          la' \<leftarrow> lmod la (i32 ((mx + 1) * 65536));
          Some (i32 (sar64 16 la'), la') }
        else Some (0, 0))
     else Some (aval, la))"

definition checkBoundsNoRepeat :: "jint \<Rightarrow> jlong \<Rightarrow> jint \<Rightarrow> jint \<Rightarrow> jint \<times> jlong" where
  "checkBoundsNoRepeat aval la mn mx = (if aval < mn then mn else if mx < aval then mx else aval, la)"

definition check_bounds :: "bool \<Rightarrow> jint \<Rightarrow> jlong \<Rightarrow> jint \<Rightarrow> jint \<Rightarrow> (jint \<times> jlong) option" where
  "check_bounds rep a la mn mx =
     (if rep then checkBoundsRepeat a la mn mx else Some (checkBoundsNoRepeat a la mn mx))"

text \<open>The three neighbours of \<open>p00\<close>: right, below, below right.\<close>

definition getPointsToInterpolate ::
  "pixel list \<Rightarrow> jint \<Rightarrow> jint \<Rightarrow> pixel \<Rightarrow> jint \<Rightarrow> jint \<Rightarrow> jint \<Rightarrow> jint \<Rightarrow> (pixel \<times> pixel \<times> pixel) option" where
  "getPointsToInterpolate dat sidx stride p00 tx txMax ty tyMax = do {
     let sidx2 = (if tyMax \<le> ty then sidx else i32 (sidx + stride));
     let isXin = (tx < txMax);
     p0 \<leftarrow> (if isXin then rd dat (sidx + 1) else Some p00);
     p1 \<leftarrow> rd dat sidx2;
     p2 \<leftarrow> (if isXin then rd dat (sidx2 + 1) else rd dat sidx2);
     Some (p0, p1, p2)
   }"

definition getPointsToInterpolateRepeat ::
  "pixel list \<Rightarrow> jint \<Rightarrow> jint \<Rightarrow> pixel \<Rightarrow> jint \<Rightarrow> jint \<Rightarrow> jint \<Rightarrow> jint \<Rightarrow> (pixel \<times> pixel \<times> pixel) option" where
  "getPointsToInterpolateRepeat dat sidx stride p00 tx txMax ty tyMax = do {
     let sidx2 = (if tyMax \<le> ty then max tx 0 else i32 (sidx + stride));
     let isXin = (tx < txMax);
     p0 \<leftarrow> (if isXin then rd dat (sidx + 1) else rd dat (sidx - max tx 0));
     p1 \<leftarrow> rd dat sidx2;
     p2 \<leftarrow> (if isXin then rd dat (sidx2 + 1) else rd dat (sidx2 - max tx 0));
     Some (p0, p1, p2)
   }"

section \<open>Fetching a texel\<close>

definition fetch_plain :: "texture \<Rightarrow> jint \<Rightarrow> jint \<Rightarrow> pixel option" where
  "fetch_plain T tx ty = rd (t_intData T) (i32 (max 0 ty * t_stride T + max 0 tx))"

definition fetch_points :: "bool \<Rightarrow> texture \<Rightarrow> jint \<Rightarrow> jint \<Rightarrow> (pixel \<times> pixel \<times> pixel \<times> pixel) option" where
  "fetch_points rep T tx ty = do {
     let sidx = i32 (max 0 ty * t_stride T + max 0 tx);
     p00 \<leftarrow> rd (t_intData T) sidx;
     (p0, p1, p2) \<leftarrow> (if rep then getPointsToInterpolateRepeat else getPointsToInterpolate)
        (t_intData T) sidx (t_stride T) p00 tx (t_imageWidth T - 1) ty (t_imageHeight T - 1);
     Some (p00, p0, p1, p2)
   }"

definition fetch_alpha :: "bool \<Rightarrow> texture \<Rightarrow> jint \<Rightarrow> jint \<Rightarrow> jint \<Rightarrow> jint \<Rightarrow> pixel option" where
  "fetch_alpha rep T tx ty hfrac vfrac = do {
     (p00, p0, p1, p2) \<leftarrow> fetch_points rep T tx ty;
     Some (if hfrac \<noteq> 0 \<and> vfrac \<noteq> 0 then interpolate4points p00 p0 p1 p2 hfrac vfrac
           else if hfrac \<noteq> 0 then interpolate2points p00 p0 hfrac
           else if vfrac \<noteq> 0 then interpolate2points p00 p1 vfrac
           else p00)
   }"

definition fetch_noalpha :: "bool \<Rightarrow> texture \<Rightarrow> jint \<Rightarrow> jint \<Rightarrow> jint \<Rightarrow> jint \<Rightarrow> pixel option" where
  "fetch_noalpha rep T tx ty hfrac vfrac = do {
     (p00, p0, p1, p2) \<leftarrow> fetch_points rep T tx ty;
     Some (if hfrac \<noteq> 0 \<and> vfrac \<noteq> 0 then interpolate4pointsNoAlpha p00 p0 p1 p2 hfrac vfrac
           else if hfrac \<noteq> 0 then interpolate2pointsNoAlpha p00 p0 hfrac
           else if vfrac \<noteq> 0 then interpolate2pointsNoAlpha p00 p1 vfrac
           else p00)
   }"

definition int_part :: "jlong \<Rightarrow> jint" where "int_part l = i32 (sar64 16 l)"
definition frac_part :: "jlong \<Rightarrow> jint" where "frac_part l = l mod 0x10000"

section \<open>Identity\<close>

definition memcpy_from :: "pixel list \<Rightarrow> jint \<Rightarrow> pixel list \<Rightarrow> jint \<Rightarrow> jint \<Rightarrow> pixel list option" where
  "memcpy_from dst di src si n =
    (if n = 0 then Some dst
     else if 0 < n \<and> 0 \<le> di \<and> di + n \<le> int (length dst) \<and> 0 \<le> si \<and> si + n \<le> int (length src)
     then Some (take (nat di) dst @ take (nat n) (drop (nat si) src) @ drop (nat (di + n)) dst)
     else None)"

definition identity_repeat :: "'f renderer \<Rightarrow> pixel list \<Rightarrow> jint \<Rightarrow> pixel list option" where
  "identity_repeat rdr paint height =
    (let T = r_tx rdr
     in if t_imageWidth T = 0 \<or> t_imageHeight T = 0 then None
        else
          (let txtOffsetRepeat = crem (r_currX rdr) (t_imageWidth T);
               txtRowNumRepeat = crem (r_currY rdr) (t_imageHeight T)
           in gen_rows height (r_alphaWidth rdr)
                (\<lambda>row. let tStart = i32 (t_stride T * row)
                       in Some ((tStart, tStart + txtOffsetRepeat),
                                if row + 1 = t_imageHeight T then 0 else row + 1))
                (\<lambda>(tStart, t). do {
                   c \<leftarrow> rd (t_intData T) t;
                   Some ((tStart, if t + 1 = tStart + t_imageWidth T then tStart else t + 1), c) })
                txtRowNumRepeat paint))"

definition identity_clip :: "'f renderer \<Rightarrow> pixel list \<Rightarrow> jint \<Rightarrow> pixel list option" where
  "identity_clip rdr paint height =
    (let T = r_tx rdr;
         minX = max (r_rectX rdr) (r_clip_bbMinX rdr);
         minY = max (r_rectY rdr) (r_clip_bbMinY rdr);
         clipOffset = i32 ((minY - r_rectY rdr) * t_stride T + minX - r_rectX rdr)
     in cfor height (\<lambda>j paint. memcpy_from paint (i32 (r_alphaWidth rdr * j)) (t_intData T)
          (clipOffset + i32 (t_stride T * (r_rowNum rdr + j))) (r_alphaWidth rdr)) paint)"

section \<open>Translation\<close>

definition translate_start :: "texture \<Rightarrow> jint \<Rightarrow> jint \<Rightarrow> (jint \<times> jint \<times> jint \<times> jlong) option" where
  "translate_start T x y = do {
     let ltx = i32 (x * 65536) + t_m02 T;
     let lty = i32 (y * 65536) + t_m12 T;
     (ty, lty') \<leftarrow> check_bounds (t_repeat T) (int_part lty) lty (t_tyMin T - 1) (t_tyMax T);
     Some (ty, frac_part ltx, frac_part lty, ltx)
   }"

definition translate_plain ::
  "texture \<Rightarrow> jint \<times> jint \<times> jint \<times> jlong \<Rightarrow> ((jint \<times> jint \<times> jint \<times> jlong) \<times> pixel) option" where
  "translate_plain T = (\<lambda>(ty, hfrac, vfrac, ltx). do {
     (tx, ltx') \<leftarrow> check_bounds (t_repeat T) (int_part ltx) ltx (t_txMin T - 1) (t_txMax T);
     c \<leftarrow> fetch_plain T tx ty;
     Some ((ty, hfrac, vfrac, ltx' + 0x10000), c) })"

definition translate_alpha ::
  "texture \<Rightarrow> jint \<times> jint \<times> jint \<times> jlong \<Rightarrow> ((jint \<times> jint \<times> jint \<times> jlong) \<times> pixel) option" where
  "translate_alpha T = (\<lambda>(ty, hfrac, vfrac, ltx). do {
     (tx, ltx') \<leftarrow> check_bounds (t_repeat T) (int_part ltx) ltx (t_txMin T - 1) (t_txMax T);
     c \<leftarrow> fetch_alpha (t_repeat T) T tx ty hfrac vfrac;
     Some ((ty, hfrac, vfrac, ltx' + 0x10000), c) })"

definition translate_noalpha ::
  "texture \<Rightarrow> jint \<times> jint \<times> jint \<times> jlong \<Rightarrow> ((jint \<times> jint \<times> jint \<times> jlong) \<times> pixel) option" where
  "translate_noalpha T = (\<lambda>(ty, hfrac, vfrac, ltx). do {
     (tx, ltx') \<leftarrow> check_bounds (t_repeat T) (int_part ltx) ltx (t_txMin T - 1) (t_txMax T);
     c \<leftarrow> fetch_noalpha (t_repeat T) T tx ty hfrac vfrac;
     Some ((ty, hfrac, vfrac, ltx' + 0x10000), c) })"

section \<open>Scaling and translation\<close>

definition matrix_start :: "texture \<Rightarrow> jint \<Rightarrow> jint \<Rightarrow> jlong \<times> jlong" where
  "matrix_start T x y =
     (x * t_m00 T + y * t_m01 T + t_m02 T, x * t_m10 T + y * t_m11 T + t_m12 T)"

definition scale_plain :: "texture \<Rightarrow> jlong \<times> jlong \<Rightarrow> ((jlong \<times> jlong) \<times> pixel) option" where
  "scale_plain T = (\<lambda>(ltx, lty). do {
     (tx, ltx') \<leftarrow> check_bounds (t_repeat T) (int_part ltx) ltx (t_txMin T - 1) (t_txMax T);
     (ty, lty') \<leftarrow> check_bounds (t_repeat T) (int_part lty) lty (t_tyMin T - 1) (t_tyMax T);
     c \<leftarrow> fetch_plain T tx ty;
     Some ((ltx' + t_m00 T, lty' + t_m10 T), c) })"

definition scale_alpha :: "texture \<Rightarrow> jlong \<times> jlong \<Rightarrow> ((jlong \<times> jlong) \<times> pixel) option" where
  "scale_alpha T = (\<lambda>(ltx, lty). do {
     (tx, ltx') \<leftarrow> check_bounds (t_repeat T) (int_part ltx) ltx (t_txMin T - 1) (t_txMax T);
     (ty, lty') \<leftarrow> check_bounds (t_repeat T) (int_part lty) lty (t_tyMin T - 1) (t_tyMax T);
     c \<leftarrow> fetch_alpha (t_repeat T) T tx ty (frac_part ltx) (frac_part lty);
     Some ((ltx' + t_m00 T, lty' + t_m10 T), c) })"

definition scale_noalpha :: "texture \<Rightarrow> jlong \<times> jlong \<Rightarrow> ((jlong \<times> jlong) \<times> pixel) option" where
  "scale_noalpha T = (\<lambda>(ltx, lty). do {
     (tx, ltx') \<leftarrow> check_bounds (t_repeat T) (int_part ltx) ltx (t_txMin T - 1) (t_txMax T);
     (ty, lty') \<leftarrow> check_bounds (t_repeat T) (int_part lty) lty (t_tyMin T - 1) (t_tyMax T);
     c \<leftarrow> fetch_noalpha (t_repeat T) T tx ty (frac_part ltx) (frac_part lty);
     Some ((ltx' + t_m00 T, lty' + t_m10 T), c) })"

section \<open>The generic transform\<close>

text \<open>Outside of the texture the unrepeated loops write transparent black.\<close>

definition both_in_bounds :: "texture \<Rightarrow> jint \<Rightarrow> jint \<Rightarrow> bool" where
  "both_in_bounds T tx ty \<longleftrightarrow> isInBoundsNoRepeat tx (t_txMin T - 1) (t_txMax T) \<and>
     isInBoundsNoRepeat ty (t_tyMin T - 1) (t_tyMax T)"

definition generic_plain :: "texture \<Rightarrow> jlong \<times> jlong \<Rightarrow> ((jlong \<times> jlong) \<times> pixel) option" where
  "generic_plain T = (\<lambda>(ltx, lty).
     if t_repeat T then scale_plain T (ltx, lty)
     else do {
       c \<leftarrow> (if both_in_bounds T (int_part ltx) (int_part lty)
             then fetch_plain T (int_part ltx) (int_part lty) else Some 0);
       Some ((ltx + t_m00 T, lty + t_m10 T), c) })"

definition generic_alpha :: "texture \<Rightarrow> jlong \<times> jlong \<Rightarrow> ((jlong \<times> jlong) \<times> pixel) option" where
  "generic_alpha T = (\<lambda>(ltx, lty).
     if t_repeat T then scale_alpha T (ltx, lty)
     else do {
       c \<leftarrow> (if both_in_bounds T (int_part ltx) (int_part lty)
             then fetch_alpha False T (int_part ltx) (int_part lty) (frac_part ltx) (frac_part lty)
             else Some 0);
       Some ((ltx + t_m00 T, lty + t_m10 T), c) })"

definition generic_noalpha :: "texture \<Rightarrow> jlong \<times> jlong \<Rightarrow> ((jlong \<times> jlong) \<times> pixel) option" where
  "generic_noalpha T = (\<lambda>(ltx, lty).
     if t_repeat T then scale_noalpha T (ltx, lty)
     else do {
       c \<leftarrow> (if both_in_bounds T (int_part ltx) (int_part lty)
             then fetch_noalpha False T (int_part ltx) (int_part lty) (frac_part ltx) (frac_part lty)
             else Some 0);
       Some ((ltx + t_m00 T, lty + t_m10 T), c) })"

section \<open>The generators\<close>

text \<open>The filter of \<^verbatim>\<open>repeatInterpolateMode\<close>.\<close>

definition by_filter :: "texture \<Rightarrow> 'a \<Rightarrow> 'a \<Rightarrow> 'a \<Rightarrow> 'a" where
  "by_filter T plain alpha noalpha =
     (if t_interpolate T then (if t_hasAlpha T then alpha else noalpha) else plain)"

definition genTexturePaintTarget :: "'f renderer \<Rightarrow> pixel list \<Rightarrow> jint \<Rightarrow> pixel list option" where
  "genTexturePaintTarget rdr paint height =
    (let T = r_tx rdr; w = r_alphaWidth rdr
     in if t_transformType T = TEXTURE_TRANSFORM_IDENTITY then
          (if t_repeat T then identity_repeat rdr paint height else identity_clip rdr paint height)
        else if t_transformType T = TEXTURE_TRANSFORM_TRANSLATE then
          gen_rows height w (\<lambda>y. do { s \<leftarrow> translate_start T (r_currX rdr) (i32 y); Some (s, y + 1) })
            (by_filter T (translate_plain T) (translate_alpha T) (translate_noalpha T)) (r_currY rdr) paint
        else if t_transformType T = TEXTURE_TRANSFORM_SCALE_TRANSLATE then
          gen_rows height w (\<lambda>y. Some (matrix_start T (r_currX rdr) (i32 y), y + 1))
            (by_filter T (scale_plain T) (scale_alpha T) (scale_noalpha T)) (r_currY rdr) paint
        else if t_transformType T = TEXTURE_TRANSFORM_GENERIC then
          gen_rows height w (\<lambda>y. Some (matrix_start T (r_currX rdr) (i32 y), y + 1))
            (by_filter T (generic_plain T) (generic_alpha T) (generic_noalpha T)) (r_currY rdr) paint
        else Some paint)"

definition genTexturePaint :: "'f renderer \<Rightarrow> jint \<Rightarrow> 'f renderer option" where
  "genTexturePaint rdr height = do {
     paint \<leftarrow> genTexturePaintTarget rdr (r_paint rdr) height;
     Some (rdr\<lparr>r_paint := paint\<rparr>)
   }"

text \<open>The three products of \<^verbatim>\<open>genTexturePaintMultiply\<close>.\<close>

definition mul_alpha :: "jint \<Rightarrow> pixel \<Rightarrow> pixel" where
  "mul_alpha palpha_1 tval =
     pack (sar 8 (palpha_1 * chA tval)) (sar 8 (palpha_1 * chR tval))
          (sar 8 (palpha_1 * chG tval)) (sar 8 (palpha_1 * chB tval))"

definition mul_colour :: "jint \<Rightarrow> jint \<Rightarrow> jint \<Rightarrow> jint \<Rightarrow> pixel \<Rightarrow> pixel" where
  "mul_colour palpha_1 cred cgreen cblue tval =
     pack (sar 8 (palpha_1 * chA tval)) (sar 8 (sar 8 ((cred + 1) * chR tval) * palpha_1))
          (sar 8 (sar 8 ((cgreen + 1) * chG tval) * palpha_1))
          (sar 8 (sar 8 ((cblue + 1) * chB tval) * palpha_1))"

definition mul_loop ::
  "jint \<Rightarrow> jint \<Rightarrow> jint \<Rightarrow> (jint \<Rightarrow> pixel \<Rightarrow> pixel option) \<Rightarrow> pixel list \<Rightarrow> pixel list option" where
  "mul_loop height paintStride w f paint =
     cfor height (\<lambda>i paint. cfor w (\<lambda>j paint. updo paint (i * paintStride + j) (f (i * paintStride + j))) paint) paint"

definition genTexturePaintMultiply :: "'f flops \<Rightarrow> 'f renderer \<Rightarrow> jint \<Rightarrow> 'f renderer option" where
  "genTexturePaintMultiply F rdr height =
    (let w = i32 (r_maxTouched rdr - r_minTouched rdr + 1);
         paintStride = r_alphaWidth rdr;
         calpha = r_calpha rdr; cred = r_cred rdr; cgreen = r_cgreen rdr; cblue = r_cblue rdr
     in if r_prevPaintMode rdr = PAINT_FLAT_COLOR then do {
          paint \<leftarrow> genTexturePaintTarget rdr (r_paint rdr) height;
          let palpha_1 = calpha + 1;
          paint' \<leftarrow> (if cred = 0xFF \<and> cgreen = 0xFF \<and> cblue = 0xFF then
                      (if calpha < 0xFF then mul_loop height paintStride w (\<lambda>k p. Some (mul_alpha palpha_1 p)) paint
                       else Some paint)
                    else mul_loop height paintStride w (\<lambda>k p. Some (mul_colour palpha_1 cred cgreen cblue p)) paint);
          Some (rdr\<lparr>r_paint := paint'\<rparr>) }
        else if r_prevPaintMode rdr = PAINT_LINEAR_GRADIENT \<or> r_prevPaintMode rdr = PAINT_RADIAL_GRADIENT then do {
          rdr1 \<leftarrow> (if r_prevPaintMode rdr = PAINT_LINEAR_GRADIENT
                    then genLinearGradientPaint F rdr height else genRadialGradientPaint F rdr height);
          imagePaint \<leftarrow> genTexturePaintTarget rdr1 (replicate (nat (i32 (w * height))) 0) height;
          paint' \<leftarrow> mul_loop height paintStride w (\<lambda>k pval. do {
                      tval \<leftarrow> rd imagePaint k;
                      Some (mul_colour (chA pval + 1) (chR pval) (chG pval) (chB pval) tval) }) (r_paint rdr1);
          Some (rdr1\<lparr>r_paint := paint'\<rparr>) }
        else Some rdr)"

definition call_genPaint :: "'f flops \<Rightarrow> paint_fn \<Rightarrow> 'f renderer \<Rightarrow> jint \<Rightarrow> 'f renderer option" where
  "call_genPaint F fn rdr height =
    (case fn of Gen_LinearGradient \<Rightarrow> genLinearGradientPaint F rdr height
     | Gen_RadialGradient \<Rightarrow> genRadialGradientPaint F rdr height
     | Gen_Texture \<Rightarrow> genTexturePaint rdr height
     | Gen_TextureMultiply \<Rightarrow> genTexturePaintMultiply F rdr height)"

section \<open>Bounds\<close>

lemma frac16_part [simp]: "frac16 (frac_part l)"
  by (simp add: frac16_def frac_part_def)

lemma lmod_range:
  assumes "0 < y"
  shows "\<exists>r. lmod x y = Some r \<and> 0 \<le> r \<and> r < y \<and> r mod y = i64 x mod y"
proof -
  have m: "0 \<le> (- i64 x) mod y" "(- i64 x) mod y < y" "0 \<le> i64 x mod y" "i64 x mod y < y"
    using assms by simp_all
  show ?thesis
  proof (cases "i64 x < 0")
    case False
    with assms m show ?thesis by (simp add: lmod_def crem_def)
  next
    case True
    define n where "n = (- i64 x) mod y"
    have e: "(- n) mod y = i64 x mod y" unfolding n_def by (simp add: mod_minus_eq)
    have n0: "0 \<le> n" unfolding n_def by (rule m(1))
    have "crem (i64 x) y = - n" using True assms by (simp add: crem_def n_def)
    then have "lmod x y = Some (if 0 < n then y - n else 0)"
      using assms n0 by (auto simp: lmod_def Let_def)
    moreover have "(y - n) mod y = i64 x mod y"
      unfolding e [symmetric] by (metis add.commute mod_add_self1 uminus_add_conv_diff)
    moreover have "n = 0 \<Longrightarrow> i64 x mod y = 0" using e by simp
    ultimately show ?thesis
      using m(2) n0 assms by (cases "0 < n"; intro exI [of _ "if 0 < n then y - n else 0"]) (simp_all add: n_def [symmetric] del: mod_pos_pos_trivial)
  qed
qed

text \<open>Where \<^verbatim>\<open>checkBounds...\<close> leave a coordinate; \<open>mx\<close> below 32767 keeps \<^verbatim>\<open>(max+1) << 16\<close> positive.\<close>

lemma check_bounds_range:
  assumes "mn \<le> 0" "0 \<le> mx" "mx < 32767"
  shows "\<exists>a' la'. check_bounds rep a la mn mx = Some (a', la') \<and> mn \<le> a' \<and> a' \<le> mx"
proof -
  have y: "i32 ((mx + 1) * 65536) = (mx + 1) * 65536" using assms by (simp add: i32_id)
  obtain r where r: "lmod la ((mx + 1) * 65536) = Some r" "0 \<le> r" "r < (mx + 1) * 65536"
    using lmod_range [of "(mx + 1) * 65536" la] assms by auto
  have "(mx + 1) * 65536 \<le> 32767 * 65536" using assms by simp
  then have q: "i32 (sar64 16 r) = r div 65536" using r by (simp add: sar64_id i32_id)
  have "r div 65536 < mx + 1" using r(3) by (simp add: zdiv_less_mult mult.commute)
  moreover have "0 \<le> r div 65536" using r(2) by simp
  ultimately show ?thesis
    using assms r y q
    by (cases rep) (auto simp: check_bounds_def checkBoundsRepeat_def checkBoundsNoRepeat_def)
qed

text \<open>Repetition: inside the tile after one check, the fraction untouched, a second check idle.\<close>

lemma check_bounds_stable:
  assumes "mn \<le> 0" "0 \<le> mx" "mx < 32767" "check_bounds rep (int_part la) la mn mx = Some (a', la')"
  shows "check_bounds rep (int_part la') la' mn mx = Some (a', la')" "frac_part la' = frac_part la"
proof -
  show "check_bounds rep (int_part la') la' mn mx = Some (a', la')" "frac_part la' = frac_part la"
  proof (atomize (full), cases "rep \<and> (int_part la < mn \<or> mx < int_part la)")
    case False
    with assms(4) show "check_bounds rep (int_part la') la' mn mx = Some (a', la') \<and> frac_part la' = frac_part la"
      by (auto simp: check_bounds_def checkBoundsRepeat_def checkBoundsNoRepeat_def split: if_splits)
  next
    case True
    have y: "i32 ((mx + 1) * 65536) = (mx + 1) * 65536" using assms by (simp add: i32_id)
    obtain r where r: "lmod la ((mx + 1) * 65536) = Some r" "0 \<le> r" "r < (mx + 1) * 65536"
      and m: "r mod ((mx + 1) * 65536) = i64 la mod ((mx + 1) * 65536)"
      using lmod_range [of "(mx + 1) * 65536" la] assms by auto
    have "(mx + 1) * 65536 \<le> 32767 * 65536" using assms by simp
    then have q: "int_part r = r div 65536" using r by (simp add: int_part_def sar64_id i32_id)
    have e: "a' = r div 65536" "la' = r"
      using True assms r(1) y q by (auto simp: check_bounds_def checkBoundsRepeat_def int_part_def)
    have b: "r div 65536 < mx + 1" "0 \<le> r div 65536"
      using r(2,3) by (simp_all add: zdiv_less_mult mult.commute)
    have "r mod 65536 = i64 la mod 65536"
      using arg_cong [OF m, of "\<lambda>z. z mod 65536"] by (simp add: mod_mod_cancel)
    also have "\<dots> = la mod 65536"
      using arg_cong [OF i64_mod [of la], of "\<lambda>z. z mod 65536"] by (simp add: mod_mod_cancel)
    finally have "frac_part r = frac_part la" by (simp add: frac_part_def)
    with b e q assms True show "check_bounds rep (int_part la') la' mn mx = Some (a', la') \<and> frac_part la' = frac_part la"
      by (auto simp: check_bounds_def checkBoundsRepeat_def)
  qed
qed

section \<open>Memory safety\<close>

text \<open>
  A texture whose data covers it. The filters need two pixels in each direction: at the coordinate -1 they
  fetch the texel right of column 0 and the one below row 0 without a look at the size.
\<close>

definition tex_fits :: "texture \<Rightarrow> bool" where
  "tex_fits T \<longleftrightarrow> 1 \<le> t_imageWidth T \<and> 1 \<le> t_imageHeight T \<and> t_imageWidth T \<le> t_stride T \<and>
     (t_imageHeight T - 1) * t_stride T + t_imageWidth T \<le> int (length (t_intData T)) \<and>
     length (t_intData T) < 2147483648 \<and>
     t_txMin T = 0 \<and> 0 \<le> t_txMax T \<and> t_txMax T < t_imageWidth T \<and> t_txMax T < 32767 \<and>
     t_tyMin T = 0 \<and> 0 \<le> t_tyMax T \<and> t_tyMax T < t_imageHeight T \<and> t_tyMax T < 32767"

definition tex_ok :: "texture \<Rightarrow> bool" where
  "tex_ok T \<longleftrightarrow> tex_fits T \<and> 2 \<le> t_imageWidth T \<and> 2 \<le> t_imageHeight T"

definition tex_drawable :: "texture \<Rightarrow> bool" where
  "tex_drawable T \<longleftrightarrow> tex_fits T \<and> (t_interpolate T \<longrightarrow> 2 \<le> t_imageWidth T \<and> 2 \<le> t_imageHeight T)"

lemma tex_ok_fits: "tex_ok T \<Longrightarrow> tex_fits T" and tex_ok_drawable: "tex_ok T \<Longrightarrow> tex_drawable T"
  and tex_drawable_fits: "tex_drawable T \<Longrightarrow> tex_fits T" and tex_drawable_ok: "tex_drawable T \<Longrightarrow> t_interpolate T \<Longrightarrow> tex_ok T"
  by (simp_all add: tex_ok_def tex_drawable_def)

lemma tex_cell:
  assumes "tex_fits T" "0 \<le> x" "x < t_imageWidth T" "0 \<le> y" "y < t_imageHeight T"
  shows "0 \<le> y * t_stride T + x" "y * t_stride T + x < int (length (t_intData T))"
    "y * t_stride T + x < 2147483648"
proof -
  have s: "0 \<le> t_stride T" using assms by (simp add: tex_fits_def)
  then show "0 \<le> y * t_stride T + x" using assms by simp
  have "y * t_stride T \<le> (t_imageHeight T - 1) * t_stride T" using assms s by (intro mult_right_mono) simp_all
  moreover have "(t_imageHeight T - 1) * t_stride T + t_imageWidth T \<le> int (length (t_intData T))"
    "length (t_intData T) < 2147483648" using assms by (simp_all add: tex_fits_def)
  ultimately show "y * t_stride T + x < int (length (t_intData T))" "y * t_stride T + x < 2147483648"
    using assms(3) by linarith+
qed

lemma tex_rd:
  assumes "tex_fits T" "0 \<le> x" "x < t_imageWidth T" "0 \<le> y" "y < t_imageHeight T"
  shows "\<exists>c \<in> set (t_intData T). rd (t_intData T) (y * t_stride T + x) = Some c"
  using tex_cell [OF assms] by (simp add: rd_in)

definition tex_coord :: "texture \<Rightarrow> jint \<Rightarrow> jint \<Rightarrow> bool" where
  "tex_coord T tx ty \<longleftrightarrow> - 1 \<le> tx \<and> tx < t_imageWidth T \<and> - 1 \<le> ty \<and> ty < t_imageHeight T"

lemma fetch_plain_ok:
  assumes "tex_fits T" "tex_coord T tx ty"
  shows "\<exists>c \<in> set (t_intData T). fetch_plain T tx ty = Some c"
proof -
  have b: "0 \<le> max 0 tx" "max 0 tx < t_imageWidth T" "0 \<le> max 0 ty" "max 0 ty < t_imageHeight T"
    using assms by (auto simp: tex_coord_def tex_fits_def)
  have "i32 (max 0 ty * t_stride T + max 0 tx) = max 0 ty * t_stride T + max 0 tx"
    using tex_cell [OF assms(1) b] by (simp add: i32_id)
  with tex_rd [OF assms(1) b] show ?thesis by (simp add: fetch_plain_def)
qed

lemma fetch_points_ok:
  assumes ok: "tex_ok T" and c: "tex_coord T tx ty"
  shows "\<exists>p00 p0 p1 p2. fetch_points rep T tx ty = Some (p00, p0, p1, p2) \<and>
    {p00, p0, p1, p2} \<subseteq> set (t_intData T)"
proof -
  let ?d = "t_intData T" and ?x = "max 0 tx" and ?y = "max 0 ty" and ?s = "t_stride T"
  let ?W = "t_imageWidth T" and ?H = "t_imageHeight T"
  have b: "0 \<le> ?x" "?x < ?W" "0 \<le> ?y" "?y < ?H" and two: "2 \<le> ?W" "2 \<le> ?H"
    using ok c by (auto simp: tex_coord_def tex_ok_def tex_fits_def)
  have idx: "i32 (?y * ?s + ?x) = ?y * ?s + ?x" using tex_cell [OF tex_ok_fits [OF ok] b] by (simp add: i32_id)
  define y2 where "y2 = (if ?H - 1 \<le> ty then (if rep then 0 else ?y) else ?y + 1)"
  define x2 where "x2 = (if tx < ?W - 1 then ?x + 1 else if rep then 0 else ?x)"
  have b2: "0 \<le> x2" "x2 < ?W" "0 \<le> y2" "y2 < ?H" using b two by (auto simp: x2_def y2_def)
  have s2: "i32 (?y * ?s + ?x + ?s) = (?y + 1) * ?s + ?x" if "\<not> ?H - 1 \<le> ty"
  proof -
    have "0 \<le> ?y + 1" "?y + 1 < ?H" using that two by auto
    from tex_cell [OF tex_ok_fits [OF ok] b(1,2) this] show ?thesis by (simp add: i32_id algebra_simps)
  qed
  obtain q where d00: "rd ?d (?y * ?s + ?x) = Some q" and p00: "q \<in> set ?d" using tex_rd [OF tex_ok_fits [OF ok] b] by auto
  obtain q0 where q0: "rd ?d (?y * ?s + x2) = Some q0" "q0 \<in> set ?d" using tex_rd [OF tex_ok_fits [OF ok] b2(1,2) b(3,4)] by auto
  obtain q1 where q1: "rd ?d (y2 * ?s + ?x) = Some q1" "q1 \<in> set ?d" using tex_rd [OF tex_ok_fits [OF ok] b(1,2) b2(3,4)] by auto
  obtain q2 where q2: "rd ?d (y2 * ?s + x2) = Some q2" "q2 \<in> set ?d" using tex_rd [OF tex_ok_fits [OF ok] b2] by auto
  have "fetch_points rep T tx ty = Some (q, q0, q1, q2)"
  proof (cases rep)
    case True
    have e2: "(if ?H - 1 \<le> ty then max tx 0 else i32 (?y * ?s + ?x + ?s)) = y2 * ?s + ?x"
      using s2 True by (auto simp: y2_def max.commute)
    show ?thesis
      using q0(1) q1(1) q2(1) d00 True
      by (auto simp: fetch_points_def getPointsToInterpolateRepeat_def idx Let_def e2 x2_def max.commute add.assoc
          split: if_splits)
  next
    case False
    have e2: "(if ?H - 1 \<le> ty then ?y * ?s + ?x else i32 (?y * ?s + ?x + ?s)) = y2 * ?s + ?x"
      using s2 False by (auto simp: y2_def)
    show ?thesis
      using q0(1) q1(1) q2(1) d00 False
      by (auto simp: fetch_points_def getPointsToInterpolate_def idx Let_def e2 x2_def add.assoc split: if_splits)
  qed
  with p00 q0 q1 q2 show ?thesis by auto
qed

definition premult_tex :: "texture \<Rightarrow> bool" where
  "premult_tex T \<longleftrightarrow> (\<forall>c \<in> set (t_intData T). premult c)"

text \<open>The filtered texel, and that the four-way case distinction is bilinear interpolation.\<close>

lemma fetch_alpha_ok:
  assumes "tex_ok T" "tex_coord T tx ty" "frac16 h" "frac16 v"
  shows "\<exists>c. fetch_alpha rep T tx ty h v = Some c \<and> (premult_tex T \<longrightarrow> premult c)"
    and "fetch_alpha rep T tx ty h v =
      map_option (\<lambda>(p00, p0, p1, p2). interpolate4points p00 p0 p1 p2 h v) (fetch_points rep T tx ty)"
proof -
  obtain p00 p0 p1 p2 where p: "fetch_points rep T tx ty = Some (p00, p0, p1, p2)"
    "{p00, p0, p1, p2} \<subseteq> set (t_intData T)" using fetch_points_ok [OF assms(1,2)] by blast
  show e: "fetch_alpha rep T tx ty h v =
      map_option (\<lambda>(p00, p0, p1, p2). interpolate4points p00 p0 p1 p2 h v) (fetch_points rep T tx ty)"
    using p(1) interpolate4_cases [OF assms(3,4)] by (auto simp: fetch_alpha_def)
  show "\<exists>c. fetch_alpha rep T tx ty h v = Some c \<and> (premult_tex T \<longrightarrow> premult c)"
    using p assms(3,4) by (auto simp: e premult_tex_def intro!: interpolate4_premult)
qed

lemma fetch_noalpha_ok:
  assumes "tex_ok T" "tex_coord T tx ty" "frac16 h" "frac16 v"
  shows "\<exists>c. fetch_noalpha rep T tx ty h v = Some c \<and> (premult_tex T \<longrightarrow> premult c)"
proof -
  obtain p00 p0 p1 p2 where p: "fetch_points rep T tx ty = Some (p00, p0, p1, p2)"
    "{p00, p0, p1, p2} \<subseteq> set (t_intData T)" using fetch_points_ok [OF assms(1,2)] by blast
  then show ?thesis
    using assms(3,4) by (auto simp: fetch_noalpha_def premult_tex_def interpolateNoAlpha_premult)
qed

section \<open>The loops\<close>

lemma check_x:
  assumes "tex_fits T"
  shows "\<exists>tx la'. check_bounds rep a la (t_txMin T - 1) (t_txMax T) = Some (tx, la') \<and> - 1 \<le> tx \<and> tx < t_imageWidth T"
    and "\<exists>ty la'. check_bounds rep a la (t_tyMin T - 1) (t_tyMax T) = Some (ty, la') \<and> - 1 \<le> ty \<and> ty < t_imageHeight T"
  using check_bounds_range [of "t_txMin T - 1" "t_txMax T" rep a la]
    check_bounds_range [of "t_tyMin T - 1" "t_tyMax T" rep a la] assms
  by (force simp: tex_fits_def)+

lemma fetch_ok:
  assumes "tex_drawable T" "- 1 \<le> tx" "tx < t_imageWidth T" "- 1 \<le> ty" "ty < t_imageHeight T" "frac16 h" "frac16 v"
  shows "\<exists>c. fetch_plain T tx ty = Some c \<and> (premult_tex T \<longrightarrow> premult c)"
    and "t_interpolate T \<Longrightarrow> \<exists>c. fetch_alpha rep T tx ty h v = Some c \<and> (premult_tex T \<longrightarrow> premult c)"
    and "t_interpolate T \<Longrightarrow> \<exists>c. fetch_noalpha rep T tx ty h v = Some c \<and> (premult_tex T \<longrightarrow> premult c)"
proof -
  have c: "tex_coord T tx ty" using assms by (simp add: tex_coord_def)
  show "\<exists>c. fetch_plain T tx ty = Some c \<and> (premult_tex T \<longrightarrow> premult c)"
    using fetch_plain_ok [OF tex_drawable_fits [OF assms(1)] c] by (auto simp: premult_tex_def)
  show "\<exists>c. fetch_alpha rep T tx ty h v = Some c \<and> (premult_tex T \<longrightarrow> premult c)" if "t_interpolate T"
    by (rule fetch_alpha_ok(1) [OF tex_drawable_ok [OF assms(1) that] c assms(6,7)])
  show "\<exists>c. fetch_noalpha rep T tx ty h v = Some c \<and> (premult_tex T \<longrightarrow> premult c)" if "t_interpolate T"
    by (rule fetch_noalpha_ok [OF tex_drawable_ok [OF assms(1) that] c assms(6,7)])
qed

definition row_ok :: "texture \<Rightarrow> jint \<times> jint \<times> jint \<times> jlong \<Rightarrow> bool" where
  "row_ok T = (\<lambda>(ty, h, v, ltx). - 1 \<le> ty \<and> ty < t_imageHeight T \<and> frac16 h \<and> frac16 v)"

lemma translate_start_ok: "tex_fits T \<Longrightarrow> \<exists>s. translate_start T x y = Some s \<and> row_ok T s"
  using check_x(2) [of T "t_repeat T" "int_part (i32 (y * 65536) + t_m12 T)" "i32 (y * 65536) + t_m12 T"]
  by (auto simp: translate_start_def row_ok_def Let_def)

lemma translate_step_ok:
  assumes "tex_drawable T" "row_ok T s"
  shows "\<exists>s' c. by_filter T (translate_plain T) (translate_alpha T) (translate_noalpha T) s = Some (s', c) \<and>
    row_ok T s' \<and> (premult_tex T \<longrightarrow> premult c)"
proof -
  obtain ty h v ltx where s [simp]: "s = (ty, h, v, ltx)" by (cases s)
  from assms(2) have r: "- 1 \<le> ty" "ty < t_imageHeight T" "frac16 h" "frac16 v" by (simp_all add: row_ok_def)
  obtain tx la where x: "check_bounds (t_repeat T) (int_part ltx) ltx (t_txMin T - 1) (t_txMax T) = Some (tx, la)"
    "- 1 \<le> tx" "tx < t_imageWidth T" using check_x(1) [OF tex_drawable_fits [OF assms(1)]] by blast
  note f = fetch_ok [OF assms(1) x(2,3) r]
  show ?thesis using f(1) f(2) [of "t_repeat T"] f(3) [of "t_repeat T"] x(1) r
    by (auto simp: by_filter_def translate_plain_def translate_alpha_def translate_noalpha_def row_ok_def)
qed

lemma scale_step_ok:
  assumes "tex_drawable T"
  shows "\<exists>s' c. by_filter T (scale_plain T) (scale_alpha T) (scale_noalpha T) s = Some (s', c) \<and>
    (premult_tex T \<longrightarrow> premult c)"
proof -
  obtain ltx lty where s [simp]: "s = (ltx, lty)" by (cases s)
  obtain tx la where x: "check_bounds (t_repeat T) (int_part ltx) ltx (t_txMin T - 1) (t_txMax T) = Some (tx, la)"
    "- 1 \<le> tx" "tx < t_imageWidth T" using check_x(1) [OF tex_drawable_fits [OF assms(1)]] by blast
  obtain ty lb where y: "check_bounds (t_repeat T) (int_part lty) lty (t_tyMin T - 1) (t_tyMax T) = Some (ty, lb)"
    "- 1 \<le> ty" "ty < t_imageHeight T" using check_x(2) [OF tex_drawable_fits [OF assms(1)]] by blast
  note f = fetch_ok [OF assms(1) x(2,3) y(2,3) frac16_part [of ltx] frac16_part [of lty]]
  show ?thesis using f(1) f(2) [of "t_repeat T"] f(3) [of "t_repeat T"] x(1) y(1)
    by (auto simp: by_filter_def scale_plain_def scale_alpha_def scale_noalpha_def)
qed

lemma premult_zero: "premult 0"
  by (simp add: premult_def chA_def chR_def chG_def chB_def)

lemma generic_step_ok:
  assumes ok: "tex_drawable T"
  shows "\<exists>s' c. by_filter T (generic_plain T) (generic_alpha T) (generic_noalpha T) s = Some (s', c) \<and>
    (premult_tex T \<longrightarrow> premult c)"
proof (cases "t_repeat T")
  case True
  have "by_filter T (generic_plain T) (generic_alpha T) (generic_noalpha T) s =
      by_filter T (scale_plain T) (scale_alpha T) (scale_noalpha T) s"
    using True by (cases s) (simp add: by_filter_def generic_plain_def generic_alpha_def generic_noalpha_def)
  with scale_step_ok [OF ok, of s] show ?thesis by simp
next
  case False
  obtain ltx lty where s [simp]: "s = (ltx, lty)" by (cases s)
  let ?x = "int_part ltx" and ?y = "int_part lty"
  show ?thesis
  proof (cases "both_in_bounds T ?x ?y")
    case True
    then have c: "- 1 \<le> ?x" "?x < t_imageWidth T" "- 1 \<le> ?y" "?y < t_imageHeight T"
      using tex_drawable_fits [OF ok] by (auto simp: both_in_bounds_def isInBoundsNoRepeat_def tex_fits_def split: if_splits)
    note f = fetch_ok [OF ok c frac16_part [of ltx] frac16_part [of lty]]
    show ?thesis using f(1) f(2) [of False] f(3) [of False] True False
      by (auto simp: by_filter_def generic_plain_def generic_alpha_def generic_noalpha_def)
  next
    case out: False
    then show ?thesis using False premult_zero
      by (auto simp: by_filter_def generic_plain_def generic_alpha_def generic_noalpha_def)
  qed
qed

lemma genTexture_total:
  assumes ok: "tex_drawable (r_tx rdr)" and w: "0 \<le> r_alphaWidth rdr"
    and fit: "height * r_alphaWidth rdr \<le> int (length paint)"
    and ty: "t_transformType (r_tx rdr) \<in> {TEXTURE_TRANSFORM_TRANSLATE, TEXTURE_TRANSFORM_SCALE_TRANSLATE,
      TEXTURE_TRANSFORM_GENERIC}"
  shows "\<exists>paint'. genTexturePaintTarget rdr paint height = Some paint' \<and> length paint' = length paint \<and>
    block_ok (r_alphaWidth rdr) (height * r_alphaWidth rdr) (\<lambda>j i c. premult_tex (r_tx rdr) \<longrightarrow> premult c) paint'"
proof -
  let ?T = "r_tx rdr" and ?w = "r_alphaWidth rdr"
  let ?Q = "\<lambda>(j::jint) (i::jint) c. premult_tex ?T \<longrightarrow> premult c"
  have tr: "\<exists>p. gen_rows height ?w (\<lambda>y. do { s \<leftarrow> translate_start ?T (r_currX rdr) (i32 y); Some (s, y + 1) })
      (by_filter ?T (translate_plain ?T) (translate_alpha ?T) (translate_noalpha ?T)) (r_currY rdr) paint = Some p \<and>
      length p = length paint \<and> block_ok ?w (height * ?w) ?Q p"
  proof (rule gen_rows_total [where R = "\<lambda>j r. True" and I = "\<lambda>j i. row_ok ?T", OF w fit])
    fix y
    show "\<exists>s r'. do { s \<leftarrow> translate_start ?T (r_currX rdr) (i32 y); Some (s, y + 1) } = Some (s, r') \<and>
        row_ok ?T s \<and> True"
      using translate_start_ok [OF tex_drawable_fits [OF ok], of "r_currX rdr" "i32 y"] by auto
  qed (use translate_step_ok [OF ok] in auto)
  have ms: "\<exists>p. gen_rows height ?w (\<lambda>y. Some (matrix_start ?T (r_currX rdr) (i32 y), y + 1)) f (r_currY rdr) paint = Some p \<and>
      length p = length paint \<and> block_ok ?w (height * ?w) ?Q p"
    if "\<And>s. \<exists>s' c. f s = Some (s', c) \<and> (premult_tex ?T \<longrightarrow> premult c)" for f
  proof (rule gen_rows_total [where R = "\<lambda>j r. True" and I = "\<lambda>j i s. True", OF w fit])
    fix y
    show "\<exists>s r'. Some (matrix_start ?T (r_currX rdr) (i32 y), y + 1) = Some (s, r') \<and> True \<and> True" by blast
  qed (use that in auto)
  show ?thesis
    using ty tr ms [OF scale_step_ok [OF ok]] ms [OF generic_step_ok [OF ok]]
    by (auto simp: genTexturePaintTarget_def Let_def)
qed

text \<open>A filtered texture of one pixel: the coordinate -1 passes the bounds check, and its right neighbour is read.\<close>

lemma gen_rows_fails:
  assumes "0 < height" "0 < width" "init r = Some (s, r')" "step s = None"
  shows "gen_rows height width init step r paint = None"
proof -
  have row: "gen_row width step p s paint = None" for p
    unfolding gen_row_def cfor_def by (subst wloop_fail) (use assms(2,4) in simp_all)
  show ?thesis unfolding gen_rows_def cfor_def by (subst wloop_fail) (use assms(1,3) row in simp_all)
qed

lemma one_pixel_fetch:
  assumes "length (t_intData T) = 1" "t_imageWidth T = 1" "t_imageHeight T = 1" "ty = - 1 \<or> ty = 0"
  shows "fetch_alpha rep T (- 1) ty h v = None" "fetch_noalpha rep T (- 1) ty h v = None"
proof -
  have "max 0 ty = 0" using assms(4) by auto
  then have "fetch_points rep T (- 1) ty = None"
    using assms by (cases rep) (simp_all add: fetch_points_def getPointsToInterpolateRepeat_def getPointsToInterpolate_def rd_def in_arr_def i32_def)
  then show "fetch_alpha rep T (- 1) ty h v = None" "fetch_noalpha rep T (- 1) ty h v = None"
    by (simp_all add: fetch_alpha_def fetch_noalpha_def)
qed

lemma one_pixel_faults:
  assumes T: "tex_fits (r_tx rdr)" "length (t_intData (r_tx rdr)) = 1" "t_imageHeight (r_tx rdr) = 1"
    and i: "t_interpolate (r_tx rdr)" "t_transformType (r_tx rdr) = TEXTURE_TRANSFORM_TRANSLATE"
    and x: "int_part (i32 (r_currX rdr * 65536) + t_m02 (r_tx rdr)) = - 1" and wh: "0 < r_alphaWidth rdr" "0 < height"
  shows "genTexturePaintTarget rdr paint height = None"
proof -
  let ?T = "r_tx rdr"
  have f: "t_imageWidth ?T = 1" "t_txMin ?T = 0" "t_txMax ?T = 0" "t_tyMin ?T = 0" "t_tyMax ?T = 0"
    using T by (auto simp: tex_fits_def)
  obtain ty h v ltx where s: "translate_start ?T (r_currX rdr) (i32 (r_currY rdr)) = Some (ty, h, v, ltx)"
    using translate_start_ok [OF T(1), of "r_currX rdr" "i32 (r_currY rdr)"] by auto
  have ty: "- 1 \<le> ty" "ty < 1" using translate_start_ok [OF T(1), of "r_currX rdr" "i32 (r_currY rdr)"] s T(3)
    by (auto simp: row_ok_def)
  have l: "ltx = i32 (r_currX rdr * 65536) + t_m02 ?T" using s by (auto simp: translate_start_def Let_def split: Option.bind_splits)
  have cb: "check_bounds (t_repeat ?T) (- 1) ltx (- 1) 0 = Some (- 1, ltx)"
    by (simp add: check_bounds_def checkBoundsRepeat_def checkBoundsNoRepeat_def)
  have "ty = - 1 \<or> ty = 0" using ty by auto
  note n = one_pixel_fetch [OF T(2) f(1) T(3) this]
  have "translate_alpha ?T (ty, h, v, ltx) = None" "translate_noalpha ?T (ty, h, v, ltx) = None"
    using x f(2,3) cb n by (simp_all add: translate_alpha_def translate_noalpha_def l)
  then have "by_filter ?T (translate_plain ?T) (translate_alpha ?T) (translate_noalpha ?T) (ty, h, v, ltx) = None"
    using i(1) by (simp add: by_filter_def)
  then show ?thesis unfolding genTexturePaintTarget_def Let_def using i(2) s wh by (simp add: gen_rows_fails)
qed

section \<open>Identity\<close>

text \<open>Tiling: with repetition, pixel \<open>(x, y)\<close> of the surface shows texel \<open>(x mod width, y mod height)\<close>.\<close>

lemma mod_succ: "0 < (m::int) \<Longrightarrow> (if a mod m + 1 = m then 0 else a mod m + 1) = (a + 1) mod m"
  by (smt (verit) mod_add_left_eq mod_pos_pos_trivial mod_self pos_mod_bound pos_mod_sign)

lemma identity_repeat_tiles:
  assumes ok: "tex_fits (r_tx rdr)" and w: "0 \<le> r_alphaWidth rdr" and xy: "0 \<le> r_currX rdr" "0 \<le> r_currY rdr"
    and fit: "height * r_alphaWidth rdr \<le> int (length paint)"
  shows "\<exists>paint'. identity_repeat rdr paint height = Some paint' \<and> length paint' = length paint \<and>
    block_ok (r_alphaWidth rdr) (height * r_alphaWidth rdr)
      (\<lambda>j i c. rd (t_intData (r_tx rdr)) ((r_currY rdr + j) mod t_imageHeight (r_tx rdr) * t_stride (r_tx rdr)
                 + (r_currX rdr + i) mod t_imageWidth (r_tx rdr)) = Some c) paint'"
proof -
  let ?T = "r_tx rdr" and ?w = "r_alphaWidth rdr"
  let ?W = "t_imageWidth ?T" and ?H = "t_imageHeight ?T" and ?s = "t_stride ?T" and ?d = "t_intData ?T"
  let ?x = "\<lambda>i. (r_currX rdr + i) mod ?W" and ?y = "\<lambda>j. (r_currY rdr + j) mod ?H"
  have WH: "0 < ?W" "0 < ?H" using ok by (simp_all add: tex_fits_def)
  let ?init = "\<lambda>row. let tStart = i32 (?s * row)
      in Some ((tStart, tStart + crem (r_currX rdr) ?W), if row + 1 = ?H then 0 else row + 1)"
  let ?step = "\<lambda>(tStart, t). do { c \<leftarrow> rd ?d t;
      Some ((tStart, if t + 1 = tStart + ?W then tStart else t + 1), c) }"
  have "\<exists>p. gen_rows height ?w ?init ?step (crem (r_currY rdr) ?H) paint = Some p \<and> length p = length paint \<and>
      block_ok ?w (height * ?w) (\<lambda>j i c. rd ?d (?y j * ?s + ?x i) = Some c) p"
  proof (rule gen_rows_total [where R = "\<lambda>j r. r = ?y j" and
        I = "\<lambda>j i s. s = (?y j * ?s, ?y j * ?s + ?x i)", OF w fit])
    show "crem (r_currY rdr) ?H = ?y 0" using xy WH by simp
  next
    fix j r assume r: "r = ?y j"
    have b: "0 \<le> ?y j" "?y j < ?H" using WH by simp_all
    have "i32 (?s * ?y j) = ?y j * ?s"
      using tex_cell [OF ok, of 0 "?y j"] WH b by (simp add: i32_id mult.commute)
    with r xy WH mod_succ [OF WH(2), of "r_currY rdr + j"]
    show "\<exists>s r'. ?init r = Some (s, r') \<and> s = (?y j * ?s, ?y j * ?s + ?x 0) \<and> r' = ?y (j + 1)"
      by (auto simp: Let_def add.assoc split: if_splits)
  next
    fix j i s assume s: "s = (?y j * ?s, ?y j * ?s + ?x i)"
    have b: "0 \<le> ?x i" "?x i < ?W" "0 \<le> ?y j" "?y j < ?H" using WH by simp_all
    obtain c where c: "rd ?d (?y j * ?s + ?x i) = Some c" using tex_rd [OF ok b] by blast
    with s mod_succ [OF WH(1), of "r_currX rdr + i"]
    show "\<exists>s' c. ?step s = Some (s', c) \<and> s' = (?y j * ?s, ?y j * ?s + ?x (i + 1)) \<and>
        rd ?d (?y j * ?s + ?x i) = Some c"
      by (auto simp: add.assoc)
  qed
  with WH show ?thesis by (auto simp: identity_repeat_def Let_def)
qed

section \<open>Translation is the special case of scaling by one\<close>

lemma gen_row_sim:
  assumes "S s t"
    and step: "\<And>s t. S s t \<Longrightarrow> rel_option (\<lambda>(s', c) (t', c'). S s' t' \<and> c = c') (f s) (g t)"
  shows "gen_row width f p s paint = gen_row width g p t paint"
proof -
  let ?R = "\<lambda>(i::int) (a :: int, s, x :: pixel list) (b, t, y). a = b \<and> x = y \<and> S s t"
  have "rel_option (\<lambda>s t. \<exists>j. ?R j s t)
    (cfor width (\<lambda>i (pidx, s, paint). do { (s', c) \<leftarrow> f s; paint' \<leftarrow> wr paint pidx c; Some (pidx + 1, s', paint') }) (p, s, paint))
    (cfor width (\<lambda>i (pidx, s, paint). do { (s', c) \<leftarrow> g s; paint' \<leftarrow> wr paint pidx c; Some (pidx + 1, s', paint') }) (p, t, paint))"
  proof (rule cfor_sim)
    show "?R 0 (p, s, paint) (p, t, paint)" using assms(1) by simp
  next
    fix j u v assume "?R j u v"
    then obtain a s t x where e: "u = (a, s, x)" "v = (a, t, x)" "S s t" by (cases u; cases v) auto
    from step [OF e(3)] show "rel_option (?R (j + 1))
      ((\<lambda>(pidx, s, paint). do { (s', c) \<leftarrow> f s; paint' \<leftarrow> wr paint pidx c; Some (pidx + 1, s', paint') }) u)
      ((\<lambda>(pidx, s, paint). do { (s', c) \<leftarrow> g s; paint' \<leftarrow> wr paint pidx c; Some (pidx + 1, s', paint') }) v)"
      by (cases "f s"; cases "g t"; cases "wr x a (snd (the (f s)))") (auto simp: e)
  qed
  then show ?thesis unfolding gen_row_def by (auto elim!: option.rel_cases)
qed

lemma gen_rows_sim:
  assumes "R 0 r0"
    and init: "\<And>j r. 0 \<le> j \<Longrightarrow> j < height \<Longrightarrow> R j r \<Longrightarrow>
      rel_option (\<lambda>(s, r1) (t, r2). S s t \<and> r1 = r2 \<and> R (j + 1) r1) (init1 r) (init2 r)"
    and step: "\<And>s t. S s t \<Longrightarrow> rel_option (\<lambda>(s', c) (t', c'). S s' t' \<and> c = c') (f s) (g t)"
  shows "gen_rows height width init1 f r0 paint = gen_rows height width init2 g r0 paint"
proof -
  let ?R = "\<lambda>j (a :: int, r, x :: pixel list) (b, r', y). a = b \<and> x = y \<and> r = r' \<and> R j r"
  have "rel_option (\<lambda>s t. \<exists>j. ?R j s t)
    (cfor height (\<lambda>j (po, r, paint). do { (s, r') \<leftarrow> init1 r; paint' \<leftarrow> gen_row width f po s paint; Some (po + width, r', paint') }) (0, r0, paint))
    (cfor height (\<lambda>j (po, r, paint). do { (s, r') \<leftarrow> init2 r; paint' \<leftarrow> gen_row width g po s paint; Some (po + width, r', paint') }) (0, r0, paint))"
  proof (rule cfor_sim)
    show "?R 0 (0, r0, paint) (0, r0, paint)" using assms(1) by simp
  next
    fix j u v assume j: "0 \<le> j" "j < height" and "?R j u v"
    then obtain a r x where e: "u = (a, r, x)" "v = (a, r, x)" "R j r" by (cases u; cases v) auto
    show "rel_option (?R (j + 1))
      ((\<lambda>(po, r, paint). do { (s, r') \<leftarrow> init1 r; paint' \<leftarrow> gen_row width f po s paint; Some (po + width, r', paint') }) u)
      ((\<lambda>(po, r, paint). do { (s, r') \<leftarrow> init2 r; paint' \<leftarrow> gen_row width g po s paint; Some (po + width, r', paint') }) v)"
    proof (cases "init1 r")
      case None
      with init [OF j e(3)] have "init2 r = None" by simp
      with None show ?thesis by (simp add: e)
    next
      case (Some sr)
      obtain s r1 where sr: "sr = (s, r1)" by (cases sr)
      with Some init [OF j e(3)] obtain t where t: "init2 r = Some (t, r1)" "S s t" "R (j + 1) r1"
        by (auto simp: option_rel_Some1)
      have "gen_row width f a s x = gen_row width g a t x" by (rule gen_row_sim [OF t(2) step])
      then show ?thesis using Some sr t by (cases "gen_row width g a t x") (simp_all add: e)
    qed
  qed
  then show ?thesis unfolding gen_rows_def by (auto elim!: option.rel_cases)
qed

definition unit_scale :: "texture \<Rightarrow> bool" where
  "unit_scale T \<longleftrightarrow> t_m00 T = 65536 \<and> t_m11 T = 65536 \<and> t_m01 T = 0 \<and> t_m10 T = 0"

text \<open>The translation loop's state and the scaling loop's state of the same pixel.\<close>

definition tr_sc :: "texture \<Rightarrow> jint \<times> jint \<times> jint \<times> jlong \<Rightarrow> jlong \<times> jlong \<Rightarrow> bool" where
  "tr_sc T = (\<lambda>(ty, h, v, ltx) (ltx', lty).
     ltx' = ltx \<and> h = frac_part ltx \<and> v = frac_part lty \<and>
     (\<exists>l. check_bounds (t_repeat T) (int_part lty) lty (t_tyMin T - 1) (t_tyMax T) = Some (ty, l)))"

lemma translate_scale_step:
  assumes ok: "tex_fits T" and u: "unit_scale T" and r: "tr_sc T s t"
  shows "rel_option (\<lambda>(s', c) (t', c'). tr_sc T s' t' \<and> c = c')
    (by_filter T (translate_plain T) (translate_alpha T) (translate_noalpha T) s)
    (by_filter T (scale_plain T) (scale_alpha T) (scale_noalpha T) t)"
proof -
  obtain ty h v ltx where s [simp]: "s = (ty, h, v, ltx)" by (cases s)
  obtain ltx' lty where t [simp]: "t = (ltx', lty)" by (cases t)
  from r obtain l where e: "ltx' = ltx" "h = frac_part ltx" "v = frac_part lty"
    and y: "check_bounds (t_repeat T) (int_part lty) lty (t_tyMin T - 1) (t_tyMax T) = Some (ty, l)"
    by (auto simp: tr_sc_def)
  obtain tx la where x: "check_bounds (t_repeat T) (int_part ltx) ltx (t_txMin T - 1) (t_txMax T) = Some (tx, la)"
    using check_x(1) [OF ok] by blast
  have b: "t_txMin T - 1 \<le> 0" "0 \<le> t_txMax T" "t_txMax T < 32767"
    "t_tyMin T - 1 \<le> 0" "0 \<le> t_tyMax T" "t_tyMax T < 32767" using ok by (simp_all add: tex_fits_def)
  note sx = check_bounds_stable [OF b(1-3) x] and sy = check_bounds_stable [OF b(4-6) y]
  have "frac_part (la + 65536) = frac_part ltx" using sx(2) by (simp add: frac_part_def)
  then have n: "tr_sc T (ty, h, v, la + 65536) (la + t_m00 T, l + t_m10 T)"
    using u e sy by (simp add: tr_sc_def unit_scale_def)
  show ?thesis
    using x y e n
    by (cases "fetch_plain T tx ty"; cases "fetch_alpha (t_repeat T) T tx ty h v";
        cases "fetch_noalpha (t_repeat T) T tx ty h v")
      (simp_all add: by_filter_def translate_plain_def translate_alpha_def translate_noalpha_def
        scale_plain_def scale_alpha_def scale_noalpha_def)
qed

lemma translate_is_scale:
  assumes ok: "tex_fits (r_tx rdr)" and u: "unit_scale (r_tx rdr)"
    and ty: "t_transformType (r_tx rdr) = TEXTURE_TRANSFORM_TRANSLATE"
    and x: "- 32768 \<le> r_currX rdr" "r_currX rdr < 32768"
    and y: "- 32768 \<le> r_currY rdr" "r_currY rdr + height \<le> 32768"
  shows "genTexturePaintTarget rdr paint height =
    genTexturePaintTarget (rdr\<lparr>r_tx := (r_tx rdr)\<lparr>t_transformType := TEXTURE_TRANSFORM_SCALE_TRANSLATE\<rparr>\<rparr>) paint height"
proof -
  let ?T = "r_tx rdr"
  let ?U = "?T\<lparr>t_transformType := TEXTURE_TRANSFORM_SCALE_TRANSLATE\<rparr>"
  have U: "by_filter ?U (scale_plain ?U) (scale_alpha ?U) (scale_noalpha ?U) =
      by_filter ?T (scale_plain ?T) (scale_alpha ?T) (scale_noalpha ?T)"
    "matrix_start ?U = matrix_start ?T"
    by (auto simp: fun_eq_iff by_filter_def scale_plain_def scale_alpha_def scale_noalpha_def fetch_plain_def
        fetch_alpha_def fetch_noalpha_def fetch_points_def matrix_start_def)
  have "gen_rows height (r_alphaWidth rdr)
      (\<lambda>y. do { s \<leftarrow> translate_start ?T (r_currX rdr) (i32 y); Some (s, y + 1) })
      (by_filter ?T (translate_plain ?T) (translate_alpha ?T) (translate_noalpha ?T)) (r_currY rdr) paint =
    gen_rows height (r_alphaWidth rdr) (\<lambda>y. Some (matrix_start ?T (r_currX rdr) (i32 y), y + 1))
      (by_filter ?T (scale_plain ?T) (scale_alpha ?T) (scale_noalpha ?T)) (r_currY rdr) paint"
  proof (rule gen_rows_sim [where R = "\<lambda>j r. r = r_currY rdr + j" and S = "tr_sc ?T"])
    fix j r assume j: "0 \<le> j" "j < height" and r: "r = r_currY rdr + j"
    have wx: "i32 (r_currX rdr * 65536) = r_currX rdr * 65536" using x by (simp add: i32_id)
    have wy: "i32 r = r" "i32 (r * 65536) = r * 65536" using y j r by (simp_all add: i32_id)
    let ?lty = "r * 65536 + t_m12 ?T"
    obtain ty l where c: "check_bounds (t_repeat ?T) (int_part ?lty) ?lty (t_tyMin ?T - 1) (t_tyMax ?T) = Some (ty, l)"
      using check_x(2) [OF ok] by blast
    have m: "matrix_start ?T (r_currX rdr) r = (r_currX rdr * 65536 + t_m02 ?T, ?lty)"
      using u by (simp add: matrix_start_def unit_scale_def)
    show "rel_option (\<lambda>(s, r1) (t, r2). tr_sc ?T s t \<and> r1 = r2 \<and> r1 = r_currY rdr + (j + 1))
      (do { s \<leftarrow> translate_start ?T (r_currX rdr) (i32 r); Some (s, r + 1) })
      (Some (matrix_start ?T (r_currX rdr) (i32 r), r + 1))"
      using c by (simp add: translate_start_def wx wy m Let_def tr_sc_def) (simp add: r)
  qed (use translate_scale_step [OF ok u] in simp_all)
  then show ?thesis by (simp add: genTexturePaintTarget_def ty U Let_def)
qed

end
