(* ===== verification/Fill.thy ===== *)
theory Fill
  imports Texture_Paint
begin

text \<open>
  The painting entry points of \<^verbatim>\<open>native-prism-sw/JPiscesRenderer.c\<close>: rectangles, antialiased rows,
  alpha masks, images and clearing. A call acquires the surface's Java array, revalidates the
  renderer, sets the cursor, calls the paint generator and the emitter or blitter through the
  selected pointers, and releases the array. Out-of-memory paths are not modelled: the JNI calls
  and \<^verbatim>\<open>malloc\<close> succeed.
\<close>

section \<open>Acquiring, painting, releasing\<close>

definition acquire_validate :: "'f renderer \<Rightarrow> 'f renderer" where
  "acquire_validate rdr = VALIDATE_BLITTING (INVALIDATE_RENDERER_SURFACE rdr)"

text \<open>\<^verbatim>\<open>RELEASE_SURFACE\<close> gives the pixels back to the Java array.\<close>

definition release_surface :: "'f renderer \<Rightarrow> 'f renderer" where
  "release_surface rdr = rdr\<lparr>r_surface := (r_surface rdr)\<lparr>s_data := r_data rdr\<rparr>\<rparr>"

text \<open>\<^verbatim>\<open>ALLOC3\<close>: keep an array that is long enough, else a fresh zeroed one.\<close>

definition ALLOC3 :: "pixel list \<Rightarrow> jint \<Rightarrow> pixel list" where
  "ALLOC3 arr len = (if arr = [] \<or> int (length arr) < len then replicate (nat len) 0 else arr)"

text \<open>\<^verbatim>\<open>if (rdr->_genPaint) { ALLOC3(...); rdr->_genPaint(rdr, rows); }\<close>\<close>

definition prepare_paint :: "'f flops \<Rightarrow> 'f renderer \<Rightarrow> jint \<Rightarrow> jint \<Rightarrow> 'f renderer option" where
  "prepare_paint F rdr width rows =
    (case genPaint (r_rt rdr) of
       None \<Rightarrow> Some rdr
     | Some fn \<Rightarrow> call_genPaint F fn (rdr\<lparr>r_paint := ALLOC3 (r_paint rdr) (width * rows)\<rparr>) rows)"

section \<open>fillRect\<close>

text \<open>
  One axis of the rectangle: first and last pixel and the coverage of the two edge pixels, after
  the edge modes and the clip. The source does this for \<open>x\<close> and \<open>y\<close> in turn.
\<close>

definition axis_span :: "jint \<Rightarrow> jint \<Rightarrow> jint \<Rightarrow> jint \<Rightarrow> jint \<Rightarrow> jint \<Rightarrow> jint \<times> jint \<times> jint \<times> jint" where
  "axis_span x w lEdge rEdge clipMin clipMax =
    (let lfrac = (0x10000 - x mod 0x10000) mod 0x10000;
         rfrac = (x + w) mod 0x10000;
         x_from = sar 16 x;
         x_to = (if rfrac \<noteq> 0 then sar 16 (x + w) else sar 16 (x + w) - 1);
         (x_from, lfrac) = (if lEdge = IMAGE_FRAC_EDGE_PAD then (x_from, 0)
            else if lEdge = IMAGE_FRAC_EDGE_TRIM then (if lfrac \<noteq> 0 then x_from + 1 else x_from, 0)
            else (x_from, lfrac));
         (x_to, rfrac) = (if rEdge = IMAGE_FRAC_EDGE_PAD then (x_to, 0)
            else if rEdge = IMAGE_FRAC_EDGE_TRIM then (if rfrac \<noteq> 0 then x_to - 1 else x_to, 0)
            else (x_to, rfrac));
         (x_from, lfrac) = (if x_from < clipMin then (clipMin, 0) else (x_from, lfrac));
         (x_to, rfrac) = (if clipMax < x_to then (clipMax, 0) else (x_to, rfrac))
     in (x_from, x_to, lfrac, rfrac))"

text \<open>A span of a single pixel: the two edge fractions become one.\<close>

definition join_edges :: "jint \<Rightarrow> jint \<Rightarrow> jint \<Rightarrow> jint \<Rightarrow> jint \<times> jint" where
  "join_edges x_from x_to lfrac rfrac =
    (if x_from = x_to \<and> (lfrac \<noteq> 0 \<or> rfrac \<noteq> 0) then ((rfrac - 0x10000 + lfrac) mod 0x10000, 0)
     else (lfrac, rfrac))"

definition start_rect :: "jint \<Rightarrow> jint \<Rightarrow> jint \<Rightarrow> 'f renderer \<Rightarrow> 'f renderer" where
  "start_rect x_from x_to y_from rdr =
     rdr\<lparr>r_minTouched := x_from, r_maxTouched := x_to, r_currX := x_from, r_currY := y_from,
         r_alphaWidth := i32 (x_to - x_from + 1),
         r_currImageOffset := i32 (y_from * s_width (r_surface rdr)),
         r_imageScanlineStride := s_width (r_surface rdr), r_imagePixelStride := 1, r_rowNum := 0\<rparr>"

definition emit_line :: "'f flops \<Rightarrow> jint \<Rightarrow> 'f renderer \<Rightarrow> jint \<Rightarrow> jint \<Rightarrow> 'f renderer option" where
  "emit_line F width rdr rows fr = do {
     rdr1 \<leftarrow> prepare_paint F rdr width rows;
     call_emitLine (emitLine (r_rt rdr1)) rdr1 rows fr
   }"

definition next_rows :: "jint \<Rightarrow> jint \<Rightarrow> 'f renderer \<Rightarrow> 'f renderer" where
  "next_rows x_from rows rdr =
     rdr\<lparr>r_currX := x_from, r_currY := r_currY rdr + rows,
         r_currImageOffset := i32 ((r_currY rdr + rows) * s_width (r_surface rdr)),
         r_rowNum := r_rowNum rdr + rows\<rparr>"

abbreviation (input) NUM_ALPHA_ROWS :: jint where "NUM_ALPHA_ROWS \<equiv> 8"

text \<open>The three phases: a fractional top row, full rows eight at a time, a fractional bottom row.\<close>

definition emit_rect ::
  "('f renderer \<Rightarrow> jint \<Rightarrow> jint \<Rightarrow> 'f renderer option) \<Rightarrow> jint \<Rightarrow> jint \<Rightarrow> jint \<Rightarrow> jint \<Rightarrow> 'f renderer \<Rightarrow>
   'f renderer option" where
  "emit_rect emit x_from rows tfrac bfrac rdr = do {
     let rows_to_render = (if bfrac \<noteq> 0 then rows - 1 else rows);
     (rdr1, rows_to_render1) \<leftarrow>
       (if tfrac \<noteq> 0 then do {
          r \<leftarrow> emit rdr 1 tfrac; Some (next_rows x_from 1 r, rows_to_render - 1) }
        else Some (rdr, rows_to_render));
     (rdr2, _) \<leftarrow> wloop (\<lambda>(rdr, n). 0 < n)
       (\<lambda>(rdr, n). do {
          let k = min n NUM_ALPHA_ROWS;
          r \<leftarrow> emit rdr k 0x10000;
          Some (next_rows x_from k r, n - k) }) (rdr1, rows_to_render1);
     if bfrac \<noteq> 0 then emit rdr2 1 bfrac else Some rdr2
   }"

definition fillRect ::
  "'f flops \<Rightarrow> 'f renderer \<Rightarrow> jint \<Rightarrow> jint \<Rightarrow> jint \<Rightarrow> jint \<Rightarrow> jint \<Rightarrow> jint \<Rightarrow> jint \<Rightarrow> jint \<Rightarrow>
   'f renderer option" where
  "fillRect F rdr x y w h lEdge rEdge tEdge bEdge =
    (let (x_from, x_to, lfrac, rfrac) = axis_span x w lEdge rEdge (r_clip_bbMinX rdr) (r_clip_bbMaxX rdr);
         (y_from, y_to, tfrac, bfrac) = axis_span y h tEdge bEdge (r_clip_bbMinY rdr) (r_clip_bbMaxY rdr);
         rdr0 = rdr\<lparr>r_rectX := sar 16 x, r_rectY := sar 16 y\<rparr>
     in if x_from \<le> x_to \<and> y_from \<le> y_to then
          (let (tfrac, bfrac) = join_edges y_from y_to tfrac bfrac;
               (lfrac, rfrac) = join_edges x_from x_to lfrac rfrac;
               rdr1 = (start_rect x_from x_to y_from (acquire_validate rdr0))
                        \<lparr>r_el_lfrac := lfrac, r_el_rfrac := rfrac\<rparr>
           in map_option release_surface
                (emit_rect (emit_line F (x_to - x_from + 1)) x_from (i32 (y_to - y_from + 1)) tfrac bfrac rdr1))
        else Some rdr0)"

definition fillRectImpl :: "'f flops \<Rightarrow> 'f renderer \<Rightarrow> jint \<Rightarrow> jint \<Rightarrow> jint \<Rightarrow> jint \<Rightarrow> 'f renderer option" where
  "fillRectImpl F rdr x y w h = fillRect F rdr x y w h
     IMAGE_FRAC_EDGE_KEEP IMAGE_FRAC_EDGE_KEEP IMAGE_FRAC_EDGE_KEEP IMAGE_FRAC_EDGE_KEEP"

section \<open>Rows, masks, images, clearing\<close>

definition emitAndClearAlphaRowImpl ::
  "'f flops \<Rightarrow> 'f gamma_state \<Rightarrow> 'f renderer \<Rightarrow> jbyte list \<Rightarrow> jint list \<Rightarrow> jint \<Rightarrow> jint \<Rightarrow> jint \<Rightarrow> jint \<Rightarrow>
   ('f renderer \<times> jint list) option" where
  "emitAndClearAlphaRowImpl F gs rdr alphaMap alphaRow y x_from x_to rowNum =
    (let rdr1 = acquire_validate rdr;
         x_from = max x_from (r_clip_bbMinX rdr1);
         x_to = min x_to (r_clip_bbMaxX rdr1)
     in if x_from \<le> x_to \<and> r_clip_bbMinY rdr1 \<le> y \<and> y \<le> r_clip_bbMaxY rdr1 then do {
          let rdr2 = rdr1\<lparr>r_minTouched := x_from, r_maxTouched := x_to, r_currX := x_from, r_currY := y,
                r_rowNum := rowNum, r_alphaMap := alphaMap, r_rowAAInt := alphaRow,
                r_alphaWidth := i32 (x_to - x_from + 1),
                r_currImageOffset := i32 (y * s_width (r_surface rdr1)),
                r_imageScanlineStride := s_width (r_surface rdr1), r_imagePixelStride := 1\<rparr>;
          rdr3 \<leftarrow> prepare_paint F rdr2 (x_to - x_from + 1) 1;
          rdr4 \<leftarrow> call_emitRows gs (emitRows (r_rt rdr3)) rdr3 1;
          Some (release_surface (rdr4\<lparr>r_rowAAInt := []\<rparr>), r_rowAAInt rdr4) }
        else Some (release_surface rdr1, alphaRow))"

definition fillAlphaMask ::
  "'f flops \<Rightarrow> 'f gamma_state \<Rightarrow> 'f renderer \<Rightarrow> jint \<Rightarrow> jint \<Rightarrow> jint \<Rightarrow> jint \<Rightarrow> jint \<Rightarrow> jbyte list \<Rightarrow>
   jint \<Rightarrow> jint \<Rightarrow> jint \<Rightarrow> jint \<Rightarrow> 'f renderer option" where
  "fillAlphaMask F gs rdr minX minY maxX maxY maskType mk x maskWidth maskHeight offset =
    (if minX \<le> maxX \<and> minY \<le> maxY then
       (let width = i32 (maxX - minX + 1);
            height = i32 (maxY - minY + 1);
            rdr1 = acquire_validate (renderer_setMask maskType mk maskWidth maskHeight rdr);
            rdr2 = rdr1\<lparr>r_minTouched := minX, r_maxTouched := maxX, r_currX := minX, r_currY := minY,
              r_alphaWidth := width, r_imageScanlineStride := s_width (r_surface rdr1),
              r_imagePixelStride := 1, r_rowNum := 0, r_maskOffset := offset\<rparr>
        in do {
          rdr3 \<leftarrow> cfor height (\<lambda>j rdr. do {
              let rdr4 = rdr\<lparr>r_currImageOffset := i32 (r_currY rdr * s_width (r_surface rdr))\<rparr>;
              rdr5 \<leftarrow> prepare_paint F rdr4 width 1;
              rdr6 \<leftarrow> call_emitRows gs (emitRows (r_rt rdr5)) rdr5 1;
              Some (rdr6\<lparr>r_maskOffset := r_maskOffset rdr6 + maskWidth, r_rowNum := r_rowNum rdr6 + 1,
                         r_currX := x, r_currY := r_currY rdr6 + 1\<rparr>) }) rdr2;
          Some (release_surface (renderer_removeMask rdr3)) })
     else Some rdr)"

definition fillAlphaMaskImpl ::
  "'f flops \<Rightarrow> 'f gamma_state \<Rightarrow> 'f renderer \<Rightarrow> jbyte list \<Rightarrow> jint \<Rightarrow> jint \<Rightarrow> jint \<Rightarrow> jint \<Rightarrow> jint \<Rightarrow> jint \<Rightarrow>
   'f renderer option" where
  "fillAlphaMaskImpl F gs rdr mk x y maskWidth maskHeight offset stride =
    (let minX = max x (r_clip_bbMinX rdr);
         minY = max y (r_clip_bbMinY rdr);
         maxX = min (i32 (x + maskWidth - 1)) (r_clip_bbMaxX rdr);
         maxY = min (i32 (y + maskHeight - 1)) (r_clip_bbMaxY rdr);
         maskOffset = i32 (offset + (minY - y) * maskWidth + minX - x)
     in fillAlphaMask F gs rdr minX minY maxX maxY ALPHA_MASK mk x maskWidth maskHeight maskOffset)"

definition fillLCDAlphaMaskImpl ::
  "'f flops \<Rightarrow> 'f gamma_state \<Rightarrow> 'f renderer \<Rightarrow> jbyte list \<Rightarrow> jint \<Rightarrow> jint \<Rightarrow> jint \<Rightarrow> jint \<Rightarrow> jint \<Rightarrow> jint \<Rightarrow>
   'f renderer option" where
  "fillLCDAlphaMaskImpl F gs rdr mk x y maskWidth maskHeight offset stride =
    (let cdiv3 = (if maskWidth < 0 then - ((- maskWidth) div 3) else maskWidth div 3);
         minX = max x (r_clip_bbMinX rdr);
         minY = max y (r_clip_bbMinY rdr);
         maxX = min (i32 (x + cdiv3 - 1)) (r_clip_bbMaxX rdr);
         maxY = min (i32 (y + maskHeight - 1)) (r_clip_bbMaxY rdr);
         maskOffset = i32 (offset + (minY - y) * maskWidth + (minX - x) * 3)
     in fillAlphaMask F gs rdr minX minY maxX maxY LCD_ALPHA_MASK mk x maskWidth maskHeight maskOffset)"

definition drawImageImpl ::
  "'f flops \<Rightarrow> 'f renderer \<Rightarrow> jint \<Rightarrow> pixel list \<Rightarrow> jint \<Rightarrow> jint \<Rightarrow> jint \<Rightarrow> jint \<Rightarrow> transform6 \<Rightarrow> bool \<Rightarrow>
   jint \<times> jint \<times> jint \<times> jint \<Rightarrow> jint \<times> jint \<times> jint \<times> jint \<Rightarrow> jint \<times> jint \<times> jint \<times> jint \<Rightarrow> bool \<Rightarrow>
   'f renderer option" where
  "drawImageImpl F rdr imageMode dat width height offset stride t rep bbox edges txb hasAlpha =
    (let (bboxX, bboxY, bboxW, bboxH) = bbox; (lEdge, rEdge, tEdge, bEdge) = edges;
         (txMin, tyMin, txMax, tyMax) = txb;
         rdr1 = renderer_setTexture F imageMode (drop (nat offset) dat) width height stride rep True t False
                  hasAlpha txMin tyMin txMax tyMax rdr
     in if offset < 0 then None else do {
       rdr2 \<leftarrow> fillRect F rdr1 bboxX bboxY bboxW bboxH lEdge rEdge tEdge bEdge;
       Some (rdr2\<lparr>r_tx := (r_tx rdr2)\<lparr>t_intData := []\<rparr>\<rparr>) })"

text \<open>The texture is copied row by row into an array of its own.\<close>

definition setTextureImpl ::
  "'f flops \<Rightarrow> 'f renderer \<Rightarrow> pixel list \<Rightarrow> jint \<Rightarrow> jint \<Rightarrow> jint \<Rightarrow> transform6 \<Rightarrow> bool \<Rightarrow> bool \<Rightarrow> 'f renderer option" where
  "setTextureImpl F rdr dat width height stride t rep hasAlpha = do {
     let alloc = replicate (nat (i32 (width * height))) 0;
     alloc_data \<leftarrow> (if stride = width then memcpy_from alloc 0 dat 0 (width * height)
       else cfor height (\<lambda>i a. memcpy_from a (i32 (i * width)) dat (i32 (i * stride)) width) alloc);
     Some (renderer_setTexture F IMAGE_MODE_NORMAL alloc_data width height width rep True t True hasAlpha
             0 0 (width - 1) (height - 1) rdr)
   }"

definition renderer_clearRect :: "'f renderer \<Rightarrow> jint \<Rightarrow> jint \<Rightarrow> jint \<Rightarrow> jint \<Rightarrow> 'f renderer option" where
  "renderer_clearRect rdr x y w h =
    (let maxX = i32 (x + w - 1); maxY = i32 (y + h - 1);
         rdr1 = VALIDATE_BLITTING rdr;
         x = max (max x 0) (r_clip_bbMinX rdr1);
         y = max (max y 0) (r_clip_bbMinY rdr1);
         maxX = min (min maxX (r_width rdr1 - 1)) (r_clip_bbMaxX rdr1);
         maxY = min (min maxY (r_height rdr1 - 1)) (r_clip_bbMaxY rdr1)
     in if x \<le> maxX \<and> y \<le> maxY then
          (if clearRect_set (r_rt rdr1)
           then clearRect8888_any rdr1 x y (i32 (maxX - x + 1)) (i32 (maxY - y + 1)) else None)
        else Some rdr1)"

definition clearRectImpl :: "'f renderer \<Rightarrow> jint \<Rightarrow> jint \<Rightarrow> jint \<Rightarrow> jint \<Rightarrow> 'f renderer option" where
  "clearRectImpl rdr x y w h =
     map_option release_surface
       (renderer_clearRect ((INVALIDATE_RENDERER_SURFACE rdr)\<lparr>r_imagePixelStride := 1,
          r_imageScanlineStride := s_width (r_surface rdr)\<rparr>) x y w h)"

text \<open>
  \<^verbatim>\<open>toPiscesCoords\<close>: the bits of a \<^verbatim>\<open>float\<close> to S15.16. Shifts by 32 or more are undefined.
\<close>

definition toPiscesCoords :: "32 word \<Rightarrow> jint option" where
  "toPiscesCoords ff =
    (let gg = (and ff 0xffffff) OR 0x800000;
         shift = 134 - uint (and (drop_bit 23 ff) 0xff);
         sg = drop_bit 31 ff
     in if 32 \<le> shift \<or> shift \<le> - 32 then None
        else
          (let gg1 = (if shift < 0 then push_bit (nat (- shift)) gg else drop_bit (nat shift) gg);
               gg2 = (xor gg1 (- sg)) + sg;
               gg3 = (if ff \<noteq> 0 then gg2 else 0)
           in Some (sint gg3)))"

section \<open>A rectangle is filled once\<close>

text \<open>The renderer with its cursor, its paint buffer and its pixels changed.\<close>

definition moved ::
  "jint \<times> jint \<times> jint \<times> jint \<times> pixel list \<times> pixel list \<Rightarrow> 'f renderer \<Rightarrow> 'f renderer" where
  "moved c rdr = (case c of (cx, cy, co, rn, p, d) \<Rightarrow>
     rdr\<lparr>r_currX := cx, r_currY := cy, r_currImageOffset := co, r_rowNum := rn, r_paint := p, r_data := d\<rparr>)"

lemma moved_moved [simp]: "moved c (moved c' rdr) = moved c rdr"
  by (simp add: moved_def split: prod.split)

lemma moved_fields [simp]:
  "r_minTouched (moved c rdr) = r_minTouched rdr" "r_alphaWidth (moved c rdr) = r_alphaWidth rdr"
  "r_imageScanlineStride (moved c rdr) = r_imageScanlineStride rdr"
  "r_imagePixelStride (moved c rdr) = r_imagePixelStride rdr"
  "r_el_lfrac (moved c rdr) = r_el_lfrac rdr" "r_el_rfrac (moved c rdr) = r_el_rfrac rdr"
  "r_surface (moved c rdr) = r_surface rdr" "r_rt (moved c rdr) = r_rt rdr"
  "r_calpha (moved c rdr) = r_calpha rdr" "r_cred (moved c rdr) = r_cred rdr"
  "r_cgreen (moved c rdr) = r_cgreen rdr" "r_cblue (moved c rdr) = r_cblue rdr"
  "r_maxTouched (moved c rdr) = r_maxTouched rdr"
  by (simp_all add: moved_def split: prod.split)

lemma moved_self:
  "moved (r_currX rdr, r_currY rdr, r_currImageOffset rdr, r_rowNum rdr, r_paint rdr, r_data rdr) rdr = rdr"
  by (simp add: moved_def)

lemma moved_data: "rdr\<lparr>r_paint := p, r_data := d\<rparr> =
    moved (r_currX rdr, r_currY rdr, r_currImageOffset rdr, r_rowNum rdr, p, d) rdr"
  by (simp add: moved_def)

lemma moved_next: "\<exists>c. next_rows x k (moved c0 rdr) = moved c rdr"
proof -
  obtain cx cy co rn p d where "c0 = (cx, cy, co, rn, p, d)" by (cases c0)
  then have "next_rows x k (moved c0 rdr) =
      moved (x, cy + k, i32 ((cy + k) * s_width (r_surface rdr)), rn + k, p, d) rdr"
    by (simp add: moved_def next_rows_def)
  then show ?thesis by blast
qed

text \<open>The coverage of row \<open>j\<close> of a rectangle of \<open>rows\<close> rows.\<close>

definition row_frac :: "jint \<Rightarrow> jint \<Rightarrow> jint \<Rightarrow> jint \<Rightarrow> jint" where
  "row_frac rows tfrac bfrac j =
    (if tfrac \<noteq> 0 \<and> j = 0 then tfrac else if bfrac \<noteq> 0 \<and> j = rows - 1 then bfrac else 65536)"

text \<open>What the rectangle needs of the renderer that starts it.\<close>

definition rect_fit :: "'f renderer \<Rightarrow> jint \<Rightarrow> jint \<Rightarrow> bool" where
  "rect_fit rdr y0 rows \<longleftrightarrow> r_imagePixelStride rdr = 1 \<and> 0 \<le> r_minTouched rdr \<and> 0 \<le> r_alphaWidth rdr \<and>
     r_minTouched rdr + r_alphaWidth rdr \<le> r_imageScanlineStride rdr \<and> 0 < r_imageScanlineStride rdr \<and>
     r_imageScanlineStride rdr = s_width (r_surface rdr) \<and> 0 \<le> y0 \<and>
     length (r_data rdr) < 2147483648 \<and>
     (y0 + rows) * r_imageScanlineStride rdr \<le> int (length (r_data rdr)) \<and>
     r_currY rdr = y0 \<and> r_currImageOffset rdr = y0 * r_imageScanlineStride rdr \<and>
     0 \<le> r_el_lfrac rdr \<and> r_el_lfrac rdr < 65536 \<and> 0 \<le> r_el_rfrac rdr \<and> r_el_rfrac rdr < 65536 \<and>
     nz (r_el_lfrac rdr) + nz (r_el_rfrac rdr) \<le> r_alphaWidth rdr"

text \<open>
  The contract of the step \<open>emit\<close> of \<^verbatim>\<open>fillRect\<close> (generate the paint, emit the lines): it fills
  its rows, each pixel related to its old value by \<open>Q\<close>, and depends on the cursor only through them.
\<close>

locale rect_source =
  fixes emit :: "'f renderer \<Rightarrow> jint \<Rightarrow> jint \<Rightarrow> 'f renderer option"
    and ok :: "'f renderer \<Rightarrow> bool"
    and Q :: "'f renderer \<Rightarrow> jint \<Rightarrow> jint \<Rightarrow> pixel \<Rightarrow> pixel \<Rightarrow> bool"
  assumes emits_rows: "line_fit rdr h \<Longrightarrow> 0 < h \<Longrightarrow> h \<le> 8 \<Longrightarrow> ok rdr \<Longrightarrow> 0 \<le> fr \<Longrightarrow> fr \<le> 65536 \<Longrightarrow>
      \<exists>p d g. emit rdr h fr = Some (rdr\<lparr>r_paint := p, r_data := d\<rparr>) \<and>
        line_rect rdr (r_alphaWidth rdr) h g d \<and>
        (\<forall>j i q. 0 \<le> j \<and> j < h \<and> 0 \<le> i \<and> i < r_alphaWidth rdr \<longrightarrow> Q rdr fr i q (g j i q))"
    and ok_moved: "ok rdr \<Longrightarrow> ok (moved c rdr)"
    and Q_moved: "Q (moved c rdr) = Q rdr"
begin

definition done_rows :: "'f renderer \<Rightarrow> jint \<Rightarrow> (jint \<Rightarrow> jint) \<Rightarrow> jint \<Rightarrow> pixel list \<Rightarrow> bool" where
  "done_rows rdr y0 fr k d \<longleftrightarrow>
    (\<exists>g. rect_map (y0 * r_imageScanlineStride rdr) (r_imageScanlineStride rdr) (r_minTouched rdr)
           (r_alphaWidth rdr) k g (r_data rdr) d \<and>
         (\<forall>j i q. 0 \<le> j \<and> j < k \<and> 0 \<le> i \<and> i < r_alphaWidth rdr \<longrightarrow> Q rdr (fr j) i q (g j i q)))"

definition reached :: "'f renderer \<Rightarrow> jint \<Rightarrow> (jint \<Rightarrow> jint) \<Rightarrow> jint \<Rightarrow> 'f renderer \<Rightarrow> bool" where
  "reached rdr y0 fr k r \<longleftrightarrow> (\<exists>c. r = moved c rdr) \<and> r_currY r = y0 + k \<and>
     r_currImageOffset r = (y0 + k) * r_imageScanlineStride rdr \<and> done_rows rdr y0 fr k (r_data r)"

lemma more_rows:
  assumes fit: "rect_fit rdr y0 rows" and ok: "ok rdr"
    and r: "reached rdr y0 fr k r" and k: "0 \<le> k" "0 < h" "h \<le> 8" "k + h \<le> rows"
    and f: "\<And>j. k \<le> j \<Longrightarrow> j < k + h \<Longrightarrow> fr j = f" "0 \<le> f" "f \<le> 65536"
  shows "\<exists>r'. emit r h f = Some r' \<and> (\<exists>c. r' = moved c rdr) \<and> done_rows rdr y0 fr (k + h) (r_data r') \<and>
    reached rdr y0 fr (k + h) (next_rows x h r')"
proof -
  let ?st = "r_imageScanlineStride rdr" and ?w = "r_alphaWidth rdr" and ?x = "r_minTouched rdr"
  obtain c where c: "r = moved c rdr" using r by (auto simp: reached_def)
  obtain g1 where g1: "rect_map (y0 * ?st) ?st ?x ?w k g1 (r_data rdr) (r_data r)"
    and q1: "\<And>j i q. 0 \<le> j \<Longrightarrow> j < k \<Longrightarrow> 0 \<le> i \<Longrightarrow> i < ?w \<Longrightarrow> Q rdr (fr j) i q (g1 j i q)"
    using r by (auto simp: reached_def done_rows_def)
  have cur: "r_currImageOffset r = (y0 + k) * ?st" "r_currY r = y0 + k" using r by (simp_all add: reached_def)
  have len: "length (r_data r) = length (r_data rdr)" using g1 by (rule rect_map_length)
  have st: "0 < ?st" using fit by (simp add: rect_fit_def)
  have y0: "0 \<le> y0" using fit by (simp add: rect_fit_def)
  have le: "(y0 + k + h) * ?st \<le> (y0 + rows) * ?st" using k st by (intro mult_right_mono) simp_all
  have off0: "0 \<le> (y0 + k) * ?st" using k st y0 by simp
  have "(y0 + k) * ?st + (h - 1) * ?st + ?st = (y0 + k + h) * ?st" by (simp add: algebra_simps)
  moreover have "?x + ?w \<le> ?st" "(y0 + rows) * ?st \<le> int (length (r_data rdr))" using fit unfolding rect_fit_def by blast+
  ultimately have last: "(y0 + k) * ?st + (h - 1) * ?st + ?x + ?w \<le> int (length (r_data r))"
    using le len by linarith
  have lf: "line_fit r h"
    using fit off0 len last cur(1) unfolding line_fit_def rect_fit_def c by simp
  obtain p d g where e: "emit r h f = Some (r\<lparr>r_paint := p, r_data := d\<rparr>)"
    and g: "line_rect r (r_alphaWidth r) h g d"
    and q: "\<And>j i q. 0 \<le> j \<Longrightarrow> j < h \<Longrightarrow> 0 \<le> i \<Longrightarrow> i < ?w \<Longrightarrow> Q r f i q (g j i q)"
    using emits_rows [OF lf k(2,3) _ f(2,3)] ok_moved [OF ok, of c] c by auto
  let ?g = "\<lambda>j. if j < k then g1 j else g (j - k)"
  have "rect_map (y0 * ?st + k * ?st) ?st ?x ?w h g (r_data r) d"
    using g cur(1) c by (simp add: distrib_right)
  then have "rect_map (y0 * ?st) ?st ?x ?w (k + h) ?g (r_data rdr) d"
    using g1 k st by (intro rect_map_append) simp_all
  moreover have "Q rdr (fr j) i q' (?g j i q')" if "0 \<le> j" "j < k + h" "0 \<le> i" "i < ?w" for j i q'
    using q1 [of j i q'] q [of "j - k" i q'] f(1) [of j] that Q_moved [of c rdr] c by auto
  ultimately have dn: "done_rows rdr y0 fr (k + h) d" unfolding done_rows_def by blast
  have m: "\<exists>c. r\<lparr>r_paint := p, r_data := d\<rparr> = moved c rdr" by (simp add: moved_data c) blast
  then obtain c2 where c2: "r\<lparr>r_paint := p, r_data := d\<rparr> = moved c2 rdr" by blast
  have "(y0 + rows) * ?st \<le> int (length (r_data rdr))" "length (r_data rdr) < 2147483648"
    using fit unfolding rect_fit_def by blast+
  then have lt: "(y0 + k + h) * ?st < 2147483648" using le by linarith
  have n0: "0 \<le> (y0 + k + h) * ?st" using k st y0 by simp
  have "reached rdr y0 fr (k + h) (next_rows x h (r\<lparr>r_paint := p, r_data := d\<rparr>))"
    unfolding reached_def
  proof (intro conjI)
    show "\<exists>c. next_rows x h (r\<lparr>r_paint := p, r_data := d\<rparr>) = moved c rdr" unfolding c2 by (rule moved_next)
    show "r_currImageOffset (next_rows x h (r\<lparr>r_paint := p, r_data := d\<rparr>)) = (y0 + (k + h)) * ?st"
      using cur(2) c lt n0 fit by (simp add: next_rows_def i32_id rect_fit_def add.assoc)
  qed (use cur dn in \<open>simp_all add: next_rows_def\<close>)
  with e m dn show ?thesis by auto
qed

lemma emit_rect_fills:
  assumes fit: "rect_fit rdr y0 rows" and ok: "ok rdr" and rows: "0 < rows"
    and t: "0 \<le> tfrac" "tfrac < 65536" and b: "0 \<le> bfrac" "bfrac < 65536" "rows = 1 \<Longrightarrow> bfrac = 0"
  shows "\<exists>r c. emit_rect emit x rows tfrac bfrac rdr = Some r \<and> r = moved c rdr \<and>
    done_rows rdr y0 (row_frac rows tfrac bfrac) rows (r_data r)"
proof -
  let ?fr = "row_frac rows tfrac bfrac"
  define k0 :: int where "k0 = (if tfrac \<noteq> 0 then 1 else 0)"
  define n where "n = (if bfrac \<noteq> 0 then rows - 1 else rows)"
  have start: "reached rdr y0 ?fr 0 rdr"
    unfolding reached_def
  proof (intro conjI)
    show "\<exists>c. rdr = moved c rdr" using moved_self [of rdr] by metis
    show "done_rows rdr y0 ?fr 0 (r_data rdr)"
      unfolding done_rows_def by (intro exI [of _ "\<lambda>j i p. p"]) (auto intro: rect_map_none)
  qed (use fit in \<open>simp_all add: rect_fit_def\<close>)
  have k0: "0 \<le> k0" "k0 \<le> n" "n \<le> rows" using rows b by (cases "rows = 1"; simp add: k0_def n_def)+
  obtain r1 where r1: "(if tfrac \<noteq> 0 then do { r \<leftarrow> emit rdr 1 tfrac; Some (next_rows x 1 r, n - 1) }
      else Some (rdr, n)) = Some (r1, n - k0)" and i1: "reached rdr y0 ?fr k0 r1"
  proof (cases "tfrac = 0")
    case True
    with that [of rdr] start show thesis by (simp add: k0_def)
  next
    case False
    have "?fr j = tfrac" if "0 \<le> j" "j < 0 + 1" for j using that False by (simp add: row_frac_def)
    with more_rows [OF fit ok start, of 1 tfrac x] rows t obtain r where
      "emit rdr 1 tfrac = Some r" "reached rdr y0 ?fr 1 (next_rows x 1 r)" by auto
    with that [of "next_rows x 1 r"] False show thesis by (simp add: k0_def)
  qed
  let ?b = "\<lambda>(rdr, n). 0 < n" and ?c = "\<lambda>(rdr, n). do {
          let k = min n 8;
          r \<leftarrow> emit rdr k 0x10000;
          Some (next_rows x k r, n - k) }"
  define I where "I s \<longleftrightarrow> (case s of (r, m) \<Rightarrow> 0 \<le> m \<and> m \<le> n - k0 \<and> reached rdr y0 ?fr (n - m) r)" for s
  have "\<exists>s. wloop ?b ?c (r1, n - k0) = Some s \<and> I s \<and> \<not> ?b s"
  proof (rule wloop_total [where m = "\<lambda>(r, m). nat m"])
    show "I (r1, n - k0)" using i1 k0 by (simp add: I_def)
  next
    fix s assume "I s" and bs: "?b s"
    then obtain r m where s: "s = (r, m)" and m: "0 < m" "m \<le> n - k0" "reached rdr y0 ?fr (n - m) r"
      by (auto simp: I_def)
    have k: "0 < min m 8" "min m 8 \<le> 8" "0 \<le> n - m" "n - m + min m 8 \<le> rows"
      using m k0 by auto
    have f: "?fr j = 65536" if "n - m \<le> j" "j < n - m + min m 8" for j
      using that m by (auto simp: row_frac_def k0_def n_def split: if_splits)
    obtain r' where r': "emit r (min m 8) 65536 = Some r'"
      "reached rdr y0 ?fr (n - m + min m 8) (next_rows x (min m 8) r')"
      using more_rows [OF fit ok m(3) k(3,1,2,4) f, of x] by auto
    have "n - m + min m 8 = n - (m - min m 8)" by simp
    with r'(2) m have "I (next_rows x (min m 8) r', m - min m 8)" by (simp only: I_def prod.case) auto
    with r'(1) k(1) m(1) show "\<exists>u. ?c s = Some u \<and> I u \<and> (case u of (r, m) \<Rightarrow> nat m) < (case s of (r, m) \<Rightarrow> nat m)"
      by (simp add: s Let_def)
  qed
  then obtain r2 where r2: "wloop ?b ?c (r1, n - k0) = Some (r2, 0)" and i2: "reached rdr y0 ?fr n r2"
    by (auto simp: I_def)
  have E: "emit_rect emit x rows tfrac bfrac rdr = (if bfrac \<noteq> 0 then emit r2 1 bfrac else Some r2)"
    unfolding emit_rect_def Let_def n_def [symmetric] r1 by (simp add: r2 [unfolded Let_def])
  show ?thesis
  proof (cases "bfrac = 0")
    case True
    with i2 show ?thesis unfolding E reached_def by (auto simp: n_def)
  next
    case False
    have f: "?fr j = bfrac" if "n \<le> j" "j < n + 1" for j
      using that False b rows by (auto simp: row_frac_def n_def)
    have n1: "n + 1 = rows" using False by (simp add: n_def)
    have p: "0 \<le> n" "(0 :: int) < 1" "(1 :: int) \<le> 8" "n + 1 \<le> rows" "bfrac \<le> 65536" using n1 rows b by simp_all
    from more_rows [OF fit ok i2 p(1-4) f b(1) p(5), of x] n1
    obtain r3 where "emit r2 1 bfrac = Some r3" "\<exists>c. r3 = moved c rdr" "done_rows rdr y0 ?fr rows (r_data r3)"
      by metis
    moreover have "emit_rect emit x rows tfrac bfrac rdr = emit r2 1 bfrac" using E False by simp
    ultimately show ?thesis by metis
  qed
qed

end

section \<open>The two kinds of source\<close>

text \<open>The flat colour.\<close>

definition flat_ok :: "'f renderer \<Rightarrow> bool" where
  "flat_ok rdr \<longleftrightarrow> genPaint (r_rt rdr) = None \<and>
     emitLine (r_rt rdr) \<in> {Some Emit_LineSource, Some Emit_LineSourceOver} \<and> colour_bytes rdr"

definition flat_pix :: "'f renderer \<Rightarrow> jint \<Rightarrow> jint \<Rightarrow> pixel \<Rightarrow> pixel" where
  "flat_pix rdr fr i =
    (if emitLine (r_rt rdr) = Some Emit_LineSourceOver
     then blendSrcOver8888_pre (over_alpha rdr fr i) (r_cred rdr) (r_cgreen rdr) (r_cblue rdr)
     else src_pix rdr fr i)"

lemma moved_pix [simp]:
  "src_width (moved c rdr) fr = src_width rdr fr" "over_alpha (moved c rdr) fr i = over_alpha rdr fr i"
  by (simp_all add: src_width_def over_alpha_def Let_def)

lemma src_pix_moved [simp]: "src_pix (moved c rdr) fr i p = src_pix rdr fr i p"
  by (simp add: src_pix_def Let_def)

lemma paint_update_data: "rdr\<lparr>r_data := d\<rparr> = rdr\<lparr>r_paint := r_paint rdr, r_data := d\<rparr>"
  by simp

interpretation flat_rect: rect_source "emit_line F w" flat_ok "\<lambda>rdr fr i p q. q = flat_pix rdr fr i p" for F w
proof
  fix rdr :: "'a renderer" and h fr :: int
  assume fit: "line_fit rdr h" and ok: "flat_ok rdr" and fr: "0 \<le> fr" "fr \<le> 65536"
  from ok obtain fn where fn: "emitLine (r_rt rdr) = Some fn" "fn = Emit_LineSource \<or> fn = Emit_LineSourceOver"
    and g: "genPaint (r_rt rdr) = None" and c: "colour_bytes rdr" by (auto simp: flat_ok_def)
  have "line_ready fn rdr h" using fn(2) c by auto
  then obtain d where d: "call_emitLine (Some fn) rdr h fr = Some (rdr\<lparr>r_data := d\<rparr>)"
    "line_rect rdr (r_alphaWidth rdr) h (line_pix fn rdr fr) d"
    using le_call.emits [OF fit _ fr] by blast
  have "line_pix fn rdr fr j i q = flat_pix rdr fr i q" for j i q
    using fn by (auto simp: flat_pix_def)
  moreover have "emit_line F w rdr h fr = Some (rdr\<lparr>r_paint := r_paint rdr, r_data := d\<rparr>)"
    using d(1) g fn(1) by (simp add: emit_line_def prepare_paint_def)
  ultimately show "\<exists>p d g. emit_line F w rdr h fr = Some (rdr\<lparr>r_paint := p, r_data := d\<rparr>) \<and>
      line_rect rdr (r_alphaWidth rdr) h g d \<and>
      (\<forall>j i q. 0 \<le> j \<and> j < h \<and> 0 \<le> i \<and> i < r_alphaWidth rdr \<longrightarrow> g j i q = flat_pix rdr fr i q)"
    using d(2) by blast
next
  fix rdr :: "'a renderer" and c
  show "flat_ok rdr \<Longrightarrow> flat_ok (moved c rdr)" by (simp add: flat_ok_def colour_bytes_def)
  show "(\<lambda>fr i p q. q = flat_pix (moved c rdr) fr i p) = (\<lambda>fr i p q. q = flat_pix rdr fr i p)"
    by (simp add: flat_pix_def fun_eq_iff)
qed

text \<open>Gradients and textures.\<close>

definition generated_ok :: "'f renderer \<Rightarrow> bool" where
  "generated_ok rdr \<longleftrightarrow>
    (case genPaint (r_rt rdr) of
       Some Gen_LinearGradient \<Rightarrow> gradient_ok (r_gr rdr) \<and> (\<forall>c \<in> set (g_colors (r_gr rdr)). premult c)
     | Some Gen_RadialGradient \<Rightarrow> gradient_ok (r_gr rdr) \<and> (\<forall>c \<in> set (g_colors (r_gr rdr)). premult c)
     | Some Gen_Texture \<Rightarrow> tex_drawable (r_tx rdr) \<and> premult_tex (r_tx rdr) \<and>
         t_transformType (r_tx rdr) \<in> {TEXTURE_TRANSFORM_TRANSLATE, TEXTURE_TRANSFORM_SCALE_TRANSLATE,
           TEXTURE_TRANSFORM_GENERIC}
     | _ \<Rightarrow> False)"

lemma generated_ok_cong:
  "genPaint (r_rt a) = genPaint (r_rt b) \<Longrightarrow> r_gr a = r_gr b \<Longrightarrow> r_tx a = r_tx b \<Longrightarrow> generated_ok a = generated_ok b"
  by (simp only: generated_ok_def)

definition painted_ok :: "jint \<Rightarrow> 'f renderer \<Rightarrow> bool" where
  "painted_ok w rdr \<longleftrightarrow> generated_ok rdr \<and> r_alphaWidth rdr = w \<and>
     emitLine (r_rt rdr) \<in> {Some Emit_LinePTSource, Some Emit_LinePTSourceOver}"

lemma block_premult:
  assumes "block_ok w n (\<lambda>j i c. premult c) paint"
  shows "0 \<le> k \<Longrightarrow> k < n \<Longrightarrow> premult (paint ! nat k)"
  using assms by (simp add: block_ok_def)

lemma block_weaken: "block_ok w n Q paint \<Longrightarrow> (\<And>j i c. Q j i c \<Longrightarrow> Q' j i c) \<Longrightarrow> block_ok w n Q' paint"
  by (simp add: block_ok_def)

lemma generates_premult:
  assumes ok: "generated_ok rdr" and w: "0 \<le> r_alphaWidth rdr" and fit: "paint_fit rdr h"
  shows "\<exists>fn p. genPaint (r_rt rdr) = Some fn \<and> call_genPaint F fn rdr h = Some (rdr\<lparr>r_paint := p\<rparr>) \<and>
    paint_fit (rdr\<lparr>r_paint := p\<rparr>) h \<and> paint_premult (rdr\<lparr>r_paint := p\<rparr>) h"
proof -
  have fin: ?thesis if "genPaint (r_rt rdr) = Some fn" "call_genPaint F fn rdr h = Some (rdr\<lparr>r_paint := p\<rparr>)"
      "length p = length (r_paint rdr)" "block_ok (r_alphaWidth rdr) (h * r_alphaWidth rdr) (\<lambda>j i c. premult c) p" for fn p
    using that fit block_premult [OF that(4)] by (auto simp: paint_fit_def paint_premult_def)
  from ok consider (lin) "genPaint (r_rt rdr) = Some Gen_LinearGradient" "gradient_ok (r_gr rdr)"
      "\<forall>c \<in> set (g_colors (r_gr rdr)). premult c"
    | (rad) "genPaint (r_rt rdr) = Some Gen_RadialGradient" "gradient_ok (r_gr rdr)"
      "\<forall>c \<in> set (g_colors (r_gr rdr)). premult c"
    | (tex) "genPaint (r_rt rdr) = Some Gen_Texture" "tex_drawable (r_tx rdr)" "premult_tex (r_tx rdr)"
      "t_transformType (r_tx rdr) \<in> {TEXTURE_TRANSFORM_TRANSLATE, TEXTURE_TRANSFORM_SCALE_TRANSLATE,
           TEXTURE_TRANSFORM_GENERIC}"
    unfolding generated_ok_def by (auto split: option.splits paint_fn.splits)
  then show ?thesis
  proof cases
    case lin
    obtain p where p: "genLinearGradientPaint F rdr h = Some (rdr\<lparr>r_paint := p\<rparr>)" "length p = length (r_paint rdr)"
      "block_ok (r_alphaWidth rdr) (h * r_alphaWidth rdr) (\<lambda>j i c. c \<in> set (g_colors (r_gr rdr))) p"
      using genLinear_total [OF lin(2) w fit] by blast
    show ?thesis by (rule fin [OF lin(1) _ p(2) block_weaken [OF p(3)]]) (use p(1) lin(3) in \<open>simp_all add: call_genPaint_def\<close>)
  next
    case rad
    obtain p where p: "genRadialGradientPaint F rdr h = Some (rdr\<lparr>r_paint := p\<rparr>)" "length p = length (r_paint rdr)"
      "block_ok (r_alphaWidth rdr) (h * r_alphaWidth rdr) (\<lambda>j i c. c \<in> set (g_colors (r_gr rdr))) p"
      using genRadial_total [OF rad(2) w fit] by blast
    show ?thesis by (rule fin [OF rad(1) _ p(2) block_weaken [OF p(3)]]) (use p(1) rad(3) in \<open>simp_all add: call_genPaint_def\<close>)
  next
    case tex
    obtain p where p: "genTexturePaintTarget rdr (r_paint rdr) h = Some p" "length p = length (r_paint rdr)"
      "block_ok (r_alphaWidth rdr) (h * r_alphaWidth rdr) (\<lambda>j i c. premult_tex (r_tx rdr) \<longrightarrow> premult c) p"
      using genTexture_total [OF tex(2) w _ tex(4)] fit unfolding paint_fit_def by blast
    show ?thesis by (rule fin [OF tex(1) _ p(2) block_weaken [OF p(3)]])
      (use p(1) tex(3) in \<open>simp_all add: call_genPaint_def genTexturePaint_def\<close>)
  qed
qed

lemma ALLOC3_length: "n \<le> int (length (ALLOC3 arr n))"
  by (auto simp: ALLOC3_def)

lemma prepare_generated:
  assumes ok: "generated_ok rdr" and w: "0 \<le> r_alphaWidth rdr"
  shows "\<exists>p. prepare_paint F rdr (r_alphaWidth rdr) h = Some (rdr\<lparr>r_paint := p\<rparr>) \<and>
    paint_fit (rdr\<lparr>r_paint := p\<rparr>) h \<and> paint_premult (rdr\<lparr>r_paint := p\<rparr>) h"
proof -
  let ?r = "rdr\<lparr>r_paint := ALLOC3 (r_paint rdr) (r_alphaWidth rdr * h)\<rparr>"
  have g: "generated_ok ?r" using ok generated_ok_cong [of ?r rdr] by simp
  have f: "paint_fit ?r h" using ALLOC3_length [of "r_alphaWidth rdr * h"] by (simp add: paint_fit_def mult.commute)
  from generates_premult [OF g _ f, of F] w show ?thesis by (auto simp: prepare_paint_def)
qed

definition painted_rel :: "'f renderer \<Rightarrow> pixel \<Rightarrow> pixel \<Rightarrow> bool" where
  "painted_rel rdr p q \<longleftrightarrow> (emitLine (r_rt rdr) = Some Emit_LinePTSourceOver \<and> premult p \<longrightarrow> premult q)"

interpretation painted_rect: rect_source "emit_line F w" "painted_ok w" "\<lambda>rdr fr i. painted_rel rdr" for F w
proof
  fix rdr :: "'a renderer" and h fr :: int
  assume fit: "line_fit rdr h" and ok: "painted_ok w rdr" and fr: "0 \<le> fr" "fr \<le> 65536"
  from ok have gen: "generated_ok rdr" and aw: "r_alphaWidth rdr = w" by (simp_all add: painted_ok_def)
  from ok obtain fn where fn: "emitLine (r_rt rdr) = Some fn" "fn = Emit_LinePTSource \<or> fn = Emit_LinePTSourceOver"
    by (auto simp: painted_ok_def)
  have w0: "0 \<le> r_alphaWidth rdr" using fit by (simp add: line_fit_def)
  obtain p where p: "prepare_paint F rdr w h = Some (rdr\<lparr>r_paint := p\<rparr>)"
    "paint_fit (rdr\<lparr>r_paint := p\<rparr>) h" "paint_premult (rdr\<lparr>r_paint := p\<rparr>) h"
    using prepare_generated [OF gen w0, of F h] aw by auto
  let ?r = "rdr\<lparr>r_paint := p\<rparr>"
  have f: "line_fit ?r h" using fit by (simp add: line_fit_def)
  have rdy: "line_ready fn ?r h" using fn(2) p(2,3) by auto
  obtain d where d: "call_emitLine (Some fn) ?r h fr = Some (?r\<lparr>r_data := d\<rparr>)"
    "line_rect ?r (r_alphaWidth ?r) h (line_pix fn ?r fr) d"
    using le_call.emits [OF f rdy fr] by blast
  have "painted_rel rdr q (line_pix fn ?r fr j i q)" if ji: "0 \<le> j" "j < h" "0 \<le> i" "i < r_alphaWidth rdr" for j i q
  proof (cases "fn = Emit_LinePTSourceOver")
    case False
    then show ?thesis using fn(1) by (simp add: painted_rel_def)
  next
    case True
    have pm: "premult (paint_at ?r j i)" by (rule paint_at_premult [OF p(3)]) (use ji in simp_all)
    have lr: "0 \<le> r_el_lfrac rdr" "r_el_lfrac rdr < 65536" "0 \<le> r_el_rfrac rdr" "r_el_rfrac rdr < 65536"
      using fit by (simp_all add: line_fit_def)
    have "0 \<le> pt_frac ?r fr i" "pt_frac ?r fr i \<le> 65536"
      using scaled_range(1,2) [OF lr(1,2) fr] scaled_range(1,2) [OF lr(3,4) fr] fr by (auto simp: pt_frac_def Let_def)
    then have "0 \<le> pt_frac ?r fr i div 256" "pt_frac ?r fr i div 256 \<le> 256"
      using zdiv_mono1 [of "pt_frac ?r fr i" 65536 256] by (simp_all add: pos_imp_zdiv_nonneg_iff)
    from blendSrcOver_pre_pre_premult [OF this pm] show ?thesis
      using True by (simp add: painted_rel_def ptover_pix_def Let_def)
  qed
  moreover have "emit_line F w rdr h fr = Some (rdr\<lparr>r_paint := p, r_data := d\<rparr>)"
    using p(1) d(1) fn(1) by (simp add: emit_line_def)
  moreover have "line_rect rdr (r_alphaWidth rdr) h (line_pix fn ?r fr) d" using d(2) by simp
  ultimately show "\<exists>p d g. emit_line F w rdr h fr = Some (rdr\<lparr>r_paint := p, r_data := d\<rparr>) \<and>
      line_rect rdr (r_alphaWidth rdr) h g d \<and>
      (\<forall>j i q. 0 \<le> j \<and> j < h \<and> 0 \<le> i \<and> i < r_alphaWidth rdr \<longrightarrow> painted_rel rdr q (g j i q))"
    by blast
next
  fix rdr :: "'a renderer" and c
  have "r_gr (moved c rdr) = r_gr rdr" "r_tx (moved c rdr) = r_tx rdr" by (simp_all add: moved_def split: prod.split)
  then have "generated_ok (moved c rdr) = generated_ok rdr" by (intro generated_ok_cong) simp_all
  then show "painted_ok w rdr \<Longrightarrow> painted_ok w (moved c rdr)" by (simp add: painted_ok_def)
  show "(\<lambda>fr i. painted_rel (moved c rdr)) = (\<lambda>fr i. painted_rel rdr)" by (simp add: painted_rel_def fun_eq_iff)
qed

section \<open>fillRect\<close>

text \<open>A surface of the Java side and a clip inside of it.\<close>

definition canvas :: "'f renderer \<Rightarrow> bool" where
  "canvas rdr \<longleftrightarrow> (let s = r_surface rdr in
     s_imageType s = TYPE_INT_ARGB_PRE \<and> 0 < s_width s \<and> 0 < s_height s \<and>
     int (length (s_data s)) = s_width s * s_height s \<and> length (s_data s) < 2147483648 \<and>
     0 \<le> r_clip_bbMinX rdr \<and> r_clip_bbMaxX rdr < s_width s \<and>
     0 \<le> r_clip_bbMinY rdr \<and> r_clip_bbMaxY rdr < s_height s)"

lemma area_dims:
  fixes w h :: int
  assumes "0 < w" "0 < h" "w * h < m"
  shows "w < m" "h < m"
proof -
  have "w * 1 \<le> w * h" "1 * h \<le> w * h" using assms by (auto intro: mult_left_mono mult_right_mono)
  with assms(3) show "w < m" "h < m" by linarith+
qed

lemma canvas_dims:
  assumes "canvas rdr"
  shows "s_width (r_surface rdr) < 2147483648" "s_height (r_surface rdr) < 2147483648"
  using area_dims [of "s_width (r_surface rdr)" "s_height (r_surface rdr)" 2147483648] assms
  by (auto simp: canvas_def Let_def)

text \<open>The two ends of a span do not depend on each other.\<close>

definition lo_end :: "jint \<Rightarrow> jint \<Rightarrow> jint \<Rightarrow> jint \<times> jint" where
  "lo_end x edge mn =
    (let l = (0x10000 - x mod 0x10000) mod 0x10000;
         (a, l) = (if edge = IMAGE_FRAC_EDGE_PAD then (sar 16 x, 0)
            else if edge = IMAGE_FRAC_EDGE_TRIM then (if l \<noteq> 0 then sar 16 x + 1 else sar 16 x, 0)
            else (sar 16 x, l))
     in if a < mn then (mn, 0) else (a, l))"

definition hi_end :: "jint \<Rightarrow> jint \<Rightarrow> jint \<Rightarrow> jint \<times> jint" where
  "hi_end z edge mx =
    (let r = z mod 0x10000; b0 = (if r \<noteq> 0 then sar 16 z else sar 16 z - 1);
         (b, r) = (if edge = IMAGE_FRAC_EDGE_PAD then (b0, 0)
            else if edge = IMAGE_FRAC_EDGE_TRIM then (if r \<noteq> 0 then b0 - 1 else b0, 0)
            else (b0, r))
     in if mx < b then (mx, 0) else (b, r))"

lemma axis_span_ends:
  "axis_span x w le re mn mx =
    (let (a, l) = lo_end x le mn; (b, r) = hi_end (x + w) re mx in (a, b, l, r))"
  unfolding axis_span_def lo_end_def hi_end_def Let_def case_prod_unfold by simp

lemma lo_end_range: "lo_end x le mn = (a, l) \<Longrightarrow> mn \<le> a \<and> 0 \<le> l \<and> l < 65536"
  using pos_mod_bound [of 65536 "65536 - x mod 65536"] pos_mod_sign [of 65536 "65536 - x mod 65536"]
  by (auto simp: lo_end_def Let_def split: if_splits)

lemma hi_end_range: "hi_end z re mx = (b, r) \<Longrightarrow> b \<le> mx \<and> 0 \<le> r \<and> r < 65536"
  using pos_mod_bound [of 65536 z] pos_mod_sign [of 65536 z]
  by (auto simp: hi_end_def Let_def split: if_splits)

lemma axis_span_range:
  assumes "axis_span x w le re mn mx = (a, b, l, r)"
  shows "mn \<le> a" "b \<le> mx" "0 \<le> l" "l < 65536" "0 \<le> r" "r < 65536"
proof -
  from assms have "lo_end x le mn = (a, l)" "hi_end (x + w) re mx = (b, r)"
    by (simp_all add: axis_span_ends split: prod.splits)
  with lo_end_range hi_end_range show "mn \<le> a" "b \<le> mx" "0 \<le> l" "l < 65536" "0 \<le> r" "r < 65536"
    by blast+
qed

lemma join_edges_range:
  assumes "join_edges a b l r = (l', r')" "0 \<le> l" "l < 65536" "0 \<le> r" "r < 65536"
  shows "0 \<le> l'" "l' < 65536" "0 \<le> r'" "r' < 65536" "a = b \<Longrightarrow> r' = 0"
  using assms by (auto simp: join_edges_def split: if_splits)

text \<open>The renderer after a call has acquired the surface.\<close>

lemma acquire_validate_facts:
  assumes "control_inv TYPE_INT_ARGB_PRE rdr"
  defines "v \<equiv> acquire_validate rdr"
  shows "layout_ok v" "colour_ok v" "r_surface v = r_surface rdr"
    and "r_maskType v = r_maskType rdr" "r_compositeRule v = r_compositeRule rdr" "r_paintMode v = r_paintMode rdr"
    and "paint_ok (r_maskType rdr) (r_compositeRule rdr) (r_paintMode rdr) (r_rt v)"
    and "clearRect_set (r_rt v)" "control_inv TYPE_INT_ARGB_PRE v"
proof -
  let ?i = "INVALIDATE_RENDERER_SURFACE rdr"
  have e: "INVALIDATE_RENDERER_SURFACE (rdr\<lparr>r_surface := r_surface rdr\<rparr>) = ?i" by simp
  have ci: "control_inv TYPE_INT_ARGB_PRE ?i"
    using INVALIDATE_control_inv [OF assms(1), of "r_surface rdr"] assms(1) by (simp add: e) (simp add: control_inv_def)
  have sf: "INVALID_RENDERER_SURFACE \<in> r_state ?i" by (simp add: INVALIDATE_RENDERER_SURFACE_def)
  show lay: "layout_ok v" unfolding v_def acquire_validate_def by (rule VALIDATE_BLITTING_layout [OF sf])
  show cv: "control_inv TYPE_INT_ARGB_PRE v" unfolding v_def acquire_validate_def by (rule VALIDATE_control_inv [OF ci])
  show s: "r_surface v = r_surface rdr" and m: "r_maskType v = r_maskType rdr"
    and c: "r_compositeRule v = r_compositeRule rdr" and p: "r_paintMode v = r_paintMode rdr"
    by (simp_all add: v_def acquire_validate_def VALIDATE_BLITTING_config INVALIDATE_RENDERER_SURFACE_def)
  have "routines_inv v" using cv by (simp add: control_inv_def)
  moreover have "r_state v \<inter> INVALID_BLITTING_MASK = {}"
    unfolding v_def acquire_validate_def by (rule VALIDATE_BLITTING_clears)
  moreover have "r_imageType v = TYPE_INT_ARGB_PRE"
    using lay cv by (simp add: layout_ok_def Let_def control_inv_def)
  ultimately show "colour_ok v" "clearRect_set (r_rt v)"
    "paint_ok (r_maskType rdr) (r_compositeRule rdr) (r_paintMode rdr) (r_rt v)"
    using routines_inv_validated [of v] m c p by auto
qed

definition started :: "'f renderer \<Rightarrow> jint \<Rightarrow> jint \<Rightarrow> jint \<Rightarrow> jint \<Rightarrow> jint \<Rightarrow> 'f renderer" where
  "started rdr x0 x1 y0 l r =
     (start_rect x0 x1 y0 (acquire_validate rdr))\<lparr>r_el_lfrac := l, r_el_rfrac := r\<rparr>"

lemma started_fit:
  assumes ci: "control_inv TYPE_INT_ARGB_PRE rdr" and cv: "canvas rdr"
    and x: "0 \<le> x0" "x0 \<le> x1" "x1 < s_width (r_surface rdr)"
    and y: "0 \<le> y0" "y0 \<le> y1" "y1 < s_height (r_surface rdr)"
    and lr: "0 \<le> l" "l < 65536" "0 \<le> r" "r < 65536" "x0 = x1 \<Longrightarrow> r = 0"
  shows "rect_fit (started rdr x0 x1 y0 l r) y0 (y1 - y0 + 1)"
    "r_data (started rdr x0 x1 y0 l r) = s_data (r_surface rdr)"
    "r_alphaWidth (started rdr x0 x1 y0 l r) = x1 - x0 + 1"
    "r_minTouched (started rdr x0 x1 y0 l r) = x0"
    "r_imageScanlineStride (started rdr x0 x1 y0 l r) = s_width (r_surface rdr)"
    "r_surface (started rdr x0 x1 y0 l r) = r_surface rdr"
proof -
  let ?v = "acquire_validate rdr" and ?s = "r_surface rdr" and ?R = "started rdr x0 x1 y0 l r"
  note f = acquire_validate_facts [OF ci]
  have s: "0 < s_width ?s" "0 < s_height ?s" "int (length (s_data ?s)) = s_width ?s * s_height ?s"
    "length (s_data ?s) < 2147483648" using cv by (simp_all add: canvas_def Let_def)
  have d: "r_data ?v = s_data ?s" using f(1,3) by (simp add: layout_ok_def Let_def)
  have "(y1 + 1) * s_width ?s \<le> s_height ?s * s_width ?s" using y s by (intro mult_right_mono) simp_all
  then have last: "(y0 + (y1 - y0 + 1)) * s_width ?s \<le> int (length (s_data ?s))" using s by (simp add: mult.commute)
  have w31: "s_width ?s < 2147483648" by (rule canvas_dims(1) [OF cv])
  have y31: "y0 * s_width ?s \<le> (y0 + (y1 - y0 + 1)) * s_width ?s" using y s by (intro mult_right_mono) simp_all
  have y0n: "0 \<le> y0 * s_width ?s" using y s by simp
  have off: "i32 (y0 * s_width ?s) = y0 * s_width ?s" by (rule i32_id; use y31 y0n last s in linarith)
  have aw: "i32 (x1 - x0 + 1) = x1 - x0 + 1" by (rule i32_id; use x w31 in linarith)
  have nzz: "nz l + nz r \<le> x1 - x0 + 1"
  proof (cases "x0 = x1")
    case True
    with lr(5) show ?thesis by (simp add: nz_def)
  next
    case False
    then have "2 \<le> x1 - x0 + 1" using x by simp
    moreover have "nz l + nz r \<le> 2" by (simp add: nz_def)
    ultimately show ?thesis by linarith
  qed
  show "rect_fit ?R y0 (y1 - y0 + 1)"
    unfolding rect_fit_def started_def start_rect_def
    using f(3) d aw off x y lr s last nzz by simp
  show "r_data ?R = s_data ?s" "r_alphaWidth ?R = x1 - x0 + 1" "r_minTouched ?R = x0"
    "r_imageScanlineStride ?R = s_width ?s" "r_surface ?R = ?s"
    by (simp_all add: started_def start_rect_def d aw f(3))
qed

text \<open>The rectangle a call names, from its arguments and the clip.\<close>

definition rect_spans ::
  "'f renderer \<Rightarrow> jint \<Rightarrow> jint \<Rightarrow> jint \<Rightarrow> jint \<Rightarrow> jint \<Rightarrow> jint \<Rightarrow> jint \<Rightarrow> jint \<Rightarrow>
   (jint \<times> jint \<times> jint \<times> jint) \<times> (jint \<times> jint \<times> jint \<times> jint)" where
  "rect_spans rdr x y w h lE rE tE bE =
    (let (x0, x1, l, r) = axis_span x w lE rE (r_clip_bbMinX rdr) (r_clip_bbMaxX rdr);
         (y0, y1, t, b) = axis_span y h tE bE (r_clip_bbMinY rdr) (r_clip_bbMaxY rdr);
         (l', r') = join_edges x0 x1 l r; (t', b') = join_edges y0 y1 t b
     in ((x0, x1, l', r'), (y0, y1, t', b')))"

definition rect_rdr :: "'f renderer \<Rightarrow> jint \<Rightarrow> jint \<Rightarrow> 'f renderer" where
  "rect_rdr rdr x y = rdr\<lparr>r_rectX := sar 16 x, r_rectY := sar 16 y\<rparr>"

lemma fillRect_emits:
  assumes ci: "control_inv TYPE_INT_ARGB_PRE rdr" and cv: "canvas rdr"
    and sp: "rect_spans rdr x y w h lE rE tE bE = ((x0, x1, l, r), (y0, y1, t, b))"
    and ne: "x0 \<le> x1" "y0 \<le> y1"
  defines "R \<equiv> started (rect_rdr rdr x y) x0 x1 y0 l r"
  shows "fillRect F rdr x y w h lE rE tE bE =
      map_option release_surface (emit_rect (emit_line F (x1 - x0 + 1)) x0 (y1 - y0 + 1) t b R)"
    and "rect_fit R y0 (y1 - y0 + 1)" "r_data R = s_data (r_surface rdr)" "r_alphaWidth R = x1 - x0 + 1"
    and "r_minTouched R = x0" "r_imageScanlineStride R = s_width (r_surface rdr)" "r_surface R = r_surface rdr"
    and "0 \<le> t" "t < 65536" "0 \<le> b" "b < 65536" "y1 - y0 + 1 = 1 \<Longrightarrow> b = 0"
proof -
  obtain x0' x1' l0 r0 where ax: "axis_span x w lE rE (r_clip_bbMinX rdr) (r_clip_bbMaxX rdr) = (x0', x1', l0, r0)"
    by (metis prod_cases4)
  obtain y0' y1' t0 b0 where ay: "axis_span y h tE bE (r_clip_bbMinY rdr) (r_clip_bbMaxY rdr) = (y0', y1', t0, b0)"
    by (metis prod_cases4)
  from sp ax ay have e: "x0' = x0" "x1' = x1" "y0' = y0" "y1' = y1"
    and jx: "join_edges x0 x1 l0 r0 = (l, r)" and jy: "join_edges y0 y1 t0 b0 = (t, b)"
    by (auto simp: rect_spans_def Let_def split: prod.splits)
  note rx = axis_span_range [OF ax [unfolded e]] and ry = axis_span_range [OF ay [unfolded e]]
  note lr = join_edges_range [OF jx rx(3-6)] and tb = join_edges_range [OF jy ry(3-6)]
  show "0 \<le> t" "t < 65536" "0 \<le> b" "b < 65536" "y1 - y0 + 1 = 1 \<Longrightarrow> b = 0" using tb by simp_all
  let ?q = "rect_rdr rdr x y"
  have q: "control_inv TYPE_INT_ARGB_PRE ?q" "canvas ?q" "r_surface ?q = r_surface rdr"
    using ci cv by (simp_all add: rect_rdr_def control_inv_def supported_def routines_inv_def Let_def colour_ok_def canvas_def)
  have b: "0 \<le> x0" "x1 < s_width (r_surface ?q)" "0 \<le> y0" "y1 < s_height (r_surface ?q)"
    using rx(1,2) ry(1,2) cv by (auto simp: canvas_def Let_def q(3))
  note st = started_fit [OF q(1,2) b(1) ne(1) b(2,3) ne(2) b(4) lr]
  show "rect_fit R y0 (y1 - y0 + 1)" "r_data R = s_data (r_surface rdr)" "r_alphaWidth R = x1 - x0 + 1"
    "r_minTouched R = x0" "r_imageScanlineStride R = s_width (r_surface rdr)" "r_surface R = r_surface rdr"
    unfolding R_def using st q(3) by simp_all
  have "y1 - y0 + 1 < 2147483648" using b canvas_dims(2) [OF cv] by (simp add: q(3))
  then have rows: "i32 (y1 - y0 + 1) = y1 - y0 + 1" using ne by (intro i32_id) simp_all
  show "fillRect F rdr x y w h lE rE tE bE =
      map_option release_surface (emit_rect (emit_line F (x1 - x0 + 1)) x0 (y1 - y0 + 1) t b R)"
    using ne by (simp add: fillRect_def ax ay e jx jy rows R_def started_def rect_rdr_def Let_def)
qed

lemma release_data: "s_data (r_surface (release_surface r)) = r_data r"
  by (simp add: release_surface_def)

lemma fillRect_flat_fills:
  assumes ci: "control_inv TYPE_INT_ARGB_PRE rdr" and cv: "canvas rdr"
    and mode: "r_paintMode rdr = PAINT_FLAT_COLOR"
    and col: "byte (r_ured rdr)" "byte (r_ugreen rdr)" "byte (r_ublue rdr)" "byte (r_ualpha rdr)"
    and sp: "rect_spans rdr x y w h lE rE tE bE = ((x0, x1, l, r), (y0, y1, t, b))"
    and ne: "x0 \<le> x1" "y0 \<le> y1"
  defines "R \<equiv> started (rect_rdr rdr x y) x0 x1 y0 l r" and "W \<equiv> s_width (r_surface rdr)"
  shows "\<exists>r'. fillRect F rdr x y w h lE rE tE bE = Some r' \<and>
    rect_map (y0 * W) W x0 (x1 - x0 + 1) (y1 - y0 + 1)
      (\<lambda>j i. flat_pix R (row_frac (y1 - y0 + 1) t b j) i) (s_data (r_surface rdr)) (s_data (r_surface r'))"
proof -
  note e = fillRect_emits [OF ci cv sp ne, folded R_def W_def]
  have q: "control_inv TYPE_INT_ARGB_PRE (rect_rdr rdr x y)"
    using ci by (simp add: rect_rdr_def control_inv_def supported_def routines_inv_def Let_def colour_ok_def)
  note f = acquire_validate_facts [OF q]
  have rt: "r_rt R = r_rt (acquire_validate (rect_rdr rdr x y))" by (simp add: R_def started_def start_rect_def)
  have em: "genPaint (r_rt R) = None" "emitLine (r_rt R) = tbl_el (r_compositeRule rdr)"
    using f(7) mode by (simp_all add: rt paint_ok_def table_defs rect_rdr_def)
  have usr: "r_ured (acquire_validate q') = r_ured q'" "r_ugreen (acquire_validate q') = r_ugreen q'"
    "r_ublue (acquire_validate q') = r_ublue q'" "r_ualpha (acquire_validate q') = r_ualpha q'" for q' :: "'a renderer"
    by (simp_all add: acquire_validate_def VALIDATE_other_fields INVALIDATE_RENDERER_SURFACE_def)
  have "colour_bytes R"
    using f(2) col by (auto simp: colour_bytes_def R_def started_def start_rect_def colour_ok_def usr rect_rdr_def byte_def split: if_splits)
  then have ok: "flat_ok R" using em by (auto simp: flat_ok_def table_defs)
  have rows: "0 < y1 - y0 + 1" using ne by simp
  obtain r' c where r': "emit_rect (emit_line F (x1 - x0 + 1)) x0 (y1 - y0 + 1) t b R = Some r'"
    and d: "flat_rect.done_rows R y0 (row_frac (y1 - y0 + 1) t b) (y1 - y0 + 1) (r_data r')"
    using flat_rect.emit_rect_fills [OF e(2) ok rows e(8-12)] by blast
  from d obtain g where g: "rect_map (y0 * W) W x0 (x1 - x0 + 1) (y1 - y0 + 1) g (s_data (r_surface rdr)) (r_data r')"
    and gq: "\<And>j i p. 0 \<le> j \<Longrightarrow> j < y1 - y0 + 1 \<Longrightarrow> 0 \<le> i \<Longrightarrow> i < x1 - x0 + 1 \<Longrightarrow>
      g j i p = flat_pix R (row_frac (y1 - y0 + 1) t b j) i p"
    unfolding flat_rect.done_rows_def by (auto simp: e(3-6))
  have "rect_map (y0 * W) W x0 (x1 - x0 + 1) (y1 - y0 + 1)
      (\<lambda>j i. flat_pix R (row_frac (y1 - y0 + 1) t b j) i) (s_data (r_surface rdr)) (r_data r')"
    by (rule rect_map_cong [OF g]) (rule gq)
  with r' e(1) show ?thesis by (simp add: release_data)
qed

text \<open>The alpha of a pixel under the source-over rule: row \<open>fr\<close>, then the edge of its column.\<close>

definition rect_alpha :: "jint \<Rightarrow> jint \<Rightarrow> jint \<Rightarrow> jint \<Rightarrow> jint \<Rightarrow> jint \<Rightarrow> jint" where
  "rect_alpha a n l r fr i =
    (let alpha = a * fr div 65536; edge = (\<lambda>e. if alpha = 255 then e div 256 else e * alpha div 65536)
     in if l \<noteq> 0 \<and> i = 0 then edge l else if r \<noteq> 0 \<and> i = n - 1 then edge r else alpha)"

lemma started_flat:
  assumes ci: "control_inv TYPE_INT_ARGB_PRE rdr" and cv: "canvas rdr"
    and mode: "r_paintMode rdr = PAINT_FLAT_COLOR"
    and sp: "rect_spans rdr x y w h lE rE tE bE = ((x0, x1, l, r), (y0, y1, t, b))"
    and ne: "x0 \<le> x1" "y0 \<le> y1"
  defines "R \<equiv> started (rect_rdr rdr x y) x0 x1 y0 l r"
  shows "emitLine (r_rt R) = tbl_el (r_compositeRule rdr)" "r_el_lfrac R = l" "r_el_rfrac R = r" "r_alphaWidth R = x1 - x0 + 1"
    and "r_compositeRule rdr \<noteq> COMPOSITE_CLEAR \<Longrightarrow>
      r_calpha R = r_ualpha rdr \<and> r_cred R = r_ured rdr \<and> r_cgreen R = r_ugreen rdr \<and> r_cblue R = r_ublue rdr"
    and "r_compositeRule rdr = COMPOSITE_CLEAR \<Longrightarrow> r_calpha R = 0 \<and> r_cred R = 0 \<and> r_cgreen R = 0 \<and> r_cblue R = 0"
proof -
  show "r_alphaWidth R = x1 - x0 + 1" unfolding R_def by (rule fillRect_emits(4) [OF ci cv sp ne])
  show "r_el_lfrac R = l" "r_el_rfrac R = r" by (simp_all add: R_def started_def)
  have q: "control_inv TYPE_INT_ARGB_PRE (rect_rdr rdr x y)"
    using ci by (simp add: rect_rdr_def control_inv_def supported_def routines_inv_def Let_def colour_ok_def)
  note f = acquire_validate_facts [OF q]
  have rt: "r_rt R = r_rt (acquire_validate (rect_rdr rdr x y))" by (simp add: R_def started_def start_rect_def)
  show "emitLine (r_rt R) = tbl_el (r_compositeRule rdr)"
    using f(7) mode by (simp_all add: rt paint_ok_def table_defs rect_rdr_def)
  have usr: "r_ured (acquire_validate q') = r_ured q'" "r_ugreen (acquire_validate q') = r_ugreen q'"
    "r_ublue (acquire_validate q') = r_ublue q'" "r_ualpha (acquire_validate q') = r_ualpha q'" for q' :: "'a renderer"
    by (simp_all add: acquire_validate_def VALIDATE_other_fields INVALIDATE_RENDERER_SURFACE_def)
  show "r_calpha R = r_ualpha rdr \<and> r_cred R = r_ured rdr \<and> r_cgreen R = r_ugreen rdr \<and> r_cblue R = r_ublue rdr"
    if "r_compositeRule rdr \<noteq> COMPOSITE_CLEAR"
    using f(2,5) that by (simp add: R_def started_def start_rect_def colour_ok_def usr rect_rdr_def)
  show "r_calpha R = 0 \<and> r_cred R = 0 \<and> r_cgreen R = 0 \<and> r_cblue R = 0" if "r_compositeRule rdr = COMPOSITE_CLEAR"
    using f(2,5) that by (simp add: R_def started_def start_rect_def colour_ok_def usr rect_rdr_def)
qed

lemma row_frac_range: "0 \<le> t \<Longrightarrow> t < 65536 \<Longrightarrow> 0 \<le> b \<Longrightarrow> b < 65536 \<Longrightarrow> 0 \<le> row_frac n t b j \<and> row_frac n t b j \<le> 65536"
  by (simp add: row_frac_def)

lemma over_alpha_rect:
  assumes "byte (r_calpha R)" "0 \<le> r_el_lfrac R" "r_el_lfrac R < 65536" "0 \<le> r_el_rfrac R" "r_el_rfrac R < 65536"
    "0 \<le> fr" "fr \<le> 65536"
  shows "over_alpha R fr i = rect_alpha (r_calpha R) (r_alphaWidth R) (r_el_lfrac R) (r_el_rfrac R) fr i"
proof -
  have a: "0 \<le> r_calpha R" "r_calpha R \<le> 255" using assms(1) by (simp_all add: byte_def)
  have "r_calpha R * fr \<le> 255 * 65536" by (rule mult_mono) (use a assms in simp_all)
  moreover have p0: "0 \<le> r_calpha R * fr" using a assms(6) by simp
  ultimately have A: "sar 16 (r_calpha R * fr) = r_calpha R * fr div 65536" by (simp add: sar_id)
  have al: "0 \<le> r_calpha R * fr div 65536" "r_calpha R * fr div 65536 \<le> 255"
    using p0 \<open>_ \<le> 255 * 65536\<close> by (simp_all add: pos_imp_zdiv_nonneg_iff)
  have E: "sar 8 e = e div 256" "sar 16 (e * (r_calpha R * fr div 65536)) = e * (r_calpha R * fr div 65536) div 65536"
    if "0 \<le> e" "e < 65536" for e
  proof -
    have "e * (r_calpha R * fr div 65536) \<le> 65536 * 255" by (rule mult_mono) (use al that in simp_all)
    moreover have "0 \<le> e * (r_calpha R * fr div 65536)" using al that by simp
    ultimately show "sar 8 e = e div 256" "sar 16 (e * (r_calpha R * fr div 65536)) = e * (r_calpha R * fr div 65536) div 65536"
      using that by (simp_all add: sar_id)
  qed
  show ?thesis unfolding over_alpha_def rect_alpha_def Let_def A
    using E [OF assms(2,3)] E [OF assms(4,5)] by (simp add: MAX_ALPHA_def)
qed

lemma fillRect_over_fills:
  assumes ci: "control_inv TYPE_INT_ARGB_PRE rdr" and cv: "canvas rdr"
    and mode: "r_paintMode rdr = PAINT_FLAT_COLOR" and rule: "r_compositeRule rdr = COMPOSITE_SRC_OVER"
    and col: "byte (r_ured rdr)" "byte (r_ugreen rdr)" "byte (r_ublue rdr)" "byte (r_ualpha rdr)"
    and sp: "rect_spans rdr x y w h lE rE tE bE = ((x0, x1, l, r), (y0, y1, t, b))"
    and ne: "x0 \<le> x1" "y0 \<le> y1"
  defines "W \<equiv> s_width (r_surface rdr)"
  shows "\<exists>r'. fillRect F rdr x y w h lE rE tE bE = Some r' \<and>
    rect_map (y0 * W) W x0 (x1 - x0 + 1) (y1 - y0 + 1)
      (\<lambda>j i. blendSrcOver8888_pre (rect_alpha (r_ualpha rdr) (x1 - x0 + 1) l r (row_frac (y1 - y0 + 1) t b j) i)
        (r_ured rdr) (r_ugreen rdr) (r_ublue rdr)) (s_data (r_surface rdr)) (s_data (r_surface r'))"
proof -
  let ?R = "started (rect_rdr rdr x y) x0 x1 y0 l r"
  obtain r' where r': "fillRect F rdr x y w h lE rE tE bE = Some r'"
    "rect_map (y0 * W) W x0 (x1 - x0 + 1) (y1 - y0 + 1)
      (\<lambda>j i. flat_pix ?R (row_frac (y1 - y0 + 1) t b j) i) (s_data (r_surface rdr)) (s_data (r_surface r'))"
    using fillRect_flat_fills [OF ci cv mode col sp ne] unfolding W_def by blast
  note s = started_flat [OF ci cv mode sp ne]
  note e = fillRect_emits [OF ci cv sp ne]
  have nc: "r_compositeRule rdr \<noteq> COMPOSITE_CLEAR" using rule by (simp add: table_defs)
  have lr: "0 \<le> l" "l < 65536" "0 \<le> r" "r < 65536" using e(2) s(2,3) by (simp_all add: rect_fit_def)
  have "flat_pix ?R (row_frac (y1 - y0 + 1) t b j) i = blendSrcOver8888_pre
      (rect_alpha (r_ualpha rdr) (x1 - x0 + 1) l r (row_frac (y1 - y0 + 1) t b j) i) (r_ured rdr) (r_ugreen rdr) (r_ublue rdr)" for j i
    using over_alpha_rect [of ?R "row_frac (y1 - y0 + 1) t b j" i] row_frac_range [OF e(8-11), of "y1 - y0 + 1" j] s(1-4) s(5) [OF nc] col lr rule
    by (simp add: flat_pix_def tbl_el_def)
  with r' show ?thesis by auto
qed

text \<open>
  The source rules. In a row of coverage \<open>fr\<close> the run covers \<open>source_run\<close> columns: an edge counts as soon as its
  fraction is not 0, but is drawn only if the fraction scaled by the row is not 0.
\<close>

definition source_run :: "jint \<Rightarrow> jint \<Rightarrow> jint \<Rightarrow> jint \<Rightarrow> jint" where
  "source_run n l r fr = (if fr = 65536 then n
     else n - (if l \<noteq> 0 \<and> l * fr < 65536 then 1 else 0) - (if r \<noteq> 0 \<and> r * fr < 65536 then 1 else 0))"

definition source_pix :: "jint \<times> jint \<times> jint \<times> jint \<Rightarrow> jint \<Rightarrow> jint \<Rightarrow> jint \<Rightarrow> jint \<Rightarrow> jint \<Rightarrow> pixel \<Rightarrow> pixel" where
  "source_pix c n l r fr i p =
    (let (a, re, gr, bl) = c; le = l * fr div 65536; ri = r * fr div 65536;
         blend = (\<lambda>e. blendSrc8888_pre a (255 - e div 256) re gr bl p)
     in if source_run n l r fr \<le> i then p
        else if le \<noteq> 0 \<and> i = 0 then blend le
        else if ri \<noteq> 0 \<and> i = source_run n l r fr - 1 then blend ri
        else if fr = 65536 then pack a ((a + 1) * re div 256) ((a + 1) * gr div 256) ((a + 1) * bl div 256)
        else blend fr)"

definition rule_colour :: "'f renderer \<Rightarrow> jint \<times> jint \<times> jint \<times> jint" where
  "rule_colour rdr = (if r_compositeRule rdr = COMPOSITE_CLEAR then (0, 0, 0, 0)
     else (r_ualpha rdr, r_ured rdr, r_ugreen rdr, r_ublue rdr))"

lemma source_run_src_width:
  assumes "0 \<le> r_el_lfrac R" "0 \<le> r_el_rfrac R" "0 \<le> fr"
  shows "src_width R fr = source_run (r_alphaWidth R) (r_el_lfrac R) (r_el_rfrac R) fr"
proof -
  have "nz e - nz (scaled e fr) = (if e \<noteq> 0 \<and> e * fr < 65536 then 1 else 0)" if "0 \<le> e" for e
  proof -
    have "e * fr div 65536 = 0 \<longleftrightarrow> e * fr < 65536" using that assms(3) by (auto simp: div_eq_0_iff zdiv_eq_0_iff)
    then show ?thesis by (auto simp: nz_def scaled_def)
  qed
  from this [OF assms(1)] this [OF assms(2)] show ?thesis by (simp add: src_width_def source_run_def Let_def)
qed

lemma src_pix_rect:
  assumes c: "byte (r_calpha R)" "byte (r_cred R)" "byte (r_cgreen R)" "byte (r_cblue R)"
    and "0 \<le> r_el_lfrac R" "0 \<le> r_el_rfrac R" "0 \<le> fr"
  shows "src_pix R fr i p = source_pix (r_calpha R, r_cred R, r_cgreen R, r_cblue R) (r_alphaWidth R) (r_el_lfrac R) (r_el_rfrac R) fr i p"
proof -
  have "(r_calpha R + 1) * v \<le> 256 * 255" "0 \<le> (r_calpha R + 1) * v" if "byte v" for v
    using mult_mono [of "r_calpha R + 1" 256 v 255] c(1) that by (simp_all add: byte_def)
  then have P: "sar 8 ((r_calpha R + 1) * v) = (r_calpha R + 1) * v div 256" if "byte v" for v
    using that by (force simp: sar_id)
  show ?thesis unfolding src_pix_def source_pix_def Let_def prod.case source_run_src_width [OF assms(5-7)]
    using P [OF c(2)] P [OF c(3)] P [OF c(4)] by (simp add: scaled_def)
qed

lemma fillRect_source_fills:
  assumes ci: "control_inv TYPE_INT_ARGB_PRE rdr" and cv: "canvas rdr"
    and mode: "r_paintMode rdr = PAINT_FLAT_COLOR" and rule: "r_compositeRule rdr \<noteq> COMPOSITE_SRC_OVER"
    and col: "byte (r_ured rdr)" "byte (r_ugreen rdr)" "byte (r_ublue rdr)" "byte (r_ualpha rdr)"
    and sp: "rect_spans rdr x y w h lE rE tE bE = ((x0, x1, l, r), (y0, y1, t, b))"
    and ne: "x0 \<le> x1" "y0 \<le> y1"
  defines "W \<equiv> s_width (r_surface rdr)"
  shows "\<exists>r'. fillRect F rdr x y w h lE rE tE bE = Some r' \<and>
    rect_map (y0 * W) W x0 (x1 - x0 + 1) (y1 - y0 + 1)
      (\<lambda>j. source_pix (rule_colour rdr) (x1 - x0 + 1) l r (row_frac (y1 - y0 + 1) t b j))
      (s_data (r_surface rdr)) (s_data (r_surface r'))"
proof -
  let ?R = "started (rect_rdr rdr x y) x0 x1 y0 l r"
  obtain r' where r': "fillRect F rdr x y w h lE rE tE bE = Some r'"
    "rect_map (y0 * W) W x0 (x1 - x0 + 1) (y1 - y0 + 1)
      (\<lambda>j i. flat_pix ?R (row_frac (y1 - y0 + 1) t b j) i) (s_data (r_surface rdr)) (s_data (r_surface r'))"
    using fillRect_flat_fills [OF ci cv mode col sp ne] unfolding W_def by blast
  note s = started_flat [OF ci cv mode sp ne]
  note e = fillRect_emits [OF ci cv sp ne]
  have lr: "0 \<le> l" "0 \<le> r" using e(2) s(2,3) by (simp_all add: rect_fit_def)
  have k: "(r_calpha ?R, r_cred ?R, r_cgreen ?R, r_cblue ?R) = rule_colour rdr"
    using s(5,6) by (simp add: rule_colour_def)
  have bt: "byte (r_calpha ?R) \<and> byte (r_cred ?R) \<and> byte (r_cgreen ?R) \<and> byte (r_cblue ?R)"
    using s(5,6) col by (cases "r_compositeRule rdr = COMPOSITE_CLEAR") (simp_all add: byte_def)
  have "flat_pix ?R (row_frac (y1 - y0 + 1) t b j) i p
      = source_pix (rule_colour rdr) (x1 - x0 + 1) l r (row_frac (y1 - y0 + 1) t b j) i p" for j i p
    using src_pix_rect [of ?R "row_frac (y1 - y0 + 1) t b j" i p] row_frac_range [OF e(8-11), of "y1 - y0 + 1" j] bt k s(1-4) lr rule
    by (simp add: flat_pix_def tbl_el_def)
  then have "flat_pix ?R (row_frac (y1 - y0 + 1) t b j)
      = source_pix (rule_colour rdr) (x1 - x0 + 1) l r (row_frac (y1 - y0 + 1) t b j)" for j by (intro ext)
  with r' show ?thesis by simp
qed

text \<open>Gradients and textures: no fault, nothing outside of the rectangle, premultiplied pixels stay so.\<close>

lemma fillRect_painted_fills:
  assumes ci: "control_inv TYPE_INT_ARGB_PRE rdr" and cv: "canvas rdr"
    and mode: "r_paintMode rdr \<in> {PAINT_LINEAR_GRADIENT, PAINT_RADIAL_GRADIENT, PAINT_TEXTURE8888}"
    and rule: "r_compositeRule rdr = COMPOSITE_SRC_OVER"
    and src: "r_paintMode rdr = PAINT_TEXTURE8888 \<Longrightarrow> tex_drawable (r_tx rdr) \<and> premult_tex (r_tx rdr) \<and>
        t_transformType (r_tx rdr) \<in> {TEXTURE_TRANSFORM_TRANSLATE, TEXTURE_TRANSFORM_SCALE_TRANSLATE,
           TEXTURE_TRANSFORM_GENERIC}"
      "r_paintMode rdr \<noteq> PAINT_TEXTURE8888 \<Longrightarrow> gradient_ok (r_gr rdr) \<and> (\<forall>c \<in> set (g_colors (r_gr rdr)). premult c)"
    and sp: "rect_spans rdr x y w h lE rE tE bE = ((x0, x1, l, r), (y0, y1, t, b))"
    and ne: "x0 \<le> x1" "y0 \<le> y1"
  defines "W \<equiv> s_width (r_surface rdr)"
  shows "\<exists>r' g. fillRect F rdr x y w h lE rE tE bE = Some r' \<and>
    rect_map (y0 * W) W x0 (x1 - x0 + 1) (y1 - y0 + 1) g (s_data (r_surface rdr)) (s_data (r_surface r')) \<and>
    (\<forall>j i p. 0 \<le> j \<and> j < y1 - y0 + 1 \<and> 0 \<le> i \<and> i < x1 - x0 + 1 \<and> premult p \<longrightarrow> premult (g j i p))"
proof -
  define R where "R = started (rect_rdr rdr x y) x0 x1 y0 l r"
  note e = fillRect_emits [OF ci cv sp ne, folded R_def W_def]
  have q: "control_inv TYPE_INT_ARGB_PRE (rect_rdr rdr x y)"
    using ci by (simp add: rect_rdr_def control_inv_def supported_def routines_inv_def Let_def colour_ok_def)
  note f = acquire_validate_facts [OF q]
  have rt: "r_rt R = r_rt (acquire_validate (rect_rdr rdr x y))" by (simp add: R_def started_def start_rect_def)
  have em: "genPaint (r_rt R) = tbl_gen (r_paintMode rdr)" "emitLine (r_rt R) = Some Emit_LinePTSourceOver"
    using f(7) mode rule by (auto simp: rt paint_ok_def table_defs rect_rdr_def)
  have gt: "r_gr R = r_gr rdr" "r_tx R = r_tx rdr"
    by (simp_all add: R_def started_def start_rect_def acquire_validate_def VALIDATE_other_fields
        INVALIDATE_RENDERER_SURFACE_def rect_rdr_def)
  have "generated_ok R" using mode src by (auto simp: generated_ok_def em gt table_defs)
  then have ok: "painted_ok (x1 - x0 + 1) R" using em(2) e(4) by (simp add: painted_ok_def)
  have rows: "0 < y1 - y0 + 1" using ne by simp
  obtain r' c where r': "emit_rect (emit_line F (x1 - x0 + 1)) x0 (y1 - y0 + 1) t b R = Some r'"
    and d: "painted_rect.done_rows R y0 (row_frac (y1 - y0 + 1) t b) (y1 - y0 + 1) (r_data r')"
    using painted_rect.emit_rect_fills [OF e(2) ok rows e(8-12)] by blast
  from d obtain g where g: "rect_map (y0 * W) W x0 (x1 - x0 + 1) (y1 - y0 + 1) g (s_data (r_surface rdr)) (r_data r')"
    and gq: "\<And>j i p. 0 \<le> j \<Longrightarrow> j < y1 - y0 + 1 \<Longrightarrow> 0 \<le> i \<Longrightarrow> i < x1 - x0 + 1 \<Longrightarrow> painted_rel R p (g j i p)"
    unfolding painted_rect.done_rows_def by (auto simp: e(3-6))
  have "premult (g j i p)" if "0 \<le> j" "j < y1 - y0 + 1" "0 \<le> i" "i < x1 - x0 + 1" "premult p" for j i p
    using gq [OF that(1-4)] that(5) em(2) by (simp add: painted_rel_def)
  then have "\<forall>j i p. 0 \<le> j \<and> j < y1 - y0 + 1 \<and> 0 \<le> i \<and> i < x1 - x0 + 1 \<and> premult p \<longrightarrow> premult (g j i p)"
    by blast
  moreover have "fillRect F rdr x y w h lE rE tE bE = Some (release_surface r')" using r' e(1) by simp
  ultimately show ?thesis using g by (metis release_data)
qed

lemma fillRect_empty:
  assumes "rect_spans rdr x y w h lE rE tE bE = ((x0, x1, l, r), (y0, y1, t, b))" "x1 < x0 \<or> y1 < y0"
  shows "fillRect F rdr x y w h lE rE tE bE = Some (rect_rdr rdr x y)"
  using assms by (auto simp: fillRect_def rect_spans_def rect_rdr_def Let_def split: prod.splits)

section \<open>clearRect\<close>

text \<open>A surface as the Java side creates it: no padding, no offset.\<close>

definition dense :: "surface \<Rightarrow> bool" where
  "dense s \<longleftrightarrow> s_scanlineStride s = s_width s \<and> s_pixelStride s = 1 \<and> s_offset s = 0 \<and>
     length (s_data s) < 536870912"

definition clear_rdr :: "'f renderer \<Rightarrow> 'f renderer" where
  "clear_rdr rdr = VALIDATE_BLITTING ((INVALIDATE_RENDERER_SURFACE rdr)\<lparr>r_imagePixelStride := 1,
     r_imageScanlineStride := s_width (r_surface rdr)\<rparr>)"

lemma clear_rdr_facts:
  assumes "control_inv TYPE_INT_ARGB_PRE rdr"
  shows "layout_ok (clear_rdr rdr)" "colour_ok (clear_rdr rdr)" "r_surface (clear_rdr rdr) = r_surface rdr"
    "clearRect_set (r_rt (clear_rdr rdr))" "r_compositeRule (clear_rdr rdr) = r_compositeRule rdr"
    "r_clip_bbMinX (clear_rdr rdr) = r_clip_bbMinX rdr" "r_clip_bbMinY (clear_rdr rdr) = r_clip_bbMinY rdr"
    "r_clip_bbMaxX (clear_rdr rdr) = r_clip_bbMaxX rdr" "r_clip_bbMaxY (clear_rdr rdr) = r_clip_bbMaxY rdr"
proof -
  let ?i = "(INVALIDATE_RENDERER_SURFACE rdr)\<lparr>r_imagePixelStride := 1, r_imageScanlineStride := s_width (r_surface rdr)\<rparr>"
  have ci: "control_inv TYPE_INT_ARGB_PRE ?i"
    using assms by (simp add: INVALIDATE_RENDERER_SURFACE_def control_inv_def supported_def routines_inv_def
        Let_def colour_ok_def)
  have sf: "INVALID_RENDERER_SURFACE \<in> r_state ?i" by (simp add: INVALIDATE_RENDERER_SURFACE_def)
  show lay: "layout_ok (clear_rdr rdr)" unfolding clear_rdr_def by (rule VALIDATE_BLITTING_layout [OF sf])
  have cv: "control_inv TYPE_INT_ARGB_PRE (clear_rdr rdr)" unfolding clear_rdr_def by (rule VALIDATE_control_inv [OF ci])
  show s: "r_surface (clear_rdr rdr) = r_surface rdr" and "r_compositeRule (clear_rdr rdr) = r_compositeRule rdr"
    by (simp_all add: clear_rdr_def VALIDATE_BLITTING_config INVALIDATE_RENDERER_SURFACE_def)
  show "r_clip_bbMinX (clear_rdr rdr) = r_clip_bbMinX rdr" "r_clip_bbMinY (clear_rdr rdr) = r_clip_bbMinY rdr"
    "r_clip_bbMaxX (clear_rdr rdr) = r_clip_bbMaxX rdr" "r_clip_bbMaxY (clear_rdr rdr) = r_clip_bbMaxY rdr"
    by (simp_all add: clear_rdr_def VALIDATE_other_fields INVALIDATE_RENDERER_SURFACE_def)
  have "routines_inv (clear_rdr rdr)" using cv by (simp add: control_inv_def)
  moreover have "r_state (clear_rdr rdr) \<inter> INVALID_BLITTING_MASK = {}"
    unfolding clear_rdr_def by (rule VALIDATE_BLITTING_clears)
  moreover have "r_imageType (clear_rdr rdr) = TYPE_INT_ARGB_PRE"
    using lay cv by (simp add: layout_ok_def Let_def control_inv_def)
  ultimately show "colour_ok (clear_rdr rdr)" "clearRect_set (r_rt (clear_rdr rdr))"
    using routines_inv_validated [of "clear_rdr rdr"] by auto
qed

text \<open>The clipped rectangle of a call; sums that do not wrap around.\<close>

definition clear_span :: "jint \<Rightarrow> jint \<Rightarrow> jint \<Rightarrow> jint \<Rightarrow> jint \<times> jint" where
  "clear_span x w mn mx = (max x mn, min (x + w - 1) mx)"

lemma clearRectImpl_fills:
  assumes ci: "control_inv TYPE_INT_ARGB_PRE rdr" and cv: "canvas rdr" and de: "dense (r_surface rdr)"
    and j: "is_jint (x + w - 1)" "is_jint (y + h - 1)"
    and sp: "clear_span x w (r_clip_bbMinX rdr) (r_clip_bbMaxX rdr) = (x0, x1)"
      "clear_span y h (r_clip_bbMinY rdr) (r_clip_bbMaxY rdr) = (y0, y1)"
    and ne: "x0 \<le> x1" "y0 \<le> y1"
  defines "v \<equiv> clear_rdr rdr" and "W \<equiv> s_width (r_surface rdr)"
  shows "\<exists>r'. clearRectImpl rdr x y w h = Some r' \<and>
    rect_map (y0 * W) W x0 (x1 - x0 + 1) (y1 - y0 + 1)
      (\<lambda>j i p. pack (r_calpha v) (r_cred v) (r_cgreen v) (r_cblue v)) (s_data (r_surface rdr)) (s_data (r_surface r'))"
proof -
  let ?s = "r_surface rdr"
  note f = clear_rdr_facts [OF ci]
  have c: "0 < W" "0 < s_height ?s" "int (length (s_data ?s)) = W * s_height ?s"
    "0 \<le> r_clip_bbMinX rdr" "r_clip_bbMaxX rdr < W" "0 \<le> r_clip_bbMinY rdr" "r_clip_bbMaxY rdr < s_height ?s"
    using cv by (simp_all add: canvas_def Let_def W_def)
  have lay: "r_width v = W" "r_height v = s_height ?s" "r_data v = s_data ?s" "r_imageOffset v = 0"
    "r_imageScanlineStride v = W" "r_imagePixelStride v = 1"
    using f(1,3) de by (simp_all add: layout_ok_def Let_def v_def W_def dense_def)
  have e: "max (max x 0) (r_clip_bbMinX v) = x0" "max (max y 0) (r_clip_bbMinY v) = y0"
    "min (min (i32 (x + w - 1)) (W - 1)) (r_clip_bbMaxX v) = x1"
    "min (min (i32 (y + h - 1)) (s_height ?s - 1)) (r_clip_bbMaxY v) = y1"
    using sp c j by (auto simp: v_def f clear_span_def i32_jint max_def min_def)
  have b: "0 \<le> x0" "x1 < W" "0 \<le> y0" "y1 < s_height ?s" using sp c by (auto simp: clear_span_def)
  note d = canvas_dims [OF cv]
  have n: "i32 (x1 - x0 + 1) = x1 - x0 + 1" "i32 (y1 - y0 + 1) = y1 - y0 + 1"
    using b ne d by (auto simp: W_def intro!: i32_id)
  have "(y1 + 1) * W \<le> s_height ?s * W" using b c(1) by (intro mult_right_mono) simp_all
  then have "y1 * W + x1 + 1 \<le> int (length (s_data ?s))" using b c(3) by (simp add: algebra_simps)
  then have "clear_fit v x0 y0 (x1 - x0 + 1) (y1 - y0 + 1)"
    using lay b ne de by (simp add: clear_fit_def dense_def algebra_simps)
  from clearRect_rect [OF this] obtain d where
    "clearRect8888_any v x0 y0 (x1 - x0 + 1) (y1 - y0 + 1) = Some (v\<lparr>r_data := d\<rparr>)"
    "rect_map (y0 * W) W x0 (x1 - x0 + 1) (y1 - y0 + 1)
      (\<lambda>j i p. pack (r_calpha v) (r_cred v) (r_cgreen v) (r_cblue v)) (s_data ?s) d"
    by (auto simp: lay)
  moreover have "clearRect_set (r_rt v)" using f(4) by (simp add: v_def)
  then have "clearRectImpl rdr x y w h =
      map_option release_surface (clearRect8888_any v x0 y0 (x1 - x0 + 1) (y1 - y0 + 1))"
    unfolding clearRectImpl_def renderer_clearRect_def Let_def clear_rdr_def [symmetric] v_def [symmetric]
      lay e n using ne by simp
  ultimately show ?thesis by (simp add: release_data)
qed

section \<open>Antialiased rows\<close>

text \<open>What \<^verbatim>\<open>Renderer.emitRows\<close> of the Java side passes: deltas that stay inside of the alpha map.\<close>

definition row_input :: "jbyte list \<Rightarrow> jint list \<Rightarrow> jint \<Rightarrow> bool" where
  "row_input alphaMap alphaRow n \<longleftrightarrow> n \<le> int (length alphaRow) \<and> length alphaMap \<le> 2147483648 \<and>
     alphaMap ! 0 = 0 \<and> (\<forall>k. 0 \<le> k \<and> k < n \<longrightarrow> in_arr alphaMap (psum alphaRow (k + 1)))"

lemma emitAndClearAlphaRow_draws:
  assumes ci: "control_inv TYPE_INT_ARGB_PRE rdr" and cv: "canvas rdr"
    and md: "r_maskType rdr = NO_MASK" "r_compositeRule rdr = COMPOSITE_SRC_OVER" "r_paintMode rdr = PAINT_FLAT_COLOR"
    and col: "byte (r_ured rdr)" "byte (r_ugreen rdr)" "byte (r_ublue rdr)" "byte (r_ualpha rdr)"
    and x: "max xf (r_clip_bbMinX rdr) = x0" "min xt (r_clip_bbMaxX rdr) = x1" "x0 \<le> x1"
    and y: "r_clip_bbMinY rdr \<le> y" "y \<le> r_clip_bbMaxY rdr"
    and inp: "row_input alphaMap alphaRow (x1 - x0 + 1)"
  defines "W \<equiv> s_width (r_surface rdr)"
  shows "\<exists>r' aa. emitAndClearAlphaRowImpl F gs rdr alphaMap alphaRow y xf xt rowNum = Some (r', aa) \<and>
    slice_map 0 (x1 - x0 + 1) (\<lambda>i v. 0) alphaRow aa \<and>
    rect_map (y * W) W x0 (x1 - x0 + 1) 1
      (\<lambda>j k. blendSrcOver8888_pre ((uint (alphaMap ! nat (psum alphaRow (k + 1))) + 1) * r_ualpha rdr div 256)
        (r_ured rdr) (r_ugreen rdr) (r_ublue rdr)) (s_data (r_surface rdr)) (s_data (r_surface r'))"
proof -
  let ?s = "r_surface rdr" and ?v = "acquire_validate rdr"
  note f = acquire_validate_facts [OF ci]
  have cl: "r_clip_bbMinX ?v = r_clip_bbMinX rdr" "r_clip_bbMaxX ?v = r_clip_bbMaxX rdr"
    "r_clip_bbMinY ?v = r_clip_bbMinY rdr" "r_clip_bbMaxY ?v = r_clip_bbMaxY rdr"
    "r_ured ?v = r_ured rdr" "r_ugreen ?v = r_ugreen rdr" "r_ublue ?v = r_ublue rdr" "r_ualpha ?v = r_ualpha rdr"
    by (simp_all add: acquire_validate_def VALIDATE_other_fields INVALIDATE_RENDERER_SURFACE_def)
  have c: "0 < W" "0 < s_height ?s" "int (length (s_data ?s)) = W * s_height ?s" "length (s_data ?s) < 2147483648"
    "0 \<le> r_clip_bbMinX rdr" "r_clip_bbMaxX rdr < W" "0 \<le> r_clip_bbMinY rdr" "r_clip_bbMaxY rdr < s_height ?s"
    using cv by (simp_all add: canvas_def Let_def W_def)
  have b: "0 \<le> x0" "x1 < W" "0 \<le> y" "y < s_height ?s" using x y c by auto
  have "(y + 1) * W \<le> s_height ?s * W" using b c(1) by (intro mult_right_mono) simp_all
  then have m: "y * W + W \<le> int (length (s_data ?s))" "0 \<le> y * W" using c b by (simp_all add: algebra_simps)
  have d: "r_data ?v = s_data ?s" using f(1,3) by (simp add: layout_ok_def Let_def)
  have n: "i32 (x1 - x0 + 1) = x1 - x0 + 1"
    using b x(3) canvas_dims [OF cv] by (intro i32_id) (simp_all add: W_def)
  have n2: "i32 (y * W) = y * W" using m c(1,4) by (intro i32_id) linarith+
  define R where "R = ?v\<lparr>r_minTouched := x0, r_maxTouched := x1, r_currX := x0, r_currY := y,
      r_rowNum := rowNum, r_alphaMap := alphaMap, r_rowAAInt := alphaRow, r_alphaWidth := x1 - x0 + 1,
      r_currImageOffset := y * W, r_imageScanlineStride := W, r_imagePixelStride := 1\<rparr>"
  have rt: "genPaint (r_rt R) = None" "emitRows (r_rt R) = Some Blit_SrcOver8888"
    using f(7) md by (simp_all add: R_def paint_ok_def table_defs)
  have co: "r_cred R = r_ured rdr" "r_cgreen R = r_ugreen rdr" "r_cblue R = r_ublue rdr" "r_calpha R = r_ualpha rdr"
    using f(2,5) md cl by (simp_all add: R_def colour_ok_def)
  have "blit_fit R" using b x m c d by (simp add: R_def blit_fit_def)
  moreover have "aa_ready R" "map_zero R" "colour_bytes R"
    using inp col co by (simp_all add: R_def row_input_def aa_ready_def map_zero_def colour_bytes_def)
  ultimately obtain aa e where e: "blitSrcOver8888_pre R 1 = Some (R\<lparr>r_rowAAInt := aa, r_data := e\<rparr>)"
    "slice_map 0 (r_alphaWidth R) (\<lambda>i v. 0) (r_rowAAInt R) aa"
    "line_rect R (r_alphaWidth R) 1 (\<lambda>j. over_pix aa_cover R) e"
    using bl_over.draws_and_clears [of R] by blast
  have "emitAndClearAlphaRowImpl F gs rdr alphaMap alphaRow y xf xt rowNum =
      Some (release_surface (R\<lparr>r_data := e, r_rowAAInt := []\<rparr>), aa)"
    unfolding emitAndClearAlphaRowImpl_def Let_def cl x f(3) n n2 W_def [symmetric]
    using x(3) y rt e(1) by (simp add: prepare_paint_def cl flip: R_def)
  moreover have pix: "over_pix aa_cover R = (\<lambda>k. blendSrcOver8888_pre
      ((uint (alphaMap ! nat (psum alphaRow (k + 1))) + 1) * r_ualpha rdr div 256)
      (r_ured rdr) (r_ugreen rdr) (r_ublue rdr))"
    unfolding over_pix_def over_scale_def aa_cover_def co by (simp add: R_def)
  moreover have "r_alphaWidth R = x1 - x0 + 1" "r_rowAAInt R = alphaRow" "r_currImageOffset R = y * W"
    "r_imageScanlineStride R = W" "r_minTouched R = x0" "r_data R = s_data ?s"
    using d by (simp_all add: R_def)
  ultimately show ?thesis using e(2,3) by (simp add: release_surface_def)
qed

end
