(* ===== verification/Renderer_Properties.thy ===== *)
theory Renderer_Properties
  imports Fill
begin

text \<open>
  The properties of the software renderer, each stated over the model's definitions and followed
  by a witness that applies it to a concrete renderer: a 4 by 4 surface, painted with the fixed-point
  arithmetic of \<^verbatim>\<open>Float_Ops\<close>.
\<close>

section \<open>The renderer the witnesses use\<close>

definition demo_surface :: surface where
  "demo_surface = \<lparr>s_width = 4, s_height = 4, s_offset = 0, s_scanlineStride = 4, s_pixelStride = 1,
     s_imageType = TYPE_INT_ARGB_PRE, s_data = replicate 16 0\<rparr>"

definition demo :: "int renderer" where
  "demo = renderer_setColor 200 100 50 128 (createCommon fx_flops demo_surface)"

lemma demo_reachable: "reachable fx_flops demo_surface demo"
  unfolding demo_def by (intro reachable.step [OF reachable.create] api_step.intros)

lemma demo_inv: "control_inv TYPE_INT_ARGB_PRE demo"
  using reachable_inv [OF demo_reachable] by (simp add: demo_surface_def)

lemmas demo_defs = demo_def demo_surface_def createCommon_def renderer_setColor_def setPaintMode_def Let_def

lemma demo_canvas: "canvas demo"
  by (simp add: demo_defs canvas_def i32_def)

section \<open>Control state\<close>

text \<open>
  C1. After any sequence of calls of the renderer's interface, acquiring the surface and revalidating
  leaves no blitting flag set, selects exactly the paint generator, row blitter and line emitter that
  the mask, composite rule and paint mode ask for, makes the internal colour the user's (transparent
  black under CLEAR) and takes over the surface's layout and pixels.
\<close>

theorem validated_control_state:
  assumes "reachable F surf rdr" "s_imageType surf = TYPE_INT_ARGB_PRE"
  defines "v \<equiv> acquire_validate rdr"
  shows "r_state v \<inter> INVALID_BLITTING_MASK = {}
    \<and> genPaint (r_rt v) = tbl_gen (r_paintMode rdr)
    \<and> emitRows (r_rt v) = tbl_emitRows (r_maskType rdr) (r_compositeRule rdr) (r_paintMode rdr)
    \<and> emitLine (r_rt v) = tbl_emitLine (r_compositeRule rdr) (r_paintMode rdr)
    \<and> colour_ok v \<and> layout_ok v"
proof -
  have ci: "control_inv TYPE_INT_ARGB_PRE rdr" using reachable_inv [OF assms(1)] assms(2) by simp
  have "r_state v \<inter> INVALID_BLITTING_MASK = {}"
    unfolding v_def acquire_validate_def by (rule VALIDATE_BLITTING_clears)
  with acquire_validate_facts [OF ci] show ?thesis by (simp add: v_def paint_ok_def)
qed

theorem validated_control_state_witness:
  "emitLine (r_rt (acquire_validate demo)) = Some Emit_LineSourceOver
    \<and> emitRows (r_rt (acquire_validate demo)) = Some Blit_SrcOver8888"
  using validated_control_state [OF demo_reachable]
  by (simp add: demo_defs table_defs)

section \<open>Rectangles\<close>








definition demo_linear :: "int renderer" where
  "demo_linear = the (renderer_setLinearGradient fx_flops 0 0 0x40000 0 (replicate 256 0xFF102030) identity6 demo)"


lemma demo_linear_fields:
  "r_paintMode demo_linear = PAINT_LINEAR_GRADIENT" "r_compositeRule demo_linear = COMPOSITE_SRC_OVER"
  "r_surface demo_linear = demo_surface" "g_colors (r_gr demo_linear) = replicate 256 0xFF102030"
  "g_cycleMethod (r_gr demo_linear) = 0" "r_clip_bbMinX demo_linear = 0" "r_clip_bbMinY demo_linear = 0"
  "r_clip_bbMaxX demo_linear = 3" "r_clip_bbMaxY demo_linear = 3"
  by (simp_all add: demo_linear_def renderer_setLinearGradient_def demo_defs zero_gradient_def i32_def)


text \<open>
  A rectangle that the clip leaves empty draws nothing: the call only records the rectangle's
  origin for the texture paint.
\<close>

theorem fillRect_clipped_away:
  assumes "rect_spans rdr x y w h lE rE tE bE = ((x0, x1, l, r), (y0, y1, t, b))" "x1 < x0 \<or> y1 < y0"
  shows "fillRect F rdr x y w h lE rE tE bE = Some (rdr\<lparr>r_rectX := sar 16 x, r_rectY := sar 16 y\<rparr>)"
  using fillRect_empty [OF assms] by (simp add: rect_rdr_def)

theorem fillRect_clipped_away_witness:
  "fillRect fx_flops demo 0x50000 0 0x20000 0x18000 0 0 0 0 = Some (demo\<lparr>r_rectX := 5, r_rectY := 0\<rparr>)"
  by (subst fillRect_clipped_away [where ?x0.0 = 5 and ?x1.0 = 3 and l = 0 and r = 0 and ?y0.0 = 0
        and ?y1.0 = 1 and t = 0 and b = "0x8000"])
    (simp_all add: demo_defs rect_spans_def axis_span_def join_edges_def sar_def i32_def)

section \<open>Lines and rows\<close>

definition demo_row :: "int renderer" where
  "demo_row = (started demo 1 2 0 0x8000 0x4000)\<lparr>r_paint := [0x80402010, 0xFF102030]\<rparr>"

text \<open>The demo renderer after a revalidation.\<close>

lemma demo_layout:
  "r_surface (acquire_validate demo) = demo_surface" "r_data (acquire_validate demo) = replicate 16 0"
  "colour_bytes (acquire_validate demo)"
proof -
  note f = acquire_validate_facts [OF demo_inv]
  show s: "r_surface (acquire_validate demo) = demo_surface" using f(3) by (simp add: demo_defs)
  show "r_data (acquire_validate demo) = replicate 16 0"
    using f(1) s by (simp add: layout_ok_def demo_surface_def Let_def)
  have "r_ured (acquire_validate demo) = 200 \<and> r_ugreen (acquire_validate demo) = 100
      \<and> r_ublue (acquire_validate demo) = 50 \<and> r_ualpha (acquire_validate demo) = 128"
    by (simp add: acquire_validate_def VALIDATE_other_fields INVALIDATE_RENDERER_SURFACE_def demo_defs)
  moreover have "r_compositeRule (acquire_validate demo) = COMPOSITE_SRC_OVER" using f(5) by (simp add: demo_defs)
  ultimately show "colour_bytes (acquire_validate demo)"
    using f(2) by (simp add: colour_ok_def colour_bytes_def byte_def)
qed

lemma demo_row_fields:
  "r_imagePixelStride demo_row = 1" "r_minTouched demo_row = 1" "r_maxTouched demo_row = 2"
  "r_alphaWidth demo_row = 2" "r_imageScanlineStride demo_row = 4" "r_currImageOffset demo_row = 0"
  "r_el_lfrac demo_row = 0x8000" "r_el_rfrac demo_row = 0x4000" "r_data demo_row = replicate 16 0"
  "r_paint demo_row = [0x80402010, 0xFF102030]" "colour_bytes demo_row"
  using demo_layout
  by (simp_all add: demo_row_def started_def start_rect_def demo_surface_def i32_def colour_bytes_def)

lemma demo_row_fit: "line_fit demo_row 1" "paint_fit demo_row 1" "paint_premult demo_row 1" "blit_fit demo_row"
proof -
  show "line_fit demo_row 1" "paint_fit demo_row 1" "blit_fit demo_row"
    by (simp_all add: line_fit_def paint_fit_def blit_fit_def demo_row_fields nz_def)
  have "premult 0x80402010" "premult 0xFF102030" by (simp_all add: premult_def chA_def chR_def chG_def chB_def)
  moreover have "k = 0 \<or> k = 1" if "0 \<le> k" "k < 2" for k :: int using that by linarith
  ultimately show "paint_premult demo_row 1" by (fastforce simp: paint_premult_def demo_row_fields)
qed

text \<open>
  C15. The source-over line emitter, with its fast path for opaque colours, its two fractional edge
  columns and its unrolled middle, is one blend per pixel of its rectangle and nothing else.
\<close>

theorem emitLineSourceOver_exact:
  assumes "line_fit rdr height" "colour_bytes rdr"
  shows "\<exists>d. emitLineSourceOver8888_pre rdr height fr = Some (rdr\<lparr>r_data := d\<rparr>) \<and>
    rect_map (r_currImageOffset rdr) (r_imageScanlineStride rdr) (r_minTouched rdr) (r_alphaWidth rdr) height
      (\<lambda>j i. blendSrcOver8888_pre (over_alpha rdr fr i) (r_cred rdr) (r_cgreen rdr) (r_cblue rdr)) (r_data rdr) d"
  by (rule emitLineSourceOver_rect [OF assms])

theorem emitLineSourceOver_exact_witness:
  "\<exists>d. emitLineSourceOver8888_pre demo_row 1 0x10000 = Some (demo_row\<lparr>r_data := d\<rparr>) \<and>
    rect_map 0 4 1 2 1 (\<lambda>j i. blendSrcOver8888_pre (over_alpha demo_row 0x10000 i) (r_cred demo_row)
      (r_cgreen demo_row) (r_cblue demo_row)) (replicate 16 0) d"
  using emitLineSourceOver_exact [OF demo_row_fit(1) demo_row_fields(11), of "0x10000"]
  by (simp add: demo_row_fields)

text \<open>
  The painted source-over emitter tells transparent, opaque and translucent paint apart and has a
  separate loop for full coverage; all of it equals the one general blend of the pixel's paint and
  coverage, for any premultiplied paint.
\<close>

theorem emitLinePTSourceOver_exact:
  assumes "line_fit rdr height" "paint_fit rdr height" "paint_premult rdr height" "0 \<le> fr" "fr \<le> 65536"
  shows "\<exists>d. emitLinePTSourceOver8888_pre rdr height fr = Some (rdr\<lparr>r_data := d\<rparr>) \<and>
    rect_map (r_currImageOffset rdr) (r_imageScanlineStride rdr) (r_minTouched rdr) (r_alphaWidth rdr) height
      (ptover_pix rdr fr) (r_data rdr) d"
  by (rule emitLinePTSourceOver_rect [OF assms])

theorem emitLinePTSourceOver_exact_witness:
  "\<exists>d. emitLinePTSourceOver8888_pre demo_row 1 0x8000 = Some (demo_row\<lparr>r_data := d\<rparr>) \<and>
    rect_map 0 4 1 2 1 (ptover_pix demo_row 0x8000) (replicate 16 0) d"
  using emitLinePTSourceOver_exact [OF demo_row_fit(1-3), of "0x8000"] by (simp add: demo_row_fields)

text \<open>
  C16. An antialiased row decodes the running sum of the coverage deltas: every touched pixel is
  blended by its coverage, no other pixel changes, and the deltas of the row are zero afterwards, ready
  for the next row.
\<close>

theorem blitSrcOver_row_and_clear:
  assumes "blit_fit rdr" "aa_ready rdr" "map_zero rdr" "colour_bytes rdr"
  shows "\<exists>aa d. blitSrcOver8888_pre rdr 1 = Some (rdr\<lparr>r_rowAAInt := aa, r_data := d\<rparr>) \<and>
    slice_map 0 (r_alphaWidth rdr) (\<lambda>i v. 0) (r_rowAAInt rdr) aa \<and>
    rect_map (r_currImageOffset rdr) (r_imageScanlineStride rdr) (r_minTouched rdr) (r_alphaWidth rdr) 1
      (\<lambda>j k. over_pix aa_cover rdr k) (r_data rdr) d"
  using bl_over.draws_and_clears [OF assms(1)] assms(2-) by simp

definition demo_aa :: "int renderer" where
  "demo_aa = demo_row\<lparr>r_alphaMap := [0, 128, 255], r_rowAAInt := [1, 1, - 2],
     r_mask_byteData := [9, 128, 255, 255], r_maskOffset := 1\<rparr>"

lemma demo_aa_ready: "blit_fit demo_aa" "aa_ready demo_aa" "map_zero demo_aa" "colour_bytes demo_aa" "mask_ready demo_aa"
proof -
  show "blit_fit demo_aa" "map_zero demo_aa" "colour_bytes demo_aa" "mask_ready demo_aa"
    using demo_row_fit(4) demo_row_fields(11)
    by (simp_all add: demo_aa_def blit_fit_def map_zero_def colour_bytes_def mask_ready_def demo_row_fields)
  have "k = 0 \<or> k = 1" if "0 \<le> k" "k < 2" for k :: int using that by linarith
  then show "aa_ready demo_aa"
    by (fastforce simp: aa_ready_def demo_aa_def demo_row_fields psum_def in_arr_def)
qed

theorem blitSrcOver_row_and_clear_witness:
  "\<exists>aa d. blitSrcOver8888_pre demo_aa 1 = Some (demo_aa\<lparr>r_rowAAInt := aa, r_data := d\<rparr>) \<and>
    slice_map 0 2 (\<lambda>i v. 0) [1, 1, - 2] aa"
  using blitSrcOver_row_and_clear [OF demo_aa_ready(1-4)] by (auto simp: demo_aa_def demo_row_fields)

text \<open>
  C17. The two representations of coverage agree: where a mask holds the coverage that the deltas and
  the alpha map describe, the masked and the antialiased blitter produce the same pixels.
\<close>

theorem mask_equals_antialiased:
  assumes "blit_fit rdr" "aa_ready rdr" "map_zero rdr" "mask_ready rdr" "colour_bytes rdr"
    and "\<forall>k. 0 \<le> k \<and> k < r_alphaWidth rdr \<longrightarrow> mask_cover rdr k = aa_cover rdr k"
  shows "map_option r_data (blitSrcOverMask8888_pre rdr 1) = map_option r_data (blitSrcOver8888_pre rdr 1)"
proof -
  obtain aa d where a: "blitSrcOver8888_pre rdr 1 = Some (rdr\<lparr>r_rowAAInt := aa, r_data := d\<rparr>)"
    "line_rect rdr (r_alphaWidth rdr) 1 (\<lambda>j. over_pix aa_cover rdr) d"
    using bl_over.draws_row [OF assms(1)] assms by blast
  obtain e where m: "blitSrcOverMask8888_pre rdr 1 = Some (rdr\<lparr>r_data := e\<rparr>)"
    "line_rect rdr (r_alphaWidth rdr) 1 (\<lambda>j. over_pix mask_cover rdr) e"
    using bl_overmask.draws_masked [OF assms(1)] assms by blast
  have "line_rect rdr (r_alphaWidth rdr) 1 (\<lambda>j. over_pix aa_cover rdr) e"
    by (rule line_rect_cong [OF m(2)]) (use assms(6) in \<open>simp add: over_pix_def\<close>)
  with a(2) have "d = e" by (rule rect_map_unique)
  with a(1) m(1) show ?thesis by simp
qed

theorem mask_equals_antialiased_witness:
  "map_option r_data (blitSrcOverMask8888_pre demo_aa 1) = map_option r_data (blitSrcOver8888_pre demo_aa 1)"
proof (rule mask_equals_antialiased [OF demo_aa_ready(1-3,5,4)], intro allI impI)
  fix k assume "0 \<le> k \<and> k < r_alphaWidth demo_aa"
  then have "k = 0 \<or> k = 1" by (auto simp: demo_aa_def demo_row_fields)
  then show "mask_cover demo_aa k = aa_cover demo_aa k"
    by (auto simp: mask_cover_def aa_cover_def demo_aa_def psum_def nat_numeral)
qed

lemma slice_zeros:
  assumes "n \<le> int (length xs)" "slice_map 0 n (\<lambda>i v. 0) xs ys"
  shows "ys = replicate (nat n) 0 @ drop (nat n) xs"
proof (rule nth_equalityI)
  show "length ys = length (replicate (nat n) 0 @ drop (nat n) xs)" using assms slice_map_length [OF assms(2)] by auto
  fix k assume "k < length ys"
  then show "ys ! k = (replicate (nat n) 0 @ drop (nat n) xs) ! k"
    using slice_map_nth [OF assms(2), of k] slice_map_length [OF assms(2)] by (auto simp: nth_append)
qed

text \<open>
  C18. The whole call \<^verbatim>\<open>emitAndClearAlphaRowImpl\<close> under a flat colour: the row is clipped to the clip
  box, its pixels are blended by their coverage times the colour's alpha and nothing else of the surface
  changes. The coverage of the first drawn column is the first delta even if the clip cut columns off on
  the left, and only as many deltas as columns are drawn come back as zeros: those behind them stay, for
  the caller to add to its next row.
\<close>

theorem alpha_row_call:
  assumes "reachable F surf rdr" "s_imageType surf = TYPE_INT_ARGB_PRE" "canvas rdr"
    and "r_maskType rdr = NO_MASK" "r_compositeRule rdr = COMPOSITE_SRC_OVER" "r_paintMode rdr = PAINT_FLAT_COLOR"
    and "byte (r_ured rdr)" "byte (r_ugreen rdr)" "byte (r_ublue rdr)" "byte (r_ualpha rdr)"
    and "max xf (r_clip_bbMinX rdr) = x0" "min xt (r_clip_bbMaxX rdr) = x1" "x0 \<le> x1"
    and "r_clip_bbMinY rdr \<le> y" "y \<le> r_clip_bbMaxY rdr" "row_input alphaMap alphaRow (x1 - x0 + 1)"
  shows "\<exists>r' aa. emitAndClearAlphaRowImpl F gs rdr alphaMap alphaRow y xf xt rowNum = Some (r', aa) \<and>
    aa = replicate (nat (x1 - x0 + 1)) 0 @ drop (nat (x1 - x0 + 1)) alphaRow \<and>
    rect_map (y * s_width (r_surface rdr)) (s_width (r_surface rdr)) x0 (x1 - x0 + 1) 1
      (\<lambda>j k. blendSrcOver8888_pre ((uint (alphaMap ! nat (psum alphaRow (k + 1))) + 1) * r_ualpha rdr div 256)
        (r_ured rdr) (r_ugreen rdr) (r_ublue rdr)) (s_data (r_surface rdr)) (s_data (r_surface r'))"
proof -
  have ci: "control_inv TYPE_INT_ARGB_PRE rdr" using reachable_inv [OF assms(1)] assms(2) by simp
  have "x1 - x0 + 1 \<le> int (length alphaRow)" using assms(16) by (simp add: row_input_def)
  then have "aa = replicate (nat (x1 - x0 + 1)) 0 @ drop (nat (x1 - x0 + 1)) alphaRow"
    if "slice_map 0 (x1 - x0 + 1) (\<lambda>i v. 0) alphaRow aa" for aa
    by (rule slice_zeros [OF _ that])
  with emitAndClearAlphaRow_draws [OF ci assms(3-)] show ?thesis by blast
qed

lemma demo_row_input: "row_input [0, 128, 255] [1, 1, - 2] 2"
proof -
  have "k = 0 \<or> k = 1" if "0 \<le> k" "k < 2" for k :: int using that by linarith
  then show ?thesis by (fastforce simp: row_input_def psum_def in_arr_def)
qed

definition demo_gamma :: "int gamma_state" where
  "demo_gamma = \<lparr>currentGamma = 0, gammaArray = replicate 256 0, invGammaArray = replicate 256 0\<rparr>"

theorem alpha_row_call_witness:
  "\<exists>r' aa. emitAndClearAlphaRowImpl fx_flops demo_gamma demo [0, 128, 255] [1, 1, - 2] 1 (- 1) 1 0 = Some (r', aa)
    \<and> aa = [0, 0, - 2] \<and> s_data (r_surface r') ! 4 = blendSrcOver8888_pre 64 200 100 50 0"
proof -
  have e: "max (- 1) (r_clip_bbMinX demo) = 0" "min 1 (r_clip_bbMaxX demo) = 1" "r_clip_bbMinY demo = 0"
    "r_clip_bbMaxY demo = 3" by (simp_all add: demo_defs i32_def)
  have f: "s_imageType demo_surface = TYPE_INT_ARGB_PRE" "r_maskType demo = NO_MASK"
    "r_compositeRule demo = COMPOSITE_SRC_OVER" "r_paintMode demo = PAINT_FLAT_COLOR"
    "byte (r_ured demo)" "byte (r_ugreen demo)" "byte (r_ublue demo)" "byte (r_ualpha demo)"
    by (simp_all add: demo_defs byte_def)
  have d: "r_surface demo = demo_surface" "r_ured demo = 200" "r_ugreen demo = 100" "r_ublue demo = 50" "r_ualpha demo = 128"
    by (simp_all add: demo_defs)
  obtain r' aa where r: "emitAndClearAlphaRowImpl fx_flops demo_gamma demo [0, 128, 255] [1, 1, - 2] 1 (- 1) 1 0 = Some (r', aa)"
    "aa = [0, 0, - 2]" "rect_map 4 4 0 2 1 (\<lambda>j k. blendSrcOver8888_pre
      ((uint (([0, 128, 255] :: jbyte list) ! nat (psum [1, 1, - 2] (k + 1))) + 1) * 128 div 256) 200 100 50)
      (replicate 16 0) (s_data (r_surface r'))"
    using alpha_row_call [OF demo_reachable f(1) demo_canvas f(2-) e(1,2), of 1 "[0, 128, 255]" "[1, 1, - 2]" demo_gamma 0]
      e(3,4) demo_row_input unfolding d by (auto simp: demo_surface_def eval_nat_numeral)
  have "s_data (r_surface r') ! 4 = blendSrcOver8888_pre 64 200 100 50 0"
    using rect_map_at [OF r(3), of 4 0 0] by (simp add: psum_def)
  with r show ?thesis by blast
qed

text \<open>
  C19. \<^verbatim>\<open>clearRectImpl\<close> fills the clipped rectangle with the packed internal colour, which is the user's
  colour unless the rule is CLEAR, and changes no other pixel, on its \<^verbatim>\<open>memset\<close> path, its row-wise path
  and its \<^verbatim>\<open>memcpy\<close> path. \<^verbatim>\<open>PiscesRenderer.clearRect\<close> documents transparent black instead; the witness clears
  to 0x80C86432.
\<close>

theorem clearRect_exact:
  assumes "reachable F surf rdr" "s_imageType surf = TYPE_INT_ARGB_PRE" "canvas rdr" "dense (r_surface rdr)"
    and "is_jint (x + w - 1)" "is_jint (y + h - 1)"
    and "clear_span x w (r_clip_bbMinX rdr) (r_clip_bbMaxX rdr) = (x0, x1)"
      "clear_span y h (r_clip_bbMinY rdr) (r_clip_bbMaxY rdr) = (y0, y1)" "x0 \<le> x1" "y0 \<le> y1"
  shows "\<exists>r'. clearRectImpl rdr x y w h = Some r' \<and>
    rect_map (y0 * s_width (r_surface rdr)) (s_width (r_surface rdr)) x0 (x1 - x0 + 1) (y1 - y0 + 1)
      (\<lambda>j i p. let v = clear_rdr rdr in pack (r_calpha v) (r_cred v) (r_cgreen v) (r_cblue v))
      (s_data (r_surface rdr)) (s_data (r_surface r'))"
  unfolding Let_def
  using reachable_inv [OF assms(1)] assms(2) by (intro clearRectImpl_fills [OF _ assms(3-)]) simp

theorem clearRect_exact_witness:
  "\<exists>r'. clearRectImpl demo 1 (- 1) 2 3 = Some r' \<and> s_data (r_surface r') ! 0 = 0
    \<and> s_data (r_surface r') ! 5 = 0x80C86432"
proof -
  have f: "s_imageType demo_surface = TYPE_INT_ARGB_PRE" "dense (r_surface demo)"
    "is_jint (1 + 2 - 1)" "is_jint (- 1 + 3 - 1)"
    "clear_span 1 2 (r_clip_bbMinX demo) (r_clip_bbMaxX demo) = (1, 2)"
    "clear_span (- 1) 3 (r_clip_bbMinY demo) (r_clip_bbMaxY demo) = (0, 1)"
    and s: "r_surface demo = demo_surface"
    by (simp_all add: demo_defs dense_def is_jint_def clear_span_def i32_def)
  have "colour_ok (clear_rdr demo)" "r_compositeRule (clear_rdr demo) = COMPOSITE_SRC_OVER"
    using clear_rdr_facts [OF demo_inv] by (simp_all add: demo_defs)
  moreover have "r_ured (clear_rdr demo) = 200" "r_ugreen (clear_rdr demo) = 100" "r_ublue (clear_rdr demo) = 50"
    "r_ualpha (clear_rdr demo) = 128"
    by (simp_all add: clear_rdr_def VALIDATE_other_fields INVALIDATE_RENDERER_SURFACE_def demo_defs)
  ultimately have c: "pack (r_calpha (clear_rdr demo)) (r_cred (clear_rdr demo)) (r_cgreen (clear_rdr demo))
      (r_cblue (clear_rdr demo)) = 0x80C86432"
    by (simp add: colour_ok_def pack_def)
  obtain r' where r: "clearRectImpl demo 1 (- 1) 2 3 = Some r'"
    "rect_map 0 4 1 2 2 (\<lambda>j i p. 0x80C86432) (replicate 16 0) (s_data (r_surface r'))"
    using clearRect_exact [OF demo_reachable f(1) demo_canvas f(2-)] unfolding Let_def c s
    by (auto simp: demo_surface_def)
  have "s_data (r_surface r') ! 0 = 0" "s_data (r_surface r') ! 5 = 0x80C86432"
    using r(2) by (auto simp: rect_map_def Let_def)
  with r(1) show ?thesis by blast
qed

text \<open>
  C22. Subpixel text leaves every pixel it touches opaque, for every gamma table of bytes, and never
  indexes a table or the mask out of bounds.
\<close>

theorem lcd_row_opaque:
  assumes "blit_fit rdr" "lcd_ready gs rdr"
  shows "\<exists>d. blitSrcOverLCDMask8888_pre gs rdr 1 = Some (rdr\<lparr>r_data := d\<rparr>) \<and> length d = length (r_data rdr) \<and>
    (\<forall>k. 0 \<le> k \<and> k < r_alphaWidth rdr \<longrightarrow>
      chA (d ! nat (r_currImageOffset rdr + r_minTouched rdr + k)) = 255)"
proof -
  obtain d where d: "blitSrcOverLCDMask8888_pre gs rdr 1 = Some (rdr\<lparr>r_data := d\<rparr>)"
    "line_rect rdr (r_alphaWidth rdr) 1 (\<lambda>j. lcd_pix gs rdr) d"
    using bl_lcd.draws_masked [OF assms] by blast
  have g: "gamma_ok gs" "colour_bytes rdr" using assms(2) by (simp_all add: lcd_ready_def)
  have inv: "byte (invGammaArray gs ! nat c)" if "byte c" for c
    using gamma_rd [OF g(1) that] that by (auto simp: rd_def byte_def in_arr_def split: if_splits)
  have op: "chA (lcd_pix gs rdr k p) = 255" for k p
    using g(2) unfolding lcd_pix_def Let_def colour_bytes_def
    by (intro lcd_cover_ok(2) [OF g(1)]) (simp_all add: inv)
  have "chA (d ! nat (r_currImageOffset rdr + r_minTouched rdr + k)) = 255"
    if "0 \<le> k" "k < r_alphaWidth rdr" for k
    using rect_map_nth [OF d(2), of 0 k] assms(1) that op by (simp add: blit_fit_def)
  with d rect_map_length [OF d(2)] show ?thesis by blast
qed

theorem lcd_row_opaque_witness:
  "\<exists>d. blitSrcOverLCDMask8888_pre demo_gamma (demo_row\<lparr>r_mask_byteData := [9, 255, 128, 0, 1, 2, 3], r_maskOffset := 1\<rparr>) 1
      = Some (demo_row\<lparr>r_mask_byteData := [9, 255, 128, 0, 1, 2, 3], r_maskOffset := 1, r_data := d\<rparr>)
    \<and> chA (d ! 1) = 255 \<and> chA (d ! 2) = 255"
proof -
  let ?r = "demo_row\<lparr>r_mask_byteData := [9, 255, 128, 0, 1, 2, 3], r_maskOffset := 1\<rparr>"
  have "blit_fit ?r" "colour_bytes ?r"
    using demo_row_fit(4) demo_row_fields(11) by (simp_all add: blit_fit_def colour_bytes_def)
  then have "blit_fit ?r" "lcd_ready demo_gamma ?r"
    by (simp_all add: lcd_ready_def gamma_ok_def demo_gamma_def demo_row_fields byte_def)
  from lcd_row_opaque [OF this] obtain d where
    d: "blitSrcOverLCDMask8888_pre demo_gamma ?r 1 = Some (?r\<lparr>r_data := d\<rparr>)"
      "\<forall>k. 0 \<le> k \<and> k < 2 \<longrightarrow> chA (d ! nat (1 + k)) = 255"
    by (auto simp: demo_row_fields)
  from d(2) [rule_format, of 0] d(2) [rule_format, of 1] have "chA (d ! 1) = 255" "chA (d ! 2) = 255"
    by (simp_all add: numeral_eq_Suc)
  with d(1) show ?thesis by auto
qed

section \<open>Pixels\<close>

text \<open>
  C23. Source-over blending keeps the invariant of the surface format: from a premultiplied pixel and
  any colour and coverage it makes a premultiplied pixel.
\<close>

theorem source_over_keeps_premultiplied:
  assumes "byte aval" "byte r" "byte g" "byte b" "premult p"
  shows "premult (blendSrcOver8888_pre aval r g b p)"
  by (rule blendSrcOver_premult [OF assms])

theorem source_over_keeps_premultiplied_witness: "premult (blendSrcOver8888_pre 128 200 100 50 0x80402010)"
  by (rule source_over_keeps_premultiplied)
    (simp_all add: byte_def premult_def chA_def chR_def chG_def chB_def)

text \<open>
  The multiply-and-shift of \<^verbatim>\<open>div255\<close> is the exact division by 255 for every product of two
  channel values, and a weighted sum of two channels whose weights are \<open>a\<close> and \<open>255 - a\<close> stays a byte.
\<close>

theorem div255_exact_on_products:
  assumes "byte a" "byte s" "byte d"
  shows "div255 (s * a) = s * a div 255 \<and> div255 (s * a + (255 - a) * d) = (s * a + (255 - a) * d) div 255
    \<and> byte (div255 (s * a + (255 - a) * d))"
proof -
  have "s * a \<le> 255 * 255" using assms by (intro mult_mono) (simp_all add: byte_def)
  moreover have "0 \<le> s * a" using assms by (simp add: byte_def)
  moreover have "0 \<le> s * a + (255 - a) * d" "s * a + (255 - a) * d \<le> 65025"
    using weighted_bound [of a s d "255 - a"] assms by (simp_all add: byte_def)
  moreover have "byte (div255 (s * a + (255 - a) * d))"
    using weighted_byte [of a s d "255 - a"] assms by (simp add: byte_def)
  ultimately show ?thesis by (simp add: div255_exact)
qed

theorem div255_exact_on_products_witness: "div255 (200 * 77) = 60 \<and> byte (div255 (200 * 77 + (255 - 77) * 33))"
  using div255_exact_on_products [of 77 200 33] by (simp add: byte_def)

section \<open>Paint generators\<close>

text \<open>
  Filling the paint buffer from a linear gradient is memory safe and ends for every arithmetic the
  gradient is computed with, not-a-number and overflow included; every pixel of the block is a colour
  of the gradient's table.
\<close>

theorem linear_gradient_safe:
  assumes "gradient_ok (r_gr rdr)" "0 \<le> r_alphaWidth rdr" "paint_fit rdr height"
  shows "\<exists>paint. genLinearGradientPaint F rdr height = Some (rdr\<lparr>r_paint := paint\<rparr>) \<and>
    length paint = length (r_paint rdr) \<and>
    block_ok (r_alphaWidth rdr) (height * r_alphaWidth rdr) (\<lambda>j i c. c \<in> set (g_colors (r_gr rdr))) paint"
  by (rule genLinear_total [OF assms])

definition demo_gen :: "int renderer" where
  "demo_gen = demo_linear\<lparr>r_paint := [1, 2, 3, 4, 5, 6], r_alphaWidth := 3\<rparr>"

lemma demo_gen_ok: "gradient_ok (r_gr demo_gen)" "0 \<le> r_alphaWidth demo_gen" "paint_fit demo_gen 2"
  by (simp_all add: demo_gen_def gradient_ok_def demo_linear_fields paint_fit_def)

lemma block_six: "block_ok 3 6 (\<lambda>j i c. c \<in> {v}) paint \<Longrightarrow> length paint = 6 \<Longrightarrow> paint = replicate 6 v"
proof (rule nth_equalityI, goal_cases)
  case (2 i)
  from 2(1) have "paint ! nat (int i) \<in> {v}" using 2 unfolding block_ok_def by (metis of_nat_0_le_iff of_nat_less_iff of_nat_numeral length_replicate)
  with 2 show ?case by simp
qed simp

theorem linear_gradient_safe_witness:
  "genLinearGradientPaint fx_flops demo_gen 2 = Some (demo_gen\<lparr>r_paint := replicate 6 0xFF102030\<rparr>)"
proof -
  obtain p where p: "genLinearGradientPaint fx_flops demo_gen 2 = Some (demo_gen\<lparr>r_paint := p\<rparr>)"
    "length p = 6" "block_ok 3 6 (\<lambda>j i c. c \<in> {0xFF102030}) p"
    using linear_gradient_safe [OF demo_gen_ok, of fx_flops] by (auto simp: demo_gen_def demo_linear_fields)
  with block_six show ?thesis by blast
qed

text \<open>C24. Whatever the arithmetic gives, the radial gradient, whose loop extrapolates a quadratic under a
  square root, never indexes outside of its colour table or paint buffer, and it ends.\<close>

theorem radial_gradient_safe:
  assumes "gradient_ok (r_gr rdr)" "0 \<le> r_alphaWidth rdr" "paint_fit rdr height"
  shows "\<exists>paint. genRadialGradientPaint F rdr height = Some (rdr\<lparr>r_paint := paint\<rparr>) \<and>
    length paint = length (r_paint rdr) \<and>
    block_ok (r_alphaWidth rdr) (height * r_alphaWidth rdr) (\<lambda>j i c. c \<in> set (g_colors (r_gr rdr))) paint"
  by (rule genRadial_total [OF assms])

theorem radial_gradient_safe_witness:
  "genRadialGradientPaint fx_flops demo_gen 2 = Some (demo_gen\<lparr>r_paint := replicate 6 0xFF102030\<rparr>)"
proof -
  obtain p where p: "genRadialGradientPaint fx_flops demo_gen 2 = Some (demo_gen\<lparr>r_paint := p\<rparr>)"
    "length p = 6" "block_ok 3 6 (\<lambda>j i c. c \<in> {0xFF102030}) p"
    using radial_gradient_safe [OF demo_gen_ok, of fx_flops] by (auto simp: demo_gen_def demo_linear_fields)
  with block_six show ?thesis by blast
qed

text \<open>
  The cycle methods: the padded coordinate is always a 16-bit fraction, clamped for NONE, periodic
  with period one for REPEAT and a triangle wave of period two for REFLECT.
\<close>

theorem pad_cycles:
  assumes "is_jint x"
  shows "pad x CYCLE_NONE = max 0 (min 65535 x) \<and> pad x CYCLE_REPEAT = x mod 65536
    \<and> pad x CYCLE_REFLECT = min (\<bar>x\<bar> mod 131072) (131071 - \<bar>x\<bar> mod 131072)"
  using pad_none [of x] pad_reflect [OF assms] by (simp add: pad_def Let_def)

theorem pad_cycles_witness:
  "pad (- 70000) CYCLE_NONE = 0 \<and> pad (- 70000) CYCLE_REPEAT = 61072 \<and> pad (- 70000) CYCLE_REFLECT = 61071"
  using pad_cycles [of "- 70000"] by (simp add: is_jint_def)

section \<open>Textures\<close>

text \<open>
  C25. The bilinear fetch distinguishes four cases of zero fractions; each is the four-point
  interpolation, so skipping it never changes the pixel, and its result stays premultiplied.
\<close>

theorem bilinear_fetch:
  assumes "tex_ok T" "tex_coord T tx ty" "frac16 h" "frac16 v"
  shows "\<exists>p00 p0 p1 p2. fetch_points rep T tx ty = Some (p00, p0, p1, p2)
    \<and> fetch_alpha rep T tx ty h v = Some (interpolate4points p00 p0 p1 p2 h v)
    \<and> (premult_tex T \<longrightarrow> premult (interpolate4points p00 p0 p1 p2 h v))"
proof -
  obtain p00 p0 p1 p2 where p: "fetch_points rep T tx ty = Some (p00, p0, p1, p2)"
    using fetch_points_ok [OF assms(1,2)] by blast
  with fetch_alpha_ok [OF assms, of rep] show ?thesis by auto
qed

definition demo_texture :: texture where
  "demo_texture = zero_texture\<lparr>t_intData := [0, 0xFF0000FF, 0x80808080, 0], t_imageWidth := 2,
     t_imageHeight := 2, t_stride := 2, t_txMax := 1, t_tyMax := 1,
     t_m00 := 65536, t_m11 := 65536, t_m02 := 32768, t_m12 := 16384, t_interpolate := True, t_hasAlpha := True,
     t_transformType := TEXTURE_TRANSFORM_TRANSLATE\<rparr>"

lemma demo_texture_ok: "tex_ok demo_texture" "unit_scale demo_texture" "premult_tex demo_texture"
  by (simp_all add: demo_texture_def tex_ok_def tex_fits_def zero_texture_def unit_scale_def premult_tex_def premult_def
      chA_def chR_def chG_def chB_def)

theorem bilinear_fetch_witness:
  "fetch_alpha False demo_texture 0 0 0x8000 0x4000
     = Some (interpolate4points 0 0xFF0000FF 0x80808080 0 0x8000 0x4000)"
proof -
  have "tex_coord demo_texture 0 0" by (simp add: tex_coord_def demo_texture_def)
  from bilinear_fetch [OF demo_texture_ok(1) this, of "0x8000" "0x4000" False]
  show ?thesis
    by (auto simp: frac16_def fetch_points_def getPointsToInterpolate_def demo_texture_def rd_def in_arr_def i32_def nat_numeral
      split: if_splits)
qed


definition demo_tex :: "int renderer" where
  "demo_tex = demo\<lparr>r_tx := demo_texture, r_alphaWidth := 3, r_currX := - 1\<rparr>"




text \<open>
  An untransformed repeating texture tiles the plane: pixel \<open>(x, y)\<close> of the block is the texel at
  \<open>(x mod width, y mod height)\<close>, though the loop only ever increments and wraps its pointers.
\<close>

theorem identity_texture_tiles:
  assumes "tex_fits (r_tx rdr)" "0 \<le> r_alphaWidth rdr" "0 \<le> r_currX rdr" "0 \<le> r_currY rdr"
    and "height * r_alphaWidth rdr \<le> int (length paint)"
  shows "\<exists>paint'. identity_repeat rdr paint height = Some paint' \<and> length paint' = length paint \<and>
    block_ok (r_alphaWidth rdr) (height * r_alphaWidth rdr)
      (\<lambda>j i c. rd (t_intData (r_tx rdr)) ((r_currY rdr + j) mod t_imageHeight (r_tx rdr) * t_stride (r_tx rdr)
                 + (r_currX rdr + i) mod t_imageWidth (r_tx rdr)) = Some c) paint'"
  by (rule identity_repeat_tiles [OF assms])

theorem identity_texture_tiles_witness:
  "\<exists>p. identity_repeat (demo_tex\<lparr>r_currX := 5, r_currY := 3\<rparr>) (replicate 6 0) 2 = Some p
    \<and> p ! 0 = 0 \<and> p ! 4 = 0"
proof -
  have d: "r_tx (demo_tex\<lparr>r_currX := 5, r_currY := 3\<rparr>) = demo_texture"
    "r_alphaWidth (demo_tex\<lparr>r_currX := 5, r_currY := 3\<rparr>) = 3" by (simp_all add: demo_tex_def)
  obtain p where p: "identity_repeat (demo_tex\<lparr>r_currX := 5, r_currY := 3\<rparr>) (replicate 6 0) 2 = Some p"
    "block_ok 3 6 (\<lambda>j i c. rd (t_intData demo_texture) ((3 + j) mod 2 * 2 + (5 + i) mod 2) = Some c) p"
    using identity_texture_tiles [of "demo_tex\<lparr>r_currX := 5, r_currY := 3\<rparr>" 2 "replicate 6 0"] tex_ok_fits [OF demo_texture_ok(1)]
    unfolding d by (auto simp: demo_texture_def)
  note b = p(2) [unfolded block_ok_def, rule_format]
  have "p ! 0 = 0" "p ! 4 = 0"
    using b [of 0] b [of 4] by (simp_all add: demo_texture_def rd_def in_arr_def nat_numeral)
  with p(1) show ?thesis by blast
qed

text \<open>
  The translation loop is an optimised scaling loop: with a unit matrix the two paint the same
  block, for any filter, any repetition and any translation, while the cursor fits in 16 bits.
\<close>

theorem translation_is_scaling:
  assumes "tex_fits (r_tx rdr)" "unit_scale (r_tx rdr)" "t_transformType (r_tx rdr) = TEXTURE_TRANSFORM_TRANSLATE"
    and "- 32768 \<le> r_currX rdr" "r_currX rdr < 32768" "- 32768 \<le> r_currY rdr" "r_currY rdr + height \<le> 32768"
  shows "genTexturePaintTarget rdr paint height =
    genTexturePaintTarget (rdr\<lparr>r_tx := (r_tx rdr)\<lparr>t_transformType := TEXTURE_TRANSFORM_SCALE_TRANSLATE\<rparr>\<rparr>) paint height"
  by (rule translate_is_scale [OF assms])

theorem translation_is_scaling_witness:
  "genTexturePaintTarget demo_tex (replicate 6 0) 2 =
    genTexturePaintTarget (demo_tex\<lparr>r_tx := demo_texture\<lparr>t_transformType := TEXTURE_TRANSFORM_SCALE_TRANSLATE\<rparr>\<rparr>)
      (replicate 6 0) 2"
proof -
  have "r_tx demo_tex = demo_texture" "t_transformType demo_texture = TEXTURE_TRANSFORM_TRANSLATE"
    "r_currX demo_tex = - 1" "r_currY demo_tex = 0"
    by (simp_all add: demo_tex_def demo_texture_def demo_defs)
  with translation_is_scaling [of demo_tex 2 "replicate 6 0"] tex_ok_fits [OF demo_texture_ok(1)] demo_texture_ok(2) show ?thesis by simp
qed

text \<open>
  The bounds check of the repeating loops is the code's "repeat once per pixel": it always lands
  inside of the texture or on the column before it, and a second check of what it returns changes nothing.
\<close>

theorem check_bounds_once:
  assumes "mn \<le> 0" "0 \<le> mx" "mx < 32767"
  shows "\<exists>a' la'. check_bounds rep (int_part la) la mn mx = Some (a', la') \<and> mn \<le> a' \<and> a' \<le> mx
    \<and> check_bounds rep (int_part la') la' mn mx = Some (a', la') \<and> frac_part la' = frac_part la"
proof -
  obtain a' la' where "check_bounds rep (int_part la) la mn mx = Some (a', la')" "mn \<le> a'" "a' \<le> mx"
    using check_bounds_range [OF assms] by blast
  with check_bounds_stable [OF assms] show ?thesis by blast
qed

theorem check_bounds_once_witness:
  "\<exists>a' la'. check_bounds True (int_part 700000) 700000 (- 1) 3 = Some (a', la') \<and> - 1 \<le> a' \<and> a' \<le> 3"
  using check_bounds_once [of "- 1" 3 True 700000] by auto

section \<open>Transforms and coordinates\<close>

text \<open>
  The identity matrix is neutral for the multiplication of S15.16 matrices on both sides, without
  loss by the 64-bit products and their shifts.
\<close>

theorem transform_identity:
  assumes "jint_transform t"
  shows "pisces_transform_multiply t identity6 = t \<and> pisces_transform_multiply identity6 t = t"
  using multiply_identity_left [OF assms] multiply_identity_right [OF assms] by simp

theorem transform_identity_witness:
  "pisces_transform_multiply \<lparr>m00 = 2147483647, m01 = - 5, m10 = 7, m11 = - 2147483648, m02 = 1, m12 = 9\<rparr> identity6
     = \<lparr>m00 = 2147483647, m01 = - 5, m10 = 7, m11 = - 2147483648, m02 = 1, m12 = 9\<rparr>"
  using transform_identity [of "\<lparr>m00 = 2147483647, m01 = - 5, m10 = 7, m11 = - 2147483648, m02 = 1, m12 = 9\<rparr>"]
  by (simp add: jint_transform_def is_jint_def)

lemma and_or_absorb: "(x AND (a OR b)) OR b = (x AND a) OR (b :: 32 word)"
  by (rule bit_word_eqI) (auto simp: bit_simps)

lemma float_bits:
  fixes ff :: "32 word"
  shows "uint ((ff AND 0xffffff) OR 0x800000) = uint (ff AND 0x7fffff) + 0x800000" "uint (ff AND 0x7fffff) < 0x800000"
proof -
  have e: "(ff AND 0xffffff) OR 0x800000 = (ff AND 0x7fffff) OR 0x800000"
    using and_or_absorb [of ff "0x7fffff" "0x800000"] by simp
  have d: "(ff AND 0x7fffff) AND 0x800000 = 0" by (simp add: and.assoc)
  have s: "(ff AND 0x7fffff) OR 0x800000 = (ff AND 0x7fffff) + 0x800000"
    using word_plus_and_or [of "ff AND 0x7fffff" "0x800000"] by (simp add: d)
  have "uint (ff AND 0x7fffff) \<le> uint (0x7fffff :: 32 word)"
    using word_and_le1 [of ff "0x7fffff"] by (simp add: word_le_def)
  then show m: "uint (ff AND 0x7fffff) < 0x800000" by simp
  then show "uint ((ff AND 0xffffff) OR 0x800000) = uint (ff AND 0x7fffff) + 0x800000"
    unfolding e s by (simp add: uint_word_ariths)
qed

lemma uint_drop: "uint (drop_bit n w) = uint w div 2 ^ n" for w :: "32 word"
proof -
  have "take_bit 32 (uint w) = uint w" using uint_lt2p [of w] by (intro take_bit_int_eq_self) simp_all
  then show ?thesis unfolding unsigned_drop_bit_eq by (simp add: drop_bit_eq_div [of n "uint w"])
qed

text \<open>The magnitude of the result, and the sign put back by complement and increment.\<close>

lemma pisces_magnitude:
  fixes g :: "32 word"
  assumes "uint g = m" "m < 0x1000000" "0 \<le> e"
  shows "134 \<le> e \<Longrightarrow> e \<le> 141 \<Longrightarrow> uint (push_bit (nat (e - 134)) g) = m * 2 ^ nat (e - 134)"
    "134 \<le> e \<Longrightarrow> e \<le> 141 \<Longrightarrow> m * 2 ^ nat (e - 134) < 2147483648"
    "e \<le> 134 \<Longrightarrow> uint (drop_bit (nat (134 - e)) g) = m div 2 ^ nat (134 - e)"
    "m div 2 ^ nat (134 - e) < 2147483648"
proof -
  have m0: "0 \<le> m" using assms(1) by auto
  show lt: "m * 2 ^ nat (e - 134) < 2147483648" if "134 \<le> e" "e \<le> 141"
  proof -
    have "(2::int) ^ nat (e - 134) \<le> 2 ^ 7" using that by (intro power_increasing) auto
    then have "m * 2 ^ nat (e - 134) \<le> m * 2 ^ 7" using m0 by (intro mult_left_mono)
    with assms(2) show ?thesis by simp
  qed
  show "uint (push_bit (nat (e - 134)) g) = m * 2 ^ nat (e - 134)" if "134 \<le> e" "e \<le> 141"
    using lt [OF that] m0 assms(1) by (simp add: unsigned_push_bit_eq take_bit_eq_mod push_bit_eq_mult [of _ m])
  show "uint (drop_bit (nat (134 - e)) g) = m div 2 ^ nat (134 - e)" if "e \<le> 134"
    using assms(1) by (simp only: uint_drop)
  have "m div 2 ^ nat (134 - e) \<le> m" using m0 zdiv_mono2 [of m 1 "2 ^ nat (134 - e)"] by simp
  with assms(2) show "m div 2 ^ nat (134 - e) < 2147483648" by simp
qed

lemma signed_result:
  fixes g sg :: "32 word"
  assumes "uint g < 2147483648"
  shows "sg = 0 \<Longrightarrow> sint ((g XOR (- sg)) + sg) = uint g" "sg = 1 \<Longrightarrow> sint ((g XOR (- sg)) + sg) = - uint g"
proof -
  have s: "sint g = uint g" proof -
    have "0 \<le> uint g" by simp
    then have "- (2 ^ 31) \<le> uint g" by (rule order_trans [rotated]) simp
    then show ?thesis unfolding sint_uint using assms by (intro signed_take_bit_int_eq_self) simp_all
  qed
  show "sint ((g XOR (- sg)) + sg) = uint g" if "sg = 0" using s that by simp
  have "g XOR (- 1) = NOT g" by (rule bit_word_eqI) (simp add: bit_simps)
  then have "(g XOR (- 1)) + 1 = - g" by (simp add: not_eq_complement)
  moreover have "sint (- g) = - uint g"
  proof -
    have "sint (- g) = signed_take_bit 31 (- sint g)" by (simp add: signed_take_bit_minus sint_word_ariths)
    also have "\<dots> = - uint g" unfolding s
    proof (rule signed_take_bit_int_eq_self)
      have "(2 :: int) ^ 31 = 2147483648" by simp
      with assms uint_ge_0 [of g] show "- (2 ^ 31) \<le> - uint g" "- uint g < 2 ^ 31" by linarith+
    qed
    finally show ?thesis .
  qed
  ultimately show "sint ((g XOR (- sg)) + sg) = - uint g" if "sg = 1" using that by simp
qed

text \<open>
  \<^verbatim>\<open>toPiscesCoords\<close> converts the bits of a \<^verbatim>\<open>float\<close> of exponent \<open>e\<close> and mantissa \<open>m\<close> to the
  S15.16 number nearest to zero, \<open>(2^23 + m) * 2^(e - 134)\<close> truncated and signed, for every magnitude
  from \<open>2^-24\<close> up to the largest that fits.
\<close>

theorem toPiscesCoords_value:
  assumes "e = uint (drop_bit 23 ff AND 0xff)" "m = uint (ff AND 0x7fffff)" "103 \<le> e" "e \<le> 141"
  defines "v \<equiv> (if 134 \<le> e then (0x800000 + m) * 2 ^ nat (e - 134) else (0x800000 + m) div 2 ^ nat (134 - e))"
  shows "toPiscesCoords ff = Some (if drop_bit 31 ff = 0 then v else - v)"
proof -
  let ?g = "(ff AND 0xffffff) OR 0x800000"
  have g: "uint ?g = 0x800000 + m" "0x800000 + m < 0x1000000"
    using float_bits [of ff] assms(2) by simp_all
  note mag = pisces_magnitude [OF g, of e]
  define w where "w = (if 134 - e < 0 then push_bit (nat (- (134 - e))) ?g else drop_bit (nat (134 - e)) ?g)"
  have w: "uint w = v" "v < 2147483648" using mag assms(3,4) by (auto simp: w_def v_def)
  have "ff \<noteq> 0" using assms(1,3) by auto
  then have "toPiscesCoords ff = Some (sint ((w XOR (- drop_bit 31 ff)) + drop_bit 31 ff))"
    using assms(1,3,4) by (simp add: toPiscesCoords_def Let_def w_def)
  moreover have "drop_bit 31 ff = 0 \<or> drop_bit 31 ff = 1"
  proof -
    have "uint (drop_bit 31 ff) < 2" using uint_lt2p [of ff] unfolding uint_drop by simp
    then have "uint (drop_bit 31 ff) = 0 \<or> uint (drop_bit 31 ff) = 1" using uint_ge_0 [of "drop_bit 31 ff"] by linarith
    then show ?thesis by (metis uint_0_iff uint_1_eq word_eq_iff_unsigned)
  qed
  ultimately show ?thesis using signed_result [of w] w by auto
qed

theorem toPiscesCoords_value_witness:
  "toPiscesCoords 0x3FC00000 = Some 0x18000 \<and> toPiscesCoords 0xC0400000 = Some (- 0x30000)"
  using toPiscesCoords_value [of 127 "0x3FC00000" "0x400000"] toPiscesCoords_value [of 128 "0xC0400000" "0x400000"]
  by simp

end
