(* ===== verification/Surface.thy ===== *)
theory Surface
  imports Renderer
begin

text \<open>
  Reading and writing the pixels of a surface from Java: \<^verbatim>\<open>getRGBImpl\<close> and \<^verbatim>\<open>setRGBImpl\<close> of
  \<^verbatim>\<open>native-prism-sw/JAbstractSurface.c\<close> with the copy loops of \<^verbatim>\<open>PiscesSurface.inl\<close> and the clipping
  macro of \<^verbatim>\<open>PiscesSurface.h\<close>. The Java array of the caller and the one of the surface are two
  arrays; the JNI calls that pin them succeed.
\<close>

section \<open>The code\<close>

text \<open>\<^verbatim>\<open>JavaSurface.initialize\<close>: the pixels live in the array \<open>dat\<close> of the Java object.\<close>

definition JavaSurface_initialize :: "jint \<Rightarrow> jint \<Rightarrow> jint \<Rightarrow> pixel list \<Rightarrow> surface" where
  "JavaSurface_initialize dataType width height dat =
     \<lparr>s_width = width, s_height = height, s_offset = 0, s_scanlineStride = width, s_pixelStride = 1,
      s_imageType = dataType, s_data = dat\<rparr>"

text \<open>
  The macro \<^verbatim>\<open>CORRECT_DIMS\<close>: the rectangle and the offset \<open>(x1, y1)\<close> into the caller's array, which
  starts at \<open>(0, 0)\<close>.
\<close>

definition CORRECT_DIMS ::
  "surface \<Rightarrow> jint \<Rightarrow> jint \<Rightarrow> jint \<Rightarrow> jint \<Rightarrow> jint \<times> jint \<times> jint \<times> jint \<times> jint \<times> jint" where
  "CORRECT_DIMS s x y w h =
    (let (x1, w, x) = (if x < 0 then (i32 (0 - x), i32 (w + x), 0) else (0, w, x));
         (y1, h, y) = (if y < 0 then (i32 (0 - y), i32 (h + y), 0) else (0, h, y));
         w = (if s_width s < i32 (x + w) then i32 (s_width s - x) else w);
         h = (if s_height s < i32 (y + h) then i32 (s_height s - y) else h)
     in (x, y, w, h, x1, y1))"

definition copy_row :: "pixel list \<Rightarrow> jint \<Rightarrow> jint \<times> jint \<times> pixel list \<Rightarrow> (jint \<times> jint \<times> pixel list) option" where
  "copy_row src width = (\<lambda>(dst, sp, d). do {
     (_, dst', sp', d') \<leftarrow> wloop (\<lambda>(w2, dst, sp, d). 0 < w2)
       (\<lambda>(w2, dst, sp, d). do {
          v \<leftarrow> rd src sp;
          d' \<leftarrow> wr d dst v;
          Some (w2 - 1, dst + 1, sp + 1, d') }) (width, dst, sp, d);
     Some (dst', sp', d') })"

text \<open>\<^verbatim>\<open>setRGB\<close>; pointers are an array and a position in it.\<close>

definition setRGB ::
  "pixel list \<Rightarrow> jint \<Rightarrow> jint \<Rightarrow> pixel list \<Rightarrow> jint \<Rightarrow> jint \<Rightarrow> jint \<Rightarrow> jint \<Rightarrow> pixel list option" where
  "setRGB d dst dstScanLength src sp srcScanLength width height = do {
     let srcScanRest = i32 (srcScanLength - width);
     let dstScanRest = i32 (dstScanLength - width);
     (_, _, _, d') \<leftarrow> wloop (\<lambda>(h, dst, sp, d). 0 < h)
       (\<lambda>(h, dst, sp, d). do {
          (dst', sp', d') \<leftarrow> copy_row src width (dst, sp, d);
          Some (h - 1, dst' + dstScanRest, sp' + srcScanRest, d') }) (height, dst, sp, d);
     Some d'
   }"

definition surface_setRGB ::
  "surface \<Rightarrow> jint \<Rightarrow> jint \<Rightarrow> jint \<Rightarrow> jint \<Rightarrow> pixel list \<Rightarrow> jint \<Rightarrow> jint \<Rightarrow> surface option" where
  "surface_setRGB s x y width height dat data_pos scanLength =
     map_option (\<lambda>d. s\<lparr>s_data := d\<rparr>)
       (setRGB (s_data s) (i32 (y * s_width s) + x) (s_width s) dat data_pos scanLength width height)"

definition setRGBImpl ::
  "surface \<Rightarrow> pixel list \<Rightarrow> jint \<Rightarrow> jint \<Rightarrow> jint \<Rightarrow> jint \<Rightarrow> jint \<Rightarrow> jint \<Rightarrow> surface option" where
  "setRGBImpl s arr offset scanLength x y width height =
    (let (x, y, width, height, srcX, srcY) = CORRECT_DIMS s x y width height
     in if 0 < width \<and> 0 < height
        then surface_setRGB s x y width height arr (offset + i32 (srcY * scanLength) + srcX) scanLength
        else Some s)"

text \<open>\<^verbatim>\<open>getRGBImpl\<close> has the two loops of \<^verbatim>\<open>setRGB\<close> in its own body, in the other direction.\<close>

definition getRGBImpl ::
  "surface \<Rightarrow> pixel list \<Rightarrow> jint \<Rightarrow> jint \<Rightarrow> jint \<Rightarrow> jint \<Rightarrow> jint \<Rightarrow> jint \<Rightarrow> pixel list option" where
  "getRGBImpl s arr offset scanLength x y width height =
    (let (x, y, width, height, dstX, dstY) = CORRECT_DIMS s x y width height
     in if 0 < width \<and> 0 < height
        then setRGB arr (offset + i32 (dstY * scanLength) + dstX) scanLength
               (s_data s) (i32 (y * s_width s) + x) (s_width s) width height
        else Some arr)"

section \<open>What the loops copy\<close>

lemma copy_row_slice:
  assumes "0 \<le> w" "0 \<le> dst" "dst + w \<le> int (length d)" "0 \<le> sp" "sp + w \<le> int (length src)"
  shows "\<exists>d'. copy_row src w (dst, sp, d) = Some (dst + w, sp + w, d')
    \<and> slice_map dst w (\<lambda>i p. src ! nat (sp + i)) d d'"
proof -
  let ?g = "\<lambda>i p. src ! nat (sp + i)"
  define I where "I t \<longleftrightarrow> (\<exists>k e. t = (w - k, dst + k, sp + k, e) \<and> 0 \<le> k \<and> k \<le> w \<and> slice_map dst k ?g d e)" for t
  let ?b = "\<lambda>(w2 :: jint, dst :: jint, sp :: jint, d :: pixel list). 0 < w2"
  let ?c = "\<lambda>(w2 :: jint, dst, sp, d). do { v \<leftarrow> rd src sp; d' \<leftarrow> wr d dst v; Some (w2 - 1, dst + 1, sp + 1, d') }"
  have "\<exists>t. wloop ?b ?c (w, dst, sp, d) = Some t \<and> I t \<and> \<not> ?b t"
  proof (rule wloop_total [where m = "\<lambda>(w2, _). nat w2"])
    have "slice_map dst 0 ?g d d" by (simp add: slice_map_refl)
    with assms(1) show "I (w, dst, sp, d)" unfolding I_def by (intro exI [of _ 0] exI [of _ d]) simp
  next
    fix t assume "I t" and b: "?b t"
    then obtain k e where t [simp]: "t = (w - k, dst + k, sp + k, e)" and k: "0 \<le> k" "k < w"
      and s: "slice_map dst k ?g d e" by (auto simp: I_def)
    let ?e = "e[nat (dst + k) := src ! nat (sp + k)]"
    have "slice_map dst (k + 1) ?g d ?e" using s k assms by (intro slice_map_snoc) simp_all
    then have "I (w - k - 1, dst + k + 1, sp + k + 1, ?e)"
      unfolding I_def using k by (intro exI [of _ "k + 1"] exI [of _ ?e]) simp
    then show "\<exists>u. ?c t = Some u \<and> I u \<and>
        (case u of (w2, _) \<Rightarrow> nat w2) < (case t of (w2, _) \<Rightarrow> nat w2)"
      using k assms slice_map_length [OF s] by (simp add: mem_simps)
  qed
  then obtain e where "wloop ?b ?c (w, dst, sp, d) = Some (0, dst + w, sp + w, e)" "slice_map dst w ?g d e"
    by (fastforce simp: I_def)
  then show ?thesis by (simp add: copy_row_def)
qed

lemma setRGB_rect:
  assumes "0 < w" "0 \<le> h" "0 \<le> x0" "x0 + w \<le> stride" "0 \<le> off"
    and "off + (h - 1) * stride + x0 + w \<le> int (length d)"
    and "is_jint (stride - w)" "is_jint (scan - w)" "0 \<le> sp" "0 \<le> scan" "sp + (h - 1) * scan + w \<le> int (length src)"
  shows "\<exists>d'. setRGB d (off + x0) stride src sp scan w h = Some d'
    \<and> rect_map off stride x0 w h (\<lambda>j i p. src ! nat (sp + j * scan + i)) d d'"
proof -
  let ?g = "\<lambda>j i (p :: pixel). src ! nat (sp + j * scan + i)"
  have st: "0 < stride" using assms by linarith
  define I where "I t \<longleftrightarrow> (\<exists>j e. t = (h - j, off + j * stride + x0, sp + j * scan, e) \<and> 0 \<le> j \<and> j \<le> h
      \<and> rect_map off stride x0 w j ?g d e)" for t
  let ?b = "\<lambda>(h :: jint, dst :: jint, sp :: jint, d :: pixel list). 0 < h"
  let ?c = "\<lambda>(h :: jint, dst, sp, d). do {
          (dst', sp', d') \<leftarrow> copy_row src w (dst, sp, d);
          Some (h - 1, dst' + (stride - w), sp' + (scan - w), d') }"
  have "\<exists>t. wloop ?b ?c (h, off + x0, sp, d) = Some t \<and> I t \<and> \<not> ?b t"
  proof (rule wloop_total [where m = "\<lambda>(h, _). nat h"])
    have "rect_map off stride x0 w 0 ?g d d" by (simp add: rect_map_none)
    with assms(2) show "I (h, off + x0, sp, d)" unfolding I_def by (intro exI [of _ 0] exI [of _ d]) simp
  next
    fix t assume "I t" and b: "?b t"
    then obtain j e where t [simp]: "t = (h - j, off + j * stride + x0, sp + j * scan, e)" and j: "0 \<le> j" "j < h"
      and r: "rect_map off stride x0 w j ?g d e" by (auto simp: I_def)
    have "j * stride \<le> (h - 1) * stride" "j * scan \<le> (h - 1) * scan"
      using j st assms(10) by (auto intro: mult_right_mono)
    moreover have "0 \<le> j * stride" "0 \<le> j * scan" using j st assms(10) by simp_all
    ultimately obtain e' where e: "copy_row src w (off + j * stride + x0, sp + j * scan, e)
          = Some (off + j * stride + x0 + w, sp + j * scan + w, e')"
        "slice_map (off + j * stride + x0) w (?g j) e e'"
      using copy_row_slice [of w "off + j * stride + x0" e "sp + j * scan" src] assms rect_map_length [OF r]
      by (auto simp: algebra_simps)
    have "rect_map off stride x0 w (j + 1) ?g d e'"
      using r e(2) j(1) assms(3,4) st by (rule rect_map_snoc)
    then have "I (h - j - 1, off + j * stride + x0 + w + (stride - w), sp + j * scan + w + (scan - w), e')"
      unfolding I_def using j by (intro exI [of _ "j + 1"] exI [of _ e']) (simp add: algebra_simps)
    with e(1) j show "\<exists>u. ?c t = Some u \<and> I u \<and> (case u of (h, _) \<Rightarrow> nat h) < (case t of (h, _) \<Rightarrow> nat h)"
      by simp
  qed
  then obtain p q e where "wloop ?b ?c (h, off + x0, sp, d) = Some (0, p, q, e)" "rect_map off stride x0 w h ?g d e"
    by (fastforce simp: I_def)
  then show ?thesis using assms(7,8) by (simp add: setRGB_def i32_jint Let_def)
qed

section \<open>The window of a call\<close>

text \<open>The part of \<open>[x, x + w)\<close> that lies in \<open>[0, m)\<close>: its start and its size, negative if there is none.\<close>

definition window :: "jint \<Rightarrow> jint \<Rightarrow> jint \<Rightarrow> jint \<times> jint" where
  "window x w m = (max x 0, min (x + w) m - max x 0)"

definition no_wrap :: "jint \<Rightarrow> jint \<Rightarrow> bool" where
  "no_wrap x w \<longleftrightarrow> is_jint x \<and> x \<noteq> - 2147483648 \<and> is_jint w \<and> is_jint (x + w)"

lemma CORRECT_DIMS_window:
  assumes "no_wrap x w" "no_wrap y h" "0 < s_width s" "0 < s_height s" "is_jint (s_width s)" "is_jint (s_height s)"
  shows "CORRECT_DIMS s x y w h =
    (fst (window x w (s_width s)), fst (window y h (s_height s)),
     snd (window x w (s_width s)), snd (window y h (s_height s)),
     fst (window x w (s_width s)) - x, fst (window y h (s_height s)) - y)"
proof -
  have i: "i32 (0 - x) = - x" "i32 (w + x) = w + x" "i32 (x + w) = x + w" "i32 (0 + (w + x)) = w + x" "i32 w = w"
      "i32 (0 - y) = - y" "i32 (h + y) = h + y" "i32 (y + h) = y + h" "i32 (0 + (h + y)) = h + y" "i32 h = h"
      "i32 (s_width s - 0) = s_width s" "i32 (s_height s - 0) = s_height s"
      "0 \<le> x \<Longrightarrow> i32 (s_width s - x) = s_width s - x" "0 \<le> y \<Longrightarrow> i32 (s_height s - y) = s_height s - y"
    using assms by (auto simp: no_wrap_def is_jint_def intro!: i32_id)
  show ?thesis
    by (cases "x < 0"; cases "y < 0") (simp_all add: CORRECT_DIMS_def i [simplified] window_def min_def max_def)
qed

text \<open>A surface of the Java side, and an array with room for the whole rectangle of a call.\<close>

definition surface_area :: "surface \<Rightarrow> bool" where
  "surface_area s \<longleftrightarrow> 0 < s_width s \<and> 0 < s_height s \<and> is_jint (s_width s) \<and> is_jint (s_height s) \<and>
     int (length (s_data s)) = s_width s * s_height s \<and> length (s_data s) < 2147483648"

definition array_room :: "pixel list \<Rightarrow> jint \<Rightarrow> jint \<Rightarrow> jint \<Rightarrow> jint \<Rightarrow> bool" where
  "array_room arr offset scan w h \<longleftrightarrow> 0 \<le> offset \<and> 0 < scan \<and> scan < 2147483648 \<and> w \<le> scan \<and>
     offset + h * scan \<le> int (length arr) \<and> length arr < 2147483648"

text \<open>The arithmetic of the clipped window, once for both directions.\<close>

lemma window_facts:
  assumes area: "surface_area s" and n: "no_wrap x w" "no_wrap y h" and room: "array_room arr offset scan w h"
    and win: "window x w (s_width s) = (x0, w')" "window y h (s_height s) = (y0, h')" and ne: "0 < w'" "0 < h'"
  shows "CORRECT_DIMS s x y w h = (x0, y0, w', h', x0 - x, y0 - y)"
    and "0 \<le> x0" "x0 + w' \<le> s_width s" "0 \<le> y0" "y0 + h' \<le> s_height s"
    and "i32 (y0 * s_width s) = y0 * s_width s" "0 \<le> y0 * s_width s"
    and "y0 * s_width s + (h' - 1) * s_width s + x0 + w' \<le> int (length (s_data s))"
    and "0 \<le> x0 - x" "x0 - x + w' \<le> scan" "i32 ((y0 - y) * scan) = (y0 - y) * scan" "0 \<le> offset + (y0 - y) * scan"
    and "offset + (y0 - y) * scan + (h' - 1) * scan + (x0 - x) + w' \<le> int (length arr)"
    and "is_jint (s_width s - w')" "is_jint (scan - w')"
proof -
  note a = area [unfolded surface_area_def] and r = room [unfolded array_room_def]
  show "CORRECT_DIMS s x y w h = (x0, y0, w', h', x0 - x, y0 - y)"
    using CORRECT_DIMS_window [OF n] a win by simp
  have wv: "x0 = max x 0" "w' = min (x + w) (s_width s) - x0" "y0 = max y 0" "h' = min (y + h) (s_height s) - y0"
    using win by (simp_all add: window_def)
  show b: "0 \<le> x0" "x0 + w' \<le> s_width s" "0 \<le> y0" "y0 + h' \<le> s_height s" using wv by auto
  show c: "0 \<le> x0 - x" "x0 - x + w' \<le> scan" using wv r by auto
  have d: "0 \<le> y0 - y" "y0 - y + h' \<le> h" using wv by auto
  have "(y0 + h') * s_width s \<le> s_height s * s_width s" using b(4) a by (intro mult_right_mono) simp_all
  then have e: "y0 * s_width s + (h' - 1) * s_width s + s_width s \<le> int (length (s_data s))"
    using a by (simp add: algebra_simps)
  then show "y0 * s_width s + (h' - 1) * s_width s + x0 + w' \<le> int (length (s_data s))" using b(2) by linarith
  have e0: "0 \<le> (h' - 1) * s_width s" using ne(2) a by simp
  show y: "0 \<le> y0 * s_width s" using b(3) a by simp
  show "i32 (y0 * s_width s) = y0 * s_width s" using y e e0 a by (intro i32_id) linarith+
  have "(y0 - y + h') * scan \<le> h * scan" using d r by (intro mult_right_mono) simp_all
  then have f: "offset + (y0 - y) * scan + (h' - 1) * scan + scan \<le> int (length arr)"
    using r by (simp add: algebra_simps)
  then show "offset + (y0 - y) * scan + (h' - 1) * scan + (x0 - x) + w' \<le> int (length arr)" using c(2) by linarith
  have f0: "0 \<le> (h' - 1) * scan" "0 \<le> (y0 - y) * scan" using ne(2) d(1) r by simp_all
  then show "0 \<le> offset + (y0 - y) * scan" using r by simp
  show "i32 ((y0 - y) * scan) = (y0 - y) * scan" using f f0 r by (intro i32_id) linarith+
  show "is_jint (s_width s - w')" "is_jint (scan - w')" using a b ne(1) r c by (auto simp: is_jint_def)
qed

lemma getRGBImpl_copies:
  assumes area: "surface_area s" and n: "no_wrap x w" "no_wrap y h" and room: "array_room arr offset scan w h"
    and win: "window x w (s_width s) = (x0, w')" "window y h (s_height s) = (y0, h')" and ne: "0 < w'" "0 < h'"
  shows "\<exists>d. getRGBImpl s arr offset scan x y w h = Some d
    \<and> rect_map (offset + (y0 - y) * scan) scan (x0 - x) w' h'
        (\<lambda>j i p. s_data s ! nat ((y0 + j) * s_width s + x0 + i)) arr d"
proof -
  note f = window_facts [OF assms]
  have "\<exists>d. setRGB arr (offset + (y0 - y) * scan + (x0 - x)) scan (s_data s) (y0 * s_width s + x0) (s_width s) w' h'
      = Some d \<and> rect_map (offset + (y0 - y) * scan) scan (x0 - x) w' h'
        (\<lambda>j i p. s_data s ! nat (y0 * s_width s + x0 + j * s_width s + i)) arr d"
    using area ne f by (intro setRGB_rect) (simp_all add: surface_area_def)
  moreover have "y0 * s_width s + x0 + j * s_width s + i = (y0 + j) * s_width s + x0 + i" for j i
    by (simp add: algebra_simps)
  ultimately show ?thesis using ne f by (simp add: getRGBImpl_def)
qed

lemma setRGBImpl_copies:
  assumes area: "surface_area s" and n: "no_wrap x w" "no_wrap y h" and room: "array_room arr offset scan w h"
    and win: "window x w (s_width s) = (x0, w')" "window y h (s_height s) = (y0, h')" and ne: "0 < w'" "0 < h'"
  shows "\<exists>d. setRGBImpl s arr offset scan x y w h = Some (s\<lparr>s_data := d\<rparr>)
    \<and> rect_map (y0 * s_width s) (s_width s) x0 w' h'
        (\<lambda>j i p. arr ! nat (offset + (y0 - y + j) * scan + (x0 - x) + i)) (s_data s) d"
proof -
  note f = window_facts [OF assms]
  have "\<exists>d. setRGB (s_data s) (y0 * s_width s + x0) (s_width s) arr (offset + (y0 - y) * scan + (x0 - x)) scan w' h'
      = Some d \<and> rect_map (y0 * s_width s) (s_width s) x0 w' h'
        (\<lambda>j i p. arr ! nat (offset + (y0 - y) * scan + (x0 - x) + j * scan + i)) (s_data s) d"
    using room area ne f by (intro setRGB_rect) (simp_all add: array_room_def)
  moreover have "offset + (y0 - y) * scan + (x0 - x) + j * scan + i = offset + (y0 - y + j) * scan + (x0 - x) + i" for j i
    by (simp add: algebra_simps)
  ultimately obtain d where "setRGB (s_data s) (y0 * s_width s + x0) (s_width s) arr
        (offset + (y0 - y) * scan + (x0 - x)) scan w' h' = Some d"
      "rect_map (y0 * s_width s) (s_width s) x0 w' h'
        (\<lambda>j i p. arr ! nat (offset + (y0 - y + j) * scan + (x0 - x) + i)) (s_data s) d"
    by auto
  then show ?thesis using ne f by (intro exI [of _ d]) (simp add: setRGBImpl_def surface_setRGB_def)
qed

lemma RGB_outside:
  assumes "surface_area s" "no_wrap x w" "no_wrap y h"
    and "window x w (s_width s) = (x0, w')" "window y h (s_height s) = (y0, h')" "w' \<le> 0 \<or> h' \<le> 0"
  shows "getRGBImpl s arr offset scan x y w h = Some arr" "setRGBImpl s arr offset scan x y w h = Some s"
  using assms CORRECT_DIMS_window [OF assms(2,3)]
  by (auto simp: getRGBImpl_def setRGBImpl_def surface_area_def)

text \<open>Writing a rectangle and reading it back.\<close>

lemma set_get:
  assumes area: "surface_area s" and n: "no_wrap x w" "no_wrap y h"
    and room: "array_room arr offset scan w h" "array_room out offset scan w h"
    and win: "window x w (s_width s) = (x0, w')" "window y h (s_height s) = (y0, h')" and ne: "0 < w'" "0 < h'"
  shows "\<exists>t d. setRGBImpl s arr offset scan x y w h = Some t \<and> getRGBImpl t out offset scan x y w h = Some d
    \<and> rect_map (offset + (y0 - y) * scan) scan (x0 - x) w' h'
        (\<lambda>j i p. arr ! nat (offset + (y0 - y + j) * scan + (x0 - x) + i)) out d"
proof -
  note f = window_facts [OF area n room(1) win ne]
  obtain e where e: "setRGBImpl s arr offset scan x y w h = Some (s\<lparr>s_data := e\<rparr>)"
      "rect_map (y0 * s_width s) (s_width s) x0 w' h'
        (\<lambda>j i p. arr ! nat (offset + (y0 - y + j) * scan + (x0 - x) + i)) (s_data s) e"
    using setRGBImpl_copies [OF area n room(1) win ne] by blast
  let ?t = "s\<lparr>s_data := e\<rparr>"
  have t: "surface_area ?t" using area rect_map_length [OF e(2)] by (simp add: surface_area_def)
  obtain d where d: "getRGBImpl ?t out offset scan x y w h = Some d"
      "rect_map (offset + (y0 - y) * scan) scan (x0 - x) w' h' (\<lambda>j i p. e ! nat ((y0 + j) * s_width s + x0 + i)) out d"
    using getRGBImpl_copies [OF t n room(2)] win ne by auto
  have "rect_map (offset + (y0 - y) * scan) scan (x0 - x) w' h'
      (\<lambda>j i p. arr ! nat (offset + (y0 - y + j) * scan + (x0 - x) + i)) out d"
  proof (rule rect_map_cong [OF d(2)])
    fix j i and p :: pixel
    assume ji: "0 \<le> j" "j < h'" "0 \<le> i" "i < w'"
    have "j * s_width s \<le> (h' - 1) * s_width s" using ji area by (intro mult_right_mono) (simp_all add: surface_area_def)
    moreover have "0 \<le> j * s_width s" using ji area by (simp add: surface_area_def)
    ultimately show "e ! nat ((y0 + j) * s_width s + x0 + i) = arr ! nat (offset + (y0 - y + j) * scan + (x0 - x) + i)"
      using ji f(2,3,7,8) by (intro rect_map_nth [OF e(2)]) (simp_all add: algebra_simps)
  qed
  with e(1) d(1) show ?thesis by blast
qed

end
