(* ===== verification/Surface_Properties.thy ===== *)
theory Surface_Properties
  imports Surface
begin

text \<open>
  The properties of the pixel access, with a 4 by 4 surface whose pixels are their own index.
\<close>

definition counted_surface :: surface where
  "counted_surface = JavaSurface_initialize TYPE_INT_ARGB_PRE 4 4 (List.map word_of_int [0..15])"

lemma counted_surface_area: "surface_area counted_surface"
  by (simp add: surface_area_def counted_surface_def JavaSurface_initialize_def is_jint_def)

text \<open>
  C30. \<^verbatim>\<open>getRGBImpl\<close> copies exactly the part of the rectangle that lies on the surface to the place
  it has in the caller's array, changes no other element, and touches no memory outside of the two
  arrays; a rectangle that misses the surface copies nothing.
\<close>

theorem getRGB_exact:
  assumes "surface_area s" "no_wrap x w" "no_wrap y h" "array_room arr offset scan w h"
    and "window x w (s_width s) = (x0, w')" "window y h (s_height s) = (y0, h')"
  shows "\<exists>d. getRGBImpl s arr offset scan x y w h = Some d \<and>
    (if 0 < w' \<and> 0 < h' then
       rect_map (offset + (y0 - y) * scan) scan (x0 - x) w' h'
         (\<lambda>j i p. s_data s ! nat ((y0 + j) * s_width s + x0 + i)) arr d
     else d = arr)"
proof (cases "0 < w' \<and> 0 < h'")
  case True
  then show ?thesis using getRGBImpl_copies [OF assms] by simp
next
  case False
  then show ?thesis using RGB_outside(1) [OF assms(1-3,5,6)] by (auto simp: not_less)
qed

theorem getRGB_exact_witness:
  "\<exists>d. getRGBImpl counted_surface (replicate 20 7) 1 3 (- 1) 2 3 5 = Some d \<and> d ! 2 = 8 \<and> d ! 6 = 13 \<and> d ! 1 = 7"
proof -
  have f: "no_wrap (- 1) 3" "no_wrap 2 5" "array_room (replicate 20 (7 :: pixel)) 1 3 3 5"
    "window (- 1) 3 (s_width counted_surface) = (0, 2)" "window 2 5 (s_height counted_surface) = (2, 2)"
    by (simp_all add: no_wrap_def is_jint_def array_room_def window_def counted_surface_def JavaSurface_initialize_def)
  obtain d where d: "getRGBImpl counted_surface (replicate 20 7) 1 3 (- 1) 2 3 5 = Some d"
    "rect_map 1 3 1 2 2 (\<lambda>j i p. s_data counted_surface ! nat ((2 + j) * s_width counted_surface + i)) (replicate 20 7) d"
    using getRGB_exact [OF counted_surface_area f] by auto
  have s: "s_width counted_surface = 4" "s_data counted_surface = List.map word_of_int [0..15]"
    by (simp_all add: counted_surface_def JavaSurface_initialize_def)
  have "d ! 2 = 8" "d ! 6 = 13" "d ! 1 = 7"
    using rect_map_at [OF d(2), of 2 0 1] rect_map_at [OF d(2), of 6 1 2] rect_map_at [OF d(2), of 1 0 0]
    by (simp_all add: s upto_rec1)
  with d(1) show ?thesis by blast
qed

text \<open>
  C31. What \<^verbatim>\<open>setRGBImpl\<close> stored \<^verbatim>\<open>getRGBImpl\<close> gives back: with the same arguments, the visible part of
  the rectangle holds the pixels of the array that was written, the rest of the second array is
  unchanged.
\<close>

theorem setRGB_getRGB:
  assumes "surface_area s" "no_wrap x w" "no_wrap y h"
    and "array_room arr offset scan w h" "array_room out offset scan w h"
    and "window x w (s_width s) = (x0, w')" "window y h (s_height s) = (y0, h')" "0 < w'" "0 < h'"
  shows "\<exists>t d. setRGBImpl s arr offset scan x y w h = Some t \<and> getRGBImpl t out offset scan x y w h = Some d
    \<and> rect_map (offset + (y0 - y) * scan) scan (x0 - x) w' h'
        (\<lambda>j i p. arr ! nat (offset + (y0 - y + j) * scan + (x0 - x) + i)) out d"
  by (rule set_get [OF assms])

theorem setRGB_getRGB_witness:
  "\<exists>t d. setRGBImpl counted_surface (List.map word_of_int [100..119]) 0 5 3 (- 1) 5 3 = Some t
    \<and> getRGBImpl t (replicate 20 0) 0 5 3 (- 1) 5 3 = Some d \<and> d ! 5 = 105 \<and> d ! 0 = 0"
proof -
  have f: "no_wrap 3 5" "no_wrap (- 1) 3" "array_room (List.map word_of_int [100..119] :: pixel list) 0 5 5 3"
    "array_room (replicate 20 (0 :: pixel)) 0 5 5 3"
    "window 3 5 (s_width counted_surface) = (3, 1)" "window (- 1) 3 (s_height counted_surface) = (0, 2)"
    by (simp_all add: no_wrap_def is_jint_def array_room_def window_def counted_surface_def JavaSurface_initialize_def)
  obtain t d where td: "setRGBImpl counted_surface (List.map word_of_int [100..119]) 0 5 3 (- 1) 5 3 = Some t"
      "getRGBImpl t (replicate 20 0) 0 5 3 (- 1) 5 3 = Some d"
      "rect_map 5 5 0 1 2 (\<lambda>j i p. List.map word_of_int [100..119] ! nat ((1 + j) * 5 + i)) (replicate 20 0) d"
    using setRGB_getRGB [OF counted_surface_area f] by auto
  have "d ! 5 = 105" "d ! 0 = 0"
    using rect_map_at [OF td(3), of 5 0 0] rect_map_at [OF td(3), of 0 "- 1" 0] by (simp_all add: upto_rec1)
  with td(1,2) show ?thesis by blast
qed

end
