(* ===== verification/Flv_Parser.thy ===== *)
theory Flv_Parser
  imports Prelude
begin

text \<open>
  The FLV tag parser of the media component,
  \<^verbatim>\<open>modules/media/src/main/native/gstreamer/plugins/vp6/flvparser.c\<close>: a state machine that is fed
  blocks of the size it asked for. \<^verbatim>\<open>gsize\<close> and \<^verbatim>\<open>guint64\<close> are 64 bits wide. A read outside the
  buffer is \<^term>\<open>None\<close>; the result codes are values. The structures the C functions fill through a
  pointer are passed in and returned, because an early return leaves them partly filled.
\<close>

unbundle bit_operations_syntax

type_synonym bytes = "jbyte list"
type_synonym gsize = int

definition u64 :: "int \<Rightarrow> gsize" where "u64 x = x mod 2 ^ 64"

lemma u64_id [simp]: "0 \<le> x \<Longrightarrow> x < 18446744073709551616 \<Longrightarrow> u64 x = x"
  by (simp add: u64_def)

lemma u64_range: "0 \<le> u64 x" "u64 x < 18446744073709551616"
  by (simp_all add: u64_def)

lemma u64_u64_add: "u64 (u64 a + b) = u64 (a + b)"
  by (simp add: u64_def mod_add_left_eq)

section \<open>Big-endian reads\<close>

definition READ_UINT8 :: "bytes \<Rightarrow> int \<Rightarrow> int option" where
  "READ_UINT8 buf i = map_option uint (rd buf i)"

definition READ_UINT16_BE :: "bytes \<Rightarrow> int \<Rightarrow> int option" where
  "READ_UINT16_BE buf i = do { a \<leftarrow> READ_UINT8 buf i; b \<leftarrow> READ_UINT8 buf (i + 1); Some (a * 2 ^ 8 + b) }"

definition READ_UINT24_BE :: "bytes \<Rightarrow> int \<Rightarrow> int option" where
  "READ_UINT24_BE buf i = do { a \<leftarrow> READ_UINT16_BE buf i; b \<leftarrow> READ_UINT8 buf (i + 2); Some (a * 2 ^ 8 + b) }"

definition READ_UINT32_BE :: "bytes \<Rightarrow> int \<Rightarrow> int option" where
  "READ_UINT32_BE buf i = do { a \<leftarrow> READ_UINT16_BE buf i; b \<leftarrow> READ_UINT16_BE buf (i + 2); Some (a * 2 ^ 16 + b) }"

text \<open>\<^verbatim>\<open>FLV_READ_TS32\<close>: 24 bits of time with the extension byte on top, read as a signed \<^verbatim>\<open>gint\<close>.\<close>

definition FLV_READ_TS32 :: "bytes \<Rightarrow> int \<Rightarrow> jint option" where
  "FLV_READ_TS32 buf i = do { a \<leftarrow> READ_UINT24_BE buf i; e \<leftarrow> READ_UINT8 buf (i + 3); Some (i32 (e * 2 ^ 24 + a)) }"

section \<open>Parser state\<close>

datatype flv_result = FLV_PARSER_OK | FLV_PARSER_BUFFER_UNDERRUN | FLV_PARSER_BAD_STREAM
  | FLV_PARSER_UNSUPPORTED_STREAM | FLV_PARSER_INVALID_STATE

datatype flv_state = FLV_PARSER_EXPECT_HEADER | FLV_PARSER_EXPECT_SKIP_BLOCK
  | FLV_PARSER_EXPECT_TAG_PREFIX | FLV_PARSER_EXPECT_VIDEO_TAG_BODY
  | FLV_PARSER_EXPECT_AUDIO_TAG_BODY | FLV_PARSER_EXPECT_SCRIPT_DATA_TAG_BODY | FLV_PARSER_EOF

record flv_parser =
  fp_state :: flv_state
  file_position :: int
  parsed_block_size :: gsize
  next_block_size :: gsize

record flv_header =
  file_version :: int
  has_audio_tags :: bool
  has_video_tags :: bool

record flv_tag_prefix =
  tag_type :: int
  body_size :: gsize
  timestamp :: jint

record flv_audio_tag =
  sound_format :: int
  sampling_rate :: int
  is_16bit :: bool
  is_stereo_tag :: bool
  audio_packet_offset :: gsize
  audio_packet_size :: gsize

record flv_video_tag =
  codec_id :: int
  frame_type :: int
  video_packet_offset :: gsize
  video_packet_size :: gsize

text \<open>The reader of a script tag: positions within the block that holds it.\<close>

record script_reader =
  sr_pos :: int
  sr_end :: int

abbreviation (input) FLV_HEADER_SIZE :: int where "FLV_HEADER_SIZE \<equiv> 9"
abbreviation (input) FLV_TAG_PREFIX_SIZE :: int where "FLV_TAG_PREFIX_SIZE \<equiv> 11"
abbreviation (input) FLV_TAG_SUFFIX_SIZE :: int where "FLV_TAG_SUFFIX_SIZE \<equiv> 4"
abbreviation (input) FLV_TAG_TYPE_AUDIO :: int where "FLV_TAG_TYPE_AUDIO \<equiv> 8"
abbreviation (input) FLV_TAG_TYPE_VIDEO :: int where "FLV_TAG_TYPE_VIDEO \<equiv> 9"
abbreviation (input) FLV_TAG_TYPE_SCRIPT_DATA :: int where "FLV_TAG_TYPE_SCRIPT_DATA \<equiv> 18"

definition flv_audio_format_data_size :: "gsize list" where
  "flv_audio_format_data_size = [0, 0, 0, 0, 0, 0, 0, 0, 0, 0, 1, 0, 0, 0, 0, 0]"

definition flv_video_codec_data_size :: "gsize list" where
  "flv_video_codec_data_size = [0, 0, 0, 0, 1, 1, 0, 6, 0, 0, 0, 0, 0, 0, 0, 0]"

section \<open>Operations\<close>

definition flv_parser_init :: flv_parser where
  "flv_parser_init = \<lparr>fp_state = FLV_PARSER_EXPECT_HEADER, file_position = 0,
     parsed_block_size = 0, next_block_size = FLV_HEADER_SIZE\<rparr>"

definition flv_parser_reset :: "flv_parser \<Rightarrow> flv_parser" where
  "flv_parser_reset p = p\<lparr>fp_state := FLV_PARSER_EXPECT_HEADER, parsed_block_size := 0,
     file_position := 0, next_block_size := FLV_HEADER_SIZE\<rparr>"

definition flv_parser_read_header ::
  "flv_parser \<Rightarrow> bytes \<Rightarrow> gsize \<Rightarrow> flv_header \<Rightarrow> (flv_result \<times> flv_parser \<times> flv_header) option" where
  "flv_parser_read_header p buffer buffer_size h =
    (if fp_state p \<noteq> FLV_PARSER_EXPECT_HEADER then Some (FLV_PARSER_INVALID_STATE, p, h)
     else if buffer_size < FLV_HEADER_SIZE then Some (FLV_PARSER_BUFFER_UNDERRUN, p, h)
     else do {
       b0 \<leftarrow> READ_UINT8 buffer 0; b1 \<leftarrow> READ_UINT8 buffer 1; b2 \<leftarrow> READ_UINT8 buffer 2;
       (if b0 \<noteq> 0x46 \<or> b1 \<noteq> 0x4C \<or> b2 \<noteq> 0x56 then Some (FLV_PARSER_BAD_STREAM, p, h)
        else do {
          v \<leftarrow> READ_UINT8 buffer 3;
          let h = h\<lparr>file_version := v\<rparr>;
          (if v \<noteq> 1 then Some (FLV_PARSER_UNSUPPORTED_STREAM, p, h)
           else do {
             flags \<leftarrow> READ_UINT8 buffer 4;
             (if flags AND 0xFA \<noteq> 0 then Some (FLV_PARSER_BAD_STREAM, p, h)
              else do {
                let h = h\<lparr>has_audio_tags := (flags AND 0x04 \<noteq> 0), has_video_tags := (flags AND 0x01 \<noteq> 0)\<rparr>;
                data_offset \<leftarrow> READ_UINT32_BE buffer 5;
                (if data_offset < FLV_HEADER_SIZE then Some (FLV_PARSER_BAD_STREAM, p, h)
                 else Some (FLV_PARSER_OK,
                   p\<lparr>parsed_block_size := FLV_HEADER_SIZE,
                     file_position := u64 (file_position p + FLV_HEADER_SIZE),
                     next_block_size := (if data_offset = FLV_HEADER_SIZE then FLV_TAG_SUFFIX_SIZE
                       else u64 (data_offset - FLV_HEADER_SIZE + FLV_TAG_SUFFIX_SIZE)),
                     fp_state := FLV_PARSER_EXPECT_SKIP_BLOCK\<rparr>, h))
              })
           })
        })
     })"

text \<open>The common ending of the operations that consume the block asked for.\<close>

definition next_tag :: "flv_parser \<Rightarrow> flv_parser" where
  "next_tag p = p\<lparr>parsed_block_size := next_block_size p,
     file_position := u64 (file_position p + next_block_size p),
     next_block_size := FLV_TAG_PREFIX_SIZE, fp_state := FLV_PARSER_EXPECT_TAG_PREFIX\<rparr>"

definition flv_parser_skip :: "flv_parser \<Rightarrow> bytes \<Rightarrow> gsize \<Rightarrow> (flv_result \<times> flv_parser) option" where
  "flv_parser_skip p buffer buffer_size =
    (if fp_state p \<noteq> FLV_PARSER_EXPECT_SKIP_BLOCK then Some (FLV_PARSER_INVALID_STATE, p)
     else if buffer_size < next_block_size p then Some (FLV_PARSER_BUFFER_UNDERRUN, p)
     else Some (FLV_PARSER_OK, next_tag p))"

definition flv_parser_read_tag_prefix ::
  "flv_parser \<Rightarrow> bytes \<Rightarrow> gsize \<Rightarrow> flv_tag_prefix \<Rightarrow> (flv_result \<times> flv_parser \<times> flv_tag_prefix) option" where
  "flv_parser_read_tag_prefix p buffer buffer_size tag =
    (if fp_state p \<noteq> FLV_PARSER_EXPECT_TAG_PREFIX then Some (FLV_PARSER_INVALID_STATE, p, tag)
     else if buffer_size < FLV_TAG_PREFIX_SIZE then Some (FLV_PARSER_BUFFER_UNDERRUN, p, tag)
     else do {
       ty \<leftarrow> READ_UINT8 buffer 0; sz \<leftarrow> READ_UINT24_BE buffer 1; ts \<leftarrow> FLV_READ_TS32 buffer 4;
       let tag = tag\<lparr>tag_type := ty, body_size := sz, timestamp := ts\<rparr>;
       stream_id \<leftarrow> READ_UINT24_BE buffer 8;
       (if stream_id \<noteq> 0 then Some (FLV_PARSER_UNSUPPORTED_STREAM, p, tag)
        else let p = p\<lparr>parsed_block_size := FLV_TAG_PREFIX_SIZE,
                   file_position := u64 (file_position p + FLV_TAG_PREFIX_SIZE),
                   next_block_size := u64 (sz + FLV_TAG_SUFFIX_SIZE)\<rparr>
         in Some (if ty = FLV_TAG_TYPE_AUDIO then (FLV_PARSER_OK, p\<lparr>fp_state := FLV_PARSER_EXPECT_AUDIO_TAG_BODY\<rparr>, tag)
            else if ty = FLV_TAG_TYPE_VIDEO then (FLV_PARSER_OK, p\<lparr>fp_state := FLV_PARSER_EXPECT_VIDEO_TAG_BODY\<rparr>, tag)
            else if ty = FLV_TAG_TYPE_SCRIPT_DATA then (FLV_PARSER_OK, p\<lparr>fp_state := FLV_PARSER_EXPECT_SCRIPT_DATA_TAG_BODY\<rparr>, tag)
            else (FLV_PARSER_UNSUPPORTED_STREAM, p, tag)))
     })"

definition flv_parser_read_audio_tag ::
  "flv_parser \<Rightarrow> bytes \<Rightarrow> gsize \<Rightarrow> flv_audio_tag \<Rightarrow> (flv_result \<times> flv_parser \<times> flv_audio_tag) option" where
  "flv_parser_read_audio_tag p buffer buffer_size tag =
    (if fp_state p \<noteq> FLV_PARSER_EXPECT_AUDIO_TAG_BODY then Some (FLV_PARSER_INVALID_STATE, p, tag)
     else if buffer_size < next_block_size p then Some (FLV_PARSER_BUFFER_UNDERRUN, p, tag)
     else do {
       b \<leftarrow> READ_UINT8 buffer 0;
       let fmt = drop_bit 4 (b AND 0xF0);
       extra \<leftarrow> rd flv_audio_format_data_size fmt;
       let off = 1 + extra;
       Some (FLV_PARSER_OK, next_tag p,
         tag\<lparr>sound_format := fmt, sampling_rate := drop_bit 2 (b AND 0x0C),
           is_16bit := (b AND 0x02 \<noteq> 0), is_stereo_tag := (b AND 0x01 \<noteq> 0),
           audio_packet_offset := off,
           audio_packet_size := u64 (next_block_size p - FLV_TAG_SUFFIX_SIZE - off)\<rparr>)
     })"

definition flv_parser_read_video_tag ::
  "flv_parser \<Rightarrow> bytes \<Rightarrow> gsize \<Rightarrow> flv_video_tag \<Rightarrow> (flv_result \<times> flv_parser \<times> flv_video_tag) option" where
  "flv_parser_read_video_tag p buffer buffer_size tag =
    (if fp_state p \<noteq> FLV_PARSER_EXPECT_VIDEO_TAG_BODY then Some (FLV_PARSER_INVALID_STATE, p, tag)
     else if buffer_size < next_block_size p then Some (FLV_PARSER_BUFFER_UNDERRUN, p, tag)
     else do {
       b \<leftarrow> READ_UINT8 buffer 0;
       let codec = b AND 0x0F;
       extra \<leftarrow> rd flv_video_codec_data_size codec;
       let off = 1 + extra;
       Some (FLV_PARSER_OK, next_tag p,
         tag\<lparr>frame_type := drop_bit 4 (b AND 0xF0), codec_id := codec, video_packet_offset := off,
           video_packet_size := u64 (next_block_size p - FLV_TAG_SUFFIX_SIZE - off)\<rparr>)
     })"

definition flv_parser_read_script_data_tag ::
  "flv_parser \<Rightarrow> bytes \<Rightarrow> gsize \<Rightarrow> script_reader \<Rightarrow> (flv_result \<times> flv_parser \<times> script_reader) option" where
  "flv_parser_read_script_data_tag p buffer buffer_size r =
    (if fp_state p \<noteq> FLV_PARSER_EXPECT_SCRIPT_DATA_TAG_BODY then Some (FLV_PARSER_INVALID_STATE, p, r)
     else if buffer_size < next_block_size p then Some (FLV_PARSER_BUFFER_UNDERRUN, p, r)
     else Some (FLV_PARSER_OK, next_tag p,
       r\<lparr>sr_pos := 0, sr_end := next_block_size p - FLV_TAG_SUFFIX_SIZE\<rparr>))"

definition flv_parser_seek :: "flv_parser \<Rightarrow> int \<Rightarrow> flv_result \<times> flv_parser" where
  "flv_parser_seek p new_position = (FLV_PARSER_OK,
     p\<lparr>fp_state := FLV_PARSER_EXPECT_TAG_PREFIX, file_position := new_position,
       parsed_block_size := 0, next_block_size := FLV_TAG_PREFIX_SIZE\<rparr>)"

section \<open>What every operation keeps\<close>

lemma READ_UINT8_in [mem_simps]:
  "0 \<le> i \<Longrightarrow> i < int (length buf) \<Longrightarrow> READ_UINT8 buf i = Some (uint (buf ! nat i))"
  by (simp add: READ_UINT8_def mem_simps)

lemma uint_byte: "0 \<le> uint (b :: jbyte)" "uint (b :: jbyte) < 256"
  using uint_bounded [of b] by simp_all

lemma READ_UINT8_ok:
  "0 \<le> i \<Longrightarrow> i < int (length buf) \<Longrightarrow> \<exists>v. READ_UINT8 buf i = Some v \<and> 0 \<le> v \<and> v < 256"
  using uint_byte [of "buf ! nat i"] by (simp add: mem_simps)

lemma READ_UINT16_ok:
  assumes "0 \<le> i" "i + 1 < int (length buf)"
  shows "\<exists>v. READ_UINT16_BE buf i = Some v \<and> 0 \<le> v \<and> v < 65536"
proof -
  from assms obtain a b where "READ_UINT8 buf i = Some a" "READ_UINT8 buf (i + 1) = Some b"
    "0 \<le> a" "a < 256" "0 \<le> b" "b < 256"
    using READ_UINT8_ok [of i buf] READ_UINT8_ok [of "i + 1" buf] by auto
  then show ?thesis by (simp add: READ_UINT16_BE_def)
qed

lemma READ_UINT24_ok:
  assumes "0 \<le> i" "i + 2 < int (length buf)"
  shows "\<exists>v. READ_UINT24_BE buf i = Some v \<and> 0 \<le> v \<and> v < 16777216"
proof -
  from assms obtain a b where "READ_UINT16_BE buf i = Some a" "READ_UINT8 buf (i + 2) = Some b"
    "0 \<le> a" "a < 65536" "0 \<le> b" "b < 256"
    using READ_UINT16_ok [of i buf] READ_UINT8_ok [of "i + 2" buf] by auto
  then show ?thesis by (simp add: READ_UINT24_BE_def)
qed

lemma READ_UINT32_ok:
  assumes "0 \<le> i" "i + 3 < int (length buf)"
  shows "\<exists>v. READ_UINT32_BE buf i = Some v \<and> 0 \<le> v \<and> v < 4294967296"
proof -
  from assms obtain a b where "READ_UINT16_BE buf i = Some a" "READ_UINT16_BE buf (i + 2) = Some b"
    "0 \<le> a" "a < 65536" "0 \<le> b" "b < 65536"
    using READ_UINT16_ok [of i buf] READ_UINT16_ok [of "i + 2" buf] by auto
  then show ?thesis by (simp add: READ_UINT32_BE_def)
qed

lemma READ_TS32_ok:
  assumes "0 \<le> i" "i + 3 < int (length buf)"
  shows "\<exists>v. FLV_READ_TS32 buf i = Some v"
proof -
  from assms obtain a b where "READ_UINT24_BE buf i = Some a" "READ_UINT8 buf (i + 3) = Some b"
    using READ_UINT24_ok [of i buf] READ_UINT8_ok [of "i + 3" buf] by auto
  then show ?thesis by (simp add: FLV_READ_TS32_def)
qed

text \<open>The block a parser asks for, by its state.\<close>

fun block_wf :: "flv_state \<Rightarrow> gsize \<Rightarrow> bool" where
  "block_wf FLV_PARSER_EXPECT_HEADER n \<longleftrightarrow> n = FLV_HEADER_SIZE"
| "block_wf FLV_PARSER_EXPECT_SKIP_BLOCK n \<longleftrightarrow> 4 \<le> n \<and> n < 4294967296"
| "block_wf FLV_PARSER_EXPECT_TAG_PREFIX n \<longleftrightarrow> n = FLV_TAG_PREFIX_SIZE"
| "block_wf FLV_PARSER_EOF n \<longleftrightarrow> False"
| "block_wf _ n \<longleftrightarrow> 4 \<le> n \<and> n < 16777220"

definition parser_wf :: "flv_parser \<Rightarrow> bool" where
  "parser_wf p \<longleftrightarrow> block_wf (fp_state p) (next_block_size p)
     \<and> 0 \<le> file_position p \<and> file_position p < 18446744073709551616"

lemma parser_wf_init [simp]: "parser_wf flv_parser_init"
  by (simp add: parser_wf_def flv_parser_init_def)

lemma parser_wf_reset [simp]: "parser_wf (flv_parser_reset p)"
  by (simp add: parser_wf_def flv_parser_reset_def)

lemma parser_wf_seek: "0 \<le> pos \<Longrightarrow> pos < 18446744073709551616 \<Longrightarrow> parser_wf (snd (flv_parser_seek p pos))"
  by (simp add: parser_wf_def flv_parser_seek_def)

lemma parser_wf_next_tag [simp]: "parser_wf (next_tag p)"
  by (simp add: parser_wf_def next_tag_def u64_range)

lemma block_wf_pos: "block_wf st n \<Longrightarrow> 4 \<le> n"
  by (cases st) auto

text \<open>
  The contract the five reading operations share. \<open>st\<close> is the state an operation expects.
\<close>

locale block_reader =
  fixes op :: "flv_parser \<Rightarrow> bytes \<Rightarrow> gsize \<Rightarrow> 'x \<Rightarrow> (flv_result \<times> flv_parser \<times> 'x) option"
    and st :: flv_state
  assumes wrong_state: "fp_state p \<noteq> st \<Longrightarrow> op p buf n x = Some (FLV_PARSER_INVALID_STATE, p, x)"
    and short_block: "fp_state p = st \<Longrightarrow> parser_wf p \<Longrightarrow> n < next_block_size p
          \<Longrightarrow> op p buf n x = Some (FLV_PARSER_BUFFER_UNDERRUN, p, x)"
    and full_block: "fp_state p = st \<Longrightarrow> parser_wf p \<Longrightarrow> next_block_size p \<le> n \<Longrightarrow> n \<le> int (length buf)
          \<Longrightarrow> \<exists>r p' y. op p buf n x = Some (r, p', y)
              \<and> r \<in> {FLV_PARSER_OK, FLV_PARSER_BAD_STREAM, FLV_PARSER_UNSUPPORTED_STREAM}
              \<and> (r = FLV_PARSER_OK \<longrightarrow> parser_wf p' \<and> parsed_block_size p' = next_block_size p
                    \<and> file_position p' = u64 (file_position p + next_block_size p))"
begin

lemma never_faults:
  assumes "parser_wf p" "n \<le> int (length buf)"
  shows "\<exists>r p' y. op p buf n x = Some (r, p', y)"
  using assms wrong_state [of p buf n x] short_block [of p n buf x] full_block [of p n buf x]
  by (metis not_le_imp_less)

lemma accepts:
  assumes "parser_wf p" "n \<le> int (length buf)" "op p buf n x = Some (FLV_PARSER_OK, p', y)"
  shows "fp_state p = st" "next_block_size p \<le> n" "parser_wf p'"
    "parsed_block_size p' = next_block_size p" "file_position p' = u64 (file_position p + next_block_size p)"
proof -
  show s: "fp_state p = st" using assms(3) wrong_state [of p buf n x] by (cases "fp_state p = st") auto
  show l: "next_block_size p \<le> n" using assms short_block [OF s, of n buf x] by (cases "n < next_block_size p") auto
  from full_block [OF s assms(1) l assms(2), of x] assms(3)
  show "parser_wf p'" "parsed_block_size p' = next_block_size p"
    "file_position p' = u64 (file_position p + next_block_size p)" by auto
qed

end

text \<open>\<^verbatim>\<open>flv_parser_skip\<close> fills nothing; it meets the contract with a \<open>unit\<close> in that place.\<close>

definition skip_op :: "flv_parser \<Rightarrow> bytes \<Rightarrow> gsize \<Rightarrow> unit \<Rightarrow> (flv_result \<times> flv_parser \<times> unit) option" where
  "skip_op p buf n x = map_option (\<lambda>(r, p'). (r, p', x)) (flv_parser_skip p buf n)"

interpretation rd_skip: block_reader skip_op FLV_PARSER_EXPECT_SKIP_BLOCK
  by unfold_locales (auto simp: skip_op_def flv_parser_skip_def next_tag_def parser_wf_def u64_range)

interpretation rd_script: block_reader flv_parser_read_script_data_tag FLV_PARSER_EXPECT_SCRIPT_DATA_TAG_BODY
  by unfold_locales (auto simp: flv_parser_read_script_data_tag_def next_tag_def parser_wf_def u64_range)

lemma low_bits: "b AND 0x0F = (b :: int) mod 16" "b AND 0x03 = b mod 4" "b AND 0x01 = b mod 2"
  using take_bit_eq_mask [of 4 b] take_bit_eq_mask [of 2 b]
  by (simp_all add: take_bit_eq_mod mask_eq_exp_minus_1 and_one_eq)

lemma high_nibble: "drop_bit 4 (b AND 0xF0 :: int) = b div 16 mod 16"
proof -
  have "drop_bit 4 (b AND 0xF0) = drop_bit 4 b AND drop_bit 4 (0xF0 :: int)" by (rule drop_bit_and)
  then show ?thesis by (simp add: drop_bit_eq_div low_bits)
qed

lemma middle_bits: "drop_bit 2 (b AND 0x0C :: int) = b div 4 mod 4"
proof -
  have "drop_bit 2 (b AND 0x0C) = drop_bit 2 b AND drop_bit 2 (0x0C :: int)" by (rule drop_bit_and)
  then show ?thesis by (simp add: drop_bit_eq_div low_bits)
qed

lemma bit_flags:
  "(b :: int) AND 0x02 \<noteq> 0 \<longleftrightarrow> b div 2 mod 2 = 1" "b AND 0x01 \<noteq> 0 \<longleftrightarrow> b mod 2 = 1"
  "b AND 0x04 \<noteq> 0 \<longleftrightarrow> b div 4 mod 2 = 1"
proof -
  have *: "b AND 2 ^ n \<noteq> 0 \<longleftrightarrow> bit b n" for n
    by (metis and_exp_eq_0_iff_not_bit)
  from * [of 1] * [of 0] * [of 2] show
    "(b :: int) AND 0x02 \<noteq> 0 \<longleftrightarrow> b div 2 mod 2 = 1" "b AND 0x01 \<noteq> 0 \<longleftrightarrow> b mod 2 = 1"
    "b AND 0x04 \<noteq> 0 \<longleftrightarrow> b div 4 mod 2 = 1"
    by (simp_all add: bit_iff_odd odd_iff_mod_2_eq_one)
qed

interpretation rd_audio: block_reader flv_parser_read_audio_tag FLV_PARSER_EXPECT_AUDIO_TAG_BODY
proof unfold_locales
  fix p and buf :: bytes and n and x :: flv_audio_tag
  assume p: "fp_state p = FLV_PARSER_EXPECT_AUDIO_TAG_BODY" "parser_wf p" "next_block_size p \<le> n"
    "n \<le> int (length buf)"
  then have "0 < int (length buf)" by (auto simp: parser_wf_def)
  then obtain b where b: "READ_UINT8 buf 0 = Some b" "0 \<le> b" "b < 256" using READ_UINT8_ok [of 0 buf] by auto
  then have "rd flv_audio_format_data_size (b div 16 mod 16) = Some (flv_audio_format_data_size ! nat (b div 16 mod 16))"
    by (intro rd_in) (auto simp: flv_audio_format_data_size_def)
  with p b show "\<exists>r p' y. flv_parser_read_audio_tag p buf n x = Some (r, p', y)
      \<and> r \<in> {FLV_PARSER_OK, FLV_PARSER_BAD_STREAM, FLV_PARSER_UNSUPPORTED_STREAM}
      \<and> (r = FLV_PARSER_OK \<longrightarrow> parser_wf p' \<and> parsed_block_size p' = next_block_size p
            \<and> file_position p' = u64 (file_position p + next_block_size p))"
    by (simp add: flv_parser_read_audio_tag_def high_nibble low_bits Let_def del: drop_bit_and) (simp add: next_tag_def)
qed (simp_all add: flv_parser_read_audio_tag_def)

interpretation rd_video: block_reader flv_parser_read_video_tag FLV_PARSER_EXPECT_VIDEO_TAG_BODY
proof unfold_locales
  fix p and buf :: bytes and n and x :: flv_video_tag
  assume p: "fp_state p = FLV_PARSER_EXPECT_VIDEO_TAG_BODY" "parser_wf p" "next_block_size p \<le> n"
    "n \<le> int (length buf)"
  then have "0 < int (length buf)" by (auto simp: parser_wf_def)
  then obtain b where b: "READ_UINT8 buf 0 = Some b" "0 \<le> b" "b < 256" using READ_UINT8_ok [of 0 buf] by auto
  then have "rd flv_video_codec_data_size (b mod 16) = Some (flv_video_codec_data_size ! nat (b mod 16))"
    by (intro rd_in) (auto simp: flv_video_codec_data_size_def)
  with p b show "\<exists>r p' y. flv_parser_read_video_tag p buf n x = Some (r, p', y)
      \<and> r \<in> {FLV_PARSER_OK, FLV_PARSER_BAD_STREAM, FLV_PARSER_UNSUPPORTED_STREAM}
      \<and> (r = FLV_PARSER_OK \<longrightarrow> parser_wf p' \<and> parsed_block_size p' = next_block_size p
            \<and> file_position p' = u64 (file_position p + next_block_size p))"
    by (simp add: flv_parser_read_video_tag_def high_nibble low_bits Let_def del: drop_bit_and) (simp add: next_tag_def)
qed (simp_all add: flv_parser_read_video_tag_def)

interpretation rd_header: block_reader flv_parser_read_header FLV_PARSER_EXPECT_HEADER
proof unfold_locales
  fix p and buf :: bytes and n and x :: flv_header
  assume p: "fp_state p = FLV_PARSER_EXPECT_HEADER" "parser_wf p" "next_block_size p \<le> n"
    "n \<le> int (length buf)"
  then have n: "next_block_size p = 9" "9 \<le> n" "9 \<le> int (length buf)" by (auto simp: parser_wf_def)
  then obtain o' where "READ_UINT32_BE buf 5 = Some o'" "0 \<le> o'" "o' < 4294967296"
    using READ_UINT32_ok [of 5 buf] by auto
  moreover have "READ_UINT8 buf i = Some (uint (buf ! nat i))" if "0 \<le> i" "i < 9" for i
    using that n(3) by (intro READ_UINT8_in) auto
  ultimately show "\<exists>r p' y. flv_parser_read_header p buf n x = Some (r, p', y)
      \<and> r \<in> {FLV_PARSER_OK, FLV_PARSER_BAD_STREAM, FLV_PARSER_UNSUPPORTED_STREAM}
      \<and> (r = FLV_PARSER_OK \<longrightarrow> parser_wf p' \<and> parsed_block_size p' = next_block_size p
            \<and> file_position p' = u64 (file_position p + next_block_size p))"
    using p n by (auto simp: flv_parser_read_header_def Let_def parser_wf_def u64_range)
qed (simp_all add: flv_parser_read_header_def parser_wf_def)

interpretation rd_prefix: block_reader flv_parser_read_tag_prefix FLV_PARSER_EXPECT_TAG_PREFIX
proof unfold_locales
  fix p and buf :: bytes and n and x :: flv_tag_prefix
  assume p: "fp_state p = FLV_PARSER_EXPECT_TAG_PREFIX" "parser_wf p" "next_block_size p \<le> n"
    "n \<le> int (length buf)"
  then have n: "next_block_size p = 11" "11 \<le> n" "11 \<le> int (length buf)" by (auto simp: parser_wf_def)
  then obtain s i t where "READ_UINT24_BE buf 1 = Some s" "0 \<le> s" "s < 16777216"
      "READ_UINT24_BE buf 8 = Some i" "FLV_READ_TS32 buf 4 = Some t"
    using READ_UINT24_ok [of 1 buf] READ_UINT24_ok [of 8 buf] READ_TS32_ok [of 4 buf] by auto
  moreover have "READ_UINT8 buf 0 = Some (uint (buf ! 0))"
    using n(3) READ_UINT8_in [of 0 buf] by (cases buf) auto
  ultimately show "\<exists>r p' y. flv_parser_read_tag_prefix p buf n x = Some (r, p', y)
      \<and> r \<in> {FLV_PARSER_OK, FLV_PARSER_BAD_STREAM, FLV_PARSER_UNSUPPORTED_STREAM}
      \<and> (r = FLV_PARSER_OK \<longrightarrow> parser_wf p' \<and> parsed_block_size p' = next_block_size p
            \<and> file_position p' = u64 (file_position p + next_block_size p))"
    using p n by (auto simp: flv_parser_read_tag_prefix_def Let_def parser_wf_def u64_range)
qed (simp_all add: flv_parser_read_tag_prefix_def parser_wf_def)

section \<open>A client that feeds the parser\<close>

text \<open>
  What the demuxer does with the parser alone: it hands over exactly the block asked for and
  dispatches on the state. \<open>feeder\<close> is the parser, the bytes not yet consumed, the events so far
  and whether every block was accepted.
\<close>

datatype flv_event = Ev_Header flv_header | Ev_Skip | Ev_Prefix flv_tag_prefix
  | Ev_Audio flv_audio_tag bytes | Ev_Video flv_video_tag bytes | Ev_Script script_reader bytes

definition no_header :: flv_header where
  "no_header = \<lparr>file_version = 0, has_audio_tags = False, has_video_tags = False\<rparr>"
definition no_prefix :: flv_tag_prefix where
  "no_prefix = \<lparr>tag_type = 0, body_size = 0, timestamp = 0\<rparr>"
definition no_audio :: flv_audio_tag where
  "no_audio = \<lparr>sound_format = 0, sampling_rate = 0, is_16bit = False, is_stereo_tag = False,
     audio_packet_offset = 0, audio_packet_size = 0\<rparr>"
definition no_video :: flv_video_tag where
  "no_video = \<lparr>codec_id = 0, frame_type = 0, video_packet_offset = 0, video_packet_size = 0\<rparr>"
definition no_script :: script_reader where "no_script = \<lparr>sr_pos = 0, sr_end = 0\<rparr>"

definition parse_block :: "flv_parser \<Rightarrow> bytes \<Rightarrow> (flv_result \<times> flv_parser \<times> flv_event) option" where
  "parse_block p data = (let n = int (length data) in
    case fp_state p of
      FLV_PARSER_EXPECT_HEADER \<Rightarrow>
        map_option (\<lambda>(r, p, h). (r, p, Ev_Header h)) (flv_parser_read_header p data n no_header)
    | FLV_PARSER_EXPECT_SKIP_BLOCK \<Rightarrow>
        map_option (\<lambda>(r, p). (r, p, Ev_Skip)) (flv_parser_skip p data n)
    | FLV_PARSER_EXPECT_TAG_PREFIX \<Rightarrow>
        map_option (\<lambda>(r, p, t). (r, p, Ev_Prefix t)) (flv_parser_read_tag_prefix p data n no_prefix)
    | FLV_PARSER_EXPECT_VIDEO_TAG_BODY \<Rightarrow>
        map_option (\<lambda>(r, p, t). (r, p, Ev_Video t data)) (flv_parser_read_video_tag p data n no_video)
    | FLV_PARSER_EXPECT_AUDIO_TAG_BODY \<Rightarrow>
        map_option (\<lambda>(r, p, t). (r, p, Ev_Audio t data)) (flv_parser_read_audio_tag p data n no_audio)
    | FLV_PARSER_EXPECT_SCRIPT_DATA_TAG_BODY \<Rightarrow>
        map_option (\<lambda>(r, p, t). (r, p, Ev_Script t data)) (flv_parser_read_script_data_tag p data n no_script)
    | FLV_PARSER_EOF \<Rightarrow> Some (FLV_PARSER_INVALID_STATE, p, Ev_Skip))"

record feeder =
  fd_parser :: flv_parser
  fd_bytes :: bytes
  fd_events :: "flv_event list"
  fd_going :: bool

definition ready :: "feeder \<Rightarrow> bool" where
  "ready s \<longleftrightarrow> fd_going s \<and> next_block_size (fd_parser s) \<le> int (length (fd_bytes s))"

definition feed_step :: "feeder \<Rightarrow> feeder option" where
  "feed_step s = (let n = nat (next_block_size (fd_parser s)) in do {
     (r, p, ev) \<leftarrow> parse_block (fd_parser s) (take n (fd_bytes s));
     Some (if r = FLV_PARSER_OK
       then s\<lparr>fd_parser := p, fd_bytes := drop n (fd_bytes s), fd_events := fd_events s @ [ev]\<rparr>
       else s\<lparr>fd_parser := p, fd_bytes := drop n (fd_bytes s), fd_going := False\<rparr>)
   })"

definition feed :: "feeder \<Rightarrow> feeder option" where "feed s = wloop ready feed_step s"

definition push :: "bytes \<Rightarrow> feeder \<Rightarrow> feeder" where "push xs s = s\<lparr>fd_bytes := fd_bytes s @ xs\<rparr>"

definition start :: feeder where
  "start = \<lparr>fd_parser = flv_parser_init, fd_bytes = [], fd_events = [], fd_going = True\<rparr>"

lemma parse_block_wf:
  assumes "parser_wf p" "int (length data) = next_block_size p"
  shows "\<exists>r p' ev. parse_block p data = Some (r, p', ev) \<and> (r = FLV_PARSER_OK \<longrightarrow> parser_wf p')"
proof -
  have l: "int (length data) \<le> int (length data)" by simp
  note wf = assms(1) and acc = rd_header.accepts(3) rd_prefix.accepts(3) rd_audio.accepts(3)
    rd_video.accepts(3) rd_script.accepts(3)
  show ?thesis
  proof (cases "fp_state p")
    case FLV_PARSER_EXPECT_SKIP_BLOCK
    then show ?thesis using wf assms(2) by (simp add: parse_block_def flv_parser_skip_def)
  next
    case FLV_PARSER_EOF
    then show ?thesis using wf by (simp add: parser_wf_def)
  next
    case FLV_PARSER_EXPECT_HEADER
    then show ?thesis using rd_header.never_faults [OF wf l, of no_header] acc(1) [OF wf l]
      by (fastforce simp: parse_block_def)
  next
    case FLV_PARSER_EXPECT_TAG_PREFIX
    then show ?thesis using rd_prefix.never_faults [OF wf l, of no_prefix] acc(2) [OF wf l]
      by (fastforce simp: parse_block_def)
  next
    case FLV_PARSER_EXPECT_AUDIO_TAG_BODY
    then show ?thesis using rd_audio.never_faults [OF wf l, of no_audio] acc(3) [OF wf l]
      by (fastforce simp: parse_block_def)
  next
    case FLV_PARSER_EXPECT_VIDEO_TAG_BODY
    then show ?thesis using rd_video.never_faults [OF wf l, of no_video] acc(4) [OF wf l]
      by (fastforce simp: parse_block_def)
  next
    case FLV_PARSER_EXPECT_SCRIPT_DATA_TAG_BODY
    then show ?thesis using rd_script.never_faults [OF wf l, of no_script] acc(5) [OF wf l]
      by (fastforce simp: parse_block_def)
  qed
qed

definition feeder_wf :: "feeder \<Rightarrow> bool" where
  "feeder_wf s \<longleftrightarrow> (fd_going s \<longrightarrow> parser_wf (fd_parser s))"

lemma ready_facts:
  assumes "feeder_wf s" "ready s"
  shows "parser_wf (fd_parser s)" "4 \<le> next_block_size (fd_parser s)"
    "next_block_size (fd_parser s) \<le> int (length (fd_bytes s))"
proof -
  show wf: "parser_wf (fd_parser s)" using assms by (simp add: feeder_wf_def ready_def)
  then show "4 \<le> next_block_size (fd_parser s)" using block_wf_pos by (auto simp: parser_wf_def)
  show "next_block_size (fd_parser s) \<le> int (length (fd_bytes s))" using assms by (simp add: ready_def)
qed

lemma feed_step_ok:
  assumes "feeder_wf s" "ready s"
  shows "\<exists>t. feed_step s = Some t \<and> feeder_wf t \<and> length (fd_bytes t) < length (fd_bytes s)"
proof -
  note f = ready_facts [OF assms]
  let ?n = "nat (next_block_size (fd_parser s))"
  have "int (length (take ?n (fd_bytes s))) = next_block_size (fd_parser s)" using f by auto
  from parse_block_wf [OF f(1) this] obtain r p ev where
    "parse_block (fd_parser s) (take ?n (fd_bytes s)) = Some (r, p, ev)" "r = FLV_PARSER_OK \<longrightarrow> parser_wf p"
    by blast
  with f assms show ?thesis by (auto simp: feed_step_def feeder_wf_def Let_def)
qed

text \<open>Whatever the bytes, feeding ends, and no block is read past its end.\<close>

lemma feed_total: "feeder_wf s \<Longrightarrow> \<exists>t. feed s = Some t \<and> feeder_wf t \<and> \<not> ready t"
  unfolding feed_def
  by (rule wloop_total [where m = "\<lambda>s. length (fd_bytes s)"]) (use feed_step_ok in blast)+

lemma ready_push: "ready s \<Longrightarrow> ready (push xs s)"
  by (auto simp: ready_def push_def)

lemma feed_step_push:
  assumes "feeder_wf s" "ready s"
  shows "feed_step (push xs s) = map_option (push xs) (feed_step s)"
proof -
  note f = ready_facts [OF assms]
  let ?n = "nat (next_block_size (fd_parser s))"
  have "take ?n (fd_bytes s @ xs) = take ?n (fd_bytes s)" "drop ?n (fd_bytes s @ xs) = drop ?n (fd_bytes s) @ xs"
    using f by auto
  then show ?thesis
    by (cases "parse_block (fd_parser s) (take ?n (fd_bytes s))")
      (auto simp: feed_step_def push_def Let_def)
qed

text \<open>How the stream is cut into buffers does not matter.\<close>

lemma feed_chunks:
  assumes "feeder_wf s" "feed s = Some t"
  shows "feed (push xs s) = feed (push xs t)"
  using assms
proof (induction "length (fd_bytes s)" arbitrary: s rule: less_induct)
  case less
  show ?case
  proof (cases "ready s")
    case True
    from feed_step_ok [OF less.prems(1) True] obtain u where u: "feed_step s = Some u" "feeder_wf u"
        "length (fd_bytes u) < length (fd_bytes s)" by blast
    have "feed u = Some t" using less.prems(2) u(1) True by (simp add: feed_def wloop_step)
    from less.hyps [OF u(3,2) this] have "feed (push xs u) = feed (push xs t)" .
    moreover have "feed (push xs s) = feed (push xs u)"
      using feed_step_push [OF less.prems(1) True, of xs] u(1) ready_push [OF True, of xs]
      by (simp add: feed_def wloop_step)
    ultimately show ?thesis by simp
  next
    case False
    with less.prems(2) show ?thesis by (simp add: feed_def wloop_stop)
  qed
qed

section \<open>Files and their tags\<close>

text \<open>The layout of the format as the comments of the source give it.\<close>

definition octet :: "int \<Rightarrow> jbyte" where "octet n = word_of_int n"
definition be24 :: "int \<Rightarrow> bytes" where "be24 n = [octet (n div 65536), octet (n div 256), octet n]"
definition be32 :: "int \<Rightarrow> bytes" where
  "be32 n = [octet (n div 16777216), octet (n div 65536), octet (n div 256), octet n]"

datatype flv_item =
    Audio_Item jint int int bool bool bytes bytes
  | Video_Item jint int int bytes bytes
  | Script_Item jint bytes

fun item_type :: "flv_item \<Rightarrow> int" where
  "item_type (Audio_Item _ _ _ _ _ _ _) = FLV_TAG_TYPE_AUDIO"
| "item_type (Video_Item _ _ _ _ _) = FLV_TAG_TYPE_VIDEO"
| "item_type (Script_Item _ _) = FLV_TAG_TYPE_SCRIPT_DATA"

fun item_time :: "flv_item \<Rightarrow> jint" where
  "item_time (Audio_Item ts _ _ _ _ _ _) = ts"
| "item_time (Video_Item ts _ _ _ _) = ts"
| "item_time (Script_Item ts _) = ts"

fun item_body :: "flv_item \<Rightarrow> bytes" where
  "item_body (Audio_Item _ fmt rate b16 st extra packet) =
     octet (fmt * 16 + rate * 4 + of_bool b16 * 2 + of_bool st) # extra @ packet"
| "item_body (Video_Item _ frame codec extra packet) = octet (frame * 16 + codec) # extra @ packet"
| "item_body (Script_Item _ body) = body"

fun item_fields_ok :: "flv_item \<Rightarrow> bool" where
  "item_fields_ok (Audio_Item _ fmt rate b16 st extra packet) \<longleftrightarrow> 0 \<le> fmt \<and> fmt < 16 \<and> 0 \<le> rate \<and> rate < 4
     \<and> int (length extra) = flv_audio_format_data_size ! nat fmt"
| "item_fields_ok (Video_Item _ frame codec extra packet) \<longleftrightarrow> 0 \<le> frame \<and> frame < 16 \<and> 0 \<le> codec \<and> codec < 16
     \<and> int (length extra) = flv_video_codec_data_size ! nat codec"
| "item_fields_ok (Script_Item _ _) \<longleftrightarrow> True"

definition item_ok :: "flv_item \<Rightarrow> bool" where
  "item_ok it \<longleftrightarrow> is_jint (item_time it) \<and> length (item_body it) < 16777216 \<and> item_fields_ok it"

definition tag_suffix :: "flv_item \<Rightarrow> bytes" where
  "tag_suffix it = be32 (int (length (item_body it)) + FLV_TAG_PREFIX_SIZE)"

definition tag_prefix :: "flv_item \<Rightarrow> bytes" where
  "tag_prefix it = octet (item_type it) # be24 (int (length (item_body it)))
     @ be24 (item_time it mod 16777216) @ [octet (item_time it div 16777216)] @ be24 0"

definition encode_item :: "flv_item \<Rightarrow> bytes" where
  "encode_item it = tag_prefix it @ item_body it @ tag_suffix it"

definition encode_file :: "bool \<Rightarrow> bool \<Rightarrow> bytes \<Rightarrow> bytes \<Rightarrow> flv_item list \<Rightarrow> bytes" where
  "encode_file audio video pad zero items =
     [0x46, 0x4C, 0x56, 1, octet (of_bool audio * 4 + of_bool video)]
       @ be32 (FLV_HEADER_SIZE + int (length pad)) @ pad @ zero @ concat (List.map encode_item items)"

fun body_event :: "flv_item \<Rightarrow> flv_event" where
  "body_event (Audio_Item ts fmt rate b16 st extra packet) =
     Ev_Audio \<lparr>sound_format = fmt, sampling_rate = rate, is_16bit = b16, is_stereo_tag = st,
         audio_packet_offset = 1 + int (length extra), audio_packet_size = int (length packet)\<rparr>
       (item_body (Audio_Item ts fmt rate b16 st extra packet)
         @ tag_suffix (Audio_Item ts fmt rate b16 st extra packet))"
| "body_event (Video_Item ts frame codec extra packet) =
     Ev_Video \<lparr>codec_id = codec, frame_type = frame, video_packet_offset = 1 + int (length extra),
         video_packet_size = int (length packet)\<rparr>
       (item_body (Video_Item ts frame codec extra packet) @ tag_suffix (Video_Item ts frame codec extra packet))"
| "body_event (Script_Item ts body) =
     Ev_Script \<lparr>sr_pos = 0, sr_end = int (length body)\<rparr> (body @ tag_suffix (Script_Item ts body))"

definition item_events :: "flv_item \<Rightarrow> flv_event list" where
  "item_events it = [Ev_Prefix \<lparr>tag_type = item_type it, body_size = int (length (item_body it)),
      timestamp = item_time it\<rparr>, body_event it]"

lemma uint_octet [simp]: "uint (octet n) = n mod 256"
  by (simp add: octet_def uint_word_of_int)

lemma READ_UINT8_at: "i = int (length xs) \<Longrightarrow> READ_UINT8 (xs @ b # ys) i = Some (uint b)"
  by (simp add: READ_UINT8_def rd_def in_arr_def)

lemma READ_UINT8_Cons [simp]: "READ_UINT8 (b # ys) 0 = Some (uint b)"
  "0 < i \<Longrightarrow> READ_UINT8 (b # ys) i = READ_UINT8 ys (i - 1)"
  by (auto simp: READ_UINT8_def rd_def in_arr_def nth_Cons' nat_diff_distrib)

lemma byte_step: "(n div k mod 256) = n div k - n div (k * 256) * 256" if "0 < k" for n :: int
proof -
  have "n div (k * 256) = n div k div 256" using that by (simp add: zdiv_zmult2_eq)
  then show ?thesis by (simp add: minus_div_mult_eq_mod)
qed

lemma horner:
  fixes a b c d n x y z :: int
  assumes "d = n - z * 256" "c = z - y * 256" "b = y - x * 256" "a = x"
  shows "(a * 256 + b) * 65536 + (c * 256 + d) = n" "(b * 256 + c) * 256 + d = n - x * 16777216"
  using assms by (simp_all add: algebra_simps)

lemma digit: "n div k mod 256 = n div k - n div m * 256" if "0 < k" "m = k * 256" for n :: int
  using byte_step [OF that(1)] that(2) by simp

lemma digits:
  "n mod 256 = n - n div 256 * 256" "n div 256 mod 256 = n div 256 - n div 65536 * 256"
  "n div 65536 mod 256 = n div 65536 - n div 16777216 * 256" for n :: int
  by (simp add: minus_div_mult_eq_mod) (rule digit; simp)+

lemma split24:
  assumes "0 \<le> n" "n < 16777216"
  shows "(n div 65536 mod 256 * 256 + n div 256 mod 256) * 256 + n mod 256 = (n :: int)"
proof -
  have "n div 16777216 = 0" using assms by simp
  have "(n div 65536 mod 256 * 256 + n div 256 mod 256) * 256 + n mod 256 = n - n div 16777216 * 16777216"
    by (rule horner(2) [OF digits refl])
  then show ?thesis by (simp only: \<open>n div 16777216 = 0\<close> mult_zero_left diff_zero)
qed

lemma split32:
  assumes "0 \<le> n" "n < 4294967296"
  shows "(n div 16777216 mod 256 * 256 + n div 65536 mod 256) * 65536
      + (n div 256 mod 256 * 256 + n mod 256) = (n :: int)"
proof -
  have "n div 4294967296 = 0" using assms by simp
  with digit [of 16777216 4294967296 n] have "n div 16777216 mod 256 = n div 16777216" by simp
  from horner(1) [OF digits this] show ?thesis .
qed

lemma pow8: "2 ^ 8 = (256 :: int)" "2 ^ 16 = (65536 :: int)" "2 ^ 24 = (16777216 :: int)"
  by simp_all

text \<open>The fixed-width leaves of the format, read back at any place.\<close>

lemma READ_UINT8_at2: "i = int (length xs) + int k \<Longrightarrow> k < length ys \<Longrightarrow> READ_UINT8 (xs @ ys @ zs) i = Some (uint (ys ! k))"
  by (auto simp: READ_UINT8_def rd_def in_arr_def nth_append nat_add_distrib)

lemma READ_UINT24_be24:
  assumes "i = int (length xs)" "0 \<le> n" "n < 16777216"
  shows "READ_UINT24_BE (xs @ be24 n @ ys) i = Some n"
proof -
  have "READ_UINT8 (xs @ be24 n @ ys) i = Some (n div 65536 mod 256)"
    "READ_UINT8 (xs @ be24 n @ ys) (i + 1) = Some (n div 256 mod 256)"
    "READ_UINT8 (xs @ be24 n @ ys) (i + 2) = Some (n mod 256)"
    using assms(1) READ_UINT8_at2 [of i xs 0 "be24 n" ys] READ_UINT8_at2 [of "i + 1" xs 1 "be24 n" ys]
      READ_UINT8_at2 [of "i + 2" xs 2 "be24 n" ys]
    by (simp_all add: be24_def)
  then show ?thesis
    by (simp only: READ_UINT24_BE_def READ_UINT16_BE_def Option.bind.simps pow8 split24 [OF assms(2,3)]
        add.assoc [of i] numeral_plus_numeral add_num_simps one_plus_numeral numeral_plus_one)
qed

lemma READ_UINT32_be32:
  assumes "i = int (length xs)" "0 \<le> n" "n < 4294967296"
  shows "READ_UINT32_BE (xs @ be32 n @ ys) i = Some n"
proof -
  have "READ_UINT8 (xs @ be32 n @ ys) i = Some (n div 16777216 mod 256)"
    "READ_UINT8 (xs @ be32 n @ ys) (i + 1) = Some (n div 65536 mod 256)"
    "READ_UINT8 (xs @ be32 n @ ys) (i + 2) = Some (n div 256 mod 256)"
    "READ_UINT8 (xs @ be32 n @ ys) (i + 3) = Some (n mod 256)"
    using assms(1) READ_UINT8_at2 [of i xs 0 "be32 n" ys] READ_UINT8_at2 [of "i + 1" xs 1 "be32 n" ys]
      READ_UINT8_at2 [of "i + 2" xs 2 "be32 n" ys] READ_UINT8_at2 [of "i + 3" xs 3 "be32 n" ys]
    by (simp_all add: be32_def)
  then show ?thesis
    by (simp only: READ_UINT32_BE_def READ_UINT16_BE_def Option.bind.simps pow8 split32 [OF assms(2,3)]
        add.assoc [of i] numeral_plus_numeral add_num_simps one_plus_numeral numeral_plus_one)
qed

lemma time_split:
  assumes "is_jint t"
  shows "i32 (t div 16777216 mod 256 * 16777216 + t mod 16777216) = t"
proof -
  let ?q = "t div 16777216"
  have "?q mod 256 * 16777216 + t mod 16777216 = t - (?q div 256) * 4294967296"
    using div_mult_mod_eq [of t 16777216] div_mult_mod_eq [of ?q 256] by linarith
  moreover have "i32 (t - k * 4294967296) = i32 t" for k
  proof -
    have "t - k * 4294967296 + 2147483648 = t + 2147483648 + (- k) * 4294967296" by simp
    then show ?thesis unfolding i32_def by (simp only: mod_mult_self1)
  qed
  ultimately show ?thesis using assms by (simp add: i32_jint)
qed

lemma read_prefix_encoded:
  assumes "item_ok it" "fp_state p = FLV_PARSER_EXPECT_TAG_PREFIX"
  shows "flv_parser_read_tag_prefix p (tag_prefix it) 11 no_prefix = Some (FLV_PARSER_OK,
     p\<lparr>parsed_block_size := 11, file_position := u64 (file_position p + 11),
       next_block_size := int (length (item_body it)) + 4,
       fp_state := (case it of Audio_Item _ _ _ _ _ _ _ \<Rightarrow> FLV_PARSER_EXPECT_AUDIO_TAG_BODY
         | Video_Item _ _ _ _ _ \<Rightarrow> FLV_PARSER_EXPECT_VIDEO_TAG_BODY
         | Script_Item _ _ \<Rightarrow> FLV_PARSER_EXPECT_SCRIPT_DATA_TAG_BODY)\<rparr>,
     \<lparr>tag_type = item_type it, body_size = int (length (item_body it)), timestamp = item_time it\<rparr>)"
proof -
  let ?n = "int (length (item_body it))" and ?t = "item_time it"
  from assms(1) have n: "0 \<le> ?n" "?n < 16777216" and t: "is_jint ?t" by (auto simp: item_ok_def)
  have ty: "READ_UINT8 (tag_prefix it) 0 = Some (item_type it)"
    by (cases it) (simp_all add: tag_prefix_def)
  have sz: "READ_UINT24_BE (tag_prefix it) 1 = Some ?n"
    using READ_UINT24_be24 [of 1 "[octet (item_type it)]", OF _ n] by (simp add: tag_prefix_def)
  have tm: "READ_UINT24_BE (tag_prefix it) 4 = Some (?t mod 16777216)"
    using READ_UINT24_be24 [of 4 "octet (item_type it) # be24 ?n" "?t mod 16777216"
        "[octet (?t div 16777216)] @ be24 0"]
    by (simp add: tag_prefix_def be24_def)
  have sid: "READ_UINT24_BE (tag_prefix it) 8 = Some 0"
    using READ_UINT24_be24 [of 8 "octet (item_type it) # be24 ?n @ be24 (?t mod 16777216)
        @ [octet (?t div 16777216)]" 0 "[]"]
    by (simp add: tag_prefix_def be24_def)
  have "READ_UINT8 (tag_prefix it) 7 = Some (?t div 16777216 mod 256)"
    by (simp add: tag_prefix_def be24_def)
  then have ts: "FLV_READ_TS32 (tag_prefix it) 4 = Some ?t"
    using time_split [OF t] tm by (simp add: FLV_READ_TS32_def)
  have bind: "flv_parser_read_tag_prefix p (tag_prefix it) 11 no_prefix =
     (let q = p\<lparr>parsed_block_size := 11, file_position := u64 (file_position p + 11), next_block_size := u64 (?n + 4)\<rparr>;
          tag = \<lparr>tag_type = item_type it, body_size = ?n, timestamp = ?t\<rparr>
      in Some (if item_type it = 8 then (FLV_PARSER_OK, q\<lparr>fp_state := FLV_PARSER_EXPECT_AUDIO_TAG_BODY\<rparr>, tag)
            else if item_type it = 9 then (FLV_PARSER_OK, q\<lparr>fp_state := FLV_PARSER_EXPECT_VIDEO_TAG_BODY\<rparr>, tag)
            else if item_type it = 18 then (FLV_PARSER_OK, q\<lparr>fp_state := FLV_PARSER_EXPECT_SCRIPT_DATA_TAG_BODY\<rparr>, tag)
            else (FLV_PARSER_UNSUPPORTED_STREAM, q, tag)))"
    unfolding flv_parser_read_tag_prefix_def ty sz sid ts using assms(2)
    by (simp add: no_prefix_def Let_def)
  show ?thesis unfolding bind using n by (cases it) (simp_all add: Let_def)
qed

lemma tag_suffix_length [simp]: "length (tag_suffix it) = 4"
  by (simp add: tag_suffix_def be32_def)

lemma tag_prefix_length [simp]: "length (tag_prefix it) = 11"
  by (simp add: tag_prefix_def be24_def)

text \<open>The flag byte of an audio tag takes its four fields back.\<close>

lemma audio_byte:
  assumes "0 \<le> f" "f < 16" "0 \<le> r" "r < 4"
  shows "(f * 16 + r * 4 + of_bool b * 2 + of_bool c) mod 256 div 16 mod 16 = (f :: int)"
    "(f * 16 + r * 4 + of_bool b * 2 + of_bool c) mod 256 div 4 mod 4 = (r :: int)"
    "(f * 16 + r * 4 + of_bool b * 2 + of_bool c) mod 256 div 2 mod 2 = (of_bool b :: int)"
    "(f * 16 + r * 4 + of_bool b * 2 + of_bool c) mod 256 mod 2 = (of_bool c :: int)"
  using assms by (cases b; cases c; simp; presburger)+

lemma video_byte:
  assumes "0 \<le> f" "f < 16" "0 \<le> c" "c < 16"
  shows "(f * 16 + c) mod 256 div 16 mod 16 = (f :: int)" "(f * 16 + c) mod 256 mod 16 = (c :: int)"
  using assms by simp_all

lemma parse_body_encoded:
  assumes "item_ok it" "next_block_size p = int (length (item_body it)) + 4"
    and "fp_state p = (case it of Audio_Item _ _ _ _ _ _ _ \<Rightarrow> FLV_PARSER_EXPECT_AUDIO_TAG_BODY
         | Video_Item _ _ _ _ _ \<Rightarrow> FLV_PARSER_EXPECT_VIDEO_TAG_BODY
         | Script_Item _ _ \<Rightarrow> FLV_PARSER_EXPECT_SCRIPT_DATA_TAG_BODY)"
  shows "parse_block p (item_body it @ tag_suffix it) = Some (FLV_PARSER_OK, next_tag p, body_event it)"
proof (cases it)
  case (Audio_Item ts fmt rate b16 st extra packet)
  let ?b = "fmt * 16 + rate * 4 + of_bool b16 * 2 + of_bool st"
  from assms(1) Audio_Item have f: "0 \<le> fmt" "fmt < 16" "0 \<le> rate" "rate < 4"
    and l: "int (length packet) < 16777216"
    and x: "int (length extra) = flv_audio_format_data_size ! nat fmt" by (auto simp: item_ok_def)
  have "rd flv_audio_format_data_size fmt = Some (int (length extra))"
    using f x by (simp add: rd_def in_arr_def flv_audio_format_data_size_def)
  then show ?thesis using Audio_Item assms(2,3) l
    by (simp add: parse_block_def flv_parser_read_audio_tag_def no_audio_def high_nibble middle_bits
        bit_flags audio_byte [OF f] Let_def del: drop_bit_and)
next
  case (Video_Item ts frame codec extra packet)
  from assms(1) Video_Item have f: "0 \<le> frame" "frame < 16" "0 \<le> codec" "codec < 16"
    and l: "int (length packet) < 16777216"
    and x: "int (length extra) = flv_video_codec_data_size ! nat codec" by (auto simp: item_ok_def)
  have "rd flv_video_codec_data_size codec = Some (int (length extra))"
    using f x by (simp add: rd_def in_arr_def flv_video_codec_data_size_def)
  then show ?thesis using Video_Item assms(2,3) l
    by (simp add: parse_block_def flv_parser_read_video_tag_def no_video_def high_nibble low_bits
        video_byte [OF f] Let_def del: drop_bit_and)
next
  case (Script_Item ts body)
  then show ?thesis using assms(2,3)
    by (simp add: parse_block_def flv_parser_read_script_data_tag_def no_script_def)
qed

text \<open>Feeding one tag, then a list of tags, then a file.\<close>

lemma feed_one:
  assumes "fd_going s" "int (length blk) = next_block_size (fd_parser s)" "fd_bytes s = blk @ rest"
    and "parse_block (fd_parser s) blk = Some (FLV_PARSER_OK, p, ev)"
  shows "feed s = feed (s\<lparr>fd_parser := p, fd_bytes := rest, fd_events := fd_events s @ [ev]\<rparr>)"
proof -
  have "ready s" using assms(1-3) by (simp add: ready_def)
  moreover have "nat (next_block_size (fd_parser s)) = length blk" using assms(2) by simp
  ultimately show ?thesis using assms(3,4) by (simp add: feed_def wloop_step feed_step_def)
qed

definition at_tag :: "feeder \<Rightarrow> bool" where
  "at_tag s \<longleftrightarrow> fd_going s \<and> fp_state (fd_parser s) = FLV_PARSER_EXPECT_TAG_PREFIX
     \<and> next_block_size (fd_parser s) = 11"

lemma feed_item:
  assumes "item_ok it" "at_tag s" "fd_bytes s = encode_item it @ rest"
  shows "\<exists>p. feed s = feed (s\<lparr>fd_parser := p, fd_bytes := rest, fd_events := fd_events s @ item_events it\<rparr>)
     \<and> at_tag (s\<lparr>fd_parser := p, fd_bytes := rest, fd_events := fd_events s @ item_events it\<rparr>)
     \<and> file_position p = u64 (file_position (fd_parser s) + int (length (encode_item it)))"
proof -
  let ?p = "fd_parser s" and ?n = "int (length (item_body it))"
  let ?q = "?p\<lparr>parsed_block_size := 11, file_position := u64 (file_position ?p + 11), next_block_size := ?n + 4,
       fp_state := (case it of Audio_Item _ _ _ _ _ _ _ \<Rightarrow> FLV_PARSER_EXPECT_AUDIO_TAG_BODY
         | Video_Item _ _ _ _ _ \<Rightarrow> FLV_PARSER_EXPECT_VIDEO_TAG_BODY
         | Script_Item _ _ \<Rightarrow> FLV_PARSER_EXPECT_SCRIPT_DATA_TAG_BODY)\<rparr>"
  let ?e = "Ev_Prefix \<lparr>tag_type = item_type it, body_size = ?n, timestamp = item_time it\<rparr>"
  let ?s1 = "s\<lparr>fd_parser := ?q, fd_bytes := item_body it @ tag_suffix it @ rest, fd_events := fd_events s @ [?e]\<rparr>"
  have at: "fp_state ?p = FLV_PARSER_EXPECT_TAG_PREFIX" "next_block_size ?p = 11" "fd_going s"
    using assms(2) by (simp_all add: at_tag_def)
  have "parse_block ?p (tag_prefix it) = Some (FLV_PARSER_OK, ?q, ?e)"
    using read_prefix_encoded [OF assms(1) at(1)] at(1) by (simp add: parse_block_def)
  then have 1: "feed s = feed ?s1"
    using feed_one [OF at(3), of "tag_prefix it" "item_body it @ tag_suffix it @ rest"] at(2) assms(3)
    by (simp add: encode_item_def)
  have "parse_block ?q (item_body it @ tag_suffix it) = Some (FLV_PARSER_OK, next_tag ?q, body_event it)"
    by (rule parse_body_encoded [OF assms(1)]) simp_all
  then have 2: "feed ?s1 = feed (s\<lparr>fd_parser := next_tag ?q, fd_bytes := rest,
      fd_events := fd_events s @ item_events it\<rparr>)"
    using feed_one [of ?s1 "item_body it @ tag_suffix it" rest] at(3) by (simp add: item_events_def)
  have "file_position (next_tag ?q) = u64 (file_position ?p + int (length (encode_item it)))"
    by (simp add: next_tag_def encode_item_def u64_u64_add add.assoc)
  then show ?thesis using 1 2 at(3) by (intro exI [of _ "next_tag ?q"]) (simp add: at_tag_def next_tag_def)
qed

lemma feed_items:
  assumes "\<forall>it \<in> set items. item_ok it" "at_tag s" "fd_bytes s = concat (List.map encode_item items)"
    "0 \<le> file_position (fd_parser s)" "file_position (fd_parser s) < 18446744073709551616"
  shows "\<exists>p. feed s = Some (s\<lparr>fd_parser := p, fd_bytes := [],
        fd_events := fd_events s @ concat (List.map item_events items)\<rparr>)
     \<and> fp_state p = FLV_PARSER_EXPECT_TAG_PREFIX
     \<and> file_position p = u64 (file_position (fd_parser s) + int (length (concat (List.map encode_item items))))"
  using assms
proof (induction items arbitrary: s)
  case Nil
  then have "\<not> ready s" by (simp add: ready_def at_tag_def)
  with Nil show ?case
    by (intro exI [of _ "fd_parser s"]) (simp add: feed_def wloop_stop at_tag_def)
next
  case (Cons it items)
  from feed_item [of it s "concat (List.map encode_item items)"] Cons.prems obtain p where
    p: "feed s = feed (s\<lparr>fd_parser := p, fd_bytes := concat (List.map encode_item items),
          fd_events := fd_events s @ item_events it\<rparr>)"
      "at_tag (s\<lparr>fd_parser := p, fd_bytes := concat (List.map encode_item items),
          fd_events := fd_events s @ item_events it\<rparr>)"
      "file_position p = u64 (file_position (fd_parser s) + int (length (encode_item it)))"
    by auto
  from Cons.IH [OF _ p(2)] Cons.prems(1) p(3) u64_range obtain q where
    q: "feed (s\<lparr>fd_parser := p, fd_bytes := concat (List.map encode_item items),
          fd_events := fd_events s @ item_events it\<rparr>)
       = Some (s\<lparr>fd_parser := q, fd_bytes := [],
          fd_events := (fd_events s @ item_events it) @ concat (List.map item_events items)\<rparr>)"
      "fp_state q = FLV_PARSER_EXPECT_TAG_PREFIX"
      "file_position q = u64 (file_position p + int (length (concat (List.map encode_item items))))"
    by auto
  have "file_position q = u64 (file_position (fd_parser s)
      + int (length (concat (List.map encode_item (it # items)))))"
    using q(3) p(3) by (simp add: u64_def mod_simps algebra_simps)
  with p(1) q show ?case by (intro exI [of _ q]) simp
qed

definition file_ok :: "bytes \<Rightarrow> bytes \<Rightarrow> flv_item list \<Rightarrow> bool" where
  "file_ok pad zero items \<longleftrightarrow> length pad < 4294967287 \<and> length zero = 4 \<and> (\<forall>it \<in> set items. item_ok it)"

definition file_events :: "bool \<Rightarrow> bool \<Rightarrow> flv_item list \<Rightarrow> flv_event list" where
  "file_events audio video items =
     Ev_Header \<lparr>file_version = 1, has_audio_tags = audio, has_video_tags = video\<rparr> # Ev_Skip
       # concat (List.map item_events items)"

lemma flag_byte:
  "(of_bool a * 4 + of_bool v) mod 256 AND 0xFA = (0 :: int)"
  "(of_bool a * 4 + of_bool v) mod 256 AND 0x04 \<noteq> (0 :: int) \<longleftrightarrow> a"
  "(of_bool a * 4 + of_bool v) mod 256 AND 0x01 \<noteq> (0 :: int) \<longleftrightarrow> v"
  by (cases a; cases v; simp)+

lemma read_header_encoded:
  assumes "length pad < 4294967287"
  shows "flv_parser_read_header flv_parser_init
      ([0x46, 0x4C, 0x56, 1, octet (of_bool audio * 4 + of_bool video)] @ be32 (9 + int (length pad))) 9 no_header
    = Some (FLV_PARSER_OK, \<lparr>fp_state = FLV_PARSER_EXPECT_SKIP_BLOCK, file_position = 9,
        parsed_block_size = 9, next_block_size = int (length pad) + 4\<rparr>,
      \<lparr>file_version = 1, has_audio_tags = audio, has_video_tags = video\<rparr>)"
proof -
  let ?o = "9 + int (length pad)"
  let ?h = "[0x46, 0x4C, 0x56, 1, octet (of_bool audio * 4 + of_bool video)] :: bytes"
  have o: "READ_UINT32_BE (?h @ be32 ?o) 5 = Some ?o"
    using READ_UINT32_be32 [of 5 ?h ?o "[]"] assms by simp
  have b: "READ_UINT8 (?h @ be32 ?o) 4 = Some ((of_bool audio * 4 + of_bool video) mod 256)"
    by simp
  show ?thesis using assms
    unfolding flv_parser_read_header_def o b
    by (simp add: flag_byte no_header_def flv_parser_init_def Let_def)
qed

lemma feed_file:
  assumes "file_ok pad zero items"
  shows "\<exists>p. feed (push (encode_file audio video pad zero items) start)
      = Some \<lparr>fd_parser = p, fd_bytes = [], fd_events = file_events audio video items, fd_going = True\<rparr>
    \<and> fp_state p = FLV_PARSER_EXPECT_TAG_PREFIX
    \<and> file_position p = u64 (int (length (encode_file audio video pad zero items)))"
proof -
  let ?h = "[0x46, 0x4C, 0x56, 1, octet (of_bool audio * 4 + of_bool video)] @ be32 (9 + int (length pad))"
  let ?tags = "concat (List.map encode_item items)"
  let ?p1 = "\<lparr>fp_state = FLV_PARSER_EXPECT_SKIP_BLOCK, file_position = 9,
        parsed_block_size = 9, next_block_size = int (length pad) + 4\<rparr>"
  let ?s0 = "push (encode_file audio video pad zero items) start"
  let ?e1 = "Ev_Header \<lparr>file_version = 1, has_audio_tags = audio, has_video_tags = video\<rparr>"
  let ?s1 = "\<lparr>fd_parser = ?p1, fd_bytes = pad @ zero @ ?tags, fd_events = [?e1], fd_going = True\<rparr>"
  let ?s2 = "\<lparr>fd_parser = next_tag ?p1, fd_bytes = ?tags, fd_events = [?e1, Ev_Skip], fd_going = True\<rparr>"
  from assms have pad: "length pad < 4294967287" and z: "length zero = 4" and it: "\<forall>it \<in> set items. item_ok it"
    by (simp_all add: file_ok_def)
  have "parse_block flv_parser_init ?h = Some (FLV_PARSER_OK, ?p1, ?e1)"
    using read_header_encoded [OF pad, of audio video]
    by (simp add: parse_block_def flv_parser_init_def be32_def)
  then have "feed ?s0 = feed ?s1"
    using feed_one [of ?s0 ?h "pad @ zero @ ?tags" ?p1 ?e1]
    by (simp add: push_def start_def encode_file_def be32_def flv_parser_init_def)
  also have "parse_block ?p1 (pad @ zero) = Some (FLV_PARSER_OK, next_tag ?p1, Ev_Skip)"
    using z by (simp add: parse_block_def flv_parser_skip_def)
  then have "feed ?s1 = feed ?s2"
    using feed_one [of ?s1 "pad @ zero" ?tags] z by simp
  finally have "feed ?s0 = feed ?s2" .
  moreover have "int (length (encode_file audio video pad zero items)) = file_position (next_tag ?p1) + int (length ?tags)"
    using pad z by (simp add: encode_file_def be32_def next_tag_def)
  moreover have "at_tag ?s2" by (simp add: at_tag_def next_tag_def)
  ultimately show ?thesis
    using feed_items [OF it, of ?s2] u64_range by (simp add: file_events_def next_tag_def)
qed

section \<open>The file position\<close>

lemma parse_block_position:
  assumes "parser_wf p" "int (length data) = next_block_size p" "parse_block p data = Some (FLV_PARSER_OK, p', ev)"
  shows "file_position p' = u64 (file_position p + next_block_size p)"
proof -
  have l: "int (length data) \<le> int (length data)" by simp
  note acc = rd_header.accepts(5) rd_prefix.accepts(5) rd_audio.accepts(5) rd_video.accepts(5) rd_script.accepts(5)
  show ?thesis
  proof (cases "fp_state p")
    case FLV_PARSER_EXPECT_SKIP_BLOCK
    then show ?thesis using assms by (auto simp: parse_block_def flv_parser_skip_def next_tag_def)
  next
    case FLV_PARSER_EOF
    then show ?thesis using assms by (simp add: parser_wf_def)
  next
    case FLV_PARSER_EXPECT_HEADER
    then show ?thesis using acc(1) [OF assms(1) l] assms(3) by (auto simp: parse_block_def)
  next
    case FLV_PARSER_EXPECT_TAG_PREFIX
    then show ?thesis using acc(2) [OF assms(1) l] assms(3) by (auto simp: parse_block_def)
  next
    case FLV_PARSER_EXPECT_AUDIO_TAG_BODY
    then show ?thesis using acc(3) [OF assms(1) l] assms(3) by (auto simp: parse_block_def)
  next
    case FLV_PARSER_EXPECT_VIDEO_TAG_BODY
    then show ?thesis using acc(4) [OF assms(1) l] assms(3) by (auto simp: parse_block_def)
  next
    case FLV_PARSER_EXPECT_SCRIPT_DATA_TAG_BODY
    then show ?thesis using acc(5) [OF assms(1) l] assms(3) by (auto simp: parse_block_def)
  qed
qed

definition counted :: "int \<Rightarrow> feeder \<Rightarrow> bool" where
  "counted N s \<longleftrightarrow> feeder_wf s \<and>
     (fd_going s \<longrightarrow> file_position (fd_parser s) = u64 (N - int (length (fd_bytes s))))"

lemma feed_step_counted:
  assumes "counted N s" "ready s"
  shows "\<exists>t. feed_step s = Some t \<and> counted N t \<and> length (fd_bytes t) < length (fd_bytes s)"
proof -
  have w: "feeder_wf s" and g: "fd_going s" using assms by (simp_all add: counted_def ready_def)
  note f = ready_facts [OF w assms(2)]
  obtain t where t: "feed_step s = Some t" "feeder_wf t" "length (fd_bytes t) < length (fd_bytes s)"
    using feed_step_ok [OF w assms(2)] by blast
  let ?n = "next_block_size (fd_parser s)" and ?L = "int (length (fd_bytes s))"
  have l: "int (length (take (nat ?n) (fd_bytes s))) = ?n" using f by auto
  obtain r p ev where pb: "parse_block (fd_parser s) (take (nat ?n) (fd_bytes s)) = Some (r, p, ev)"
    using parse_block_wf [OF f(1) l] by blast
  have "file_position (fd_parser t) = u64 (N - int (length (fd_bytes t)))" if "fd_going t"
  proof -
    have r: "r = FLV_PARSER_OK" using that t(1) pb by (auto simp: feed_step_def Let_def split: if_splits)
    with t(1) pb have p: "fd_parser t = p" "fd_bytes t = drop (nat ?n) (fd_bytes s)"
      by (auto simp: feed_step_def Let_def)
    have "file_position p = u64 (u64 (N - ?L) + ?n)"
      using parse_block_position [OF f(1) l] pb r assms(1) g by (simp add: counted_def)
    also have "\<dots> = u64 (N - (?L - ?n))" using u64_u64_add [of "N - ?L" ?n] by (simp add: algebra_simps)
    finally show ?thesis using p f by (simp add: of_nat_diff nat_le_iff)
  qed
  with t show ?thesis by (auto simp: counted_def)
qed

lemma feed_counted: "counted N s \<Longrightarrow> \<exists>t. feed s = Some t \<and> counted N t \<and> \<not> ready t"
  unfolding feed_def
  by (rule wloop_total [where m = "\<lambda>s. length (fd_bytes s)"]) (use feed_step_counted in blast)+

section \<open>Packets\<close>

lemma wrapped_size:
  fixes off :: int
  assumes "block \<le> n" "n < 2 ^ 63" "4 \<le> block" "0 \<le> off" "off < 2 ^ 32"
  shows "off + u64 (block - 4 - off) \<le> n \<longleftrightarrow> off \<le> block - 4"
proof (cases "off \<le> block - 4")
  case True
  with assms show ?thesis by simp
next
  case False
  have "u64 (block - 4 - off) = (block - 4 - off + 2 ^ 64) mod 2 ^ 64"
    unfolding u64_def by (simp only: mod_add_self2)
  also have "\<dots> = block - 4 - off + 2 ^ 64" using False assms by (intro mod_pos_pos_trivial) auto
  finally show ?thesis using False assms by simp
qed

lemma rd_in_set: "rd xs i = Some v \<Longrightarrow> v \<in> set xs"
  by (auto simp: rd_def in_arr_def split: if_splits)

lemma format_data_size_range:
  "rd flv_audio_format_data_size i = Some v \<Longrightarrow> 0 \<le> v \<and> v < 8"
  "rd flv_video_codec_data_size i = Some v \<Longrightarrow> 0 \<le> v \<and> v < 8"
  by (auto dest!: rd_in_set simp: flv_audio_format_data_size_def flv_video_codec_data_size_def)

lemma audio_packet_inside:
  assumes "parser_wf p" "n < 2 ^ 63" "flv_parser_read_audio_tag p buf n a = Some (FLV_PARSER_OK, p', t)"
  shows "audio_packet_offset t + audio_packet_size t \<le> n \<longleftrightarrow> audio_packet_offset t \<le> next_block_size p - 4"
proof -
  from assms(3) obtain extra fmt where t: "rd flv_audio_format_data_size fmt = Some extra" "next_block_size p \<le> n"
      "audio_packet_offset t = 1 + extra" "audio_packet_size t = u64 (next_block_size p - 4 - (1 + extra))"
    by (auto simp: flv_parser_read_audio_tag_def bind_eq_Some_conv Let_def split: if_splits)
  show ?thesis unfolding t(3,4)
    using assms(1,2) t(2) format_data_size_range(1) [OF t(1)]
    by (intro wrapped_size) (auto simp: parser_wf_def dest: block_wf_pos)
qed

lemma video_packet_inside:
  assumes "parser_wf p" "n < 2 ^ 63" "flv_parser_read_video_tag p buf n a = Some (FLV_PARSER_OK, p', t)"
  shows "video_packet_offset t + video_packet_size t \<le> n \<longleftrightarrow> video_packet_offset t \<le> next_block_size p - 4"
proof -
  from assms(3) obtain extra fmt where t: "rd flv_video_codec_data_size fmt = Some extra" "next_block_size p \<le> n"
      "video_packet_offset t = 1 + extra" "video_packet_size t = u64 (next_block_size p - 4 - (1 + extra))"
    by (auto simp: flv_parser_read_video_tag_def bind_eq_Some_conv Let_def split: if_splits)
  show ?thesis unfolding t(3,4)
    using assms(1,2) t(2) format_data_size_range(2) [OF t(1)]
    by (intro wrapped_size) (auto simp: parser_wf_def dest: block_wf_pos)
qed

end
