(* ===== verification/Media_Properties.thy ===== *)
theory Media_Properties
  imports Flv_Parser
begin

text \<open>
  The properties of the FLV components, each followed by the witness that applies it to a concrete
  stream.
\<close>

section \<open>The parser\<close>

text \<open>
  C27. Whatever bytes arrive, feeding them to a fresh parser ends without a read outside of the block it
  was given, and as long as no block is rejected the parser's file position is the number of bytes
  consumed.
\<close>

theorem flv_parser_total:
  "\<exists>t. feed (push bs start) = Some t \<and> \<not> ready t \<and>
    (fd_going t \<longrightarrow> file_position (fd_parser t) = u64 (int (length bs) - int (length (fd_bytes t))))"
proof -
  have "counted (int (length bs)) (push bs start)"
    by (simp add: counted_def feeder_wf_def push_def start_def) (simp add: flv_parser_init_def)
  from feed_counted [OF this] show ?thesis by (auto simp: counted_def)
qed

theorem flv_parser_total_witness:
  "\<exists>t. feed (push (encode_file True True [] [0, 0, 0, 0] [Script_Item 0 [1, 2]]) start) = Some t
    \<and> fd_going t \<and> file_position (fd_parser t) = 30"
proof -
  let ?is = "[Script_Item 0 [1, 2]]"
  have "file_ok [] [0, 0, 0, 0] ?is" by (simp add: file_ok_def item_ok_def is_jint_def)
  from feed_file [OF this, of True True] obtain t where
    t: "feed (push (encode_file True True [] [0, 0, 0, 0] ?is) start) = Some t" "fd_going t" "fd_bytes t = []"
    by auto
  have "length (encode_file True True [] [0, 0, 0, 0] ?is) = 30"
    by (simp add: encode_file_def encode_item_def tag_prefix_def tag_suffix_def be24_def be32_def)
  with flv_parser_total [of "encode_file True True [] [0, 0, 0, 0] ?is"] t show ?thesis by auto
qed

text \<open>
  C28. The parser inverts the file layout: a well-formed file with any header padding and any list of
  audio, video and script tags is consumed to its last byte and comes back as exactly the header and the
  tags, with their sizes, signed times, codec fields and packet bounds.
\<close>

theorem flv_file_roundtrip:
  assumes "file_ok pad zero items"
  shows "\<exists>p. feed (push (encode_file audio video pad zero items) start)
      = Some \<lparr>fd_parser = p, fd_bytes = [], fd_events = file_events audio video items, fd_going = True\<rparr>
    \<and> fp_state p = FLV_PARSER_EXPECT_TAG_PREFIX"
  using feed_file [OF assms] by blast

theorem flv_file_roundtrip_witness:
  "\<exists>p. feed (push (encode_file True False [7] [0, 0, 0, 0] [Audio_Item (- 3) 10 3 True False [1] [2, 3], Script_Item 5 []]) start)
      = Some \<lparr>fd_parser = p, fd_bytes = [],
          fd_events = file_events True False [Audio_Item (- 3) 10 3 True False [1] [2, 3], Script_Item 5 []],
          fd_going = True\<rparr>"
  using flv_file_roundtrip [of "[7]" "[0, 0, 0, 0]" "[Audio_Item (- 3) 10 3 True False [1] [2, 3], Script_Item 5 []]" True False]
  by (simp add: file_ok_def item_ok_def is_jint_def flv_audio_format_data_size_def) blast

text \<open>
  C29. The packet an accepted audio or video tag announces lies inside of the block exactly when the body
  is long enough for the codec's own header; for a shorter body the size wraps around to more than the
  block, whatever its length.
\<close>

theorem packet_inside_block:
  assumes "parser_wf p" "n < 2 ^ 63" "flv_parser_read_audio_tag p buf n a = Some (FLV_PARSER_OK, p', t)"
    and "parser_wf q" "k < 2 ^ 63" "flv_parser_read_video_tag q data k b = Some (FLV_PARSER_OK, q', u)"
  shows "(audio_packet_offset t + audio_packet_size t \<le> n \<longleftrightarrow> audio_packet_offset t \<le> next_block_size p - 4)
    \<and> (video_packet_offset u + video_packet_size u \<le> k \<longleftrightarrow> video_packet_offset u \<le> next_block_size q - 4)"
  using audio_packet_inside [OF assms(1-3)] video_packet_inside [OF assms(4-6)] by blast

definition audio_block :: flv_parser where
  "audio_block = \<lparr>fp_state = FLV_PARSER_EXPECT_AUDIO_TAG_BODY, file_position = 24, parsed_block_size = 11,
     next_block_size = 4\<rparr>"

definition video_block :: flv_parser where
  "video_block = \<lparr>fp_state = FLV_PARSER_EXPECT_VIDEO_TAG_BODY, file_position = 24, parsed_block_size = 11,
     next_block_size = 16\<rparr>"

theorem packet_inside_block_witness:
  "\<exists>t u. flv_parser_read_audio_tag audio_block [0xAF, 0, 0, 0] 4 no_audio = Some (FLV_PARSER_OK, next_tag audio_block, t)
    \<and> flv_parser_read_video_tag video_block (0x17 # replicate 15 0) 16 no_video = Some (FLV_PARSER_OK, next_tag video_block, u)
    \<and> 4 < audio_packet_offset t + audio_packet_size t
    \<and> video_packet_offset u + video_packet_size u \<le> 16"
proof -
  have w: "parser_wf audio_block" "parser_wf video_block"
    by (simp_all add: parser_wf_def audio_block_def video_block_def)
  have t: "flv_parser_read_audio_tag audio_block [0xAF, 0, 0, 0] 4 no_audio
      = Some (FLV_PARSER_OK, next_tag audio_block, \<lparr>sound_format = 10, sampling_rate = 3, is_16bit = True,
          is_stereo_tag = True, audio_packet_offset = 2, audio_packet_size = u64 (- 2)\<rparr>)"
    by code_simp
  have u: "flv_parser_read_video_tag video_block (0x17 # replicate 15 0) 16 no_video
      = Some (FLV_PARSER_OK, next_tag video_block, \<lparr>codec_id = 7, frame_type = 1,
          video_packet_offset = 7, video_packet_size = 5\<rparr>)"
    by code_simp
  show ?thesis
    using packet_inside_block [OF w(1) _ t w(2) _ u] t u by (auto simp: audio_block_def video_block_def)
qed

end
