(* ===== verification/Flv_Metadata.thy ===== *)
theory Flv_Metadata
  imports Flv_Parser
begin

text \<open>
  The reader of FLV script data, \<^verbatim>\<open>modules/media/src/main/native/gstreamer/plugins/vp6/flvmetadata.c\<close>:
  AMF values are read through callbacks, the values of the \<^verbatim>\<open>onMetaData\<close> array go to fields of
  \<^verbatim>\<open>FlvMetadata\<close>, nested values are skipped. A reader is a position and an end in the block that holds
  the script tag; positions are compared as numbers, and reading outside of the block is \<^term>\<open>None\<close>.
  A C function that answers FALSE gives \<^term>\<open>False\<close> (or no value) as part of its result. Memory
  allocation succeeds. A \<^verbatim>\<open>double\<close> is its 64 bits; the conversions to integers are a parameter, since C
  leaves their value open out of range. Names are byte strings without their terminating zero.
\<close>

unbundle bit_operations_syntax

section \<open>The growable array of glib\<close>

text \<open>
  \<^verbatim>\<open>GArray\<close> of \<^verbatim>\<open>glib/garray.c\<close> with elements of 16 bytes, cleared on growth and not zero-terminated. The
  sizes are \<^verbatim>\<open>guint\<close>; \<open>ga_mem\<close> is the allocated memory in elements. A reallocated cell is zero in the
  model and undefined in C until it is cleared or written.
\<close>

record keyframe =
  kf_time :: int
  kf_fileposition :: int

definition zero_keyframe :: keyframe where "zero_keyframe = \<lparr>kf_time = 0, kf_fileposition = 0\<rparr>"

record garray =
  ga_len :: int
  ga_alloc :: int
  ga_mem :: "keyframe list"

definition u32 :: "int \<Rightarrow> int" where "u32 x = x mod 2 ^ 32"

lemma u32_id [simp]: "0 \<le> x \<Longrightarrow> x < 4294967296 \<Longrightarrow> u32 x = x"
  by (simp add: u32_def)

definition g_array_new :: garray where
  "g_array_new = \<lparr>ga_len = 0, ga_alloc = 0, ga_mem = []\<rparr>"

definition g_array_elt_len :: "int \<Rightarrow> int" where "g_array_elt_len i = u32 (16 * i)"

definition g_nearest_pow :: "int \<Rightarrow> int option" where
  "g_nearest_pow num = do {
     n \<leftarrow> wloop (\<lambda>n. n < num \<and> 0 < n) (\<lambda>n. Some (u32 (n * 2))) 1;
     Some (if n \<noteq> 0 then n else num)
   }"

definition g_array_maybe_expand :: "garray \<Rightarrow> int \<Rightarrow> garray option" where
  "g_array_maybe_expand a len =
    (let want_alloc = g_array_elt_len (u32 (ga_len a + len))
     in if ga_alloc a < want_alloc then do {
          p \<leftarrow> g_nearest_pow want_alloc;
          let want_alloc = max p 16;
          let cells = nat (want_alloc div 16);
          Some (a\<lparr>ga_alloc := want_alloc,
            ga_mem := take cells (ga_mem a @ replicate (cells - length (ga_mem a)) zero_keyframe)\<rparr>) }
        else Some a)"

text \<open>\<^verbatim>\<open>g_array_elt_zero\<close>: a \<^verbatim>\<open>memset\<close>; both byte counts wrap around.\<close>

definition g_array_elt_zero :: "garray \<Rightarrow> int \<Rightarrow> int \<Rightarrow> garray option" where
  "g_array_elt_zero a pos len =
    (let p = g_array_elt_len pos div 16; n = g_array_elt_len len div 16
     in if p + n \<le> int (length (ga_mem a))
        then Some (a\<lparr>ga_mem := take (nat p) (ga_mem a) @ replicate (nat n) zero_keyframe @ drop (nat (p + n)) (ga_mem a)\<rparr>)
        else None)"

definition g_array_set_size :: "garray \<Rightarrow> int \<Rightarrow> garray option" where
  "g_array_set_size a len = do {
     a1 \<leftarrow> (if ga_len a < len then do {
              b \<leftarrow> g_array_maybe_expand a (len - ga_len a);
              g_array_elt_zero b (ga_len b) (len - ga_len b) }
            else Some a);
     Some (a1\<lparr>ga_len := len\<rparr>)
   }"

section \<open>Metadata\<close>

type_synonym dbl = int

record conversions =
  to_clock :: "dbl \<Rightarrow> int" \<comment> \<open>\<^verbatim>\<open>(GstClockTime)(d * GST_SECOND)\<close>\<close>
  to_gint :: "dbl \<Rightarrow> jint"
  to_guint64 :: "dbl \<Rightarrow> int"

text \<open>The tag list of GStreamer is the log of the calls that fill it; registering a new tag name is a call
  of the library that changes no state of this program.\<close>

datatype tag_value = Tag_Clock int | Tag_String bytes

record flv_metadata =
  md_duration :: int
  md_file_size :: jint
  md_can_seek_to_end :: int
  md_video_codec_id :: jint
  md_video_data_rate :: dbl
  md_width :: jint
  md_height :: jint
  md_par_x :: jint
  md_par_y :: jint
  md_framerate :: dbl
  md_audio_codec_id :: jint
  md_audio_data_rate :: jint
  md_audio_sample_size :: jint
  md_is_stereo :: int
  md_tag_list :: "(bytes \<times> tag_value) list option"
  md_keyframes :: "garray option"

definition GST_CLOCK_TIME_NONE :: int where "GST_CLOCK_TIME_NONE = 2 ^ 64 - 1"

definition flv_metadata_new :: flv_metadata where
  "flv_metadata_new = \<lparr>md_duration = GST_CLOCK_TIME_NONE, md_file_size = 0, md_can_seek_to_end = 0,
     md_video_codec_id = 0, md_video_data_rate = 0, md_width = 0, md_height = 0, md_par_x = 0, md_par_y = 0,
     md_framerate = 0, md_audio_codec_id = 0, md_audio_data_rate = 0, md_audio_sample_size = 0, md_is_stereo = 0,
     md_tag_list = None, md_keyframes = None\<rparr>"

section \<open>Readers\<close>

definition FLV_READ_DOUBLE_BE :: "bytes \<Rightarrow> int \<Rightarrow> dbl option" where
  "FLV_READ_DOUBLE_BE buf i = do {
     a \<leftarrow> READ_UINT32_BE buf i; b \<leftarrow> READ_UINT32_BE buf (i + 4); Some (a * 2 ^ 32 + b) }"

definition flv_script_data_read_ui8 :: "bytes \<Rightarrow> script_reader \<Rightarrow> (int option \<times> script_reader) option" where
  "flv_script_data_read_ui8 buf r =
    (if sr_end r < sr_pos r + 1 then Some (None, r)
     else do { v \<leftarrow> READ_UINT8 buf (sr_pos r); Some (Some v, r\<lparr>sr_pos := sr_pos r + 1\<rparr>) })"

definition flv_script_data_read_ui32 :: "bytes \<Rightarrow> script_reader \<Rightarrow> (int option \<times> script_reader) option" where
  "flv_script_data_read_ui32 buf r =
    (if sr_end r < sr_pos r + 4 then Some (None, r)
     else do { v \<leftarrow> READ_UINT32_BE buf (sr_pos r); Some (Some v, r\<lparr>sr_pos := sr_pos r + 4\<rparr>) })"

definition flv_script_data_read_double :: "bytes \<Rightarrow> script_reader \<Rightarrow> (dbl option \<times> script_reader) option" where
  "flv_script_data_read_double buf r =
    (if sr_end r < sr_pos r + 8 then Some (None, r)
     else do { v \<leftarrow> FLV_READ_DOUBLE_BE buf (sr_pos r); Some (Some v, r\<lparr>sr_pos := sr_pos r + 8\<rparr>) })"

definition memcpy_out :: "bytes \<Rightarrow> int \<Rightarrow> int \<Rightarrow> bytes option" where
  "memcpy_out buf p n = (if 0 \<le> p \<and> 0 \<le> n \<and> p + n \<le> int (length buf)
     then Some (take (nat n) (drop (nat p) buf)) else None)"

definition flv_script_data_read_string ::
  "bytes \<Rightarrow> script_reader \<Rightarrow> bool \<Rightarrow> (bytes option \<times> script_reader) option" where
  "flv_script_data_read_string buf r longString =
    (let n = (if longString then 4 else 2)
     in if sr_end r < sr_pos r + n then Some (None, r)
        else do {
          len \<leftarrow> (if longString then READ_UINT32_BE buf (sr_pos r) else READ_UINT16_BE buf (sr_pos r));
          let r = r\<lparr>sr_pos := sr_pos r + n\<rparr>;
          if sr_end r < sr_pos r + len then Some (None, r)
          else do {
            s \<leftarrow> memcpy_out buf (sr_pos r) len;
            Some (Some s, r\<lparr>sr_pos := sr_pos r + len\<rparr>) } })"

text \<open>A byte string as C sees it, up to the first zero, and \<^verbatim>\<open>strcmp(name, "...") == 0\<close>.\<close>

definition ascii :: "string \<Rightarrow> bytes" where "ascii s = List.map of_char s"

definition c_string :: "bytes \<Rightarrow> bytes" where "c_string s = takeWhile (\<lambda>b. b \<noteq> 0) s"

definition str_is :: "bytes \<Rightarrow> string \<Rightarrow> bool" where "str_is s t \<longleftrightarrow> c_string s = ascii t"

section \<open>Objects and arrays\<close>

text \<open>A callback; the name is \<^term>\<open>None\<close> where the C code passes \<^verbatim>\<open>NULL\<close>.\<close>

type_synonym 'm handler =
  "bytes \<Rightarrow> script_reader \<Rightarrow> bytes option \<Rightarrow> int \<Rightarrow> 'm \<Rightarrow> (bool \<times> script_reader \<times> 'm) option"

text \<open>The name and the type of the next member: no value where the C function returns FALSE.\<close>

definition member_head ::
  "bytes \<Rightarrow> script_reader \<Rightarrow> ((bytes option \<times> int) option \<times> script_reader) option" where
  "member_head buf r =
    (if sr_end r < sr_pos r + 3 then Some (None, r)
     else do {
       b0 \<leftarrow> READ_UINT8 buf (sr_pos r); b1 \<leftarrow> READ_UINT8 buf (sr_pos r + 1); b2 \<leftarrow> READ_UINT8 buf (sr_pos r + 2);
       if b0 = 0 \<and> b1 = 0 \<and> b2 = 9 then Some (Some (None, 9), r\<lparr>sr_pos := sr_pos r + 3\<rparr>)
       else do {
         (s, r) \<leftarrow> flv_script_data_read_string buf r False;
         case s of None \<Rightarrow> Some (None, r)
         | Some var_name \<Rightarrow> do {
             (t, r) \<leftarrow> flv_script_data_read_ui8 buf r;
             case t of None \<Rightarrow> Some (None, r) | Some value_type \<Rightarrow> Some (Some (Some var_name, value_type), r) } } })"

text \<open>One turn of the loop, with the value to return if the loop is left.\<close>

definition read_member ::
  "'m handler \<Rightarrow> bytes \<Rightarrow> script_reader \<Rightarrow> 'm \<Rightarrow> (bool option \<times> script_reader \<times> 'm) option" where
  "read_member cb buf r m = do {
     (head, r) \<leftarrow> member_head buf r;
     case head of None \<Rightarrow> Some (Some False, r, m)
     | Some (name, ty) \<Rightarrow> do {
         (ok, r, m) \<leftarrow> cb buf r name ty m;
         Some (if ty = 9 then Some True else if \<not> ok then Some False else None, r, m) } }"

definition flv_script_data_read_object ::
  "'m handler \<Rightarrow> bytes \<Rightarrow> script_reader \<Rightarrow> 'm \<Rightarrow> (bool \<times> script_reader \<times> 'm) option" where
  "flv_script_data_read_object cb buf r m = do {
     (res, r, m) \<leftarrow> wloop (\<lambda>(res, r, m). res = None \<and> sr_pos r < sr_end r)
        (\<lambda>(res, r, m). read_member cb buf r m) (None, r, m);
     Some (case res of None \<Rightarrow> True | Some b \<Rightarrow> b, r, m)
   }"

text \<open>\<^verbatim>\<open>flv_script_data_read_ecma\<close> repeats the loop of the object after an approximate count.\<close>

definition flv_script_data_read_ecma ::
  "'m handler \<Rightarrow> bytes \<Rightarrow> script_reader \<Rightarrow> 'm \<Rightarrow> (bool \<times> script_reader \<times> 'm) option" where
  "flv_script_data_read_ecma cb buf r m = do {
     (count, r) \<leftarrow> flv_script_data_read_ui32 buf r;
     case count of None \<Rightarrow> Some (False, r, m) | Some _ \<Rightarrow> flv_script_data_read_object cb buf r m }"

definition flv_script_data_read_strict_array ::
  "'m handler \<Rightarrow> bytes \<Rightarrow> script_reader \<Rightarrow> 'm \<Rightarrow> (bool \<times> script_reader \<times> 'm) option" where
  "flv_script_data_read_strict_array cb buf r m = do {
     (count, r) \<leftarrow> flv_script_data_read_ui32 buf r;
     case count of None \<Rightarrow> Some (False, r, m)
     | Some count \<Rightarrow> do {
         (_, res, r, m) \<leftarrow> wloop (\<lambda>(i, res, r, m). res \<and> i < count)
           (\<lambda>(i, res, r, m). do {
              (t, r) \<leftarrow> flv_script_data_read_ui8 buf r;
              case t of None \<Rightarrow> Some (i, False, r, m)
              | Some value_type \<Rightarrow> do {
                  (ok, r, m) \<leftarrow> cb buf r None value_type m;
                  Some (i + 1, ok, r, m) } }) (0, True, r, m);
         Some (res, r, m) } }"

section \<open>Handlers\<close>

text \<open>
  \<^verbatim>\<open>flv_metadata_skip_handler\<close> calls itself through the readers; \<open>depth\<close> bounds the nesting. Every level
  takes at least one byte, so the length of the block is enough.
\<close>

fun flv_metadata_skip_handler :: "nat \<Rightarrow> 'm handler" where
  "flv_metadata_skip_handler 0 buf r name ty m = None"
| "flv_metadata_skip_handler (Suc depth) buf r name ty m =
    (if ty = 0 then map_option (\<lambda>(v, r). (v \<noteq> None, r, m)) (flv_script_data_read_double buf r)
     else if ty = 1 then map_option (\<lambda>(v, r). (v \<noteq> None, r, m)) (flv_script_data_read_ui8 buf r)
     else if ty = 2 then map_option (\<lambda>(v, r). (v \<noteq> None, r, m)) (flv_script_data_read_string buf r False)
     else if ty = 3 then flv_script_data_read_object (flv_metadata_skip_handler depth) buf r m
     else if ty = 8 then flv_script_data_read_ecma (flv_metadata_skip_handler depth) buf r m
     else if ty = 9 then Some (True, r, m)
     else if ty = 10 then flv_script_data_read_strict_array (flv_metadata_skip_handler depth) buf r m
     else Some (False, r, m))"

definition keyframe_field :: "bytes \<Rightarrow> int" where
  "keyframe_field s = (if str_is s ''times'' then 1 else if str_is s ''filepositions'' then 2 else 0)"

definition store_keyframe :: "conversions \<Rightarrow> int \<Rightarrow> dbl \<Rightarrow> keyframe \<Rightarrow> keyframe" where
  "store_keyframe cv whichField v e =
    (if whichField = 1 then e\<lparr>kf_time := to_clock cv v\<rparr> else e\<lparr>kf_fileposition := to_guint64 cv v\<rparr>)"

text \<open>The size adjustments before the loop: the array and \<^verbatim>\<open>readSize\<close>.\<close>

definition prepare_keyframes :: "garray \<Rightarrow> int \<Rightarrow> (garray \<times> int) option" where
  "prepare_keyframes ga count = do {
     (ga, readSize) \<leftarrow>
       (if 0 < ga_len ga then
          (if count < ga_len ga then do { ga \<leftarrow> g_array_set_size ga count; Some (ga, count) }
           else if ga_len ga < count then Some (ga, ga_len ga) else Some (ga, count))
        else Some (ga, count));
     ga \<leftarrow> (if ga_len ga \<noteq> readSize then g_array_set_size ga readSize else Some ga);
     Some (ga, readSize)
   }"

definition flv_script_read_keyframe_array ::
  "conversions \<Rightarrow> bytes \<Rightarrow> script_reader \<Rightarrow> bytes option \<Rightarrow> garray \<Rightarrow> (bool \<times> script_reader \<times> garray) option" where
  "flv_script_read_keyframe_array cv buf r value_name keyframes = do {
     (count, r) \<leftarrow> flv_script_data_read_ui32 buf r;
     case count of None \<Rightarrow> Some (False, r, keyframes)
     | Some count \<Rightarrow> do {
         name \<leftarrow> value_name;
         let whichField = keyframe_field name;
         (ga, readSize) \<leftarrow> prepare_keyframes keyframes count;
         (_, _, res, r, ga) \<leftarrow> wloop (\<lambda>(i, readSize, res, r, ga). res \<and> i < count)
           (\<lambda>(i, readSize, res, r, ga). do {
              (t, r) \<leftarrow> flv_script_data_read_ui8 buf r;
              if t \<noteq> Some 0 then Some (i, readSize, False, r, ga)
              else do {
                (v, r) \<leftarrow> flv_script_data_read_double buf r;
                case v of None \<Rightarrow> Some (i, readSize, False, r, ga)
                | Some v \<Rightarrow> do {
                    ga \<leftarrow> (if 0 < readSize \<and> 0 < whichField
                      then map_option (\<lambda>mem. ga\<lparr>ga_mem := mem\<rparr>) (upd (ga_mem ga) i (store_keyframe cv whichField v))
                      else Some ga);
                    Some (i + 1, u32 (readSize - 1), True, r, ga) } } }) (0, readSize, True, r, ga);
         Some (res, r, ga) } }"

definition flv_metadata_keyframe_handler :: "conversions \<Rightarrow> flv_metadata handler" where
  "flv_metadata_keyframe_handler cv buf r name ty m =
    (if ty = 9 then Some (True, r, m)
     else if ty = 10 then do {
       let ga = (case md_keyframes m of None \<Rightarrow> g_array_new | Some ga \<Rightarrow> ga);
       (ok, r, ga) \<leftarrow> flv_script_read_keyframe_array cv buf r name ga;
       Some (ok, r, m\<lparr>md_keyframes := Some ga\<rparr>) }
     else Some (False, r, m))"

text \<open>\<^verbatim>\<open>gst_tag_list_add\<close>, which needs a list.\<close>

definition gst_tag_list_add :: "bytes \<Rightarrow> tag_value \<Rightarrow> flv_metadata \<Rightarrow> flv_metadata option" where
  "gst_tag_list_add name v m = do { l \<leftarrow> md_tag_list m; Some (m\<lparr>md_tag_list := Some (l @ [(name, v)])\<rparr>) }"

definition store_double :: "conversions \<Rightarrow> bytes \<Rightarrow> dbl \<Rightarrow> flv_metadata \<Rightarrow> flv_metadata option" where
  "store_double cv name v m =
    (if str_is name ''duration'' then
       gst_tag_list_add (ascii ''duration'') (Tag_Clock (to_clock cv v)) (m\<lparr>md_duration := to_clock cv v\<rparr>)
     else if str_is name ''filesize'' then Some (m\<lparr>md_file_size := to_gint cv v\<rparr>)
     else if str_is name ''videocodecid'' then Some (m\<lparr>md_video_codec_id := to_gint cv v\<rparr>)
     else if str_is name ''videodatarate'' then Some (m\<lparr>md_video_data_rate := v\<rparr>)
     else if str_is name ''width'' then Some (m\<lparr>md_width := to_gint cv v\<rparr>)
     else if str_is name ''height'' then Some (m\<lparr>md_height := to_gint cv v\<rparr>)
     else if str_is name ''AspectRatioX'' then Some (m\<lparr>md_par_x := to_gint cv v\<rparr>)
     else if str_is name ''AspectRatioY'' then Some (m\<lparr>md_par_y := to_gint cv v\<rparr>)
     else if str_is name ''framerate'' then Some (m\<lparr>md_framerate := v\<rparr>)
     else if str_is name ''audiocodecid'' then Some (m\<lparr>md_audio_codec_id := to_gint cv v\<rparr>)
     else if str_is name ''audiosamplesize'' then Some (m\<lparr>md_audio_sample_size := to_gint cv v\<rparr>)
     else Some m)"

definition store_bool :: "bytes \<Rightarrow> int \<Rightarrow> flv_metadata \<Rightarrow> flv_metadata" where
  "store_bool name b m =
    (if str_is name ''canSeekToEnd'' then m\<lparr>md_can_seek_to_end := b\<rparr>
     else if str_is name ''stereo'' then m\<lparr>md_is_stereo := b\<rparr> else m)"

definition flv_metadata_value_handler :: "conversions \<Rightarrow> nat \<Rightarrow> flv_metadata handler" where
  "flv_metadata_value_handler cv depth buf r value_name ty m =
    (if ty = 0 then do {
       (v, r) \<leftarrow> flv_script_data_read_double buf r;
       case v of None \<Rightarrow> Some (False, r, m)
       | Some v \<Rightarrow> do { name \<leftarrow> value_name; m \<leftarrow> store_double cv name v m; Some (True, r, m) } }
     else if ty = 1 then do {
       (v, r) \<leftarrow> flv_script_data_read_ui8 buf r;
       case v of None \<Rightarrow> Some (False, r, m)
       | Some b \<Rightarrow> do { name \<leftarrow> value_name; Some (True, r, store_bool name b m) } }
     else if ty = 2 \<or> ty = 12 then do {
       (s, r) \<leftarrow> flv_script_data_read_string buf r (ty = 12);
       case s of None \<Rightarrow> Some (False, r, m)
       | Some s \<Rightarrow> do {
           name \<leftarrow> value_name;
           m \<leftarrow> gst_tag_list_add (c_string name) (Tag_String (c_string s)) m;
           Some (True, r, m) } }
     else if ty = 3 then do {
       name \<leftarrow> value_name;
       if str_is name ''keyframes'' \<and> md_keyframes m = None
       then flv_script_data_read_object (flv_metadata_keyframe_handler cv) buf r m
       else flv_script_data_read_object (flv_metadata_skip_handler depth) buf r m }
     else if ty = 4 then Some (False, r, m)
     else if ty = 5 \<or> ty = 6 then Some (True, r, m)
     else if ty = 7 then Some (True, r\<lparr>sr_pos := sr_pos r + 2\<rparr>, m)
     else if ty = 8 then flv_script_data_read_ecma (flv_metadata_skip_handler depth) buf r m
     else if ty = 9 then Some (True, r, m)
     else if ty = 10 then flv_script_data_read_strict_array (flv_metadata_skip_handler depth) buf r m
     else if ty = 11 then Some (True, r\<lparr>sr_pos := sr_pos r + 10\<rparr>, m)
     else Some (False, r, m))"

text \<open>\<^verbatim>\<open>flv_script_data_read\<close>; the reader it advances is not used by its caller.\<close>

definition flv_script_data_read ::
  "conversions \<Rightarrow> bytes \<Rightarrow> script_reader \<Rightarrow> flv_metadata \<Rightarrow> (bool \<times> flv_metadata) option" where
  "flv_script_data_read cv buf r m = do {
     (t, r) \<leftarrow> flv_script_data_read_ui8 buf r;
     if t \<noteq> Some 2 then Some (True, m)
     else do {
       (s, r) \<leftarrow> flv_script_data_read_string buf r False;
       case s of None \<Rightarrow> Some (False, m)
       | Some str \<Rightarrow>
           if \<not> str_is str ''onMetaData'' then Some (True, m)
           else do {
             (t, r) \<leftarrow> flv_script_data_read_ui8 buf r;
             if t \<noteq> Some 8 then Some (False, m)
             else do {
               let m = (if md_tag_list m = None then m\<lparr>md_tag_list := Some []\<rparr> else m);
               (ok, r, m) \<leftarrow> flv_script_data_read_ecma (flv_metadata_value_handler cv (length buf)) buf r m;
               Some (ok, if ok then m else m\<lparr>md_tag_list := None\<rparr>) } } } }"

section \<open>No callback reads outside of the block\<close>

text \<open>
  \<open>reads k\<close>: a reading function is defined, keeps the end, and, when it has a value, has consumed at
  least \<open>k\<close> bytes of the part before the end. \<open>answers\<close> is the same of a function with a state.
\<close>

definition reads :: "int \<Rightarrow> script_reader \<Rightarrow> ('a option \<times> script_reader) option \<Rightarrow> bool" where
  "reads k r out \<longleftrightarrow> (\<exists>v r'. out = Some (v, r') \<and> sr_end r' = sr_end r \<and> sr_pos r \<le> sr_pos r' \<and>
     (v \<noteq> None \<longrightarrow> sr_pos r + k \<le> sr_pos r' \<and> sr_pos r' \<le> sr_end r))"

definition answers :: "('m \<Rightarrow> bool) \<Rightarrow> script_reader \<Rightarrow> (bool \<times> script_reader \<times> 'm) option \<Rightarrow> bool" where
  "answers Inv r out \<longleftrightarrow> (\<exists>ok r' m. out = Some (ok, r', m) \<and> sr_end r' = sr_end r \<and> sr_pos r \<le> sr_pos r' \<and> Inv m)"

definition reader_wf :: "bytes \<Rightarrow> script_reader \<Rightarrow> bool" where
  "reader_wf buf r \<longleftrightarrow> 0 \<le> sr_pos r \<and> sr_end r \<le> int (length buf)"

lemma reads_ui8: "reader_wf buf r \<Longrightarrow> reads 1 r (flv_script_data_read_ui8 buf r)"
  using READ_UINT8_ok [of "sr_pos r" buf] by (auto simp: reads_def reader_wf_def flv_script_data_read_ui8_def)

lemma reads_ui32: "reader_wf buf r \<Longrightarrow> reads 4 r (flv_script_data_read_ui32 buf r)"
  using READ_UINT32_ok [of "sr_pos r" buf] by (auto simp: reads_def reader_wf_def flv_script_data_read_ui32_def)

lemma reads_double: "reader_wf buf r \<Longrightarrow> reads 8 r (flv_script_data_read_double buf r)"
  using READ_UINT32_ok [of "sr_pos r" buf] READ_UINT32_ok [of "sr_pos r + 4" buf]
  by (auto simp: reads_def reader_wf_def flv_script_data_read_double_def FLV_READ_DOUBLE_BE_def)

lemma reads_string:
  assumes "reader_wf buf r"
  shows "reads (if long then 4 else 2) r (flv_script_data_read_string buf r long)"
proof (cases "sr_end r < sr_pos r + (if long then 4 else 2)")
  case True
  then show ?thesis by (auto simp: reads_def flv_script_data_read_string_def)
next
  case False
  then obtain len where "(if long then READ_UINT32_BE buf (sr_pos r) else READ_UINT16_BE buf (sr_pos r)) = Some len" "0 \<le> len"
    using assms READ_UINT32_ok [of "sr_pos r" buf] READ_UINT16_ok [of "sr_pos r" buf]
    by (auto simp: reader_wf_def split: if_splits)
  with False assms show ?thesis
    by (auto simp: reads_def reader_wf_def flv_script_data_read_string_def memcpy_out_def Let_def)
qed

lemma reads_wf: "reads k r (Some (v, r')) \<Longrightarrow> reader_wf buf r \<Longrightarrow> reader_wf buf r'"
  by (auto simp: reads_def reader_wf_def)

lemma readsE:
  assumes "reads k r out"
  obtains v r' where "out = Some (v, r')" "sr_end r' = sr_end r" "sr_pos r \<le> sr_pos r'"
    "v \<noteq> None \<Longrightarrow> sr_pos r + k \<le> sr_pos r' \<and> sr_pos r' \<le> sr_end r"
  using assms unfolding reads_def by blast

lemma ui8_value:
  "flv_script_data_read_ui8 buf r = Some (Some v, r') \<Longrightarrow>
     READ_UINT8 buf (sr_pos r) = Some v \<and> r' = r\<lparr>sr_pos := sr_pos r + 1\<rparr> \<and> sr_pos r + 1 \<le> sr_end r"
  by (auto simp: flv_script_data_read_ui8_def bind_eq_Some_conv split: if_splits)

lemma ui32_value:
  "flv_script_data_read_ui32 buf r = Some (Some v, r') \<Longrightarrow>
     READ_UINT32_BE buf (sr_pos r) = Some v \<and> r' = r\<lparr>sr_pos := sr_pos r + 4\<rparr> \<and> sr_pos r + 4 \<le> sr_end r"
  by (auto simp: flv_script_data_read_ui32_def bind_eq_Some_conv split: if_splits)

lemma member_head_reads:
  assumes wf: "reader_wf buf r"
  shows "reads 3 r (member_head buf r)"
    and "member_head buf r = Some (Some (name, ty), r') \<Longrightarrow>
      name = None \<longrightarrow> ty = 9"
proof -
  have "reads 3 r (member_head buf r) \<and> (\<forall>name ty r'. member_head buf r = Some (Some (name, ty), r') \<longrightarrow>
      name = None \<longrightarrow> ty = 9)"
  proof (cases "sr_end r < sr_pos r + 3")
    case True
    then show ?thesis by (auto simp: reads_def member_head_def)
  next
    case False
    then obtain b0 b1 b2 where b: "READ_UINT8 buf (sr_pos r) = Some b0" "READ_UINT8 buf (sr_pos r + 1) = Some b1"
        "READ_UINT8 buf (sr_pos r + 2) = Some b2"
      using wf READ_UINT8_ok [of "sr_pos r" buf] READ_UINT8_ok [of "sr_pos r + 1" buf] READ_UINT8_ok [of "sr_pos r + 2" buf]
      by (auto simp: reader_wf_def)
    show ?thesis
    proof (cases "b0 = 0 \<and> b1 = 0 \<and> b2 = 9")
      case True
      with False b b(3) [unfolded add.commute [of "sr_pos r" 2]] show ?thesis by (auto simp: reads_def member_head_def)
    next
      case other: False
      obtain s r1 where s: "flv_script_data_read_string buf r False = Some (s, r1)" "sr_end r1 = sr_end r" "sr_pos r \<le> sr_pos r1"
          "s \<noteq> None \<Longrightarrow> sr_pos r + 2 \<le> sr_pos r1 \<and> sr_pos r1 \<le> sr_end r"
        using reads_string [OF wf, of False] by (auto elim!: readsE)
      then have wf1: "reader_wf buf r1" using wf by (simp add: reader_wf_def)
      obtain t r2 where t: "flv_script_data_read_ui8 buf r1 = Some (t, r2)" "sr_end r2 = sr_end r1" "sr_pos r1 \<le> sr_pos r2"
          "t \<noteq> None \<Longrightarrow> sr_pos r1 + 1 \<le> sr_pos r2 \<and> sr_pos r2 \<le> sr_end r1"
        using reads_ui8 [OF wf1] by (auto elim!: readsE)
      show ?thesis
        using False b other s t ui8_value [of buf r1 _ r2]
        by (cases s; cases t) (auto simp: reads_def member_head_def)
    qed
  qed
  then show "reads 3 r (member_head buf r)"
    and "member_head buf r = Some (Some (name, ty), r') \<Longrightarrow>
      name = None \<longrightarrow> ty = 9" by auto
qed

text \<open>
  The contract of a callback: called right after a type byte, with at most \<open>depth\<close> bytes left, it is
  defined, does not move back and keeps the invariant. A callback of objects may count on a name, and
  that the name and the type are those of a member.
\<close>

definition named :: "bytes \<Rightarrow> script_reader \<Rightarrow> bytes option \<Rightarrow> int \<Rightarrow> bool" where
  "named buf r name ty \<longleftrightarrow>
    (\<exists>j \<ge> 0. member_head buf \<lparr>sr_pos = j, sr_end = sr_end r\<rparr> = Some (Some (name, ty), r))"

lemma namedI: "member_head buf r = Some (Some (name, ty), r') \<Longrightarrow> sr_end r' = sr_end r \<Longrightarrow> 0 \<le> sr_pos r \<Longrightarrow>
    named buf r' name ty"
  unfolding named_def by (cases r) auto

locale value_callback =
  fixes cb :: "'m handler" and Inv :: "bytes \<Rightarrow> int \<Rightarrow> 'm \<Rightarrow> bool" and depth :: int and unnamed :: bool
  assumes total: "reader_wf buf r \<Longrightarrow> sr_pos r \<le> sr_end r \<Longrightarrow> sr_end r - sr_pos r < depth \<Longrightarrow>
      Inv buf (sr_end r) m \<Longrightarrow> (name \<noteq> None \<Longrightarrow> named buf r name ty) \<Longrightarrow> (name = None \<Longrightarrow> unnamed \<or> ty = 9) \<Longrightarrow>
      answers (Inv buf (sr_end r)) r (cb buf r name ty m)"
begin

lemma member_total:
  assumes "reader_wf buf r" "sr_end r - sr_pos r < depth + 3" "Inv buf (sr_end r) m"
  shows "\<exists>res r' m'. read_member cb buf r m = Some (res, r', m') \<and> sr_end r' = sr_end r \<and> sr_pos r \<le> sr_pos r'
    \<and> Inv buf (sr_end r) m' \<and> (res = None \<longrightarrow> sr_pos r < sr_pos r')"
proof -
  obtain h r1 where h: "member_head buf r = Some (h, r1)" "sr_end r1 = sr_end r" "sr_pos r \<le> sr_pos r1"
      "h \<noteq> None \<Longrightarrow> sr_pos r + 3 \<le> sr_pos r1 \<and> sr_pos r1 \<le> sr_end r"
    using member_head_reads(1) [OF assms(1)] by (auto elim!: readsE)
  show ?thesis
  proof (cases h)
    case None
    with h assms show ?thesis by (simp add: read_member_def)
  next
    case (Some nt)
    then obtain name ty where nt: "h = Some (name, ty)" by (cases nt) auto
    have "answers (Inv buf (sr_end r1)) r1 (cb buf r1 name ty m)"
      using h assms nt member_head_reads(2) [OF assms(1), of name ty r1] namedI [of buf r name ty r1]
      by (intro total) (auto simp: reader_wf_def)
    then obtain ok r2 m2 where "cb buf r1 name ty m = Some (ok, r2, m2)" "sr_end r2 = sr_end r1" "sr_pos r1 \<le> sr_pos r2"
        "Inv buf (sr_end r1) m2" by (auto simp: answers_def)
    with h nt show ?thesis by (auto simp: read_member_def)
  qed
qed

lemma object_total:
  assumes "reader_wf buf r" "sr_end r - sr_pos r < depth + 3" "Inv buf (sr_end r) m"
  shows "answers (Inv buf (sr_end r)) r (flv_script_data_read_object cb buf r m)"
proof -
  let ?I = "\<lambda>(res :: bool option, r' :: script_reader, m'). sr_end r' = sr_end r \<and> sr_pos r \<le> sr_pos r' \<and> Inv buf (sr_end r) m'"
  let ?m = "\<lambda>(res :: bool option, r' :: script_reader, m'). if res = None then 1 + nat (sr_end r - sr_pos r') else 0"
  let ?b = "\<lambda>(res :: bool option, r' :: script_reader, m'). res = None \<and> sr_pos r' < sr_end r'"
  let ?c = "\<lambda>(res :: bool option, r' :: script_reader, m'). read_member cb buf r' m'"
  have "\<exists>t. wloop ?b ?c (None, r, m) = Some t \<and> ?I t \<and> \<not> ?b t"
  proof (rule wloop_total [where m = ?m])
    show "?I (None, r, m)" using assms(3) by simp
  next
    fix t assume I: "?I t" and b: "?b t"
    then obtain r1 m1 where t [simp]: "t = (None, r1, m1)" by (cases t) auto
    have "reader_wf buf r1" "sr_end r1 - sr_pos r1 < depth + 3" "Inv buf (sr_end r1) m1"
      using I assms by (auto simp: reader_wf_def)
    from member_total [OF this] I b show "\<exists>u. ?c t = Some u \<and> ?I u \<and> ?m u < ?m t" by fastforce
  qed
  then show ?thesis unfolding flv_script_data_read_object_def answers_def by fastforce
qed

lemma ecma_total:
  assumes "reader_wf buf r" "sr_end r - sr_pos r < depth + 3" "Inv buf (sr_end r) m"
  shows "answers (Inv buf (sr_end r)) r (flv_script_data_read_ecma cb buf r m)"
proof -
  obtain v r1 where v: "flv_script_data_read_ui32 buf r = Some (v, r1)" "sr_end r1 = sr_end r" "sr_pos r \<le> sr_pos r1"
    using reads_ui32 [OF assms(1)] by (auto elim!: readsE)
  have "answers (Inv buf (sr_end r1)) r1 (flv_script_data_read_object cb buf r1 m)"
    using v assms by (intro object_total) (auto simp: reader_wf_def)
  then have "answers (Inv buf (sr_end r)) r (flv_script_data_read_object cb buf r1 m)"
    using v by (auto simp: answers_def)
  with v assms(3) show ?thesis by (cases v) (auto simp: flv_script_data_read_ecma_def answers_def)
qed

end

text \<open>A callback that does without a name can read the elements of a strict array.\<close>

locale element_callback = value_callback +
  assumes unnamed: unnamed
begin

lemma strict_total:
  assumes "reader_wf buf r" "sr_end r - sr_pos r < depth + 3" "Inv buf (sr_end r) m"
  shows "answers (Inv buf (sr_end r)) r (flv_script_data_read_strict_array cb buf r m)"
proof -
  obtain v r1 where v: "flv_script_data_read_ui32 buf r = Some (v, r1)" "sr_end r1 = sr_end r" "sr_pos r \<le> sr_pos r1"
      "v \<noteq> None \<Longrightarrow> sr_pos r + 4 \<le> sr_pos r1"
    using reads_ui32 [OF assms(1)] by (auto elim!: readsE)
  show ?thesis
  proof (cases v)
    case None
    with v assms(3) show ?thesis by (auto simp: flv_script_data_read_strict_array_def answers_def)
  next
    case (Some n)
    let ?I = "\<lambda>(i :: int, res :: bool, r' :: script_reader, m'). sr_end r' = sr_end r \<and> sr_pos r1 \<le> sr_pos r' \<and> Inv buf (sr_end r) m'"
    let ?m = "\<lambda>(i :: int, res :: bool, r' :: script_reader, m'). if res then 1 + nat (sr_end r - sr_pos r') else 0"
    let ?b = "\<lambda>(i, res, r' :: script_reader, m'). res \<and> i < n"
    let ?c = "\<lambda>(i, res :: bool, r, m). do {
              (t, r) \<leftarrow> flv_script_data_read_ui8 buf r;
              case t of None \<Rightarrow> Some (i, False, r, m)
              | Some value_type \<Rightarrow> do {
                  (ok, r, m) \<leftarrow> cb buf r None value_type m;
                  Some (i + 1, ok, r, m) } }"
    have "\<exists>t. wloop ?b ?c (0, True, r1, m) = Some t \<and> ?I t \<and> \<not> ?b t"
    proof (rule wloop_total [where m = ?m])
      show "?I (0, True, r1, m)" using v assms(3) by simp
    next
      fix t assume I: "?I t" and b: "?b t"
      then obtain i r2 m2 where t [simp]: "t = (i, True, r2, m2)" by (cases t) auto
      have w: "reader_wf buf r2" using I v assms(1) by (auto simp: reader_wf_def)
      obtain ty r3 where ty: "flv_script_data_read_ui8 buf r2 = Some (ty, r3)" "sr_end r3 = sr_end r2" "sr_pos r2 \<le> sr_pos r3"
          "ty \<noteq> None \<Longrightarrow> sr_pos r2 + 1 \<le> sr_pos r3 \<and> sr_pos r3 \<le> sr_end r2"
        using reads_ui8 [OF w] by (auto elim!: readsE)
      show "\<exists>u. ?c t = Some u \<and> ?I u \<and> ?m u < ?m t"
      proof (cases ty)
        case None
        with ty I show ?thesis by auto
      next
        case (Some y)
        have "answers (Inv buf (sr_end r3)) r3 (cb buf r3 None y m2)"
          using I ty Some assms v unnamed \<open>v = Some n\<close> w by (intro total) (auto simp: reader_wf_def)
        then obtain ok r4 m4 where "cb buf r3 None y m2 = Some (ok, r4, m4)" "sr_end r4 = sr_end r3"
            "sr_pos r3 \<le> sr_pos r4" "Inv buf (sr_end r3) m4" by (auto simp: answers_def)
        with ty Some I show ?thesis by (cases ok) auto
      qed
    qed
    with v Some show ?thesis
      unfolding flv_script_data_read_strict_array_def answers_def by fastforce
  qed
qed

end

section \<open>Skipping\<close>

lemma reads_answers:
  "reads k r out \<Longrightarrow> Inv m \<Longrightarrow> answers Inv r (map_option (\<lambda>(v, r). (v \<noteq> None, r, m)) out)"
  by (auto simp: reads_def answers_def)

lemma answers_same: "Inv m \<Longrightarrow> answers Inv r (Some (ok, r, m))"
  by (simp add: answers_def)

lemma skip_callback: "element_callback (flv_metadata_skip_handler d) Inv (int d) True"
proof (induction d)
  case 0
  show ?case by unfold_locales simp_all
next
  case (Suc d)
  show ?case
  proof unfold_locales
    fix r and buf :: bytes and m and ty name
    assume r: "reader_wf buf r" "sr_pos r \<le> sr_end r" "sr_end r - sr_pos r < int (Suc d)" "Inv buf (sr_end r) m"
    then have le: "sr_end r - sr_pos r < int d + 3" by simp
    note v = element_callback.axioms(1) [OF Suc.IH]
    note deep = value_callback.object_total [OF v r(1) le r(4)] value_callback.ecma_total [OF v r(1) le r(4)]
      element_callback.strict_total [OF Suc.IH r(1) le r(4)]
    note flat = reads_answers [where Inv = "Inv buf (sr_end r)" and m = m, OF _ r(4)]
    show "answers (Inv buf (sr_end r)) r (flv_metadata_skip_handler (Suc d) buf r name ty m)"
      using deep flat [OF reads_double [OF r(1)]] flat [OF reads_ui8 [OF r(1)]] flat [OF reads_string [OF r(1), of False]]
        answers_same [where Inv = "Inv buf (sr_end r)", OF r(4)] by simp
  qed simp
qed

interpretation skip: element_callback "flv_metadata_skip_handler d" Inv "int d" True
  by (rule skip_callback)

section \<open>The keyframe arrays\<close>

lemma g_nearest_pow_ok:
  assumes "1 \<le> num" "num < 4294967296"
  shows "\<exists>p. g_nearest_pow num = Some p \<and> num \<le> p"
proof -
  let ?I = "\<lambda>n. n = 0 \<or> (\<exists>k \<le> 31. n = 2 ^ k)"
  let ?m = "\<lambda>n :: int. if n = 0 then 0 else nat (4294967296 - n)"
  have "\<exists>n. wloop (\<lambda>n. n < num \<and> 0 < n) (\<lambda>n. Some (u32 (n * 2))) 1 = Some n \<and> ?I n \<and> \<not> (n < num \<and> 0 < n)"
  proof (rule wloop_total [where m = ?m])
    show "?I 1" by (intro disjI2 exI [of _ 0]) simp
  next
    fix n :: int
    assume I: "?I n" and b: "n < num \<and> 0 < n"
    then obtain k :: nat where k: "k \<le> 31" "n = 2 ^ k" by auto
    show "\<exists>u. Some (u32 (n * 2)) = Some u \<and> ?I u \<and> ?m u < ?m n"
    proof (cases "k = 31")
      case True
      with k b show ?thesis by (simp add: u32_def)
    next
      case False
      with k have "Suc k \<le> 31" by simp
      then have "(2 :: int) ^ Suc k \<le> 2 ^ 31" by (intro power_increasing) simp_all
      with k have "u32 (n * 2) = 2 ^ Suc k" by (intro trans [OF u32_id]) simp_all
      moreover have "?m (2 ^ Suc k) < ?m n" using k b \<open>(2 :: int) ^ Suc k \<le> 2 ^ 31\<close> by simp
      ultimately show ?thesis using \<open>Suc k \<le> 31\<close> by blast
    qed
  qed
  then obtain n where "wloop (\<lambda>n. n < num \<and> 0 < n) (\<lambda>n. Some (u32 (n * 2))) 1 = Some n"
    "?I n" "\<not> (n < num \<and> 0 < n)" by blast
  moreover from this(2) have "0 \<le> n" by auto
  ultimately show ?thesis by (auto simp: g_nearest_pow_def)
qed

definition ga_ok :: "garray \<Rightarrow> bool" where
  "ga_ok a \<longleftrightarrow> 0 \<le> ga_len a \<and> ga_len a < 268435456 \<and> ga_len a \<le> int (length (ga_mem a)) \<and>
     0 \<le> ga_alloc a \<and> int (length (ga_mem a)) = ga_alloc a div 16"

lemma ga_ok_new [simp]: "ga_ok g_array_new"
  by (simp add: ga_ok_def g_array_new_def)

lemma maybe_expand_ok:
  assumes "ga_ok a" "ga_len a < n" "n < 268435456"
  shows "\<exists>b. g_array_maybe_expand a (n - ga_len a) = Some b \<and> ga_len b = ga_len a \<and> 0 \<le> ga_alloc b
    \<and> int (length (ga_mem b)) = ga_alloc b div 16 \<and> n \<le> int (length (ga_mem b))
    \<and> take (nat (ga_len a)) (ga_mem b) = take (nat (ga_len a)) (ga_mem a)"
proof -
  have e: "g_array_elt_len n = 16 * n" "u32 n = n"
    using assms by (simp_all add: g_array_elt_len_def ga_ok_def)
  show ?thesis
  proof (cases "ga_alloc a < 16 * n")
    case False
    with assms have "n \<le> ga_alloc a div 16" by simp
    with False assms show ?thesis by (simp add: g_array_maybe_expand_def e ga_ok_def Let_def)
  next
    case True
    obtain p where p: "g_nearest_pow (16 * n) = Some p" "16 * n \<le> p"
      using g_nearest_pow_ok [of "16 * n"] assms by (auto simp: ga_ok_def)
    define w c where "w = max p 16" and "c = nat (w div 16)"
    have x: "g_array_maybe_expand a (n - ga_len a) = Some (a\<lparr>ga_alloc := w,
        ga_mem := take c (ga_mem a @ replicate (c - length (ga_mem a)) zero_keyframe)\<rparr>)"
      using True p(1) by (simp add: g_array_maybe_expand_def e Let_def w_def c_def)
    have w: "16 * n \<le> w" "0 \<le> w" using p(2) by (simp_all add: w_def)
    have c: "int c = w div 16" "n \<le> w div 16" using w assms by (simp_all add: c_def)
    have "ga_alloc a div 16 \<le> w div 16" using True w(1) by (intro zdiv_mono1) simp_all
    with c have "length (ga_mem a) \<le> c" "nat (ga_len a) \<le> length (ga_mem a)"
      using assms(1) by (simp_all add: ga_ok_def nat_le_iff)
    with x w c show ?thesis by (simp add: min_def)
  qed
qed

text \<open>Growing clears the new elements and keeps the old ones; shrinking keeps the rest.\<close>

lemma set_size_ok:
  assumes "ga_ok a" "0 \<le> n" "n < 268435456"
  shows "\<exists>b. g_array_set_size a n = Some b \<and> ga_ok b \<and> ga_len b = n \<and>
    (\<forall>i. 0 \<le> i \<and> i < n \<longrightarrow> ga_mem b ! nat i = (if i < ga_len a then ga_mem a ! nat i else zero_keyframe))"
proof (cases "ga_len a < n")
  case False
  with assms show ?thesis by (auto simp: g_array_set_size_def ga_ok_def)
next
  case True
  obtain b where b: "g_array_maybe_expand a (n - ga_len a) = Some b" "ga_len b = ga_len a" "0 \<le> ga_alloc b"
      "int (length (ga_mem b)) = ga_alloc b div 16" "n \<le> int (length (ga_mem b))"
      "take (nat (ga_len a)) (ga_mem b) = take (nat (ga_len a)) (ga_mem a)"
    using maybe_expand_ok [OF assms(1) True assms(3)] by blast
  have l: "0 \<le> ga_len a" "ga_len a \<le> int (length (ga_mem a))" "ga_len a < 268435456"
    using assms(1) by (simp_all add: ga_ok_def)
  have e: "g_array_elt_len (ga_len a) div 16 = ga_len a" "g_array_elt_len (n - ga_len a) div 16 = n - ga_len a"
    using l True assms(3) by (simp_all add: g_array_elt_len_def)
  define mem where "mem = take (nat (ga_len a)) (ga_mem b) @ replicate (nat (n - ga_len a)) zero_keyframe @ drop (nat n) (ga_mem b)"
  have "g_array_set_size a n = Some (b\<lparr>ga_mem := mem, ga_len := n\<rparr>)"
    unfolding mem_def using True b(1,2,5) by (simp add: g_array_set_size_def g_array_elt_zero_def e Let_def)
  moreover have "length mem = length (ga_mem b)" unfolding mem_def using l b(5) True by simp
  moreover have "mem ! nat i = (if i < ga_len a then ga_mem a ! nat i else zero_keyframe)" if "0 \<le> i" "i < n" for i
  proof (cases "i < ga_len a")
    case True
    then show ?thesis using that l b(5) \<open>ga_len a < n\<close>
      by (simp add: mem_def b(6) nth_append)
  next
    case False
    then show ?thesis using that l b(5) \<open>ga_len a < n\<close> by (simp add: mem_def nth_append)
  qed
  ultimately show ?thesis using b assms(2,3) True by (simp add: ga_ok_def)
qed

lemma prepare_keyframes_ok:
  assumes "ga_ok ga" "0 \<le> n" "n < 268435456"
  shows "\<exists>b rs. prepare_keyframes ga n = Some (b, rs) \<and> ga_ok b \<and> ga_len b = rs
    \<and> rs = (if ga_len ga = 0 then n else min n (ga_len ga))
    \<and> (\<forall>i. 0 \<le> i \<and> i < rs \<longrightarrow> ga_mem b ! nat i = (if i < ga_len ga then ga_mem ga ! nat i else zero_keyframe))"
proof -
  obtain b where b: "g_array_set_size ga n = Some b" "ga_ok b" "ga_len b = n"
      "\<forall>i. 0 \<le> i \<and> i < n \<longrightarrow> ga_mem b ! nat i = (if i < ga_len ga then ga_mem ga ! nat i else zero_keyframe)"
    using set_size_ok [OF assms] by blast
  have "0 \<le> ga_len ga" using assms(1) by (simp add: ga_ok_def)
  then consider "ga_len ga = 0" "n = 0" | "ga_len ga = 0" "n \<noteq> 0" | "0 < ga_len ga" "n < ga_len ga"
    | "0 < ga_len ga" "ga_len ga \<le> n" by linarith
  then show ?thesis
    by cases (use b assms in \<open>auto simp: prepare_keyframes_def\<close>)
qed

text \<open>
  The loop: while the array is as long as announced, or the announcement is at most one longer,
  every store is inside of the array.
\<close>

lemma keyframe_array_total:
  assumes wf: "reader_wf buf r" and ga: "ga_ok ga"
    and n: "\<And>n r1. flv_script_data_read_ui32 buf r = Some (Some n, r1) \<Longrightarrow>
      n < 268435456 \<and> (0 < ga_len ga \<longrightarrow> n \<le> ga_len ga + 1)"
  shows "\<exists>ok r' b. flv_script_read_keyframe_array cv buf r (Some name) ga = Some (ok, r', b) \<and> sr_end r' = sr_end r
    \<and> sr_pos r \<le> sr_pos r' \<and> ga_ok b \<and> (ga_len b = ga_len ga \<or> (\<exists>r1. flv_script_data_read_ui32 buf r = Some (Some (ga_len b), r1)))
    \<and> (ok \<longrightarrow> (\<exists>n r1. flv_script_data_read_ui32 buf r = Some (Some n, r1) \<and> r' = r1\<lparr>sr_pos := sr_pos r1 + 9 * n\<rparr>))"
proof -
  obtain v r1 where v: "flv_script_data_read_ui32 buf r = Some (v, r1)" "sr_end r1 = sr_end r" "sr_pos r \<le> sr_pos r1"
    using reads_ui32 [OF wf] by (auto elim!: readsE)
  show ?thesis
  proof (cases v)
    case None
    with v ga show ?thesis by (auto simp: flv_script_read_keyframe_array_def)
  next
    case (Some n)
    have rdn: "flv_script_data_read_ui32 buf r = Some (Some n, r1)" using v Some by simp
    have n0: "0 \<le> n" using ui32_value [OF rdn] READ_UINT32_ok [of "sr_pos r" buf] wf by (auto simp: reader_wf_def)
    obtain g rs where g: "prepare_keyframes ga n = Some (g, rs)" "ga_ok g" "ga_len g = rs"
        "rs = (if ga_len ga = 0 then n else min n (ga_len ga))"
      using prepare_keyframes_ok [OF ga n0] n [OF rdn] by blast
    have rs: "0 \<le> rs" "rs < 268435456" "n \<le> rs + 1" "rs \<le> int (length (ga_mem g))" "rs = ga_len ga \<or> rs = n"
      using g n [OF rdn] ga by (auto simp: ga_ok_def)
    let ?f = "keyframe_field name"
    let ?b = "\<lambda>(i :: int, rs :: int, res :: bool, r :: script_reader, ga :: garray). res \<and> i < n"
    let ?c = "\<lambda>(i, readSize, res :: bool, r, ga). do {
              (t, r) \<leftarrow> flv_script_data_read_ui8 buf r;
              if t \<noteq> Some 0 then Some (i, readSize, False, r, ga)
              else do {
                (v, r) \<leftarrow> flv_script_data_read_double buf r;
                case v of None \<Rightarrow> Some (i, readSize, False, r, ga)
                | Some v \<Rightarrow> do {
                    ga \<leftarrow> (if 0 < readSize \<and> 0 < ?f
                      then map_option (\<lambda>mem. ga\<lparr>ga_mem := mem\<rparr>) (upd (ga_mem ga) i (store_keyframe cv ?f v))
                      else Some ga);
                    Some (i + 1, u32 (readSize - 1), True, r, ga) } } }"
    let ?I = "\<lambda>(i, k, res :: bool, r', a). 0 \<le> i \<and> i \<le> n \<and> (i < n \<longrightarrow> k = rs - i) \<and> sr_end r' = sr_end r \<and> sr_pos r1 \<le> sr_pos r'
       \<and> (res \<longrightarrow> r' = r1\<lparr>sr_pos := sr_pos r1 + 9 * i\<rparr>) \<and> ga_ok a \<and> ga_len a = rs \<and> length (ga_mem a) = length (ga_mem g)"
    let ?m = "\<lambda>(i, k :: int, res, r' :: script_reader, a :: garray). if res then 1 + nat (n - i) else 0"
    have "\<exists>t. wloop ?b ?c (0, rs, True, r1, g) = Some t \<and> ?I t \<and> \<not> ?b t"
    proof (rule wloop_total [where m = ?m])
      show "?I (0, rs, True, r1, g)" using g v n0 by simp
    next
      fix t assume I: "?I t" and b: "?b t"
      obtain i k r2 a where t [simp]: "t = (i, k, True, r2, a)" using b by (cases t) auto
      have i: "0 \<le> i" "i < n" "k = rs - i" "sr_end r2 = sr_end r" "sr_pos r1 \<le> sr_pos r2" "ga_ok a" "ga_len a = rs"
          "length (ga_mem a) = length (ga_mem g)" "r2 = r1\<lparr>sr_pos := sr_pos r1 + 9 * i\<rparr>" using I b v(2) by simp_all
      have w: "reader_wf buf r2" using i v wf by (auto simp: reader_wf_def)
      obtain ty r3 where ty: "flv_script_data_read_ui8 buf r2 = Some (ty, r3)" "sr_end r3 = sr_end r2" "sr_pos r2 \<le> sr_pos r3"
        using reads_ui8 [OF w] by (auto elim!: readsE)
      then have w3: "reader_wf buf r3" using w by (auto simp: reader_wf_def)
      obtain d r4 where d: "flv_script_data_read_double buf r3 = Some (d, r4)" "sr_end r4 = sr_end r3" "sr_pos r3 \<le> sr_pos r4"
        using reads_double [OF w3] by (auto elim!: readsE)
      have k: "i + 1 < n \<longrightarrow> u32 (k - 1) = rs - (i + 1)" using i rs by (auto simp: algebra_simps)
      show "\<exists>u. ?c t = Some u \<and> ?I u \<and> ?m u < ?m t"
      proof (cases "ty = Some 0 \<and> d \<noteq> None")
        case False
        with ty d i show ?thesis by (cases d) auto
      next
        case True
        then obtain x where x: "ty = Some 0" "d = Some x" by auto
        have "r3 = r2\<lparr>sr_pos := sr_pos r2 + 1\<rparr>" using ui8_value [of buf r2 0 r3] ty x by simp
        moreover have "r4 = r3\<lparr>sr_pos := sr_pos r3 + 8\<rparr>" using d x by (auto simp: flv_script_data_read_double_def bind_eq_Some_conv split: if_splits)
        ultimately have r4: "r4 = r1\<lparr>sr_pos := sr_pos r1 + 9 * (i + 1)\<rparr>" using i(9) by simp
        have in_mem: "0 < k \<Longrightarrow> i < int (length (ga_mem a))" using i rs by simp
        define b where "b = (if 0 < k \<and> 0 < ?f
          then a\<lparr>ga_mem := (ga_mem a)[nat i := store_keyframe cv ?f x (ga_mem a ! nat i)]\<rparr> else a)"
        have b: "ga_ok b" "ga_len b = rs" "length (ga_mem b) = length (ga_mem g)"
          using i by (simp_all add: b_def ga_ok_def)
        have "?c t = Some (i + 1, u32 (k - 1), True, r4, b)"
          using ty d x i in_mem by (simp add: b_def mem_simps)
        with b k i ty d r4 show ?thesis by simp
      qed
    qed
    then obtain t where t: "wloop ?b ?c (0, rs, True, r1, g) = Some t" "?I t" "\<not> ?b t" by blast
    obtain i k res r' a where e: "t = (i, k, res, r', a)" by (cases t)
    have "res \<Longrightarrow> i = n" using t(2,3) unfolding e by simp
    then have f: "sr_end r' = sr_end r" "sr_pos r1 \<le> sr_pos r'" "ga_ok a" "ga_len a = rs"
        "res \<Longrightarrow> r' = r1\<lparr>sr_pos := sr_pos r1 + 9 * n\<rparr>" using t(2) unfolding e by simp_all
    have "wloop ?b ?c (0, rs, True, r1, g) = Some (i, k, res, r', a)" using t(1) unfolding e .
    then have "flv_script_read_keyframe_array cv buf r (Some name) ga = Some (res, r', a)"
      using rdn g(1) by (simp add: flv_script_read_keyframe_array_def)
    with f rs(5) rdn v(3)
    show ?thesis by auto
  qed
qed

section \<open>The whole reader\<close>

text \<open>
  The counts of the arrays of a keyframes object, from its first member on: an array is a name, the type 10,
  the count and as many numbers of nine bytes. \<open>balanced\<close>: no count exceeds another by more than one, and
  none is large enough for the array's size in bytes to wrap around. \<open>counts_ok\<close>: so it is for every object named
  \<^verbatim>\<open>keyframes\<close> in the block.
\<close>

fun array_counts :: "nat \<Rightarrow> bytes \<Rightarrow> script_reader \<Rightarrow> int list" where
  "array_counts 0 buf r = []"
| "array_counts (Suc d) buf r = (if sr_end r \<le> sr_pos r then [] else case member_head buf r of
     Some (Some (Some name, ty), r1) \<Rightarrow> if ty = 10 then (case flv_script_data_read_ui32 buf r1 of
         Some (Some n, r2) \<Rightarrow> n # array_counts d buf (r2\<lparr>sr_pos := sr_pos r2 + 9 * n\<rparr>) | _ \<Rightarrow> []) else []
   | _ \<Rightarrow> [])"

definition balanced :: "int list \<Rightarrow> bool" where
  "balanced cs \<longleftrightarrow> (\<forall>n \<in> set cs. n < 268435456 \<and> (\<forall>k \<in> set cs. 0 < k \<longrightarrow> n \<le> k + 1))"

definition object_balanced :: "bytes \<Rightarrow> script_reader \<Rightarrow> bool" where
  "object_balanced buf r = (case member_head buf r of
     Some (Some (Some name, ty), r1) \<Rightarrow> ty = 3 \<and> str_is name ''keyframes'' \<longrightarrow> balanced (array_counts (length buf) buf r1)
   | _ \<Rightarrow> True)"

definition counts_ok :: "bytes \<Rightarrow> int \<Rightarrow> bool" where
  "counts_ok buf e \<longleftrightarrow> (\<forall>j \<in> set [0..e - 3]. object_balanced buf \<lparr>sr_pos = j, sr_end = e\<rparr>)"

lemma counts_okD:
  assumes "counts_ok buf (sr_end r)" "named buf r (Some name) 3" "str_is name ''keyframes''"
  shows "balanced (array_counts (length buf) buf r)"
proof -
  obtain j where j: "0 \<le> j" "member_head buf \<lparr>sr_pos = j, sr_end = sr_end r\<rparr> = Some (Some (Some name, 3), r)"
    using assms(2) by (auto simp: named_def)
  then have "j + 3 \<le> sr_end r" by (auto simp: member_head_def split: if_splits)
  then have "object_balanced buf \<lparr>sr_pos = j, sr_end = sr_end r\<rparr>" using assms(1) j(1) by (simp add: counts_ok_def)
  then show ?thesis using j(2) assms(3) by (simp add: object_balanced_def)
qed

definition kf_inv :: "int list \<Rightarrow> flv_metadata \<Rightarrow> bool" where
  "kf_inv cs m \<longleftrightarrow> md_tag_list m \<noteq> None \<and> (case md_keyframes m of None \<Rightarrow> True | Some ga \<Rightarrow> ga_ok ga \<and> (ga_len ga = 0 \<or> ga_len ga \<in> set cs))"

text \<open>\<open>kept\<close>: the keyframes the metadata had before, which stay if it had any.\<close>

definition value_inv :: "garray option \<Rightarrow> bytes \<Rightarrow> int \<Rightarrow> flv_metadata \<Rightarrow> bool" where
  "value_inv kept buf e m \<longleftrightarrow> md_tag_list m \<noteq> None \<and> (kept \<noteq> None \<longrightarrow> md_keyframes m = kept) \<and>
     (case md_keyframes m of None \<Rightarrow> counts_ok buf e | Some ga \<Rightarrow> ga_ok ga)"

lemma keyframe_handler_array:
  assumes wf: "reader_wf buf r" and inv: "kf_inv cs m" "balanced cs"
    and n: "\<And>n r1. flv_script_data_read_ui32 buf r = Some (Some n, r1) \<Longrightarrow> n \<in> set cs"
  shows "\<exists>ok r' m'. flv_metadata_keyframe_handler cv buf r (Some name) 10 m = Some (ok, r', m') \<and> sr_end r' = sr_end r
    \<and> sr_pos r \<le> sr_pos r' \<and> kf_inv cs m'
    \<and> (ok \<longrightarrow> (\<exists>n r1. flv_script_data_read_ui32 buf r = Some (Some n, r1) \<and> r' = r1\<lparr>sr_pos := sr_pos r1 + 9 * n\<rparr>))"
proof -
  let ?ga = "case md_keyframes m of None \<Rightarrow> g_array_new | Some ga \<Rightarrow> ga"
  have ga: "ga_ok ?ga" "ga_len ?ga = 0 \<or> ga_len ?ga \<in> set cs"
    using inv(1) by (auto simp: kf_inv_def g_array_new_def ga_ok_def split: option.splits)
  have bd: "n < 268435456 \<and> (0 < ga_len ?ga \<longrightarrow> n \<le> ga_len ?ga + 1)"
    if "flv_script_data_read_ui32 buf r = Some (Some n, r1)" for n r1
    using n [OF that] inv(2) ga(2) unfolding balanced_def by fastforce
  have "\<exists>ok r' b. flv_script_read_keyframe_array cv buf r (Some name) ?ga = Some (ok, r', b) \<and> sr_end r' = sr_end r
      \<and> sr_pos r \<le> sr_pos r' \<and> ga_ok b \<and> (ga_len b = ga_len ?ga \<or> (\<exists>r1. flv_script_data_read_ui32 buf r = Some (Some (ga_len b), r1)))
      \<and> (ok \<longrightarrow> (\<exists>n r1. flv_script_data_read_ui32 buf r = Some (Some n, r1) \<and> r' = r1\<lparr>sr_pos := sr_pos r1 + 9 * n\<rparr>))"
    by (rule keyframe_array_total [OF wf ga(1)]) (erule bd)
  then obtain k r' b where
    b: "flv_script_read_keyframe_array cv buf r (Some name) ?ga = Some (k, r', b)" "sr_end r' = sr_end r"
      "sr_pos r \<le> sr_pos r'" "ga_ok b" "ga_len b = ga_len ?ga \<or> (\<exists>r1. flv_script_data_read_ui32 buf r = Some (Some (ga_len b), r1))"
      "k \<longrightarrow> (\<exists>n r1. flv_script_data_read_ui32 buf r = Some (Some n, r1) \<and> r' = r1\<lparr>sr_pos := sr_pos r1 + 9 * n\<rparr>)"
    by blast
  then have "ga_len b = 0 \<or> ga_len b \<in> set cs" using ga(2) n by metis
  then have "kf_inv cs (m\<lparr>md_keyframes := Some b\<rparr>)" using inv(1) b(4) by (simp add: kf_inv_def)
  then show ?thesis using b(1-3,6) by (intro exI conjI) (simp_all add: flv_metadata_keyframe_handler_def)
qed

text \<open>The object is read member by member; the counts bound the array at every one.\<close>

lemma read_object_step:
  assumes "sr_pos r < sr_end r" "read_member cb buf r m = Some (res, r', m')"
  shows "flv_script_data_read_object cb buf r m = (case res of None \<Rightarrow> flv_script_data_read_object cb buf r' m' | Some b \<Rightarrow> Some (b, r', m'))"
  using assms by (cases res) (simp_all add: flv_script_data_read_object_def wloop_step wloop_stop)

lemma keyframe_object_total:
  assumes "reader_wf buf r" "nat (sr_end r - sr_pos r) \<le> d" "kf_inv cs m" "balanced cs" "set (array_counts d buf r) \<subseteq> set cs"
  shows "answers (kf_inv cs) r (flv_script_data_read_object (flv_metadata_keyframe_handler cv) buf r m)"
  using assms
proof (induction d arbitrary: r m)
  case 0
  then show ?case by (auto simp: flv_script_data_read_object_def wloop_stop answers_def)
next
  case (Suc d)
  show ?case
  proof (cases "sr_pos r < sr_end r")
    case False
    then show ?thesis using Suc.prems(3) by (auto simp: flv_script_data_read_object_def wloop_stop answers_def)
  next
    case True
    let ?h = "flv_metadata_keyframe_handler cv"
    obtain h r1 where h: "member_head buf r = Some (h, r1)" "sr_end r1 = sr_end r" "sr_pos r \<le> sr_pos r1"
        "h \<noteq> None \<Longrightarrow> sr_pos r + 3 \<le> sr_pos r1 \<and> sr_pos r1 \<le> sr_end r"
      using member_head_reads(1) [OF Suc.prems(1)] by (auto elim!: readsE)
    have wf1: "reader_wf buf r1" using Suc.prems(1) h by (simp add: reader_wf_def)
    note st = read_object_step [OF True, where cb = ?h and buf = buf and m = m]
    show ?thesis
    proof (cases h)
      case None
      then have "read_member ?h buf r m = Some (Some False, r1, m)" using h by (simp add: read_member_def)
      from st [OF this] show ?thesis using h Suc.prems(3) by (auto simp: answers_def)
    next
      case (Some nt)
      then obtain name ty where nt: "h = Some (name, ty)" by (cases nt) auto
      show ?thesis
      proof (cases "ty = 10")
        case False
        then have "\<exists>b. read_member ?h buf r m = Some (Some b, r1, m)"
          using h nt by (auto simp: read_member_def flv_metadata_keyframe_handler_def)
        then show ?thesis using st h Suc.prems(3) by (auto simp: answers_def)
      next
        case ten: True
        then obtain nm where nm: "name = Some nm" using member_head_reads(2) [OF Suc.prems(1)] h(1) nt by fastforce
        have counts: "array_counts (Suc d) buf r = (case flv_script_data_read_ui32 buf r1 of
            Some (Some n, r2) \<Rightarrow> n # array_counts d buf (r2\<lparr>sr_pos := sr_pos r2 + 9 * n\<rparr>) | _ \<Rightarrow> [])"
          using True h(1) nt nm ten by simp
        then have n: "n \<in> set cs" if "flv_script_data_read_ui32 buf r1 = Some (Some n, r2)" for n r2
          using Suc.prems(5) that by simp
        obtain ok r2 m2 where k: "?h buf r1 (Some nm) 10 m = Some (ok, r2, m2)" "sr_end r2 = sr_end r1" "sr_pos r1 \<le> sr_pos r2"
            "kf_inv cs m2" "ok \<longrightarrow> (\<exists>n r3. flv_script_data_read_ui32 buf r1 = Some (Some n, r3) \<and> r2 = r3\<lparr>sr_pos := sr_pos r3 + 9 * n\<rparr>)"
          using keyframe_handler_array [OF wf1 Suc.prems(3,4), of cv nm] n by blast
        have mem: "read_member ?h buf r m = Some (if ok then None else Some False, r2, m2)"
          using h(1) nt nm ten k(1) by (simp add: read_member_def)
        show ?thesis
        proof (cases ok)
          case False
          then show ?thesis using st [OF mem] k h by (auto simp: answers_def)
        next
          case ok: True
          then obtain n r3 where n3: "flv_script_data_read_ui32 buf r1 = Some (Some n, r3)" "r2 = r3\<lparr>sr_pos := sr_pos r3 + 9 * n\<rparr>"
            using k(5) by blast
          have "answers (kf_inv cs) r2 (flv_script_data_read_object ?h buf r2 m2)"
          proof (rule Suc.IH)
            show "reader_wf buf r2" "nat (sr_end r2 - sr_pos r2) \<le> d" using wf1 k(2,3) h Suc.prems(2) nt by (auto simp: reader_wf_def)
            show "set (array_counts d buf r2) \<subseteq> set cs" using Suc.prems(5) counts n3 by simp
          qed (use k(4) Suc.prems(4) in simp_all)
          then show ?thesis using st [OF mem] ok k h by (auto simp: answers_def)
        qed
      qed
    qed
  qed
qed

lemma answers_mono: "answers I r out \<Longrightarrow> (\<And>m. I m \<Longrightarrow> J m) \<Longrightarrow> answers J r out"
  unfolding answers_def by blast

lemma read_then:
  assumes "reads k r out" "Inv m" and f: "\<And>v. \<exists>m'. f v = Some m' \<and> Inv m'"
  shows "answers Inv r (do { (v, r) \<leftarrow> out; case v of None \<Rightarrow> Some (False, r, m)
      | Some v \<Rightarrow> do { m \<leftarrow> f v; Some (True, r, m) } })"
proof -
  obtain v r' where v: "out = Some (v, r')" "sr_end r' = sr_end r" "sr_pos r \<le> sr_pos r'"
    using assms(1) by (auto elim!: readsE)
  obtain m' where "f (the v) = Some m'" "Inv m'" using f by blast
  with v assms(2) show ?thesis by (cases v) (auto simp: answers_def)
qed

lemma store_double_inv: "value_inv kept buf e m \<Longrightarrow> \<exists>m'. store_double cv name v m = Some m' \<and> value_inv kept buf e m'"
  by (auto simp: store_double_def value_inv_def gst_tag_list_add_def)

lemma store_bool_inv: "value_inv kept buf e m \<Longrightarrow> value_inv kept buf e (store_bool name b m)"
  by (auto simp: store_bool_def value_inv_def)

lemma value_callback_total: "value_callback (flv_metadata_value_handler cv d) (value_inv kept) (int d + 3) False"
proof unfold_locales
  fix r and buf :: bytes and m :: flv_metadata and ty :: int and name :: "bytes option"
  assume wf: "reader_wf buf r" and d: "sr_end r - sr_pos r < int d + 3" and inv: "value_inv kept buf (sr_end r) m"
    and named: "name \<noteq> None \<Longrightarrow> named buf r name ty" and name: "name = None \<Longrightarrow> False \<or> ty = 9"
  let ?A = "answers (value_inv kept buf (sr_end r)) r"
  show "?A (flv_metadata_value_handler cv d buf r name ty m)"
  proof (cases "ty = 9")
    case True
    then show ?thesis using inv by (simp add: flv_metadata_value_handler_def answers_same)
  next
    case False
    then obtain nm where nm: "name = Some nm" using name by auto
    note same = answers_same [where Inv = "value_inv kept buf (sr_end r)", OF inv]
    have deep: "?A (flv_script_data_read_object (flv_metadata_skip_handler d) buf r m)"
      "?A (flv_script_data_read_ecma (flv_metadata_skip_handler d) buf r m)"
      "?A (flv_script_data_read_strict_array (flv_metadata_skip_handler d) buf r m)"
      by (rule skip.object_total skip.ecma_total skip.strict_total, rule wf, rule d, rule inv)+
    note store = read_then [where Inv = "value_inv kept buf (sr_end r)", OF _ inv]
    have dbl: "?A (do { (v, r) \<leftarrow> flv_script_data_read_double buf r;
        case v of None \<Rightarrow> Some (False, r, m) | Some v \<Rightarrow> do { m \<leftarrow> store_double cv nm v m; Some (True, r, m) } })"
      by (rule store [OF reads_double [OF wf]]) (rule store_double_inv [OF inv])
    have bl: "?A (do { (v, r) \<leftarrow> flv_script_data_read_ui8 buf r;
        case v of None \<Rightarrow> Some (False, r, m) | Some b \<Rightarrow> do { m \<leftarrow> Some (store_bool nm b m); Some (True, r, m) } })"
      by (rule store [OF reads_ui8 [OF wf]]) (simp add: store_bool_inv [OF inv])
    have st: "?A (do { (s, r) \<leftarrow> flv_script_data_read_string buf r long;
        case s of None \<Rightarrow> Some (False, r, m)
        | Some s \<Rightarrow> do { m \<leftarrow> gst_tag_list_add (c_string nm) (Tag_String (c_string s)) m; Some (True, r, m) } })" for long
      using inv by (intro store [OF reads_string [OF wf]]) (auto simp: gst_tag_list_add_def value_inv_def)
    have kf: "?A (flv_script_data_read_object (flv_metadata_keyframe_handler cv) buf r m)"
      if "md_keyframes m = None" "ty = 3" "str_is nm ''keyframes''"
    proof -
      let ?cs = "array_counts (length buf) buf r"
      have "kf_inv ?cs m" using that inv by (simp add: kf_inv_def value_inv_def)
      moreover have "balanced ?cs"
        using counts_okD [of buf r nm] inv that named nm by (simp add: value_inv_def)
      moreover have "nat (sr_end r - sr_pos r) \<le> length buf" using wf unfolding reader_wf_def by linarith
      moreover have "counts_ok buf (sr_end r)" "kept = None" using inv that(1) by (auto simp: value_inv_def)
      ultimately show ?thesis
        by (intro answers_mono [OF keyframe_object_total [OF wf]]) (auto simp: kf_inv_def value_inv_def split: option.splits)
    qed
    have mv: "?A (Some (True, r\<lparr>sr_pos := sr_pos r + 2\<rparr>, m))" "?A (Some (True, r\<lparr>sr_pos := sr_pos r + 10\<rparr>, m))"
      using inv by (auto simp: answers_def)
    show ?thesis
      unfolding flv_metadata_value_handler_def nm Option.bind.simps
      using same deep dbl bl [unfolded Option.bind.simps] st [of True] st [of False] kf mv False by simp
  qed
qed

interpretation val: value_callback "flv_metadata_value_handler cv d" "value_inv kept" "int d + 3" False
  by (rule value_callback_total)

lemma script_data_read_total:
  assumes wf: "reader_wf buf r"
    and ok: "case md_keyframes m of None \<Rightarrow> counts_ok buf (sr_end r) | Some ga \<Rightarrow> ga_ok ga"
  shows "\<exists>res m'. flv_script_data_read cv buf r m = Some (res, m') \<and>
    (case md_keyframes m' of None \<Rightarrow> True | Some ga \<Rightarrow> ga_ok ga) \<and> (md_keyframes m \<noteq> None \<longrightarrow> md_keyframes m' = md_keyframes m)"
proof -
  obtain t r1 where t: "flv_script_data_read_ui8 buf r = Some (t, r1)" "sr_end r1 = sr_end r" "sr_pos r \<le> sr_pos r1"
    using reads_ui8 [OF wf] by (auto elim!: readsE)
  then have w1: "reader_wf buf r1" using wf by (simp add: reader_wf_def)
  obtain s r2 where s: "flv_script_data_read_string buf r1 False = Some (s, r2)" "sr_end r2 = sr_end r1" "sr_pos r1 \<le> sr_pos r2"
    using reads_string [OF w1, of False] by (auto elim!: readsE)
  then have w2: "reader_wf buf r2" using w1 by (simp add: reader_wf_def)
  obtain u r3 where u: "flv_script_data_read_ui8 buf r2 = Some (u, r3)" "sr_end r3 = sr_end r2" "sr_pos r2 \<le> sr_pos r3"
    using reads_ui8 [OF w2] by (auto elim!: readsE)
  then have w3: "reader_wf buf r3" using w2 by (simp add: reader_wf_def)
  let ?m = "if md_tag_list m = None then m\<lparr>md_tag_list := Some []\<rparr> else m"
  have "answers (value_inv (md_keyframes m) buf (sr_end r3)) r3 (flv_script_data_read_ecma (flv_metadata_value_handler cv (length buf)) buf r3 ?m)"
    using w3 ok t s u by (intro val.ecma_total) (auto simp: reader_wf_def value_inv_def)
  then obtain res r4 m4 where
    "flv_script_data_read_ecma (flv_metadata_value_handler cv (length buf)) buf r3 ?m = Some (res, r4, m4)"
    "case md_keyframes m4 of None \<Rightarrow> True | Some ga \<Rightarrow> ga_ok ga" "md_keyframes m \<noteq> None \<longrightarrow> md_keyframes m4 = md_keyframes m"
    by (auto simp: answers_def value_inv_def split: option.splits)
  moreover have "case md_keyframes m of None \<Rightarrow> True | Some ga \<Rightarrow> ga_ok ga" using ok by (auto split: option.splits)
  ultimately show ?thesis using t s u by (cases t; cases s; cases u) (auto simp: flv_script_data_read_def Let_def)
qed

end
