(* ===== verification/Amf.thy ===== *)
theory Amf
  imports Flv_Metadata
begin

text \<open>
  The AMF layout of script data as the comments of \<^verbatim>\<open>flvmetadata.c\<close> give it, as an encoder, and what the
  readers of Flv_Metadata make of encoded values: every handler consumes exactly one value and has
  the effect of an abstract step on the metadata.
\<close>

section \<open>Values and their layout\<close>

datatype amf = Amf_Number dbl | Amf_Boolean int | Amf_String bytes | Amf_Object "(bytes \<times> amf) list"
  | Amf_Ecma int "(bytes \<times> amf) list" | Amf_Strict "amf list"

definition be16 :: "int \<Rightarrow> bytes" where "be16 n = [octet (n div 256), octet n]"
definition be64 :: "int \<Rightarrow> bytes" where "be64 n = be32 (n div 4294967296) @ be32 (n mod 4294967296)"

definition short_string :: "bytes \<Rightarrow> bytes" where "short_string s = be16 (int (length s)) @ s"

primrec amf_type :: "amf \<Rightarrow> int" where
  "amf_type (Amf_Number _) = 0"
| "amf_type (Amf_Boolean _) = 1"
| "amf_type (Amf_String _) = 2"
| "amf_type (Amf_Object _) = 3"
| "amf_type (Amf_Ecma _ _) = 8"
| "amf_type (Amf_Strict _) = 10"

definition encode_members :: "(bytes \<times> bytes) list \<Rightarrow> bytes" where
  "encode_members ms = concat (List.map (\<lambda>(n, e). short_string n @ e) ms) @ [0, 0, 9]"

text \<open>The type byte and the body of a value.\<close>

primrec amf_value :: "amf \<Rightarrow> bytes" where
  "amf_value (Amf_Number d) = 0 # be64 d"
| "amf_value (Amf_Boolean b) = [1, octet b]"
| "amf_value (Amf_String s) = 2 # short_string s"
| "amf_value (Amf_Object ms) = 3 # encode_members (List.map (map_prod id amf_value) ms)"
| "amf_value (Amf_Ecma n ms) = 8 # be32 n @ encode_members (List.map (map_prod id amf_value) ms)"
| "amf_value (Amf_Strict vs) = 10 # be32 (int (length vs)) @ concat (List.map amf_value vs)"

definition amf_body :: "amf \<Rightarrow> bytes" where "amf_body v = tl (amf_value v)"

definition members :: "(bytes \<times> amf) list \<Rightarrow> bytes" where
  "members ms = encode_members (List.map (map_prod id amf_value) ms)"

lemma amf_body_simps [simp]:
  "amf_body (Amf_Number d) = be64 d"
  "amf_body (Amf_Boolean b) = [octet b]"
  "amf_body (Amf_String s) = short_string s"
  "amf_body (Amf_Object ms) = members ms"
  "amf_body (Amf_Ecma n ms) = be32 n @ members ms"
  "amf_body (Amf_Strict vs) = be32 (int (length vs)) @ concat (List.map amf_value vs)"
  by (simp_all add: amf_body_def members_def)

lemma amf_value_split: "amf_value v = octet (amf_type v) # amf_body v"
  by (cases v) (simp_all add: members_def octet_def)

lemma members_simps [simp]:
  "members [] = [0, 0, 9]"
  "members ((n, v) # ms) = short_string n @ amf_value v @ members ms"
  by (simp_all add: members_def encode_members_def)

primrec amf_ok :: "amf \<Rightarrow> bool" where
  "amf_ok (Amf_Number d) \<longleftrightarrow> 0 \<le> d \<and> d < 2 ^ 64"
| "amf_ok (Amf_Boolean b) \<longleftrightarrow> 0 \<le> b \<and> b < 256"
| "amf_ok (Amf_String s) \<longleftrightarrow> length s < 65536"
| "amf_ok (Amf_Object ms) \<longleftrightarrow> list_all (\<lambda>(n, b). length n < 65536 \<and> b) (List.map (map_prod id amf_ok) ms)"
| "amf_ok (Amf_Ecma n ms) \<longleftrightarrow> 0 \<le> n \<and> n < 2 ^ 32 \<and> list_all (\<lambda>(n, b). length n < 65536 \<and> b) (List.map (map_prod id amf_ok) ms)"
| "amf_ok (Amf_Strict vs) \<longleftrightarrow> length vs < 2 ^ 32 \<and> list_all id (List.map amf_ok vs)"

lemma amf_type_range: "amf_type v \<in> {0, 1, 2, 3, 8, 10}"
  by (cases v) simp_all

section \<open>Reading at a position\<close>

definition adv :: "script_reader \<Rightarrow> nat \<Rightarrow> script_reader" where
  "adv r k = r\<lparr>sr_pos := sr_pos r + int k\<rparr>"

lemma adv_simps [simp]: "adv r 0 = r" "adv (adv r a) b = adv r (a + b)" "sr_end (adv r a) = sr_end r"
  "sr_pos (adv r a) = sr_pos r + int a"
  by (simp_all add: adv_def)

definition holds :: "bytes \<Rightarrow> script_reader \<Rightarrow> bytes \<Rightarrow> bool" where
  "holds buf r xs \<longleftrightarrow> (\<exists>pre post. buf = pre @ xs @ post \<and> int (length pre) = sr_pos r) \<and>
     sr_pos r + int (length xs) \<le> sr_end r"

lemma holds_append:
  assumes "holds buf r (xs @ ys)"
  shows "holds buf r xs" "holds buf (adv r (length xs)) ys"
proof -
  obtain pre post where b: "buf = pre @ (xs @ ys) @ post" "int (length pre) = sr_pos r"
    and e: "sr_pos r + int (length (xs @ ys)) \<le> sr_end r" using assms by (auto simp: holds_def)
  show "holds buf r xs" unfolding holds_def
    using b e by (intro conjI exI [of _ pre] exI [of _ "ys @ post"]) simp_all
  show "holds buf (adv r (length xs)) ys" unfolding holds_def
    using b e by (intro conjI exI [of _ "pre @ xs"] exI [of _ post]) simp_all
qed

lemma holds_Cons: "holds buf r (x # xs) \<Longrightarrow> holds buf r [x] \<and> holds buf (adv r 1) xs"
  using holds_append [of buf r "[x]" xs] by simp

lemma read_ui8_at: "holds buf r (b # xs) \<Longrightarrow> flv_script_data_read_ui8 buf r = Some (Some (uint b), adv r 1)"
  by (auto simp: holds_def flv_script_data_read_ui8_def READ_UINT8_at adv_def)

lemma READ_at: "holds buf r xs \<Longrightarrow> k < length xs \<Longrightarrow> READ_UINT8 buf (sr_pos r + int k) = Some (uint (xs ! k))"
  by (auto simp: holds_def intro!: READ_UINT8_at2)

lemma read_ui32_at:
  assumes "holds buf r (be32 n @ xs)" "0 \<le> n" "n < 2 ^ 32"
  shows "flv_script_data_read_ui32 buf r = Some (Some n, adv r 4)"
proof -
  obtain pre post where b: "buf = pre @ be32 n @ (xs @ post)" "sr_pos r = int (length pre)"
    and e: "sr_pos r + int (length (be32 n @ xs)) \<le> sr_end r" using assms(1) by (auto simp: holds_def)
  have "READ_UINT32_BE buf (sr_pos r) = Some n"
    unfolding b(1) using b(2) assms(2,3) by (intro READ_UINT32_be32) simp_all
  with e show ?thesis by (simp add: flv_script_data_read_ui32_def adv_def be32_def)
qed

lemma read_double_at:
  assumes "holds buf r (be64 d @ xs)" "0 \<le> d" "d < 2 ^ 64"
  shows "flv_script_data_read_double buf r = Some (Some d, adv r 8)"
proof -
  have h: "holds buf r (be32 (d div 4294967296) @ be32 (d mod 4294967296) @ xs)" using assms(1) by (simp add: be64_def)
  have d: "0 \<le> d div 4294967296" "d div 4294967296 < 2 ^ 32" "0 \<le> d mod 4294967296" "d mod 4294967296 < 2 ^ 32"
    using assms(2,3) by simp_all
  have l: "length (be32 x) = 4" for x by (simp add: be32_def)
  have "holds buf (adv r 4) (be32 (d mod 4294967296) @ xs)" using holds_append(2) [OF h] by (simp add: l)
  with read_ui32_at [OF h d(1,2)] read_ui32_at [OF this d(3,4)] have
    "READ_UINT32_BE buf (sr_pos r) = Some (d div 4294967296)" "READ_UINT32_BE buf (sr_pos r + 4) = Some (d mod 4294967296)"
    using ui32_value [of buf r] ui32_value [of buf "adv r 4"] by auto
  moreover have "sr_pos r + 8 \<le> sr_end r" using assms(1) by (simp add: holds_def be64_def l)
  ultimately show ?thesis
    by (simp add: flv_script_data_read_double_def FLV_READ_DOUBLE_BE_def adv_def mult.commute)
qed

lemma read_string_at:
  assumes "holds buf r (short_string s @ xs)" "length s < 65536"
  shows "flv_script_data_read_string buf r False = Some (Some s, adv r (2 + length s))"
proof -
  let ?n = "int (length s)"
  obtain pre post where b: "buf = pre @ short_string s @ xs @ post" "int (length pre) = sr_pos r"
    and e: "sr_pos r + int (length (short_string s @ xs)) \<le> sr_end r" using assms(1) by (auto simp: holds_def)
  have "READ_UINT8 buf (sr_pos r + int 0) = Some (?n div 256 mod 256)" "READ_UINT8 buf (sr_pos r + int 1) = Some (?n mod 256)"
    using READ_at [OF assms(1), of 0] READ_at [OF assms(1), of 1] by (simp_all add: short_string_def be16_def)
  then have "READ_UINT16_BE buf (sr_pos r) = Some (?n div 256 mod 256 * 256 + ?n mod 256)"
    by (simp add: READ_UINT16_BE_def)
  moreover have "?n div 256 mod 256 = ?n div 256" using assms(2) by simp
  ultimately have n: "READ_UINT16_BE buf (sr_pos r) = Some ?n" by simp
  have "memcpy_out buf (sr_pos r + 2) ?n = Some s"
    unfolding memcpy_out_def b(2) [symmetric] b(1) by (simp add: short_string_def be16_def nat_add_distrib)
  with n e show ?thesis by (simp add: flv_script_data_read_string_def adv_def short_string_def be16_def Let_def)
qed

lemma member_head_at:
  assumes "holds buf r (short_string n @ octet ty # xs)" "length n < 65536" "ty \<noteq> 9" "0 \<le> ty" "ty < 256"
  shows "member_head buf r = Some (Some (Some n, ty), adv r (3 + length n))"
proof -
  let ?ys = "short_string n @ octet ty # xs"
  have e: "sr_pos r + 3 \<le> sr_end r" using assms(1) by (simp add: holds_def short_string_def be16_def)
  obtain b0 b1 b2 where b: "READ_UINT8 buf (sr_pos r) = Some b0" "READ_UINT8 buf (sr_pos r + 1) = Some b1"
      "READ_UINT8 buf (sr_pos r + 2) = Some b2" and x: "b0 = uint (?ys ! 0)" "b1 = uint (?ys ! 1)" "b2 = uint (?ys ! 2)"
    using READ_at [OF assms(1), of 0] READ_at [OF assms(1), of 1] READ_at [OF assms(1), of 2]
    by (simp add: short_string_def be16_def)
  have no: "\<not> (b0 = 0 \<and> b1 = 0 \<and> b2 = 9)"
  proof
    assume z: "b0 = 0 \<and> b1 = 0 \<and> b2 = 9"
    have "int (length n) div 256 mod 256 = 0" "int (length n) mod 256 = 0"
      using x z by (simp_all add: short_string_def be16_def)
    moreover have "int (length n) div 256 mod 256 = int (length n) div 256" using assms(2) by simp
    ultimately have "int (length n) = 0" using div_mult_mod_eq [of "int (length n)" 256] by simp
    with x z assms(3-5) show False by (simp add: short_string_def be16_def)
  qed
  have h: "holds buf (adv r (2 + length n)) (octet ty # xs)"
    using holds_append(2) [OF assms(1)] by (simp add: short_string_def be16_def)
  show ?thesis
    using e b no read_string_at [OF assms(1,2)] read_ui8_at [OF h] assms(4,5)
    by (simp add: member_head_def numeral_eq_Suc)
qed

lemma member_head_end:
  assumes "holds buf r ([0, 0, 9] @ xs)"
  shows "member_head buf r = Some (Some (None, 9), adv r 3)"
  using READ_at [OF assms, of 0] READ_at [OF assms, of 1] READ_at [OF assms, of 2] assms
  by (simp add: member_head_def holds_def adv_def)

lemma layout_length [simp]: "length (be32 n) = 4" "length (be64 n) = 8" "length (short_string s) = 2 + length s"
  by (simp_all add: be32_def be64_def short_string_def be16_def)

section \<open>Handlers that consume one value\<close>

text \<open>
  The abstract effect of a list of members: \<open>step\<close> for each in turn, \<open>good\<close> of each at the state it is
  met in.
\<close>

type_synonym 'a amf_step = "bytes option \<Rightarrow> amf \<Rightarrow> 'a \<Rightarrow> 'a"

primrec run_members :: "'a amf_step \<Rightarrow> (bytes \<times> amf) list \<Rightarrow> 'a \<Rightarrow> 'a" where
  "run_members step [] a = a"
| "run_members step (m # ms) a = run_members step ms (step (Some (fst m)) (snd m) a)"

primrec good_members ::
  "(bytes option \<Rightarrow> amf \<Rightarrow> 'a \<Rightarrow> bool) \<Rightarrow> 'a amf_step \<Rightarrow> (bytes \<times> amf) list \<Rightarrow> 'a \<Rightarrow> bool" where
  "good_members good step [] a = True"
| "good_members good step (m # ms) a \<longleftrightarrow> length (fst m) < 65536 \<and> good (Some (fst m)) (snd m) a \<and>
     good_members good step ms (step (Some (fst m)) (snd m) a)"

primrec run_elements :: "'a amf_step \<Rightarrow> amf list \<Rightarrow> 'a \<Rightarrow> 'a" where
  "run_elements step [] a = a"
| "run_elements step (v # vs) a = run_elements step vs (step None v a)"

primrec good_elements :: "(bytes option \<Rightarrow> amf \<Rightarrow> 'a \<Rightarrow> bool) \<Rightarrow> 'a amf_step \<Rightarrow> amf list \<Rightarrow> 'a \<Rightarrow> bool" where
  "good_elements good step [] a = True"
| "good_elements good step (v # vs) a \<longleftrightarrow> good None v a \<and> good_elements good step vs (step None v a)"

text \<open>\<open>consumes\<close>: a call ends with TRUE right behind the bytes, in a state whose abstraction is known.\<close>

definition consumes ::
  "('m \<Rightarrow> bool) \<Rightarrow> ('m \<Rightarrow> 'a) \<Rightarrow> script_reader \<Rightarrow> nat \<Rightarrow> 'a \<Rightarrow> (bool \<times> script_reader \<times> 'm) option \<Rightarrow> bool" where
  "consumes Inv view r k a out \<longleftrightarrow> (\<exists>m. out = Some (True, adv r k, m) \<and> Inv m \<and> view m = a)"

locale exact_callback =
  fixes cb :: "'m handler" and Inv :: "'m \<Rightarrow> bool" and view :: "'m \<Rightarrow> 'a"
    and step :: "'a amf_step" and good :: "bytes option \<Rightarrow> amf \<Rightarrow> 'a \<Rightarrow> bool"
  assumes exact: "Inv m \<Longrightarrow> good name v (view m) \<Longrightarrow> holds buf r (amf_body v @ xs) \<Longrightarrow>
      consumes Inv view r (length (amf_body v)) (step name v (view m)) (cb buf r name (amf_type v) m)"
    and finish: "Inv m \<Longrightarrow> cb buf r None 9 m = Some (True, r, m)"
begin

lemma object_exact:
  assumes "Inv m" "good_members good step ms (view m)" "holds buf r (members ms @ xs)"
  shows "consumes Inv view r (length (members ms)) (run_members step ms (view m)) (flv_script_data_read_object cb buf r m)"
proof -
  let ?b = "\<lambda>(res :: bool option, r :: script_reader, m). res = None \<and> sr_pos r < sr_end r"
  let ?c = "\<lambda>(res :: bool option, r, m). read_member cb buf r m"
  have "\<exists>m'. wloop ?b ?c (None, r, m) = Some (Some True, adv r (length (members ms)), m') \<and> Inv m' \<and>
      view m' = run_members step ms (view m)"
    using assms
  proof (induction ms arbitrary: r m)
    case Nil
    have "sr_pos r < sr_end r" using Nil.prems(3) by (simp add: holds_def)
    moreover have "read_member cb buf r m = Some (Some True, adv r 3, m)"
      using member_head_end [of buf r xs] Nil.prems finish by (simp add: read_member_def)
    ultimately have "wloop ?b ?c (None, r, m) = wloop ?b ?c (Some True, adv r 3, m)" by (simp add: wloop_step)
    with Nil.prems(1) show ?case by (simp add: wloop_stop)
  next
    case (Cons nv ms)
    obtain n v where [simp]: "nv = (n, v)" by (cases nv)
    have g: "length n < 65536" "good (Some n) v (view m)" "good_members good step ms (step (Some n) v (view m))"
      using Cons.prems(2) by simp_all
    have h: "holds buf r (short_string n @ octet (amf_type v) # (amf_body v @ members ms @ xs))"
      using Cons.prems(3) by (simp add: amf_value_split)
    have ty: "amf_type v \<noteq> 9" "0 \<le> amf_type v" "amf_type v < 256" using amf_type_range [of v] by auto
    let ?r = "adv r (3 + length n)"
    have l: "length (short_string n @ [octet (amf_type v)]) = 3 + length n" by simp
    have hb: "holds buf ?r (amf_body v @ members ms @ xs)"
      using holds_append(2) [of buf r "short_string n @ [octet (amf_type v)]" "amf_body v @ members ms @ xs"] h
      unfolding l by simp
    obtain m1 where m1: "cb buf ?r (Some n) (amf_type v) m = Some (True, adv ?r (length (amf_body v)), m1)" "Inv m1"
        "view m1 = step (Some n) v (view m)"
      using exact [OF Cons.prems(1) g(2) hb] by (auto simp: consumes_def)
    let ?r1 = "adv ?r (length (amf_body v))"
    have rm: "read_member cb buf r m = Some (None, ?r1, m1)"
      using member_head_at [OF h g(1) ty] m1(1) ty by (simp add: read_member_def)
    have "holds buf ?r1 (members ms @ xs)" using holds_append(2) [OF hb] by simp
    from Cons.IH [OF m1(2) _ this] g(3) m1(3) obtain m' where
      m': "wloop ?b ?c (None, ?r1, m1) = Some (Some True, adv ?r1 (length (members ms)), m')" "Inv m'"
        "view m' = run_members step ms (step (Some n) v (view m))" by auto
    have "sr_pos r < sr_end r" using h by (simp add: holds_def)
    then have "wloop ?b ?c (None, r, m) = wloop ?b ?c (None, ?r1, m1)" using rm by (simp add: wloop_step)
    with m' show ?case by (simp add: amf_value_split [of v] add.commute add.left_commute)
  qed
  then show ?thesis by (auto simp: flv_script_data_read_object_def consumes_def)
qed

lemma ecma_exact:
  assumes "Inv m" "good_members good step ms (view m)" "holds buf r (be32 n @ members ms @ xs)" "0 \<le> n" "n < 2 ^ 32"
  shows "consumes Inv view r (4 + length (members ms)) (run_members step ms (view m)) (flv_script_data_read_ecma cb buf r m)"
proof -
  have "holds buf (adv r 4) (members ms @ xs)" using holds_append(2) [OF assms(3)] by simp
  from object_exact [OF assms(1,2) this] read_ui32_at [OF assms(3-5)] show ?thesis
    by (simp add: flv_script_data_read_ecma_def consumes_def)
qed

lemma strict_exact:
  assumes "Inv m" "good_elements good step vs (view m)"
    and "holds buf r (be32 (int (length vs)) @ concat (List.map amf_value vs) @ xs)" "length vs < 2 ^ 32"
  shows "consumes Inv view r (4 + length (concat (List.map amf_value vs))) (run_elements step vs (view m))
    (flv_script_data_read_strict_array cb buf r m)"
proof -
  let ?n = "int (length vs)"
  let ?b = "\<lambda>(i, res :: bool, r :: script_reader, m). res \<and> i < ?n"
  let ?c = "\<lambda>(i, res :: bool, r, m). do {
              (t, r) \<leftarrow> flv_script_data_read_ui8 buf r;
              case t of None \<Rightarrow> Some (i, False, r, m)
              | Some value_type \<Rightarrow> do {
                  (ok, r, m) \<leftarrow> cb buf r None value_type m;
                  Some (i + 1, ok, r, m) } }"
  have loop: "\<exists>m'. wloop ?b ?c (?n - int (length ws), True, r, m)
      = Some (?n, True, adv r (length (concat (List.map amf_value ws))), m') \<and> Inv m' \<and> view m' = run_elements step ws (view m)"
    if "Inv m" "good_elements good step ws (view m)" "holds buf r (concat (List.map amf_value ws) @ xs)" for ws r m
    using that
  proof (induction ws arbitrary: r m)
    case Nil
    then show ?case by (simp add: wloop_stop)
  next
    case (Cons v ws)
    have g: "good None v (view m)" "good_elements good step ws (step None v (view m))" using Cons.prems(2) by simp_all
    have h: "holds buf r (octet (amf_type v) # (amf_body v @ concat (List.map amf_value ws) @ xs))"
      using Cons.prems(3) by (simp add: amf_value_split [of v])
    have ty: "amf_type v mod 256 = amf_type v" using amf_type_range [of v] by auto
    have hb: "holds buf (adv r 1) (amf_body v @ concat (List.map amf_value ws) @ xs)" using holds_Cons [OF h] by simp
    obtain m1 where m1: "cb buf (adv r 1) None (amf_type v) m = Some (True, adv (adv r 1) (length (amf_body v)), m1)" "Inv m1"
        "view m1 = step None v (view m)"
      using exact [OF Cons.prems(1) g(1) hb] by (auto simp: consumes_def)
    let ?r1 = "adv (adv r 1) (length (amf_body v))"
    have "holds buf ?r1 (concat (List.map amf_value ws) @ xs)" using holds_append(2) [OF hb] by simp
    from Cons.IH [OF m1(2) _ this] g(2) m1(3) obtain m' where
      m': "wloop ?b ?c (?n - int (length ws), True, ?r1, m1)
          = Some (?n, True, adv ?r1 (length (concat (List.map amf_value ws))), m')" "Inv m'"
        "view m' = run_elements step ws (step None v (view m))" by auto
    have "?c (?n - int (length (v # ws)), True, r, m) = Some (?n - int (length ws), True, ?r1, m1)"
      using read_ui8_at [OF h] m1(1) ty by simp
    then have "wloop ?b ?c (?n - int (length (v # ws)), True, r, m) = wloop ?b ?c (?n - int (length ws), True, ?r1, m1)"
      by (intro wloop_step) simp_all
    with m' show ?case by (simp add: amf_value_split [of v] add.commute add.left_commute)
  qed
  have "holds buf (adv r 4) (concat (List.map amf_value vs) @ xs)"
    using holds_append(2) [OF assms(3)] by simp
  from loop [OF assms(1,2) this] read_ui32_at [OF assms(3)] assms(4) show ?thesis
    by (auto simp: flv_script_data_read_strict_array_def consumes_def)
qed

end

text \<open>Skipping has no effect, at any depth the nesting needs.\<close>

definition skippable :: "nat \<Rightarrow> amf \<Rightarrow> bool" where
  "skippable d v \<longleftrightarrow> amf_ok v \<and> length (amf_value v) \<le> d"

abbreviation (input) no_step :: "'a amf_step" where "no_step \<equiv> \<lambda>name v a. a"

lemma run_no_step [simp]: "run_members no_step ms a = a" "run_elements no_step vs a = a"
  by (induction ms; simp) (induction vs; simp)

lemma good_skippable_members:
  "\<forall>(n, v) \<in> set ms. length n < 65536 \<and> skippable d v \<Longrightarrow> good_members (\<lambda>_ v _. skippable d v) no_step ms a"
  by (induction ms) auto

lemma good_skippable_elements:
  "(\<And>v. v \<in> set vs \<Longrightarrow> skippable d v) \<Longrightarrow> good_elements (\<lambda>_ v _. skippable d v) no_step vs a"
  by (induction vs) auto

text \<open>The parts of a skippable value are skippable with one level less.\<close>

lemma encode_members_part:
  "(n, e) \<in> set ms \<Longrightarrow> length e < length (encode_members ms)"
  by (induction ms) (auto simp: encode_members_def)

lemma skippable_members:
  assumes "skippable (Suc d) v" "v = Amf_Object ms \<or> v = Amf_Ecma k ms"
  shows "\<forall>(n, w) \<in> set ms. length n < 65536 \<and> skippable d w"
proof (intro ballI, clarify)
  fix n w assume m: "(n, w) \<in> set ms"
  then have "(n, amf_value w) \<in> set (List.map (map_prod id amf_value) ms)" by force
  from encode_members_part [OF this] assms have "length (amf_value w) \<le> d" by (auto simp: skippable_def)
  moreover from assms m have "length n < 65536 \<and> amf_ok w" by (fastforce simp: skippable_def list_all_iff)
  ultimately show "length n < 65536 \<and> skippable d w" by (simp add: skippable_def)
qed

lemma skippable_elements:
  assumes "skippable (Suc d) (Amf_Strict vs)" "w \<in> set vs"
  shows "skippable d w"
proof -
  have "length (amf_value w) \<le> length (concat (List.map amf_value vs))"
    using assms(2) by (induction vs) auto
  with assms show ?thesis by (auto simp: skippable_def list_all_iff)
qed

declare flv_metadata_skip_handler.simps [simp del]

lemma skip_of_type [simp]:
  "flv_metadata_skip_handler (Suc d) buf r name 0 m = map_option (\<lambda>(v, r). (v \<noteq> None, r, m)) (flv_script_data_read_double buf r)"
  "flv_metadata_skip_handler (Suc d) buf r name 1 m = map_option (\<lambda>(v, r). (v \<noteq> None, r, m)) (flv_script_data_read_ui8 buf r)"
  "flv_metadata_skip_handler (Suc d) buf r name 2 m = map_option (\<lambda>(v, r). (v \<noteq> None, r, m)) (flv_script_data_read_string buf r False)"
  "flv_metadata_skip_handler (Suc d) buf r name 3 m = flv_script_data_read_object (flv_metadata_skip_handler d) buf r m"
  "flv_metadata_skip_handler (Suc d) buf r name 8 m = flv_script_data_read_ecma (flv_metadata_skip_handler d) buf r m"
  "flv_metadata_skip_handler (Suc d) buf r name 9 m = Some (True, r, m)"
  "flv_metadata_skip_handler (Suc d) buf r name 10 m = flv_script_data_read_strict_array (flv_metadata_skip_handler d) buf r m"
  by (simp_all add: flv_metadata_skip_handler.simps)

lemma skip_exact: "exact_callback (flv_metadata_skip_handler (Suc d)) Inv view no_step (\<lambda>_ v _. skippable d v)"
proof (induction d)
  case 0
  show ?case by unfold_locales (auto simp: skippable_def amf_value_split)
next
  case (Suc d)
  show ?case
  proof unfold_locales
    fix m name v and buf :: bytes and r xs
    assume m: "Inv m" and s: "skippable (Suc d) v" and h: "holds buf r (amf_body v @ xs)"
    note obj = exact_callback.object_exact [OF Suc.IH m] and ecma = exact_callback.ecma_exact [OF Suc.IH m]
      and strict = exact_callback.strict_exact [OF Suc.IH m]
    have ok: "amf_ok v" using s by (simp add: skippable_def)
    show "consumes Inv view r (length (amf_body v)) (view m) (flv_metadata_skip_handler (Suc (Suc d)) buf r name (amf_type v) m)"
    proof (cases v)
      case (Amf_Number x)
      with h ok have "flv_script_data_read_double buf r = Some (Some x, adv r 8)" by (simp add: read_double_at)
      then show ?thesis using Amf_Number m by (simp add: consumes_def)
    next
      case (Amf_Boolean b)
      with h have "flv_script_data_read_ui8 buf r = Some (Some (uint (octet b)), adv r 1)" by (simp add: read_ui8_at)
      then show ?thesis using Amf_Boolean m by (simp add: consumes_def)
    next
      case (Amf_String t)
      with h ok have "flv_script_data_read_string buf r False = Some (Some t, adv r (2 + length t))"
        by (simp add: read_string_at)
      then show ?thesis using Amf_String m by (simp add: consumes_def)
    next
      case (Amf_Object ms)
      then have "good_members (\<lambda>_ v _. skippable d v) no_step ms (view m)"
        using s by (intro good_skippable_members skippable_members) auto
      from obj [OF this, of buf r xs] h Amf_Object show ?thesis by simp
    next
      case (Amf_Ecma k ms)
      then have "good_members (\<lambda>_ v _. skippable d v) no_step ms (view m)"
        using s by (intro good_skippable_members skippable_members) auto
      from ecma [OF this, of buf r k xs] h ok Amf_Ecma show ?thesis by simp
    next
      case (Amf_Strict vs)
      then have "good_elements (\<lambda>_ v _. skippable d v) no_step vs (view m)"
        using s skippable_elements by (intro good_skippable_elements) blast
      from strict [OF this, of buf r xs] h ok Amf_Strict show ?thesis by simp
    qed
  qed simp
qed

interpretation skip_exact: exact_callback "flv_metadata_skip_handler (Suc d)" Inv view no_step "\<lambda>_ v _. skippable d v"
  by (rule skip_exact)

section \<open>The keyframe object\<close>

text \<open>The abstract state: the metadata without its keyframe array, and the keyframes as a list.\<close>

type_synonym meta_state = "flv_metadata \<times> keyframe list option"

definition ga_list :: "garray \<Rightarrow> keyframe list" where
  "ga_list ga = take (nat (ga_len ga)) (ga_mem ga)"

definition meta_view :: "flv_metadata \<Rightarrow> meta_state" where
  "meta_view m = (m\<lparr>md_keyframes := None\<rparr>, map_option ga_list (md_keyframes m))"

definition meta_ok :: "flv_metadata \<Rightarrow> bool" where
  "meta_ok m \<longleftrightarrow> md_tag_list m \<noteq> None \<and> (case md_keyframes m of None \<Rightarrow> True | Some ga \<Rightarrow> ga_ok ga)"

primrec amf_number :: "amf \<Rightarrow> dbl option" where
  "amf_number (Amf_Number d) = (if 0 \<le> d \<and> d < 2 ^ 64 then Some d else None)"
| "amf_number (Amf_Boolean _) = None"
| "amf_number (Amf_String _) = None"
| "amf_number (Amf_Object _) = None"
| "amf_number (Amf_Ecma _ _) = None"
| "amf_number (Amf_Strict _) = None"

text \<open>One array of numbers fills a field of the keyframes, which it creates if there are none.\<close>

definition kf_fill :: "conversions \<Rightarrow> int \<Rightarrow> dbl list \<Rightarrow> keyframe list \<Rightarrow> keyframe list" where
  "kf_fill cv f ds l = List.map (\<lambda>(d, e). if 0 < f then store_keyframe cv f d e else e)
     (zip ds (if l = [] then replicate (length ds) zero_keyframe else l))"

definition kf_step :: "conversions \<Rightarrow> meta_state amf_step" where
  "kf_step cv name v = (\<lambda>(a, ks). case v of
     Amf_Strict vs \<Rightarrow> (a, Some (kf_fill cv (keyframe_field (the name)) (List.map (the \<circ> amf_number) vs)
        (case ks of None \<Rightarrow> [] | Some l \<Rightarrow> l)))
   | _ \<Rightarrow> (a, ks))"

definition kf_good :: "bytes option \<Rightarrow> amf \<Rightarrow> meta_state \<Rightarrow> bool" where
  "kf_good name v = (\<lambda>(a, ks). name \<noteq> None \<and> (case v of
     Amf_Strict vs \<Rightarrow> list_all (\<lambda>w. amf_number w \<noteq> None) vs \<and> length vs < 268435456 \<and>
       (case ks of None \<Rightarrow> True | Some l \<Rightarrow> l = [] \<or> length l = length vs)
   | _ \<Rightarrow> False))"

lemma ga_list_length: "ga_ok ga \<Longrightarrow> int (length (ga_list ga)) = ga_len ga"
proof -
  assume "ga_ok ga"
  then have "nat (ga_len ga) \<le> length (ga_mem ga)" "0 \<le> ga_len ga" by (simp_all add: ga_ok_def nat_le_iff)
  then show ?thesis by (simp add: ga_list_def)
qed

lemma ga_list_nth: "ga_ok ga \<Longrightarrow> 0 \<le> i \<Longrightarrow> i < ga_len ga \<Longrightarrow> ga_list ga ! nat i = ga_mem ga ! nat i"
  by (simp add: ga_list_def)

lemma prepare_list:
  assumes "ga_ok ga" "ga_len ga = 0 \<or> ga_len ga = int n" "n < 268435456"
  shows "\<exists>b. prepare_keyframes ga (int n) = Some (b, int n) \<and> ga_ok b \<and> ga_len b = int n
    \<and> ga_list b = (if ga_list ga = [] then replicate n zero_keyframe else ga_list ga)"
proof -
  obtain b where b: "prepare_keyframes ga (int n) = Some (b, int n)" "ga_ok b" "ga_len b = int n"
      "\<forall>i. 0 \<le> i \<and> i < int n \<longrightarrow> ga_mem b ! nat i = (if i < ga_len ga then ga_mem ga ! nat i else zero_keyframe)"
    using prepare_keyframes_ok [of ga "int n"] assms by auto
  have l: "length (ga_list b) = n" "int (length (ga_list ga)) = ga_len ga"
    using ga_list_length [OF b(2)] ga_list_length [OF assms(1)] b(3) by simp_all
  have "ga_list b ! k = (if ga_list ga = [] then replicate n zero_keyframe else ga_list ga) ! k" if "k < n" for k
    using that b(4) [rule_format, of "int k"] ga_list_nth [OF b(2), of "int k"] ga_list_nth [OF assms(1), of "int k"]
      b(3) l(2) assms(2) by (auto simp: less_le_trans)
  moreover have "length (if ga_list ga = [] then replicate n zero_keyframe else ga_list ga) = n"
    using l(2) assms(2) by auto
  ultimately have "ga_list b = (if ga_list ga = [] then replicate n zero_keyframe else ga_list ga)"
    using l(1) by (intro nth_equalityI) simp_all
  with b show ?thesis by blast
qed

lemma keyframe_array_exact:
  assumes ga: "ga_ok ga" "ga_len ga = 0 \<or> ga_len ga = int (length ds)" and n: "length ds < 268435456"
    and ds: "\<forall>d \<in> set ds. 0 \<le> d \<and> d < 2 ^ 64"
    and h: "holds buf r (be32 (int (length ds)) @ concat (List.map (\<lambda>d. 0 # be64 d) ds) @ xs)"
  shows "\<exists>b. flv_script_read_keyframe_array cv buf r (Some name) ga = Some (True, adv r (4 + 9 * length ds), b)
    \<and> ga_ok b \<and> ga_list b = kf_fill cv (keyframe_field name) ds (ga_list ga)"
proof -
  let ?f = "keyframe_field name" and ?n = "int (length ds)"
  let ?g = "\<lambda>(d, e). if 0 < ?f then store_keyframe cv ?f d e else e"
  let ?b = "\<lambda>(i :: int, rs :: int, res :: bool, r :: script_reader, ga :: garray). res \<and> i < ?n"
  let ?c = "\<lambda>(i, readSize, res :: bool, r, ga). do {
              (t, r) \<leftarrow> flv_script_data_read_ui8 buf r;
              if t \<noteq> Some 0 then Some (i, readSize, False, r, ga)
              else do {
                (v, r) \<leftarrow> flv_script_data_read_double buf r;
                case v of None \<Rightarrow> Some (i, readSize, False, r, ga)
                | Some v \<Rightarrow> do {
                    ga \<leftarrow> (if 0 < readSize \<and> 0 < ?f
                      then map_option (\<lambda>mem. ga\<lparr>ga_mem := mem\<rparr>) (upd (ga_mem ga) i (store_keyframe cv ?f v))
                      else Some ga);
                    Some (i + 1, u32 (readSize - 1), True, r, ga) } } }"
  have loop: "\<exists>k b. wloop ?b ?c (int i, ?n - int i, True, r, g) = Some (?n, k, True, adv r (9 * length ws), b)
      \<and> ga_ok b \<and> ga_list b = take i (ga_list g) @ List.map ?g (zip ws (drop i (ga_list g)))"
    if "ga_ok g" "ga_len g = ?n" "i + length ws = length ds" "\<forall>d \<in> set ws. 0 \<le> d \<and> d < 2 ^ 64"
      "holds buf r (concat (List.map (\<lambda>d. 0 # be64 d) ws) @ xs)" for ws i r g
    using that
  proof (induction ws arbitrary: i r g)
    case Nil
    then have "length (ga_list g) \<le> i" using ga_list_length [OF Nil.prems(1)] by simp
    with Nil show ?case by (simp add: wloop_stop)
  next
    case (Cons d ws)
    have l: "length (ga_list g) = length ds" using ga_list_length [OF Cons.prems(1)] Cons.prems(2) by simp
    have i: "i < length ds" "int i < ?n" using Cons.prems(3) by simp_all
    have mem: "?n \<le> int (length (ga_mem g))" using Cons.prems(1,2) by (simp add: ga_ok_def)
    have h1: "holds buf r (0 # be64 d @ concat (List.map (\<lambda>d. 0 # be64 d) ws) @ xs)" using Cons.prems(5) by simp
    then have h2: "holds buf (adv r 1) (be64 d @ concat (List.map (\<lambda>d. 0 # be64 d) ws) @ xs)" using holds_Cons by blast
    have h3: "holds buf (adv r 9) (concat (List.map (\<lambda>d. 0 # be64 d) ws) @ xs)" using holds_append(2) [OF h2] by simp
    have d: "flv_script_data_read_double buf (adv r 1) = Some (Some d, adv r 9)"
      using read_double_at [OF h2] Cons.prems(4) by simp
    define b where "b = (if 0 < ?f
        then g\<lparr>ga_mem := (ga_mem g)[i := store_keyframe cv ?f d (ga_mem g ! i)]\<rparr> else g)"
    have b: "ga_ok b" "ga_len b = ?n" using Cons.prems(1,2) by (simp_all add: b_def ga_ok_def)
    have bl: "ga_list b = (ga_list g)[i := ?g (d, ga_list g ! i)]"
      using i mem Cons.prems(2) list_update_id [of "take (length ds) (ga_mem g)" i]
      by (simp add: b_def ga_list_def take_update_swap)
    have "upd (ga_mem g) (int i) F = Some ((ga_mem g)[i := F (ga_mem g ! i)])" for F
      using i mem by (simp add: mem_simps)
    moreover have "0 < ?n - int i" "u32 (?n - int i - 1) = ?n - int (Suc i)" using i n by simp_all
    ultimately have "?c (int i, ?n - int i, True, r, g) = Some (int (Suc i), ?n - int (Suc i), True, adv r 9, b)"
      using read_ui8_at [OF h1] d by (simp add: b_def add.commute)
    then have st: "wloop ?b ?c (int i, ?n - int i, True, r, g) = wloop ?b ?c (int (Suc i), ?n - int (Suc i), True, adv r 9, b)"
      using i by (intro wloop_step) simp_all
    obtain k e where e: "wloop ?b ?c (int (Suc i), ?n - int (Suc i), True, adv r 9, b) = Some (?n, k, True, adv (adv r 9) (9 * length ws), e)"
        "ga_ok e" "ga_list e = take (Suc i) (ga_list b) @ List.map ?g (zip ws (drop (Suc i) (ga_list b)))"
      using Cons.IH [OF b _ _ h3, of "Suc i"] Cons.prems(3,4) by auto
    have "ga_list e = take i (ga_list g) @ List.map ?g (zip (d # ws) (drop i (ga_list g)))"
      using e(3) i l Cons_nth_drop_Suc [of i "ga_list g", symmetric]
      by (simp add: bl take_Suc_conv_app_nth)
    with st e show ?case by (simp add: add.commute)
  qed
  obtain g where g: "prepare_keyframes ga ?n = Some (g, ?n)" "ga_ok g" "ga_len g = ?n"
      "ga_list g = (if ga_list ga = [] then replicate (length ds) zero_keyframe else ga_list ga)"
    using prepare_list [OF ga n] by blast
  have "holds buf (adv r 4) (concat (List.map (\<lambda>d. 0 # be64 d) ds) @ xs)" using holds_append(2) [OF h] by simp
  from loop [OF g(2,3) _ ds this, of 0] obtain k b where
    b: "wloop ?b ?c (0, ?n, True, adv r 4, g) = Some (?n, k, True, adv (adv r 4) (9 * length ds), b)"
      "ga_ok b" "ga_list b = List.map ?g (zip ds (ga_list g))" by auto
  then have "flv_script_read_keyframe_array cv buf r (Some name) ga = Some (True, adv r (4 + 9 * length ds), b)"
    using read_ui32_at [OF h] n g(1) by (simp add: flv_script_read_keyframe_array_def)
  with b(2,3) g(4) show ?thesis by (simp add: kf_fill_def)
qed

text \<open>
  An array that is longer than the keyframes: \<^verbatim>\<open>readSize\<close> passes zero and starts again from the top, so the
  elements after the first superfluous one are stored too.
\<close>

lemma keyframe_array_stores:
  assumes k: "0 < ga_len ga" "ga_len ga < int (length ds)" and n: "length ds < 4294967296"
    and ds: "\<forall>d \<in> set ds. 0 \<le> d \<and> d < 2 ^ 64" and f: "0 < keyframe_field name"
    and h: "holds buf r (be32 (int (length ds)) @ concat (List.map (\<lambda>d. 0 # be64 d) ds) @ xs)"
  shows "flv_script_read_keyframe_array cv buf r (Some name) ga = None \<longleftrightarrow>
    (\<exists>j. j < length ds \<and> int j \<noteq> ga_len ga \<and> length (ga_mem ga) \<le> j)"
proof -
  let ?f = "keyframe_field name" and ?n = "int (length ds)" and ?k = "ga_len ga"
  let ?b = "\<lambda>(i :: int, rs :: int, res :: bool, r :: script_reader, ga :: garray). res \<and> i < ?n"
  let ?c = "\<lambda>(i, readSize, res :: bool, r, ga). do {
              (t, r) \<leftarrow> flv_script_data_read_ui8 buf r;
              if t \<noteq> Some 0 then Some (i, readSize, False, r, ga)
              else do {
                (v, r) \<leftarrow> flv_script_data_read_double buf r;
                case v of None \<Rightarrow> Some (i, readSize, False, r, ga)
                | Some v \<Rightarrow> do {
                    ga \<leftarrow> (if 0 < readSize \<and> 0 < ?f
                      then map_option (\<lambda>mem. ga\<lparr>ga_mem := mem\<rparr>) (upd (ga_mem ga) i (store_keyframe cv ?f v))
                      else Some ga);
                    Some (i + 1, u32 (readSize - 1), True, r, ga) } } }"
  have loop: "wloop ?b ?c (int i, u32 (?k - int i), True, r, g) = None \<longleftrightarrow>
      (\<exists>j. i \<le> j \<and> j < length ds \<and> int j \<noteq> ?k \<and> length (ga_mem g) \<le> j)"
    if "i + length ws = length ds" "\<forall>d \<in> set ws. 0 \<le> d \<and> d < 2 ^ 64"
      "holds buf r (concat (List.map (\<lambda>d. 0 # be64 d) ws) @ xs)" for ws i r g
    using that
  proof (induction ws arbitrary: i r g)
    case Nil
    then show ?case by (simp add: wloop_stop)
  next
    case (Cons d ws)
    have i: "i < length ds" "int i < ?n" using Cons.prems(1) by simp_all
    have h1: "holds buf r (0 # be64 d @ concat (List.map (\<lambda>d. 0 # be64 d) ws) @ xs)" using Cons.prems(3) by simp
    then have h2: "holds buf (adv r 1) (be64 d @ concat (List.map (\<lambda>d. 0 # be64 d) ws) @ xs)" using holds_Cons by blast
    have h3: "holds buf (adv r 9) (concat (List.map (\<lambda>d. 0 # be64 d) ws) @ xs)" using holds_append(2) [OF h2] by simp
    have d: "flv_script_data_read_double buf (adv r 1) = Some (Some d, adv r 9)"
      using read_double_at [OF h2] Cons.prems(2) by simp
    have rs: "0 < u32 (?k - int i) \<longleftrightarrow> int i \<noteq> ?k"
    proof (cases "int i \<le> ?k")
      case True
      with k n show ?thesis by (auto simp: u32_id)
    next
      case False
      with k n i have "u32 (?k - int i) = ?k - int i + 4294967296"
        using mod_add_self2 [of "?k - int i" 4294967296] mod_pos_pos_trivial [of "?k - int i + 4294967296" 4294967296]
        by (simp add: u32_def)
      with False k n i show ?thesis by simp
    qed
    have next_rs: "u32 (u32 (?k - int i) - 1) = u32 (?k - int (Suc i))"
      by (simp add: u32_def mod_diff_left_eq diff_diff_eq add.commute)
    have IH: "wloop ?b ?c (int (Suc i), u32 (?k - int (Suc i)), True, adv r 9, e) = None \<longleftrightarrow>
        (\<exists>j. Suc i \<le> j \<and> j < length ds \<and> int j \<noteq> ?k \<and> length (ga_mem e) \<le> j)" for e
      using Cons.IH [OF _ _ h3, of "Suc i" e] Cons.prems(1,2) by simp
    have later: "(\<exists>j. i \<le> j \<and> P j) \<longleftrightarrow> (\<exists>j. Suc i \<le> j \<and> P j)" if "\<not> P i" for P
      using that by (metis Suc_leD Suc_leI le_neq_implies_less)
    consider "int i = ?k" | "int i \<noteq> ?k" "i < length (ga_mem g)" | "int i \<noteq> ?k" "length (ga_mem g) \<le> i" by linarith
    then show ?case
    proof cases
      case 1
      then have "?c (int i, u32 (?k - int i), True, r, g) = Some (int (Suc i), u32 (?k - int (Suc i)), True, adv r 9, g)"
        using read_ui8_at [OF h1] d rs next_rs by (simp add: add.commute)
      then have "wloop ?b ?c (int i, u32 (?k - int i), True, r, g)
          = wloop ?b ?c (int (Suc i), u32 (?k - int (Suc i)), True, adv r 9, g)"
        using i by (intro wloop_step) simp_all
      with IH [of g] 1 show ?thesis by (subst later) simp_all
    next
      case 2
      define g' where "g' = g\<lparr>ga_mem := (ga_mem g)[i := store_keyframe cv ?f d (ga_mem g ! i)]\<rparr>"
      have "?c (int i, u32 (?k - int i), True, r, g) = Some (int (Suc i), u32 (?k - int (Suc i)), True, adv r 9, g')"
        using 2 read_ui8_at [OF h1] d rs next_rs f by (simp add: add.commute g'_def mem_simps)
      then have "wloop ?b ?c (int i, u32 (?k - int i), True, r, g)
          = wloop ?b ?c (int (Suc i), u32 (?k - int (Suc i)), True, adv r 9, g')"
        using i by (intro wloop_step) simp_all
      moreover have "length (ga_mem g') = length (ga_mem g)" by (simp add: g'_def)
      ultimately show ?thesis using 2 IH [of g'] by (subst later) simp_all
    next
      case 3
      then have "?c (int i, u32 (?k - int i), True, r, g) = None"
        using read_ui8_at [OF h1] d rs f by (simp add: upd_def rd_def in_arr_def)
      then have "wloop ?b ?c (int i, u32 (?k - int i), True, r, g) = None"
        using i by (intro wloop_fail) simp_all
      with 3 i show ?thesis by auto
    qed
  qed
  have "prepare_keyframes ga ?n = Some (ga, ?k)" using k by (simp add: prepare_keyframes_def)
  moreover have "holds buf (adv r 4) (concat (List.map (\<lambda>d. 0 # be64 d) ds) @ xs)" using holds_append(2) [OF h] by simp
  moreover have "u32 ?k = ?k" using k n by simp
  ultimately show ?thesis
    using loop [of 0 ds "adv r 4" ga] ds read_ui32_at [OF h] n
    by (auto simp: flv_script_read_keyframe_array_def)
qed

lemma amf_numbers:
  assumes "list_all (\<lambda>w. amf_number w \<noteq> None) vs"
  shows "concat (List.map amf_value vs) = concat (List.map (\<lambda>d. 0 # be64 d) (List.map (the \<circ> amf_number) vs))"
    "\<forall>d \<in> set (List.map (the \<circ> amf_number) vs). 0 \<le> d \<and> d < 2 ^ 64"
proof -
  have v: "w = Amf_Number (the (amf_number w)) \<and> 0 \<le> the (amf_number w) \<and> the (amf_number w) < 2 ^ 64"
    if "w \<in> set vs" for w
    using assms that by (cases w) (auto simp: list_all_iff split: if_splits)
  then have "amf_value w = 0 # be64 (the (amf_number w))" if "w \<in> set vs" for w
    using that amf_value.simps(1) by metis
  then show "concat (List.map amf_value vs) = concat (List.map (\<lambda>d. 0 # be64 d) (List.map (the \<circ> amf_number) vs))"
    by (auto intro!: arg_cong [where f = concat])
  show "\<forall>d \<in> set (List.map (the \<circ> amf_number) vs). 0 \<le> d \<and> d < 2 ^ 64" using v by auto
qed

lemma be64_items_length: "length (concat (List.map (\<lambda>d. 0 # be64 d) ds)) = 9 * length ds"
  by (induction ds) simp_all

lemma keyframe_exact: "exact_callback (flv_metadata_keyframe_handler cv) meta_ok meta_view (kf_step cv) kf_good"
proof unfold_locales
  fix m and name :: "bytes option" and v and buf :: bytes and r xs
  assume m: "meta_ok m" and g: "kf_good name v (meta_view m)" and h: "holds buf r (amf_body v @ xs)"
  obtain nm vs where nm: "name = Some nm" and v: "v = Amf_Strict vs"
    using g by (cases v) (auto simp: kf_good_def meta_view_def)
  let ?ds = "List.map (the \<circ> amf_number) vs"
  let ?ga = "case md_keyframes m of None \<Rightarrow> g_array_new | Some ga \<Rightarrow> ga"
  have vs: "list_all (\<lambda>w. amf_number w \<noteq> None) vs" "length vs < 268435456"
    using g by (auto simp: kf_good_def meta_view_def v)
  have ga: "ga_ok ?ga" using m by (auto simp: meta_ok_def split: option.splits)
  have gl: "ga_list ?ga = (case map_option ga_list (md_keyframes m) of None \<Rightarrow> [] | Some l \<Rightarrow> l)"
    by (simp add: g_array_new_def ga_list_def split: option.splits)
  have "ga_list ?ga = [] \<or> length (ga_list ?ga) = length vs"
    using g by (auto simp: kf_good_def meta_view_def v gl split: option.splits)
  then have len: "ga_len ?ga = 0 \<or> ga_len ?ga = int (length ?ds)" using ga_list_length [OF ga] by auto
  have "holds buf r (be32 (int (length ?ds)) @ concat (List.map (\<lambda>d. 0 # be64 d) ?ds) @ xs)"
    using h amf_numbers(1) [OF vs(1)] by (simp add: v)
  from keyframe_array_exact [OF ga len _ amf_numbers(2) [OF vs(1)] this, of cv nm] vs(2) obtain b where
    b: "flv_script_read_keyframe_array cv buf r (Some nm) ?ga = Some (True, adv r (4 + 9 * length vs), b)" "ga_ok b"
      "ga_list b = kf_fill cv (keyframe_field nm) ?ds (ga_list ?ga)" by auto
  have "length (amf_body v) = 4 + 9 * length vs"
    using be64_items_length [of ?ds] amf_numbers(1) [OF vs(1)] by (simp add: v)
  with b m gl show "consumes meta_ok meta_view r (length (amf_body v)) (kf_step cv name v (meta_view m))
      (flv_metadata_keyframe_handler cv buf r name (amf_type v) m)"
    by (simp add: nm v flv_metadata_keyframe_handler_def consumes_def meta_ok_def meta_view_def kf_step_def)
qed (simp add: flv_metadata_keyframe_handler_def)

interpretation kf_exact: exact_callback "flv_metadata_keyframe_handler cv" meta_ok meta_view "kf_step cv" kf_good
  by (rule keyframe_exact)

section \<open>The metadata array\<close>

definition meta_step :: "conversions \<Rightarrow> meta_state amf_step" where
  "meta_step cv name v = (\<lambda>(a, ks). case v of
     Amf_Number d \<Rightarrow> (the (store_double cv (the name) d a), ks)
   | Amf_Boolean b \<Rightarrow> (store_bool (the name) b a, ks)
   | Amf_String s \<Rightarrow> (the (gst_tag_list_add (c_string (the name)) (Tag_String (c_string s)) a), ks)
   | Amf_Object ms \<Rightarrow> if str_is (the name) ''keyframes'' \<and> ks = None then run_members (kf_step cv) ms (a, ks) else (a, ks)
   | _ \<Rightarrow> (a, ks))"

text \<open>
  A member the reader takes: a value that fits its layout; the first object named \<^verbatim>\<open>keyframes\<close> holds arrays
  of numbers of one length.
\<close>

definition meta_fine :: "conversions \<Rightarrow> bytes option \<Rightarrow> amf \<Rightarrow> meta_state \<Rightarrow> bool" where
  "meta_fine cv name v = (\<lambda>(a, ks). name \<noteq> None \<and> (case v of
     Amf_Object ms \<Rightarrow> if str_is (the name) ''keyframes'' \<and> ks = None
       then good_members kf_good (kf_step cv) ms (a, ks) else amf_ok v
   | _ \<Rightarrow> amf_ok v))"

definition meta_good :: "conversions \<Rightarrow> nat \<Rightarrow> bytes option \<Rightarrow> amf \<Rightarrow> meta_state \<Rightarrow> bool" where
  "meta_good cv d name v a \<longleftrightarrow> meta_fine cv name v a \<and> length (amf_value v) \<le> d"

lemma meta_view_store:
  "store_double cv nm x (m\<lparr>md_keyframes := None\<rparr>) = map_option (\<lambda>m. m\<lparr>md_keyframes := None\<rparr>) (store_double cv nm x m)"
  "store_bool nm b (m\<lparr>md_keyframes := None\<rparr>) = (store_bool nm b m)\<lparr>md_keyframes := None\<rparr>"
  "gst_tag_list_add nm t (m\<lparr>md_keyframes := None\<rparr>) = map_option (\<lambda>m. m\<lparr>md_keyframes := None\<rparr>) (gst_tag_list_add nm t m)"
  by (cases "md_tag_list m"; simp add: store_double_def gst_tag_list_add_def store_bool_def)+

lemma meta_ok_store:
  assumes "meta_ok m"
  shows "\<exists>m'. store_double cv nm x m = Some m' \<and> meta_ok m' \<and> md_keyframes m' = md_keyframes m"
    "meta_ok (store_bool nm b m) \<and> md_keyframes (store_bool nm b m) = md_keyframes m"
    "\<exists>m'. gst_tag_list_add nm t m = Some m' \<and> meta_ok m' \<and> md_keyframes m' = md_keyframes m"
  using assms by (auto simp: meta_ok_def store_double_def store_bool_def gst_tag_list_add_def)

lemma meta_exact:
  "exact_callback (flv_metadata_value_handler cv (Suc d)) meta_ok meta_view (meta_step cv) (meta_good cv (Suc d))"
proof unfold_locales
  fix m and name :: "bytes option" and v and buf :: bytes and r xs
  assume m: "meta_ok m" and g: "meta_good cv (Suc d) name v (meta_view m)" and h: "holds buf r (amf_body v @ xs)"
  obtain nm where nm: "name = Some nm" using g by (auto simp: meta_good_def meta_fine_def meta_view_def)
  let ?h = "flv_metadata_value_handler cv (Suc d) buf r name (amf_type v) m"
  let ?kf = "\<exists>ms. v = Amf_Object ms \<and> str_is nm ''keyframes'' \<and> md_keyframes m = None"
  have ok: "amf_ok v" "skippable (Suc d) v" if "\<not> ?kf"
    using g that by (cases v; auto simp: meta_good_def meta_fine_def meta_view_def nm skippable_def split: if_splits)+
  note keep = skip_exact.object_exact [where Inv = meta_ok and view = meta_view, OF m]
    skip_exact.ecma_exact [where Inv = meta_ok and view = meta_view, OF m]
    skip_exact.strict_exact [where Inv = meta_ok and view = meta_view, OF m]
  show "consumes meta_ok meta_view r (length (amf_body v)) (meta_step cv name v (meta_view m)) ?h"
  proof (cases v)
    case (Amf_Number x)
    then have "flv_script_data_read_double buf r = Some (Some x, adv r 8)" using h ok by (simp add: read_double_at)
    with meta_ok_store(1) [OF m, of cv nm x] Amf_Number nm show ?thesis
      by (auto simp: flv_metadata_value_handler_def consumes_def meta_step_def meta_view_def meta_view_store)
  next
    case (Amf_Boolean b)
    then have b: "flv_script_data_read_ui8 buf r = Some (Some b, adv r 1)"
      using read_ui8_at [of buf r "octet b" xs] h ok by simp
    with meta_ok_store(2) [OF m, of nm b] Amf_Boolean nm show ?thesis
      by (simp add: flv_metadata_value_handler_def consumes_def meta_step_def meta_view_def meta_view_store)
  next
    case (Amf_String s)
    then have "flv_script_data_read_string buf r False = Some (Some s, adv r (2 + length s))"
      using h ok by (simp add: read_string_at)
    with meta_ok_store(3) [OF m, of "c_string nm" "Tag_String (c_string s)"] Amf_String nm show ?thesis
      by (auto simp: flv_metadata_value_handler_def consumes_def meta_step_def meta_view_def meta_view_store)
  next
    case (Amf_Object ms)
    show ?thesis
    proof (cases "str_is nm ''keyframes'' \<and> md_keyframes m = None")
      case True
      then have "good_members kf_good (kf_step cv) ms (meta_view m)"
        using g Amf_Object by (simp add: meta_good_def meta_fine_def meta_view_def nm)
      from kf_exact.object_exact [OF m this, of buf r xs] h Amf_Object True nm show ?thesis
        by (simp add: flv_metadata_value_handler_def meta_step_def meta_view_def)
    next
      case False
      then have "good_members (\<lambda>_ v _. skippable d v) no_step ms (meta_view m)"
        using ok Amf_Object by (intro good_skippable_members skippable_members) auto
      from keep(1) [OF this, of buf r xs] h Amf_Object False nm show ?thesis
        by (auto simp: flv_metadata_value_handler_def meta_step_def meta_view_def)
    qed
  next
    case (Amf_Ecma k ms)
    then have "good_members (\<lambda>_ v _. skippable d v) no_step ms (meta_view m)"
      using ok by (intro good_skippable_members skippable_members) auto
    from keep(2) [OF this, of buf r k xs] h ok Amf_Ecma show ?thesis
      by (simp add: flv_metadata_value_handler_def meta_step_def meta_view_def)
  next
    case (Amf_Strict vs)
    then have "good_elements (\<lambda>_ v _. skippable d v) no_step vs (meta_view m)"
      using ok skippable_elements by (intro good_skippable_elements) blast
    from keep(3) [OF this, of buf r xs] h ok Amf_Strict show ?thesis
      by (simp add: flv_metadata_value_handler_def meta_step_def meta_view_def)
  qed
qed (simp add: flv_metadata_value_handler_def)

interpretation meta_exact: exact_callback "flv_metadata_value_handler cv (Suc d)" meta_ok meta_view
    "meta_step cv" "meta_good cv (Suc d)"
  by (rule meta_exact)

section \<open>The script tag\<close>

definition on_meta_data :: "int \<Rightarrow> (bytes \<times> amf) list \<Rightarrow> bytes" where
  "on_meta_data k items = 2 # short_string (ascii ''onMetaData'') @ 8 # be32 k @ members items"

definition with_tags :: "flv_metadata \<Rightarrow> flv_metadata" where
  "with_tags m = (if md_tag_list m = None then m\<lparr>md_tag_list := Some []\<rparr> else m)"

lemma good_members_mono:
  assumes "good_members g step ms a"
    and "\<And>n v b. (n, v) \<in> set ms \<Longrightarrow> g (Some n) v b \<Longrightarrow> g' (Some n) v b"
  shows "good_members g' step ms a"
  using assms by (induction ms arbitrary: a) auto

lemma on_meta_data_read:
  assumes items: "good_members (meta_fine cv) (meta_step cv) items (meta_view (with_tags m))" and k: "0 \<le> k" "k < 2 ^ 32"
    and m: "\<forall>ga. md_keyframes m = Some ga \<longrightarrow> ga_ok ga" and h: "holds buf r (on_meta_data k items @ xs)"
  shows "\<exists>m'. flv_script_data_read cv buf r m = Some (True, m') \<and> meta_ok m' \<and>
    meta_view m' = run_members (meta_step cv) items (meta_view (with_tags m))"
proof -
  let ?name = "ascii ''onMetaData''"
  have n: "length ?name < 65536" "str_is ?name ''onMetaData''"
    by (simp_all add: str_is_def c_string_def ascii_def)
  have h1: "holds buf r (2 # (short_string ?name @ 8 # (be32 k @ members items @ xs)))"
    using h by (simp add: on_meta_data_def)
  have h2: "holds buf (adv r 1) (short_string ?name @ 8 # (be32 k @ members items @ xs))" using holds_Cons [OF h1] by simp
  let ?r2 = "adv (adv r 1) (2 + length ?name)"
  have h3: "holds buf ?r2 (8 # (be32 k @ members items @ xs))" using holds_append(2) [OF h2] by simp
  have h4: "holds buf (adv ?r2 1) (be32 k @ members items @ xs)" using holds_Cons [OF h3] by simp
  have len: "length (members items) < length buf" using h4 by (auto simp: holds_def)
  then obtain d where d: "length buf = Suc d" by (cases "length buf") auto
  have "length (amf_value v) \<le> Suc d" if "(n, v) \<in> set items" for n v
  proof -
    have "(n, amf_value v) \<in> set (List.map (map_prod id amf_value) items)" using that by force
    from encode_members_part [OF this] len d show ?thesis by (simp add: members_def)
  qed
  then have "good_members (meta_good cv (Suc d)) (meta_step cv) items (meta_view (with_tags m))"
    using good_members_mono [OF items] by (simp add: meta_good_def)
  moreover have "meta_ok (with_tags m)" using m by (auto simp: meta_ok_def with_tags_def split: option.splits)
  ultimately obtain m' where m': "flv_script_data_read_ecma (flv_metadata_value_handler cv (length buf)) buf (adv ?r2 1) (with_tags m)
        = Some (True, adv (adv ?r2 1) (4 + length (members items)), m')" "meta_ok m'"
      "meta_view m' = run_members (meta_step cv) items (meta_view (with_tags m))"
    using meta_exact.ecma_exact [OF _ _ h4 k, of "with_tags m" cv d] unfolding d consumes_def by blast
  then show ?thesis
    using read_ui8_at [OF h1] read_string_at [OF h2 n(1)] read_ui8_at [OF h3] n(2)
    by (simp add: flv_script_data_read_def with_tags_def Let_def)
qed

end
