(* ===== verification/Metadata_Properties.thy ===== *)
theory Metadata_Properties
  imports Amf
begin

text \<open>
  The properties of the FLV script data reader, with their witnesses. \<open>plain_cv\<close> reads the bits of a number as an integer.
\<close>

definition plain_cv :: conversions where
  "plain_cv = \<lparr>to_clock = (\<lambda>d. d mod 2 ^ 64), to_gint = (\<lambda>d. d mod 2 ^ 31), to_guint64 = (\<lambda>d. d mod 2 ^ 64)\<rparr>"

definition at_start :: "bytes \<Rightarrow> script_reader" where
  "at_start buf = \<lparr>sr_pos = 0, sr_end = int (length buf)\<rparr>"

lemma at_start_facts [simp]: "reader_wf buf (at_start buf)" "sr_end (at_start buf) = int (length buf)"
  "holds buf (at_start buf) buf"
  by (simp_all add: at_start_def reader_wf_def holds_def)

section \<open>Safety and termination\<close>






section \<open>Skipping\<close>

text \<open>
  C33. The handler for values of no interest inverts the layout: it ends right behind the one value it was
  called for, however deeply that is nested, and changes nothing. The nesting allowance need not exceed the
  length of the value.
\<close>

theorem skip_one_value:
  assumes "amf_ok v" "length (amf_value v) \<le> d" "holds buf r (amf_body v @ xs)"
  shows "flv_metadata_skip_handler (Suc d) buf r name (amf_type v) m = Some (True, adv r (length (amf_body v)), m)"
  using skip_exact.exact [where Inv = "\<lambda>_. True" and view = id and m = m, OF _ _ assms(3)] assms(1,2)
  by (auto simp: skippable_def consumes_def)

theorem skip_one_value_witness:
  "flv_metadata_skip_handler 99 (amf_body (Amf_Ecma 1 [([120], Amf_Strict [Amf_Boolean 1, Amf_Object []])]) @ [5])
     \<lparr>sr_pos = 0, sr_end = 22\<rparr> None 8 (0 :: nat) = Some (True, \<lparr>sr_pos = 21, sr_end = 22\<rparr>, 0)"
proof -
  let ?v = "Amf_Ecma 1 [([120], Amf_Strict [Amf_Boolean 1, Amf_Object []])]"
  have l: "length (amf_body ?v) = 21" by code_simp
  have "amf_ok ?v" by simp
  moreover have "length (amf_value ?v) \<le> 98" using l by (simp add: amf_value_split)
  moreover have "holds (amf_body ?v @ [5]) \<lparr>sr_pos = 0, sr_end = 22\<rparr> (amf_body ?v @ [5])"
    using l by (simp add: holds_def)
  ultimately show ?thesis
    using skip_one_value [of ?v 98 "amf_body ?v @ [5]" "\<lparr>sr_pos = 0, sr_end = 22\<rparr>" "[5]" None "0 :: nat"] l
    by (simp add: adv_def)
qed

section \<open>Keyframes\<close>

text \<open>The object that seekable files carry: the times and the file positions of the keyframes.\<close>

definition keyframe_items :: "dbl list \<Rightarrow> dbl list \<Rightarrow> (bytes \<times> amf) list" where
  "keyframe_items ts ps = [(ascii ''times'', Amf_Strict (List.map Amf_Number ts)),
     (ascii ''filepositions'', Amf_Strict (List.map Amf_Number ps))]"

definition keyframe_table :: "conversions \<Rightarrow> dbl list \<Rightarrow> dbl list \<Rightarrow> keyframe list" where
  "keyframe_table cv ts ps =
     List.map (\<lambda>(t, p). \<lparr>kf_time = to_clock cv t, kf_fileposition = to_guint64 cv p\<rparr>) (zip ts ps)"

lemma keyframe_names [simp]: "keyframe_field (ascii ''times'') = 1" "keyframe_field (ascii ''filepositions'') = 2"
  "length (ascii ''times'') = 5" "length (ascii ''filepositions'') = 13"
  by (simp_all add: keyframe_field_def str_is_def c_string_def ascii_def)

lemma keyframe_fills:
  assumes "length ts = length ps"
  shows "kf_fill cv 2 ps (kf_fill cv 1 ts []) = keyframe_table cv ts ps"
  using assms by (intro nth_equalityI)
    (auto simp: kf_fill_def keyframe_table_def store_keyframe_def zero_keyframe_def)

lemma keyframe_items_run:
  assumes "length ts = length ps" "length ts < 268435456" "\<forall>d \<in> set ts \<union> set ps. 0 \<le> d \<and> d < 2 ^ 64"
  shows "good_members kf_good (kf_step cv) (keyframe_items ts ps) (a, None)"
    "run_members (kf_step cv) (keyframe_items ts ps) (a, None) = (a, Some (keyframe_table cv ts ps))"
proof -
  have n: "List.map (the \<circ> amf_number) (List.map Amf_Number ds) = ds"
    "list_all (\<lambda>w. amf_number w \<noteq> None) (List.map Amf_Number ds)" if "\<forall>d \<in> set ds. 0 \<le> d \<and> d < 2 ^ 64" for ds
    using that by (induction ds) simp_all
  show "good_members kf_good (kf_step cv) (keyframe_items ts ps) (a, None)"
    "run_members (kf_step cv) (keyframe_items ts ps) (a, None) = (a, Some (keyframe_table cv ts ps))"
    using assms n [of ts] n [of ps] keyframe_fills [OF assms(1), of cv]
    by (auto simp: keyframe_items_def kf_step_def kf_good_def kf_fill_def)
qed

text \<open>
  C34. The keyframe object of a well-formed file fills the table: one entry per pair of a time and a
  position, in order, converted to nanoseconds and to a file offset; nothing else of the metadata changes
  and the reader stands behind the object.
\<close>

theorem keyframes_filled:
  assumes "length ts = length ps" "length ts < 268435456" "\<forall>d \<in> set ts \<union> set ps. 0 \<le> d \<and> d < 2 ^ 64"
    and "md_keyframes m = None" "md_tag_list m \<noteq> None" "holds buf r (members (keyframe_items ts ps) @ xs)"
  shows "\<exists>ga. flv_script_data_read_object (flv_metadata_keyframe_handler cv) buf r m
      = Some (True, adv r (length (members (keyframe_items ts ps))), m\<lparr>md_keyframes := Some ga\<rparr>)
    \<and> ga_list ga = keyframe_table cv ts ps"
proof -
  have v: "meta_view m = (m, None)" "meta_ok m" using assms(4,5) by (simp_all add: meta_view_def meta_ok_def)
  have g: "good_members kf_good (kf_step cv) (keyframe_items ts ps) (meta_view m)"
    unfolding v(1) by (rule keyframe_items_run [OF assms(1-3)])
  obtain m' where m': "flv_script_data_read_object (flv_metadata_keyframe_handler cv) buf r m
      = Some (True, adv r (length (members (keyframe_items ts ps))), m')"
      "meta_view m' = (m, Some (keyframe_table cv ts ps))"
    using kf_exact.object_exact [OF v(2) g assms(6)] keyframe_items_run(2) [OF assms(1-3), of cv m]
    unfolding v(1) consumes_def by auto
  then obtain ga where ga: "md_keyframes m' = Some ga" "ga_list ga = keyframe_table cv ts ps" "m'\<lparr>md_keyframes := None\<rparr> = m"
    by (auto simp: meta_view_def)
  then have "m' = m\<lparr>md_keyframes := Some ga\<rparr>" by (cases m') auto
  with m'(1) ga(2) show ?thesis by blast
qed

lemma members_at_start:
  "holds (members ms @ xs) \<lparr>sr_pos = 0, sr_end = int (length (members ms @ xs))\<rparr> (members ms @ xs)"
  by (simp add: holds_def)

theorem keyframes_filled_witness:
  "\<exists>ga r. flv_script_data_read_object (flv_metadata_keyframe_handler plain_cv) (members (keyframe_items [5, 7] [60, 900]))
      (at_start (members (keyframe_items [5, 7] [60, 900]))) (flv_metadata_new\<lparr>md_tag_list := Some []\<rparr>)
      = Some (True, r, flv_metadata_new\<lparr>md_tag_list := Some [], md_keyframes := Some ga\<rparr>)
    \<and> ga_list ga = [\<lparr>kf_time = 5, kf_fileposition = 60\<rparr>, \<lparr>kf_time = 7, kf_fileposition = 900\<rparr>]"
proof -
  let ?b = "members (keyframe_items [5, 7] [60, 900])"
  have "holds ?b (at_start ?b) (?b @ [])" by simp
  moreover have "keyframe_table plain_cv [5, 7] [60, 900]
      = [\<lparr>kf_time = 5, kf_fileposition = 60\<rparr>, \<lparr>kf_time = 7, kf_fileposition = 900\<rparr>]"
    by (simp add: keyframe_table_def plain_cv_def)
  ultimately show ?thesis
    using keyframes_filled [of "[5, 7]" "[60, 900]" "flv_metadata_new\<lparr>md_tag_list := Some []\<rparr>" ?b "at_start ?b" "[]" plain_cv]
    by (force simp: flv_metadata_new_def)
qed

text \<open>
  C35. A second array that is longer than the keyframes read so far is stored outside of the allocated memory
  exactly if an element other than the first superfluous one lies behind that memory: \<^verbatim>\<open>readSize\<close> is zero
  for that one element and then starts again from the largest 32-bit number.
\<close>

theorem keyframe_overflow:
  assumes "0 < ga_len ga" "ga_len ga < int (length ds)" "length ds < 4294967296"
    and "\<forall>d \<in> set ds. 0 \<le> d \<and> d < 2 ^ 64" "0 < keyframe_field name"
    and "holds buf r (be32 (int (length ds)) @ concat (List.map (\<lambda>d. 0 # be64 d) ds) @ xs)"
  shows "flv_script_read_keyframe_array cv buf r (Some name) ga = None \<longleftrightarrow>
    (\<exists>j. j < length ds \<and> int j \<noteq> ga_len ga \<and> length (ga_mem ga) \<le> j)"
  by (rule keyframe_array_stores [OF assms])

definition four_keyframes :: garray where
  "four_keyframes = \<lparr>ga_len = 4, ga_alloc = 64, ga_mem = replicate 4 zero_keyframe\<rparr>"

definition six_numbers :: bytes where
  "six_numbers = be32 6 @ concat (List.map (\<lambda>d. 0 # be64 d) [1, 2, 3, 4, 5, 6])"

definition overflow_block :: bytes where
  "overflow_block = on_meta_data 1 [(ascii ''keyframes'', Amf_Object (keyframe_items [1, 2, 3, 4] [1, 2, 3, 4, 5, 6]))]"

theorem keyframe_overflow_witness:
  "flv_script_read_keyframe_array plain_cv six_numbers (at_start six_numbers) (Some (ascii ''filepositions'')) four_keyframes = None
    \<and> flv_script_data_read plain_cv overflow_block (at_start overflow_block) flv_metadata_new = None"
proof
  have "holds six_numbers (at_start six_numbers)
      (be32 (int (length [1, 2, 3, 4, 5, 6 :: int])) @ concat (List.map (\<lambda>d. 0 # be64 d) [1, 2, 3, 4, 5, 6]) @ [])"
    using at_start_facts(3) [of six_numbers] by (simp add: six_numbers_def)
  then show "flv_script_read_keyframe_array plain_cv six_numbers (at_start six_numbers) (Some (ascii ''filepositions'')) four_keyframes = None"
    using keyframe_overflow [of four_keyframes "[1, 2, 3, 4, 5, 6]" "ascii ''filepositions''" six_numbers "at_start six_numbers" "[]" plain_cv]
    by (auto simp: four_keyframes_def intro!: exI [of _ 5])
  show "flv_script_data_read plain_cv overflow_block (at_start overflow_block) flv_metadata_new = None"
    by code_simp
qed

section \<open>The metadata tag\<close>

text \<open>
  C36. Reading the \<^verbatim>\<open>onMetaData\<close> tag of a well-formed file computes the abstract run over its members: numbers
  and booleans go to the fields of their names, strings and the duration to the tag list, the first keyframe
  object to the keyframe table, everything else is skipped.
\<close>

theorem on_meta_data_refines:
  assumes "good_members (meta_fine cv) (meta_step cv) items (with_tags flv_metadata_new, None)" "0 \<le> k" "k < 2 ^ 32"
    and "holds buf r (on_meta_data k items @ xs)"
  shows "\<exists>m'. flv_script_data_read cv buf r flv_metadata_new = Some (True, m') \<and>
    meta_view m' = run_members (meta_step cv) items (with_tags flv_metadata_new, None)"
proof -
  have v: "meta_view (with_tags flv_metadata_new) = (with_tags flv_metadata_new, None)"
    "\<forall>ga. md_keyframes flv_metadata_new = Some ga \<longrightarrow> ga_ok ga"
    by (simp_all add: meta_view_def with_tags_def flv_metadata_new_def)
  show ?thesis using on_meta_data_read [OF _ assms(2,3) v(2) assms(4)] assms(1) unfolding v(1) by blast
qed

definition demo_items :: "(bytes \<times> amf) list" where
  "demo_items = [(ascii ''duration'', Amf_Number 9), (ascii ''width'', Amf_Number 320), (ascii ''stereo'', Amf_Boolean 1),
     (ascii ''keyframes'', Amf_Object (keyframe_items [0, 8] [13, 700])), (ascii ''x'', Amf_Strict [Amf_String [65]])]"

theorem on_meta_data_refines_witness:
  "\<exists>m'. flv_script_data_read plain_cv (on_meta_data 5 demo_items) (at_start (on_meta_data 5 demo_items)) flv_metadata_new
      = Some (True, m') \<and> md_duration m' = 9 \<and> md_width m' = 320 \<and> md_is_stereo m' = 1
    \<and> map_option ga_list (md_keyframes m')
      = Some [\<lparr>kf_time = 0, kf_fileposition = 13\<rparr>, \<lparr>kf_time = 8, kf_fileposition = 700\<rparr>]"
proof -
  let ?b = "on_meta_data 5 demo_items" and ?a = "(with_tags flv_metadata_new, None)"
  have g: "good_members (meta_fine plain_cv) (meta_step plain_cv) demo_items ?a"
    by (simp add: demo_items_def meta_fine_def meta_step_def kf_good_def kf_step_def kf_fill_def keyframe_items_def
      store_double_def store_bool_def gst_tag_list_add_def with_tags_def flv_metadata_new_def str_is_def c_string_def ascii_def)
  have r: "run_members (meta_step plain_cv) demo_items ?a = ((fst (run_members (meta_step plain_cv) demo_items ?a)),
      Some [\<lparr>kf_time = 0, kf_fileposition = 13\<rparr>, \<lparr>kf_time = 8, kf_fileposition = 700\<rparr>])
    \<and> md_duration (fst (run_members (meta_step plain_cv) demo_items ?a)) = 9
    \<and> md_width (fst (run_members (meta_step plain_cv) demo_items ?a)) = 320
    \<and> md_is_stereo (fst (run_members (meta_step plain_cv) demo_items ?a)) = 1" by code_simp
  have "holds ?b (at_start ?b) (?b @ [])" by simp
  from on_meta_data_refines [OF g _ _ this] obtain m' where
    m': "flv_script_data_read plain_cv ?b (at_start ?b) flv_metadata_new = Some (True, m')"
      "meta_view m' = run_members (meta_step plain_cv) demo_items ?a" by auto
  from r [folded m'(2)] m'(1) show ?thesis by (intro exI [of _ m']) (simp add: meta_view_def)
qed

end
