(* ===== verification/Flv_Index.thy ===== *)
theory Flv_Index
  imports Flv_Metadata
begin

text \<open>
  The keyframe index of the demuxer: \<^verbatim>\<open>compare_keyframes\<close>, \<^verbatim>\<open>flv_demux_index_add_entry\<close> and
  \<^verbatim>\<open>flv_demux_index_lookup\<close> of \<^verbatim>\<open>flvdemux.c\<close>, over the doubly linked list of glib (\<^verbatim>\<open>glist.c\<close>). A
  \<^verbatim>\<open>GList\<close> is a list, and a pointer into it the list from that node on. The abstract index is a
  finite map from times to file positions.
\<close>

section \<open>Lists of glib\<close>

text \<open>The node whose data compares equal, with what follows; \<^term>\<open>[]\<close> is \<^verbatim>\<open>NULL\<close>.\<close>

fun g_list_find_custom :: "('a \<Rightarrow> 'b \<Rightarrow> int) \<Rightarrow> 'b \<Rightarrow> 'a list \<Rightarrow> 'a list" where
  "g_list_find_custom func data [] = []"
| "g_list_find_custom func data (x # xs) = (if func x data = 0 then x # xs else g_list_find_custom func data xs)"

fun g_list_insert_sorted :: "('a \<Rightarrow> 'a \<Rightarrow> int) \<Rightarrow> 'a \<Rightarrow> 'a list \<Rightarrow> 'a list" where
  "g_list_insert_sorted func data [] = [data]"
| "g_list_insert_sorted func data (x # xs) =
    (if 0 < func data x then if xs = [] then [x, data] else x # g_list_insert_sorted func data xs
     else data # x # xs)"

section \<open>The index\<close>

definition compare_keyframes :: "keyframe \<Rightarrow> keyframe \<Rightarrow> int" where
  "compare_keyframes a b = (if kf_time a < kf_time b then - 1 else if kf_time a = kf_time b then 0 else 1)"

definition flv_demux_index_add_entry :: "keyframe list \<Rightarrow> int \<Rightarrow> int \<Rightarrow> keyframe list" where
  "flv_demux_index_add_entry keyframes index_time index_pos =
    (let frame = \<lparr>kf_time = index_time, kf_fileposition = index_pos\<rparr>
     in if g_list_find_custom compare_keyframes frame keyframes = []
        then g_list_insert_sorted compare_keyframes frame keyframes
        else keyframes)"

text \<open>
  The scan of the lookup, with the previous node; going to the data of a missing previous node is
  \<^term>\<open>None\<close>, ending without a frame is \<^term>\<open>Some None\<close>.
\<close>

fun scan_keyframes :: "int \<Rightarrow> keyframe option \<Rightarrow> keyframe list \<Rightarrow> keyframe option option" where
  "scan_keyframes time prev [] = Some None"
| "scan_keyframes time prev (e # es) =
    (if kf_time e = time then Some (Some e)
     else if time < kf_time e then map_option Some prev
     else scan_keyframes time (Some e) es)"

text \<open>\<^term>\<open>Some None\<close> is FALSE, with the outputs left as they were.\<close>

definition flv_demux_index_lookup :: "keyframe list \<Rightarrow> int \<Rightarrow> (int \<times> int) option option" where
  "flv_demux_index_lookup keyframes time =
    (if keyframes = [] then Some None
     else if time < kf_time (hd keyframes) then Some None
     else if kf_time (last keyframes) < time then Some None
     else map_option (map_option (\<lambda>e. (kf_time e, kf_fileposition e))) (scan_keyframes time None keyframes))"

section \<open>Order\<close>

definition index_wf :: "keyframe list \<Rightarrow> bool" where
  "index_wf ks \<longleftrightarrow> sorted_wrt (\<lambda>a b. kf_time a < kf_time b) ks"

definition times :: "keyframe list \<Rightarrow> int set" where "times ks = kf_time ` set ks"

lemma index_wf_simps [simp]:
  "index_wf []" "index_wf (e # ks) \<longleftrightarrow> (\<forall>x \<in> set ks. kf_time e < kf_time x) \<and> index_wf ks"
  by (simp_all add: index_wf_def)

lemma times_simps [simp]: "times [] = {}" "times (e # ks) = insert (kf_time e) (times ks)"
  by (simp_all add: times_def)

lemma timesI: "x \<in> set ks \<Longrightarrow> kf_time x \<in> times ks" by (simp add: times_def)

lemma compare_sign [simp]:
  "compare_keyframes a b = 0 \<longleftrightarrow> kf_time a = kf_time b" "0 < compare_keyframes a b \<longleftrightarrow> kf_time b < kf_time a"
  by (auto simp: compare_keyframes_def)

lemma find_keyframe:
  "g_list_find_custom compare_keyframes f ks = [] \<longleftrightarrow> kf_time f \<notin> times ks"
  by (induction ks) auto

lemma insert_keyframe:
  "set (g_list_insert_sorted compare_keyframes f ks) = insert f (set ks)"
  "index_wf ks \<Longrightarrow> kf_time f \<notin> times ks \<Longrightarrow> index_wf (g_list_insert_sorted compare_keyframes f ks)"
proof -
  show s: "set (g_list_insert_sorted compare_keyframes f ks) = insert f (set ks)" for ks
    by (induction ks) auto
  show "index_wf ks \<Longrightarrow> kf_time f \<notin> times ks \<Longrightarrow> index_wf (g_list_insert_sorted compare_keyframes f ks)"
    by (induction ks) (fastforce simp: s)+
qed

section \<open>The index as a map\<close>

definition index_map :: "keyframe list \<Rightarrow> int \<Rightarrow> int option" where
  "index_map ks = map_of (List.map (\<lambda>e. (kf_time e, kf_fileposition e)) ks)"

lemma dom_index_map: "dom (index_map ks) = times ks"
  by (simp add: index_map_def dom_map_of_conv_image_fst times_def image_image)

lemma index_map_entry: "index_wf ks \<Longrightarrow> e \<in> set ks \<Longrightarrow> index_map ks (kf_time e) = Some (kf_fileposition e)"
  by (induction ks) (auto simp: index_map_def)

text \<open>Adding keeps what is there: the first position given for a time stays.\<close>

lemma add_entry_wf: "index_wf ks \<Longrightarrow> index_wf (flv_demux_index_add_entry ks t p)"
  by (simp add: flv_demux_index_add_entry_def Let_def find_keyframe insert_keyframe)

lemma add_entry_set:
  "set (flv_demux_index_add_entry ks t p) =
    (if t \<in> times ks then set ks else insert \<lparr>kf_time = t, kf_fileposition = p\<rparr> (set ks))"
  by (simp add: flv_demux_index_add_entry_def Let_def find_keyframe insert_keyframe)

lemma index_map_iff:
  "index_wf ks \<Longrightarrow> index_map ks t = Some p \<longleftrightarrow> \<lparr>kf_time = t, kf_fileposition = p\<rparr> \<in> set ks"
proof
  assume "index_map ks t = Some p"
  then have "(t, p) \<in> (\<lambda>e. (kf_time e, kf_fileposition e)) ` set ks"
    unfolding index_map_def by (auto dest: map_of_SomeD)
  then obtain e where e: "e \<in> set ks" "kf_time e = t" "kf_fileposition e = p" by auto
  then have "e = \<lparr>kf_time = t, kf_fileposition = p\<rparr>" by (intro keyframe.equality) simp_all
  with e(1) show "\<lparr>kf_time = t, kf_fileposition = p\<rparr> \<in> set ks" by simp
qed (use index_map_entry [of ks "\<lparr>kf_time = t, kf_fileposition = p\<rparr>"] in simp)

lemma add_entry_map:
  assumes "index_wf ks"
  shows "index_map (flv_demux_index_add_entry ks t p) =
    (if t \<in> dom (index_map ks) then index_map ks else (index_map ks)(t \<mapsto> p))"
proof
  fix u
  have old: "\<lparr>kf_time = t, kf_fileposition = x\<rparr> \<in> set ks \<Longrightarrow> t \<in> times ks" for x using timesI by fastforce
  have "index_map (flv_demux_index_add_entry ks t p) u = Some q \<longleftrightarrow>
      (if t \<in> dom (index_map ks) then index_map ks else (index_map ks)(t \<mapsto> p)) u = Some q" for q
    using index_map_iff [OF add_entry_wf [OF assms], of t p u q] index_map_iff [OF assms, of u q]
    by (auto simp: add_entry_set dom_index_map dest: old)
  then show "index_map (flv_demux_index_add_entry ks t p) u =
      (if t \<in> dom (index_map ks) then index_map ks else (index_map ks)(t \<mapsto> p)) u"
    by (metis not_None_eq)
qed

lemma index_ends:
  assumes "index_wf ks" "x \<in> set ks"
  shows "kf_time (hd ks) \<le> kf_time x" "kf_time x \<le> kf_time (last ks)"
proof -
  show "kf_time (hd ks) \<le> kf_time x" using assms by (cases ks) auto
  show "kf_time x \<le> kf_time (last ks)"
    using assms by (induction ks rule: rev_induct) (auto simp: index_wf_def sorted_wrt_append)
qed

text \<open>The lookup answers the last entry not after the time, if there is an entry at or after it.\<close>

definition floor_entry :: "(int \<Rightarrow> int option) \<Rightarrow> int \<Rightarrow> (int \<times> int) \<Rightarrow> bool" where
  "floor_entry m t e \<longleftrightarrow> m (fst e) = Some (snd e) \<and> fst e \<le> t \<and> (\<forall>u \<in> dom m. u \<le> t \<longrightarrow> u \<le> fst e)"

lemma scan_keyframes_found:
  assumes "index_wf (xs @ ks)" "prev = (if xs = [] then None else Some (last xs))"
    and "\<forall>x \<in> set xs. kf_time x < time" "xs @ ks \<noteq> []" "kf_time (hd (xs @ ks)) \<le> time" "time \<le> kf_time (last (xs @ ks))"
  shows "\<exists>e. scan_keyframes time prev ks = Some (Some e) \<and> e \<in> set (xs @ ks) \<and> kf_time e \<le> time
    \<and> (\<forall>x \<in> set (xs @ ks). kf_time x \<le> time \<longrightarrow> kf_time x \<le> kf_time e)"
  using assms
proof (induction ks arbitrary: xs prev)
  case Nil
  then have "last xs \<in> set xs" by (cases xs) auto
  with Nil show ?case by fastforce
next
  case (Cons e ks)
  have s: "\<forall>x \<in> set xs. \<forall>y \<in> set (e # ks). kf_time x < kf_time y" "\<forall>x \<in> set ks. kf_time e < kf_time x"
    "index_wf xs"
    using Cons.prems(1) by (auto simp: index_wf_def sorted_wrt_append)
  show ?case
  proof (cases "kf_time e = time")
    case True
    with s(2) show ?thesis using Cons.prems by (auto intro!: exI [of _ e])
  next
    case ne: False
    show ?thesis
    proof (cases "time < kf_time e")
      case True
      then have xs: "xs \<noteq> []" using Cons.prems(5) by (cases xs) auto
      note l = index_ends(2) [OF s(3)]
      have "last xs \<in> set xs" using xs by simp
      with True ne xs l s Cons.prems show ?thesis by (intro exI [of _ "last xs"]) fastforce
    next
      case False
      with ne have "kf_time e < time" by simp
      with Cons.IH [of "xs @ [e]" "Some e"] Cons.prems ne show ?thesis by (auto simp: hd_append)
    qed
  qed
qed

lemma lookup_cases:
  assumes "index_wf ks"
  shows "(\<exists>e. flv_demux_index_lookup ks time = Some (Some e) \<and> floor_entry (index_map ks) time e
      \<and> (\<exists>u \<in> dom (index_map ks). time \<le> u))
    \<or> (flv_demux_index_lookup ks time = Some None \<and>
      ((\<forall>u \<in> dom (index_map ks). time < u) \<or> (\<forall>u \<in> dom (index_map ks). u < time)))"
proof (cases "ks = [] \<or> time < kf_time (hd ks) \<or> kf_time (last ks) < time")
  case True
  have "kf_time (hd ks) \<le> u \<and> u \<le> kf_time (last ks)" if "u \<in> times ks" for u
    using index_ends [OF assms] that by (auto simp: times_def)
  with True have "(\<forall>u \<in> times ks. time < u) \<or> (\<forall>u \<in> times ks. u < time)" by fastforce
  with True show ?thesis by (auto simp: flv_demux_index_lookup_def dom_index_map)
next
  case False
  then obtain e where e: "scan_keyframes time None ks = Some (Some e)" "e \<in> set ks" "kf_time e \<le> time"
      "\<forall>x \<in> set ks. kf_time x \<le> time \<longrightarrow> kf_time x \<le> kf_time e"
    using scan_keyframes_found [of "[]" ks None time] assms by auto
  then have "floor_entry (index_map ks) time (kf_time e, kf_fileposition e)"
    using index_map_entry [OF assms e(2)] by (auto simp: floor_entry_def dom_index_map times_def)
  moreover have "kf_time (last ks) \<in> dom (index_map ks)" using False by (simp add: dom_index_map timesI)
  moreover have "flv_demux_index_lookup ks time = Some (Some (kf_time e, kf_fileposition e))"
    using False e(1) by (simp add: flv_demux_index_lookup_def)
  ultimately show ?thesis using False by (intro disjI1 exI conjI bexI) simp_all
qed

end
