(* ===== verification/Gst_Segment.thy ===== *)
theory Gst_Segment
  imports Flv_Metadata
begin

text \<open>
  Segments of GStreamer, \<^verbatim>\<open>gstreamer-lite/gstreamer/gst/gstsegment.c\<close>, as far as the demuxer uses them. A
  \<^verbatim>\<open>gdouble\<close> is its 64 bits, so its sign and the comparison with 1.0 are exact; the division of a duration
  by a rate is a parameter. A failed \<^verbatim>\<open>g_return_if_fail\<close> leaves the function with the segment as it is.
\<close>

abbreviation (input) GST_FORMAT_UNDEFINED :: int where "GST_FORMAT_UNDEFINED \<equiv> 0"
abbreviation (input) GST_FORMAT_BYTES :: int where "GST_FORMAT_BYTES \<equiv> 2"
abbreviation (input) GST_FORMAT_TIME :: int where "GST_FORMAT_TIME \<equiv> 3"

datatype seek_type = GST_SEEK_TYPE_NONE | GST_SEEK_TYPE_CUR | GST_SEEK_TYPE_SET | GST_SEEK_TYPE_END

section \<open>Doubles by their bits\<close>

definition dbl_one :: dbl where "dbl_one = 0x3FF0000000000000"
definition dbl_pos :: "dbl \<Rightarrow> bool" where "dbl_pos d \<longleftrightarrow> 0 < d \<and> d \<le> 0x7FF0000000000000"
definition dbl_neg :: "dbl \<Rightarrow> bool" where "dbl_neg d \<longleftrightarrow> 0x8000000000000000 < d \<and> d \<le> 0xFFF0000000000000"
definition dbl_zero :: "dbl \<Rightarrow> bool" where "dbl_zero d \<longleftrightarrow> d = 0 \<or> d = 0x8000000000000000"
definition dbl_abs :: "dbl \<Rightarrow> dbl" where "dbl_abs d = (if dbl_neg d then d - 0x8000000000000000 else d)"

lemma dbl_one_pos [simp]: "dbl_pos dbl_one" by (simp add: dbl_pos_def dbl_one_def)

lemma dbl_pos_signs [simp]: "dbl_pos d \<Longrightarrow> \<not> dbl_neg d" "dbl_pos d \<Longrightarrow> \<not> dbl_zero d" "dbl_pos d \<Longrightarrow> dbl_abs d = d"
  by (auto simp: dbl_pos_def dbl_neg_def dbl_zero_def dbl_abs_def)

section \<open>Segments\<close>

record gst_segment =
  seg_rate :: dbl
  seg_abs_rate :: dbl
  seg_applied_rate :: dbl
  seg_format :: int
  seg_flags :: int
  seg_start :: int
  seg_stop :: int
  seg_time :: int
  seg_accum :: int
  seg_last_stop :: int
  seg_duration :: int

definition gst_segment_init :: "int \<Rightarrow> gst_segment" where
  "gst_segment_init fmt = \<lparr>seg_rate = dbl_one, seg_abs_rate = dbl_one, seg_applied_rate = dbl_one,
     seg_format = fmt, seg_flags = 0, seg_start = 0, seg_stop = - 1, seg_time = 0, seg_accum = 0,
     seg_last_stop = 0, seg_duration = - 1\<rparr>"

definition take_format :: "gst_segment \<Rightarrow> int \<Rightarrow> gst_segment" where
  "take_format s fmt = (if seg_format s = GST_FORMAT_UNDEFINED then s\<lparr>seg_format := fmt\<rparr> else s)"

definition gst_segment_set_last_stop :: "gst_segment \<Rightarrow> int \<Rightarrow> int \<Rightarrow> gst_segment" where
  "gst_segment_set_last_stop s fmt position =
    (let s = take_format s fmt
     in if seg_format s = fmt then s\<lparr>seg_last_stop := max (seg_start s) position\<rparr> else s)"

definition CLAMP :: "int \<Rightarrow> int \<Rightarrow> int \<Rightarrow> int" where
  "CLAMP x low high = (if high < x then high else if x < low then low else x)"

text \<open>The new start and whether it is an update; \<^term>\<open>None\<close> where a check of the formats fails.\<close>

definition seek_start :: "gst_segment \<Rightarrow> int \<Rightarrow> seek_type \<Rightarrow> int \<Rightarrow> (int \<times> bool) option" where
  "seek_start s fmt start_type start_at = (let ok = (\<lambda>x. x = 0 \<or> seg_format s = fmt) in
    case start_type of
      GST_SEEK_TYPE_NONE \<Rightarrow> Some (seg_start s, False)
    | GST_SEEK_TYPE_SET \<Rightarrow> (let x = (if start_at = - 1 then 0 else start_at) in if ok x then Some (x, True) else None)
    | GST_SEEK_TYPE_CUR \<Rightarrow> if ok start_at then Some (i64 (seg_start s + start_at), True) else None
    | GST_SEEK_TYPE_END \<Rightarrow>
        if seg_duration s \<noteq> - 1 then if ok start_at then Some (i64 (seg_duration s + start_at), True) else None
        else Some (seg_start s, False))"

definition seek_stop :: "gst_segment \<Rightarrow> int \<Rightarrow> seek_type \<Rightarrow> int \<Rightarrow> (int \<times> bool) option" where
  "seek_stop s fmt stop_type stop = (
    case stop_type of
      GST_SEEK_TYPE_NONE \<Rightarrow> Some (seg_stop s, False)
    | GST_SEEK_TYPE_SET \<Rightarrow> if stop = - 1 \<or> seg_format s = fmt then Some (stop, True) else None
    | GST_SEEK_TYPE_CUR \<Rightarrow>
        if seg_stop s \<noteq> - 1 then if stop = 0 \<or> seg_format s = fmt then Some (i64 (seg_stop s + stop), True) else None
        else Some (- 1, True)
    | GST_SEEK_TYPE_END \<Rightarrow>
        if seg_duration s \<noteq> - 1 then if stop = 0 \<or> seg_format s = fmt then Some (i64 (seg_duration s + stop), True) else None
        else Some (seg_stop s, False))"

definition in_range :: "gst_segment \<Rightarrow> int \<Rightarrow> int" where
  "in_range s x = (if seg_duration s \<noteq> - 1 then CLAMP x 0 (seg_duration s) else max x 0)"

definition gst_segment_set_seek ::
  "gst_segment \<Rightarrow> dbl \<Rightarrow> int \<Rightarrow> int \<Rightarrow> seek_type \<Rightarrow> int \<Rightarrow> seek_type \<Rightarrow> int \<Rightarrow> gst_segment" where
  "gst_segment_set_seek s rate fmt flags start_type start_at stop_type stop =
    (if dbl_zero rate then s
     else let s = take_format s fmt in
       case seek_start s fmt start_type start_at of None \<Rightarrow> s
       | Some (start_at, update_start) \<Rightarrow>
           let start_at = in_range s start_at in
           (case seek_stop s fmt stop_type stop of None \<Rightarrow> s
            | Some (stop, update_stop) \<Rightarrow>
                let stop = (if stop \<noteq> - 1 then in_range s stop else stop) in
                if stop \<noteq> - 1 \<and> \<not> start_at \<le> stop then s
                else
                  let last_stop = (if update_start \<and> dbl_pos rate then start_at else seg_last_stop s);
                    last_stop = (if update_stop \<and> dbl_neg rate
                      then if stop \<noteq> - 1 then stop else if seg_duration s \<noteq> - 1 then seg_duration s else 0
                      else last_stop)
                  in s\<lparr>seg_rate := rate, seg_abs_rate := dbl_abs rate, seg_applied_rate := dbl_one, seg_flags := flags,
                       seg_start := start_at, seg_stop := stop, seg_time := start_at, seg_last_stop := last_stop\<rparr>))"

text \<open>\<open>div_rate\<close> stands for \<^verbatim>\<open>duration /= segment->abs_rate\<close>.\<close>

definition elapsed_update :: "gst_segment \<Rightarrow> int \<Rightarrow> int \<Rightarrow> int" where
  "elapsed_update s start_at stop =
    (if dbl_pos (seg_rate s) then if seg_start s < start_at then i64 (start_at - seg_start s) else 0
     else if stop \<noteq> - 1 \<and> stop < seg_stop s then i64 (seg_stop s - stop) else 0)"

definition elapsed_closed :: "gst_segment \<Rightarrow> int" where
  "elapsed_closed s =
    (if seg_stop s \<noteq> - 1 then i64 (seg_stop s - seg_start s)
     else if seg_last_stop s \<noteq> - 1 then i64 (seg_last_stop s - seg_start s) else 0)"

definition gst_segment_set_newsegment_full ::
  "(int \<Rightarrow> dbl \<Rightarrow> int) \<Rightarrow> gst_segment \<Rightarrow> bool \<Rightarrow> dbl \<Rightarrow> dbl \<Rightarrow> int \<Rightarrow> int \<Rightarrow> int \<Rightarrow> int \<Rightarrow> gst_segment" where
  "gst_segment_set_newsegment_full div_rate s update rate applied_rate fmt start_at stop time =
    (if dbl_zero rate \<or> dbl_zero applied_rate then s
     else let s = take_format s fmt;
         other = (fmt \<noteq> seg_format s \<and> start_at = 0);
         fmt = (if other then seg_format s else fmt);
         stop = (if other \<and> stop \<noteq> 0 then - 1 else stop);
         time = (if other \<and> time \<noteq> 0 then - 1 else time)
       in if seg_format s \<noteq> fmt then s
         else let duration = (if update then elapsed_update s start_at stop else elapsed_closed s);
             last_stop = (if update then
                 if seg_last_stop s < start_at then start_at
                 else if stop \<noteq> - 1 \<and> stop < seg_last_stop s then stop else seg_last_stop s
               else if dbl_pos rate then start_at else stop);
             duration = (if seg_abs_rate s \<noteq> dbl_one then div_rate duration (seg_abs_rate s) else duration)
           in s\<lparr>seg_accum := i64 (seg_accum s + duration), seg_rate := rate, seg_abs_rate := dbl_abs rate,
                seg_applied_rate := applied_rate, seg_start := start_at, seg_last_stop := last_stop,
                seg_stop := stop, seg_time := time\<rparr>)"

definition gst_segment_set_newsegment ::
  "(int \<Rightarrow> dbl \<Rightarrow> int) \<Rightarrow> gst_segment \<Rightarrow> bool \<Rightarrow> dbl \<Rightarrow> int \<Rightarrow> int \<Rightarrow> int \<Rightarrow> int \<Rightarrow> gst_segment" where
  "gst_segment_set_newsegment div_rate s update rate fmt start_at stop time =
    gst_segment_set_newsegment_full div_rate s update rate dbl_one fmt start_at stop time"

section \<open>Segments of time\<close>

text \<open>What the demuxer relies on: the format stays time and the positions are not negative, the stop not
  before the start, and a duration is never set.\<close>

definition time_segment :: "gst_segment \<Rightarrow> bool" where
  "time_segment s \<longleftrightarrow> seg_format s = GST_FORMAT_TIME \<and> seg_duration s = - 1 \<and> dbl_pos (seg_rate s) \<and> seg_abs_rate s = seg_rate s"

definition seg_bounds :: "gst_segment \<Rightarrow> bool" where
  "seg_bounds s \<longleftrightarrow> 0 \<le> seg_start s \<and> (seg_stop s = - 1 \<or> seg_start s \<le> seg_stop s)"

lemma time_segment_init [simp]: "time_segment (gst_segment_init GST_FORMAT_TIME)" "seg_bounds (gst_segment_init fmt)"
  by (simp_all add: time_segment_def seg_bounds_def gst_segment_init_def)

lemma time_segment_last_stop [simp]:
  "time_segment s \<Longrightarrow> gst_segment_set_last_stop s GST_FORMAT_TIME p = s\<lparr>seg_last_stop := max (seg_start s) p\<rparr>"
  by (simp add: gst_segment_set_last_stop_def take_format_def time_segment_def)

lemma take_time [simp]: "time_segment s \<Longrightarrow> take_format s fmt = s"
  by (simp add: take_format_def time_segment_def)

text \<open>A seek in time: the fields after it, or the segment as it was if the stop is before the start.\<close>

definition seek_target :: "gst_segment \<Rightarrow> seek_type \<Rightarrow> int \<Rightarrow> int" where
  "seek_target s start_type start_at = max 0 (case start_type of
      GST_SEEK_TYPE_SET \<Rightarrow> if start_at = - 1 then 0 else start_at
    | GST_SEEK_TYPE_CUR \<Rightarrow> i64 (seg_start s + start_at) | _ \<Rightarrow> seg_start s)"

lemma seek_time:
  assumes "time_segment s" "dbl_pos rate"
  shows "\<exists>stop'. gst_segment_set_seek s rate GST_FORMAT_TIME flags start_type start_at stop_type stop =
    (if stop' = - 1 \<or> seek_target s start_type start_at \<le> stop' then
       s\<lparr>seg_rate := rate, seg_abs_rate := rate, seg_applied_rate := dbl_one, seg_flags := flags,
         seg_start := seek_target s start_type start_at, seg_stop := stop', seg_time := seek_target s start_type start_at,
         seg_last_stop := (if start_type \<in> {GST_SEEK_TYPE_SET, GST_SEEK_TYPE_CUR} then seek_target s start_type start_at
           else seg_last_stop s)\<rparr>
     else s)"
proof -
  have f: "seg_format s = 3" "seg_duration s = - 1" using assms(1) by (simp_all add: time_segment_def)
  have "seek_stop s 3 stop_type stop \<noteq> None" using f by (cases stop_type) (auto simp: seek_stop_def)
  then obtain x u where x: "seek_stop s 3 stop_type stop = Some (x, u)" by auto
  show ?thesis
    using assms f x
    by (cases start_type; intro exI [of _ "if x \<noteq> - 1 then in_range s x else x"])
      (auto simp: gst_segment_set_seek_def seek_start_def seek_target_def in_range_def max.commute Let_def)
qed

lemma set_seek_bounds:
  assumes "time_segment s" "seg_bounds s" "dbl_pos rate"
  shows "time_segment (gst_segment_set_seek s rate GST_FORMAT_TIME flags start_type start_at stop_type stop)"
    "seg_bounds (gst_segment_set_seek s rate GST_FORMAT_TIME flags start_type start_at stop_type stop)"
proof -
  obtain x where x: "gst_segment_set_seek s rate 3 flags start_type start_at stop_type stop =
    (if x = - 1 \<or> seek_target s start_type start_at \<le> x then
       s\<lparr>seg_rate := rate, seg_abs_rate := rate, seg_applied_rate := dbl_one, seg_flags := flags,
         seg_start := seek_target s start_type start_at, seg_stop := x, seg_time := seek_target s start_type start_at,
         seg_last_stop := (if start_type \<in> {GST_SEEK_TYPE_SET, GST_SEEK_TYPE_CUR} then seek_target s start_type start_at
           else seg_last_stop s)\<rparr> else s)"
    using seek_time [OF assms(1,3)] by blast
  show "time_segment (gst_segment_set_seek s rate GST_FORMAT_TIME flags start_type start_at stop_type stop)"
    "seg_bounds (gst_segment_set_seek s rate GST_FORMAT_TIME flags start_type start_at stop_type stop)"
    unfolding x using assms by (auto simp: time_segment_def seg_bounds_def seek_target_def)
qed

end
