(* ===== verification/Flv_Demux.thy ===== *)
theory Flv_Demux
  imports Flv_Index Gst_Segment
begin

text \<open>
  The FLV demuxer, \<^verbatim>\<open>modules/media/src/main/native/gstreamer/plugins/vp6/flvdemux.c\<close>. Everything outside
  of the element (pads, peers, tasks, the bus) is reached through calls: \<open>dx_calls\<close> is the log of them,
  and their results are arbitrary functions of the log and the call, the record \<open>gst_env\<close>. The adapter
  is the string of bytes it holds. A tag list is the log of the additions to it, which all replace, so that
  a replacing merge appends. Stream locks are not modelled; caps are always taken fresh.
\<close>

unbundle bit_operations_syntax

section \<open>The environment\<close>

datatype stream = Audio_Stream | Video_Stream

datatype caps_value = Caps_Int int | Caps_Bool bool | Caps_Fraction int int

record caps =
  caps_name :: string
  caps_fields :: "(string \<times> caps_value) list"

record out_buffer =
  ob_data :: bytes
  ob_timestamp :: int
  ob_duration :: int
  ob_offset :: int
  ob_offset_end :: int
  ob_discont :: bool
  ob_delta_unit :: bool

datatype gst_event = Event_Flush_Start | Event_Flush_Stop | Event_Eos | Event_Range_Ready
  | Event_New_Segment bool dbl int int int int
  | Event_Seek dbl int int seek_type int seek_type int
  | Event_Other int

type_synonym tags = "(bytes \<times> tag_value) list"

datatype gst_call =
    Pad_Set_Caps stream caps | Pad_Use_Fixed_Caps stream | Pad_Set_Active stream | Element_Add_Pad stream
  | Element_No_More_Pads | Element_Found_Tags tags | Element_Error | Element_Warning stream
  | Pad_Alloc_Buffer stream jint | Pad_Push stream out_buffer | Pad_Push_Event stream gst_event
  | Sink_Push_Event gst_event | Sink_Event_Default gst_event | Post_Segment_Start int int
  | Task_Start | Task_Pause | Task_Stop | Pull_Range int int

text \<open>\<open>answer\<close> is the flow of a call or, for a \<^verbatim>\<open>gboolean\<close>, non-zero for TRUE; \<open>uninit\<close> is the value of a variable
  that is read before it is set.\<close>

record gst_env =
  answer :: "gst_call list \<Rightarrow> gst_call \<Rightarrow> int"
  pulled :: "gst_call list \<Rightarrow> int \<Rightarrow> int \<Rightarrow> bytes"
  env_conv :: conversions
  env_framerate :: "dbl \<Rightarrow> jint" \<comment> \<open>\<^verbatim>\<open>(gint)(framerate * 100)\<close>\<close>
  env_div_rate :: "int \<Rightarrow> dbl \<Rightarrow> int"
  uninit :: int

abbreviation (input) GST_FLOW_OK :: int where "GST_FLOW_OK \<equiv> 0"
abbreviation (input) GST_FLOW_NOT_LINKED :: int where "GST_FLOW_NOT_LINKED \<equiv> - 1"
abbreviation (input) GST_FLOW_UNEXPECTED :: int where "GST_FLOW_UNEXPECTED \<equiv> - 3"
abbreviation (input) GST_FLOW_ERROR :: int where "GST_FLOW_ERROR \<equiv> - 5"
abbreviation (input) GST_MSECOND :: int where "GST_MSECOND \<equiv> 1000000"
abbreviation (input) GST_SECOND :: int where "GST_SECOND \<equiv> 1000000000"
abbreviation (input) FLVDEMUX_AUDIO_FORMAT_MP3 :: int where "FLVDEMUX_AUDIO_FORMAT_MP3 \<equiv> 2"
abbreviation (input) FLVDEMUX_VIDEO_FORMAT_VP6 :: int where "FLVDEMUX_VIDEO_FORMAT_VP6 \<equiv> 4"
abbreviation (input) FLVDEMUX_VIDEO_FORMAT_VP6_ALPHA :: int where "FLVDEMUX_VIDEO_FORMAT_VP6_ALPHA \<equiv> 5"

section \<open>State\<close>

text \<open>The runtime information of one output; \<open>os_format\<close> is \<^verbatim>\<open>sound_format\<close> or \<^verbatim>\<open>video_codec_id\<close>.\<close>

record out_stream =
  os_src_pad :: bool
  os_format :: int
  os_linked :: bool
  os_offset :: int
  os_discont :: bool
  os_prev_timestamp :: int
  os_frame_duration :: int

record flv_demux =
  dx_adapter :: bytes
  dx_parser :: flv_parser
  dx_is_pulling :: bool
  dx_need_parser_flush :: bool
  dx_has_video :: bool
  dx_has_audio :: bool
  dx_metadata :: flv_metadata
  dx_queued_tags :: "tags option"
  dx_last_file_position :: int
  dx_current_timestamp :: int
  dx_keyframes :: "keyframe list"
  dx_copied_metadata_keyframes :: bool
  dx_segment :: gst_segment
  dx_is_flushing :: bool
  dx_audio :: out_stream
  dx_video :: out_stream
  dx_calls :: "gst_call list"

definition out_stream_init :: out_stream where
  "out_stream_init = \<lparr>os_src_pad = False, os_format = 0, os_linked = False, os_offset = 0, os_discont = True,
     os_prev_timestamp = GST_CLOCK_TIME_NONE, os_frame_duration = GST_CLOCK_TIME_NONE\<rparr>"

text \<open>The fields the C function leaves alone are zero in a new instance.\<close>

definition flv_demux_init :: flv_demux where
  "flv_demux_init = \<lparr>dx_adapter = [], dx_parser = flv_parser_init, dx_is_pulling = False,
     dx_need_parser_flush = False, dx_has_video = False, dx_has_audio = False, dx_metadata = flv_metadata_new,
     dx_queued_tags = None, dx_last_file_position = 0, dx_current_timestamp = GST_CLOCK_TIME_NONE,
     dx_keyframes = [], dx_copied_metadata_keyframes = False, dx_segment = gst_segment_init GST_FORMAT_TIME,
     dx_is_flushing = False, dx_audio = out_stream_init, dx_video = out_stream_init, dx_calls = []\<rparr>"

primrec other :: "stream \<Rightarrow> stream" where
  "other Audio_Stream = Video_Stream" | "other Video_Stream = Audio_Stream"

primrec out :: "stream \<Rightarrow> flv_demux \<Rightarrow> out_stream" where
  "out Audio_Stream f = dx_audio f" | "out Video_Stream f = dx_video f"

primrec set_out :: "stream \<Rightarrow> (out_stream \<Rightarrow> out_stream) \<Rightarrow> flv_demux \<Rightarrow> flv_demux" where
  "set_out Audio_Stream g f = f\<lparr>dx_audio := g (dx_audio f)\<rparr>"
| "set_out Video_Stream g f = f\<lparr>dx_video := g (dx_video f)\<rparr>"

primrec has_stream :: "stream \<Rightarrow> flv_demux \<Rightarrow> bool" where
  "has_stream Audio_Stream f = dx_has_audio f" | "has_stream Video_Stream f = dx_has_video f"

text \<open>A call whose result is not used, one that returns a flow, one that returns a \<^verbatim>\<open>gboolean\<close>.\<close>

definition tell :: "gst_call \<Rightarrow> flv_demux \<Rightarrow> flv_demux" where
  "tell c f = f\<lparr>dx_calls := dx_calls f @ [c]\<rparr>"

definition ask :: "gst_env \<Rightarrow> gst_call \<Rightarrow> flv_demux \<Rightarrow> int \<times> flv_demux" where
  "ask E c f = (answer E (dx_calls f) c, tell c f)"

definition ask_bool :: "gst_env \<Rightarrow> gst_call \<Rightarrow> flv_demux \<Rightarrow> bool \<times> flv_demux" where
  "ask_bool E c f = (answer E (dx_calls f) c \<noteq> 0, tell c f)"

definition gst_pad_pull_range :: "gst_env \<Rightarrow> int \<Rightarrow> int \<Rightarrow> flv_demux \<Rightarrow> int \<times> bytes \<times> flv_demux" where
  "gst_pad_pull_range E pos n f = (answer E (dx_calls f) (Pull_Range pos n), pulled E (dx_calls f) pos n,
     tell (Pull_Range pos n) f)"

section \<open>Pads and caps\<close>

definition found_tags :: "flv_demux \<Rightarrow> flv_demux" where
  "found_tags f = (case dx_queued_tags f of None \<Rightarrow> f
     | Some l \<Rightarrow> (tell (Element_Found_Tags l) f)\<lparr>dx_queued_tags := None\<rparr>)"

text \<open>The common ending of the two negotiations: the caps, the codec tag, and the tags if no more are expected.\<close>

definition settle_caps :: "gst_env \<Rightarrow> stream \<Rightarrow> caps \<Rightarrow> int \<Rightarrow> string \<Rightarrow> string \<Rightarrow> flv_demux \<Rightarrow> bool \<times> flv_demux" where
  "settle_caps E S caps fmt tag codec_name f =
    (case ask_bool E (Pad_Set_Caps S caps) f of (ok, f) \<Rightarrow>
       if ok then
         let f = set_out S (\<lambda>s. s\<lparr>os_format := fmt\<rparr>) f;
             f = f\<lparr>dx_queued_tags := Some ((case dx_queued_tags f of None \<Rightarrow> [] | Some l \<Rightarrow> l)
                   @ [(ascii tag, Tag_String (ascii codec_name))])\<rparr>
         in (True, if \<not> has_stream (other S) f \<or> os_linked (out (other S) f) then found_tags f else f)
       else (False, f))"

definition flv_demux_negotiate_audio_caps ::
  "gst_env \<Rightarrow> int \<Rightarrow> int \<Rightarrow> bool \<Rightarrow> bool \<Rightarrow> flv_demux \<Rightarrow> (bool \<times> flv_demux) option" where
  "flv_demux_negotiate_audio_caps E snd_format rate_code is_16 is_stereo f =
    (if FLVDEMUX_AUDIO_FORMAT_MP3 \<noteq> snd_format then
       Some (settle_caps E Audio_Stream \<lparr>caps_name = ''audio//unsupported'', caps_fields = []\<rparr> snd_format
         ''audio-codec'' ''Unsupported'' f)
     else
       let rate = (if rate_code = 0 then 5500 else if rate_code = 1 then 11025 else if rate_code = 2 then 22050
             else if rate_code = 3 then 44100 else 0);
           channels = (if is_stereo then 2 else 1)
       in Some (settle_caps E Audio_Stream \<lparr>caps_name = ''audio/mpeg'',
            caps_fields = [(''mpegversion'', Caps_Int 1), (''layer'', Caps_Int 3), (''framed'', Caps_Bool False),
              (''rate'', Caps_Int rate), (''channels'', Caps_Int channels)]\<rparr> snd_format
            ''audio-codec'' ''MPEG 1 Audio'' f))"

definition flv_video_mime_type :: "string list" where
  "flv_video_mime_type = replicate 4 ''video/unsupported'' @ [''video/x-vp6-flash'', ''video/x-vp6-alpha'']
     @ replicate 10 ''video/unsupported''"

definition flv_video_codec_name :: "string list" where
  "flv_video_codec_name = replicate 4 ''Unsupported'' @ [''On2 VP6 Video'', ''On2 VP6-Alpha Video'']
     @ replicate 10 ''Unsupported''"

definition flv_demux_negotiate_video_caps :: "gst_env \<Rightarrow> int \<Rightarrow> flv_demux \<Rightarrow> (bool \<times> flv_demux) option" where
  "flv_demux_negotiate_video_caps E codec f = do {
     mime_type \<leftarrow> rd flv_video_mime_type codec;
     codec_name \<leftarrow> rd flv_video_codec_name codec;
     let m = dx_metadata f;
     Some (settle_caps E Video_Stream \<lparr>caps_name = mime_type, caps_fields =
         (if md_width m \<noteq> 0 then [(''width'', Caps_Int (md_width m))] else []) @
         (if md_height m \<noteq> 0 then [(''height'', Caps_Int (md_height m))] else []) @
         (if \<not> dbl_zero (md_framerate m) then [(''framerate'', Caps_Fraction (env_framerate E (md_framerate m)) 100)] else []) @
         (if md_par_x m \<noteq> 0 \<and> md_par_y m \<noteq> 0
          then [(''pixel-aspect-ratio'', Caps_Fraction (md_par_x m) (md_par_y m))] else [])\<rparr> codec
       ''video-codec'' codec_name f)
   }"

text \<open>A new source pad: it stays away if the caps are refused.\<close>

definition create_pad ::
  "gst_env \<Rightarrow> stream \<Rightarrow> (flv_demux \<Rightarrow> (bool \<times> flv_demux) option) \<Rightarrow> flv_demux \<Rightarrow> (bool \<times> flv_demux) option" where
  "create_pad E S negotiate f = do {
     (ok, f) \<leftarrow> negotiate (set_out S (\<lambda>s. s\<lparr>os_src_pad := True\<rparr>) f);
     if \<not> ok then Some (False, set_out S (\<lambda>s. s\<lparr>os_src_pad := False\<rparr>) f)
     else case ask_bool E (Pad_Set_Active S) (tell (Pad_Use_Fixed_Caps S) f) of (ok, f) \<Rightarrow>
       if \<not> ok then Some (False, f)
       else case ask_bool E (Element_Add_Pad S) f of (ok, f) \<Rightarrow>
         if \<not> ok then Some (False, f)
         else Some (True, if os_src_pad (out (other S) f) \<or> \<not> has_stream (other S) f
                          then tell Element_No_More_Pads f else f)
   }"

section \<open>Packets\<close>

text \<open>The copy of a packet into the buffer allocated for it; \<^verbatim>\<open>(gint)size\<close> was asked for.\<close>

definition copy_packet :: "bytes \<Rightarrow> gsize \<Rightarrow> gsize \<Rightarrow> bytes option" where
  "copy_packet data off n = (if n \<le> i32 n then memcpy_out data off n else None)"

text \<open>The length of the last frame becomes the duration if it is the longest so far.\<close>

definition note_duration :: "int \<Rightarrow> out_stream \<Rightarrow> out_stream" where
  "note_duration now s =
    (let d = u64 (now - os_prev_timestamp s);
         s = (if os_prev_timestamp s \<noteq> GST_CLOCK_TIME_NONE \<and> \<not> os_discont s \<and>
                (os_frame_duration s = GST_CLOCK_TIME_NONE \<or> os_frame_duration s < d)
              then s\<lparr>os_frame_duration := d\<rparr> else s)
     in s\<lparr>os_prev_timestamp := now\<rparr>)"

definition new_segment_event :: "gst_segment \<Rightarrow> gst_event" where
  "new_segment_event s = Event_New_Segment False (seg_rate s) (seg_format s) (seg_last_stop s) (seg_stop s) (seg_time s)"

text \<open>
  The buffer of a packet: allocated, filled, stamped, and announced by a new segment after a discontinuity.
  No buffer is returned if the allocation is refused.
\<close>

definition fill_buffer :: "stream \<Rightarrow> bytes \<Rightarrow> bool \<Rightarrow> flv_demux \<Rightarrow> out_buffer \<times> flv_demux" where
  "fill_buffer S packet delta f =
    (let f = set_out S (\<lambda>s. note_duration (dx_current_timestamp f) (s\<lparr>os_linked := True\<rparr>)) f;
         s = out S f;
         buf = \<lparr>ob_data = packet, ob_timestamp = dx_current_timestamp f, ob_duration = os_frame_duration s,
           ob_offset = os_offset s, ob_offset_end = u32 (os_offset s + 1), ob_discont = os_discont s,
           ob_delta_unit = delta\<rparr>;
         f = set_out S (\<lambda>s. s\<lparr>os_offset := u32 (os_offset s + 1)\<rparr>) f;
         f = f\<lparr>dx_segment := gst_segment_set_last_stop (dx_segment f) GST_FORMAT_TIME (i64 (dx_current_timestamp f))\<rparr>
     in (buf, if os_discont s
         then set_out S (\<lambda>s. s\<lparr>os_discont := False\<rparr>) (tell (Pad_Push_Event S (new_segment_event (dx_segment f))) f)
         else f))"

definition make_buffer ::
  "gst_env \<Rightarrow> stream \<Rightarrow> bytes \<Rightarrow> gsize \<Rightarrow> gsize \<Rightarrow> bool \<Rightarrow> flv_demux \<Rightarrow> (int \<times> out_buffer option \<times> flv_demux) option" where
  "make_buffer E S data off n delta f =
    (case ask E (Pad_Alloc_Buffer S (i32 n)) f of (r, f) \<Rightarrow>
       if r \<noteq> GST_FLOW_OK then
         Some (r, None, if r = GST_FLOW_NOT_LINKED then set_out S (\<lambda>s. s\<lparr>os_linked := False\<rparr>) f else f)
       else do {
         packet \<leftarrow> copy_packet data off n;
         case fill_buffer S packet delta f of (buf, f) \<Rightarrow> Some (r, Some buf, f) })"

definition add_index :: "flv_demux \<Rightarrow> flv_demux" where
  "add_index f = f\<lparr>dx_keyframes := flv_demux_index_add_entry (dx_keyframes f) (dx_current_timestamp f) (dx_last_file_position f)\<rparr>"

text \<open>A tag whose encoding has no decoder is parsed, and warned of once.\<close>

definition skip_unsupported :: "stream \<Rightarrow> flv_demux \<Rightarrow> flv_demux" where
  "skip_unsupported S f =
    (let f = (if os_prev_timestamp (out S f) = GST_CLOCK_TIME_NONE then tell (Element_Warning S) f else f)
     in set_out S (\<lambda>s. s\<lparr>os_prev_timestamp := dx_current_timestamp f\<rparr>) f)"

definition push_buffer ::
  "gst_env \<Rightarrow> stream \<Rightarrow> bool \<Rightarrow> int \<times> out_buffer option \<times> flv_demux \<Rightarrow> int \<times> flv_demux" where
  "push_buffer E S indexed = (\<lambda>(r, b, f). case b of None \<Rightarrow> (r, f)
     | Some b \<Rightarrow> ask E (Pad_Push S b) (if indexed then add_index f else f))"

definition flv_demux_parse_audio_tag ::
  "gst_env \<Rightarrow> flv_demux \<Rightarrow> bytes \<Rightarrow> gsize \<Rightarrow> (int \<times> flv_demux) option" where
  "flv_demux_parse_audio_tag E f data n = do {
     (r, p, tag) \<leftarrow> flv_parser_read_audio_tag (dx_parser f) data n no_audio;
     let f = f\<lparr>dx_parser := p\<rparr>;
     let negotiate = flv_demux_negotiate_audio_caps E (sound_format tag) (sampling_rate tag) (is_16bit tag) (is_stereo_tag tag);
     if r \<noteq> FLV_PARSER_OK then Some (GST_FLOW_ERROR, f)
     else do {
       let f = f\<lparr>dx_has_audio := True\<rparr>;
       (ok, f) \<leftarrow> (if os_src_pad (dx_audio f) then Some (True, f) else create_pad E Audio_Stream negotiate f);
       if \<not> ok then Some (GST_FLOW_ERROR, f)
       else if FLVDEMUX_AUDIO_FORMAT_MP3 \<noteq> sound_format tag then Some (GST_FLOW_OK, skip_unsupported Audio_Stream f)
       else do {
         f \<leftarrow> (if os_format (dx_audio f) \<noteq> sound_format tag then map_option snd (negotiate f) else Some f);
         b \<leftarrow> make_buffer E Audio_Stream data (audio_packet_offset tag) (audio_packet_size tag) False f;
         Some (push_buffer E Audio_Stream (\<not> dx_has_video f) b) } }
   }"

definition flv_demux_parse_video_tag ::
  "gst_env \<Rightarrow> flv_demux \<Rightarrow> bytes \<Rightarrow> gsize \<Rightarrow> (int \<times> flv_demux) option" where
  "flv_demux_parse_video_tag E f data n = do {
     (r, p, tag) \<leftarrow> flv_parser_read_video_tag (dx_parser f) data n no_video;
     let f = f\<lparr>dx_parser := p\<rparr>;
     let negotiate = flv_demux_negotiate_video_caps E (codec_id tag);
     if r \<noteq> FLV_PARSER_OK then Some (GST_FLOW_ERROR, f)
     else do {
       let is_keyframe = (frame_type tag = 1);
       let f = f\<lparr>dx_has_video := True\<rparr>;
       let need_push_tags = (\<not> os_src_pad (dx_video f));
       (ok, f) \<leftarrow> (if os_src_pad (dx_video f) then Some (True, f) else create_pad E Video_Stream negotiate f);
       if \<not> ok then Some (GST_FLOW_ERROR, f)
       else if FLVDEMUX_VIDEO_FORMAT_VP6 \<noteq> codec_id tag \<and> FLVDEMUX_VIDEO_FORMAT_VP6_ALPHA \<noteq> codec_id tag
         then Some (GST_FLOW_OK, skip_unsupported Video_Stream f)
       else do {
         f \<leftarrow> (if os_format (dx_video f) \<noteq> codec_id tag then map_option snd (negotiate f) else Some f);
         let f = (if need_push_tags then found_tags f else f);
         b \<leftarrow> make_buffer E Video_Stream data (video_packet_offset tag) (video_packet_size tag) (\<not> is_keyframe) f;
         Some (push_buffer E Video_Stream is_keyframe b) } }
   }"

section \<open>Blocks\<close>

text \<open>The keyframes of the metadata go to the index once.\<close>

definition copy_keyframes :: "garray \<Rightarrow> keyframe list \<Rightarrow> keyframe list option" where
  "copy_keyframes metalist ks = cfor (ga_len metalist) (\<lambda>i ks. do {
     entry \<leftarrow> rd (ga_mem metalist) i;
     Some (flv_demux_index_add_entry ks (kf_time entry) (kf_fileposition entry)) }) ks"

definition take_metadata :: "bool \<Rightarrow> flv_demux \<Rightarrow> flv_demux option" where
  "take_metadata res f = do {
     let f = (if res then (case md_tag_list (dx_metadata f) of None \<Rightarrow> f
         | Some l \<Rightarrow> f\<lparr>dx_queued_tags := Some (case dx_queued_tags f of None \<Rightarrow> l | Some q \<Rightarrow> q @ l)\<rparr>) else f);
     case md_keyframes (dx_metadata f) of None \<Rightarrow> Some f
     | Some ga \<Rightarrow> if dx_copied_metadata_keyframes f then Some f
         else do {
           ks \<leftarrow> copy_keyframes ga (dx_keyframes f);
           Some (f\<lparr>dx_keyframes := ks, dx_copied_metadata_keyframes := True\<rparr>) } }"

definition flv_demux_parse_next_block ::
  "gst_env \<Rightarrow> flv_demux \<Rightarrow> bytes \<Rightarrow> gsize \<Rightarrow> (int \<times> flv_demux) option" where
  "flv_demux_parse_next_block E f data n = do {
     (result, f) \<leftarrow> (case fp_state (dx_parser f) of
       FLV_PARSER_EXPECT_HEADER \<Rightarrow> do {
         (r, p, header) \<leftarrow> flv_parser_read_header (dx_parser f) data n no_header;
         let f = f\<lparr>dx_parser := p\<rparr>;
         Some (if r = FLV_PARSER_OK
           then (GST_FLOW_OK, f\<lparr>dx_has_audio := has_audio_tags header, dx_has_video := has_video_tags header\<rparr>)
           else (GST_FLOW_ERROR, f)) }
     | FLV_PARSER_EXPECT_SKIP_BLOCK \<Rightarrow> do {
         (r, p) \<leftarrow> flv_parser_skip (dx_parser f) data n;
         Some (if r = FLV_PARSER_OK then GST_FLOW_OK else GST_FLOW_ERROR, f\<lparr>dx_parser := p\<rparr>) }
     | FLV_PARSER_EXPECT_TAG_PREFIX \<Rightarrow> do {
         let position = file_position (dx_parser f);
         (r, p, tag) \<leftarrow> flv_parser_read_tag_prefix (dx_parser f) data n no_prefix;
         let f = f\<lparr>dx_parser := p\<rparr>;
         Some (if r = FLV_PARSER_OK
           then (GST_FLOW_OK, f\<lparr>dx_current_timestamp := u64 (timestamp tag * GST_MSECOND), dx_last_file_position := position\<rparr>)
           else (GST_FLOW_ERROR, f)) }
     | FLV_PARSER_EXPECT_VIDEO_TAG_BODY \<Rightarrow> flv_demux_parse_video_tag E f data n
     | FLV_PARSER_EXPECT_AUDIO_TAG_BODY \<Rightarrow> flv_demux_parse_audio_tag E f data n
     | FLV_PARSER_EXPECT_SCRIPT_DATA_TAG_BODY \<Rightarrow> do {
         (r, p, reader) \<leftarrow> flv_parser_read_script_data_tag (dx_parser f) data n no_script;
         let f = f\<lparr>dx_parser := p\<rparr>;
         if r = FLV_PARSER_OK then do {
           (res, m) \<leftarrow> flv_script_data_read (env_conv E) data reader (dx_metadata f);
           f \<leftarrow> take_metadata res (f\<lparr>dx_metadata := m\<rparr>);
           Some (GST_FLOW_OK, f) }
         else Some (GST_FLOW_ERROR, f) }
     | FLV_PARSER_EOF \<Rightarrow> Some (GST_FLOW_ERROR, f));
     Some (result, if result = GST_FLOW_ERROR then tell Element_Error f else f)
   }"

section \<open>Push mode\<close>

definition gst_adapter_peek :: "bytes \<Rightarrow> int \<Rightarrow> bytes option" where
  "gst_adapter_peek adapter n =
    (if n = 0 \<or> int (length adapter) < n then None else Some (take (nat n) adapter))"

text \<open>One turn of the loop over complete blocks; the flag says whether to go on.\<close>

definition chain_step :: "gst_env \<Rightarrow> int \<times> bool \<times> flv_demux \<Rightarrow> (int \<times> bool \<times> flv_demux) option" where
  "chain_step E = (\<lambda>(result, go, f).
     let block_size = next_block_size (dx_parser f)
     in case gst_adapter_peek (dx_adapter f) (u32 block_size) of
          None \<Rightarrow> Some (result, go, f)
        | Some data \<Rightarrow> do {
            (result, f) \<leftarrow> flv_demux_parse_next_block E f data block_size;
            let f = f\<lparr>dx_adapter := drop (nat (u32 block_size)) (dx_adapter f)\<rparr>;
            Some (result, result = GST_FLOW_OK, f) })"

definition chain_ready :: "int \<times> bool \<times> flv_demux \<Rightarrow> bool" where
  "chain_ready = (\<lambda>(result, go, f). go \<and> next_block_size (dx_parser f) \<le> int (length (dx_adapter f)))"

definition parser_flush :: "int \<Rightarrow> flv_demux \<Rightarrow> flv_demux" where
  "parser_flush offset f = (if dx_need_parser_flush f
     then f\<lparr>dx_need_parser_flush := False, dx_adapter := [],
       dx_parser := (if offset \<noteq> 0 then snd (flv_parser_seek (dx_parser f) offset) else flv_parser_reset (dx_parser f))\<rparr>
     else f)"

definition flv_demux_chain :: "gst_env \<Rightarrow> bytes \<Rightarrow> int \<Rightarrow> flv_demux \<Rightarrow> (int \<times> flv_demux) option" where
  "flv_demux_chain E buf offset f = do {
     let f = parser_flush offset f;
     let f = f\<lparr>dx_adapter := dx_adapter f @ buf\<rparr>;
     (result, _, f) \<leftarrow> wloop chain_ready (chain_step E) (GST_FLOW_OK, True, f);
     Some (result, f)
   }"

section \<open>Events\<close>

text \<open>An event goes to the source pads there are; the answer is always TRUE.\<close>

definition flv_demux_push_src_event :: "gst_event \<Rightarrow> flv_demux \<Rightarrow> flv_demux" where
  "flv_demux_push_src_event ev f =
    (let f = (if os_src_pad (dx_audio f) then tell (Pad_Push_Event Audio_Stream ev) f else f)
     in if os_src_pad (dx_video f) then tell (Pad_Push_Event Video_Stream ev) f else f)"

definition discont :: "flv_demux \<Rightarrow> flv_demux" where
  "discont f = set_out Audio_Stream (\<lambda>s. s\<lparr>os_discont := True\<rparr>) (set_out Video_Stream (\<lambda>s. s\<lparr>os_discont := True\<rparr>) f)"

definition flv_demux_sink_event :: "gst_env \<Rightarrow> gst_event \<Rightarrow> flv_demux \<Rightarrow> bool \<times> flv_demux" where
  "flv_demux_sink_event E ev f = (case ev of
     Event_Flush_Start \<Rightarrow> (True, tell (Sink_Event_Default ev) (f\<lparr>dx_is_flushing := True\<rparr>))
   | Event_Flush_Stop \<Rightarrow> (True, tell (Sink_Event_Default ev) (f\<lparr>dx_is_flushing := False, dx_need_parser_flush := True\<rparr>))
   | Event_Eos \<Rightarrow> (True, flv_demux_push_src_event ev (tell Element_No_More_Pads f))
   | Event_Range_Ready \<Rightarrow> ask_bool E Task_Start f
   | Event_New_Segment update rate fmt start_at stop time \<Rightarrow>
       (True, discont (if fmt = GST_FORMAT_TIME
          then f\<lparr>dx_segment := gst_segment_set_newsegment (env_div_rate E) (dx_segment f) update rate fmt start_at stop time\<rparr>
          else f))
   | _ \<Rightarrow> (True, flv_demux_push_src_event ev f))"

definition flv_demux_change_state :: "bool \<Rightarrow> flv_demux \<Rightarrow> flv_demux" where
  "flv_demux_change_state ready_to_paused f = (if ready_to_paused
     then f\<lparr>dx_last_file_position := 0, dx_current_timestamp := 0, dx_need_parser_flush := True\<rparr> else f)"

section \<open>Pull mode\<close>

definition flv_demux_loop :: "gst_env \<Rightarrow> flv_demux \<Rightarrow> flv_demux option" where
  "flv_demux_loop E f =
    (case gst_pad_pull_range E (file_position (dx_parser f)) (u32 (next_block_size (dx_parser f))) f of
      (result, block, f) \<Rightarrow> do {
        (result, f) \<leftarrow> (if result = GST_FLOW_OK
           then flv_demux_parse_next_block E f block (int (length block)) else Some (result, f));
        Some (if result = GST_FLOW_OK then f
          else let f = tell Task_Pause f
            in if result = GST_FLOW_UNEXPECTED then flv_demux_push_src_event Event_Eos f else f) })"

definition flv_demux_sink_activate_pull :: "gst_env \<Rightarrow> bool \<Rightarrow> flv_demux \<Rightarrow> bool \<times> flv_demux" where
  "flv_demux_sink_activate_pull E active f =
    ask_bool E (if active then Task_Start else Task_Stop) (f\<lparr>dx_is_pulling := True\<rparr>)"

definition flv_demux_sink_activate_push :: "flv_demux \<Rightarrow> bool \<times> flv_demux" where
  "flv_demux_sink_activate_push f = (True, f\<lparr>dx_is_pulling := False\<rparr>)"

text \<open>One turn of the indexing loop, with the result if the function returns there.\<close>

definition indexing_step ::
  "gst_env \<Rightarrow> bool option \<times> int \<times> flv_parser \<times> flv_demux \<Rightarrow> (bool option \<times> int \<times> flv_parser \<times> flv_demux) option" where
  "indexing_step E = (\<lambda>(res, time, p, f).
     let pos = file_position p
     in case gst_pad_pull_range E pos (u32 (next_block_size p + 1)) f of (r, block, f) \<Rightarrow>
       if r \<noteq> GST_FLOW_OK then Some (Some False, time, p, f)
       else do {
         (r, p, tag) \<leftarrow> flv_parser_read_tag_prefix p block (int (length block)) no_prefix;
         if r \<noteq> FLV_PARSER_OK then Some (Some False, time, p, f)
         else do {
           let time = u64 (timestamp tag * GST_MSECOND);
           let indexed = f\<lparr>dx_keyframes := flv_demux_index_add_entry (dx_keyframes f) time pos\<rparr>;
           f \<leftarrow> (if tag_type tag = FLV_TAG_TYPE_VIDEO then do {
                frame_info \<leftarrow> READ_UINT8 block (parsed_block_size p);
                Some (if drop_bit 4 (frame_info AND 0xF0) = 1 then indexed else f) }
              else Some (if tag_type tag = FLV_TAG_TYPE_AUDIO \<and> \<not> dx_has_video f then indexed else f));
           let p = snd (flv_parser_seek p (u64 (file_position p + next_block_size p)));
           Some (None, time, p, f) } })"

definition flv_demux_do_indexing_pull :: "gst_env \<Rightarrow> int \<Rightarrow> int \<Rightarrow> flv_demux \<Rightarrow> (bool \<times> flv_demux) option" where
  "flv_demux_do_indexing_pull E indexFrom indexTo f = do {
     found \<leftarrow> flv_demux_index_lookup (dx_keyframes f) indexFrom;
     let (time, p) = (case found of None \<Rightarrow> (uninit E, flv_parser_init)
       | Some (time, pos) \<Rightarrow> (time, snd (flv_parser_seek flv_parser_init pos)));
     (res, _, _, f) \<leftarrow> wloop (\<lambda>(res, time, p, f). res = None \<and> time < indexTo) (indexing_step E) (None, time, p, f);
     Some (res = None, f)
   }"

text \<open>The position to seek to: nearest known keyframe, after indexing if that is more than five seconds back.\<close>

definition seek_position :: "gst_env \<Rightarrow> int \<Rightarrow> flv_demux \<Rightarrow> ((int \<times> int) \<times> flv_demux) option" where
  "seek_position E target f = do {
     found \<leftarrow> flv_demux_index_lookup (dx_keyframes f) target;
     let (time, pos) = (case found of None \<Rightarrow> (0, 0) | Some e \<Rightarrow> e);
     if 5 * GST_SECOND < u64 (target - time) then do {
       (_, f) \<leftarrow> flv_demux_do_indexing_pull E time target f;
       found \<leftarrow> flv_demux_index_lookup (dx_keyframes f) target;
       Some (case found of None \<Rightarrow> (time, pos) | Some e \<Rightarrow> e, f) }
     else Some ((time, pos), f)
   }"

definition keyframe_segment :: "bool \<Rightarrow> int \<Rightarrow> gst_segment \<Rightarrow> gst_segment" where
  "keyframe_segment keyframe time s = (if keyframe
     then (if time < u64 (seg_start s) then s\<lparr>seg_start := i64 time\<rparr> else s)\<lparr>seg_last_stop := i64 time\<rparr> else s)"

text \<open>The segment is taken over at the end of a seek.\<close>

definition take_segment :: "gst_segment \<Rightarrow> flv_demux \<Rightarrow> flv_demux" where
  "take_segment s f = discont (let f = f\<lparr>dx_segment := s\<rparr>
     in if seg_flags s AND 8 \<noteq> 0 then tell (Post_Segment_Start (seg_format s) (seg_last_stop s)) f else f)"

definition flv_demux_seek_pull ::
  "gst_env \<Rightarrow> dbl \<Rightarrow> int \<Rightarrow> int \<Rightarrow> seek_type \<Rightarrow> int \<Rightarrow> seek_type \<Rightarrow> int \<Rightarrow> flv_demux \<Rightarrow> (bool \<times> flv_demux) option" where
  "flv_demux_seek_pull E rate fmt flags start_type start_at stop_type stop f =
    (if fmt \<noteq> GST_FORMAT_TIME \<or> dbl_neg rate \<or> dbl_zero rate then Some (False, f)
     else do {
       let flush = (flags AND 1 \<noteq> 0);
       let keyframe = (flags AND 4 \<noteq> 0);
       let f = (if flush then tell (Sink_Push_Event Event_Flush_Stop)
             (flv_demux_push_src_event Event_Flush_Start (tell (Sink_Push_Event Event_Flush_Start) f)) else f);
       let s = gst_segment_set_seek (dx_segment f) rate fmt flags start_type start_at stop_type stop;
       (s, f) \<leftarrow> (if flush \<or> seg_last_stop s \<noteq> seg_last_stop (dx_segment f) then do {
           ((time, pos), f) \<leftarrow> seek_position E (u64 (seg_start s)) f;
           let f = f\<lparr>dx_parser := (if pos \<noteq> 0 then snd (flv_parser_seek (dx_parser f) pos) else flv_parser_reset (dx_parser f))\<rparr>;
           Some (keyframe_segment keyframe time s, f) }
         else Some (s, f));
       let f = (if flush then flv_demux_push_src_event Event_Flush_Stop f else f);
       Some (True, tell Task_Start (take_segment s f)) })"

definition flv_demux_seek_push ::
  "gst_env \<Rightarrow> dbl \<Rightarrow> int \<Rightarrow> int \<Rightarrow> seek_type \<Rightarrow> int \<Rightarrow> seek_type \<Rightarrow> int \<Rightarrow> flv_demux \<Rightarrow> (bool \<times> flv_demux) option" where
  "flv_demux_seek_push E rate fmt flags start_type start_at stop_type stop f =
    (if fmt \<noteq> GST_FORMAT_TIME \<or> dbl_neg rate \<or> dbl_zero rate then Some (False, f)
     else do {
       let flush = (flags AND 1 \<noteq> 0);
       let keyframe = (flags AND 4 \<noteq> 0);
       let s = gst_segment_set_seek (dx_segment f) rate fmt flags start_type start_at stop_type stop;
       (res, s, f) \<leftarrow> (if flush \<or> seg_last_stop s \<noteq> seg_last_stop (dx_segment f) then do {
           found \<leftarrow> flv_demux_index_lookup (dx_keyframes f) (u64 (seg_start s));
           let (time, pos) = (case found of None \<Rightarrow> (0, 0) | Some e \<Rightarrow> e);
           let s = keyframe_segment keyframe time s;
           let ev = Event_Seek (seg_rate s) GST_FORMAT_BYTES 3 GST_SEEK_TYPE_SET (i64 pos) GST_SEEK_TYPE_NONE 0;
           case ask_bool E (Sink_Push_Event ev) (f\<lparr>dx_need_parser_flush := True\<rparr>) of (res, f) \<Rightarrow> Some (res, s, f) }
         else Some (True, s, f));
       Some (res, if res then take_segment s f else f) })"

definition flv_demux_src_event :: "gst_env \<Rightarrow> gst_event \<Rightarrow> flv_demux \<Rightarrow> (bool \<times> flv_demux) option" where
  "flv_demux_src_event E ev f = (case ev of
     Event_Seek rate fmt flags start_type start_at stop_type stop \<Rightarrow>
       if dx_is_pulling f then flv_demux_seek_pull E rate fmt flags start_type start_at stop_type stop f
       else flv_demux_seek_push E rate fmt flags start_type start_at stop_type stop f
   | _ \<Rightarrow> Some (ask_bool E (Sink_Push_Event ev) f))"

end
