(* ===== verification/Demux_Inv.thy ===== *)
theory Demux_Inv
  imports Flv_Demux
begin

text \<open>
  What every operation of the demuxer keeps: the order of the keyframe index, a parser that asks for at
  least four bytes, a keyframe array as long as it says, and the protocol of the output streams. The
  entry points are the steps of a transition system, and the invariant holds in its reachable states.
\<close>

section \<open>Access to the record\<close>

lemma out_set_out [simp]: "out S (set_out T g f) = (if S = T then g (out S f) else out S f)"
  by (cases S; cases T) simp_all

lemma set_out_fields [simp]:
  "dx_calls (set_out S g f) = dx_calls f" "dx_parser (set_out S g f) = dx_parser f"
  "dx_keyframes (set_out S g f) = dx_keyframes f" "dx_metadata (set_out S g f) = dx_metadata f"
  "dx_adapter (set_out S g f) = dx_adapter f" "dx_current_timestamp (set_out S g f) = dx_current_timestamp f"
  "dx_last_file_position (set_out S g f) = dx_last_file_position f" "dx_has_video (set_out S g f) = dx_has_video f"
  "dx_has_audio (set_out S g f) = dx_has_audio f" "dx_segment (set_out S g f) = dx_segment f"
  "dx_copied_metadata_keyframes (set_out S g f) = dx_copied_metadata_keyframes f"
  "dx_queued_tags (set_out S g f) = dx_queued_tags f" "has_stream T (set_out S g f) = has_stream T f"
  by (cases S; cases T; simp)+

lemma tell_fields [simp]:
  "dx_calls (tell c f) = dx_calls f @ [c]" "dx_parser (tell c f) = dx_parser f"
  "dx_keyframes (tell c f) = dx_keyframes f" "dx_metadata (tell c f) = dx_metadata f"
  "dx_adapter (tell c f) = dx_adapter f" "dx_current_timestamp (tell c f) = dx_current_timestamp f"
  "dx_last_file_position (tell c f) = dx_last_file_position f" "dx_has_video (tell c f) = dx_has_video f"
  "dx_has_audio (tell c f) = dx_has_audio f" "dx_segment (tell c f) = dx_segment f"
  "dx_copied_metadata_keyframes (tell c f) = dx_copied_metadata_keyframes f"
  "dx_queued_tags (tell c f) = dx_queued_tags f" "has_stream T (tell c f) = has_stream T f"
  "out S (tell c f) = out S f" "dx_audio (tell c f) = dx_audio f" "dx_video (tell c f) = dx_video f"
  by (cases S; cases T; simp add: tell_def)+

lemma out_fields [simp]:
  "out S (f\<lparr>dx_adapter := a\<rparr>) = out S f" "out S (f\<lparr>dx_parser := p\<rparr>) = out S f"
  "out S (f\<lparr>dx_keyframes := k\<rparr>) = out S f" "out S (f\<lparr>dx_metadata := m\<rparr>) = out S f"
  "out S (f\<lparr>dx_has_audio := b\<rparr>) = out S f" "out S (f\<lparr>dx_has_video := b\<rparr>) = out S f"
  "out S (f\<lparr>dx_segment := s\<rparr>) = out S f" "out S (f\<lparr>dx_queued_tags := q\<rparr>) = out S f"
  "out S (f\<lparr>dx_current_timestamp := t\<rparr>) = out S f" "out S (f\<lparr>dx_last_file_position := t\<rparr>) = out S f"
  "out S (f\<lparr>dx_copied_metadata_keyframes := b\<rparr>) = out S f" "out S (f\<lparr>dx_is_pulling := b\<rparr>) = out S f"
  "out S (f\<lparr>dx_need_parser_flush := b\<rparr>) = out S f" "out S (f\<lparr>dx_is_flushing := b\<rparr>) = out S f"
  by (cases S; simp)+

lemma out_stream_names: "dx_audio f = out Audio_Stream f" "dx_video f = out Video_Stream f"
  by simp_all

section \<open>The protocol of an output stream\<close>

primrec pushes :: "stream \<Rightarrow> gst_call list \<Rightarrow> out_buffer list" where
  "pushes S [] = []"
| "pushes S (c # cs) = (case c of Pad_Push T b \<Rightarrow> if T = S then b # pushes S cs else pushes S cs | _ \<Rightarrow> pushes S cs)"

lemma pushes_append [simp]: "pushes S (cs @ ds) = pushes S cs @ pushes S ds"
  by (induction cs) (simp_all split: gst_call.split)

text \<open>A discontinuity is announced by a new segment on the same pad, directly before the buffer.\<close>

fun announces :: "gst_call option \<Rightarrow> gst_call \<Rightarrow> bool" where
  "announces prev (Pad_Push S b) \<longleftrightarrow>
    (ob_discont b \<longrightarrow> (case prev of Some (Pad_Push_Event T (Event_New_Segment _ _ _ _ _ _)) \<Rightarrow> T = S | _ \<Rightarrow> False))"
| "announces prev _ \<longleftrightarrow> True"

primrec announced :: "gst_call option \<Rightarrow> gst_call list \<Rightarrow> bool" where
  "announced prev [] \<longleftrightarrow> True"
| "announced prev (c # cs) \<longleftrightarrow> announces prev c \<and> announced (Some c) cs"

lemma announced_append:
  "announced prev (cs @ [c]) \<longleftrightarrow> announced prev cs \<and> announces (if cs = [] then prev else Some (last cs)) c"
  by (induction cs arbitrary: prev) auto

definition stream_ok :: "stream \<Rightarrow> flv_demux \<Rightarrow> bool" where
  "stream_ok S f \<longleftrightarrow> (let bs = pushes S (dx_calls f) in
     List.map ob_offset bs = List.map (\<lambda>i. u32 (int i)) [0..<length bs] \<and>
     List.map ob_offset_end bs = List.map (\<lambda>i. u32 (int i + 1)) [0..<length bs] \<and>
     os_offset (out S f) = u32 (int (length bs)) \<and>
     (if bs = [] then os_discont (out S f) else ob_discont (hd bs)))"

definition parser_safe :: "flv_parser \<Rightarrow> bool" where
  "parser_safe p \<longleftrightarrow> 4 \<le> next_block_size p \<and> next_block_size p < 4294967296"

definition meta_safe :: "flv_metadata \<Rightarrow> bool" where
  "meta_safe m \<longleftrightarrow> (case md_keyframes m of None \<Rightarrow> True | Some ga \<Rightarrow> ga_ok ga)"

definition dx_inv :: "flv_demux \<Rightarrow> bool" where
  "dx_inv f \<longleftrightarrow> index_wf (dx_keyframes f) \<and> parser_safe (dx_parser f)
     \<and> announced None (dx_calls f) \<and> (\<forall>S. stream_ok S f)"

text \<open>A change is silent if it leaves the log alone except for calls that push nothing.\<close>

definition quiet :: "gst_call \<Rightarrow> bool" where
  "quiet c \<longleftrightarrow> (\<forall>S b. c \<noteq> Pad_Push S b)"

lemma quiet_simps [simp]:
  "quiet (Pad_Set_Caps S c)" "quiet (Pad_Use_Fixed_Caps S)" "quiet (Pad_Set_Active S)" "quiet (Element_Add_Pad S)"
  "quiet Element_No_More_Pads" "quiet (Element_Found_Tags l)" "quiet Element_Error" "quiet (Element_Warning S)"
  "quiet (Pad_Alloc_Buffer S n)" "quiet (Pad_Push_Event S ev)" "quiet (Sink_Push_Event ev)" "quiet (Sink_Event_Default ev)"
  "quiet (Post_Segment_Start x y)" "quiet Task_Start" "quiet Task_Pause" "quiet Task_Stop" "quiet (Pull_Range x y)"
  by (simp_all add: quiet_def)

lemma quiet_pushes [simp]: "quiet c \<Longrightarrow> pushes S [c] = []"
  by (cases c) (auto simp: quiet_def)

lemma stream_ok_cong:
  assumes "pushes S (dx_calls g) = pushes S (dx_calls f)" "os_offset (out S g) = os_offset (out S f)"
    "os_discont (out S f) \<longrightarrow> os_discont (out S g)"
  shows "stream_ok S f \<Longrightarrow> stream_ok S g"
  using assms by (simp add: stream_ok_def Let_def split: if_splits)

lemma inv_tell [intro!]: "dx_inv f \<Longrightarrow> quiet c \<Longrightarrow> dx_inv (tell c f)"
proof -
  assume i: "dx_inv f" and q: "quiet c"
  have "stream_ok S (tell c f)" for S
    by (rule stream_ok_cong [where f = f]) (use i q in \<open>simp_all add: dx_inv_def del: pushes.simps\<close>)
  moreover have "announces prev c" for prev using q by (cases c) (auto simp: quiet_def)
  ultimately show ?thesis using i by (simp add: dx_inv_def announced_append)
qed

text \<open>\<open>same_out\<close>: what a change of the runtime information must leave.\<close>

lemma inv_set_out [intro!]:
  assumes "dx_inv f" "os_offset (g (out S f)) = os_offset (out S f)" "os_discont (out S f) \<longrightarrow> os_discont (g (out S f))"
  shows "dx_inv (set_out S g f)"
proof -
  have "stream_ok T (set_out S g f)" for T
    by (rule stream_ok_cong [where f = f]) (use assms in \<open>simp_all add: dx_inv_def\<close>)
  then show ?thesis using assms(1) by (simp add: dx_inv_def)
qed

lemma stream_ok_fields [simp]:
  "stream_ok S (f\<lparr>dx_adapter := a\<rparr>) = stream_ok S f" "stream_ok S (f\<lparr>dx_parser := p\<rparr>) = stream_ok S f"
  "stream_ok S (f\<lparr>dx_keyframes := k\<rparr>) = stream_ok S f" "stream_ok S (f\<lparr>dx_metadata := m\<rparr>) = stream_ok S f"
  "stream_ok S (f\<lparr>dx_has_audio := b\<rparr>) = stream_ok S f" "stream_ok S (f\<lparr>dx_has_video := b\<rparr>) = stream_ok S f"
  "stream_ok S (f\<lparr>dx_segment := s\<rparr>) = stream_ok S f" "stream_ok S (f\<lparr>dx_queued_tags := q\<rparr>) = stream_ok S f"
  "stream_ok S (f\<lparr>dx_current_timestamp := t\<rparr>) = stream_ok S f" "stream_ok S (f\<lparr>dx_last_file_position := t\<rparr>) = stream_ok S f"
  "stream_ok S (f\<lparr>dx_copied_metadata_keyframes := b\<rparr>) = stream_ok S f" "stream_ok S (f\<lparr>dx_is_pulling := b\<rparr>) = stream_ok S f"
  "stream_ok S (f\<lparr>dx_need_parser_flush := b\<rparr>) = stream_ok S f" "stream_ok S (f\<lparr>dx_is_flushing := b\<rparr>) = stream_ok S f"
  by (simp_all add: stream_ok_def)

lemma inv_fields [simp]:
  "dx_inv (f\<lparr>dx_adapter := a\<rparr>) = dx_inv f" "dx_inv (f\<lparr>dx_metadata := m\<rparr>) = dx_inv f"
  "dx_inv (f\<lparr>dx_has_audio := b\<rparr>) = dx_inv f" "dx_inv (f\<lparr>dx_has_video := b\<rparr>) = dx_inv f"
  "dx_inv (f\<lparr>dx_segment := s\<rparr>) = dx_inv f" "dx_inv (f\<lparr>dx_queued_tags := q\<rparr>) = dx_inv f"
  "dx_inv (f\<lparr>dx_current_timestamp := t\<rparr>) = dx_inv f" "dx_inv (f\<lparr>dx_last_file_position := t\<rparr>) = dx_inv f"
  "dx_inv (f\<lparr>dx_copied_metadata_keyframes := b\<rparr>) = dx_inv f" "dx_inv (f\<lparr>dx_is_pulling := b\<rparr>) = dx_inv f"
  "dx_inv (f\<lparr>dx_need_parser_flush := b\<rparr>) = dx_inv f" "dx_inv (f\<lparr>dx_is_flushing := b\<rparr>) = dx_inv f"
  by (simp_all add: dx_inv_def)

lemma inv_parser [intro!]: "dx_inv f \<Longrightarrow> parser_safe p \<Longrightarrow> dx_inv (f\<lparr>dx_parser := p\<rparr>)"
  by (simp add: dx_inv_def)

lemma inv_keyframes [intro!]: "dx_inv f \<Longrightarrow> index_wf k \<Longrightarrow> dx_inv (f\<lparr>dx_keyframes := k\<rparr>)"
  by (simp add: dx_inv_def)

lemma dx_invD: "dx_inv f \<Longrightarrow> index_wf (dx_keyframes f)" "dx_inv f \<Longrightarrow> parser_safe (dx_parser f)"
  by (simp_all add: dx_inv_def)

lemma out_init [simp]: "out S flv_demux_init = out_stream_init"
  by (cases S) (simp_all add: flv_demux_init_def)

lemma inv_init: "dx_inv flv_demux_init"
  unfolding dx_inv_def stream_ok_def out_init
  by (simp add: flv_demux_init_def parser_safe_def flv_parser_init_def out_stream_init_def)

section \<open>Changes that push nothing\<close>

text \<open>\<open>calm\<close>: only pads, caps, tags, the segment and the log change, and the log only by calls that push nothing.\<close>

definition calm :: "flv_demux \<Rightarrow> flv_demux \<Rightarrow> bool" where
  "calm f g \<longleftrightarrow> dx_adapter g = dx_adapter f \<and> dx_parser g = dx_parser f \<and> dx_metadata g = dx_metadata f
     \<and> dx_keyframes g = dx_keyframes f \<and> dx_current_timestamp g = dx_current_timestamp f
     \<and> dx_last_file_position g = dx_last_file_position f \<and> dx_has_video g = dx_has_video f
     \<and> dx_has_audio g = dx_has_audio f \<and> dx_copied_metadata_keyframes g = dx_copied_metadata_keyframes f
     \<and> (\<forall>S. pushes S (dx_calls g) = pushes S (dx_calls f) \<and> os_offset (out S g) = os_offset (out S f)
          \<and> os_discont (out S g) = os_discont (out S f))
     \<and> (announced None (dx_calls f) \<longrightarrow> announced None (dx_calls g))"

lemma calm_refl [simp, intro]: "calm f f" by (simp add: calm_def)

lemma calm_trans [trans]: "calm f g \<Longrightarrow> calm g h \<Longrightarrow> calm f h" by (simp add: calm_def)

lemma calm_inv:
  assumes "dx_inv f" "calm f g"
  shows "dx_inv g"
proof -
  have "stream_ok S g" for S
    by (rule stream_ok_cong [where f = f]) (use assms in \<open>simp_all add: dx_inv_def calm_def\<close>)
  then show ?thesis using assms by (simp add: dx_inv_def calm_def)
qed

lemma announces_quiet: "quiet c \<Longrightarrow> announces prev c" by (cases c) (auto simp: quiet_def)

lemma calm_tell [intro!]: "quiet c \<Longrightarrow> calm f g \<Longrightarrow> calm f (tell c g)"
  by (simp add: calm_def announced_append announces_quiet del: pushes.simps)

lemma calm_set_out [intro!]:
  "os_offset (h (out S g)) = os_offset (out S g) \<Longrightarrow> os_discont (h (out S g)) = os_discont (out S g) \<Longrightarrow>
    calm f g \<Longrightarrow> calm f (set_out S h g)"
  by (simp add: calm_def)

lemma calm_fields [simp]:
  "calm f (g\<lparr>dx_queued_tags := q\<rparr>) = calm f g" "calm f (g\<lparr>dx_segment := s\<rparr>) = calm f g"
  "calm f (g\<lparr>dx_is_flushing := b\<rparr>) = calm f g" "calm f (g\<lparr>dx_is_pulling := b\<rparr>) = calm f g"
  "calm f (g\<lparr>dx_need_parser_flush := b\<rparr>) = calm f g"
  by (simp_all add: calm_def)

lemma calm_found_tags [intro!]: "calm f g \<Longrightarrow> calm f (found_tags g)"
  by (auto simp: found_tags_def split: option.split)

lemma calm_ask [intro!]: "quiet c \<Longrightarrow> calm f g \<Longrightarrow> calm f (snd (ask E c g))" "quiet c \<Longrightarrow> calm f g \<Longrightarrow> calm f (snd (ask_bool E c g))"
  by (auto simp: ask_def ask_bool_def)

lemma calm_push_src_event [intro!]: "calm f g \<Longrightarrow> calm f (flv_demux_push_src_event ev g)"
  by (auto simp: flv_demux_push_src_event_def Let_def)

lemma calm_settle_caps: "calm f (snd (settle_caps E S caps fmt tag codec f))"
  unfolding settle_caps_def ask_bool_def by (auto simp: Let_def intro!: calm_tell calm_set_out calm_found_tags)

lemma calm_skip_unsupported: "calm f (skip_unsupported S f)"
  by (auto simp: skip_unsupported_def Let_def)

section \<open>Negotiation\<close>

text \<open>Peers that accept caps, pads, allocations and buffers.\<close>

definition obliging :: "gst_env \<Rightarrow> bool" where
  "obliging E \<longleftrightarrow> (\<forall>l S n. answer E l (Pad_Alloc_Buffer S n) = GST_FLOW_OK) \<and> (\<forall>l S b. answer E l (Pad_Push S b) = GST_FLOW_OK)
     \<and> (\<forall>l S c. answer E l (Pad_Set_Caps S c) \<noteq> 0) \<and> (\<forall>l S. answer E l (Pad_Set_Active S) \<noteq> 0)
     \<and> (\<forall>l S. answer E l (Element_Add_Pad S) \<noteq> 0)"

lemma obliging_simps [simp]:
  assumes "obliging E"
  shows "answer E l (Pad_Alloc_Buffer S n) = GST_FLOW_OK" "answer E l (Pad_Push S b) = GST_FLOW_OK"
    "answer E l (Pad_Set_Caps S c) \<noteq> 0" "answer E l (Pad_Set_Active S) \<noteq> 0" "answer E l (Element_Add_Pad S) \<noteq> 0"
  using assms by (simp_all add: obliging_def)

lemma settle_caps_calm [simp]:
  "\<exists>b g. settle_caps E S caps fmt tag codec f = (b, g) \<and> calm f g \<and> (obliging E \<longrightarrow> b)"
proof -
  have "obliging E \<Longrightarrow> fst (settle_caps E S caps fmt tag codec f)"
    by (simp add: settle_caps_def ask_bool_def Let_def)
  then show ?thesis using calm_settle_caps [of f E S caps fmt tag codec] by (metis prod.collapse)
qed

text \<open>Both negotiations are defined and calm.\<close>

lemma negotiate_audio: "\<exists>b g. flv_demux_negotiate_audio_caps E fmt rate is_16 st f = Some (b, g) \<and> calm f g \<and> (obliging E \<longrightarrow> b)"
  by (simp add: flv_demux_negotiate_audio_caps_def Let_def)

lemma negotiate_video:
  assumes "0 \<le> codec" "codec < 16"
  shows "\<exists>b g. flv_demux_negotiate_video_caps E codec f = Some (b, g) \<and> calm f g \<and> (obliging E \<longrightarrow> b)"
proof -
  have "rd flv_video_mime_type codec = Some (flv_video_mime_type ! nat codec)"
    "rd flv_video_codec_name codec = Some (flv_video_codec_name ! nat codec)"
    using assms by (intro rd_in; simp add: flv_video_mime_type_def flv_video_codec_name_def)+
  then show ?thesis
    by (simp add: flv_demux_negotiate_video_caps_def Let_def)
qed

lemma create_pad_calm:
  assumes "\<And>f. \<exists>b g. negotiate f = Some (b, g) \<and> calm f g \<and> (obliging E \<longrightarrow> b)"
  shows "\<exists>b g. create_pad E S negotiate f = Some (b, g) \<and> calm f g \<and> (obliging E \<longrightarrow> b)"
proof -
  let ?f = "set_out S (\<lambda>s. s\<lparr>os_src_pad := True\<rparr>) f"
  obtain b g where g: "negotiate ?f = Some (b, g)" "calm ?f g" "obliging E \<longrightarrow> b" using assms by blast
  have "calm f ?f" by (intro calm_set_out) auto
  then have "calm f g" using g(2) calm_trans by blast
  let ?n = "set_out S (\<lambda>s. s\<lparr>os_src_pad := False\<rparr>) g" and ?a = "tell (Pad_Use_Fixed_Caps S) g"
  let ?b = "tell (Pad_Set_Active S) ?a"
  let ?c = "tell (Element_Add_Pad S) ?b"
  have c: "calm f ?n" "calm f ?b" "calm f ?c" "calm f (tell Element_No_More_Pads ?c)"
    using \<open>calm f g\<close> by (intro calm_set_out calm_tell; simp)+
  consider "\<not> b" | "b" "answer E (dx_calls ?a) (Pad_Set_Active S) = 0"
    | "b" "answer E (dx_calls ?a) (Pad_Set_Active S) \<noteq> 0" "answer E (dx_calls ?b) (Element_Add_Pad S) = 0"
    | "b" "answer E (dx_calls ?a) (Pad_Set_Active S) \<noteq> 0" "answer E (dx_calls ?b) (Element_Add_Pad S) \<noteq> 0" by blast
  then show ?thesis
  proof cases
    case 1
    then have "create_pad E S negotiate f = Some (False, ?n)" unfolding create_pad_def g(1) by simp
    with c(1) g(3) 1 show ?thesis by blast
  next
    case 2
    then have "create_pad E S negotiate f = Some (False, ?b)" unfolding create_pad_def g(1) ask_bool_def by simp
    with c(2) 2 show ?thesis using obliging_simps(4) by blast
  next
    case 3
    then have "create_pad E S negotiate f = Some (False, ?c)" unfolding create_pad_def g(1) ask_bool_def by simp
    with c(3) 3 show ?thesis using obliging_simps(5) by blast
  next
    case 4
    then have "create_pad E S negotiate f = Some (True, ?c)
        \<or> create_pad E S negotiate f = Some (True, tell Element_No_More_Pads ?c)"
      unfolding create_pad_def g(1) ask_bool_def by simp
    with c(3,4) show ?thesis by blast
  qed
qed

section \<open>Packets\<close>

text \<open>\<open>sent\<close>: exactly one buffer goes out on one pad, and the index may get an entry.\<close>

definition sent :: "stream \<Rightarrow> out_buffer \<Rightarrow> bool \<Rightarrow> flv_demux \<Rightarrow> flv_demux \<Rightarrow> bool" where
  "sent S b indexed f g \<longleftrightarrow> dx_adapter g = dx_adapter f \<and> dx_parser g = dx_parser f \<and> dx_metadata g = dx_metadata f
     \<and> dx_keyframes g = (if indexed then flv_demux_index_add_entry (dx_keyframes f) (dx_current_timestamp f) (dx_last_file_position f)
          else dx_keyframes f)
     \<and> dx_current_timestamp g = dx_current_timestamp f \<and> dx_last_file_position g = dx_last_file_position f
     \<and> dx_has_video g = dx_has_video f \<and> dx_has_audio g = dx_has_audio f
     \<and> dx_copied_metadata_keyframes g = dx_copied_metadata_keyframes f
     \<and> pushes S (dx_calls g) = pushes S (dx_calls f) @ [b] \<and> ob_timestamp b = dx_current_timestamp f
     \<and> ob_offset b = os_offset (out S f) \<and> ob_offset_end b = u32 (os_offset (out S f) + 1)
     \<and> ob_discont b = os_discont (out S f) \<and> os_offset (out S g) = u32 (os_offset (out S f) + 1)
     \<and> (\<forall>T. T \<noteq> S \<longrightarrow> pushes T (dx_calls g) = pushes T (dx_calls f) \<and> os_offset (out T g) = os_offset (out T f)
          \<and> os_discont (out T g) = os_discont (out T f))
     \<and> (announced None (dx_calls f) \<longrightarrow> announced None (dx_calls g))"

lemma calm_sent: "calm f g \<Longrightarrow> sent S b ix g h \<Longrightarrow> sent S b ix f h"
  by (simp add: calm_def sent_def)

lemma u32_Suc: "u32 (u32 x + 1) = u32 (x + 1)" "u32 (1 + u32 x) = u32 (1 + x)"
  by (simp_all add: u32_def mod_simps)

lemma sent_inv:
  assumes "dx_inv f" "sent S b ix f g"
  shows "dx_inv g"
proof -
  let ?bs = "pushes S (dx_calls f)"
  have f: "stream_ok S f" using assms(1) by (simp add: dx_inv_def)
  have "stream_ok S g"
    using f assms(2) by (cases "?bs = []") (simp_all add: stream_ok_def sent_def Let_def u32_Suc add.commute [of _ 1])
  moreover have "stream_ok T g" if "T \<noteq> S" for T
    by (rule stream_ok_cong [where f = f]) (use assms that in \<open>simp_all add: dx_inv_def sent_def\<close>)
  ultimately have "stream_ok T g" for T by (cases "T = S") simp_all
  then show ?thesis using assms add_entry_wf by (simp add: dx_inv_def sent_def)
qed

text \<open>Filling and pushing a buffer.\<close>

lemma fill_push:
  assumes "fill_buffer S packet delta f = (b, g)"
  shows "sent S b ix f (snd (push_buffer E S ix (r, Some b, g)))" "ob_data b = packet" "ob_delta_unit b = delta"
proof -
  let ?s = "note_duration (dx_current_timestamp f) ((out S f)\<lparr>os_linked := True\<rparr>)"
  have n: "os_offset ?s = os_offset (out S f)" "os_discont ?s = os_discont (out S f)"
    by (simp_all add: note_duration_def Let_def)
  show "ob_data b = packet" "ob_delta_unit b = delta" using assms by (auto simp: fill_buffer_def Let_def split: if_splits)
  show "sent S b ix f (snd (push_buffer E S ix (r, Some b, g)))"
  proof (cases "os_discont (out S f)")
    case True
    with assms n show ?thesis
      by (auto simp: fill_buffer_def Let_def sent_def push_buffer_def ask_def add_index_def announced_append new_segment_event_def)
  next
    case False
    with assms n show ?thesis
      by (auto simp: fill_buffer_def Let_def sent_def push_buffer_def ask_def add_index_def announced_append)
  qed
qed

text \<open>Making and pushing a buffer: refused by the allocation, or sent.\<close>

lemma send_packet:
  assumes "copy_packet data off n = Some packet"
  shows "\<exists>o' r g. make_buffer E S data off n delta f = Some o' \<and> push_buffer E S ix o' = (r, g)
    \<and> (calm f g \<or> (\<exists>b. sent S b ix f g \<and> ob_data b = packet \<and> ob_delta_unit b = delta))
    \<and> (obliging E \<longrightarrow> r = GST_FLOW_OK \<and> (\<exists>b. sent S b ix f g \<and> ob_data b = packet \<and> ob_delta_unit b = delta))"
proof (cases "answer E (dx_calls f) (Pad_Alloc_Buffer S (i32 n)) = GST_FLOW_OK")
  case True
  let ?f = "tell (Pad_Alloc_Buffer S (i32 n)) f"
  obtain b g where b: "fill_buffer S packet delta ?f = (b, g)" by (cases "fill_buffer S packet delta ?f")
  have s: "sent S b ix f (snd (push_buffer E S ix (GST_FLOW_OK, Some b, g)))" "ob_data b = packet" "ob_delta_unit b = delta"
    using calm_sent [OF _ fill_push(1) [OF b, of ix E]] fill_push(2,3) [OF b] by (auto simp: calm_tell)
  have "fst (push_buffer E S ix (GST_FLOW_OK, Some b, g)) = GST_FLOW_OK" if "obliging E"
    using that by (simp add: push_buffer_def ask_def)
  moreover have "make_buffer E S data off n delta f = Some (GST_FLOW_OK, Some b, g)"
    using True assms b by (simp add: make_buffer_def ask_def)
  ultimately show ?thesis using s by (metis prod.collapse)
next
  case False
  then have "\<not> obliging E" by auto
  with False show ?thesis
    by (auto simp: make_buffer_def ask_def push_buffer_def)
qed

section \<open>Tags\<close>

definition delivered :: "stream \<Rightarrow> bytes \<Rightarrow> bool \<Rightarrow> bool \<Rightarrow> flv_demux \<Rightarrow> flv_demux \<Rightarrow> bool" where
  "delivered S packet delta ix f g \<longleftrightarrow> (\<exists>b. sent S b ix f g \<and> ob_data b = packet \<and> ob_delta_unit b = delta)"

text \<open>
  What both tag functions come to after the parser accepted the tag: they stop before the packet, or
  they make and push its buffer; either way everything before is calm.
\<close>

definition tag_stage ::
  "gst_env \<Rightarrow> stream \<Rightarrow> bool \<Rightarrow> bytes \<Rightarrow> gsize \<Rightarrow> gsize \<Rightarrow> bool \<Rightarrow> bool \<Rightarrow> flv_demux \<Rightarrow> (int \<times> flv_demux) option \<Rightarrow> bool" where
  "tag_stage E S supported data off n delta ix f res \<longleftrightarrow> (\<exists>g. calm f g \<and>
     ((\<exists>r. res = Some (r, g) \<and> (obliging E \<longrightarrow> \<not> supported \<and> r = GST_FLOW_OK)) \<or>
      (supported \<and> res = map_option (push_buffer E S ix) (make_buffer E S data off n delta g))))"

definition handled ::
  "gst_env \<Rightarrow> stream \<Rightarrow> bool \<Rightarrow> bytes \<Rightarrow> bool \<Rightarrow> bool \<Rightarrow> flv_demux \<Rightarrow> (int \<times> flv_demux) option \<Rightarrow> bool" where
  "handled E S supported packet delta ix f res \<longleftrightarrow> (\<exists>r g. res = Some (r, g) \<and>
     (calm f g \<or> delivered S packet delta ix f g) \<and>
     (obliging E \<longrightarrow> r = GST_FLOW_OK \<and> (if supported then delivered S packet delta ix f g else calm f g)))"

lemma stage_handled:
  assumes "tag_stage E S supported data off n delta ix f res" "supported \<Longrightarrow> copy_packet data off n = Some packet"
  shows "handled E S supported packet delta ix f res"
proof -
  obtain g where g: "calm f g" "(\<exists>r. res = Some (r, g) \<and> (obliging E \<longrightarrow> \<not> supported \<and> r = GST_FLOW_OK)) \<or>
      (supported \<and> res = map_option (push_buffer E S ix) (make_buffer E S data off n delta g))"
    using assms(1) unfolding tag_stage_def by blast
  show ?thesis
  proof (cases "\<exists>r. res = Some (r, g) \<and> (obliging E \<longrightarrow> \<not> supported \<and> r = GST_FLOW_OK)")
    case True
    with g(1) show ?thesis by (auto simp: handled_def)
  next
    case False
    then have sup: "supported" and res: "res = map_option (push_buffer E S ix) (make_buffer E S data off n delta g)"
      using g(2) by auto
    obtain o' r h where "make_buffer E S data off n delta g = Some o'" "push_buffer E S ix o' = (r, h)"
      "calm g h \<or> delivered S packet delta ix g h" "obliging E \<longrightarrow> r = GST_FLOW_OK \<and> delivered S packet delta ix g h"
      using send_packet [OF assms(2) [OF sup], of E S delta g ix] unfolding delivered_def by blast
    then show ?thesis
      using res sup calm_trans [OF g(1)] calm_sent [OF g(1)] unfolding handled_def delivered_def by fastforce
  qed
qed

lemma stage_inv:
  assumes "tag_stage E S supported data off n delta ix f (Some (r, g))" "dx_inv f"
  shows "dx_inv g"
proof -
  obtain h where h: "calm f h" "g = h \<or> Some (r, g) = map_option (push_buffer E S ix) (make_buffer E S data off n delta h)"
    using assms(1) unfolding tag_stage_def by blast
  have ih: "dx_inv h" by (rule calm_inv [OF assms(2) h(1)])
  show ?thesis
  proof (cases "copy_packet data off n")
    case None
    with h(2) have "calm h g"
      by (auto simp: make_buffer_def ask_def push_buffer_def split: if_splits)
    with ih show ?thesis by (rule calm_inv)
  next
    case (Some packet)
    from send_packet [OF this, of E S delta h ix] h(2) show ?thesis
      using calm_inv [OF ih] sent_inv [OF ih] ih by auto
  qed
qed

lemma audio_stage:
  assumes "flv_parser_read_audio_tag (dx_parser f) data n no_audio = Some (FLV_PARSER_OK, p, tag)"
  shows "tag_stage E Audio_Stream (sound_format tag = FLVDEMUX_AUDIO_FORMAT_MP3) data (audio_packet_offset tag)
    (audio_packet_size tag) False (\<not> dx_has_video f) (f\<lparr>dx_parser := p, dx_has_audio := True\<rparr>)
    (flv_demux_parse_audio_tag E f data n)"
proof -
  let ?f = "f\<lparr>dx_parser := p, dx_has_audio := True\<rparr>"
  let ?neg = "flv_demux_negotiate_audio_caps E (sound_format tag) (sampling_rate tag) (is_16bit tag) (is_stereo_tag tag)"
  have "\<exists>ok g. (if os_src_pad (dx_audio ?f) then Some (True, ?f) else create_pad E Audio_Stream ?neg ?f) = Some (ok, g)
      \<and> calm ?f g \<and> (obliging E \<longrightarrow> ok)"
    using create_pad_calm [of ?neg E Audio_Stream ?f] negotiate_audio by auto
  then obtain ok g where g: "(if os_src_pad (dx_audio ?f) then Some (True, ?f) else create_pad E Audio_Stream ?neg ?f) = Some (ok, g)"
      "calm ?f g" "obliging E \<longrightarrow> ok" by blast
  have hv: "dx_has_video h = dx_has_video f" if "calm ?f h" for h using that by (simp add: calm_def)
  obtain b h where h: "?neg g = Some (b, h)" "calm g h" using negotiate_audio by blast
  have gh: "calm ?f h" by (rule calm_trans [OF g(2) h(2)])
  have eq: "flv_demux_parse_audio_tag E f data n =
      (if \<not> ok then Some (GST_FLOW_ERROR, g)
       else if FLVDEMUX_AUDIO_FORMAT_MP3 \<noteq> sound_format tag then Some (GST_FLOW_OK, skip_unsupported Audio_Stream g)
       else map_option (push_buffer E Audio_Stream (\<not> dx_has_video f))
         (make_buffer E Audio_Stream data (audio_packet_offset tag) (audio_packet_size tag) False
           (if os_format (dx_audio g) \<noteq> sound_format tag then h else g)))"
    unfolding flv_demux_parse_audio_tag_def assms Option.bind.simps prod.case Let_def g(1) h(1)
    using hv [OF g(2)] hv [OF gh] h(1) by (simp add: map_conv_bind_option comp_def)
  consider "\<not> ok" | "ok" "sound_format tag \<noteq> 2" | "ok" "sound_format tag = 2" by blast
  then show ?thesis
  proof cases
    case 1
    with eq g(2,3) show ?thesis unfolding tag_stage_def by auto
  next
    case 2
    with eq calm_trans [OF g(2) calm_skip_unsupported] show ?thesis unfolding tag_stage_def by auto
  next
    case 3
    with eq g(2) gh show ?thesis unfolding tag_stage_def by (auto split: if_splits)
  qed
qed

lemma video_codec_range:
  assumes "flv_parser_read_video_tag p data n t = Some (FLV_PARSER_OK, p', tag)"
  shows "0 \<le> codec_id tag" "codec_id tag < 16"
proof -
  obtain x where "rd flv_video_codec_data_size (codec_id tag) = Some x"
    using assms by (auto simp: flv_parser_read_video_tag_def bind_eq_Some_conv Let_def split: if_splits)
  then show "0 \<le> codec_id tag" "codec_id tag < 16"
    by (auto simp: rd_def in_arr_def flv_video_codec_data_size_def split: if_splits)
qed

definition vp6 :: "int \<Rightarrow> bool" where
  "vp6 codec \<longleftrightarrow> codec = FLVDEMUX_VIDEO_FORMAT_VP6 \<or> codec = FLVDEMUX_VIDEO_FORMAT_VP6_ALPHA"

lemma video_stage:
  assumes "flv_parser_read_video_tag (dx_parser f) data n no_video = Some (FLV_PARSER_OK, p, tag)"
  shows "tag_stage E Video_Stream (vp6 (codec_id tag)) data (video_packet_offset tag) (video_packet_size tag)
    (frame_type tag \<noteq> 1) (frame_type tag = 1) (f\<lparr>dx_parser := p, dx_has_video := True\<rparr>)
    (flv_demux_parse_video_tag E f data n)"
proof -
  let ?f = "f\<lparr>dx_parser := p, dx_has_video := True\<rparr>"
  let ?neg = "flv_demux_negotiate_video_caps E (codec_id tag)"
  note neg = negotiate_video [OF video_codec_range [OF assms]]
  have "\<exists>ok g. (if os_src_pad (dx_video ?f) then Some (True, ?f) else create_pad E Video_Stream ?neg ?f) = Some (ok, g)
      \<and> calm ?f g \<and> (obliging E \<longrightarrow> ok)"
    using create_pad_calm [of ?neg E Video_Stream ?f] neg by auto
  then obtain ok g where g: "(if os_src_pad (dx_video ?f) then Some (True, ?f) else create_pad E Video_Stream ?neg ?f) = Some (ok, g)"
      "calm ?f g" "obliging E \<longrightarrow> ok" by blast
  obtain b h where h: "?neg g = Some (b, h)" "calm g h" using neg by blast
  let ?h = "if os_format (dx_video g) \<noteq> codec_id tag then h else g"
  let ?k = "if \<not> os_src_pad (dx_video f) then found_tags ?h else ?h"
  have gk: "calm ?f ?k" using g(2) calm_trans [OF g(2) h(2)] by auto
  have eq: "flv_demux_parse_video_tag E f data n =
      (if \<not> ok then Some (GST_FLOW_ERROR, g)
       else if \<not> vp6 (codec_id tag) then Some (GST_FLOW_OK, skip_unsupported Video_Stream g)
       else map_option (push_buffer E Video_Stream (frame_type tag = 1))
         (make_buffer E Video_Stream data (video_packet_offset tag) (video_packet_size tag) (frame_type tag \<noteq> 1) ?k))"
    unfolding flv_demux_parse_video_tag_def assms Option.bind.simps prod.case Let_def g(1) h(1)
    using h(1) by (simp add: map_conv_bind_option comp_def vp6_def)
  consider "\<not> ok" | "ok" "\<not> vp6 (codec_id tag)" | "ok" "vp6 (codec_id tag)" by blast
  then show ?thesis
  proof cases
    case 1
    with eq g(2,3) show ?thesis unfolding tag_stage_def by auto
  next
    case 2
    with eq calm_trans [OF g(2) calm_skip_unsupported] show ?thesis unfolding tag_stage_def by auto
  next
    case 3
    with eq gk show ?thesis unfolding tag_stage_def by (intro exI [of _ ?k]) simp
  qed
qed

section \<open>The parser under the demuxer\<close>

text \<open>Every operation of the parser, accepted or not, leaves it asking for at least four bytes.\<close>

lemma READ_UINT8_range: "READ_UINT8 buf i = Some v \<Longrightarrow> 0 \<le> v \<and> v < 256"
  using uint_byte by (auto simp: READ_UINT8_def)

lemma READ_UINT16_range: "READ_UINT16_BE buf i = Some v \<Longrightarrow> 0 \<le> v \<and> v < 65536"
  by (auto simp: READ_UINT16_BE_def bind_eq_Some_conv dest!: READ_UINT8_range)

lemma READ_UINT24_range: "READ_UINT24_BE buf i = Some v \<Longrightarrow> 0 \<le> v \<and> v < 16777216"
  by (auto simp: READ_UINT24_BE_def bind_eq_Some_conv dest!: READ_UINT8_range READ_UINT16_range)

lemma READ_UINT32_range: "READ_UINT32_BE buf i = Some v \<Longrightarrow> 0 \<le> v \<and> v < 4294967296"
  by (auto simp: READ_UINT32_BE_def bind_eq_Some_conv dest!: READ_UINT16_range)

lemma next_tag_safe [simp]: "parser_safe (next_tag p)"
  by (simp add: parser_safe_def next_tag_def)

lemma seek_safe [simp]: "parser_safe (snd (flv_parser_seek p pos))" "parser_safe (flv_parser_reset p)" "parser_safe flv_parser_init"
  by (simp_all add: parser_safe_def flv_parser_seek_def flv_parser_reset_def flv_parser_init_def)

lemma read_header_safe:
  "flv_parser_read_header p buf n h = Some (r, p', h') \<Longrightarrow> parser_safe p \<Longrightarrow> parser_safe p'"
  by (auto simp: flv_parser_read_header_def bind_eq_Some_conv Let_def parser_safe_def dest!: READ_UINT32_range split: if_splits)

lemma read_prefix_safe:
  "flv_parser_read_tag_prefix p buf n t = Some (r, p', t') \<Longrightarrow> parser_safe p \<Longrightarrow> parser_safe p'"
  by (auto simp: flv_parser_read_tag_prefix_def bind_eq_Some_conv Let_def parser_safe_def
      dest!: READ_UINT24_range split: if_splits)

lemma body_safe:
  "flv_parser_skip p buf n = Some (r, p') \<Longrightarrow> parser_safe p \<Longrightarrow> parser_safe p'"
  "flv_parser_read_audio_tag p buf n a = Some (r, p', a') \<Longrightarrow> parser_safe p \<Longrightarrow> parser_safe p'"
  "flv_parser_read_video_tag p buf n v = Some (r, p', v') \<Longrightarrow> parser_safe p \<Longrightarrow> parser_safe p'"
  "flv_parser_read_script_data_tag p buf n s = Some (r, p', s') \<Longrightarrow> parser_safe p \<Longrightarrow> parser_safe p'"
  by (auto simp: flv_parser_skip_def flv_parser_read_audio_tag_def flv_parser_read_video_tag_def
      flv_parser_read_script_data_tag_def bind_eq_Some_conv Let_def split: if_splits)

lemma parse_audio_inv:
  assumes "flv_demux_parse_audio_tag E f data n = Some (r, g)" "dx_inv f"
  shows "dx_inv g"
proof -
  obtain k p tag where k: "flv_parser_read_audio_tag (dx_parser f) data n no_audio = Some (k, p, tag)"
    using assms(1) by (auto simp: flv_demux_parse_audio_tag_def bind_eq_Some_conv)
  then have p: "parser_safe p" using body_safe(2) assms(2) dx_invD by blast
  show ?thesis
  proof (cases "k = FLV_PARSER_OK")
    case True
    from stage_inv [of E Audio_Stream] audio_stage [of f data n p tag E] k True assms p show ?thesis by fastforce
  next
    case False
    with k p assms show ?thesis by (auto simp: flv_demux_parse_audio_tag_def)
  qed
qed

lemma parse_video_inv:
  assumes "flv_demux_parse_video_tag E f data n = Some (r, g)" "dx_inv f"
  shows "dx_inv g"
proof -
  obtain k p tag where k: "flv_parser_read_video_tag (dx_parser f) data n no_video = Some (k, p, tag)"
    using assms(1) by (auto simp: flv_demux_parse_video_tag_def bind_eq_Some_conv)
  then have p: "parser_safe p" using body_safe(3) assms(2) dx_invD by blast
  show ?thesis
  proof (cases "k = FLV_PARSER_OK")
    case True
    from stage_inv [of E Video_Stream] video_stage [of f data n p tag E] k True assms p show ?thesis by fastforce
  next
    case False
    with k p assms show ?thesis by (auto simp: flv_demux_parse_video_tag_def)
  qed
qed

section \<open>Blocks and entry points\<close>

lemma copy_keyframes_wf:
  assumes "copy_keyframes ga ks = Some ks'" "index_wf ks"
  shows "index_wf ks'"
  using assms unfolding copy_keyframes_def
  by (rule cfor_invariant [where I = index_wf]) (auto simp: bind_eq_Some_conv add_entry_wf)

lemma take_metadata_inv: "take_metadata res f = Some g \<Longrightarrow> dx_inv f \<Longrightarrow> dx_inv g"
  using copy_keyframes_wf
  by (auto simp: take_metadata_def Let_def bind_eq_Some_conv dx_invD split: option.splits if_splits)

lemma block_inv:
  assumes "flv_demux_parse_next_block E f data n = Some (r, g)" "dx_inv f"
  shows "dx_inv g"
proof -
  have p: "parser_safe (dx_parser f)" using assms(2) by (rule dx_invD)
  show ?thesis
  proof (cases "fp_state (dx_parser f)")
    case FLV_PARSER_EXPECT_HEADER
    with assms p show ?thesis
      by (auto simp: flv_demux_parse_next_block_def bind_eq_Some_conv Let_def dest!: read_header_safe split: if_splits)
  next
    case FLV_PARSER_EXPECT_SKIP_BLOCK
    with assms p show ?thesis
      by (auto simp: flv_demux_parse_next_block_def bind_eq_Some_conv dest!: body_safe(1) split: if_splits)
  next
    case FLV_PARSER_EXPECT_TAG_PREFIX
    with assms p show ?thesis
      by (auto simp: flv_demux_parse_next_block_def bind_eq_Some_conv Let_def dest!: read_prefix_safe split: if_splits)
  next
    case FLV_PARSER_EXPECT_AUDIO_TAG_BODY
    with assms show ?thesis
      by (auto simp: flv_demux_parse_next_block_def bind_eq_Some_conv dest!: parse_audio_inv split: if_splits)
  next
    case FLV_PARSER_EXPECT_VIDEO_TAG_BODY
    with assms show ?thesis
      by (auto simp: flv_demux_parse_next_block_def bind_eq_Some_conv dest!: parse_video_inv split: if_splits)
  next
    case FLV_PARSER_EXPECT_SCRIPT_DATA_TAG_BODY
    with assms p show ?thesis
      by (auto simp: flv_demux_parse_next_block_def bind_eq_Some_conv Let_def dest!: body_safe(4) split: if_splits
          elim!: take_metadata_inv)
  next
    case FLV_PARSER_EOF
    with assms show ?thesis by (auto simp: flv_demux_parse_next_block_def)
  qed
qed

lemma chain_inv:
  assumes "flv_demux_chain E buf off f = Some (r, g)" "dx_inv f"
  shows "dx_inv g"
proof -
  let ?f = "parser_flush off f"
  have f: "dx_inv (?f\<lparr>dx_adapter := dx_adapter ?f @ buf\<rparr>)"
    using assms(2) by (auto simp: parser_flush_def)
  obtain go where "wloop chain_ready (chain_step E) (GST_FLOW_OK, True, ?f\<lparr>dx_adapter := dx_adapter ?f @ buf\<rparr>) = Some (r, go, g)"
    using assms(1) by (auto simp: flv_demux_chain_def bind_eq_Some_conv Let_def)
  from wloop_invariant(1) [OF this, of "\<lambda>(r, go, f). dx_inv f"] f show ?thesis
    by (fastforce simp: chain_step_def Let_def bind_eq_Some_conv dest: block_inv split: option.splits)
qed

lemma inv_push_src_event [intro!]: "dx_inv f \<Longrightarrow> dx_inv (flv_demux_push_src_event ev f)"
  by (erule calm_inv) auto

lemma inv_discont [intro!]: "dx_inv f \<Longrightarrow> dx_inv (discont f)"
  unfolding discont_def by (intro inv_set_out) (simp_all del: set_out.simps)

lemma inv_take_segment [intro!]: "dx_inv f \<Longrightarrow> dx_inv (take_segment s f)"
  by (auto simp: take_segment_def Let_def)

lemma inv_ask [simp]: "quiet c \<Longrightarrow> dx_inv f \<Longrightarrow> ask_bool E c f = (b, g) \<Longrightarrow> dx_inv g"
  by (auto simp: ask_bool_def)

lemma inv_pull: "gst_pad_pull_range E pos n f = (r, block, g) \<Longrightarrow> dx_inv f \<Longrightarrow> dx_inv g"
  by (auto simp: gst_pad_pull_range_def)

lemma sink_event_inv: "flv_demux_sink_event E ev f = (b, g) \<Longrightarrow> dx_inv f \<Longrightarrow> dx_inv g"
  by (cases ev) (auto simp: flv_demux_sink_event_def ask_bool_def)

lemma loop_inv: "flv_demux_loop E f = Some g \<Longrightarrow> dx_inv f \<Longrightarrow> dx_inv g"
  by (auto simp: flv_demux_loop_def bind_eq_Some_conv Let_def dest!: inv_pull dest: block_inv split: prod.splits if_splits)

lemma indexing_step_inv:
  "indexing_step E (res, time, p, f) = Some (res', time', p', g) \<Longrightarrow> dx_inv f \<Longrightarrow> dx_inv g"
  by (auto simp: indexing_step_def Let_def bind_eq_Some_conv dest!: inv_pull split: prod.splits if_splits
      intro!: add_entry_wf dest: dx_invD)

lemma indexing_inv:
  assumes "flv_demux_do_indexing_pull E from to f = Some (b, g)" "dx_inv f"
  shows "dx_inv g"
proof -
  obtain s r t p where "wloop (\<lambda>(res, time, p, f). res = None \<and> time < to) (indexing_step E) s = Some (r, t, p, g)"
      "snd (snd (snd s)) = f"
    using assms(1) by (auto simp: flv_demux_do_indexing_pull_def bind_eq_Some_conv Let_def split: option.splits)
  from wloop_invariant(1) [OF this(1), of "\<lambda>(res, time, p, f). dx_inv f"] this(2) assms(2) indexing_step_inv
  show ?thesis by (fastforce split: prod.splits)
qed

lemma seek_position_cases:
  assumes "seek_position E target f = Some (e, g)"
  shows "g = f \<or> (\<exists>t b. flv_demux_do_indexing_pull E t target f = Some (b, g))"
proof -
  obtain found where found: "flv_demux_index_lookup (dx_keyframes f) target = Some found"
    using assms by (auto simp: seek_position_def bind_eq_Some_conv)
  obtain t p where tp: "(case found of None \<Rightarrow> (0, 0) | Some e \<Rightarrow> e) = (t, p)" by fastforce
  show ?thesis
    using assms unfolding seek_position_def found Option.bind.simps Let_def tp prod.case
    by (auto simp: bind_eq_Some_conv split: if_splits)
qed

lemma seek_position_inv: "seek_position E target f = Some (e, g) \<Longrightarrow> dx_inv f \<Longrightarrow> dx_inv g"
  using seek_position_cases indexing_inv by blast

lemma seek_pull_inv:
  assumes "flv_demux_seek_pull E rate fmt flags st a sp b f = Some (r, g)" "dx_inv f"
  shows "dx_inv g"
  using assms
  by (auto simp: flv_demux_seek_pull_def bind_eq_Some_conv Let_def split: if_splits dest!: seek_position_inv)

lemma seek_push_inv:
  assumes "flv_demux_seek_push E rate fmt flags st a sp b f = Some (r, g)" "dx_inv f"
  shows "dx_inv g"
  using assms
  by (auto simp: flv_demux_seek_push_def bind_eq_Some_conv Let_def ask_bool_def split: if_splits prod.splits option.splits)

lemma src_event_inv: "flv_demux_src_event E ev f = Some (b, g) \<Longrightarrow> dx_inv f \<Longrightarrow> dx_inv g"
  by (cases ev) (auto simp: flv_demux_src_event_def ask_bool_def split: if_splits dest: seek_pull_inv seek_push_inv)

section \<open>The transition system\<close>

datatype demux_action = Act_Chain bytes int | Act_Sink_Event gst_event | Act_Src_Event gst_event | Act_Loop
  | Act_Change_State bool | Act_Activate_Pull bool | Act_Activate_Push

definition demux_act :: "gst_env \<Rightarrow> demux_action \<Rightarrow> flv_demux \<Rightarrow> flv_demux option" where
  "demux_act E a f = (case a of
     Act_Chain buf off \<Rightarrow> map_option snd (flv_demux_chain E buf off f)
   | Act_Sink_Event ev \<Rightarrow> Some (snd (flv_demux_sink_event E ev f))
   | Act_Src_Event ev \<Rightarrow> map_option snd (flv_demux_src_event E ev f)
   | Act_Loop \<Rightarrow> flv_demux_loop E f
   | Act_Change_State b \<Rightarrow> Some (flv_demux_change_state b f)
   | Act_Activate_Pull b \<Rightarrow> Some (snd (flv_demux_sink_activate_pull E b f))
   | Act_Activate_Push \<Rightarrow> Some (snd (flv_demux_sink_activate_push f)))"

inductive reached :: "gst_env \<Rightarrow> flv_demux \<Rightarrow> bool" for E where
  initial: "reached E flv_demux_init"
| action: "reached E f \<Longrightarrow> demux_act E a f = Some g \<Longrightarrow> reached E g"

lemma act_inv: "demux_act E a f = Some g \<Longrightarrow> dx_inv f \<Longrightarrow> dx_inv g"
  by (cases a)
    (auto simp: demux_act_def flv_demux_change_state_def flv_demux_sink_activate_pull_def ask_bool_def
      flv_demux_sink_activate_push_def dest: chain_inv src_event_inv loop_inv intro: sink_event_inv [OF prod.collapse [symmetric]])

lemma reached_inv: "reached E f \<Longrightarrow> dx_inv f"
  by (induction rule: reached.induct) (auto intro: inv_init act_inv)

end
