(* ===== verification/Demux_File.thy ===== *)
theory Demux_File
  imports Demux_Inv
begin

text \<open>
  The demuxer on whole files: between obliging peers every supported packet of a well-formed file comes
  out once, in order, unchanged and with its time, and every key frame enters the index.
\<close>

section \<open>One block\<close>

abbreviation (input) chain_loop :: "gst_env \<Rightarrow> int \<times> bool \<times> flv_demux \<Rightarrow> (int \<times> bool \<times> flv_demux) option" where
  "chain_loop E \<equiv> wloop chain_ready (chain_step E)"

lemma chain_one:
  assumes "dx_adapter f = blk @ rest" "int (length blk) = next_block_size (dx_parser f)" "parser_safe (dx_parser f)"
    and "flv_demux_parse_next_block E f blk (int (length blk)) = Some (GST_FLOW_OK, g)" "dx_adapter g = dx_adapter f"
  shows "chain_loop E (r, True, f) = chain_loop E (GST_FLOW_OK, True, g\<lparr>dx_adapter := rest\<rparr>)"
proof (rule wloop_step)
  show "chain_ready (r, True, f)" using assms(1,2) by (simp add: chain_ready_def)
  have n: "u32 (next_block_size (dx_parser f)) = int (length blk)" "0 < int (length blk)"
    using assms(2,3) by (auto simp: parser_safe_def)
  show "chain_step E (r, True, f) = Some (GST_FLOW_OK, True, g\<lparr>dx_adapter := rest\<rparr>)"
    using assms n by (simp add: chain_step_def gst_adapter_peek_def Let_def)
qed

section \<open>What a tag should give\<close>

definition media_time :: "flv_item \<Rightarrow> int" where "media_time it = u64 (item_time it * GST_MSECOND)"

fun payload :: "stream \<Rightarrow> flv_item \<Rightarrow> (int \<times> bytes \<times> bool) list" where
  "payload Audio_Stream (Audio_Item ts fmt rate b16 st extra packet) =
    (if fmt = FLVDEMUX_AUDIO_FORMAT_MP3 then [(u64 (ts * GST_MSECOND), packet, False)] else [])"
| "payload Video_Stream (Video_Item ts frame codec extra packet) =
    (if vp6 codec then [(u64 (ts * GST_MSECOND), packet, frame \<noteq> 1)] else [])"
| "payload S it = []"

fun key_frame :: "flv_item \<Rightarrow> bool" where
  "key_frame (Video_Item ts frame codec extra packet) \<longleftrightarrow> vp6 codec \<and> frame = 1"
| "key_frame it \<longleftrightarrow> False"

text \<open>The tags that may enter the index: key frames, and audio in a file without video.\<close>

fun may_index :: "flv_item \<Rightarrow> bool" where
  "may_index (Audio_Item ts fmt rate b16 st extra packet) \<longleftrightarrow> fmt = FLVDEMUX_AUDIO_FORMAT_MP3"
| "may_index it \<longleftrightarrow> key_frame it"

text \<open>The keyframes the metadata lists.\<close>

definition listed :: "flv_demux \<Rightarrow> keyframe set" where
  "listed f = (case md_keyframes (dx_metadata f) of None \<Rightarrow> {} | Some ga \<Rightarrow> set (take (nat (ga_len ga)) (ga_mem ga)))"

fun is_script :: "flv_item \<Rightarrow> bool" where
  "is_script (Script_Item ts body) \<longleftrightarrow> True"
| "is_script it \<longleftrightarrow> False"

text \<open>A script tag whose keyframe arrays agree.\<close>

fun script_ok :: "flv_item \<Rightarrow> bool" where
  "script_ok (Script_Item ts body) \<longleftrightarrow> counts_ok (body @ tag_suffix (Script_Item ts body)) (int (length body))"
| "script_ok it \<longleftrightarrow> True"

definition payloads :: "stream \<Rightarrow> flv_demux \<Rightarrow> (int \<times> bytes \<times> bool) list" where
  "payloads S f = List.map (\<lambda>b. (ob_timestamp b, ob_data b, ob_delta_unit b)) (pushes S (dx_calls f))"

lemma calm_payloads: "calm f g \<Longrightarrow> payloads S g = payloads S f"
  by (simp add: calm_def payloads_def)

lemma delivered_payloads:
  "delivered S packet delta ix f g \<Longrightarrow>
    payloads T g = payloads T f @ (if T = S then [(dx_current_timestamp f, packet, delta)] else [])"
  by (auto simp: delivered_def sent_def payloads_def)

text \<open>The state between two tags, and the effect of one tag on it.\<close>

definition between :: "flv_demux \<Rightarrow> bool" where
  "between f \<longleftrightarrow> dx_inv f \<and> meta_safe (dx_metadata f) \<and> fp_state (dx_parser f) = FLV_PARSER_EXPECT_TAG_PREFIX
     \<and> next_block_size (dx_parser f) = 11"

definition tag_effect :: "flv_item \<Rightarrow> flv_demux \<Rightarrow> flv_demux \<Rightarrow> bool" where
  "tag_effect it f g \<longleftrightarrow> (\<forall>S. payloads S g = payloads S f @ payload S it)
     \<and> times (dx_keyframes f) \<subseteq> times (dx_keyframes g)
     \<and> (key_frame it \<longrightarrow> media_time it \<in> times (dx_keyframes g))
     \<and> set (dx_keyframes g) \<subseteq> set (dx_keyframes f) \<union> listed g
         \<union> (if may_index it then {\<lparr>kf_time = media_time it, kf_fileposition = file_position (dx_parser f)\<rparr>} else {})
     \<and> listed f \<subseteq> listed g \<and> (\<not> is_script it \<longrightarrow> listed g = listed f)
     \<and> file_position (dx_parser g) = u64 (file_position (dx_parser f) + int (length (encode_item it)))"

lemma add_entry_times: "times (flv_demux_index_add_entry ks t p) = insert t (times ks)"
  by (auto simp: times_def add_entry_set)

lemma copy_packet_at:
  assumes "length packet < 2147483648"
  shows "copy_packet (xs @ packet @ ys) (int (length xs)) (int (length packet)) = Some packet"
  using assms by (simp add: copy_packet_def memcpy_out_def i32_id)

text \<open>The prefix of a tag.\<close>

lemma demux_prefix:
  assumes "item_ok it" "fp_state (dx_parser f) = FLV_PARSER_EXPECT_TAG_PREFIX"
  shows "\<exists>q. flv_demux_parse_next_block E f (tag_prefix it) 11 = Some (GST_FLOW_OK,
      f\<lparr>dx_parser := q, dx_current_timestamp := media_time it, dx_last_file_position := file_position (dx_parser f)\<rparr>)
    \<and> next_block_size q = int (length (item_body it)) + 4 \<and> file_position q = u64 (file_position (dx_parser f) + 11)
    \<and> fp_state q = (case it of Audio_Item _ _ _ _ _ _ _ \<Rightarrow> FLV_PARSER_EXPECT_AUDIO_TAG_BODY
         | Video_Item _ _ _ _ _ \<Rightarrow> FLV_PARSER_EXPECT_VIDEO_TAG_BODY
         | Script_Item _ _ \<Rightarrow> FLV_PARSER_EXPECT_SCRIPT_DATA_TAG_BODY)"
proof -
  let ?q = "(dx_parser f)\<lparr>parsed_block_size := 11, file_position := u64 (file_position (dx_parser f) + 11),
       next_block_size := int (length (item_body it)) + 4,
       fp_state := (case it of Audio_Item _ _ _ _ _ _ _ \<Rightarrow> FLV_PARSER_EXPECT_AUDIO_TAG_BODY
         | Video_Item _ _ _ _ _ \<Rightarrow> FLV_PARSER_EXPECT_VIDEO_TAG_BODY
         | Script_Item _ _ \<Rightarrow> FLV_PARSER_EXPECT_SCRIPT_DATA_TAG_BODY)\<rparr>"
  show ?thesis
    using read_prefix_encoded [OF assms] assms(2)
    by (intro exI [of _ ?q]) (simp add: flv_demux_parse_next_block_def media_time_def Let_def)
qed

text \<open>The body of a tag.\<close>

lemma demux_audio_body:
  assumes "item_ok it" "it = Audio_Item ts fmt rate b16 st extra packet"
    and "fp_state (dx_parser f) = FLV_PARSER_EXPECT_AUDIO_TAG_BODY" "next_block_size (dx_parser f) = int (length (item_body it)) + 4"
  shows "\<exists>ix f'. handled E Audio_Stream (fmt = FLVDEMUX_AUDIO_FORMAT_MP3) packet False ix f'
      (flv_demux_parse_audio_tag E f (item_body it @ tag_suffix it) (int (length (item_body it @ tag_suffix it))))
    \<and> f' = f\<lparr>dx_parser := next_tag (dx_parser f), dx_has_audio := True\<rparr>"
proof -
  let ?d = "item_body it @ tag_suffix it"
  let ?tag = "\<lparr>sound_format = fmt, sampling_rate = rate, is_16bit = b16, is_stereo_tag = st,
         audio_packet_offset = 1 + int (length extra), audio_packet_size = int (length packet)\<rparr>"
  have "flv_parser_read_audio_tag (dx_parser f) ?d (int (length ?d)) no_audio
      = Some (FLV_PARSER_OK, next_tag (dx_parser f), ?tag)"
    using parse_body_encoded [OF assms(1,4)] assms(2,3) by (auto simp: parse_block_def Let_def)
  note st = audio_stage [OF this, of E]
  have "length packet < 16777216" using assms(1,2) by (simp add: item_ok_def)
  then have "copy_packet ?d (1 + int (length extra)) (int (length packet)) = Some packet"
    using copy_packet_at [of packet "octet (fmt * 16 + rate * 4 + of_bool b16 * 2 + of_bool st) # extra" "tag_suffix it"] assms(2)
    by simp
  then show ?thesis using stage_handled [OF st] by auto
qed

lemma demux_video_body:
  assumes "item_ok it" "it = Video_Item ts frame codec extra packet"
    and "fp_state (dx_parser f) = FLV_PARSER_EXPECT_VIDEO_TAG_BODY" "next_block_size (dx_parser f) = int (length (item_body it)) + 4"
  shows "handled E Video_Stream (vp6 codec) packet (frame \<noteq> 1) (frame = 1)
      (f\<lparr>dx_parser := next_tag (dx_parser f), dx_has_video := True\<rparr>)
      (flv_demux_parse_video_tag E f (item_body it @ tag_suffix it) (int (length (item_body it @ tag_suffix it))))"
proof -
  let ?d = "item_body it @ tag_suffix it"
  let ?tag = "\<lparr>codec_id = codec, frame_type = frame, video_packet_offset = 1 + int (length extra),
         video_packet_size = int (length packet)\<rparr>"
  have "flv_parser_read_video_tag (dx_parser f) ?d (int (length ?d)) no_video
      = Some (FLV_PARSER_OK, next_tag (dx_parser f), ?tag)"
    using parse_body_encoded [OF assms(1,4)] assms(2,3) by (auto simp: parse_block_def Let_def)
  note st = video_stage [OF this, of E]
  have "length packet < 16777216" using assms(1,2) by (simp add: item_ok_def)
  then have "copy_packet ?d (1 + int (length extra)) (int (length packet)) = Some packet"
    using copy_packet_at [of packet "octet (frame * 16 + codec) # extra" "tag_suffix it"] assms(2)
    by simp
  then show ?thesis using stage_handled [OF st] by auto
qed

text \<open>Script data: whatever it holds, nothing is pushed and the index only grows.\<close>

lemma copy_keyframes_total:
  assumes "ga_ok ga"
  shows "\<exists>ks'. copy_keyframes ga ks = Some ks' \<and> times ks \<subseteq> times ks'
    \<and> set ks' \<subseteq> set ks \<union> set (take (nat (ga_len ga)) (ga_mem ga))"
proof -
  have l: "ga_len ga \<le> int (length (ga_mem ga))" using assms by (simp add: ga_ok_def)
  have mem: "ga_mem ga ! nat i \<in> set (take (nat (ga_len ga)) (ga_mem ga))" if "0 \<le> i" "i < ga_len ga" for i
  proof -
    have "take (nat (ga_len ga)) (ga_mem ga) ! nat i = ga_mem ga ! nat i" "nat i < length (take (nat (ga_len ga)) (ga_mem ga))"
      using that l by simp_all
    then show ?thesis by (metis nth_mem)
  qed
  have entry: "\<lparr>kf_time = kf_time e, kf_fileposition = kf_fileposition e\<rparr> = e" for e :: keyframe by simp
  have "\<exists>t. cfor (ga_len ga) (\<lambda>i ks. do { entry \<leftarrow> rd (ga_mem ga) i;
      Some (flv_demux_index_add_entry ks (kf_time entry) (kf_fileposition entry)) }) ks = Some t
        \<and> times ks \<subseteq> times t \<and> set t \<subseteq> set ks \<union> set (take (nat (ga_len ga)) (ga_mem ga))"
    by (rule cfor_total [where I = "\<lambda>_ t. times ks \<subseteq> times t \<and> set t \<subseteq> set ks \<union> set (take (nat (ga_len ga)) (ga_mem ga))"])
      (use l mem in \<open>auto simp: mem_simps add_entry_times add_entry_set entry split: if_splits\<close>)
  then show ?thesis by (simp add: copy_keyframes_def)
qed

lemma take_metadata_total:
  assumes "meta_safe (dx_metadata f)"
  shows "\<exists>g. take_metadata res f = Some g \<and> dx_adapter g = dx_adapter f \<and> dx_parser g = dx_parser f
    \<and> dx_metadata g = dx_metadata f \<and> dx_calls g = dx_calls f \<and> times (dx_keyframes f) \<subseteq> times (dx_keyframes g)
    \<and> set (dx_keyframes g) \<subseteq> set (dx_keyframes f) \<union> listed f"
proof -
  let ?f = "if res then (case md_tag_list (dx_metadata f) of None \<Rightarrow> f
         | Some l \<Rightarrow> f\<lparr>dx_queued_tags := Some (case dx_queued_tags f of None \<Rightarrow> l | Some q \<Rightarrow> q @ l)\<rparr>) else f"
  have f: "dx_adapter ?f = dx_adapter f" "dx_parser ?f = dx_parser f" "dx_metadata ?f = dx_metadata f"
    "dx_calls ?f = dx_calls f" "dx_keyframes ?f = dx_keyframes f"
    by (simp_all split: option.split)
  show ?thesis
  proof (cases "md_keyframes (dx_metadata f)")
    case None
    then show ?thesis unfolding take_metadata_def Let_def f(3) using f by simp
  next
    case (Some ga)
    then have "ga_ok ga" using assms by (simp add: meta_safe_def)
    moreover have "listed f = set (take (nat (ga_len ga)) (ga_mem ga))" by (simp add: listed_def Some)
    ultimately obtain ks where
      "copy_keyframes ga (dx_keyframes f) = Some ks" "times (dx_keyframes f) \<subseteq> times ks" "set ks \<subseteq> set (dx_keyframes f) \<union> listed f"
      using copy_keyframes_total [of ga "dx_keyframes f"] by metis
    then show ?thesis unfolding take_metadata_def Let_def f(3,5) using f Some by auto
  qed
qed

lemma demux_script_body:
  assumes "item_ok it" "it = Script_Item ts body" "script_ok it" "meta_safe (dx_metadata f)"
    and "fp_state (dx_parser f) = FLV_PARSER_EXPECT_SCRIPT_DATA_TAG_BODY"
    and "next_block_size (dx_parser f) = int (length (item_body it)) + 4"
  shows "\<exists>g. flv_demux_parse_next_block E f (item_body it @ tag_suffix it) (int (length (item_body it @ tag_suffix it)))
      = Some (GST_FLOW_OK, g)
    \<and> dx_adapter g = dx_adapter f \<and> dx_parser g = next_tag (dx_parser f) \<and> meta_safe (dx_metadata g)
    \<and> dx_calls g = dx_calls f \<and> times (dx_keyframes f) \<subseteq> times (dx_keyframes g)
    \<and> set (dx_keyframes g) \<subseteq> set (dx_keyframes f) \<union> listed g \<and> listed f \<subseteq> listed g"
proof -
  let ?d = "item_body it @ tag_suffix it" and ?r = "\<lparr>sr_pos = 0, sr_end = int (length body)\<rparr>"
  let ?p = "next_tag (dx_parser f)"
  have p: "flv_parser_read_script_data_tag (dx_parser f) ?d (int (length ?d)) no_script = Some (FLV_PARSER_OK, ?p, ?r)"
    using parse_body_encoded [OF assms(1,6)] assms(2,5) by (auto simp: parse_block_def Let_def)
  have "reader_wf ?d ?r" using assms(2) by (simp add: reader_wf_def)
  moreover have "case md_keyframes (dx_metadata f) of None \<Rightarrow> counts_ok ?d (sr_end ?r) | Some ga \<Rightarrow> ga_ok ga"
    using assms(2-4) by (auto simp: meta_safe_def split: option.splits)
  ultimately obtain res m where m: "flv_script_data_read (env_conv E) ?d ?r (dx_metadata f) = Some (res, m)" "meta_safe m"
      "md_keyframes (dx_metadata f) \<noteq> None \<longrightarrow> md_keyframes m = md_keyframes (dx_metadata f)"
    using script_data_read_total [of ?d ?r "dx_metadata f" "env_conv E"] unfolding meta_safe_def by blast
  let ?f = "f\<lparr>dx_parser := ?p, dx_metadata := m\<rparr>"
  have "meta_safe (dx_metadata ?f)" using m(2) by simp
  from take_metadata_total [OF this, of res] obtain g where
    g: "take_metadata res ?f = Some g" "dx_adapter g = dx_adapter f" "dx_parser g = ?p" "dx_metadata g = m"
      "dx_calls g = dx_calls f" "times (dx_keyframes f) \<subseteq> times (dx_keyframes g)"
      "set (dx_keyframes g) \<subseteq> set (dx_keyframes f) \<union> listed ?f" by auto
  moreover have "listed ?f = listed g" using g(4) by (simp add: listed_def)
  moreover have "listed f \<subseteq> listed g" using g(4) m(3) by (auto simp: listed_def split: option.splits)
  moreover have "flv_demux_parse_next_block E f ?d (int (length ?d)) = Some (GST_FLOW_OK, g)"
    unfolding flv_demux_parse_next_block_def assms(5) flv_state.case p Option.bind.simps prod.case Let_def
    using m(1) g(1) by simp
  ultimately show ?thesis using m(2) by (intro exI [of _ g]) simp
qed

text \<open>From one tag to the next.\<close>

lemma tag_done:
  assumes "dx_inv f" "dx_inv g" "meta_safe (dx_metadata g)" "dx_parser g = next_tag q"
    and "next_block_size q = int (length (item_body it)) + 4" "file_position q = u64 (file_position (dx_parser f) + 11)"
  shows "between (g\<lparr>dx_adapter := rest\<rparr>)"
    "file_position (dx_parser g) = u64 (file_position (dx_parser f) + int (length (encode_item it)))"
  using assms by (simp_all add: between_def next_tag_def u64_u64_add encode_item_def add.assoc)

lemma payloads_fields [simp]:
  "payloads S (f\<lparr>dx_adapter := a\<rparr>) = payloads S f" "payloads S (f\<lparr>dx_parser := p\<rparr>) = payloads S f"
  "payloads S (f\<lparr>dx_has_audio := b\<rparr>) = payloads S f" "payloads S (f\<lparr>dx_has_video := b\<rparr>) = payloads S f"
  "payloads S (f\<lparr>dx_current_timestamp := t\<rparr>) = payloads S f" "payloads S (f\<lparr>dx_last_file_position := t\<rparr>) = payloads S f"
  by (simp_all add: payloads_def)

lemma handled_obliging:
  assumes "handled E S supported packet delta ix f res" "obliging E" "dx_inv f"
  shows "\<exists>g. res = Some (GST_FLOW_OK, g) \<and> dx_adapter g = dx_adapter f \<and> dx_parser g = dx_parser f
    \<and> dx_metadata g = dx_metadata f \<and> dx_inv g
    \<and> (\<forall>T. payloads T g = payloads T f @ (if supported \<and> T = S then [(dx_current_timestamp f, packet, delta)] else []))
    \<and> times (dx_keyframes f) \<subseteq> times (dx_keyframes g)
    \<and> (supported \<and> ix \<longrightarrow> dx_current_timestamp f \<in> times (dx_keyframes g))
    \<and> set (dx_keyframes g) \<subseteq> set (dx_keyframes f)
        \<union> (if supported \<and> ix then {\<lparr>kf_time = dx_current_timestamp f, kf_fileposition = dx_last_file_position f\<rparr>} else {})"
proof -
  obtain g where g: "res = Some (GST_FLOW_OK, g)" "if supported then delivered S packet delta ix f g else calm f g"
    using assms by (auto simp: handled_def)
  show ?thesis
  proof (cases supported)
    case True
    then have d: "delivered S packet delta ix f g" using g(2) by simp
    then obtain b where b: "sent S b ix f g" by (auto simp: delivered_def)
    then have "dx_inv g" using sent_inv assms(3) by blast
    moreover have "payloads T g = payloads T f @ (if supported \<and> T = S then [(dx_current_timestamp f, packet, delta)] else [])" for T
      using delivered_payloads [OF d, of T] True by simp
    ultimately show ?thesis using b by (intro exI [of _ g]) (auto simp: g(1) sent_def add_entry_times add_entry_set True)
  next
    case False
    then have "calm f g" using g(2) by simp
    with False show ?thesis
      using calm_inv [OF assms(3)] calm_payloads [of f g] by (intro exI [of _ g]) (auto simp: g(1) calm_def)
  qed
qed

lemma handled_obliging_at:
  assumes "handled E S supported packet delta ix f res" "obliging E" "dx_inv f"
    and "dx_current_timestamp f = t" "dx_last_file_position f = q" "dx_keyframes f = ks" "\<And>T. payloads T f = old T"
  obtains g where "res = Some (GST_FLOW_OK, g)" "dx_adapter g = dx_adapter f" "dx_parser g = dx_parser f"
    "dx_metadata g = dx_metadata f" "dx_inv g"
    "\<forall>T. payloads T g = old T @ (if supported \<and> T = S then [(t, packet, delta)] else [])"
    "times ks \<subseteq> times (dx_keyframes g)" "supported \<and> ix \<longrightarrow> t \<in> times (dx_keyframes g)"
    "set (dx_keyframes g) \<subseteq> set ks \<union> (if supported \<and> ix then {\<lparr>kf_time = t, kf_fileposition = q\<rparr>} else {})"
  using handled_obliging [OF assms(1-3)] unfolding assms(4-7) by blast

lemma body_block:
  "fp_state (dx_parser f) = FLV_PARSER_EXPECT_AUDIO_TAG_BODY \<Longrightarrow>
    flv_demux_parse_next_block E f data n = flv_demux_parse_audio_tag E f data n \<bind>
      (\<lambda>(r, g). Some (r, if r = GST_FLOW_ERROR then tell Element_Error g else g))"
  "fp_state (dx_parser f) = FLV_PARSER_EXPECT_VIDEO_TAG_BODY \<Longrightarrow>
    flv_demux_parse_next_block E f data n = flv_demux_parse_video_tag E f data n \<bind>
      (\<lambda>(r, g). Some (r, if r = GST_FLOW_ERROR then tell Element_Error g else g))"
  by (simp_all add: flv_demux_parse_next_block_def)

lemma payload_item:
  "payload S (Audio_Item ts fmt rate b16 st extra packet) =
    (if fmt = 2 \<and> S = Audio_Stream then [(u64 (ts * GST_MSECOND), packet, False)] else [])"
  "payload S (Video_Item ts frame codec extra packet) =
    (if vp6 codec \<and> S = Video_Stream then [(u64 (ts * GST_MSECOND), packet, frame \<noteq> 1)] else [])"
  "payload S (Script_Item ts body) = []"
  by (cases S; simp)+

lemma demux_item:
  assumes "item_ok it" "script_ok it" "between f" "obliging E" "dx_adapter f = encode_item it @ rest"
  shows "\<exists>g. chain_loop E (r, True, f) = chain_loop E (GST_FLOW_OK, True, g) \<and> dx_adapter g = rest
    \<and> between g \<and> tag_effect it f g"
proof -
  have f: "dx_inv f" "meta_safe (dx_metadata f)" "fp_state (dx_parser f) = FLV_PARSER_EXPECT_TAG_PREFIX"
    "next_block_size (dx_parser f) = 11" using assms(3) by (simp_all add: between_def)
  obtain q where q: "flv_demux_parse_next_block E f (tag_prefix it) 11 = Some (GST_FLOW_OK,
      f\<lparr>dx_parser := q, dx_current_timestamp := media_time it, dx_last_file_position := file_position (dx_parser f)\<rparr>)"
    "next_block_size q = int (length (item_body it)) + 4" "file_position q = u64 (file_position (dx_parser f) + 11)"
    "fp_state q = (case it of Audio_Item _ _ _ _ _ _ _ \<Rightarrow> FLV_PARSER_EXPECT_AUDIO_TAG_BODY
         | Video_Item _ _ _ _ _ \<Rightarrow> FLV_PARSER_EXPECT_VIDEO_TAG_BODY
         | Script_Item _ _ \<Rightarrow> FLV_PARSER_EXPECT_SCRIPT_DATA_TAG_BODY)"
    using demux_prefix [OF assms(1) f(3)] by blast
  let ?rest = "item_body it @ tag_suffix it @ rest"
  let ?f = "f\<lparr>dx_parser := q, dx_current_timestamp := media_time it, dx_last_file_position := file_position (dx_parser f), dx_adapter := ?rest\<rparr>"
  have "chain_loop E (r, True, f) = chain_loop E (GST_FLOW_OK, True, ?f)"
    using chain_one [of f "tag_prefix it" ?rest E, OF _ _ dx_invD(2) [OF f(1)]] q(1) f(4) assms(5)
    by (simp add: encode_item_def)
  moreover have "parser_safe q" using q(2) assms(1) by (simp add: parser_safe_def item_ok_def)
  note qs = this
  have fi: "dx_inv ?f" using f(1) qs by auto
  have "\<exists>g. flv_demux_parse_next_block E ?f (item_body it @ tag_suffix it) (int (length (item_body it @ tag_suffix it)))
        = Some (GST_FLOW_OK, g) \<and> dx_adapter g = dx_adapter ?f \<and> dx_parser g = next_tag q \<and> meta_safe (dx_metadata g) \<and> dx_inv g
      \<and> (\<forall>S. payloads S g = payloads S f @ payload S it) \<and> times (dx_keyframes f) \<subseteq> times (dx_keyframes g)
      \<and> (key_frame it \<longrightarrow> media_time it \<in> times (dx_keyframes g))
      \<and> set (dx_keyframes g) \<subseteq> set (dx_keyframes f) \<union> listed g
         \<union> (if may_index it then {\<lparr>kf_time = media_time it, kf_fileposition = file_position (dx_parser f)\<rparr>} else {})
      \<and> listed f \<subseteq> listed g \<and> (\<not> is_script it \<longrightarrow> listed g = listed f)"
  proof (cases it)
    case (Audio_Item ts fmt rate b16 st extra packet)
    let ?h = "?f\<lparr>dx_parser := next_tag q, dx_has_audio := True\<rparr>"
    have s: "fp_state (dx_parser ?f) = FLV_PARSER_EXPECT_AUDIO_TAG_BODY" using q(4) Audio_Item by simp
    obtain ix where h: "handled E Audio_Stream (fmt = FLVDEMUX_AUDIO_FORMAT_MP3) packet False ix ?h
        (flv_demux_parse_audio_tag E ?f (item_body it @ tag_suffix it) (int (length (item_body it @ tag_suffix it))))"
      using demux_audio_body [OF assms(1) Audio_Item s, of E] q(2) by auto
    have hi: "dx_inv ?h" using f(1) by auto
    obtain g where g: "flv_demux_parse_audio_tag E ?f (item_body it @ tag_suffix it) (int (length (item_body it @ tag_suffix it))) = Some (GST_FLOW_OK, g)"
        "dx_adapter g = dx_adapter ?h" "dx_parser g = dx_parser ?h" "dx_metadata g = dx_metadata ?h" "dx_inv g"
        "\<forall>T. payloads T g = payloads T f @ (if fmt = FLVDEMUX_AUDIO_FORMAT_MP3 \<and> T = Audio_Stream then [(media_time it, packet, False)] else [])"
        "times (dx_keyframes f) \<subseteq> times (dx_keyframes g)" "fmt = FLVDEMUX_AUDIO_FORMAT_MP3 \<and> ix \<longrightarrow> media_time it \<in> times (dx_keyframes g)"
        "set (dx_keyframes g) \<subseteq> set (dx_keyframes f)
          \<union> (if fmt = FLVDEMUX_AUDIO_FORMAT_MP3 \<and> ix then {\<lparr>kf_time = media_time it, kf_fileposition = file_position (dx_parser f)\<rparr>} else {})"
      by (rule handled_obliging_at [OF h assms(4) hi]) simp_all
    have "listed g = listed f" using g(4) by (simp add: listed_def)
    then show ?thesis unfolding body_block(1) [OF s] g(1) using g(2-) f(2)
      by (intro exI [of _ g]) (auto simp: payload_item Audio_Item media_time_def split: if_splits)
  next
    case (Video_Item ts frame codec extra packet)
    let ?h = "?f\<lparr>dx_parser := next_tag q, dx_has_video := True\<rparr>"
    have s: "fp_state (dx_parser ?f) = FLV_PARSER_EXPECT_VIDEO_TAG_BODY" using q(4) Video_Item by simp
    have h: "handled E Video_Stream (vp6 codec) packet (frame \<noteq> 1) (frame = 1) ?h
        (flv_demux_parse_video_tag E ?f (item_body it @ tag_suffix it) (int (length (item_body it @ tag_suffix it))))"
      using demux_video_body [OF assms(1) Video_Item s, of E] q(2) by auto
    have hi: "dx_inv ?h" using f(1) by auto
    obtain g where g: "flv_demux_parse_video_tag E ?f (item_body it @ tag_suffix it) (int (length (item_body it @ tag_suffix it))) = Some (GST_FLOW_OK, g)"
        "dx_adapter g = dx_adapter ?h" "dx_parser g = dx_parser ?h" "dx_metadata g = dx_metadata ?h" "dx_inv g"
        "\<forall>T. payloads T g = payloads T f @ (if vp6 codec \<and> T = Video_Stream then [(media_time it, packet, frame \<noteq> 1)] else [])"
        "times (dx_keyframes f) \<subseteq> times (dx_keyframes g)" "vp6 codec \<and> frame = 1 \<longrightarrow> media_time it \<in> times (dx_keyframes g)"
        "set (dx_keyframes g) \<subseteq> set (dx_keyframes f)
          \<union> (if vp6 codec \<and> frame = 1 then {\<lparr>kf_time = media_time it, kf_fileposition = file_position (dx_parser f)\<rparr>} else {})"
      by (rule handled_obliging_at [OF h assms(4) hi]) simp_all
    have "listed g = listed f" using g(4) by (simp add: listed_def)
    then show ?thesis unfolding body_block(2) [OF s] g(1) using g(2-) f(2)
      by (intro exI [of _ g]) (auto simp: payload_item Video_Item media_time_def split: if_splits)
  next
    case (Script_Item ts body)
    have s: "fp_state (dx_parser ?f) = FLV_PARSER_EXPECT_SCRIPT_DATA_TAG_BODY" using q(4) Script_Item by simp
    obtain g where g: "flv_demux_parse_next_block E ?f (item_body it @ tag_suffix it) (int (length (item_body it @ tag_suffix it)))
        = Some (GST_FLOW_OK, g)" "dx_adapter g = dx_adapter ?f" "dx_parser g = next_tag q" "meta_safe (dx_metadata g)"
        "dx_calls g = dx_calls f" "times (dx_keyframes f) \<subseteq> times (dx_keyframes g)"
        "set (dx_keyframes g) \<subseteq> set (dx_keyframes f) \<union> listed g" "listed f \<subseteq> listed g"
      using demux_script_body [OF assms(1) Script_Item assms(2) _ s, of E] f(2) q(2) by (auto simp: listed_def)
    moreover have "dx_inv g" by (rule block_inv [OF g(1) fi])
    ultimately show ?thesis
      by (intro exI [of _ g]) (auto simp: payloads_def Script_Item split: stream.splits)
  qed
  then obtain g where g: "flv_demux_parse_next_block E ?f (item_body it @ tag_suffix it) (int (length (item_body it @ tag_suffix it)))
        = Some (GST_FLOW_OK, g)" "dx_adapter g = dx_adapter ?f" "dx_parser g = next_tag q" "meta_safe (dx_metadata g)" "dx_inv g"
      "\<forall>S. payloads S g = payloads S f @ payload S it" "times (dx_keyframes f) \<subseteq> times (dx_keyframes g)"
      "key_frame it \<longrightarrow> media_time it \<in> times (dx_keyframes g)"
      "set (dx_keyframes g) \<subseteq> set (dx_keyframes f) \<union> listed g
         \<union> (if may_index it then {\<lparr>kf_time = media_time it, kf_fileposition = file_position (dx_parser f)\<rparr>} else {})"
      "listed f \<subseteq> listed g" "\<not> is_script it \<longrightarrow> listed g = listed f" by blast
  have "chain_loop E (GST_FLOW_OK, True, ?f) = chain_loop E (GST_FLOW_OK, True, g\<lparr>dx_adapter := rest\<rparr>)"
    using chain_one [of ?f "item_body it @ tag_suffix it" rest E g] q(2) qs g(1,2) by simp
  moreover note tag_done(1) [OF f(1) g(5,4,3) q(2,3), of rest] tag_done(2) [OF f(1) g(5,4,3) q(2,3)]
  ultimately show ?thesis
    using g by (intro exI [of _ "g\<lparr>dx_adapter := rest\<rparr>"]) (simp add: tag_effect_def listed_def)
qed

section \<open>A whole file\<close>

lemma tag_effect_keys: "tag_effect it f g \<Longrightarrow> t \<in> times (dx_keyframes f) \<Longrightarrow> t \<in> times (dx_keyframes g)"
  by (auto simp: tag_effect_def)

text \<open>The entries the tags of a file give the index, the first tag being at offset pos.\<close>

fun tag_entries :: "int \<Rightarrow> flv_item list \<Rightarrow> keyframe list" where
  "tag_entries pos [] = []"
| "tag_entries pos (it # items) =
    (if may_index it then [\<lparr>kf_time = media_time it, kf_fileposition = u64 pos\<rparr>] else [])
      @ tag_entries (pos + int (length (encode_item it))) items"

lemma demux_items:
  assumes "\<forall>it \<in> set items. item_ok it \<and> script_ok it" "between f" "obliging E"
    "dx_adapter f = concat (List.map encode_item items)" "file_position (dx_parser f) = u64 pos"
  shows "\<exists>g. chain_loop E (GST_FLOW_OK, True, f) = Some (GST_FLOW_OK, True, g) \<and> dx_adapter g = [] \<and> between g
    \<and> (\<forall>S. payloads S g = payloads S f @ concat (List.map (payload S) items))
    \<and> times (dx_keyframes f) \<subseteq> times (dx_keyframes g)
    \<and> (\<forall>it \<in> set items. key_frame it \<longrightarrow> media_time it \<in> times (dx_keyframes g))
    \<and> set (dx_keyframes g) \<subseteq> set (dx_keyframes f) \<union> listed g \<union> set (tag_entries pos items)
    \<and> listed f \<subseteq> listed g \<and> ((\<forall>it \<in> set items. \<not> is_script it) \<longrightarrow> listed g = listed f)"
  using assms
proof (induction items arbitrary: f pos)
  case Nil
  then have "\<not> chain_ready (GST_FLOW_OK, True, f)" by (simp add: chain_ready_def between_def)
  with Nil show ?case by (intro exI [of _ f]) (simp add: wloop_stop)
next
  case (Cons it items)
  have "item_ok it" "script_ok it" "dx_adapter f = encode_item it @ concat (List.map encode_item items)"
    using Cons.prems by simp_all
  from demux_item [OF this(1,2) Cons.prems(2,3) this(3), of GST_FLOW_OK] obtain g where
    g: "chain_loop E (GST_FLOW_OK, True, f) = chain_loop E (GST_FLOW_OK, True, g)"
      "dx_adapter g = concat (List.map encode_item items)" "between g" "tag_effect it f g" by blast
  let ?pos = "pos + int (length (encode_item it))"
  have "file_position (dx_parser g) = u64 ?pos"
    using g(4) Cons.prems(5) by (simp add: tag_effect_def u64_u64_add)
  from Cons.IH [OF _ g(3) Cons.prems(3) g(2) this] Cons.prems(1) obtain h where
    h: "chain_loop E (GST_FLOW_OK, True, g) = Some (GST_FLOW_OK, True, h)" "dx_adapter h = []" "between h"
      "\<forall>S. payloads S h = payloads S g @ concat (List.map (payload S) items)"
      "times (dx_keyframes g) \<subseteq> times (dx_keyframes h)"
      "\<forall>it \<in> set items. key_frame it \<longrightarrow> media_time it \<in> times (dx_keyframes h)"
      "set (dx_keyframes h) \<subseteq> set (dx_keyframes g) \<union> listed h \<union> set (tag_entries ?pos items)"
      "listed g \<subseteq> listed h" "(\<forall>it \<in> set items. \<not> is_script it) \<longrightarrow> listed h = listed g" by auto
  have "set (dx_keyframes h) \<subseteq> set (dx_keyframes f) \<union> listed h \<union> set (tag_entries pos (it # items))"
    using g(4) h(7,8) Cons.prems(5) unfolding tag_effect_def tag_entries.simps set_append if_distrib [of set] by auto
  then show ?case
    by (intro exI [of _ h] conjI) (use g h in \<open>auto simp: tag_effect_def\<close>)
qed

lemma between_init:
  assumes "fp_state p = FLV_PARSER_EXPECT_TAG_PREFIX" "next_block_size p = 11"
  shows "between (flv_demux_init\<lparr>dx_has_audio := x, dx_has_video := y, dx_parser := p, dx_adapter := a\<rparr>)"
proof -
  have "dx_inv (flv_demux_init\<lparr>dx_has_audio := x, dx_has_video := y, dx_parser := p, dx_adapter := a\<rparr>)"
    unfolding inv_fields by (rule inv_parser) (use assms in \<open>simp_all add: inv_init parser_safe_def\<close>)
  then show ?thesis
    using assms by (simp add: between_def meta_safe_def flv_demux_init_def flv_metadata_new_def)
qed

lemma header_block:
  "flv_parser_read_header (dx_parser f) data n no_header = Some (FLV_PARSER_OK, p, h) \<Longrightarrow>
    fp_state (dx_parser f) = FLV_PARSER_EXPECT_HEADER \<Longrightarrow>
    flv_demux_parse_next_block E f data n = Some (GST_FLOW_OK,
      f\<lparr>dx_parser := p, dx_has_audio := has_audio_tags h, dx_has_video := has_video_tags h\<rparr>)"
  by (simp add: flv_demux_parse_next_block_def Let_def)

lemma demux_start:
  assumes "length pad < 4294967287" "length zero = 4"
  shows "\<exists>p. chain_loop E (GST_FLOW_OK, True, flv_demux_init\<lparr>dx_adapter := encode_file audio video pad zero items\<rparr>)
      = chain_loop E (GST_FLOW_OK, True, flv_demux_init\<lparr>dx_has_audio := audio, dx_has_video := video, dx_parser := p,
          dx_adapter := concat (List.map encode_item items)\<rparr>)
    \<and> fp_state p = FLV_PARSER_EXPECT_TAG_PREFIX \<and> next_block_size p = 11
    \<and> file_position p = u64 (int (length pad) + 13)"
proof -
  define h where "h = [0x46, 0x4C, 0x56, 1, octet (of_bool audio * 4 + of_bool video)] @ be32 (9 + int (length pad))"
  define z where "z = pad @ zero"
  let ?tags = "concat (List.map encode_item items)"
  let ?p = "\<lparr>fp_state = FLV_PARSER_EXPECT_SKIP_BLOCK, file_position = 9, parsed_block_size = 9,
       next_block_size = int (length pad) + 4\<rparr>"
  let ?f0 = "flv_demux_init\<lparr>dx_adapter := h @ z @ ?tags\<rparr>"
  let ?f1 = "flv_demux_init\<lparr>dx_parser := ?p, dx_has_audio := audio, dx_has_video := video, dx_adapter := z @ ?tags\<rparr>"
  have n: "length h = 9" by (simp add: h_def be32_def)
  have k: "int (length z) = int (length pad) + 4" using assms(2) by (simp add: z_def)
  have i: "dx_parser flv_demux_init = flv_parser_init" by (simp add: flv_demux_init_def)
  then have i0: "dx_parser ?f0 = flv_parser_init" by simp
  have "flv_demux_parse_next_block E ?f0 h 9
      = Some (GST_FLOW_OK, ?f0\<lparr>dx_parser := ?p, dx_has_audio := audio, dx_has_video := video\<rparr>)"
    using header_block [of ?f0 h 9, unfolded i0, OF read_header_encoded [OF assms(1), of audio video, folded h_def]]
    by (simp add: flv_parser_init_def)
  then have 1: "chain_loop E (GST_FLOW_OK, True, ?f0) = chain_loop E (GST_FLOW_OK, True, ?f1)"
    using chain_one [of ?f0 h "z @ ?tags" E _ GST_FLOW_OK] n
    by (simp add: i) (simp add: flv_parser_init_def parser_safe_def)
  have "flv_demux_parse_next_block E ?f1 z (int (length z)) = Some (GST_FLOW_OK, ?f1\<lparr>dx_parser := next_tag ?p\<rparr>)"
    unfolding k by (simp add: flv_demux_parse_next_block_def flv_parser_skip_def)
  then have 2: "chain_loop E (GST_FLOW_OK, True, ?f1) = chain_loop E (GST_FLOW_OK, True,
      flv_demux_init\<lparr>dx_has_audio := audio, dx_has_video := video, dx_parser := next_tag ?p, dx_adapter := ?tags\<rparr>)"
    using chain_one [of ?f1 z ?tags E _ GST_FLOW_OK] assms k by (simp add: parser_safe_def)
  have "encode_file audio video pad zero items = h @ z @ ?tags" by (simp add: encode_file_def h_def z_def)
  with 1 2 show ?thesis by (intro exI [of _ "next_tag ?p"]) (simp add: next_tag_def add.commute)
qed

lemma demux_file:
  assumes "file_ok pad zero items" "\<forall>it \<in> set items. script_ok it" "obliging E"
  shows "\<exists>g. flv_demux_chain E (encode_file audio video pad zero items) off flv_demux_init = Some (GST_FLOW_OK, g)
    \<and> dx_adapter g = [] \<and> between g \<and> (\<forall>S. payloads S g = concat (List.map (payload S) items))
    \<and> (\<forall>it \<in> set items. key_frame it \<longrightarrow> media_time it \<in> times (dx_keyframes g))
    \<and> set (dx_keyframes g) \<subseteq> listed g \<union> set (tag_entries (int (length pad) + 13) items)
    \<and> ((\<forall>it \<in> set items. \<not> is_script it) \<longrightarrow> listed g = {})"
proof -
  let ?tags = "concat (List.map encode_item items)"
  have f: "length pad < 4294967287" "length zero = 4" "\<forall>it \<in> set items. item_ok it \<and> script_ok it"
    using assms by (auto simp: file_ok_def)
  from demux_start [OF f(1,2), of E audio video items] obtain p where
    p: "chain_loop E (GST_FLOW_OK, True, flv_demux_init\<lparr>dx_adapter := encode_file audio video pad zero items\<rparr>)
      = chain_loop E (GST_FLOW_OK, True, flv_demux_init\<lparr>dx_has_audio := audio, dx_has_video := video, dx_parser := p,
          dx_adapter := ?tags\<rparr>)"
      "fp_state p = FLV_PARSER_EXPECT_TAG_PREFIX" "next_block_size p = 11" "file_position p = u64 (int (length pad) + 13)" by blast
  let ?f = "flv_demux_init\<lparr>dx_has_audio := audio, dx_has_video := video, dx_parser := p, dx_adapter := ?tags\<rparr>"
  have fields: "dx_adapter ?f = ?tags" "file_position (dx_parser ?f) = u64 (int (length pad) + 13)" "dx_keyframes ?f = []" "listed ?f = {}"
    using p(4) by (simp_all add: listed_def flv_demux_init_def flv_metadata_new_def)
  from demux_items [OF f(3) between_init [OF p(2,3), where a = ?tags and x = audio and y = video] assms(3) fields(1,2)] obtain g where
    g: "chain_loop E (GST_FLOW_OK, True, flv_demux_init\<lparr>dx_has_audio := audio, dx_has_video := video, dx_parser := p,
          dx_adapter := ?tags\<rparr>) = Some (GST_FLOW_OK, True, g)"
      "dx_adapter g = []" "between g" "\<forall>S. payloads S g = payloads S flv_demux_init @ concat (List.map (payload S) items)"
      "\<forall>it \<in> set items. key_frame it \<longrightarrow> media_time it \<in> times (dx_keyframes g)"
      "set (dx_keyframes g) \<subseteq> listed g \<union> set (tag_entries (int (length pad) + 13) items)"
      "(\<forall>it \<in> set items. \<not> is_script it) \<longrightarrow> listed g = {}"
    unfolding fields(3,4) by auto
  have "parser_flush off flv_demux_init = flv_demux_init" "dx_adapter flv_demux_init = []"
    "payloads S flv_demux_init = []" for S
    by (simp_all add: parser_flush_def payloads_def flv_demux_init_def)
  then show ?thesis
    using g p(1) by (intro exI [of _ g]) (simp add: flv_demux_chain_def Let_def)
qed

end
