(* ===== verification/Demux_Seek.thy ===== *)
theory Demux_Seek
  imports Demux_File
begin

text \<open>
  Indexing and seeking in pull mode over a file: what the indexing loop adds to the index, that it ends,
  and where a seek puts the parser and the segment.
\<close>

section \<open>Reading more than asked\<close>

lemma READ_UINT8_more: "READ_UINT8 xs i = Some v \<Longrightarrow> READ_UINT8 (xs @ ys) i = Some v"
  by (auto simp: READ_UINT8_def rd_def in_arr_def nth_append split: if_splits)

lemma READ_UINT24_more: "READ_UINT24_BE xs i = Some v \<Longrightarrow> READ_UINT24_BE (xs @ ys) i = Some v"
  by (auto simp: READ_UINT24_BE_def READ_UINT16_BE_def bind_eq_Some_conv READ_UINT8_more)

lemma READ_TS32_more: "FLV_READ_TS32 xs i = Some v \<Longrightarrow> FLV_READ_TS32 (xs @ ys) i = Some v"
  by (auto simp: FLV_READ_TS32_def bind_eq_Some_conv READ_UINT8_more READ_UINT24_more)

lemma read_prefix_more:
  assumes "flv_parser_read_tag_prefix p xs n t = Some (FLV_PARSER_OK, q, u)" "n \<le> m"
  shows "flv_parser_read_tag_prefix p (xs @ ys) m t = Some (FLV_PARSER_OK, q, u)"
proof -
  have st: "fp_state p = FLV_PARSER_EXPECT_TAG_PREFIX" "\<not> m < 11"
    using assms by (auto simp: flv_parser_read_tag_prefix_def split: if_splits)
  then have "\<not> n < 11" using assms(1) by (auto simp: flv_parser_read_tag_prefix_def)
  with st assms(1) obtain ty sz ts sid where
    r: "READ_UINT8 xs 0 = Some ty" "READ_UINT24_BE xs 1 = Some sz" "FLV_READ_TS32 xs 4 = Some ts" "READ_UINT24_BE xs 8 = Some sid"
    by (auto simp: flv_parser_read_tag_prefix_def bind_eq_Some_conv Let_def)
  note more = r(1) [THEN READ_UINT8_more, of ys] r(2) [THEN READ_UINT24_more, of ys] r(3) [THEN READ_TS32_more, of ys]
    r(4) [THEN READ_UINT24_more, of ys]
  show ?thesis
    using assms(1) st \<open>\<not> n < 11\<close> unfolding flv_parser_read_tag_prefix_def r more by simp
qed

section \<open>Indexing a file\<close>

text \<open>A peer that reads a file: short blocks at its end, \<^verbatim>\<open>GST_FLOW_UNEXPECTED\<close> from there on.\<close>

definition reads_file :: "gst_env \<Rightarrow> bytes \<Rightarrow> bool" where
  "reads_file E file \<longleftrightarrow> (\<forall>l pos n. 0 \<le> pos \<longrightarrow> 0 \<le> n \<longrightarrow>
     answer E l (Pull_Range pos n) = (if pos < int (length file) then GST_FLOW_OK else GST_FLOW_UNEXPECTED) \<and>
     pulled E l pos n = take (nat n) (drop (nat pos) file))"

text \<open>The tags that go to the index, and the pass over the tags up to the first one that reaches the time.\<close>

fun indexed_item :: "bool \<Rightarrow> flv_item \<Rightarrow> bool" where
  "indexed_item has_video (Video_Item ts frame codec extra packet) \<longleftrightarrow> frame = 1"
| "indexed_item has_video (Audio_Item ts fmt rate b16 st extra packet) \<longleftrightarrow> \<not> has_video"
| "indexed_item has_video (Script_Item ts body) \<longleftrightarrow> False"

definition index_item :: "bool \<Rightarrow> int \<Rightarrow> flv_item \<Rightarrow> keyframe list \<Rightarrow> keyframe list" where
  "index_item has_video pos it ks =
    (if indexed_item has_video it then flv_demux_index_add_entry ks (media_time it) (u64 pos) else ks)"

fun index_items :: "bool \<Rightarrow> int \<Rightarrow> int \<Rightarrow> flv_item list \<Rightarrow> keyframe list \<Rightarrow> bool \<times> keyframe list" where
  "index_items has_video to pos [] ks = (False, ks)"
| "index_items has_video to pos (it # items) ks =
    (if media_time it < to
     then index_items has_video to (pos + int (length (encode_item it))) items (index_item has_video pos it ks)
     else (True, index_item has_video pos it ks))"

lemma body_byte:
  assumes "item_ok (Video_Item ts frame codec extra packet)"
  shows "drop_bit 4 (uint (octet (frame * 16 + codec)) AND 0xF0) = (frame :: int)"
  unfolding high_nibble uint_octet using assms video_byte [of frame codec] by (simp add: item_ok_def)

lemma seek_state:
  "snd (flv_parser_seek p pos) = p\<lparr>fp_state := FLV_PARSER_EXPECT_TAG_PREFIX, file_position := pos,
     parsed_block_size := 0, next_block_size := 11\<rparr>"
  by (simp add: flv_parser_seek_def)

lemma index_one:
  assumes "gst_pad_pull_range E (file_position p) (u32 (next_block_size p + 1)) f = (r, block, g)" "r = GST_FLOW_OK"
    and "flv_parser_read_tag_prefix p block (int (length block)) no_prefix = Some (FLV_PARSER_OK, q, tag)"
    and "(if tag_type tag = FLV_TAG_TYPE_VIDEO then do {
            frame_info \<leftarrow> READ_UINT8 block (parsed_block_size q);
            Some (if drop_bit 4 (frame_info AND 0xF0) = 1
              then g\<lparr>dx_keyframes := flv_demux_index_add_entry (dx_keyframes g) (u64 (timestamp tag * GST_MSECOND)) (file_position p)\<rparr>
              else g) }
          else Some (if tag_type tag = FLV_TAG_TYPE_AUDIO \<and> \<not> dx_has_video g
              then g\<lparr>dx_keyframes := flv_demux_index_add_entry (dx_keyframes g) (u64 (timestamp tag * GST_MSECOND)) (file_position p)\<rparr>
              else g)) = Some h"
  shows "indexing_step E (None, time, p, f) = Some (None, u64 (timestamp tag * GST_MSECOND),
      snd (flv_parser_seek q (u64 (file_position q + next_block_size q))), h)"
  unfolding indexing_step_def prod.case Let_def assms(1,2) using assms(3,4) by simp

lemma index_tag:
  assumes "reads_file E file" "file = pre @ encode_item it @ rest" "int (length file) < 2 ^ 63" "item_ok it"
    and "fp_state p = FLV_PARSER_EXPECT_TAG_PREFIX" "next_block_size p = 11" "file_position p = int (length pre)"
  shows "\<exists>q. indexing_step E (None, time, p, f) = Some (None, media_time it, q,
       (tell (Pull_Range (int (length pre)) 12) f)
         \<lparr>dx_keyframes := index_item (dx_has_video f) (int (length pre)) it (dx_keyframes f)\<rparr>)
    \<and> fp_state q = FLV_PARSER_EXPECT_TAG_PREFIX \<and> next_block_size q = 11
    \<and> file_position q = int (length (pre @ encode_item it))"
proof -
  let ?more = "item_body it @ tag_suffix it @ rest" and ?pos = "int (length pre)"
  have ne: "item_body it @ tag_suffix it \<noteq> []" using tag_suffix_length [of it] by (metis append_is_Nil_conv list.size(3) zero_neq_numeral)
  define b where "b = hd (item_body it @ tag_suffix it)"
  obtain l where "item_body it @ tag_suffix it = b # l" using ne by (cases "item_body it @ tag_suffix it") (auto simp: b_def)
  then have "?more = b # l @ rest" by (metis append_Cons append_assoc)
  then have "file = pre @ tag_prefix it @ b # l @ rest" using assms(2) by (simp only: encode_item_def append_assoc)
  then have blk: "take 12 (drop (nat ?pos) file) = tag_prefix it @ [b]" by simp
  let ?g = "tell (Pull_Range ?pos 12) f"
  have "length (encode_item it) > 11" by (simp add: encode_item_def)
  then have "?pos < int (length file)" using assms(2) by simp
  then have pull: "gst_pad_pull_range E ?pos 12 f = (GST_FLOW_OK, tag_prefix it @ [b], ?g)"
    using assms(1) blk by (simp add: gst_pad_pull_range_def reads_file_def)
  obtain q where q: "flv_parser_read_tag_prefix p (tag_prefix it) 11 no_prefix = Some (FLV_PARSER_OK, q,
       \<lparr>tag_type = item_type it, body_size = int (length (item_body it)), timestamp = item_time it\<rparr>)"
     "parsed_block_size q = 11" "file_position q = u64 (?pos + 11)" "next_block_size q = int (length (item_body it)) + 4"
    using read_prefix_encoded [OF assms(4,5)] assms(7) by simp
  have read: "flv_parser_read_tag_prefix p (tag_prefix it @ [b]) 12 no_prefix = Some (FLV_PARSER_OK, q,
       \<lparr>tag_type = item_type it, body_size = int (length (item_body it)), timestamp = item_time it\<rparr>)"
    by (rule read_prefix_more [OF q(1)]) simp
  have nx: "u64 (file_position q + next_block_size q) = int (length (pre @ encode_item it))"
    using assms(2,3) q(3,4) by (simp add: u64_u64_add encode_item_def add.assoc)
  have vid: "READ_UINT8 (tag_prefix it @ [b]) 11 = Some (uint b)"
    using READ_UINT8_at [of 11 "tag_prefix it" b "[]"] by simp
  have k: "drop_bit 4 (uint b AND 0xF0) = 1 \<longleftrightarrow> frame = 1" if "it = Video_Item ts frame codec extra packet" for ts frame codec extra packet
    using body_byte [of ts frame codec extra packet] assms(4) that by (simp add: b_def)
  have kf: "(if item_type it = 9 then do {
                frame_info \<leftarrow> READ_UINT8 (tag_prefix it @ [b]) (parsed_block_size q);
                Some (if drop_bit 4 (frame_info AND 0xF0) = 1
                  then ?g\<lparr>dx_keyframes := flv_demux_index_add_entry (dx_keyframes ?g) (media_time it) ?pos\<rparr> else ?g) }
              else Some (if item_type it = 8 \<and> \<not> dx_has_video ?g
                  then ?g\<lparr>dx_keyframes := flv_demux_index_add_entry (dx_keyframes ?g) (media_time it) ?pos\<rparr> else ?g))
      = Some (?g\<lparr>dx_keyframes := index_item (dx_has_video f) ?pos it (dx_keyframes f)\<rparr>)"
    using vid q(2) assms(2,3) k by (cases it) (simp_all add: index_item_def)
  have n: "u32 (next_block_size p + 1) = 12" and len: "int (length (tag_prefix it @ [b])) = 12"
    using assms(6) by (simp_all add: u32_def)
  note step = index_one [of E p f GST_FLOW_OK, unfolded assms(7) n, OF pull refl, unfolded len, OF read]
  have "indexing_step E (None, time, p, f) = Some (None, media_time it, snd (flv_parser_seek q (u64 (file_position q + next_block_size q))),
      ?g\<lparr>dx_keyframes := index_item (dx_has_video f) ?pos it (dx_keyframes f)\<rparr>)"
    using step kf by (simp only: media_time_def flv_tag_prefix.simps)
  then show ?thesis unfolding nx
    by (intro exI [of _ "snd (flv_parser_seek q (int (length (pre @ encode_item it))))"]) (simp add: seek_state)
qed

text \<open>The whole pass.\<close>

lemma index_loop:
  assumes "reads_file E file" "int (length file) < 2 ^ 63" "\<forall>it \<in> set items. item_ok it"
    and "file = pre @ concat (List.map encode_item items)"
    and "fp_state p = FLV_PARSER_EXPECT_TAG_PREFIX" "next_block_size p = 11" "file_position p = int (length pre)" "time < to"
  shows "\<exists>t q g. wloop (\<lambda>(res, time, p, f). res = None \<and> time < to) (indexing_step E) (None, time, p, f)
      = Some (if fst (index_items (dx_has_video f) to (int (length pre)) items (dx_keyframes f)) then None else Some False, t, q, g)
    \<and> g = f\<lparr>dx_keyframes := snd (index_items (dx_has_video f) to (int (length pre)) items (dx_keyframes f)), dx_calls := dx_calls g\<rparr>"
  using assms(3-)
proof (induction items arbitrary: pre p f time)
  case Nil
  let ?g = "tell (Pull_Range (int (length pre)) 12) f"
  have "indexing_step E (None, time, p, f) = Some (Some False, time, p, ?g)"
    using Nil assms(1) by (simp add: indexing_step_def gst_pad_pull_range_def reads_file_def Let_def u32_def)
  then show ?case
    using Nil(6) by (intro exI [of _ time] exI [of _ p] exI [of _ ?g]) (simp add: wloop_step wloop_stop tell_def)
next
  case (Cons it items)
  let ?b = "\<lambda>(res, time, p, f). res = None \<and> time < to"
  let ?pos = "int (length pre)"
  let ?ks = "index_item (dx_has_video f) ?pos it (dx_keyframes f)"
  let ?f = "(tell (Pull_Range ?pos 12) f)\<lparr>dx_keyframes := ?ks\<rparr>"
  have ok: "item_ok it" "\<forall>it \<in> set items. item_ok it" and fl: "file = pre @ encode_item it @ concat (List.map encode_item items)"
    using Cons.prems(1,2) by simp_all
  from index_tag [OF assms(1) fl assms(2) ok(1) Cons.prems(3-5), of time f] obtain q where
    q: "indexing_step E (None, time, p, f) = Some (None, media_time it, q, ?f)"
      "fp_state q = FLV_PARSER_EXPECT_TAG_PREFIX" "next_block_size q = 11" "file_position q = int (length (pre @ encode_item it))"
    by blast
  have one: "wloop ?b (indexing_step E) (None, time, p, f) = wloop ?b (indexing_step E) (None, media_time it, q, ?f)"
    using Cons.prems(6) q(1) by (simp add: wloop_step)
  show ?case
  proof (cases "media_time it < to")
    case True
    have fl': "file = (pre @ encode_item it) @ concat (List.map encode_item items)" using fl by simp
    from Cons.IH [OF ok(2) fl' q(2-4) True, of ?f] obtain t r g where
      "wloop ?b (indexing_step E) (None, media_time it, q, ?f)
         = Some (if fst (index_items (dx_has_video f) to (int (length (pre @ encode_item it))) items ?ks) then None else Some False, t, r, g)"
      "g = ?f\<lparr>dx_keyframes := snd (index_items (dx_has_video f) to (int (length (pre @ encode_item it))) items ?ks), dx_calls := dx_calls g\<rparr>"
      by auto
    with True one show ?thesis
      by (intro exI [of _ t] exI [of _ r] exI [of _ g]) (simp add: tell_def)
  next
    case False
    with one show ?thesis
      by (intro exI [of _ "media_time it"] exI [of _ q] exI [of _ ?f]) (simp add: tell_def wloop_stop)
  qed
qed

lemma indexing_file:
  assumes "reads_file E (pre @ concat (List.map encode_item items))" "\<forall>it \<in> set items. item_ok it"
    and "int (length (pre @ concat (List.map encode_item items))) < 2 ^ 63"
    and "flv_demux_index_lookup (dx_keyframes f) from = Some (Some (t, int (length pre)))" "t < to"
  shows "\<exists>g. flv_demux_do_indexing_pull E from to f
      = Some (fst (index_items (dx_has_video f) to (int (length pre)) items (dx_keyframes f)), g)
    \<and> g = f\<lparr>dx_keyframes := snd (index_items (dx_has_video f) to (int (length pre)) items (dx_keyframes f)), dx_calls := dx_calls g\<rparr>"
proof -
  let ?p = "snd (flv_parser_seek flv_parser_init (int (length pre)))"
  from index_loop [OF assms(1,3,2) refl, of ?p t to f] assms(5) obtain u q g where
    "wloop (\<lambda>(res, time, p, f). res = None \<and> time < to) (indexing_step E) (None, t, ?p, f)
      = Some (if fst (index_items (dx_has_video f) to (int (length pre)) items (dx_keyframes f)) then None else Some False, u, q, g)"
    "g = f\<lparr>dx_keyframes := snd (index_items (dx_has_video f) to (int (length pre)) items (dx_keyframes f)), dx_calls := dx_calls g\<rparr>"
    by (auto simp: seek_state)
  then show ?thesis
    unfolding flv_demux_do_indexing_pull_def assms(4) by (intro exI [of _ g]) simp
qed

section \<open>What the pass adds\<close>

definition visited :: "int \<Rightarrow> flv_item list \<Rightarrow> flv_item list" where
  "visited to items = takeWhile (\<lambda>it. media_time it < to) items @ take 1 (dropWhile (\<lambda>it. media_time it < to) items)"

lemma visited_simps [simp]:
  "visited to [] = []" "visited to (it # items) = it # (if media_time it < to then visited to items else [])"
  by (simp_all add: visited_def)

lemma index_item_times: "times (index_item hv pos it ks) = times ks \<union> (if indexed_item hv it then {media_time it} else {})"
  by (auto simp: index_item_def add_entry_times)

lemma index_items_times:
  "times (snd (index_items hv to pos items ks)) = times ks \<union> media_time ` {it \<in> set (visited to items). indexed_item hv it}"
  by (induction items arbitrary: pos ks) (auto simp: index_item_times)

lemma index_items_reach: "fst (index_items hv to pos items ks) \<longleftrightarrow> (\<exists>it \<in> set items. to \<le> media_time it)"
  by (induction items arbitrary: pos ks) auto

lemma index_items_wf: "index_wf ks \<Longrightarrow> index_wf (snd (index_items hv to pos items ks))"
  by (induction items arbitrary: pos ks) (auto simp: index_item_def add_entry_wf)

text \<open>A new entry is the time and the place of one of the tags.\<close>

definition entry_at :: "bool \<Rightarrow> int \<Rightarrow> flv_item list \<Rightarrow> keyframe \<Rightarrow> bool" where
  "entry_at hv pos items e \<longleftrightarrow> (\<exists>xs it ys. items = xs @ it # ys \<and> indexed_item hv it \<and>
     e = \<lparr>kf_time = media_time it, kf_fileposition = u64 (pos + int (length (concat (List.map encode_item xs))))\<rparr>)"

lemma entry_at_Cons:
  "entry_at hv pos (it # items) e \<longleftrightarrow>
    indexed_item hv it \<and> e = \<lparr>kf_time = media_time it, kf_fileposition = u64 pos\<rparr> \<or>
    entry_at hv (pos + int (length (encode_item it))) items e"
proof -
  have "(\<exists>xs jt ys. it # items = xs @ jt # ys \<and> P xs jt) \<longleftrightarrow> P [] it \<or> (\<exists>xs jt ys. items = xs @ jt # ys \<and> P (it # xs) jt)" for P
    by (metis append_Cons append_Nil list.exhaust list.inject)
  from this [of "\<lambda>xs jt. indexed_item hv jt \<and> e = \<lparr>kf_time = media_time jt,
      kf_fileposition = u64 (pos + int (length (concat (List.map encode_item xs))))\<rparr>"]
  show ?thesis by (simp add: entry_at_def add.assoc)
qed

lemma index_items_entries:
  "e \<in> set (snd (index_items hv to pos items ks)) \<Longrightarrow> e \<in> set ks \<or> entry_at hv pos items e"
proof (induction items arbitrary: pos ks)
  case (Cons it items)
  have "e \<in> set (index_item hv pos it ks) \<Longrightarrow> e \<in> set ks \<or> entry_at hv pos (it # items) e"
    by (auto simp: index_item_def add_entry_set entry_at_Cons split: if_splits)
  with Cons show ?case by (auto simp: entry_at_Cons split: if_splits)
qed simp

section \<open>Seeking\<close>

lemma floor_entry_unique:
  assumes "floor_entry m t e" "floor_entry m t d"
  shows "e = d"
proof -
  have "fst e = fst d" using assms by (meson antisym domI floor_entry_def)
  with assms show ?thesis by (simp add: floor_entry_def prod_eq_iff)
qed

lemma lookup_floor:
  assumes "index_wf ks" "floor_entry (index_map ks) t e" "u \<in> dom (index_map ks)" "t \<le> u"
  shows "flv_demux_index_lookup ks t = Some (Some e)"
proof -
  have "fst e \<in> dom (index_map ks)" "fst e \<le> t" using assms(2) by (auto simp: floor_entry_def)
  then have "\<not> (\<forall>u \<in> dom (index_map ks). t < u)" "\<not> (\<forall>u \<in> dom (index_map ks). u < t)"
    using assms(3,4) by (meson linorder_not_less)+
  then obtain d where "flv_demux_index_lookup ks t = Some (Some d)" "floor_entry (index_map ks) t d"
    using lookup_cases [OF assms(1), of t] by blast
  with floor_entry_unique [OF assms(2)] show ?thesis by blast
qed

lemma lookup_beyond:
  assumes "index_wf ks" "\<forall>u \<in> times ks. u < t"
  shows "flv_demux_index_lookup ks t = Some None"
  using lookup_cases [OF assms(1), of t] assms(2) by (auto simp: dom_index_map)

text \<open>The events of a flushing seek change the log only.\<close>

definition flush_start :: "flv_demux \<Rightarrow> flv_demux" where
  "flush_start f = tell (Sink_Push_Event Event_Flush_Stop)
     (flv_demux_push_src_event Event_Flush_Start (tell (Sink_Push_Event Event_Flush_Start) f))"

lemma src_event_fields [simp]:
  "dx_keyframes (flv_demux_push_src_event ev f) = dx_keyframes f" "dx_parser (flv_demux_push_src_event ev f) = dx_parser f"
  "dx_segment (flv_demux_push_src_event ev f) = dx_segment f" "dx_has_video (flv_demux_push_src_event ev f) = dx_has_video f"
  by (simp_all add: flv_demux_push_src_event_def Let_def)

lemma flush_start_fields [simp]:
  "dx_keyframes (flush_start f) = dx_keyframes f" "dx_parser (flush_start f) = dx_parser f"
  "dx_segment (flush_start f) = dx_segment f" "dx_has_video (flush_start f) = dx_has_video f"
  by (simp_all add: flush_start_def)

lemma take_segment_fields [simp]:
  "dx_keyframes (take_segment s f) = dx_keyframes f" "dx_parser (take_segment s f) = dx_parser f"
  "dx_segment (take_segment s f) = s" "os_discont (out S (take_segment s f))"
  by (cases S; simp add: take_segment_def discont_def Let_def)+

lemma seek_pull_flush:
  assumes "dbl_pos rate" "flags AND 1 \<noteq> 0"
    and "s = gst_segment_set_seek (dx_segment f) rate GST_FORMAT_TIME flags start_type start_at stop_type stop"
    and "seek_position E (u64 (seg_start s)) (flush_start f) = Some ((t, p), g)"
  shows "\<exists>h. flv_demux_seek_pull E rate GST_FORMAT_TIME flags start_type start_at stop_type stop f = Some (True, h)
    \<and> dx_parser h = (if p \<noteq> 0 then snd (flv_parser_seek (dx_parser g) p) else flv_parser_reset (dx_parser g))
    \<and> dx_segment h = keyframe_segment (flags AND 4 \<noteq> 0) t s \<and> dx_keyframes h = dx_keyframes g
    \<and> (\<forall>S. os_discont (out S h)) \<and> last (dx_calls h) = Task_Start"
proof -
  let ?p = "if p \<noteq> 0 then snd (flv_parser_seek (dx_parser g) p) else flv_parser_reset (dx_parser g)"
  let ?h = "tell Task_Start (take_segment (keyframe_segment (flags AND 4 \<noteq> 0) t s)
      (flv_demux_push_src_event Event_Flush_Stop (g\<lparr>dx_parser := ?p\<rparr>)))"
  have seg: "gst_segment_set_seek (dx_segment (flush_start f)) rate GST_FORMAT_TIME flags start_type start_at stop_type stop = s"
    using assms(3) by simp
  have "flv_demux_seek_pull E rate GST_FORMAT_TIME flags start_type start_at stop_type stop f = Some (True, ?h)"
    using assms(1,2) unfolding flv_demux_seek_pull_def Let_def flush_start_def [symmetric]
    using seg assms(4) by simp
  then show ?thesis by (intro exI [of _ ?h]) simp
qed

lemma seek_set:
  assumes "time_segment s" "seg_bounds s" "dbl_pos rate" "0 \<le> target" "stop = - 1 \<or> target \<le> stop"
    and "s' = gst_segment_set_seek s rate GST_FORMAT_TIME flags GST_SEEK_TYPE_SET target GST_SEEK_TYPE_SET stop"
  shows "seg_start s' = target" "seg_stop s' = stop" "time_segment s'" "seg_bounds s'" "seg_flags s' = flags"
proof -
  have "seg_format s = 3" "seg_duration s = - 1" using assms(1) by (simp_all add: time_segment_def)
  then show "seg_start s' = target" "seg_stop s' = stop" "seg_flags s' = flags"
    using assms by (auto simp: gst_segment_set_seek_def seek_start_def seek_stop_def in_range_def Let_def)
  show "time_segment s'" "seg_bounds s'" unfolding assms(6) by (rule set_seek_bounds [OF assms(1-3)])+
qed

lemma keyframe_seek:
  assumes "time_segment s" "seg_bounds s" "0 \<le> t" "t \<le> seg_start s" "seg_start s < 2 ^ 63"
  shows "seg_start (keyframe_segment True t s) = t" "seg_last_stop (keyframe_segment True t s) = t"
    "seg_stop (keyframe_segment True t s) = seg_stop s"
    "time_segment (keyframe_segment True t s)" "seg_bounds (keyframe_segment True t s)"
proof -
  have "i64 t = t" "u64 (seg_start s) = seg_start s" using assms by (simp_all add: i64_id)
  then show "seg_start (keyframe_segment True t s) = t" "seg_last_stop (keyframe_segment True t s) = t"
    "seg_stop (keyframe_segment True t s) = seg_stop s"
    "time_segment (keyframe_segment True t s)" "seg_bounds (keyframe_segment True t s)"
    using assms by (auto simp: keyframe_segment_def time_segment_def seg_bounds_def)
qed

text \<open>A target that the index surrounds, or that is at most five seconds after the key frame before it.\<close>

lemma seek_known:
  assumes "index_wf (dx_keyframes f)" "floor_entry (index_map (dx_keyframes f)) target (t, p)"
    and "u \<in> dom (index_map (dx_keyframes f))" "target \<le> u" "target \<le> t + 5 * GST_SECOND" "target < 2 ^ 63"
  shows "seek_position E target f = Some ((t, p), f)"
proof -
  have "t \<le> target" using assms(2) by (simp add: floor_entry_def)
  then have "u64 (target - t) = target - t" using assms(5) by simp
  then show ?thesis
    unfolding seek_position_def lookup_floor [OF assms(1-4)] using assms(5) by simp
qed

text \<open>A target after the index: the pass runs, and then the lookup fails again unless a new entry reaches it.\<close>

lemma seek_beyond:
  assumes "index_wf (dx_keyframes f)" "\<forall>u \<in> times (dx_keyframes f). u < target" "5 * GST_SECOND < target" "target < 2 ^ 63"
    and "flv_demux_index_lookup (dx_keyframes f) 0 = Some (Some (0, int (length pre)))"
    and "reads_file E (pre @ concat (List.map encode_item items))" "\<forall>it \<in> set items. item_ok it"
    and "int (length (pre @ concat (List.map encode_item items))) < 2 ^ 63"
    and "\<forall>it \<in> set (visited target items). indexed_item (dx_has_video f) it \<longrightarrow> media_time it < target"
  shows "\<exists>g. seek_position E target f = Some ((0, 0), g) \<and> dx_parser g = dx_parser f
    \<and> times (dx_keyframes g) = times (dx_keyframes f)
        \<union> media_time ` {it \<in> set (visited target items). indexed_item (dx_has_video f) it}"
proof -
  have "0 < target" using assms(3) by simp
  from indexing_file [OF assms(6-8,5) this] obtain b g where
    g: "flv_demux_do_indexing_pull E 0 target f = Some (b, g)"
      "g = f\<lparr>dx_keyframes := snd (index_items (dx_has_video f) target (int (length pre)) items (dx_keyframes f)), dx_calls := dx_calls g\<rparr>"
    by blast
  have ks: "dx_keyframes g = snd (index_items (dx_has_video f) target (int (length pre)) items (dx_keyframes f))"
    "dx_parser g = dx_parser f" by (subst g(2), simp)+
  have "flv_demux_index_lookup (dx_keyframes g) target = Some None"
    using assms(1,2,9) unfolding ks by (intro lookup_beyond) (auto simp: index_items_wf index_items_times)
  moreover have "u64 target = target" using assms(3,4) by simp
  ultimately have "seek_position E target f = Some ((0, 0), g)"
    unfolding seek_position_def lookup_beyond [OF assms(1,2)] using assms(3) g(1) by simp
  with ks show ?thesis by (auto simp: index_items_times)
qed

end
