(* ===== verification/Demux_Properties.thy ===== *)
theory Demux_Properties
  imports Demux_Seek Amf
begin

text \<open>
  The properties of the FLV demuxer, its index and its seeks, each followed by a witness. The witnesses
  run against a player: peers that accept everything, over a file that can be pulled.
\<close>

definition player :: "bytes \<Rightarrow> gst_env" where
  "player file = \<lparr>answer = (\<lambda>l c. case c of
       Pull_Range pos n \<Rightarrow> if pos < int (length file) then GST_FLOW_OK else GST_FLOW_UNEXPECTED
     | Pad_Alloc_Buffer S n \<Rightarrow> GST_FLOW_OK | Pad_Push S b \<Rightarrow> GST_FLOW_OK | _ \<Rightarrow> 1),
     pulled = (\<lambda>l pos n. take (nat n) (drop (nat pos) file)),
     env_conv = \<lparr>to_clock = (\<lambda>d. 0), to_gint = (\<lambda>d. 0), to_guint64 = (\<lambda>d. 0)\<rparr>,
     env_framerate = (\<lambda>d. 0), env_div_rate = (\<lambda>d r. d), uninit = 0\<rparr>"

lemma player_facts [simp]: "obliging (player file)" "reads_file (player file) file"
  by (simp_all add: player_def obliging_def reads_file_def)

text \<open>A key frame, a frame that depends on it, and a piece of sound, at a time in milliseconds.\<close>

abbreviation (input) key_at :: "jint \<Rightarrow> flv_item" where "key_at ts \<equiv> Video_Item ts 1 4 [0] [1, 2]"
abbreviation (input) frame_at :: "jint \<Rightarrow> flv_item" where "frame_at ts \<equiv> Video_Item ts 2 4 [0] [3]"
abbreviation (input) sound_at :: "jint \<Rightarrow> flv_item" where "sound_at ts \<equiv> Audio_Item ts 2 3 True True [] [4]"

lemma sample_items [simp]:
  "is_jint ts \<Longrightarrow> item_ok (key_at ts)" "is_jint ts \<Longrightarrow> item_ok (frame_at ts)" "is_jint ts \<Longrightarrow> item_ok (sound_at ts)"
  by (simp_all add: item_ok_def flv_video_codec_data_size_def flv_audio_format_data_size_def)

section \<open>Pushing data\<close>

text \<open>
  C4. Whatever the demuxer is asked to do and whatever its peers answer: the keyframe index stays
  strictly ordered by time, the parser never asks for an empty block, the buffers of each pad are numbered
  without a gap, the first one is marked as a discontinuity, and every buffer so marked directly follows a
  new segment on its pad.
\<close>

theorem demux_reachable:
  assumes "reached E f"
  shows "index_wf (dx_keyframes f) \<and> 4 \<le> next_block_size (dx_parser f) \<and> announced None (dx_calls f) \<and>
    (\<forall>S. let bs = pushes S (dx_calls f) in
       List.map ob_offset bs = List.map (\<lambda>i. u32 (int i)) [0..<length bs] \<and>
       List.map ob_offset_end bs = List.map (\<lambda>i. u32 (int i + 1)) [0..<length bs] \<and>
       (bs \<noteq> [] \<longrightarrow> ob_discont (hd bs)))"
  using reached_inv [OF assms] by (auto simp: dx_inv_def parser_safe_def stream_ok_def Let_def)

lemma chain_reached:
  "reached E f \<Longrightarrow> flv_demux_chain E buf off f = Some (r, g) \<Longrightarrow> reached E g"
  by (rule reached.action [of E f "Act_Chain buf off"]) (simp_all add: demux_act_def)

theorem demux_reachable_witness:
  "\<exists>f. reached (player []) f \<and> List.map ob_offset (pushes Video_Stream (dx_calls f)) = [0, 1]
    \<and> ob_discont (hd (pushes Video_Stream (dx_calls f)))"
proof -
  let ?is = "[key_at 0, frame_at 40]"
  have "file_ok [] [0, 0, 0, 0] ?is" "\<forall>it \<in> set ?is. script_ok it" by (simp_all add: file_ok_def is_jint_def)
  from demux_file [OF this, of "player []" False True 0, OF player_facts(1)] obtain f where
    f: "flv_demux_chain (player []) (encode_file False True [] [0, 0, 0, 0] ?is) 0 flv_demux_init = Some (GST_FLOW_OK, f)"
      "payloads Video_Stream f = concat (List.map (payload Video_Stream) ?is)" by blast
  have r: "reached (player []) f" by (rule chain_reached [OF reached.initial f(1)])
  have "length (payloads Video_Stream f) = 2" unfolding f(2) by (simp add: vp6_def)
  then have "length (pushes Video_Stream (dx_calls f)) = 2" by (simp add: payloads_def)
  with demux_reachable [OF r] r show ?thesis
    by (intro exI [of _ f]) (auto simp: Let_def numeral_2_eq_2 dest: spec [of _ Video_Stream])
qed

text \<open>
  C8. The index is a finite map from times to file positions kept in order: adding an entry inserts it
  unless its time is known already, and a lookup finds the last entry not after the time as long as some
  entry is at or after the time; it is FALSE exactly where the time lies outside of the entries.
\<close>

theorem index_refines_map:
  assumes "index_wf ks"
  shows "index_wf (flv_demux_index_add_entry ks t p)
    \<and> index_map (flv_demux_index_add_entry ks t p) = (if t \<in> dom (index_map ks) then index_map ks else (index_map ks)(t \<mapsto> p))
    \<and> (case flv_demux_index_lookup ks time of None \<Rightarrow> False
       | Some None \<Rightarrow> (\<forall>u \<in> dom (index_map ks). time < u) \<or> (\<forall>u \<in> dom (index_map ks). u < time)
       | Some (Some e) \<Rightarrow> floor_entry (index_map ks) time e \<and> (\<exists>u \<in> dom (index_map ks). time \<le> u))"
proof -
  have "case flv_demux_index_lookup ks time of None \<Rightarrow> False
       | Some None \<Rightarrow> (\<forall>u \<in> dom (index_map ks). time < u) \<or> (\<forall>u \<in> dom (index_map ks). u < time)
       | Some (Some e) \<Rightarrow> floor_entry (index_map ks) time e \<and> (\<exists>u \<in> dom (index_map ks). time \<le> u)"
    using lookup_cases [OF assms, of time] by (elim disjE exE conjE) simp_all
  with add_entry_wf [OF assms] add_entry_map [OF assms] show ?thesis by blast
qed

definition three_keys :: "keyframe list" where
  "three_keys = [\<lparr>kf_time = 0, kf_fileposition = 13\<rparr>, \<lparr>kf_time = 40, kf_fileposition = 70\<rparr>, \<lparr>kf_time = 90, kf_fileposition = 200\<rparr>]"

theorem index_refines_map_witness:
  "flv_demux_index_lookup three_keys 60 = Some (Some (40, 70)) \<and> floor_entry (index_map three_keys) 60 (40, 70)
    \<and> index_map (flv_demux_index_add_entry three_keys 60 100) 60 = Some 100"
proof -
  have w: "index_wf three_keys" by (simp add: three_keys_def)
  have l: "flv_demux_index_lookup three_keys 60 = Some (Some (40, 70))"
    by (simp add: three_keys_def flv_demux_index_lookup_def)
  have "60 \<notin> dom (index_map three_keys)" by (simp add: dom_index_map three_keys_def)
  with index_refines_map [OF w, of 60 100 60] l show ?thesis by simp
qed

text \<open>
  C3. A well-formed FLV file pushed through the demuxer between peers that accept everything: every
  supported packet comes out once on its pad, in the order of the file, with its bytes, its time and its key
  frame mark; every key frame is in the index; each entry of the index is that of a tag, with the tag's time
  and its offset in the file, or listed by the metadata, which without script tags lists nothing; nothing is
  left over and the parser waits for the next tag. The one thing asked of the script tags is \<open>script_ok\<close>: the
  counts of the arrays of a \<^verbatim>\<open>keyframes\<close> object differ by at most one, since the reader of such an object
  writes outside of its memory otherwise.
\<close>

theorem demux_whole_file:
  assumes "file_ok pad zero items" "\<forall>it \<in> set items. script_ok it" "obliging E"
  shows "\<exists>g. flv_demux_chain E (encode_file audio video pad zero items) off flv_demux_init = Some (GST_FLOW_OK, g)
    \<and> (\<forall>S. payloads S g = concat (List.map (payload S) items))
    \<and> (\<forall>it \<in> set items. key_frame it \<longrightarrow> media_time it \<in> dom (index_map (dx_keyframes g)))
    \<and> set (dx_keyframes g) \<subseteq> listed g \<union> set (tag_entries (int (length pad) + 13) items)
    \<and> ((\<forall>it \<in> set items. \<not> is_script it) \<longrightarrow> listed g = {})
    \<and> dx_adapter g = [] \<and> fp_state (dx_parser g) = FLV_PARSER_EXPECT_TAG_PREFIX"
  using demux_file [OF assms, of audio video off] unfolding between_def dom_index_map by blast

text \<open>The metadata of a seekable file: the times and the places of two key frames.\<close>

definition seekable_tag :: flv_item where
  "seekable_tag = Script_Item 0 (on_meta_data 1 [(ascii ''keyframes'', Amf_Object
     [(ascii ''times'', Amf_Strict [Amf_Number 0, Amf_Number 9]),
      (ascii ''filepositions'', Amf_Strict [Amf_Number 13, Amf_Number 700])])])"

lemma seekable_tag_ok: "item_ok seekable_tag" "script_ok seekable_tag"
proof -
  have "length (item_body seekable_tag) = 104" by code_simp
  then show "item_ok seekable_tag" by (simp add: item_ok_def) (simp add: seekable_tag_def is_jint_def)
  show "script_ok seekable_tag" by code_simp
qed

theorem demux_whole_file_witness:
  "(\<exists>g. flv_demux_chain (player []) (encode_file True True [7] [0, 0, 0, 0] [key_at 0, sound_at 10, frame_at 40]) 0 flv_demux_init
      = Some (GST_FLOW_OK, g)
    \<and> payloads Video_Stream g = [(0, [1, 2], False), (40000000, [3], True)]
    \<and> payloads Audio_Stream g = [(10000000, [4], False)] \<and> index_map (dx_keyframes g) 0 = Some 14)
    \<and> (\<exists>g. flv_demux_chain (player []) (encode_file True True [] [0, 0, 0, 0] [seekable_tag, key_at 0]) 0 flv_demux_init
      = Some (GST_FLOW_OK, g) \<and> payloads Video_Stream g = [(0, [1, 2], False)])"
proof
  let ?is = "[key_at 0, sound_at 10, frame_at 40]"
  have "file_ok [7] [0, 0, 0, 0] ?is" "\<forall>it \<in> set ?is. script_ok it" by (simp_all add: file_ok_def is_jint_def)
  from demux_whole_file [OF this, of "player []" True True 0, OF player_facts(1)] obtain g where
    g: "flv_demux_chain (player []) (encode_file True True [7] [0, 0, 0, 0] ?is) 0 flv_demux_init = Some (GST_FLOW_OK, g)"
      "\<forall>S. payloads S g = concat (List.map (payload S) ?is)"
      "\<forall>it \<in> set ?is. key_frame it \<longrightarrow> media_time it \<in> dom (index_map (dx_keyframes g))"
      "set (dx_keyframes g) \<subseteq> listed g \<union> set (tag_entries (int (length [7 :: jbyte]) + 13) ?is)"
      "(\<forall>it \<in> set ?is. \<not> is_script it) \<longrightarrow> listed g = {}" by blast
  have "media_time (key_at 0) \<in> dom (index_map (dx_keyframes g))" using g(3) by (simp add: vp6_def)
  then have d: "0 \<in> dom (index_map (dx_keyframes g))" by (simp add: media_time_def)
  have "set (dx_keyframes g) \<subseteq> set (tag_entries 14 ?is)" using g(4,5) by simp
  then have e: "kf_fileposition e = 14" if "e \<in> set (dx_keyframes g)" "kf_time e = 0" for e
    using that by (auto simp: media_time_def vp6_def)
  obtain q where q: "index_map (dx_keyframes g) 0 = Some q" using d by (auto simp: dom_def)
  then have "(0, q) \<in> (\<lambda>e. (kf_time e, kf_fileposition e)) ` set (dx_keyframes g)"
    unfolding index_map_def by (auto dest!: map_of_SomeD)
  then have "index_map (dx_keyframes g) 0 = Some 14" using e q by auto
  moreover have "payloads Video_Stream g = [(0, [1, 2], False), (40000000, [3], True)]"
    "payloads Audio_Stream g = [(10000000, [4], False)]"
    unfolding g(2) [THEN spec] by (simp_all add: vp6_def)
  ultimately show "\<exists>g. flv_demux_chain (player []) (encode_file True True [7] [0, 0, 0, 0] ?is) 0 flv_demux_init = Some (GST_FLOW_OK, g)
    \<and> payloads Video_Stream g = [(0, [1, 2], False), (40000000, [3], True)]
    \<and> payloads Audio_Stream g = [(10000000, [4], False)] \<and> index_map (dx_keyframes g) 0 = Some 14" using g(1) by blast
next
  let ?is = "[seekable_tag, key_at 0]"
  have "file_ok [] [0, 0, 0, 0] ?is" "\<forall>it \<in> set ?is. script_ok it"
    using seekable_tag_ok by (simp_all add: file_ok_def is_jint_def)
  from demux_whole_file [OF this, of "player []" True True 0, OF player_facts(1)] obtain g where
    g: "flv_demux_chain (player []) (encode_file True True [] [0, 0, 0, 0] ?is) 0 flv_demux_init = Some (GST_FLOW_OK, g)"
      "\<forall>S. payloads S g = concat (List.map (payload S) ?is)" by blast
  have "payloads Video_Stream g = [(0, [1, 2], False)]" unfolding g(2) [THEN spec] by (simp add: vp6_def seekable_tag_def)
  then show "\<exists>g. flv_demux_chain (player []) (encode_file True True [] [0, 0, 0, 0] ?is) 0 flv_demux_init
      = Some (GST_FLOW_OK, g) \<and> payloads Video_Stream g = [(0, [1, 2], False)]" using g(1) by blast
qed

section \<open>Seeking\<close>

text \<open>
  C10. A flushing key-unit seek to a time the index surrounds, at most five seconds after the key frame
  before it: the parser goes to that key frame, the segment starts and continues there and stops where
  asked, its bounds stay in order, both streams are marked discontinuous and the task is started.
\<close>

theorem seek_to_keyframe:
  assumes "index_wf (dx_keyframes f)" "dx_is_pulling f" "time_segment (dx_segment f)" "seg_bounds (dx_segment f)"
    and "dbl_pos rate" "flags AND 1 \<noteq> 0" "flags AND 4 \<noteq> 0" "target < 2 ^ 63" "stop = - 1 \<or> target \<le> stop"
    and "floor_entry (index_map (dx_keyframes f)) target (t, p)" "0 \<le> t" "p \<noteq> 0" "target \<le> t + 5 * GST_SECOND"
    and "u \<in> dom (index_map (dx_keyframes f))" "target \<le> u"
  shows "\<exists>g. flv_demux_src_event E (Event_Seek rate GST_FORMAT_TIME flags GST_SEEK_TYPE_SET target GST_SEEK_TYPE_SET stop) f
      = Some (True, g)
    \<and> dx_parser g = snd (flv_parser_seek (dx_parser f) p) \<and> dx_keyframes g = dx_keyframes f
    \<and> seg_start (dx_segment g) = t \<and> seg_last_stop (dx_segment g) = t \<and> seg_stop (dx_segment g) = stop
    \<and> time_segment (dx_segment g) \<and> seg_bounds (dx_segment g)
    \<and> (\<forall>S. os_discont (out S g)) \<and> last (dx_calls g) = Task_Start"
proof -
  define s where "s = gst_segment_set_seek (dx_segment f) rate GST_FORMAT_TIME flags GST_SEEK_TYPE_SET target GST_SEEK_TYPE_SET stop"
  have t: "t \<le> target" "0 \<le> target" using assms(10,11) by (auto simp: floor_entry_def)
  note s = seek_set [OF assms(3-5) t(2) assms(9) s_def]
  have "u64 (seg_start s) = target" using s(1) t(2) assms(8) by simp
  then have "seek_position E (u64 (seg_start s)) (flush_start f) = Some ((t, p), flush_start f)"
    using seek_known [of "flush_start f" target t p u E] assms(1,8,10,13-15) by simp
  from seek_pull_flush [OF assms(5,6) s_def this] obtain g where
    g: "flv_demux_seek_pull E rate GST_FORMAT_TIME flags GST_SEEK_TYPE_SET target GST_SEEK_TYPE_SET stop f = Some (True, g)"
      "dx_parser g = snd (flv_parser_seek (dx_parser f) p)" "dx_segment g = keyframe_segment True t s"
      "dx_keyframes g = dx_keyframes f" "\<forall>S. os_discont (out S g)" "last (dx_calls g) = Task_Start"
    using assms(7,12) by auto
  have "t \<le> seg_start s" "seg_start s < 2 ^ 63" using s(1) t(1) assms(8) by simp_all
  note k = keyframe_seek [OF s(3,4) assms(11) this]
  show ?thesis using g k s(2) assms(2) by (intro exI [of _ g]) (simp add: flv_demux_src_event_def)
qed

definition pulling :: "keyframe list \<Rightarrow> flv_demux" where
  "pulling ks = flv_demux_init\<lparr>dx_is_pulling := True, dx_has_video := True, dx_keyframes := ks\<rparr>"

lemma pulling_facts [simp]:
  "dx_is_pulling (pulling ks)" "dx_keyframes (pulling ks) = ks" "dx_has_video (pulling ks)"
  "time_segment (dx_segment (pulling ks))" "seg_bounds (dx_segment (pulling ks))" "dx_parser (pulling ks) = flv_parser_init"
  by (simp_all add: pulling_def flv_demux_init_def)

theorem seek_to_keyframe_witness:
  "\<exists>g. flv_demux_src_event (player []) (Event_Seek dbl_one GST_FORMAT_TIME 5 GST_SEEK_TYPE_SET 60 GST_SEEK_TYPE_SET 80)
      (pulling three_keys) = Some (True, g)
    \<and> file_position (dx_parser g) = 70 \<and> seg_start (dx_segment g) = 40 \<and> seg_stop (dx_segment g) = 80"
proof -
  have w: "index_wf three_keys" by (simp add: three_keys_def)
  have i: "90 \<in> dom (index_map three_keys)" by (simp add: dom_index_map three_keys_def)
  have fl: "floor_entry (index_map three_keys) 60 (40, 70)"
    by (simp add: floor_entry_def dom_index_map) (simp add: three_keys_def index_map_def)
  have "\<exists>g. flv_demux_src_event (player []) (Event_Seek dbl_one GST_FORMAT_TIME 5 GST_SEEK_TYPE_SET 60 GST_SEEK_TYPE_SET 80)
      (pulling three_keys) = Some (True, g)
    \<and> dx_parser g = snd (flv_parser_seek (dx_parser (pulling three_keys)) 70) \<and> dx_keyframes g = dx_keyframes (pulling three_keys)
    \<and> seg_start (dx_segment g) = 40 \<and> seg_last_stop (dx_segment g) = 40 \<and> seg_stop (dx_segment g) = 80
    \<and> time_segment (dx_segment g) \<and> seg_bounds (dx_segment g)
    \<and> (\<forall>S. os_discont (out S g)) \<and> last (dx_calls g) = Task_Start"
    by (rule seek_to_keyframe [where u = 90]) (use w i fl in simp_all)
  then show ?thesis by (auto simp: flv_parser_seek_def)
qed

text \<open>
  C9. Indexing ends: from a known key frame of a well-formed file it goes over the tags up to the first
  one that reaches the wanted time, adds exactly the key frames it passes (every piece of sound if there is
  no video), each with its time and its place in the file, and reports whether the time was reached.
\<close>

theorem indexing_complete:
  assumes "index_wf (dx_keyframes f)" "reads_file E (pre @ concat (List.map encode_item items))"
    and "\<forall>it \<in> set items. item_ok it" "int (length (pre @ concat (List.map encode_item items))) < 2 ^ 63"
    and "flv_demux_index_lookup (dx_keyframes f) from = Some (Some (t, int (length pre)))" "t < to"
  shows "\<exists>g. flv_demux_do_indexing_pull E from to f = Some (\<exists>it \<in> set items. to \<le> media_time it, g)
    \<and> index_wf (dx_keyframes g) \<and> dx_parser g = dx_parser f
    \<and> times (dx_keyframes g) = times (dx_keyframes f) \<union> media_time ` {it \<in> set (visited to items). indexed_item (dx_has_video f) it}
    \<and> (\<forall>e \<in> set (dx_keyframes g). e \<in> set (dx_keyframes f) \<or> entry_at (dx_has_video f) (int (length pre)) items e)"
proof -
  let ?r = "index_items (dx_has_video f) to (int (length pre)) items (dx_keyframes f)"
  from indexing_file [OF assms(2-6)] obtain g where
    g: "flv_demux_do_indexing_pull E from to f = Some (fst ?r, g)"
      "g = f\<lparr>dx_keyframes := snd ?r, dx_calls := dx_calls g\<rparr>" by blast
  have "dx_keyframes g = snd ?r" "dx_parser g = dx_parser f" by (subst g(2), simp)+
  with g(1) show ?thesis
    using index_items_wf [OF assms(1)] index_items_entries
    by (intro exI [of _ g]) (auto simp: index_items_reach index_items_times)
qed

definition sample_tags :: "flv_item list" where
  "sample_tags = [key_at 0, sound_at 10, frame_at 40, key_at 3000, frame_at 3040, sound_at 7000, key_at 9000]"

definition first_key :: "keyframe list" where "first_key = [\<lparr>kf_time = 0, kf_fileposition = 1\<rparr>]"

lemma sample_facts [simp]:
  "\<forall>it \<in> set sample_tags. item_ok it" "index_wf first_key"
  "length (concat (List.map encode_item sample_tags)) = 127"
  "flv_demux_index_lookup first_key 0 = Some (Some (0, int (length [9 :: jbyte])))"
  by (simp_all add: sample_tags_def first_key_def is_jint_def encode_item_def flv_demux_index_lookup_def)

lemma sample_visited:
  "visited 6000000000 sample_tags = [key_at 0, sound_at 10, frame_at 40, key_at 3000, frame_at 3040, sound_at 7000]"
  by (simp add: sample_tags_def media_time_def)

lemma sample_indexed:
  "media_time ` {it \<in> set (visited 6000000000 sample_tags). indexed_item True it} = {0, 3000000000}"
  unfolding sample_visited set_filter [symmetric] by (simp add: media_time_def)

theorem indexing_complete_witness:
  "\<exists>g. flv_demux_do_indexing_pull (player ([9] @ concat (List.map encode_item sample_tags))) 0 6000000000 (pulling first_key)
      = Some (True, g)
    \<and> times (dx_keyframes g) = {0, 3000000000}"
proof -
  let ?E = "player ([9] @ concat (List.map encode_item sample_tags))"
  have r: "\<exists>it \<in> set sample_tags. 6000000000 \<le> media_time it" by (simp add: sample_tags_def media_time_def)
  have k: "times first_key = {0}" by (simp add: first_key_def)
  obtain g where g: "flv_demux_do_indexing_pull ?E 0 6000000000 (pulling first_key)
      = Some (\<exists>it \<in> set sample_tags. 6000000000 \<le> media_time it, g)"
    "times (dx_keyframes g) = times (dx_keyframes (pulling first_key))
        \<union> media_time ` {it \<in> set (visited 6000000000 sample_tags). indexed_item (dx_has_video (pulling first_key)) it}"
    using indexing_complete [of "pulling first_key" ?E "[9]" sample_tags 0 0 6000000000] by auto
  have "times (dx_keyframes g) = {0, 3000000000}" using g(2) k by (auto simp: sample_indexed)
  with g(1) r show ?thesis by (intro exI [of _ g]) simp
qed

text \<open>
  C11. A seek past the last known key frame loses what indexing finds: if none of the tags the indexing
  passes is a key frame at or after the target, the key frames before the target enter the index, but the
  seek returns to the beginning of the file and moves the start of the segment to zero.
\<close>

theorem seek_past_index:
  assumes "index_wf (dx_keyframes f)" "dx_is_pulling f" "time_segment (dx_segment f)" "seg_bounds (dx_segment f)"
    and "dbl_pos rate" "flags AND 1 \<noteq> 0" "flags AND 4 \<noteq> 0"
    and "5 * GST_SECOND < target" "target < 2 ^ 63" "stop = - 1 \<or> target \<le> stop"
    and "\<forall>u \<in> dom (index_map (dx_keyframes f)). u < target"
    and "flv_demux_index_lookup (dx_keyframes f) 0 = Some (Some (0, int (length pre)))"
    and "reads_file E (pre @ concat (List.map encode_item items))" "\<forall>it \<in> set items. item_ok it"
    and "int (length (pre @ concat (List.map encode_item items))) < 2 ^ 63"
    and "\<forall>it \<in> set (visited target items). indexed_item (dx_has_video f) it \<longrightarrow> media_time it < target"
  shows "\<exists>g. flv_demux_src_event E (Event_Seek rate GST_FORMAT_TIME flags GST_SEEK_TYPE_SET target GST_SEEK_TYPE_SET stop) f
      = Some (True, g)
    \<and> dx_parser g = flv_parser_reset (dx_parser f) \<and> seg_start (dx_segment g) = 0 \<and> seg_last_stop (dx_segment g) = 0
    \<and> (\<forall>it \<in> set (visited target items). indexed_item (dx_has_video f) it \<longrightarrow> media_time it \<in> dom (index_map (dx_keyframes g)))"
proof -
  define s where "s = gst_segment_set_seek (dx_segment f) rate GST_FORMAT_TIME flags GST_SEEK_TYPE_SET target GST_SEEK_TYPE_SET stop"
  have t: "0 \<le> target" using assms(8) by simp
  note s = seek_set [OF assms(3-5) t assms(10) s_def]
  have target: "u64 (seg_start s) = target" using s(1) t assms(9) by simp
  obtain h where h: "seek_position E target (flush_start f) = Some ((0, 0), h)" "dx_parser h = dx_parser f"
      "times (dx_keyframes h) = times (dx_keyframes f) \<union> media_time ` {it \<in> set (visited target items). indexed_item (dx_has_video f) it}"
    using seek_beyond [of "flush_start f" target pre E items] assms(1,8,9,11-16) by (auto simp: dom_index_map)
  from seek_pull_flush [OF assms(5,6) s_def h(1) [folded target]] obtain g where
    g: "flv_demux_seek_pull E rate GST_FORMAT_TIME flags GST_SEEK_TYPE_SET target GST_SEEK_TYPE_SET stop f = Some (True, g)"
      "dx_parser g = flv_parser_reset (dx_parser f)" "dx_segment g = keyframe_segment True 0 s" "dx_keyframes g = dx_keyframes h"
    using assms(7) h(2) by auto
  have "0 \<le> seg_start s" "seg_start s < 2 ^ 63" using s(1) t assms(9) by simp_all
  note k = keyframe_seek [OF s(3,4) order_refl this]
  show ?thesis
    using g k assms(2) h(3) by (intro exI [of _ g]) (auto simp: flv_demux_src_event_def dom_index_map)
qed

theorem seek_past_index_witness:
  "\<exists>g. flv_demux_src_event (player ([9] @ concat (List.map encode_item sample_tags)))
      (Event_Seek dbl_one GST_FORMAT_TIME 5 GST_SEEK_TYPE_SET 6000000000 GST_SEEK_TYPE_SET (- 1)) (pulling first_key)
      = Some (True, g)
    \<and> file_position (dx_parser g) = 0 \<and> fp_state (dx_parser g) = FLV_PARSER_EXPECT_HEADER \<and> seg_start (dx_segment g) = 0
    \<and> 3000000000 \<in> dom (index_map (dx_keyframes g))"
proof -
  let ?E = "player ([9] @ concat (List.map encode_item sample_tags))"
  let ?ev = "Event_Seek dbl_one GST_FORMAT_TIME 5 GST_SEEK_TYPE_SET 6000000000 GST_SEEK_TYPE_SET (- 1)"
  have d: "\<forall>u \<in> dom (index_map first_key). u < 6000000000" by (simp add: dom_index_map first_key_def)
  have v: "\<forall>it \<in> set (visited 6000000000 sample_tags). indexed_item True it \<longrightarrow> media_time it < 6000000000"
    unfolding sample_visited by (simp add: media_time_def)
  have "\<exists>g. flv_demux_src_event ?E ?ev (pulling first_key) = Some (True, g)
    \<and> dx_parser g = flv_parser_reset (dx_parser (pulling first_key)) \<and> seg_start (dx_segment g) = 0 \<and> seg_last_stop (dx_segment g) = 0
    \<and> (\<forall>it \<in> set (visited 6000000000 sample_tags). indexed_item (dx_has_video (pulling first_key)) it \<longrightarrow>
        media_time it \<in> dom (index_map (dx_keyframes g)))"
    by (rule seek_past_index [where pre = "[9]"]) (use d v in simp_all)
  moreover have "media_time (key_at 3000) = 3000000000" by (simp add: media_time_def)
  moreover have "key_at 3000 \<in> set (visited 6000000000 sample_tags)" unfolding sample_visited by simp
  ultimately show ?thesis by (fastforce simp: flv_parser_reset_def)
qed

end
