(* ===== verification/Byte_Rows.thy ===== *)
theory Byte_Rows
  imports Prelude
begin

text \<open>
  Blocks of elements loaded from and stored into an array at once, and images written two rows at a
  time: \<open>pair_map\<close> is the state of a loop that has converted the first part of two rows.
\<close>

section \<open>Blocks\<close>

definition load :: "nat \<Rightarrow> 'a list \<Rightarrow> int \<Rightarrow> 'a list option" where
  "load n xs off = (if 0 \<le> off \<and> off + int n \<le> int (length xs) then Some (take n (drop (nat off) xs)) else None)"

definition patch :: "'a list \<Rightarrow> nat \<Rightarrow> 'a list \<Rightarrow> 'a list" where
  "patch xs off bs = take off xs @ bs @ drop (off + length bs) xs"

definition store :: "'a list \<Rightarrow> int \<Rightarrow> 'a list \<Rightarrow> 'a list option" where
  "store xs off bs = (if 0 \<le> off \<and> off + int (length bs) \<le> int (length xs) then Some (patch xs (nat off) bs) else None)"

lemma load_in [mem_simps]: "0 \<le> off \<Longrightarrow> off + int n \<le> int (length xs) \<Longrightarrow> load n xs off = Some (take n (drop (nat off) xs))"
  by (simp add: load_def)

lemma store_in [mem_simps]:
  "0 \<le> off \<Longrightarrow> off + int (length bs) \<le> int (length xs) \<Longrightarrow> store xs off bs = Some (patch xs (nat off) bs)"
  by (simp add: store_def)

lemma length_patch [simp]: "off + length bs \<le> length xs \<Longrightarrow> length (patch xs off bs) = length xs"
  by (simp add: patch_def)

lemma nth_patch:
  "off + length bs \<le> length xs \<Longrightarrow> k < length xs \<Longrightarrow>
    patch xs off bs ! k = (if off \<le> k \<and> k < off + length bs then bs ! (k - off) else xs ! k)"
  by (auto simp: patch_def nth_append min_def)

lemma length_store: "store xs off bs = Some ys \<Longrightarrow> length ys = length xs"
  by (auto simp: store_def split: if_splits)

lemma less_8: "i < 8 \<longleftrightarrow> i = 0 \<or> i = 1 \<or> i = 2 \<or> i = 3 \<or> i = 4 \<or> i = 5 \<or> i = 6 \<or> i = (7 :: nat)"
  by auto

section \<open>One row\<close>

lemma slice_map_patch:
  assumes "slice_map d w (\<lambda>i _. g i) xs ys" "0 \<le> d" "0 \<le> w" "d + w + int n \<le> int (length xs)" "length bs = n"
    and "\<And>i. i < n \<Longrightarrow> bs ! i = g (w + int i)"
  shows "slice_map d (w + int n) (\<lambda>i _. g i) xs (patch ys (nat (d + w)) bs)"
  unfolding slice_map_def
proof (intro conjI allI impI)
  have l: "length ys = length xs" using assms(1) by (rule slice_map_length)
  have b: "nat (d + w) + length bs \<le> length ys" using assms(2-5) l by linarith
  show "length (patch ys (nat (d + w)) bs) = length xs" using b l by simp
  fix k assume k: "k < length xs"
  have old: "ys ! k = (if d \<le> int k \<and> int k < d + w then g (int k - d) else xs ! k)"
    using slice_map_nth [OF assms(1) k] by simp
  have c: "nat (d + w) \<le> k \<and> k < nat (d + w) + n \<longleftrightarrow> d + w \<le> int k \<and> int k < d + w + int n"
    using assms(2,3) by linarith
  have "patch ys (nat (d + w)) bs ! k = (if nat (d + w) \<le> k \<and> k < nat (d + w) + n then bs ! (k - nat (d + w)) else ys ! k)"
    using b k l assms(5) by (simp add: nth_patch)
  note new = this [unfolded c]
  show "patch ys (nat (d + w)) bs ! k = (if d \<le> int k \<and> int k < d + (w + int n) then g (int k - d) else xs ! k)"
  proof (cases "d + w \<le> int k \<and> int k < d + w + int n")
    case True
    then have "k - nat (d + w) < n" "w + int (k - nat (d + w)) = int k - d" using assms(2,3) by linarith+
    with assms(6) [of "k - nat (d + w)"] True new assms(2,3) show ?thesis by simp
  next
    case False
    then have "patch ys (nat (d + w)) bs ! k = ys ! k" using new by auto
    with False old assms(2,3) show ?thesis by auto
  qed
qed

section \<open>Two rows\<close>

definition pair_map :: "int \<Rightarrow> int \<Rightarrow> int \<Rightarrow> (int \<Rightarrow> 'a) \<Rightarrow> (int \<Rightarrow> 'a) \<Rightarrow> 'a list \<Rightarrow> 'a list \<Rightarrow> bool" where
  "pair_map d1 d2 w g1 g2 xs ys \<longleftrightarrow> length ys = length xs \<and> (\<forall>k < length xs. ys ! k =
     (if d1 \<le> int k \<and> int k < d1 + w then g1 (int k - d1)
      else if d2 \<le> int k \<and> int k < d2 + w then g2 (int k - d2) else xs ! k))"

lemma pair_map_length: "pair_map d1 d2 w g1 g2 xs ys \<Longrightarrow> length ys = length xs"
  by (simp add: pair_map_def)

lemma pair_map_none [simp]: "pair_map d1 d2 0 g1 g2 xs xs"
  by (auto simp: pair_map_def)

lemma pair_map_patch:
  assumes "pair_map d1 d2 w g1 g2 xs ys" "0 \<le> d1" "0 \<le> w" "d1 + w + int n \<le> d2" "d2 + w + int n \<le> int (length xs)"
    and "length bs = n" "length cs = n"
    and "\<And>i. i < n \<Longrightarrow> bs ! i = g1 (w + int i)" "\<And>i. i < n \<Longrightarrow> cs ! i = g2 (w + int i)"
  shows "pair_map d1 d2 (w + int n) g1 g2 xs (patch (patch ys (nat (d1 + w)) bs) (nat (d2 + w)) cs)"
  unfolding pair_map_def
proof (intro conjI allI impI)
  have l: "length ys = length xs" using assms(1) by (rule pair_map_length)
  have b: "nat (d1 + w) + length bs \<le> length ys" "nat (d2 + w) + length cs \<le> length ys"
    using assms(2-7) l by linarith+
  show "length (patch (patch ys (nat (d1 + w)) bs) (nat (d2 + w)) cs) = length xs" using b l by simp
  fix k assume k: "k < length xs"
  have old: "ys ! k = (if d1 \<le> int k \<and> int k < d1 + w then g1 (int k - d1)
      else if d2 \<le> int k \<and> int k < d2 + w then g2 (int k - d2) else xs ! k)"
    using assms(1) k by (simp add: pair_map_def)
  have c: "nat (d2 + w) \<le> k \<and> k < nat (d2 + w) + n \<longleftrightarrow> d2 + w \<le> int k \<and> int k < d2 + w + int n"
    "nat (d1 + w) \<le> k \<and> k < nat (d1 + w) + n \<longleftrightarrow> d1 + w \<le> int k \<and> int k < d1 + w + int n"
    using assms(2-4) by linarith+
  have "patch (patch ys (nat (d1 + w)) bs) (nat (d2 + w)) cs ! k =
      (if nat (d2 + w) \<le> k \<and> k < nat (d2 + w) + n then cs ! (k - nat (d2 + w))
       else if nat (d1 + w) \<le> k \<and> k < nat (d1 + w) + n then bs ! (k - nat (d1 + w)) else ys ! k)"
    using b k l assms(6,7) by (simp add: nth_patch)
  note new = this [unfolded c]
  consider (two) "d2 + w \<le> int k" "int k < d2 + w + int n" | (one) "d1 + w \<le> int k" "int k < d1 + w + int n"
    | (out) "\<not> (d2 + w \<le> int k \<and> int k < d2 + w + int n)" "\<not> (d1 + w \<le> int k \<and> int k < d1 + w + int n)" by blast
  then show "patch (patch ys (nat (d1 + w)) bs) (nat (d2 + w)) cs ! k =
      (if d1 \<le> int k \<and> int k < d1 + (w + int n) then g1 (int k - d1)
       else if d2 \<le> int k \<and> int k < d2 + (w + int n) then g2 (int k - d2) else xs ! k)"
  proof cases
    case two
    then have "k - nat (d2 + w) < n" "w + int (k - nat (d2 + w)) = int k - d2" using assms(2-4) by linarith+
    with assms(9) [of "k - nat (d2 + w)"] show ?thesis using two new assms(2-4) by simp
  next
    case one
    then have "k - nat (d1 + w) < n" "w + int (k - nat (d1 + w)) = int k - d1" using assms(2-4) by linarith+
    with assms(8) [of "k - nat (d1 + w)"] show ?thesis using one new assms(2-4) by simp
  next
    case out
    then have "patch (patch ys (nat (d1 + w)) bs) (nat (d2 + w)) cs ! k = ys ! k" using new assms(2-4) by auto
    with out old assms(2-4) show ?thesis by auto
  qed
qed

lemma pair_map_slices:
  assumes "pair_map d1 d2 w g1 g2 xs ys" "d1 + w \<le> d2"
  shows "\<exists>zs. slice_map d1 w (\<lambda>i _. g1 i) xs zs \<and> slice_map d2 w (\<lambda>i _. g2 i) zs ys"
proof -
  let ?z = "List.map (\<lambda>k. if d1 \<le> int k \<and> int k < d1 + w then g1 (int k - d1) else xs ! k) [0..<length xs]"
  have "slice_map d1 w (\<lambda>i _. g1 i) xs ?z" by (simp add: slice_map_def)
  moreover have "slice_map d2 w (\<lambda>i _. g2 i) ?z ys"
    using assms unfolding slice_map_def pair_map_def by auto
  ultimately show ?thesis by blast
qed

lemma rect_map_pair:
  assumes "rect_map off stride 0 w h (\<lambda>j i _. G j i) xs ys"
    and "pair_map (off + h * stride) (off + (h + 1) * stride) w (G h) (G (h + 1)) ys zs"
    and "0 \<le> h" "w \<le> stride" "0 < stride"
  shows "rect_map off stride 0 w (h + 2) (\<lambda>j i _. G j i) xs zs"
proof -
  have "off + h * stride + w \<le> off + (h + 1) * stride" using assms(4) by (simp add: algebra_simps)
  from pair_map_slices [OF assms(2) this] obtain m where
    m: "slice_map (off + h * stride) w (\<lambda>i _. G h i) ys m" "slice_map (off + (h + 1) * stride) w (\<lambda>i _. G (h + 1) i) m zs"
    by blast
  have "rect_map off stride 0 w (h + 1) (\<lambda>j i _. G j i) xs m"
    using rect_map_snoc [OF assms(1), of m] m(1) assms(3-5) by simp
  from rect_map_snoc [OF this, of zs] m(2) assms(3-5) have "rect_map off stride 0 w (h + 1 + 1) (\<lambda>j i _. G j i) xs zs"
    by simp
  then show ?thesis by (simp add: add.assoc)
qed

end
