(* ===== verification/Sse2.thy ===== *)
theory Sse2
  imports Byte_Rows
begin

text \<open>
  The SSE2 intrinsics of \<^verbatim>\<open>emmintrin.h\<close> that \<^verbatim>\<open>jfxmedia/Utils/ColorConverter.c\<close> uses, as the instruction
  set documents them. A register is the list of its sixteen bytes, lowest address first; the sixteen-bit
  operations read it as eight little-endian words. A plane is an address and the bytes from there on.
\<close>

type_synonym m128 = "jbyte list"

type_synonym plane = "int \<times> jbyte list"

section \<open>Lanes\<close>

definition wide :: "jbyte \<Rightarrow> jbyte \<Rightarrow> 16 word" where "wide l h = word_of_int (uint l + 256 * uint h)"

definition low8 :: "16 word \<Rightarrow> jbyte" where "low8 w = word_of_int (uint w)"

definition high8 :: "16 word \<Rightarrow> jbyte" where "high8 w = word_of_int (uint w div 256)"

fun lanes :: "m128 \<Rightarrow> 16 word list" where
  "lanes (l # h # bs) = wide l h # lanes bs"
| "lanes _ = []"

primrec unlanes :: "16 word list \<Rightarrow> m128" where
  "unlanes [] = []"
| "unlanes (w # ws) = low8 w # high8 w # unlanes ws"

lemma wide_split [simp]: "wide (low8 w) (high8 w) = w"
proof -
  have w: "0 \<le> uint w" "uint w < 65536" using uint_lt2p [of w] by simp_all
  have "uint (low8 w) = uint w mod 256" "uint (high8 w) = (uint w div 256) mod 256"
    unfolding low8_def high8_def uint_word_of_int by simp_all
  moreover have "(uint w div 256) mod 256 = uint w div 256" using w by (intro mod_pos_pos_trivial) linarith+
  ultimately have "uint (low8 w) + 256 * uint (high8 w) = uint w" by simp
  then show ?thesis by (simp add: wide_def)
qed

lemma byte_bounds: "0 \<le> uint (b :: jbyte)" "uint (b :: jbyte) < 256"
  using uint_lt2p [of b] by simp_all

lemma uint_wide: "uint (wide l h) = uint l + 256 * uint h"
  using byte_bounds [of l] byte_bounds [of h] unfolding wide_def uint_word_of_int by simp

lemma split_wide [simp]: "low8 (wide l h) = l" "high8 (wide l h) = h"
  using byte_bounds [of l] byte_bounds [of h]
  unfolding low8_def high8_def uint_wide word_uint_eq_iff uint_word_of_int by simp_all

lemma lanes_unlanes [simp]: "lanes (unlanes ws) = ws"
  by (induction ws) simp_all

lemma length_unlanes [simp]: "length (unlanes ws) = 2 * length ws"
  by (induction ws) simp_all

section \<open>Intrinsics\<close>

definition mm_set1_epi8 :: "jbyte \<Rightarrow> m128" where "mm_set1_epi8 b = replicate 16 b"

definition mm_set1_epi16 :: "16 word \<Rightarrow> m128" where "mm_set1_epi16 w = unlanes (replicate 8 w)"

definition mm_setzero_si128 :: m128 where "mm_setzero_si128 = replicate 16 0"

definition unpack :: "nat \<Rightarrow> nat \<Rightarrow> m128 \<Rightarrow> m128 \<Rightarrow> m128" where
  "unpack k base a b = concat (List.map (\<lambda>i. take k (drop (base + k * i) a) @ take k (drop (base + k * i) b)) [0..<8 div k])"

definition "mm_unpacklo_epi8 = unpack 1 0"
definition "mm_unpackhi_epi8 = unpack 1 8"
definition "mm_unpacklo_epi16 = unpack 2 0"
definition "mm_unpackhi_epi16 = unpack 2 8"
definition "mm_unpacklo_epi32 = unpack 4 0"
definition "mm_unpackhi_epi32 = unpack 4 8"
definition "mm_unpacklo_epi64 = unpack 8 0"
definition "mm_unpackhi_epi64 = unpack 8 8"

definition lanewise :: "(16 word \<Rightarrow> 16 word \<Rightarrow> 16 word) \<Rightarrow> m128 \<Rightarrow> m128 \<Rightarrow> m128" where
  "lanewise f a b = unlanes (map2 f (lanes a) (lanes b))"

definition mulhi :: "16 word \<Rightarrow> 16 word \<Rightarrow> 16 word" where "mulhi x y = word_of_int (uint x * uint y div 65536)"

definition "mm_mulhi_epu16 = lanewise mulhi"
definition "mm_mullo_epi16 = lanewise (*)"
definition "mm_add_epi16 = lanewise (+)"
definition "mm_sub_epi16 = lanewise (-)"

definition mm_srai_epi16 :: "m128 \<Rightarrow> nat \<Rightarrow> m128" where
  "mm_srai_epi16 a n = unlanes (List.map (\<lambda>w. word_of_int (sint w div 2 ^ n)) (lanes a))"

definition mm_srli_epi16 :: "m128 \<Rightarrow> nat \<Rightarrow> m128" where
  "mm_srli_epi16 a n = unlanes (List.map (\<lambda>w. word_of_int (uint w div 2 ^ n)) (lanes a))"

definition saturate :: "16 word \<Rightarrow> jbyte" where "saturate w = word_of_int (max 0 (min 255 (sint w)))"

definition mm_packus_epi16 :: "m128 \<Rightarrow> m128 \<Rightarrow> m128" where
  "mm_packus_epi16 a b = List.map saturate (lanes a @ lanes b)"

text \<open>Short loads clear the rest of the register.\<close>

definition low_bytes :: "jbyte list \<Rightarrow> m128" where "low_bytes bs = bs @ replicate (16 - length bs) 0"

definition mm_load_si128 :: "plane \<Rightarrow> int \<Rightarrow> m128 option" where
  "mm_load_si128 = (\<lambda>(adr, bs) off. if (adr + off) mod 16 = 0 then load 16 bs off else None)"

definition mm_loadu_si128 :: "plane \<Rightarrow> int \<Rightarrow> m128 option" where
  "mm_loadu_si128 = (\<lambda>(adr, bs) off. load 16 bs off)"

definition mm_loadl :: "nat \<Rightarrow> plane \<Rightarrow> int \<Rightarrow> m128 option" where
  "mm_loadl n = (\<lambda>(adr, bs) off. map_option low_bytes (load n bs off))"

definition mm_store_si128 :: "plane \<Rightarrow> int \<Rightarrow> m128 \<Rightarrow> plane option" where
  "mm_store_si128 = (\<lambda>(adr, bs) off x. if (adr + off) mod 16 = 0 then map_option (Pair adr) (store bs off x) else None)"

definition mm_storel_epi64 :: "plane \<Rightarrow> int \<Rightarrow> m128 \<Rightarrow> plane option" where
  "mm_storel_epi64 = (\<lambda>(adr, bs) off x. map_option (Pair adr) (store bs off (take 8 x)))"

section \<open>Their values on registers written out\<close>

named_theorems mm_simps

lemma upt_8 [mm_simps]: "[0..<8] = [0, 1, 2, 3, 4, 5, 6, 7]" "[0..<4] = [0, 1, 2, 3]" "[0..<2] = [0, Suc 0]" "[0..<Suc 0] = [0]"
  by (simp_all add: upt_rec)

lemma unpack_bytes [mm_simps]:
  "mm_unpacklo_epi8 [a0, a1, a2, a3, a4, a5, a6, a7, a8, a9, a10, a11, a12, a13, a14, a15]
      [b0, b1, b2, b3, b4, b5, b6, b7, b8, b9, b10, b11, b12, b13, b14, b15]
    = [a0, b0, a1, b1, a2, b2, a3, b3, a4, b4, a5, b5, a6, b6, a7, b7]"
  "mm_unpackhi_epi8 [a0, a1, a2, a3, a4, a5, a6, a7, a8, a9, a10, a11, a12, a13, a14, a15]
      [b0, b1, b2, b3, b4, b5, b6, b7, b8, b9, b10, b11, b12, b13, b14, b15]
    = [a8, b8, a9, b9, a10, b10, a11, b11, a12, b12, a13, b13, a14, b14, a15, b15]"
  "mm_unpacklo_epi16 [a0, a1, a2, a3, a4, a5, a6, a7, a8, a9, a10, a11, a12, a13, a14, a15]
      [b0, b1, b2, b3, b4, b5, b6, b7, b8, b9, b10, b11, b12, b13, b14, b15]
    = [a0, a1, b0, b1, a2, a3, b2, b3, a4, a5, b4, b5, a6, a7, b6, b7]"
  "mm_unpackhi_epi16 [a0, a1, a2, a3, a4, a5, a6, a7, a8, a9, a10, a11, a12, a13, a14, a15]
      [b0, b1, b2, b3, b4, b5, b6, b7, b8, b9, b10, b11, b12, b13, b14, b15]
    = [a8, a9, b8, b9, a10, a11, b10, b11, a12, a13, b12, b13, a14, a15, b14, b15]"
  "mm_unpacklo_epi32 [a0, a1, a2, a3, a4, a5, a6, a7, a8, a9, a10, a11, a12, a13, a14, a15]
      [b0, b1, b2, b3, b4, b5, b6, b7, b8, b9, b10, b11, b12, b13, b14, b15]
    = [a0, a1, a2, a3, b0, b1, b2, b3, a4, a5, a6, a7, b4, b5, b6, b7]"
  "mm_unpackhi_epi32 [a0, a1, a2, a3, a4, a5, a6, a7, a8, a9, a10, a11, a12, a13, a14, a15]
      [b0, b1, b2, b3, b4, b5, b6, b7, b8, b9, b10, b11, b12, b13, b14, b15]
    = [a8, a9, a10, a11, b8, b9, b10, b11, a12, a13, a14, a15, b12, b13, b14, b15]"
  "mm_unpacklo_epi64 [a0, a1, a2, a3, a4, a5, a6, a7, a8, a9, a10, a11, a12, a13, a14, a15]
      [b0, b1, b2, b3, b4, b5, b6, b7, b8, b9, b10, b11, b12, b13, b14, b15]
    = [a0, a1, a2, a3, a4, a5, a6, a7, b0, b1, b2, b3, b4, b5, b6, b7]"
  "mm_unpackhi_epi64 [a0, a1, a2, a3, a4, a5, a6, a7, a8, a9, a10, a11, a12, a13, a14, a15]
      [b0, b1, b2, b3, b4, b5, b6, b7, b8, b9, b10, b11, b12, b13, b14, b15]
    = [a8, a9, a10, a11, a12, a13, a14, a15, b8, b9, b10, b11, b12, b13, b14, b15]"
  by (simp_all add: mm_unpacklo_epi8_def mm_unpackhi_epi8_def mm_unpacklo_epi16_def mm_unpackhi_epi16_def
      mm_unpacklo_epi32_def mm_unpackhi_epi32_def mm_unpacklo_epi64_def mm_unpackhi_epi64_def unpack_def upt_8)

lemma lanes_bytes [mm_simps]:
  "lanes [a0, a1, a2, a3, a4, a5, a6, a7, a8, a9, a10, a11, a12, a13, a14, a15]
    = [wide a0 a1, wide a2 a3, wide a4 a5, wide a6 a7, wide a8 a9, wide a10 a11, wide a12 a13, wide a14 a15]"
  by simp

lemma lanewise_words [mm_simps]:
  "length a = length b \<Longrightarrow> lanewise f (unlanes a) (unlanes b) = unlanes (map2 f a b)"
  by (simp add: lanewise_def)

text \<open>Duplicating each word of a register four times, by the two halves of the two doublings.\<close>

lemma unpack_words [mm_simps]:
  "mm_unpacklo_epi16 (unlanes [a0, a1, a2, a3, a4, a5, a6, a7]) (unlanes [b0, b1, b2, b3, b4, b5, b6, b7])
    = unlanes [a0, b0, a1, b1, a2, b2, a3, b3]"
  "mm_unpackhi_epi16 (unlanes [a0, a1, a2, a3, a4, a5, a6, a7]) (unlanes [b0, b1, b2, b3, b4, b5, b6, b7])
    = unlanes [a4, b4, a5, b5, a6, b6, a7, b7]"
  "mm_unpacklo_epi32 (unlanes [a0, a1, a2, a3, a4, a5, a6, a7]) (unlanes [b0, b1, b2, b3, b4, b5, b6, b7])
    = unlanes [a0, a1, b0, b1, a2, a3, b2, b3]"
  "mm_unpackhi_epi32 (unlanes [a0, a1, a2, a3, a4, a5, a6, a7]) (unlanes [b0, b1, b2, b3, b4, b5, b6, b7])
    = unlanes [a4, a5, b4, b5, a6, a7, b6, b7]"
  by (simp_all add: unpack_bytes)

lemma unlanes_zero: "mm_setzero_si128 = unlanes (replicate 8 0)"
  by (simp add: mm_setzero_si128_def low8_def high8_def numeral_eq_Suc)

lemma replicate_16: "replicate 16 x = [x, x, x, x, x, x, x, x, x, x, x, x, x, x, x, x]" "replicate 8 y = [y, y, y, y, y, y, y, y]"
  by (simp_all add: numeral_eq_Suc)

lemma low_bytes_simps [mm_simps]:
  "low_bytes [b0, b1] = [b0, b1, 0, 0, 0, 0, 0, 0, 0, 0, 0, 0, 0, 0, 0, 0]"
  "low_bytes [b0, b1, b2, b3] = [b0, b1, b2, b3, 0, 0, 0, 0, 0, 0, 0, 0, 0, 0, 0, 0]"
  "low_bytes [b0, b1, b2, b3, b4, b5, b6, b7] = [b0, b1, b2, b3, b4, b5, b6, b7, 0, 0, 0, 0, 0, 0, 0, 0]"
  by (simp_all add: low_bytes_def numeral_eq_Suc)

text \<open>Bytes widened into the high half of the words, and into the low half.\<close>

lemma widen_high [mm_simps]:
  "mm_unpacklo_epi8 mm_setzero_si128 [b0, b1, b2, b3, b4, b5, b6, b7, b8, b9, b10, b11, b12, b13, b14, b15]
    = unlanes [wide 0 b0, wide 0 b1, wide 0 b2, wide 0 b3, wide 0 b4, wide 0 b5, wide 0 b6, wide 0 b7]"
  "mm_unpackhi_epi8 mm_setzero_si128 [b0, b1, b2, b3, b4, b5, b6, b7, b8, b9, b10, b11, b12, b13, b14, b15]
    = unlanes [wide 0 b8, wide 0 b9, wide 0 b10, wide 0 b11, wide 0 b12, wide 0 b13, wide 0 b14, wide 0 b15]"
  by (simp_all add: mm_setzero_si128_def unpack_bytes replicate_16)
lemma widen_low [mm_simps]:
  "mm_unpacklo_epi8 [b0, b1, b2, b3, b4, b5, b6, b7, b8, b9, b10, b11, b12, b13, b14, b15] mm_setzero_si128
    = unlanes [wide b0 0, wide b1 0, wide b2 0, wide b3 0, wide b4 0, wide b5 0, wide b6 0, wide b7 0]"
  "mm_unpackhi_epi8 [b0, b1, b2, b3, b4, b5, b6, b7, b8, b9, b10, b11, b12, b13, b14, b15] mm_setzero_si128
    = unlanes [wide b8 0, wide b9 0, wide b10 0, wide b11 0, wide b12 0, wide b13 0, wide b14 0, wide b15 0]"
  by (simp_all add: mm_setzero_si128_def unpack_bytes replicate_16)

text \<open>Sixteen bytes make a list written out.\<close>

lemma sixteen:
  assumes "length xs = 16"
  shows "xs = [xs ! 0, xs ! 1, xs ! 2, xs ! 3, xs ! 4, xs ! 5, xs ! 6, xs ! 7,
    xs ! 8, xs ! 9, xs ! 10, xs ! 11, xs ! 12, xs ! 13, xs ! 14, xs ! 15]"
  using assms by (auto simp: numeral_eq_Suc length_Suc_conv)

section \<open>Values of the lanes\<close>

lemma mulhi_high: "mulhi (wide 0 b) (word_of_int c) = word_of_int (uint b * c div 256)" if "0 \<le> c" "c < 65536"
proof -
  have "256 * uint b * c div 65536 = uint b * c div 256"
    using zdiv_zmult2_eq [of 256 "256 * (uint b * c)" 256] by (simp add: mult.assoc)
  with that show ?thesis by (simp add: mulhi_def uint_wide uint_word_of_int)
qed


end
