(* ===== verification/Color_Tables.thy ===== *)
theory Color_Tables
  imports Prelude
begin

text \<open>
  The tables of \<^verbatim>\<open>jfxmedia/Utils/ColorConverter.c\<close> with the closed forms of their entries. A table entry is
  twice the term of the conversion; \<^verbatim>\<open>color_tClip\<close> halves and saturates a sum, 576 entries below zero
  included.
\<close>

section \<open>The tables\<close>

text \<open>The 1664 entries of the saturation table by their runs.\<close>

definition color_tClip :: "int list" where
  "color_tClip = replicate (288 * 2) 0 @ concat (List.map (\<lambda>k. [k, k]) [0..255]) @ replicate (544 * 2 - 512) 255"

definition color_tYY :: "int list" where
  "color_tYY =
   [0, 2, 5, 7, 9, 12, 14, 16, 19, 21, 23, 26, 28, 30, 33, 35, 37, 40, 42, 44, 47, 49, 51, 54, 56, 58,
    61, 63, 65, 68, 70, 72, 75, 77, 79, 82, 84, 86, 88, 91, 93, 95, 98, 100, 102, 105, 107, 109, 112,
    114, 116, 119, 121, 123, 126, 128, 130, 133, 135, 137, 140, 142, 144, 147, 149, 151, 154, 156, 158,
    161, 163, 165, 168, 170, 172, 175, 177, 179, 182, 184, 186, 189, 191, 193, 196, 198, 200, 203, 205,
    207, 210, 212, 214, 217, 219, 221, 224, 226, 228, 231, 233, 235, 238, 240, 242, 245, 247, 249, 252,
    254, 256, 258, 261, 263, 265, 268, 270, 272, 275, 277, 279, 282, 284, 286, 289, 291, 293, 296, 298,
    300, 303, 305, 307, 310, 312, 314, 317, 319, 321, 324, 326, 328, 331, 333, 335, 338, 340, 342, 345,
    347, 349, 352, 354, 356, 359, 361, 363, 366, 368, 370, 373, 375, 377, 380, 382, 384, 387, 389, 391,
    394, 396, 398, 401, 403, 405, 408, 410, 412, 415, 417, 419, 422, 424, 426, 428, 431, 433, 435, 438,
    440, 442, 445, 447, 449, 452, 454, 456, 459, 461, 463, 466, 468, 470, 473, 475, 477, 480, 482, 484,
    487, 489, 491, 494, 496, 498, 501, 503, 505, 508, 510, 512, 515, 517, 519, 522, 524, 526, 529, 531,
    533, 536, 538, 540, 543, 545, 547, 550, 552, 554, 557, 559, 561, 564, 566, 568, 571, 573, 575, 578,
    580, 582, 585, 587, 589, 592, 594]"

definition color_tRV :: "int list" where
  "color_tRV =
   [0, 3, 6, 10, 13, 16, 19, 22, 26, 29, 32, 35, 38, 42, 45, 48, 51, 54, 57, 61, 64, 67, 70, 73, 77, 80,
    83, 86, 89, 93, 96, 99, 102, 105, 109, 112, 115, 118, 121, 125, 128, 131, 134, 137, 141, 144, 147,
    150, 153, 156, 160, 163, 166, 169, 172, 176, 179, 182, 185, 188, 192, 195, 198, 201, 204, 208, 211,
    214, 217, 220, 224, 227, 230, 233, 236, 239, 243, 246, 249, 252, 255, 259, 262, 265, 268, 271, 275,
    278, 281, 284, 287, 291, 294, 297, 300, 303, 307, 310, 313, 316, 319, 323, 326, 329, 332, 335, 338,
    342, 345, 348, 351, 354, 358, 361, 364, 367, 370, 374, 377, 380, 383, 386, 390, 393, 396, 399, 402,
    406, 409, 412, 415, 418, 422, 425, 428, 431, 434, 437, 441, 444, 447, 450, 453, 457, 460, 463, 466,
    469, 473, 476, 479, 482, 485, 489, 492, 495, 498, 501, 505, 508, 511, 514, 517, 520, 524, 527, 530,
    533, 536, 540, 543, 546, 549, 552, 556, 559, 562, 565, 568, 572, 575, 578, 581, 584, 588, 591, 594,
    597, 600, 604, 607, 610, 613, 616, 619, 623, 626, 629, 632, 635, 639, 642, 645, 648, 651, 655, 658,
    661, 664, 667, 671, 674, 677, 680, 683, 687, 690, 693, 696, 699, 703, 706, 709, 712, 715, 718, 722,
    725, 728, 731, 734, 738, 741, 744, 747, 750, 754, 757, 760, 763, 766, 770, 773, 776, 779, 782, 786,
    789, 792, 795, 798, 801, 805, 808, 811, 814]"

definition color_tGU :: "int list" where
  "color_tGU =
   [271, 270, 270, 269, 268, 267, 267, 266, 265, 264, 263, 263, 262, 261, 260, 260, 259, 258, 257, 256,
    256, 255, 254, 253, 252, 252, 251, 250, 249, 249, 248, 247, 246, 245, 245, 244, 243, 242, 241, 241,
    240, 239, 238, 238, 237, 236, 235, 234, 234, 233, 232, 231, 231, 230, 229, 228, 227, 227, 226, 225,
    224, 223, 223, 222, 221, 220, 220, 219, 218, 217, 216, 216, 215, 214, 213, 212, 212, 211, 210, 209,
    209, 208, 207, 206, 205, 205, 204, 203, 202, 201, 201, 200, 199, 198, 198, 197, 196, 195, 194, 194,
    193, 192, 191, 191, 190, 189, 188, 187, 187, 186, 185, 184, 183, 183, 182, 181, 180, 180, 179, 178,
    177, 176, 176, 175, 174, 173, 172, 172, 171, 170, 169, 169, 168, 167, 166, 165, 165, 164, 163, 162,
    162, 161, 160, 159, 158, 158, 157, 156, 155, 154, 154, 153, 152, 151, 151, 150, 149, 148, 147, 147,
    146, 145, 144, 143, 143, 142, 141, 140, 140, 139, 138, 137, 136, 136, 135, 134, 133, 133, 132, 131,
    130, 129, 129, 128, 127, 126, 125, 125, 124, 123, 122, 122, 121, 120, 119, 118, 118, 117, 116, 115,
    114, 114, 113, 112, 111, 111, 110, 109, 108, 107, 107, 106, 105, 104, 103, 103, 102, 101, 100, 100,
    99, 98, 97, 96, 96, 95, 94, 93, 93, 92, 91, 90, 89, 89, 88, 87, 86, 85, 85, 84, 83, 82, 82, 81, 80,
    79, 78, 78, 77, 76, 75, 74, 74, 73, 72, 71]"

definition color_tGV :: "int list" where
  "color_tGV =
   [0, 2, 3, 5, 7, 8, 10, 11, 13, 15, 16, 18, 20, 21, 23, 24, 26, 28, 29, 31, 33, 34, 36, 37, 39, 41, 42,
    44, 46, 47, 49, 50, 52, 54, 55, 57, 59, 60, 62, 63, 65, 67, 68, 70, 72, 73, 75, 76, 78, 80, 81, 83,
    85, 86, 88, 89, 91, 93, 94, 96, 98, 99, 101, 102, 104, 106, 107, 109, 111, 112, 114, 115, 117, 119,
    120, 122, 124, 125, 127, 128, 130, 132, 133, 135, 137, 138, 140, 141, 143, 145, 146, 148, 150, 151,
    153, 155, 156, 158, 159, 161, 163, 164, 166, 168, 169, 171, 172, 174, 176, 177, 179, 181, 182, 184,
    185, 187, 189, 190, 192, 194, 195, 197, 198, 200, 202, 203, 205, 207, 208, 210, 211, 213, 215, 216,
    218, 220, 221, 223, 224, 226, 228, 229, 231, 233, 234, 236, 237, 239, 241, 242, 244, 246, 247, 249,
    250, 252, 254, 255, 257, 259, 260, 262, 263, 265, 267, 268, 270, 272, 273, 275, 276, 278, 280, 281,
    283, 285, 286, 288, 289, 291, 293, 294, 296, 298, 299, 301, 303, 304, 306, 307, 309, 311, 312, 314,
    316, 317, 319, 320, 322, 324, 325, 327, 329, 330, 332, 333, 335, 337, 338, 340, 342, 343, 345, 346,
    348, 350, 351, 353, 355, 356, 358, 359, 361, 363, 364, 366, 368, 369, 371, 372, 374, 376, 377, 379,
    381, 382, 384, 385, 387, 389, 390, 392, 394, 395, 397, 398, 400, 402, 403, 405, 407, 408, 410, 411,
    413, 415]"

definition color_tBU :: "int list" where
  "color_tBU =
   [0, 4, 8, 12, 16, 20, 24, 28, 32, 36, 40, 44, 48, 52, 57, 61, 65, 69, 73, 77, 81, 85, 89, 93, 97, 101,
    105, 109, 113, 117, 121, 125, 129, 133, 137, 141, 145, 149, 153, 157, 161, 166, 170, 174, 178, 182,
    186, 190, 194, 198, 202, 206, 210, 214, 218, 222, 226, 230, 234, 238, 242, 246, 250, 254, 258, 262,
    266, 270, 275, 279, 283, 287, 291, 295, 299, 303, 307, 311, 315, 319, 323, 327, 331, 335, 339, 343,
    347, 351, 355, 359, 363, 367, 371, 375, 379, 383, 388, 392, 396, 400, 404, 408, 412, 416, 420, 424,
    428, 432, 436, 440, 444, 448, 452, 456, 460, 464, 468, 472, 476, 480, 484, 488, 492, 497, 501, 505,
    509, 513, 517, 521, 525, 529, 533, 537, 541, 545, 549, 553, 557, 561, 565, 569, 573, 577, 581, 585,
    589, 593, 597, 601, 606, 610, 614, 618, 622, 626, 630, 634, 638, 642, 646, 650, 654, 658, 662, 666,
    670, 674, 678, 682, 686, 690, 694, 698, 702, 706, 710, 715, 719, 723, 727, 731, 735, 739, 743, 747,
    751, 755, 759, 763, 767, 771, 775, 779, 783, 787, 791, 795, 799, 803, 807, 811, 815, 819, 824, 828,
    832, 836, 840, 844, 848, 852, 856, 860, 864, 868, 872, 876, 880, 884, 888, 892, 896, 900, 904, 908,
    912, 916, 920, 924, 928, 933, 937, 941, 945, 949, 953, 957, 961, 965, 969, 973, 977, 981, 985, 989,
    993, 997, 1001, 1005, 1009, 1013, 1017, 1021, 1025, 1029]"

section \<open>Closed forms\<close>

lemma map_upto_rd: "xs = List.map f [0..n] \<Longrightarrow> 0 \<le> i \<Longrightarrow> i \<le> n \<Longrightarrow> rd xs i = Some (f i)"
  by (simp add: rd_def in_arr_def)

lemma tYY_eq: "color_tYY = List.map (\<lambda>i. (i * 23288 + 5000) div 10000) [0..255]"
  by code_simp

lemma tRV_eq: "color_tRV = List.map (\<lambda>i. (i * 31932 + 5000) div 10000) [0..255]"
  by code_simp

lemma tGU_eq: "color_tGU = List.map (\<lambda>i. (2712704 - i * 7840 + 5000) div 10000) [0..255]"
  by code_simp

lemma tGV_eq: "color_tGV = List.map (\<lambda>i. (i * 16264 + 5000) div 10000) [0..255]"
  by code_simp

lemma tBU_eq: "color_tBU = List.map (\<lambda>i. (i * 40368 + 5000) div 10000) [0..255]"
  by code_simp

lemma color_rd:
  assumes "0 \<le> i" "i \<le> 255"
  shows "rd color_tYY i = Some ((i * 23288 + 5000) div 10000)"
    "rd color_tRV i = Some ((i * 31932 + 5000) div 10000)"
    "rd color_tGU i = Some ((2712704 - i * 7840 + 5000) div 10000)"
    "rd color_tGV i = Some ((i * 16264 + 5000) div 10000)"
    "rd color_tBU i = Some ((i * 40368 + 5000) div 10000)"
  using assms map_upto_rd [OF tYY_eq] map_upto_rd [OF tRV_eq] map_upto_rd [OF tGU_eq] map_upto_rd [OF tGV_eq]
    map_upto_rd [OF tBU_eq] by blast+

lemma twice:
  "length (concat (List.map (\<lambda>k. [k, k]) xs)) = 2 * length xs"
  "n < 2 * length xs \<Longrightarrow> concat (List.map (\<lambda>k. [k, k]) xs) ! n = xs ! (n div 2)"
proof -
  show "length (concat (List.map (\<lambda>k. [k, k]) xs)) = 2 * length xs" by (induction xs) auto
  show "n < 2 * length xs \<Longrightarrow> concat (List.map (\<lambda>k. [k, k]) xs) ! n = xs ! (n div 2)"
  proof (induction xs arbitrary: n)
    case (Cons x xs)
    consider "n = 0" | "n = 1" | m where "n = m + 2" by (metis One_nat_def add_2_eq_Suc' not0_implies_Suc)
    then show ?case using Cons by cases simp_all
  qed simp
qed

lemma clip_rd:
  assumes "0 \<le> i" "i \<le> 1663"
  shows "rd color_tClip i = Some (max 0 (min 255 ((i - 576) div 2)))"
proof -
  let ?m = "concat (List.map (\<lambda>k. [k, k]) [0..255]) :: int list"
  have len: "length ?m = 512" by (simp add: twice)
  then have "length color_tClip = 1664" by (simp add: color_tClip_def)
  moreover have "color_tClip ! nat i = max 0 (min 255 ((i - 576) div 2))"
  proof -
    consider "i < 576" | "576 \<le> i" "i < 1088" | "1088 \<le> i" by linarith
    then show ?thesis
    proof cases
      case 1
      then show ?thesis using assms by (simp add: color_tClip_def nth_append)
    next
      case 2
      then have "(nat i - 576) div 2 < 256" "int ((nat i - 576) div 2) = (i - 576) div 2" by (simp_all add: zdiv_int of_nat_diff)
      then show ?thesis using 2 len twice(2) [of "nat i - 576" "[0..255]"] by (simp add: color_tClip_def nth_append)
    next
      case 3
      then have "\<not> nat i < 576" "\<not> nat i - 576 < 512" by auto
      then show ?thesis using 3 assms len by (simp add: color_tClip_def nth_append)
    qed
  qed
  ultimately show ?thesis using assms by (simp add: rd_def in_arr_def)
qed

end
