(* ===== verification/Color_Convert.thy ===== *)
theory Color_Convert
  imports Color_Tables Byte_Rows
begin

text \<open>
  The generic C conversions of \<^verbatim>\<open>jfxmedia/Utils/ColorConverter.c\<close> from planar YCbCr to BGRA. A plane is
  an array of bytes or \<^verbatim>\<open>NULL\<close>, a pointer into it an offset. The loops advance a record of such cursors,
  one block of pixels at a time.
\<close>

unbundle bit_operations_syntax

section \<open>Clamping\<close>

definition TCLAMP_U8 :: "int \<Rightarrow> jbyte option" where
  "TCLAMP_U8 v = map_option word_of_int (rd color_tClip (288 * 2 + v))"

definition SCLAMP_U8 :: "int \<Rightarrow> jbyte" where
  "SCLAMP_U8 s = (let v = i32 s; mask = sar 31 (v - 0x1fe)
     in word_of_int ((drop_bit 1 (v mod 2 ^ 32) OR NOT mask) AND NOT (sar 31 v)))"

definition store_T :: "jbyte list \<Rightarrow> int \<Rightarrow> int \<Rightarrow> jbyte list option" where
  "store_T buf i v = do { b \<leftarrow> TCLAMP_U8 v; wr buf i b }"

definition store_S :: "jbyte list \<Rightarrow> int \<Rightarrow> int \<Rightarrow> jbyte list option" where
  "store_S buf i v = wr buf i (SCLAMP_U8 v)"

section \<open>4:2:0\<close>

record cursors =
  c_y1 :: int
  c_y2 :: int
  c_u :: int
  c_v :: int
  c_d1 :: int
  c_d2 :: int
  c_a1 :: int
  c_a2 :: int

definition rd_u8 :: "jbyte list \<Rightarrow> int \<Rightarrow> int option" where "rd_u8 p i = map_option uint (rd p i)"

definition chroma :: "int \<Rightarrow> int \<Rightarrow> (int \<times> int \<times> int) option" where
  "chroma sf1 sf2 = do {
     rv \<leftarrow> rd color_tRV sf2; gu \<leftarrow> rd color_tGU sf1; gv \<leftarrow> rd color_tGV sf2; bu \<leftarrow> rd color_tBU sf1;
     Some (rv - 446, gu - gv, bu - 554) }"

definition block420 ::
  "(int \<Rightarrow> jbyte option) \<Rightarrow> jbyte list \<Rightarrow> jbyte list \<Rightarrow> jbyte list \<Rightarrow> cursors \<times> jbyte list \<Rightarrow> (cursors \<times> jbyte list) option" where
  "block420 alpha y v u = (\<lambda>(c, buf). do {
     sf1 \<leftarrow> rd_u8 u (c_u c);
     sf2 \<leftarrow> rd_u8 v (c_v c);
     sf01 \<leftarrow> rd_u8 y (c_y1 c);
     sf03 \<leftarrow> rd_u8 y (c_y1 c + 1);
     sf02 \<leftarrow> rd_u8 y (c_y2 c);
     sf04 \<leftarrow> rd_u8 y (c_y2 c + 1);
     (sfr, sfg, sfb) \<leftarrow> chroma sf1 sf2;
     sf01 \<leftarrow> rd color_tYY sf01;
     sf03 \<leftarrow> rd color_tYY sf03;
     sf02 \<leftarrow> rd color_tYY sf02;
     sf04 \<leftarrow> rd color_tYY sf04;
     let da1 = c_d1 c;
     let da2 = c_d2 c;
     buf \<leftarrow> store_T buf (da1 + 2) (sf01 + sfr);
     buf \<leftarrow> store_T buf (da1 + 1) (sf01 + sfg);
     buf \<leftarrow> store_S buf da1 (sf01 + sfb);
     buf \<leftarrow> store_T buf (da1 + 6) (sf03 + sfr);
     buf \<leftarrow> store_T buf (da1 + 5) (sf03 + sfg);
     buf \<leftarrow> store_S buf (da1 + 4) (sf03 + sfb);
     buf \<leftarrow> store_T buf (da2 + 2) (sf02 + sfr);
     buf \<leftarrow> store_T buf (da2 + 1) (sf02 + sfg);
     buf \<leftarrow> store_S buf da2 (sf02 + sfb);
     buf \<leftarrow> store_T buf (da2 + 6) (sf04 + sfr);
     buf \<leftarrow> store_S buf (da2 + 5) (sf04 + sfg);
     buf \<leftarrow> store_T buf (da2 + 4) (sf04 + sfb);
     a \<leftarrow> alpha (c_a1 c);
     buf \<leftarrow> wr buf (da1 + 3) a;
     a \<leftarrow> alpha (c_a1 c + 1);
     buf \<leftarrow> wr buf (da1 + 7) a;
     a \<leftarrow> alpha (c_a2 c);
     buf \<leftarrow> wr buf (da2 + 3) a;
     a \<leftarrow> alpha (c_a2 c + 1);
     buf \<leftarrow> wr buf (da2 + 7) a;
     Some (c\<lparr>c_y1 := c_y1 c + 2, c_y2 := c_y2 c + 2, c_u := c_u c + 1, c_v := c_v c + 1,
       c_d1 := c_d1 c + 8, c_d2 := c_d2 c + 8, c_a1 := c_a1 c + 2, c_a2 := c_a2 c + 2\<rparr>, buf) })"

definition next_row_pairs :: "int \<Rightarrow> int \<Rightarrow> int \<Rightarrow> int \<Rightarrow> int \<Rightarrow> cursors \<Rightarrow> cursors" where
  "next_row_pairs ys vs us as ds c = \<lparr>c_y1 = c_y1 c + i32 (2 * ys), c_y2 = c_y2 c + i32 (2 * ys), c_u = c_u c + us, c_v = c_v c + vs,
     c_d1 = c_d1 c + i32 (2 * ds), c_d2 = c_d2 c + i32 (2 * ds), c_a1 = c_a1 c + i32 (2 * as), c_a2 = c_a2 c + i32 (2 * as)\<rparr>"

definition first_rows :: "int \<Rightarrow> int \<Rightarrow> int \<Rightarrow> cursors" where
  "first_rows ys as ds = \<lparr>c_y1 = 0, c_y2 = ys, c_u = 0, c_v = 0, c_d1 = 0, c_d2 = ds, c_a1 = 0, c_a2 = as\<rparr>"

definition rows420 ::
  "(int \<Rightarrow> jbyte option) \<Rightarrow> jbyte list \<Rightarrow> int \<Rightarrow> int \<Rightarrow> int \<Rightarrow> jbyte list \<Rightarrow> jbyte list \<Rightarrow> jbyte list \<Rightarrow> int \<Rightarrow> int \<Rightarrow> int \<Rightarrow> int
    \<Rightarrow> jbyte list option" where
  "rows420 alpha bgra bgra_stride width height y v u y_stride v_stride u_stride a_stride =
    map_option snd (cfor (sar 1 height) (\<lambda>j (rows, buf). do {
       (_, buf) \<leftarrow> cfor (sar 1 width) (\<lambda>i. block420 alpha y v u) (rows, buf);
       Some (next_row_pairs y_stride v_stride u_stride a_stride bgra_stride rows, buf) })
     (first_rows y_stride a_stride bgra_stride, bgra))"

text \<open>The checks of the arguments; 1 is returned with the target as it was.\<close>

definition with_planes ::
  "jbyte list option \<Rightarrow> jbyte list option \<Rightarrow> jbyte list option \<Rightarrow> jbyte list option \<Rightarrow> bool
    \<Rightarrow> (jbyte list \<Rightarrow> jbyte list \<Rightarrow> jbyte list \<Rightarrow> jbyte list \<Rightarrow> jbyte list option) \<Rightarrow> (int \<times> jbyte list option) option" where
  "with_planes bgra y v u ok convert = (case bgra of None \<Rightarrow> Some (1, bgra) | Some d \<Rightarrow>
     case y of None \<Rightarrow> Some (1, bgra) | Some y \<Rightarrow>
     case u of None \<Rightarrow> Some (1, bgra) | Some u \<Rightarrow>
     case v of None \<Rightarrow> Some (1, bgra) | Some v \<Rightarrow>
     if ok then map_option (\<lambda>d. (0, Some d)) (convert d y v u) else Some (1, bgra))"

definition ColorConvert_YCbCr420p_to_BGRA32 ::
  "jbyte list option \<Rightarrow> int \<Rightarrow> int \<Rightarrow> int \<Rightarrow> jbyte list option \<Rightarrow> jbyte list option \<Rightarrow> jbyte list option \<Rightarrow> jbyte list option
    \<Rightarrow> int \<Rightarrow> int \<Rightarrow> int \<Rightarrow> int \<Rightarrow> (int \<times> jbyte list option) option" where
  "ColorConvert_YCbCr420p_to_BGRA32 bgra bgra_stride width height y v u a y_stride v_stride u_stride a_stride =
    with_planes bgra y v u (\<not> (width \<le> 0 \<or> height \<le> 0) \<and> (width OR height) AND 1 = 0)
      (\<lambda>d y v u. rows420 (\<lambda>i. case a of None \<Rightarrow> None | Some a \<Rightarrow> rd a i) d bgra_stride width height y v u
         y_stride v_stride u_stride a_stride)"

definition ColorConvert_YCbCr420p_to_BGRA32_no_alpha ::
  "jbyte list option \<Rightarrow> int \<Rightarrow> int \<Rightarrow> int \<Rightarrow> jbyte list option \<Rightarrow> jbyte list option \<Rightarrow> jbyte list option
    \<Rightarrow> int \<Rightarrow> int \<Rightarrow> int \<Rightarrow> (int \<times> jbyte list option) option" where
  "ColorConvert_YCbCr420p_to_BGRA32_no_alpha bgra bgra_stride width height y v u y_stride v_stride u_stride =
    with_planes bgra y v u (\<not> (width \<le> 0 \<or> height \<le> 0) \<and> (width OR height) AND 1 = 0)
      (\<lambda>d y v u. rows420 (\<lambda>i. Some 0xff) d bgra_stride width height y v u y_stride v_stride u_stride 0)"

section \<open>4:2:2\<close>

text \<open>The samples of this format are interleaved: each of the three pointers steps by four bytes.\<close>

definition block422 ::
  "jbyte list \<Rightarrow> jbyte list \<Rightarrow> jbyte list \<Rightarrow> cursors \<times> jbyte list \<Rightarrow> (cursors \<times> jbyte list) option" where
  "block422 y v u = (\<lambda>(c, buf). do {
     sf1 \<leftarrow> rd_u8 u (c_u c);
     sf2 \<leftarrow> rd_u8 v (c_v c);
     sf01 \<leftarrow> rd_u8 y (c_y1 c);
     sf03 \<leftarrow> rd_u8 y (c_y1 c + 2);
     (sfr, sfg, sfb) \<leftarrow> chroma sf1 sf2;
     sf01 \<leftarrow> rd color_tYY sf01;
     sf03 \<leftarrow> rd color_tYY sf03;
     let da1 = c_d1 c;
     buf \<leftarrow> store_T buf (da1 + 2) (sf01 + sfr);
     buf \<leftarrow> store_T buf (da1 + 1) (sf01 + sfg);
     buf \<leftarrow> store_S buf da1 (sf01 + sfb);
     buf \<leftarrow> store_T buf (da1 + 6) (sf03 + sfr);
     buf \<leftarrow> store_T buf (da1 + 5) (sf03 + sfg);
     buf \<leftarrow> store_S buf (da1 + 4) (sf03 + sfb);
     buf \<leftarrow> wr buf (da1 + 7) 0xff;
     buf \<leftarrow> wr buf (da1 + 3) 0xff;
     Some (c\<lparr>c_y1 := c_y1 c + 4, c_u := c_u c + 4, c_v := c_v c + 4, c_d1 := c_d1 c + 8\<rparr>, buf) })"

definition next_row :: "int \<Rightarrow> int \<Rightarrow> int \<Rightarrow> cursors \<Rightarrow> cursors" where
  "next_row ys uvs ds c = c\<lparr>c_y1 := c_y1 c + ys, c_u := c_u c + uvs, c_v := c_v c + uvs, c_d1 := c_d1 c + ds\<rparr>"

definition rows422 ::
  "jbyte list \<Rightarrow> int \<Rightarrow> int \<Rightarrow> int \<Rightarrow> jbyte list \<Rightarrow> jbyte list \<Rightarrow> jbyte list \<Rightarrow> int \<Rightarrow> int \<Rightarrow> jbyte list option" where
  "rows422 bgra bgra_stride width height y v u y_stride uv_stride =
    map_option snd (cfor height (\<lambda>j (rows, buf). do {
       (_, buf) \<leftarrow> cfor (sar 1 width) (\<lambda>i. block422 y v u) (rows, buf);
       Some (next_row y_stride uv_stride bgra_stride rows, buf) })
     (first_rows 0 0 0, bgra))"

definition ColorConvert_YCbCr422p_to_BGRA32_no_alpha ::
  "jbyte list option \<Rightarrow> int \<Rightarrow> int \<Rightarrow> int \<Rightarrow> jbyte list option \<Rightarrow> jbyte list option \<Rightarrow> jbyte list option
    \<Rightarrow> int \<Rightarrow> int \<Rightarrow> (int \<times> jbyte list option) option" where
  "ColorConvert_YCbCr422p_to_BGRA32_no_alpha bgra bgra_stride width height y v u y_stride uv_stride =
    with_planes bgra y v u (\<not> (width \<le> 0 \<or> height \<le> 0) \<and> width AND 1 = 0)
      (\<lambda>d y v u. rows422 d bgra_stride width height y v u y_stride uv_stride)"

text \<open>The conversions to ARGB are declared and not implemented in plain C.\<close>

definition ColorConvert_YCbCr420p_to_ARGB32 ::
  "jbyte list option \<Rightarrow> int \<Rightarrow> int \<Rightarrow> int \<Rightarrow> jbyte list option \<Rightarrow> jbyte list option \<Rightarrow> jbyte list option \<Rightarrow> jbyte list option
    \<Rightarrow> int \<Rightarrow> int \<Rightarrow> int \<Rightarrow> int \<Rightarrow> (int \<times> jbyte list option) option" where
  "ColorConvert_YCbCr420p_to_ARGB32 argb argb_stride width height y v u a y_stride v_stride u_stride a_stride = Some (1, argb)"

definition ColorConvert_YCbCr420p_to_ARGB32_no_alpha ::
  "jbyte list option \<Rightarrow> int \<Rightarrow> int \<Rightarrow> int \<Rightarrow> jbyte list option \<Rightarrow> jbyte list option \<Rightarrow> jbyte list option
    \<Rightarrow> int \<Rightarrow> int \<Rightarrow> int \<Rightarrow> (int \<times> jbyte list option) option" where
  "ColorConvert_YCbCr420p_to_ARGB32_no_alpha argb argb_stride width height y v u y_stride v_stride u_stride = Some (1, argb)"

definition ColorConvert_YCbCr422p_to_ARGB32_no_alpha ::
  "jbyte list option \<Rightarrow> int \<Rightarrow> int \<Rightarrow> int \<Rightarrow> jbyte list option \<Rightarrow> jbyte list option \<Rightarrow> jbyte list option
    \<Rightarrow> int \<Rightarrow> int \<Rightarrow> (int \<times> jbyte list option) option" where
  "ColorConvert_YCbCr422p_to_ARGB32_no_alpha argb argb_stride width height y v u y_stride uv_stride = Some (1, argb)"

section \<open>What a pixel should be\<close>

text \<open>Twice the terms of the conversion, rounded, as the comments of the tables give them.\<close>

definition luma2 :: "int \<Rightarrow> int" where "luma2 y = (y * 23288 + 5000) div 10000"
definition red2 :: "int \<Rightarrow> int" where "red2 v = (v * 31932 + 5000) div 10000 - 446"
definition green2 :: "int \<Rightarrow> int \<Rightarrow> int" where
  "green2 u v = (2712704 - u * 7840 + 5000) div 10000 - (v * 16264 + 5000) div 10000"
definition blue2 :: "int \<Rightarrow> int" where "blue2 u = (u * 40368 + 5000) div 10000 - 554"

definition half_clamped :: "int \<Rightarrow> jbyte" where "half_clamped x = word_of_int (max 0 (min 255 (x div 2)))"

definition bgra_pixel :: "jbyte \<Rightarrow> jbyte \<Rightarrow> jbyte \<Rightarrow> jbyte \<Rightarrow> jbyte list" where
  "bgra_pixel y u v a = [half_clamped (luma2 (uint y) + blue2 (uint u)), half_clamped (luma2 (uint y) + green2 (uint u) (uint v)),
     half_clamped (luma2 (uint y) + red2 (uint v)), a]"

lemma length_bgra_pixel [simp]: "length (bgra_pixel y u v a) = 4"
  by (simp add: bgra_pixel_def)

lemma byte_range: "0 \<le> uint (b :: jbyte)" "uint (b :: jbyte) \<le> 255"
  using uint_lt2p [of b] by simp_all

lemma chroma_byte:
  "chroma (uint (u :: jbyte)) (uint (v :: jbyte)) = Some (red2 (uint v), green2 (uint u) (uint v), blue2 (uint u))"
  using byte_range [of u] byte_range [of v] by (simp add: chroma_def color_rd red2_def green2_def blue2_def)

lemma luma_byte: "rd color_tYY (uint (y :: jbyte)) = Some (luma2 (uint y))"
  using byte_range [of y] by (simp add: color_rd luma2_def)

lemma term_range:
  "- 576 \<le> luma2 (uint (y :: jbyte)) + red2 (uint (v :: jbyte))" "luma2 (uint y) + red2 (uint v) \<le> 1087"
  "- 576 \<le> luma2 (uint y) + blue2 (uint (u :: jbyte))" "luma2 (uint y) + blue2 (uint u) \<le> 1087"
  "- 576 \<le> luma2 (uint y) + green2 (uint u) (uint v)" "luma2 (uint y) + green2 (uint u) (uint v) \<le> 1087"
proof -
  have y: "0 \<le> luma2 (uint y)" "luma2 (uint y) \<le> 594" using byte_range [of y] unfolding luma2_def by linarith+
  moreover have "- 446 \<le> red2 (uint v)" "red2 (uint v) \<le> 368" using byte_range [of v] unfolding red2_def by linarith+
  moreover have "- 554 \<le> blue2 (uint u)" "blue2 (uint u) \<le> 475" using byte_range [of u] unfolding blue2_def by linarith+
  moreover have "- 415 \<le> green2 (uint u) (uint v)" "green2 (uint u) (uint v) \<le> 272"
    using byte_range [of u] byte_range [of v] unfolding green2_def by linarith+
  ultimately show "- 576 \<le> luma2 (uint y) + red2 (uint v)" "luma2 (uint y) + red2 (uint v) \<le> 1087"
    "- 576 \<le> luma2 (uint y) + blue2 (uint u)" "luma2 (uint y) + blue2 (uint u) \<le> 1087"
    "- 576 \<le> luma2 (uint y) + green2 (uint u) (uint v)" "luma2 (uint y) + green2 (uint u) (uint v) \<le> 1087"
    by linarith+
qed

text \<open>The table and the shifts compute the same clamping.\<close>

lemma TCLAMP_clamps: "- 576 \<le> v \<Longrightarrow> v \<le> 1087 \<Longrightarrow> TCLAMP_U8 v = Some (half_clamped v)"
  by (simp add: TCLAMP_U8_def clip_rd half_clamped_def)

lemma SCLAMP_clamps:
  assumes "- 1073741824 \<le> v" "v < 1073741824"
  shows "SCLAMP_U8 v = half_clamped v"
proof -
  have v: "i32 v = v" "sar 31 v = (if v < 0 then - 1 else 0)" "sar 31 (v - 510) = (if v < 510 then - 1 else 0)"
    using assms by (auto simp: i32_id sar_def)
  consider "v < 0" | "0 \<le> v" "v < 510" | "510 \<le> v" by linarith
  then show ?thesis
  proof cases
    case 1
    then show ?thesis using v by (simp add: SCLAMP_U8_def half_clamped_def Let_def)
  next
    case 2
    then show ?thesis using v by (simp add: SCLAMP_U8_def half_clamped_def Let_def drop_bit_eq_div)
  next
    case 3
    then have "min 255 (v div 2) = 255" by simp
    then show ?thesis using 3 v by (simp add: SCLAMP_U8_def half_clamped_def Let_def)
  qed
qed

section \<open>One block\<close>

lemma store_T_in:
  "0 \<le> i \<Longrightarrow> i < int (length buf) \<Longrightarrow> - 576 \<le> v \<Longrightarrow> v \<le> 1087 \<Longrightarrow> store_T buf i v = Some (buf[nat i := half_clamped v])"
  by (simp add: store_T_def TCLAMP_clamps mem_simps)

lemma store_S_in:
  "0 \<le> i \<Longrightarrow> i < int (length buf) \<Longrightarrow> - 576 \<le> v \<Longrightarrow> v \<le> 1087 \<Longrightarrow> store_S buf i v = Some (buf[nat i := half_clamped v])"
  by (simp add: store_S_def SCLAMP_clamps mem_simps)

text \<open>The updates in the order of the code are one block of eight bytes in each row.\<close>

lemma updates_patch:
  assumes "d1 + 8 \<le> d2" "d2 + 8 \<le> length xs"
  shows "xs[d1 + 2 := r0, d1 + 1 := g0, d1 := b0, d1 + 6 := r1, d1 + 5 := g1, d1 + 4 := b1,
      d2 + 2 := r2, d2 + 1 := g2, d2 := b2, d2 + 6 := r3, d2 + 5 := g3, d2 + 4 := b3,
      d1 + 3 := a0, d1 + 7 := a1, d2 + 3 := a2, d2 + 7 := a3]
    = patch (patch xs d1 [b0, g0, r0, a0, b1, g1, r1, a1]) d2 [b2, g2, r2, a2, b3, g3, r3, a3]" (is "?l = ?r")
proof (rule nth_equalityI)
  show "length ?l = length ?r" using assms by simp
  fix k assume "k < length ?l"
  then have k: "k < length xs" by simp
  consider c where "c < 8" "k = d1 + c" | c where "c < 8" "k = d2 + c" | "k < d1 \<or> d1 + 8 \<le> k" "k < d2 \<or> d2 + 8 \<le> k"
    by (metis add_less_cancel_left le_Suc_ex linorder_not_le)
  then show "?l ! k = ?r ! k"
  proof cases
    case 1
    then show ?thesis using assms k unfolding less_8 by (elim disjE) (simp_all add: nth_patch nth_list_update)
  next
    case 2
    then show ?thesis using assms k unfolding less_8 by (elim disjE) (simp_all add: nth_patch nth_list_update)
  next
    case 3
    then show ?thesis using assms k by (auto simp: nth_patch nth_list_update)
  qed
qed

lemma updates_patch_row:
  assumes "d + 8 \<le> length xs"
  shows "xs[d + 2 := r0, d + 1 := g0, d := b0, d + 6 := r1, d + 5 := g1, d + 4 := b1, d + 7 := a1, d + 3 := a0]
    = patch xs d [b0, g0, r0, a0, b1, g1, r1, a1]" (is "?l = ?r")
proof (rule nth_equalityI)
  show "length ?l = length ?r" using assms by simp
  fix k assume "k < length ?l"
  then have k: "k < length xs" by simp
  consider c where "c < 8" "k = d + c" | "k < d \<or> d + 8 \<le> k"
    by (metis add_less_cancel_left le_Suc_ex linorder_not_le)
  then show "?l ! k = ?r ! k"
  proof cases
    case 1
    then show ?thesis using assms k unfolding less_8 by (elim disjE) (simp_all add: nth_patch nth_list_update)
  next
    case 2
    then show ?thesis using assms k by (auto simp: nth_patch nth_list_update)
  qed
qed

lemma block420_step:
  assumes "rd u (c_u c) = Some U" "rd v (c_v c) = Some V" "rd y (c_y1 c) = Some Y0" "rd y (c_y1 c + 1) = Some Y1"
    and "rd y (c_y2 c) = Some Y2" "rd y (c_y2 c + 1) = Some Y3"
    and "alpha (c_a1 c) = Some A0" "alpha (c_a1 c + 1) = Some A1" "alpha (c_a2 c) = Some A2" "alpha (c_a2 c + 1) = Some A3"
    and "0 \<le> c_d1 c" "c_d1 c + 8 \<le> c_d2 c" "c_d2 c + 8 \<le> int (length buf)"
  shows "block420 alpha y v u (c, buf) = Some (c\<lparr>c_y1 := c_y1 c + 2, c_y2 := c_y2 c + 2, c_u := c_u c + 1, c_v := c_v c + 1,
       c_d1 := c_d1 c + 8, c_d2 := c_d2 c + 8, c_a1 := c_a1 c + 2, c_a2 := c_a2 c + 2\<rparr>,
     patch (patch buf (nat (c_d1 c)) (bgra_pixel Y0 U V A0 @ bgra_pixel Y1 U V A1)) (nat (c_d2 c))
       (bgra_pixel Y2 U V A2 @ bgra_pixel Y3 U V A3))"
proof -
  obtain d1 d2 where d: "c_d1 c = int d1" "c_d2 c = int d2" using assms(11,12) by (metis nonneg_int_cases add_increasing2 order_trans zero_le_numeral)
  have b: "d1 + 8 \<le> d2" "d2 + 8 \<le> length buf" using assms(12,13) d by simp_all
  have n: "nat (int d1 + 1) = d1 + 1" "nat (int d1 + numeral k) = d1 + numeral k"
    "nat (int d2 + 1) = d2 + 1" "nat (int d2 + numeral k) = d2 + numeral k" for k by (simp_all add: nat_add_distrib)
  show ?thesis
    using b unfolding block420_def prod.case rd_u8_def assms(1-10) option.map(2) Option.bind.simps chroma_byte luma_byte d Let_def
    by (simp add: store_T_in store_S_in term_range wr_in n bgra_pixel_def updates_patch [OF b, symmetric] del: list_update_swap)
qed

section \<open>The loops\<close>

text \<open>Byte \<open>k\<close> of row \<open>j\<close> of the converted image, from the pixels.\<close>

definition image_byte :: "(int \<Rightarrow> int \<Rightarrow> jbyte list) \<Rightarrow> int \<Rightarrow> int \<Rightarrow> jbyte" where
  "image_byte px j k = px j (k div 4) ! nat (k mod 4)"

lemma block_index:
  fixes j i :: int
  assumes "0 \<le> i" "i < 8"
  shows "(8 * j + i) div 4 = 2 * j + i div 4" "(8 * j + i) mod 4 = i mod 4" "(2 * j + i div 4) div 2 = j"
  using assms by presburger+

lemma two_pixels:
  assumes "i < 8" "p = px j (2 * c)" "q = px j (2 * c + 1)" "length p = 4"
  shows "(p @ q) ! i = image_byte px j (8 * c + int i)"
proof (cases "i < 4")
  case True
  then have "int i div 4 = 0" "nat (int i mod 4) = i" by simp_all
  with True assms block_index [of "int i" c] show ?thesis by (simp add: image_byte_def nth_append)
next
  case False
  with assms(1) have "int i div 4 = 1" "int i mod 4 = int i - 4" by presburger+
  moreover from this(2) False have "nat (int i mod 4) = i - 4" by simp
  ultimately show ?thesis using False assms block_index [of "int i" c] by (simp add: image_byte_def nth_append)
qed

lemma columns420:
  fixes px1 px2 :: "int \<Rightarrow> jbyte list"
  assumes "0 \<le> c_u r" "c_u r + n \<le> int (length u)" "0 \<le> c_v r" "c_v r + n \<le> int (length v)"
    and "0 \<le> c_y1 r" "c_y1 r + 2 * n \<le> int (length y)" "0 \<le> c_y2 r" "c_y2 r + 2 * n \<le> int (length y)"
    and "0 \<le> c_d1 r" "c_d1 r + 8 * n \<le> c_d2 r" "c_d2 r + 8 * n \<le> int (length buf)" "0 \<le> n"
    and "\<And>i. 0 \<le> i \<Longrightarrow> i < 2 * n \<Longrightarrow> alpha (c_a1 r + i) = Some (A1 i)" "\<And>i. 0 \<le> i \<Longrightarrow> i < 2 * n \<Longrightarrow> alpha (c_a2 r + i) = Some (A2 i)"
    and "\<And>i. px1 i = bgra_pixel (y ! nat (c_y1 r + i)) (u ! nat (c_u r + i div 2)) (v ! nat (c_v r + i div 2)) (A1 i)"
    and "\<And>i. px2 i = bgra_pixel (y ! nat (c_y2 r + i)) (u ! nat (c_u r + i div 2)) (v ! nat (c_v r + i div 2)) (A2 i)"
  shows "\<exists>c out. cfor n (\<lambda>i. block420 alpha y v u) (r, buf) = Some (c, out)
    \<and> pair_map (c_d1 r) (c_d2 r) (8 * n) (image_byte (\<lambda>j. px1) 0) (image_byte (\<lambda>j. px2) 0) buf out"
proof -
  let ?c = "\<lambda>i. r\<lparr>c_y1 := c_y1 r + 2 * i, c_y2 := c_y2 r + 2 * i, c_u := c_u r + i, c_v := c_v r + i,
       c_d1 := c_d1 r + 8 * i, c_d2 := c_d2 r + 8 * i, c_a1 := c_a1 r + 2 * i, c_a2 := c_a2 r + 2 * i\<rparr>"
  let ?I = "\<lambda>i (c, out). c = ?c i \<and> pair_map (c_d1 r) (c_d2 r) (8 * i) (image_byte (\<lambda>j. px1) 0) (image_byte (\<lambda>j. px2) 0) buf out"
  have "\<exists>t. cfor n (\<lambda>i. block420 alpha y v u) (r, buf) = Some t \<and> ?I (max 0 n) t"
  proof (rule cfor_total)
    show "?I 0 (r, buf)" by simp
  next
    fix i t assume i: "0 \<le> i" "i < n" and "?I i t"
    then obtain out where t: "t = (?c i, out)"
      and out: "pair_map (c_d1 r) (c_d2 r) (8 * i) (image_byte (\<lambda>j. px1) 0) (image_byte (\<lambda>j. px2) 0) buf out"
      by (cases t) auto
    have len: "length out = length buf" by (rule pair_map_length [OF out])
    have half: "(2 * i) div 2 = i" "(2 * i + 1) div 2 = i" by presburger+
    have step: "block420 alpha y v u t = Some (?c (i + 1),
        patch (patch out (nat (c_d1 r + 8 * i)) (px1 (2 * i) @ px1 (2 * i + 1))) (nat (c_d2 r + 8 * i)) (px2 (2 * i) @ px2 (2 * i + 1)))"
      unfolding t using assms(1-12) i len
        assms(13) [of "2 * i"] assms(13) [of "2 * i + 1"] assms(14) [of "2 * i"] assms(14) [of "2 * i + 1"]
      by (subst block420_step [where U = "u ! nat (c_u r + i)" and V = "v ! nat (c_v r + i)"
            and ?Y0.0 = "y ! nat (c_y1 r + 2 * i)" and ?Y1.0 = "y ! nat (c_y1 r + (2 * i + 1))"
            and ?Y2.0 = "y ! nat (c_y2 r + 2 * i)" and ?Y3.0 = "y ! nat (c_y2 r + (2 * i + 1))"
            and ?A0.0 = "A1 (2 * i)" and ?A1.0 = "A1 (2 * i + 1)" and ?A2.0 = "A2 (2 * i)" and ?A3.0 = "A2 (2 * i + 1)"])
        (simp_all add: rd_in assms(15,16) half add.assoc)
    have "pair_map (c_d1 r) (c_d2 r) (8 * i + int 8) (image_byte (\<lambda>j. px1) 0) (image_byte (\<lambda>j. px2) 0) buf
        (patch (patch out (nat (c_d1 r + 8 * i)) (px1 (2 * i) @ px1 (2 * i + 1))) (nat (c_d2 r + 8 * i)) (px2 (2 * i) @ px2 (2 * i + 1)))"
      by (rule pair_map_patch [OF out])
        (use assms(9-12) i in \<open>simp_all add: two_pixels [where px = "\<lambda>j. px1"] two_pixels [where px = "\<lambda>j. px2"] assms(15,16)\<close>)
    then show "\<exists>u'. block420 alpha y v u t = Some u' \<and> ?I (i + 1) u'"
      using step by (simp add: algebra_simps)
  qed
  with assms(12) show ?thesis by auto
qed

lemma row_bound:
  fixes s :: int
  assumes "0 \<le> r" "r < h" "0 \<le> s" "(h - 1) * s + w \<le> L"
  shows "0 \<le> r * s" "r * s + w \<le> L"
  using assms mult_right_mono [of r "h - 1" s] by auto

text \<open>All rows: the target differs exactly in the visible part.\<close>

definition px420 :: "jbyte list \<Rightarrow> int \<Rightarrow> jbyte list \<Rightarrow> int \<Rightarrow> jbyte list \<Rightarrow> int \<Rightarrow> (int \<Rightarrow> int \<Rightarrow> jbyte) \<Rightarrow> int \<Rightarrow> int \<Rightarrow> jbyte list" where
  "px420 y ys v vs u us A j i = bgra_pixel (y ! nat (j * ys + i)) (u ! nat (j div 2 * us + i div 2)) (v ! nat (j div 2 * vs + i div 2)) (A j i)"

lemma image_byte_row: "image_byte (\<lambda>_. px j) 0 = image_byte px j"
  by (simp add: image_byte_def fun_eq_iff)

lemma rows420_exact:
  assumes "0 \<le> n" "0 \<le> m" "n < 1073741824" "m < 1073741824" "0 \<le> ys" "0 \<le> vs" "0 \<le> us" "8 * n \<le> ds" "0 < ds"
    and "(2 * m - 1) * ys + 2 * n \<le> int (length y)" "(m - 1) * vs + n \<le> int (length v)" "(m - 1) * us + n \<le> int (length u)"
    and "(2 * m - 1) * ds + 8 * n \<le> int (length bgra)"
    and "\<And>j i. 0 \<le> j \<Longrightarrow> j < 2 * m \<Longrightarrow> 0 \<le> i \<Longrightarrow> i < 2 * n \<Longrightarrow> alpha (j * as + i) = Some (A j i)"
  and "ys < 1073741824" "ds < 1073741824" "0 \<le> as" "as < 1073741824"
  shows "\<exists>out. rows420 alpha bgra ds (2 * n) (2 * m) y v u ys vs us as = Some out
    \<and> rect_map 0 ds 0 (8 * n) (2 * m) (\<lambda>j k _. image_byte (px420 y ys v vs u us A) j k) bgra out"
proof -
  let ?r = "\<lambda>j. \<lparr>c_y1 = 2 * j * ys, c_y2 = (2 * j + 1) * ys, c_u = j * us, c_v = j * vs, c_d1 = 2 * j * ds, c_d2 = (2 * j + 1) * ds,
      c_a1 = 2 * j * as, c_a2 = (2 * j + 1) * as\<rparr>"
  let ?G = "\<lambda>j k. image_byte (px420 y ys v vs u us A) j k"
  let ?I = "\<lambda>j (c, out). c = ?r j \<and> rect_map 0 ds 0 (8 * n) (2 * j) (\<lambda>j k _. ?G j k) bgra out"
  let ?f = "\<lambda>j (rows, buf). do { (_, buf) \<leftarrow> cfor (sar 1 (2 * n)) (\<lambda>i. block420 alpha y v u) (rows, buf);
       Some (next_row_pairs ys vs us as ds rows, buf) }"
  have sar: "sar 1 (2 * n) = n" "sar 1 (2 * m) = m" using assms(1-4) by (simp_all add: sar_id)
  have "\<exists>t. cfor m ?f (first_rows ys as ds, bgra) = Some t \<and> ?I (max 0 m) t"
  proof (rule cfor_total)
    show "?I 0 (first_rows ys as ds, bgra)" by (simp add: first_rows_def rect_map_none)
  next
    fix j t assume j: "0 \<le> j" "j < m" and "?I j t"
    then obtain buf where t: "t = (?r j, buf)" and buf: "rect_map 0 ds 0 (8 * n) (2 * j) (\<lambda>j k _. ?G j k) bgra buf"
      by (cases t) auto
    have len: "length buf = length bgra" by (rule rect_map_length [OF buf])
    have two: "(2 * j) div 2 = j" "(2 * j + 1) div 2 = j" by presburger+
    note yb = row_bound [OF _ _ assms(5,10), of "2 * j"] row_bound [OF _ _ assms(5,10), of "2 * j + 1"]
    note db = row_bound [OF _ _ _ assms(13), of "2 * j"] row_bound [OF _ _ _ assms(13), of "2 * j + 1"]
    note cb = row_bound [OF j assms(6,11)] row_bound [OF j assms(7,12)]
    have rows: "2 * j * ds + 8 * n \<le> (2 * j + 1) * ds" using assms(8) by (simp add: algebra_simps)
    have "\<exists>c out. cfor n (\<lambda>i. block420 alpha y v u) (?r j, buf) = Some (c, out)
        \<and> pair_map (c_d1 (?r j)) (c_d2 (?r j)) (8 * n) (image_byte (\<lambda>_. px420 y ys v vs u us A (2 * j)) 0)
            (image_byte (\<lambda>_. px420 y ys v vs u us A (2 * j + 1)) 0) buf out"
      by (rule columns420 [where ?A1.0 = "A (2 * j)" and ?A2.0 = "A (2 * j + 1)"])
        (use assms(1,9,14) j yb db cb rows len in \<open>simp_all add: px420_def two\<close>)
    then obtain c out where out: "cfor n (\<lambda>i. block420 alpha y v u) (?r j, buf) = Some (c, out)"
      "pair_map (2 * j * ds) ((2 * j + 1) * ds) (8 * n) (?G (2 * j)) (?G (2 * j + 1)) buf out"
      unfolding image_byte_row by auto
    have "rect_map 0 ds 0 (8 * n) (2 * j + 2) (\<lambda>j k _. ?G j k) bgra out"
      by (rule rect_map_pair [OF buf]) (use out(2) assms(8,9) j in simp_all)
    moreover have "next_row_pairs ys vs us as ds (?r j) = ?r (j + 1)" using assms(5,8,9,15-18) by (simp add: next_row_pairs_def i32_id algebra_simps)
    ultimately show "\<exists>w. ?f j t = Some w \<and> ?I (j + 1) w"
      using out(1) unfolding t sar by (simp add: algebra_simps)
  qed
  with assms(2) show ?thesis unfolding rows420_def sar by (auto simp: max_def)
qed

section \<open>4:2:2\<close>

lemma block422_step:
  assumes "rd u (c_u c) = Some U" "rd v (c_v c) = Some V" "rd y (c_y1 c) = Some Y0" "rd y (c_y1 c + 2) = Some Y1"
    and "0 \<le> c_d1 c" "c_d1 c + 8 \<le> int (length buf)"
  shows "block422 y v u (c, buf) = Some (c\<lparr>c_y1 := c_y1 c + 4, c_u := c_u c + 4, c_v := c_v c + 4, c_d1 := c_d1 c + 8\<rparr>,
     patch buf (nat (c_d1 c)) (bgra_pixel Y0 U V 0xff @ bgra_pixel Y1 U V 0xff))"
proof -
  obtain d1 where d: "c_d1 c = int d1" using assms(5) by (metis nonneg_int_cases)
  have b: "d1 + 8 \<le> length buf" using assms(6) d by simp
  have n: "nat (int d1 + 1) = d1 + 1" "nat (int d1 + numeral k) = d1 + numeral k" for k by (simp_all add: nat_add_distrib)
  show ?thesis
    using b unfolding block422_def prod.case rd_u8_def assms(1-4) option.map(2) Option.bind.simps chroma_byte luma_byte d Let_def
    by (simp add: store_T_in store_S_in term_range wr_in n bgra_pixel_def updates_patch_row [OF b, symmetric] del: list_update_swap)
qed

lemma columns422:
  fixes px :: "int \<Rightarrow> jbyte list"
  assumes "0 \<le> c_u r" "c_u r + 4 * n \<le> int (length u) + 3" "0 \<le> c_v r" "c_v r + 4 * n \<le> int (length v) + 3"
    and "0 \<le> c_y1 r" "c_y1 r + 4 * n \<le> int (length y) + 1"
    and "0 \<le> c_d1 r" "c_d1 r + 8 * n \<le> int (length buf)" "0 \<le> n"
    and "\<And>i. px i = bgra_pixel (y ! nat (c_y1 r + 2 * i)) (u ! nat (c_u r + 4 * (i div 2))) (v ! nat (c_v r + 4 * (i div 2))) 0xff"
  shows "\<exists>c out. cfor n (\<lambda>i. block422 y v u) (r, buf) = Some (c, out)
    \<and> slice_map (c_d1 r) (8 * n) (\<lambda>k _. image_byte (\<lambda>j. px) 0 k) buf out"
proof -
  let ?c = "\<lambda>i. r\<lparr>c_y1 := c_y1 r + 4 * i, c_u := c_u r + 4 * i, c_v := c_v r + 4 * i, c_d1 := c_d1 r + 8 * i\<rparr>"
  let ?I = "\<lambda>i (c, out). c = ?c i \<and> slice_map (c_d1 r) (8 * i) (\<lambda>k _. image_byte (\<lambda>j. px) 0 k) buf out"
  have "\<exists>t. cfor n (\<lambda>i. block422 y v u) (r, buf) = Some t \<and> ?I (max 0 n) t"
  proof (rule cfor_total)
    show "?I 0 (r, buf)" by (simp add: slice_map_refl)
  next
    fix i t assume i: "0 \<le> i" "i < n" and "?I i t"
    then obtain out where t: "t = (?c i, out)"
      and out: "slice_map (c_d1 r) (8 * i) (\<lambda>k _. image_byte (\<lambda>j. px) 0 k) buf out" by (cases t) auto
    have len: "length out = length buf" by (rule slice_map_length [OF out])
    have half: "(2 * i) div 2 = i" "(2 * i + 1) div 2 = i" by presburger+
    have step: "block422 y v u t = Some (?c (i + 1), patch out (nat (c_d1 r + 8 * i)) (px (2 * i) @ px (2 * i + 1)))"
      unfolding t using assms(1-9) i len
      by (subst block422_step [where U = "u ! nat (c_u r + 4 * i)" and V = "v ! nat (c_v r + 4 * i)"
            and ?Y0.0 = "y ! nat (c_y1 r + 2 * (2 * i))" and ?Y1.0 = "y ! nat (c_y1 r + 2 * (2 * i + 1))"])
        (simp_all add: rd_in assms(10) half add.assoc)
    have "slice_map (c_d1 r) (8 * i + int 8) (\<lambda>k _. image_byte (\<lambda>j. px) 0 k) buf
        (patch out (nat (c_d1 r + 8 * i)) (px (2 * i) @ px (2 * i + 1)))"
      by (rule slice_map_patch [OF out]) (use assms(7-9) i in \<open>simp_all add: two_pixels [where px = "\<lambda>j. px"] assms(10)\<close>)
    then show "\<exists>w. block422 y v u t = Some w \<and> ?I (i + 1) w" using step by (simp add: algebra_simps)
  qed
  with assms(9) show ?thesis by auto
qed

definition px422 :: "jbyte list \<Rightarrow> int \<Rightarrow> jbyte list \<Rightarrow> jbyte list \<Rightarrow> int \<Rightarrow> int \<Rightarrow> int \<Rightarrow> jbyte list" where
  "px422 y ys v u uvs j i =
    bgra_pixel (y ! nat (j * ys + 2 * i)) (u ! nat (j * uvs + 4 * (i div 2))) (v ! nat (j * uvs + 4 * (i div 2))) 0xff"

lemma rows422_exact:
  assumes "0 \<le> n" "0 \<le> h" "n < 1073741824" "0 \<le> ys" "0 \<le> uvs" "8 * n \<le> ds" "0 < ds"
    and "(h - 1) * ys + 4 * n \<le> int (length y) + 1" "(h - 1) * uvs + 4 * n \<le> int (length v) + 3"
    and "(h - 1) * uvs + 4 * n \<le> int (length u) + 3" "(h - 1) * ds + 8 * n \<le> int (length bgra)"
  shows "\<exists>out. rows422 bgra ds (2 * n) h y v u ys uvs = Some out
    \<and> rect_map 0 ds 0 (8 * n) h (\<lambda>j k _. image_byte (px422 y ys v u uvs) j k) bgra out"
proof -
  let ?G = "\<lambda>j k. image_byte (px422 y ys v u uvs) j k"
  let ?I = "\<lambda>j (c, out). (\<exists>z :: cursors. c = z\<lparr>c_y1 := j * ys, c_u := j * uvs, c_v := j * uvs, c_d1 := j * ds\<rparr>)
    \<and> rect_map 0 ds 0 (8 * n) j (\<lambda>j k _. ?G j k) bgra out"
  let ?f = "\<lambda>j (rows, buf). do { (_, buf) \<leftarrow> cfor (sar 1 (2 * n)) (\<lambda>i. block422 y v u) (rows, buf);
       Some (next_row ys uvs ds rows, buf) }"
  have sar: "sar 1 (2 * n) = n" using assms(1,3) by (simp add: sar_id)
  have "\<exists>t. cfor h ?f (first_rows 0 0 0, bgra) = Some t \<and> ?I (max 0 h) t"
  proof (rule cfor_total)
    show "?I 0 (first_rows 0 0 0, bgra)" by (auto simp: first_rows_def rect_map_none intro!: exI [of _ "first_rows 0 0 0"])
  next
    fix j t assume j: "0 \<le> j" "j < h" and "?I j t"
    then obtain z buf where t: "t = (z\<lparr>c_y1 := j * ys, c_u := j * uvs, c_v := j * uvs, c_d1 := j * ds\<rparr>, buf)"
      and buf: "rect_map 0 ds 0 (8 * n) j (\<lambda>j k _. ?G j k) bgra buf"
      by (cases t) auto
    let ?z = "z\<lparr>c_y1 := j * ys, c_u := j * uvs, c_v := j * uvs, c_d1 := j * ds\<rparr>"
    have len: "length buf = length bgra" by (rule rect_map_length [OF buf])
    note b = row_bound [OF j assms(4,8)] row_bound [OF j assms(5,9)] row_bound [OF j assms(5,10)] row_bound [OF j _ assms(11)]
    have "\<exists>c out. cfor n (\<lambda>i. block422 y v u) (?z, buf) = Some (c, out)
        \<and> slice_map (c_d1 ?z) (8 * n) (\<lambda>k _. image_byte (\<lambda>_. px422 y ys v u uvs j) 0 k) buf out"
      by (rule columns422) (use assms(1,7) b len in \<open>simp_all add: px422_def\<close>)
    then obtain c out where out: "cfor n (\<lambda>i. block422 y v u) (?z, buf) = Some (c, out)"
      "slice_map (j * ds) (8 * n) (\<lambda>k _. ?G j k) buf out"
      unfolding image_byte_row by auto
    have "rect_map 0 ds 0 (8 * n) (j + 1) (\<lambda>j k _. ?G j k) bgra out"
      by (rule rect_map_snoc [OF buf]) (use out(2) assms(6,7) j in simp_all)
    moreover have "\<exists>z'. next_row ys uvs ds ?z = z'\<lparr>c_y1 := (j + 1) * ys, c_u := (j + 1) * uvs, c_v := (j + 1) * uvs, c_d1 := (j + 1) * ds\<rparr>"
      by (rule exI [of _ z]) (simp add: next_row_def algebra_simps)
    ultimately show "\<exists>w. ?f j t = Some w \<and> ?I (j + 1) w"
      using out(1) unfolding t sar by simp
  qed
  with assms(2) show ?thesis unfolding rows422_def sar by (auto simp: max_def)
qed

end
