(* ===== verification/Color_Sse2.thy ===== *)
theory Color_Sse2
  imports Sse2 Color_Convert
begin

text \<open>
  The SSE2 conversions of \<^verbatim>\<open>jfxmedia/Utils/ColorConverter.c\<close> from planar 4:2:0 samples to ARGB and BGRA.
  Two rows are converted at once, in blocks of 16, 8, 4 and 2 columns. The four functions of the source have
  the same text but for the source of the alpha values, the order of the bytes of a pixel and the
  multiplication of the colours by alpha: these are the parameters \<open>alpha\<close> and \<open>combine\<close> here. \<open>combine\<close>
  gives, from the registers of alpha, red, green and blue, the four registers in the order of the bytes.
\<close>

section \<open>Colours\<close>

definition times_y :: "m128 \<Rightarrow> m128" where "times_y x = mm_mulhi_epu16 x (mm_set1_epi16 0x2543)"

definition chroma_words :: "m128 \<Rightarrow> m128 \<Rightarrow> m128 \<times> m128 \<times> m128" where
  "chroma_words x_u x_v = (let
     x_u0 = mm_mulhi_epu16 x_u (mm_set1_epi16 0x4097);
     x_b = mm_add_epi16 x_u0 (mm_set1_epi16 0xdd60);
     x_u1 = mm_mulhi_epu16 x_u (mm_set1_epi16 0xc8b);
     x_v1 = mm_mulhi_epu16 x_v (mm_set1_epi16 0x1a06);
     x_temp = mm_add_epi16 x_u1 x_v1;
     x_g = mm_sub_epi16 (mm_set1_epi16 0x10f4) x_temp;
     x_v2 = mm_mulhi_epu16 x_v (mm_set1_epi16 0x3317);
     x_r = mm_add_epi16 x_v2 (mm_set1_epi16 0xe420)
   in (x_b, x_g, x_r))"

text \<open>One colour: each word of \<open>x\<close> is added to four words of luminance, and the sums are packed.\<close>

definition colour16 :: "m128 \<Rightarrow> m128 \<Rightarrow> m128 \<Rightarrow> m128 \<Rightarrow> m128 \<Rightarrow> m128 \<times> m128" where
  "colour16 x_y1 x_y2 x_y3 x_y4 x = (let
     x_bak = mm_unpacklo_epi16 x x;
     x_1 = mm_add_epi16 x_y1 (mm_unpacklo_epi32 x_bak x_bak);
     x_2 = mm_add_epi16 x_y2 (mm_unpackhi_epi32 x_bak x_bak);
     x_bak = mm_unpackhi_epi16 x x;
     x_3 = mm_add_epi16 x_y3 (mm_unpacklo_epi32 x_bak x_bak);
     x_4 = mm_add_epi16 x_y4 (mm_unpackhi_epi32 x_bak x_bak)
   in (mm_packus_epi16 (mm_srai_epi16 x_1 5) (mm_srai_epi16 x_2 5), mm_packus_epi16 (mm_srai_epi16 x_3 5) (mm_srai_epi16 x_4 5)))"

definition colour8 :: "m128 \<Rightarrow> m128 \<Rightarrow> m128 \<Rightarrow> m128" where
  "colour8 x_y1 x_y2 x = (let
     x_bak = mm_unpacklo_epi16 x x;
     x_1 = mm_add_epi16 x_y1 (mm_unpacklo_epi32 x_bak x_bak);
     x_2 = mm_add_epi16 x_y2 (mm_unpackhi_epi32 x_bak x_bak)
   in mm_packus_epi16 (mm_srai_epi16 x_1 5) (mm_srai_epi16 x_2 5))"

definition colour4 :: "m128 \<Rightarrow> m128 \<Rightarrow> m128" where
  "colour4 x_y1 x = (let
     x_bak = mm_unpacklo_epi16 x x;
     x_1 = mm_add_epi16 x_y1 (mm_unpacklo_epi32 x_bak x_bak)
   in mm_packus_epi16 (mm_srai_epi16 x_1 5) mm_setzero_si128)"

definition colour2 :: "m128 \<Rightarrow> int \<Rightarrow> m128" where
  "colour2 x_y1 i = mm_packus_epi16 (mm_srai_epi16 (mm_add_epi16 x_y1 (mm_set1_epi16 (word_of_int i))) 5) mm_setzero_si128"

definition premultiply_alpha :: "m128 \<Rightarrow> m128 \<Rightarrow> m128" where
  "premultiply_alpha cc aa = (let
     x_one = mm_set1_epi16 1;
     x_temp = mm_unpacklo_epi8 cc mm_setzero_si128;
     x_temp1 = mm_unpacklo_epi8 aa mm_setzero_si128;
     x_temp1 = mm_add_epi16 x_temp1 x_one;
     tt = mm_mullo_epi16 x_temp x_temp1;
     tt = mm_srli_epi16 tt 8;
     x_temp = mm_unpackhi_epi8 cc mm_setzero_si128;
     x_temp1 = mm_unpackhi_epi8 aa mm_setzero_si128;
     x_temp1 = mm_add_epi16 x_temp1 x_one;
     x_temp1 = mm_mullo_epi16 x_temp x_temp1;
     x_temp1 = mm_srli_epi16 x_temp1 8
   in mm_packus_epi16 tt x_temp1)"

type_synonym combination = "m128 \<Rightarrow> m128 \<Rightarrow> m128 \<Rightarrow> m128 \<Rightarrow> m128 \<times> m128 \<times> m128 \<times> m128"

definition argb_order :: combination where "argb_order a r g b = (a, r, g, b)"

definition bgra_order :: combination where "bgra_order a r g b = (b, g, r, a)"

definition bgra_premultiplied :: combination where
  "bgra_premultiplied a r g b = (premultiply_alpha b a, premultiply_alpha g a, premultiply_alpha r a, a)"

section \<open>Blocks\<close>

definition row_pair :: "m128 \<Rightarrow> m128 \<Rightarrow> m128 \<times> m128" where
  "row_pair x y = (let l = mm_unpacklo_epi16 x y; h = mm_unpackhi_epi16 x y in (mm_unpacklo_epi64 l h, mm_unpackhi_epi64 l h))"

definition save_pair :: "m128 \<times> m128 \<Rightarrow> cursors \<times> plane \<Rightarrow> (cursors \<times> plane) option" where
  "save_pair = (\<lambda>(x_temp, x_temp1) (c, buf). do {
     buf \<leftarrow> mm_store_si128 buf (c_d1 c) x_temp;
     buf \<leftarrow> mm_store_si128 buf (c_d2 c) x_temp1;
     Some (c\<lparr>c_d1 := c_d1 c + 16, c_d2 := c_d2 c + 16\<rparr>, buf) })"

definition advance :: "int \<Rightarrow> cursors \<Rightarrow> cursors" where
  "advance n c = c\<lparr>c_y1 := c_y1 c + n, c_y2 := c_y2 c + n, c_u := c_u c + n div 2, c_v := c_v c + n div 2,
     c_a1 := c_a1 c + n, c_a2 := c_a2 c + n\<rparr>"

definition alpha16 :: "(plane \<Rightarrow> int \<Rightarrow> m128 option) \<Rightarrow> plane option \<Rightarrow> cursors \<Rightarrow> (m128 \<times> m128) option" where
  "alpha16 ld alpha c = (case alpha of None \<Rightarrow> Some (mm_set1_epi8 0xff, mm_set1_epi8 0xff) | Some a \<Rightarrow> do {
     x_temp \<leftarrow> ld a (c_a1 c);
     x_temp1 \<leftarrow> ld a (c_a2 c);
     Some (mm_unpacklo_epi16 x_temp x_temp1, mm_unpackhi_epi16 x_temp x_temp1) })"

definition simd16 ::
  "combination \<Rightarrow> (plane \<Rightarrow> int \<Rightarrow> m128 option) \<Rightarrow> plane option \<Rightarrow> plane \<Rightarrow> plane \<Rightarrow> plane \<Rightarrow> cursors \<times> plane \<Rightarrow> (cursors \<times> plane) option" where
  "simd16 combine ld alpha y v u = (\<lambda>(c, buf). do {
     x_temp \<leftarrow> mm_loadl 8 u (c_u c);
     let x_u = mm_unpacklo_epi8 mm_setzero_si128 x_temp;
     x_temp \<leftarrow> mm_loadl 8 v (c_v c);
     let x_v = mm_unpacklo_epi8 mm_setzero_si128 x_temp;
     x_temp \<leftarrow> ld y (c_y1 c);
     x_temp1 \<leftarrow> ld y (c_y2 c);
     let x_out = mm_unpacklo_epi16 x_temp x_temp1;
     let x_y1 = times_y (mm_unpacklo_epi8 mm_setzero_si128 x_out);
     let x_y2 = times_y (mm_unpackhi_epi8 mm_setzero_si128 x_out);
     let x_out = mm_unpackhi_epi16 x_temp x_temp1;
     let x_y3 = times_y (mm_unpacklo_epi8 mm_setzero_si128 x_out);
     let x_y4 = times_y (mm_unpackhi_epi8 mm_setzero_si128 x_out);
     (x_a1, x_a2) \<leftarrow> alpha16 ld alpha c;
     let (x_b, x_g, x_r) = chroma_words x_u x_v;
     let (x_b, x_b1) = colour16 x_y1 x_y2 x_y3 x_y4 x_b;
     let (x_g, x_g1) = colour16 x_y1 x_y2 x_y3 x_y4 x_g;
     let (x_r, x_r1) = colour16 x_y1 x_y2 x_y3 x_y4 x_r;
     let (p, q, r, s) = combine x_a1 x_r x_g x_b;
     st \<leftarrow> save_pair (row_pair (mm_unpacklo_epi8 p q) (mm_unpacklo_epi8 r s)) (advance 16 c, buf);
     st \<leftarrow> save_pair (row_pair (mm_unpackhi_epi8 p q) (mm_unpackhi_epi8 r s)) st;
     let (p, q, r, s) = combine x_a2 x_r1 x_g1 x_b1;
     st \<leftarrow> save_pair (row_pair (mm_unpacklo_epi8 p q) (mm_unpacklo_epi8 r s)) st;
     save_pair (row_pair (mm_unpackhi_epi8 p q) (mm_unpackhi_epi8 r s)) st })"

text \<open>The shorter blocks load 8, 4 and 2 bytes of each row, and half as many of each colour.\<close>

definition alpha_short :: "nat \<Rightarrow> plane option \<Rightarrow> cursors \<Rightarrow> m128 option" where
  "alpha_short n alpha c = (case alpha of None \<Rightarrow> Some (mm_set1_epi8 0xff) | Some a \<Rightarrow> do {
     x_temp \<leftarrow> mm_loadl n a (c_a1 c);
     x_temp1 \<leftarrow> mm_loadl n a (c_a2 c);
     Some (mm_unpacklo_epi16 x_temp x_temp1) })"

definition simd8 :: "combination \<Rightarrow> plane option \<Rightarrow> plane \<Rightarrow> plane \<Rightarrow> plane \<Rightarrow> cursors \<times> plane \<Rightarrow> (cursors \<times> plane) option" where
  "simd8 combine alpha y v u = (\<lambda>(c, buf). do {
     x_temp \<leftarrow> mm_loadl 4 u (c_u c);
     let x_u = mm_unpacklo_epi8 mm_setzero_si128 x_temp;
     x_temp \<leftarrow> mm_loadl 4 v (c_v c);
     let x_v = mm_unpacklo_epi8 mm_setzero_si128 x_temp;
     x_temp \<leftarrow> mm_loadl 8 y (c_y1 c);
     x_temp1 \<leftarrow> mm_loadl 8 y (c_y2 c);
     let x_out = mm_unpacklo_epi16 x_temp x_temp1;
     let x_y1 = times_y (mm_unpacklo_epi8 mm_setzero_si128 x_out);
     let x_y2 = times_y (mm_unpackhi_epi8 mm_setzero_si128 x_out);
     x_a1 \<leftarrow> alpha_short 8 alpha c;
     let (x_b, x_g, x_r) = chroma_words x_u x_v;
     let x_b = colour8 x_y1 x_y2 x_b;
     let x_g = colour8 x_y1 x_y2 x_g;
     let x_r = colour8 x_y1 x_y2 x_r;
     let (p, q, r, s) = combine x_a1 x_r x_g x_b;
     st \<leftarrow> save_pair (row_pair (mm_unpacklo_epi8 p q) (mm_unpacklo_epi8 r s)) (advance 8 c, buf);
     save_pair (row_pair (mm_unpackhi_epi8 p q) (mm_unpackhi_epi8 r s)) st })"

definition simd4 :: "combination \<Rightarrow> plane option \<Rightarrow> plane \<Rightarrow> plane \<Rightarrow> plane \<Rightarrow> cursors \<times> plane \<Rightarrow> (cursors \<times> plane) option" where
  "simd4 combine alpha y v u = (\<lambda>(c, buf). do {
     x_temp \<leftarrow> mm_loadl 2 u (c_u c);
     let x_u = mm_unpacklo_epi8 mm_setzero_si128 x_temp;
     x_temp \<leftarrow> mm_loadl 2 v (c_v c);
     let x_v = mm_unpacklo_epi8 mm_setzero_si128 x_temp;
     x_temp \<leftarrow> mm_loadl 4 y (c_y1 c);
     x_temp1 \<leftarrow> mm_loadl 4 y (c_y2 c);
     let x_out = mm_unpacklo_epi16 x_temp x_temp1;
     let x_y1 = times_y (mm_unpacklo_epi8 mm_setzero_si128 x_out);
     x_a1 \<leftarrow> alpha_short 4 alpha c;
     let (x_b, x_g, x_r) = chroma_words x_u x_v;
     let x_b = colour4 x_y1 x_b;
     let x_g = colour4 x_y1 x_g;
     let x_r = colour4 x_y1 x_r;
     let (p, q, r, s) = combine x_a1 x_r x_g x_b;
     save_pair (row_pair (mm_unpacklo_epi8 p q) (mm_unpacklo_epi8 r s)) (advance 4 c, buf) })"

text \<open>The last block computes the terms of the colours in integers and stores eight bytes of each row.\<close>

definition alpha2 :: "plane option \<Rightarrow> cursors \<Rightarrow> m128 option" where
  "alpha2 alpha c = (case alpha of None \<Rightarrow> Some (mm_set1_epi8 0xff) | Some (_, a) \<Rightarrow> do {
     t \<leftarrow> load 2 a (c_a1 c);
     b \<leftarrow> load 2 a (c_a2 c);
     Some (low_bytes (t @ b)) })"

definition simd2 :: "combination \<Rightarrow> plane option \<Rightarrow> plane \<Rightarrow> plane \<Rightarrow> plane \<Rightarrow> cursors \<times> plane \<Rightarrow> (cursors \<times> plane) option" where
  "simd2 combine alpha y v u = (\<lambda>(c, buf). do {
     iu \<leftarrow> rd_u8 (snd u) (c_u c);
     iv \<leftarrow> rd_u8 (snd v) (c_v c);
     t \<leftarrow> load 2 (snd y) (c_y1 c);
     b \<leftarrow> load 2 (snd y) (c_y2 c);
     let x_y1 = times_y (mm_unpacklo_epi8 mm_setzero_si128 (low_bytes (t @ b)));
     x_a1 \<leftarrow> alpha2 alpha c;
     let ib = - 8864 + sar 8 (iu * 0x4097);
     let ig = 0x10f4 - (sar 8 (iu * 0xc8b) + sar 8 (iv * 0x1a06));
     let ir = sar 8 (iv * 0x3317) - 7136;
     let x_b = colour2 x_y1 ib;
     let x_g = colour2 x_y1 ig;
     let x_r = colour2 x_y1 ir;
     let (p, q, r, s) = combine x_a1 x_r x_g x_b;
     let x = mm_unpacklo_epi16 (mm_unpacklo_epi8 p q) (mm_unpacklo_epi8 r s);
     buf \<leftarrow> mm_storel_epi64 buf (c_d1 c) x;
     buf \<leftarrow> mm_storel_epi64 buf (c_d2 c) (drop 8 x @ replicate 8 0);
     Some ((advance 2 c)\<lparr>c_d1 := c_d1 c + 8, c_d2 := c_d2 c + 8\<rparr>, buf) })"

section \<open>Rows\<close>

definition simd_row ::
  "combination \<Rightarrow> (plane \<Rightarrow> int \<Rightarrow> m128 option) \<Rightarrow> plane option \<Rightarrow> plane \<Rightarrow> plane \<Rightarrow> plane \<Rightarrow> int \<Rightarrow> cursors \<times> plane \<Rightarrow> (cursors \<times> plane) option" where
  "simd_row combine ld alpha y v u width st = do {
     (iW, st) \<leftarrow> wloop (\<lambda>(iW, st). iW \<le> width - 16) (\<lambda>(iW, st). map_option (Pair (iW + 16)) (simd16 combine ld alpha y v u st)) (0, st);
     (iW, st) \<leftarrow> (if iW \<le> width - 8 then map_option (Pair (iW + 8)) (simd8 combine alpha y v u st) else Some (iW, st));
     (iW, st) \<leftarrow> (if iW \<le> width - 4 then map_option (Pair (iW + 4)) (simd4 combine alpha y v u st) else Some (iW, st));
     (if iW \<le> width - 2 then simd2 combine alpha y v u st else Some st) }"

definition simd_image ::
  "combination \<Rightarrow> (plane \<Rightarrow> int \<Rightarrow> m128 option) \<Rightarrow> plane option \<Rightarrow> plane \<Rightarrow> int \<Rightarrow> int \<Rightarrow> int \<Rightarrow> plane \<Rightarrow> plane \<Rightarrow> plane
    \<Rightarrow> int \<Rightarrow> int \<Rightarrow> int \<Rightarrow> int \<Rightarrow> (int \<times> plane) option" where
  "simd_image combine ld alpha argb argb_stride width height y v u y_stride v_stride u_stride a_stride =
    map_option (\<lambda>(rows, buf). (0, buf)) (cfor (sar 1 height) (\<lambda>jH (rows, buf). do {
       (_, buf) \<leftarrow> simd_row combine ld alpha y v u width (rows, buf);
       Some (next_row_pairs y_stride v_stride u_stride a_stride argb_stride rows, buf) })
     (first_rows y_stride a_stride argb_stride, argb))"

text \<open>Aligned loads where every plane and every row begins on a multiple of 16.\<close>

definition pick_load :: "int list \<Rightarrow> plane \<Rightarrow> int \<Rightarrow> m128 option" where
  "pick_load values = (if list_ex (\<lambda>n. n mod 16 \<noteq> 0) values then mm_loadu_si128 else mm_load_si128)"

definition ColorConvert_YCbCr420p_to_ARGB32_sse2 ::
  "plane \<Rightarrow> int \<Rightarrow> int \<Rightarrow> int \<Rightarrow> plane \<Rightarrow> plane \<Rightarrow> plane \<Rightarrow> plane \<Rightarrow> int \<Rightarrow> int \<Rightarrow> int \<Rightarrow> int \<Rightarrow> (int \<times> plane) option" where
  "ColorConvert_YCbCr420p_to_ARGB32_sse2 argb argb_stride width height y v u a y_stride v_stride u_stride a_stride =
    simd_image argb_order (pick_load [fst y, fst u, fst v, fst a, y_stride, u_stride, v_stride, a_stride]) (Some a)
      argb argb_stride width height y v u y_stride v_stride u_stride a_stride"

definition ColorConvert_YCbCr420p_to_ARGB32_no_alpha_sse2 ::
  "plane \<Rightarrow> int \<Rightarrow> int \<Rightarrow> int \<Rightarrow> plane \<Rightarrow> plane \<Rightarrow> plane \<Rightarrow> int \<Rightarrow> int \<Rightarrow> int \<Rightarrow> (int \<times> plane) option" where
  "ColorConvert_YCbCr420p_to_ARGB32_no_alpha_sse2 argb argb_stride width height y v u y_stride v_stride u_stride =
    simd_image argb_order (pick_load [fst y, fst u, fst v, y_stride, u_stride, v_stride]) None
      argb argb_stride width height y v u y_stride v_stride u_stride 0"

definition ColorConvert_YCbCr420p_to_BGRA32_sse2 ::
  "plane \<Rightarrow> int \<Rightarrow> int \<Rightarrow> int \<Rightarrow> plane \<Rightarrow> plane \<Rightarrow> plane \<Rightarrow> plane \<Rightarrow> int \<Rightarrow> int \<Rightarrow> int \<Rightarrow> int \<Rightarrow> (int \<times> plane) option" where
  "ColorConvert_YCbCr420p_to_BGRA32_sse2 bgra bgra_stride width height y v u a y_stride v_stride u_stride a_stride =
    simd_image bgra_premultiplied (pick_load [fst y, fst u, fst v, fst a, y_stride, u_stride, v_stride, a_stride]) (Some a)
      bgra bgra_stride width height y v u y_stride v_stride u_stride a_stride"

definition ColorConvert_YCbCr420p_to_BGRA32_no_alpha_sse2 ::
  "plane \<Rightarrow> int \<Rightarrow> int \<Rightarrow> int \<Rightarrow> plane \<Rightarrow> plane \<Rightarrow> plane \<Rightarrow> int \<Rightarrow> int \<Rightarrow> int \<Rightarrow> (int \<times> plane) option" where
  "ColorConvert_YCbCr420p_to_BGRA32_no_alpha_sse2 bgra bgra_stride width height y v u y_stride v_stride u_stride =
    simd_image bgra_order (pick_load [fst y, fst u, fst v, y_stride, u_stride, v_stride]) None
      bgra bgra_stride width height y v u y_stride v_stride u_stride 0"

section \<open>The lanes of a colour\<close>

definition ylane :: "jbyte \<Rightarrow> 16 word" where "ylane y = word_of_int (uint y * 0x2543 div 256)"
definition blane :: "jbyte \<Rightarrow> 16 word" where "blane u = word_of_int (uint u * 0x4097 div 256) + 0xdd60"
definition glane :: "jbyte \<Rightarrow> jbyte \<Rightarrow> 16 word" where
  "glane u v = 0x10f4 - (word_of_int (uint u * 0xc8b div 256) + word_of_int (uint v * 0x1a06 div 256))"
definition rlane :: "jbyte \<Rightarrow> 16 word" where "rlane v = word_of_int (uint v * 0x3317 div 256) + 0xe420"

definition shade :: "16 word \<Rightarrow> 16 word \<Rightarrow> jbyte" where "shade y w = saturate (word_of_int (sint (y + w) div 2 ^ 5))"

lemma times_y_words [mm_simps]:
  "times_y (unlanes [wide 0 b0, wide 0 b1, wide 0 b2, wide 0 b3, wide 0 b4, wide 0 b5, wide 0 b6, wide 0 b7])
    = unlanes [ylane b0, ylane b1, ylane b2, ylane b3, ylane b4, ylane b5, ylane b6, ylane b7]"
proof -
  have "mulhi (wide 0 b) 0x2543 = ylane b" for b using mulhi_high [of "0x2543" b] by (simp add: ylane_def)
  then show ?thesis by (simp add: times_y_def mm_mulhi_epu16_def mm_set1_epi16_def replicate_16 lanewise_words del: unlanes.simps)
qed

lemma chroma_words_lanes [mm_simps]:
  "chroma_words (unlanes [wide 0 u0, wide 0 u1, wide 0 u2, wide 0 u3, wide 0 u4, wide 0 u5, wide 0 u6, wide 0 u7])
      (unlanes [wide 0 v0, wide 0 v1, wide 0 v2, wide 0 v3, wide 0 v4, wide 0 v5, wide 0 v6, wide 0 v7])
    = (unlanes [blane u0, blane u1, blane u2, blane u3, blane u4, blane u5, blane u6, blane u7],
       unlanes [glane u0 v0, glane u1 v1, glane u2 v2, glane u3 v3, glane u4 v4, glane u5 v5, glane u6 v6, glane u7 v7],
       unlanes [rlane v0, rlane v1, rlane v2, rlane v3, rlane v4, rlane v5, rlane v6, rlane v7])"
proof -
  have "mulhi (wide 0 b) 0x4097 = word_of_int (uint b * 0x4097 div 256)" "mulhi (wide 0 b) 0xc8b = word_of_int (uint b * 0xc8b div 256)"
    "mulhi (wide 0 b) 0x1a06 = word_of_int (uint b * 0x1a06 div 256)" "mulhi (wide 0 b) 0x3317 = word_of_int (uint b * 0x3317 div 256)" for b
    using mulhi_high [of "0x4097" b] mulhi_high [of "0xc8b" b] mulhi_high [of "0x1a06" b] mulhi_high [of "0x3317" b] by simp_all
  then show ?thesis
    by (simp add: chroma_words_def Let_def mm_mulhi_epu16_def mm_add_epi16_def mm_sub_epi16_def mm_set1_epi16_def replicate_16
        lanewise_words blane_def glane_def rlane_def del: unlanes.simps)
qed

lemma colour16_words [mm_simps]:
  "colour16 (unlanes [y0, y1, y2, y3, y4, y5, y6, y7]) (unlanes [y8, y9, y10, y11, y12, y13, y14, y15])
      (unlanes [z0, z1, z2, z3, z4, z5, z6, z7]) (unlanes [z8, z9, z10, z11, z12, z13, z14, z15]) (unlanes [w0, w1, w2, w3, w4, w5, w6, w7])
    = ([shade y0 w0, shade y1 w0, shade y2 w0, shade y3 w0, shade y4 w1, shade y5 w1, shade y6 w1, shade y7 w1,
        shade y8 w2, shade y9 w2, shade y10 w2, shade y11 w2, shade y12 w3, shade y13 w3, shade y14 w3, shade y15 w3],
       [shade z0 w4, shade z1 w4, shade z2 w4, shade z3 w4, shade z4 w5, shade z5 w5, shade z6 w5, shade z7 w5,
        shade z8 w6, shade z9 w6, shade z10 w6, shade z11 w6, shade z12 w7, shade z13 w7, shade z14 w7, shade z15 w7])"
  by (simp add: colour16_def Let_def mm_add_epi16_def mm_srai_epi16_def mm_packus_epi16_def shade_def lanewise_words unpack_words del: unlanes.simps)

lemma colour8_words [mm_simps]:
  "colour8 (unlanes [y0, y1, y2, y3, y4, y5, y6, y7]) (unlanes [y8, y9, y10, y11, y12, y13, y14, y15]) (unlanes [w0, w1, w2, w3, w4, w5, w6, w7])
    = [shade y0 w0, shade y1 w0, shade y2 w0, shade y3 w0, shade y4 w1, shade y5 w1, shade y6 w1, shade y7 w1,
       shade y8 w2, shade y9 w2, shade y10 w2, shade y11 w2, shade y12 w3, shade y13 w3, shade y14 w3, shade y15 w3]"
  by (simp add: colour8_def Let_def mm_add_epi16_def mm_srai_epi16_def mm_packus_epi16_def shade_def lanewise_words unpack_words del: unlanes.simps)

lemma colour4_words [mm_simps]:
  "colour4 (unlanes [y0, y1, y2, y3, y4, y5, y6, y7]) (unlanes [w0, w1, w2, w3, w4, w5, w6, w7])
    = [shade y0 w0, shade y1 w0, shade y2 w0, shade y3 w0, shade y4 w1, shade y5 w1, shade y6 w1, shade y7 w1, 0, 0, 0, 0, 0, 0, 0, 0]"
  by (simp add: colour4_def Let_def mm_add_epi16_def mm_srai_epi16_def mm_packus_epi16_def shade_def unlanes_zero replicate_16 saturate_def
      lanewise_words unpack_words del: unlanes.simps)

lemma colour2_words [mm_simps]:
  "colour2 (unlanes [y0, y1, y2, y3, y4, y5, y6, y7]) i
    = [shade y0 (word_of_int i), shade y1 (word_of_int i), shade y2 (word_of_int i), shade y3 (word_of_int i),
       shade y4 (word_of_int i), shade y5 (word_of_int i), shade y6 (word_of_int i), shade y7 (word_of_int i), 0, 0, 0, 0, 0, 0, 0, 0]"
  by (simp add: colour2_def Let_def mm_add_epi16_def mm_srai_epi16_def mm_packus_epi16_def mm_set1_epi16_def shade_def unlanes_zero replicate_16
      saturate_def lanewise_words unpack_words del: unlanes.simps)

definition clamp32 :: "int \<Rightarrow> jbyte" where "clamp32 s = word_of_int (max 0 (min 255 (s div 32)))"

definition simd_b :: "jbyte \<Rightarrow> jbyte \<Rightarrow> jbyte" where
  "simd_b y u = clamp32 (uint y * 0x2543 div 256 + uint u * 0x4097 div 256 - 8864)"
definition simd_g :: "jbyte \<Rightarrow> jbyte \<Rightarrow> jbyte \<Rightarrow> jbyte" where
  "simd_g y u v = clamp32 (uint y * 0x2543 div 256 + 4340 - uint u * 0xc8b div 256 - uint v * 0x1a06 div 256)"
definition simd_r :: "jbyte \<Rightarrow> jbyte \<Rightarrow> jbyte" where
  "simd_r y v = clamp32 (uint y * 0x2543 div 256 + uint v * 0x3317 div 256 - 7136)"

lemma sint_of_int16: "- 32768 \<le> s \<Longrightarrow> s < 32768 \<Longrightarrow> sint (word_of_int s :: 16 word) = s"
  by (simp add: signed_of_int signed_take_bit_int_eq_self)

lemma shade_clamp:
  assumes "y + w = word_of_int s" "- 32768 \<le> s" "s < 32768"
  shows "shade y w = clamp32 s"
proof -
  have "- 32768 \<le> s div 32" "s div 32 < 32768" using assms(2,3) by linarith+
  then show ?thesis using assms by (simp add: shade_def saturate_def clamp32_def sint_of_int16)
qed

text \<open>The sixteen-bit sums never wrap.\<close>

lemma shade_lanes:
  "shade (ylane y) (blane u) = simd_b y u" "shade (ylane y) (glane u v) = simd_g y u v" "shade (ylane y) (rlane v) = simd_r y v"
proof -
  note r = byte_bounds [of y] byte_bounds [of u] byte_bounds [of v]
  have w: "(0xdd60 :: 16 word) = word_of_int (- 8864)" "(0xe420 :: 16 word) = word_of_int (- 7136)" "(0x10f4 :: 16 word) = word_of_int 4340"
    by simp_all
  have "ylane y + blane u = word_of_int (uint y * 0x2543 div 256 + uint u * 0x4097 div 256 - 8864)"
    unfolding ylane_def blane_def w by (simp only: wi_hom_syms add.assoc diff_conv_add_uminus)
  then show "shade (ylane y) (blane u) = simd_b y u"
    unfolding simd_b_def by (rule shade_clamp) (use r in linarith)+
  have "ylane y + glane u v = word_of_int (uint y * 0x2543 div 256 + 4340 - uint u * 0xc8b div 256 - uint v * 0x1a06 div 256)"
    unfolding ylane_def glane_def w by (simp only: wi_hom_syms) (simp add: algebra_simps)
  then show "shade (ylane y) (glane u v) = simd_g y u v"
    unfolding simd_g_def by (rule shade_clamp) (use r in linarith)+
  have "ylane y + rlane v = word_of_int (uint y * 0x2543 div 256 + uint v * 0x3317 div 256 - 7136)"
    unfolding ylane_def rlane_def w by (simp only: wi_hom_syms add.assoc diff_conv_add_uminus)
  then show "shade (ylane y) (rlane v) = simd_r y v"
    unfolding simd_r_def by (rule shade_clamp) (use r in linarith)+
qed

lemma int_lanes:
  "word_of_int (- 8864 + uint u * 0x4097 div 256) = blane u"
  "word_of_int (0x10f4 - (uint u * 0xc8b div 256 + uint v * 0x1a06 div 256)) = glane u v"
  "word_of_int (uint v * 0x3317 div 256 - 7136) = rlane v"
proof -
  have w: "(0xdd60 :: 16 word) = word_of_int (- 8864)" "(0xe420 :: 16 word) = word_of_int (- 7136)" "(0x10f4 :: 16 word) = word_of_int 4340"
    by simp_all
  show "word_of_int (- 8864 + uint u * 0x4097 div 256) = blane u" unfolding blane_def w wi_hom_syms by (simp only: add.commute)
  show "word_of_int (0x10f4 - (uint u * 0xc8b div 256 + uint v * 0x1a06 div 256)) = glane u v" unfolding glane_def w wi_hom_syms ..
  show "word_of_int (uint v * 0x3317 div 256 - 7136) = rlane v" unfolding rlane_def w wi_hom_syms by (simp only: diff_conv_add_uminus)
qed

section \<open>The order of the bytes\<close>

definition premultiplied :: "jbyte \<Rightarrow> jbyte \<Rightarrow> jbyte" where
  "premultiplied c a = word_of_int (uint c * (uint a + 1) div 256)"

lemma premultiply_lane:
  "saturate (word_of_int (uint (wide c 0 * (wide a 0 + 1)) div 2 ^ 8)) = premultiplied c a"
proof -
  note r = byte_bounds [of c] byte_bounds [of a]
  have p: "uint c * (uint a + 1) \<le> 255 * 256" "0 \<le> uint c * (uint a + 1)"
    using r mult_mono [of "uint c" 255 "uint a + 1" 256] by simp_all
  have "wide c 0 * (wide a 0 + 1) = word_of_int (uint c * (uint a + 1))"
    by (simp add: wide_def wi_hom_syms)
  from arg_cong [where f = uint, OF this] have "uint (wide c 0 * (wide a 0 + 1)) = uint c * (uint a + 1)"
    using p unfolding uint_word_of_int by simp
  moreover have "0 \<le> uint c * (uint a + 1) div 256" "uint c * (uint a + 1) div 256 \<le> 255" using p by linarith+
  ultimately show ?thesis by (simp add: saturate_def premultiplied_def sint_of_int16)
qed

lemma premultiply_bytes:
  "premultiply_alpha [c0, c1, c2, c3, c4, c5, c6, c7, c8, c9, c10, c11, c12, c13, c14, c15]
      [a0, a1, a2, a3, a4, a5, a6, a7, a8, a9, a10, a11, a12, a13, a14, a15]
    = map2 premultiplied [c0, c1, c2, c3, c4, c5, c6, c7, c8, c9, c10, c11, c12, c13, c14, c15]
      [a0, a1, a2, a3, a4, a5, a6, a7, a8, a9, a10, a11, a12, a13, a14, a15]"
  by (simp add: premultiply_alpha_def Let_def mm_add_epi16_def mm_mullo_epi16_def mm_srli_epi16_def mm_packus_epi16_def mm_set1_epi16_def
      replicate_16 lanewise_words widen_low premultiply_lane [simplified] del: unlanes.simps)

lemma premultiply_alpha_map2: "length c = 16 \<Longrightarrow> length a = 16 \<Longrightarrow> premultiply_alpha c a = map2 premultiplied c a"
  using premultiply_bytes sixteen [of c] sixteen [of a] by metis

section \<open>The columns two by two\<close>

definition pairs :: "(int \<Rightarrow> int \<Rightarrow> 'a) \<Rightarrow> int \<Rightarrow> nat \<Rightarrow> 'a list" where
  "pairs f k n = concat (List.map (\<lambda>i. [f (k + int i) 0, f (k + int i) 1]) [0..<n])"

definition quads :: "(int \<Rightarrow> int \<Rightarrow> 'a) \<Rightarrow> (int \<Rightarrow> int \<Rightarrow> 'a) \<Rightarrow> int \<Rightarrow> nat \<Rightarrow> 'a list" where
  "quads f g k n = concat (List.map (\<lambda>i. [f (k + int i) 0, f (k + int i) 1, g (k + int i) 0, g (k + int i) 1]) [0..<n])"

lemma pairs_simps [mm_simps]:
  "pairs f k 1 = [f k 0, f k 1]"
  "pairs f k 2 = [f k 0, f k 1, f (k + 1) 0, f (k + 1) 1]"
  "pairs f k 4 = [f k 0, f k 1, f (k + 1) 0, f (k + 1) 1, f (k + 2) 0, f (k + 2) 1, f (k + 3) 0, f (k + 3) 1]"
  "pairs f k 8 = [f k 0, f k 1, f (k + 1) 0, f (k + 1) 1, f (k + 2) 0, f (k + 2) 1, f (k + 3) 0, f (k + 3) 1,
    f (k + 4) 0, f (k + 4) 1, f (k + 5) 0, f (k + 5) 1, f (k + 6) 0, f (k + 6) 1, f (k + 7) 0, f (k + 7) 1]"
  by (simp_all add: pairs_def upt_8)

lemma quads_simps [mm_simps]:
  "quads f g k 1 = [f k 0, f k 1, g k 0, g k 1]"
  "quads f g k 2 = [f k 0, f k 1, g k 0, g k 1, f (k + 1) 0, f (k + 1) 1, g (k + 1) 0, g (k + 1) 1]"
  "quads f g k 4 = [f k 0, f k 1, g k 0, g k 1, f (k + 1) 0, f (k + 1) 1, g (k + 1) 0, g (k + 1) 1,
    f (k + 2) 0, f (k + 2) 1, g (k + 2) 0, g (k + 2) 1, f (k + 3) 0, f (k + 3) 1, g (k + 3) 0, g (k + 3) 1]"
  by (simp_all add: quads_def upt_8)

lemma length_quads_4: "length (quads f g k 4) = 16"
  by (simp add: quads_simps)

definition lo_pair :: "m128 \<times> m128 \<times> m128 \<times> m128 \<Rightarrow> m128 \<times> m128" where
  "lo_pair = (\<lambda>(p, q, r, s). row_pair (mm_unpacklo_epi8 p q) (mm_unpacklo_epi8 r s))"

definition hi_pair :: "m128 \<times> m128 \<times> m128 \<times> m128 \<Rightarrow> m128 \<times> m128" where
  "hi_pair = (\<lambda>(p, q, r, s). row_pair (mm_unpackhi_epi8 p q) (mm_unpackhi_epi8 r s))"

text \<open>The registers of the first block.\<close>

lemma simd16_colours:
  assumes "mm_loadl 8 u (c_u c) = Some (low_bytes [U k, U (k + 1), U (k + 2), U (k + 3), U (k + 4), U (k + 5), U (k + 6), U (k + 7)])"
    and "mm_loadl 8 v (c_v c) = Some (low_bytes [V k, V (k + 1), V (k + 2), V (k + 3), V (k + 4), V (k + 5), V (k + 6), V (k + 7)])"
    and "ld y (c_y1 c) = Some (pairs Y1 k 8)" "ld y (c_y2 c) = Some (pairs Y2 k 8)"
    and "alpha16 ld alpha c = Some (quads A1 A2 k 4, quads A1 A2 (k + 4) 4)"
  shows "simd16 combine ld alpha y v u (c, buf) = (let
      q = \<lambda>k. combine (quads A1 A2 k 4) (quads (\<lambda>k s. simd_r (Y1 k s) (V k)) (\<lambda>k s. simd_r (Y2 k s) (V k)) k 4)
        (quads (\<lambda>k s. simd_g (Y1 k s) (U k) (V k)) (\<lambda>k s. simd_g (Y2 k s) (U k) (V k)) k 4)
        (quads (\<lambda>k s. simd_b (Y1 k s) (U k)) (\<lambda>k s. simd_b (Y2 k s) (U k)) k 4);
      lo = lo_pair;
      hi = hi_pair
    in do { st \<leftarrow> save_pair (lo (q k)) (advance 16 c, buf); st \<leftarrow> save_pair (hi (q k)) st;
      st \<leftarrow> save_pair (lo (q (k + 4))) st; save_pair (hi (q (k + 4))) st })"
proof -
  have five: "4 + 1 = (5 :: int)" by simp
  show ?thesis
    unfolding simd16_def prod.case assms Option.bind.simps Let_def low_bytes_simps pairs_simps unpack_bytes widen_high times_y_words
      chroma_words_lanes colour16_words shade_lanes quads_simps lo_pair_def hi_pair_def
    by (simp only: prod.case split_beta add.assoc five one_add_one arith_simps fst_conv snd_conv)
qed

text \<open>The lanes that a short load leaves clear carry no pixel.\<close>

lemma simd8_colours:
  assumes "mm_loadl 4 u (c_u c) = Some (low_bytes [U k, U (k + 1), U (k + 2), U (k + 3)])"
    and "mm_loadl 4 v (c_v c) = Some (low_bytes [V k, V (k + 1), V (k + 2), V (k + 3)])"
    and "mm_loadl 8 y (c_y1 c) = Some (low_bytes (pairs Y1 k 4))" "mm_loadl 8 y (c_y2 c) = Some (low_bytes (pairs Y2 k 4))"
    and "alpha_short 8 alpha c = Some (quads A1 A2 k 4)"
  shows "simd8 combine alpha y v u (c, buf) = (let
      q = combine (quads A1 A2 k 4) (quads (\<lambda>k s. simd_r (Y1 k s) (V k)) (\<lambda>k s. simd_r (Y2 k s) (V k)) k 4)
        (quads (\<lambda>k s. simd_g (Y1 k s) (U k) (V k)) (\<lambda>k s. simd_g (Y2 k s) (U k) (V k)) k 4)
        (quads (\<lambda>k s. simd_b (Y1 k s) (U k)) (\<lambda>k s. simd_b (Y2 k s) (U k)) k 4)
    in do { st \<leftarrow> save_pair (lo_pair q) (advance 8 c, buf); save_pair (hi_pair q) st })"
proof -
  show ?thesis
    unfolding simd8_def prod.case assms Option.bind.simps Let_def low_bytes_simps pairs_simps unpack_bytes widen_high times_y_words
      chroma_words_lanes colour8_words shade_lanes quads_simps lo_pair_def hi_pair_def
    by (simp only: prod.case split_beta fst_conv snd_conv)
qed

lemma simd4_colours:
  assumes "mm_loadl 2 u (c_u c) = Some (low_bytes [U k, U (k + 1)])" "mm_loadl 2 v (c_v c) = Some (low_bytes [V k, V (k + 1)])"
    and "mm_loadl 4 y (c_y1 c) = Some (low_bytes (pairs Y1 k 2))" "mm_loadl 4 y (c_y2 c) = Some (low_bytes (pairs Y2 k 2))"
    and "alpha_short 4 alpha c = Some x"
  shows "simd4 combine alpha y v u (c, buf) =
      save_pair (lo_pair (combine x (quads (\<lambda>k s. simd_r (Y1 k s) (V k)) (\<lambda>k s. simd_r (Y2 k s) (V k)) k 2 @ replicate 8 0)
        (quads (\<lambda>k s. simd_g (Y1 k s) (U k) (V k)) (\<lambda>k s. simd_g (Y2 k s) (U k) (V k)) k 2 @ replicate 8 0)
        (quads (\<lambda>k s. simd_b (Y1 k s) (U k)) (\<lambda>k s. simd_b (Y2 k s) (U k)) k 2 @ replicate 8 0))) (advance 4 c, buf)"
proof -
  show ?thesis
    unfolding simd4_def prod.case assms Option.bind.simps Let_def low_bytes_simps pairs_simps unpack_bytes widen_high times_y_words
      chroma_words_lanes colour4_words shade_lanes quads_simps lo_pair_def replicate_16 append.simps
    by (simp only: prod.case split_beta fst_conv snd_conv)
qed

lemma simd2_colours:
  assumes "rd (snd u) (c_u c) = Some (U k)" "rd (snd v) (c_v c) = Some (V k)"
    and "load 2 (snd y) (c_y1 c) = Some (pairs Y1 k 1)" "load 2 (snd y) (c_y2 c) = Some (pairs Y2 k 1)"
    and "alpha2 alpha c = Some x"
  shows "\<exists>r g b. length r = 16 \<and> length g = 16 \<and> length b = 16
    \<and> take 4 r = quads (\<lambda>k s. simd_r (Y1 k s) (V k)) (\<lambda>k s. simd_r (Y2 k s) (V k)) k 1
    \<and> take 4 g = quads (\<lambda>k s. simd_g (Y1 k s) (U k) (V k)) (\<lambda>k s. simd_g (Y2 k s) (U k) (V k)) k 1
    \<and> take 4 b = quads (\<lambda>k s. simd_b (Y1 k s) (U k)) (\<lambda>k s. simd_b (Y2 k s) (U k)) k 1
    \<and> simd2 combine alpha y v u (c, buf) = (let (p, q, r, s) = combine x r g b;
         z = mm_unpacklo_epi16 (mm_unpacklo_epi8 p q) (mm_unpacklo_epi8 r s)
       in do { buf \<leftarrow> mm_storel_epi64 buf (c_d1 c) z;
         buf \<leftarrow> mm_storel_epi64 buf (c_d2 c) (drop 8 z @ replicate 8 0);
         Some ((advance 2 c)\<lparr>c_d1 := c_d1 c + 8, c_d2 := c_d2 c + 8\<rparr>, buf) })"
proof -
  have sar: "sar 8 (uint (b :: jbyte) * m) = uint b * m div 256" if "0 \<le> m" "m \<le> 65535" for b m
  proof -
    have "uint b * m \<le> 255 * 65535" using byte_bounds [of b] that by (intro mult_mono) simp_all
    moreover have "0 \<le> uint b * m" using that by simp
    ultimately show ?thesis by (simp add: sar_id)
  qed
  let ?y = "unlanes [ylane (Y1 k 0), ylane (Y1 k 1), ylane (Y2 k 0), ylane (Y2 k 1), ylane 0, ylane 0, ylane 0, ylane 0]"
  have y: "times_y (mm_unpacklo_epi8 mm_setzero_si128 (low_bytes (pairs Y1 k 1 @ pairs Y2 k 1))) = ?y"
    unfolding pairs_simps append.simps low_bytes_simps widen_high times_y_words ..
  have i: "sar 8 (uint (U k) * 0x4097) = uint (U k) * 0x4097 div 256" "sar 8 (uint (U k) * 0xc8b) = uint (U k) * 0xc8b div 256"
    "sar 8 (uint (V k) * 0x1a06) = uint (V k) * 0x1a06 div 256" "sar 8 (uint (V k) * 0x3317) = uint (V k) * 0x3317 div 256"
    by (rule sar; simp)+
  show ?thesis
    unfolding simd2_def prod.case rd_u8_def assms option.map(2) Option.bind.simps Let_def y i
    unfolding colour2_words int_lanes shade_lanes quads_simps
    by (intro exI conjI, rule_tac [7] refl) simp_all
qed

end
