(* ===== verification/Color_Simd.thy ===== *)
theory Color_Simd
  imports Color_Sse2
begin

text \<open>
  What the SSE2 conversions compute: the blocks are proved once, in a locale for the order of the bytes of a
  pixel, and the rows and the image from them. A row is followed in pairs of columns, that share their
  colour samples.
\<close>

section \<open>Runs of pixels\<close>

definition by_column :: "(int \<Rightarrow> int \<Rightarrow> 'a) \<Rightarrow> int \<Rightarrow> 'a" where "by_column p j = p (j div 2) (j mod 2)"

lemma by_column_pair: "by_column p (2 * k) = p k 0" "by_column p (2 * k + 1) = p k 1"
  by (simp_all add: by_column_def)

lemma pairs_Suc: "pairs f k (Suc n) = pairs f k n @ [f (k + int n) 0, f (k + int n) 1]"
  by (simp add: pairs_def)

lemma pairs_0: "pairs f k 0 = []"
  by (simp add: pairs_def)

lemma length_run: "(\<And>k s. length (p k s) = 4) \<Longrightarrow> length (concat (pairs p k n)) = 8 * n"
  by (induction n) (simp_all add: pairs_0 pairs_Suc)

lemma run_nth:
  assumes len: "\<And>k s. length (p k s) = 4" and "i < 8 * n"
  shows "concat (pairs p k n) ! i = image_byte (\<lambda>_. by_column p) 0 (8 * k + int i)"
  using assms(2)
proof (induction n)
  case (Suc n)
  show ?case
  proof (cases "i < 8 * n")
    case True
    with Suc.IH show ?thesis by (simp add: pairs_Suc nth_append length_run len)
  next
    case False
    then have i: "i - 8 * n < 8" "8 * (k + int n) + int (i - 8 * n) = 8 * k + int i" using Suc.prems by simp_all
    have "(p (k + int n) 0 @ p (k + int n) 1) ! (i - 8 * n)
        = image_byte (\<lambda>_. by_column p) 0 (8 * (k + int n) + int (i - 8 * n))"
      by (rule two_pixels [OF i(1) _ _ len]) (rule by_column_pair [symmetric])+
    with False i(2) show ?thesis by (simp add: pairs_Suc nth_append length_run len)
  qed
qed simp

text \<open>The cursors after \<open>k\<close> pairs of columns.\<close>

definition at_pair :: "cursors \<Rightarrow> int \<Rightarrow> cursors" where
  "at_pair r k = r\<lparr>c_y1 := c_y1 r + 2 * k, c_y2 := c_y2 r + 2 * k, c_u := c_u r + k, c_v := c_v r + k,
     c_d1 := c_d1 r + 8 * k, c_d2 := c_d2 r + 8 * k, c_a1 := c_a1 r + 2 * k, c_a2 := c_a2 r + 2 * k\<rparr>"

text \<open>The state of a row: its target holds the first \<open>k\<close> pairs of columns.\<close>

definition row_done ::
  "cursors \<Rightarrow> (int \<Rightarrow> int \<Rightarrow> jbyte list) \<Rightarrow> (int \<Rightarrow> int \<Rightarrow> jbyte list) \<Rightarrow> int \<Rightarrow> jbyte list \<Rightarrow> int \<Rightarrow> plane \<Rightarrow> bool" where
  "row_done r p1 p2 adr buf k out \<longleftrightarrow> fst out = adr \<and> pair_map (c_d1 r) (c_d2 r) (8 * k)
     (image_byte (\<lambda>_. by_column p1) 0) (image_byte (\<lambda>_. by_column p2) 0) buf (snd out)"

lemma row_done_length: "row_done r p1 p2 adr buf k out \<Longrightarrow> length (snd out) = length buf"
  by (auto simp: row_done_def dest: pair_map_length)

lemma row_done_stores:
  assumes "row_done r p1 p2 adr buf k out" "\<And>k s. length (p1 k s) = 4" "\<And>k s. length (p2 k s) = 4"
    and "0 \<le> c_d1 r" "0 \<le> k" "c_d1 r + 8 * (k + int n) \<le> c_d2 r" "c_d2 r + 8 * (k + int n) \<le> int (length buf)"
  shows "\<exists>t o2. store (snd out) (c_d1 r + 8 * k) (concat (pairs p1 k n)) = Some t
    \<and> store t (c_d2 r + 8 * k) (concat (pairs p2 k n)) = Some o2 \<and> row_done r p1 p2 adr buf (k + int n) (adr, o2)"
proof -
  let ?b = "concat (pairs p1 k n)" and ?c = "concat (pairs p2 k n)"
  have l: "length ?b = 8 * n" "length ?c = 8 * n" by (simp_all add: length_run assms(2,3))
  have len: "length (snd out) = length buf" using assms(1) by (rule row_done_length)
  have sum: "0 \<le> c_d2 r + 8 * k" "0 \<le> c_d1 r + 8 * k" "c_d1 r + 8 * k + 8 * int n \<le> int (length buf)"
    using assms(4-7) by (simp_all add: distrib_left)
  then have bound: "0 \<le> c_d2 r + 8 * k" "nat (c_d1 r + 8 * k) + 8 * n \<le> length buf" by simp_all
  have "pair_map (c_d1 r) (c_d2 r) (8 * k + int (8 * n)) (image_byte (\<lambda>_. by_column p1) 0) (image_byte (\<lambda>_. by_column p2) 0) buf
      (patch (patch (snd out) (nat (c_d1 r + 8 * k)) ?b) (nat (c_d2 r + 8 * k)) ?c)"
    by (rule pair_map_patch) (use assms l in \<open>simp_all add: row_done_def run_nth\<close>)
  moreover have "store (snd out) (c_d1 r + 8 * k) ?b = Some (patch (snd out) (nat (c_d1 r + 8 * k)) ?b)"
    using assms(4-7) l len by (intro store_in) simp_all
  moreover have "store (patch (snd out) (nat (c_d1 r + 8 * k)) ?b) (c_d2 r + 8 * k) ?c
      = Some (patch (patch (snd out) (nat (c_d1 r + 8 * k)) ?b) (nat (c_d2 r + 8 * k)) ?c)"
    using assms(4-7) l len bound by (intro store_in) simp_all
  ultimately show ?thesis by (simp add: row_done_def distrib_left)
qed

lemma row_done_save:
  assumes "row_done r p1 p2 adr buf k out" "\<And>k s. length (p1 k s) = 4" "\<And>k s. length (p2 k s) = 4"
    and "0 \<le> c_d1 r" "0 \<le> k" "c_d1 r + 8 * (k + 2) \<le> c_d2 r" "c_d2 r + 8 * (k + 2) \<le> int (length buf)"
    and "(adr + c_d1 r) mod 16 = 0" "(adr + c_d2 r) mod 16 = 0" "even k"
    and "c_d1 c = c_d1 r + 8 * k" "c_d2 c = c_d2 r + 8 * k"
  shows "\<exists>o2. save_pair (concat (pairs p1 k 2), concat (pairs p2 k 2)) (c, out)
      = Some (c\<lparr>c_d1 := c_d1 c + 16, c_d2 := c_d2 c + 16\<rparr>, o2) \<and> row_done r p1 p2 adr buf (k + 2) o2"
proof -
  have "(adr + (c_d1 r + 8 * k)) mod 16 = 0" "(adr + (c_d2 r + 8 * k)) mod 16 = 0"
    using assms(8-10) by (auto elim!: evenE) presburger+
  then show ?thesis
    using row_done_stores [OF assms(1-5), of 2] assms(1,6,7,11,12)
    by (cases out) (auto simp: save_pair_def mm_store_si128_def row_done_def)
qed

section \<open>The inputs of a row\<close>

lemma load_map:
  assumes "0 \<le> off" "off + int n \<le> int (length xs)"
  shows "load n xs off = Some (List.map (\<lambda>i. xs ! nat (off + int i)) [0..<n])"
proof -
  have "take n (drop (nat off) xs) = List.map (\<lambda>i. xs ! nat (off + int i)) [0..<n]"
    by (rule nth_equalityI) (use assms in \<open>auto simp: nat_add_distrib\<close>)
  with assms show ?thesis by (simp add: load_in)
qed

lemma map_two: "List.map f [0..<2 * n] = concat (List.map (\<lambda>i. [f (2 * i), f (Suc (2 * i))]) [0..<n])"
  by (induction n) simp_all

lemma load_pairs:
  assumes "0 \<le> off" "0 \<le> k" "off + 2 * (k + int n) \<le> int (length xs)"
  shows "load (2 * n) xs (off + 2 * k) = Some (pairs (\<lambda>k s. xs ! nat (off + 2 * k + s)) k n)"
proof -
  have "load (2 * n) xs (off + 2 * k) = Some (List.map (\<lambda>i. xs ! nat (off + 2 * k + int i)) [0..<2 * n])"
    by (rule load_map) (use assms in \<open>simp_all add: distrib_left\<close>)
  then show ?thesis unfolding map_two pairs_def by (simp add: ac_simps distrib_left)
qed

definition row_inputs ::
  "(plane \<Rightarrow> int \<Rightarrow> m128 option) \<Rightarrow> plane option \<Rightarrow> plane \<Rightarrow> plane \<Rightarrow> plane \<Rightarrow> cursors \<Rightarrow> int
    \<Rightarrow> (int \<Rightarrow> int \<Rightarrow> jbyte) \<Rightarrow> (int \<Rightarrow> int \<Rightarrow> jbyte) \<Rightarrow> bool" where
  "row_inputs ld alpha y v u r n A1 A2 \<longleftrightarrow>
     0 \<le> c_u r \<and> c_u r + n \<le> int (length (snd u)) \<and> 0 \<le> c_v r \<and> c_v r + n \<le> int (length (snd v))
     \<and> 0 \<le> c_y1 r \<and> c_y1 r + 2 * n \<le> int (length (snd y)) \<and> 0 \<le> c_y2 r \<and> c_y2 r + 2 * n \<le> int (length (snd y))
     \<and> (\<forall>j \<ge> 0. ld y (c_y1 r + 16 * j) = load 16 (snd y) (c_y1 r + 16 * j) \<and> ld y (c_y2 r + 16 * j) = load 16 (snd y) (c_y2 r + 16 * j))
     \<and> (case alpha of None \<Rightarrow> A1 = (\<lambda>k s. 0xff) \<and> A2 = (\<lambda>k s. 0xff)
        | Some a \<Rightarrow> 0 \<le> c_a1 r \<and> c_a1 r + 2 * n \<le> int (length (snd a)) \<and> 0 \<le> c_a2 r \<and> c_a2 r + 2 * n \<le> int (length (snd a))
            \<and> A1 = (\<lambda>k s. snd a ! nat (c_a1 r + 2 * k + s)) \<and> A2 = (\<lambda>k s. snd a ! nat (c_a2 r + 2 * k + s))
            \<and> (\<forall>j \<ge> 0. ld a (c_a1 r + 16 * j) = load 16 (snd a) (c_a1 r + 16 * j) \<and> ld a (c_a2 r + 16 * j) = load 16 (snd a) (c_a2 r + 16 * j)))"

definition row_y :: "plane \<Rightarrow> int \<Rightarrow> int \<Rightarrow> int \<Rightarrow> jbyte" where "row_y y off k s = snd y ! nat (off + 2 * k + s)"

definition row_c :: "plane \<Rightarrow> int \<Rightarrow> int \<Rightarrow> jbyte" where "row_c u off k = snd u ! nat (off + k)"

lemma row_y_eq: "row_y y off = (\<lambda>k s. snd y ! nat (off + 2 * k + s))"
  by (simp add: row_y_def fun_eq_iff)

lemma luma_pairs:
  assumes "row_inputs ld alpha y v u r n A1 A2" "0 \<le> k" "k + int m \<le> n"
  shows "load (2 * m) (snd y) (c_y1 r + 2 * k) = Some (pairs (row_y y (c_y1 r)) k m)"
    "load (2 * m) (snd y) (c_y2 r + 2 * k) = Some (pairs (row_y y (c_y2 r)) k m)"
  unfolding row_y_eq by (rule load_pairs; use assms in \<open>simp add: row_inputs_def\<close>)+

lemma chroma_bytes:
  assumes "row_inputs ld alpha y v u r n A1 A2" "0 \<le> k" "k + int m \<le> n"
  shows "load m (snd u) (c_u r + k) = Some (List.map (\<lambda>i. row_c u (c_u r) (k + int i)) [0..<m])"
    "load m (snd v) (c_v r + k) = Some (List.map (\<lambda>i. row_c v (c_v r) (k + int i)) [0..<m])"
  using load_map [of "c_u r + k" m "snd u"] load_map [of "c_v r + k" m "snd v"] assms
  by (simp_all add: row_inputs_def row_c_def add.assoc)

lemma mm_loadl_eq: "mm_loadl n p off = map_option low_bytes (load n (snd p) off)"
  by (simp add: mm_loadl_def split_beta)

lemma interleave:
  "mm_unpacklo_epi16 (pairs f k 8) (pairs g k 8) = quads f g k 4" "mm_unpackhi_epi16 (pairs f k 8) (pairs g k 8) = quads f g (k + 4) 4"
  "mm_unpacklo_epi16 (low_bytes (pairs f k 4)) (low_bytes (pairs g k 4)) = quads f g k 4"
  "mm_unpacklo_epi16 (low_bytes (pairs f k 2)) (low_bytes (pairs g k 2)) = quads f g k 2 @ replicate 8 0"
  by (simp_all add: pairs_simps quads_simps unpack_bytes low_bytes_simps replicate_16 add.assoc)

lemma opaque_quads: "mm_set1_epi8 0xff = quads (\<lambda>k s. 0xff) (\<lambda>k s. 0xff) k 4"
  by (simp add: mm_set1_epi8_def quads_simps replicate_16)

lemma alpha16_quads:
  assumes "row_inputs ld alpha y v u r n A1 A2" "0 \<le> k" "k + 8 \<le> n" "k mod 8 = 0"
  shows "alpha16 ld alpha (at_pair r k) = Some (quads A1 A2 k 4, quads A1 A2 (k + 4) 4)"
proof (cases alpha)
  case None
  with assms(1) show ?thesis by (simp add: alpha16_def row_inputs_def opaque_quads [of k] opaque_quads [of "k + 4", symmetric])
next
  case (Some a)
  define j where "j = k div 8"
  then have j: "k = 8 * j" "0 \<le> j" using assms(2,4) by presburger+
  have a: "ld a (c_a1 r + 2 * k) = load 16 (snd a) (c_a1 r + 2 * k)" "ld a (c_a2 r + 2 * k) = load 16 (snd a) (c_a2 r + 2 * k)"
    using assms(1) Some j by (simp_all add: row_inputs_def)
  have "load 16 (snd a) (c_a1 r + 2 * k) = Some (pairs A1 k 8)" "load 16 (snd a) (c_a2 r + 2 * k) = Some (pairs A2 k 8)"
    using load_pairs [of "c_a1 r" k 8 "snd a"] load_pairs [of "c_a2 r" k 8 "snd a"] assms(1-3) Some by (simp_all add: row_inputs_def)
  with Some a show ?thesis by (simp add: alpha16_def at_pair_def interleave)
qed

lemma alpha_short_quads:
  assumes "row_inputs ld alpha y v u r n A1 A2" "0 \<le> k" "k + int m \<le> n" "m = 4 \<or> m = 2"
  shows "\<exists>x. alpha_short (2 * m) alpha (at_pair r k) = Some x \<and> length x = 16 \<and> take (4 * m) x = quads A1 A2 k m"
proof (cases alpha)
  case None
  with assms show ?thesis by (auto simp: alpha_short_def row_inputs_def mm_set1_epi8_def quads_simps replicate_16)
next
  case (Some a)
  have "load (2 * m) (snd a) (c_a1 r + 2 * k) = Some (pairs A1 k m)" "load (2 * m) (snd a) (c_a2 r + 2 * k) = Some (pairs A2 k m)"
    using load_pairs [of "c_a1 r" k m "snd a"] load_pairs [of "c_a2 r" k m "snd a"] assms(1-3) Some by (simp_all add: row_inputs_def)
  with Some assms(4) show ?thesis
    by (auto simp: alpha_short_def at_pair_def mm_loadl_eq interleave length_quads_4 quads_simps)
qed

lemma alpha2_quads:
  assumes "row_inputs ld alpha y v u r n A1 A2" "0 \<le> k" "k + 1 \<le> n"
  shows "\<exists>x. alpha2 alpha (at_pair r k) = Some x \<and> length x = 16 \<and> take 4 x = quads A1 A2 k 1"
proof (cases alpha)
  case None
  with assms show ?thesis by (auto simp: alpha2_def row_inputs_def mm_set1_epi8_def quads_simps(1) [simplified] replicate_16)
next
  case (Some a)
  have "load 2 (snd a) (c_a1 r + 2 * k) = Some (pairs A1 k 1)" "load 2 (snd a) (c_a2 r + 2 * k) = Some (pairs A2 k 1)"
    using load_pairs [of "c_a1 r" k 1 "snd a"] load_pairs [of "c_a2 r" k 1 "snd a"] assms Some by (simp_all add: row_inputs_def)
  with Some show ?thesis
    unfolding pairs_simps quads_simps by (auto simp: alpha2_def at_pair_def low_bytes_def split_beta)
qed

section \<open>The order of the bytes\<close>

text \<open>
  The contract of an order: it gives the registers of the four bytes of each of the sixteen pixels, lane by
  lane. \<open>pixel\<close> gives the bytes of one pixel from its alpha, red, green and blue.
\<close>

definition pixel_at ::
  "(jbyte \<Rightarrow> jbyte \<Rightarrow> jbyte \<Rightarrow> jbyte \<Rightarrow> jbyte list) \<Rightarrow> (int \<Rightarrow> int \<Rightarrow> jbyte) \<Rightarrow> (int \<Rightarrow> int \<Rightarrow> jbyte) \<Rightarrow> (int \<Rightarrow> jbyte) \<Rightarrow> (int \<Rightarrow> jbyte)
    \<Rightarrow> int \<Rightarrow> int \<Rightarrow> jbyte list" where
  "pixel_at pixel A Y U V k s = pixel (A k s) (simd_r (Y k s) (V k)) (simd_g (Y k s) (U k) (V k)) (simd_b (Y k s) (U k))"

definition row_target :: "cursors \<Rightarrow> int \<Rightarrow> int \<Rightarrow> jbyte list \<Rightarrow> bool" where
  "row_target r n adr buf \<longleftrightarrow> 0 \<le> c_d1 r \<and> c_d1 r + 8 * n \<le> c_d2 r \<and> c_d2 r + 8 * n \<le> int (length buf)
     \<and> (2 \<le> n \<longrightarrow> (adr + c_d1 r) mod 16 = 0 \<and> (adr + c_d2 r) mod 16 = 0)"

lemma quads_nth:
  "length a = 16 \<Longrightarrow> take 8 a = quads f g k 2 \<Longrightarrow> a ! 0 = f k 0 \<and> a ! 1 = f k 1 \<and> a ! 2 = g k 0 \<and> a ! 3 = g k 1
    \<and> a ! 4 = f (k + 1) 0 \<and> a ! 5 = f (k + 1) 1 \<and> a ! 6 = g (k + 1) 0 \<and> a ! 7 = g (k + 1) 1"
  "length a = 16 \<Longrightarrow> take 4 a = quads f g k 1 \<Longrightarrow> a ! 0 = f k 0 \<and> a ! 1 = f k 1 \<and> a ! 2 = g k 0 \<and> a ! 3 = g k 1"
  by (subst (asm) (1) sixteen, assumption, simp add: quads_simps quads_simps(1) [simplified])+

locale pixel_format =
  fixes combine :: "m128 \<Rightarrow> m128 \<Rightarrow> m128 \<Rightarrow> m128 \<Rightarrow> m128 \<times> m128 \<times> m128 \<times> m128"
    and pixel :: "jbyte \<Rightarrow> jbyte \<Rightarrow> jbyte \<Rightarrow> jbyte \<Rightarrow> jbyte list"
  assumes lanewise: "length a = 16 \<Longrightarrow> length r = 16 \<Longrightarrow> length g = 16 \<Longrightarrow> length b = 16 \<Longrightarrow>
    \<exists>p q x s. combine a r g b = (p, q, x, s) \<and> length p = 16 \<and> length q = 16 \<and> length x = 16 \<and> length s = 16
      \<and> (\<forall>i < 16. pixel (a ! i) (r ! i) (g ! i) (b ! i) = [p ! i, q ! i, x ! i, s ! i])"
    and four: "length (pixel c1 c2 c3 c4) = 4"
begin

lemma registers:
  assumes "length a = 16" "length r = 16" "length g = 16" "length b = 16"
  defines "P \<equiv> \<lambda>i. pixel (a ! i) (r ! i) (g ! i) (b ! i)"
  shows "lo_pair (combine a r g b) = (P 0 @ P 1 @ P 4 @ P 5, P 2 @ P 3 @ P 6 @ P 7)"
    and "hi_pair (combine a r g b) = (P 8 @ P 9 @ P 12 @ P 13, P 10 @ P 11 @ P 14 @ P 15)"
    and "(case combine a r g b of (p, q, x, s) \<Rightarrow> mm_unpacklo_epi16 (mm_unpacklo_epi8 p q) (mm_unpacklo_epi8 x s)) = P 0 @ P 1 @ P 2 @ P 3"
proof -
  obtain p q x s where c: "combine a r g b = (p, q, x, s)" and len: "length p = 16" "length q = 16" "length x = 16" "length s = 16"
    and px: "\<And>i. i < 16 \<Longrightarrow> P i = [p ! i, q ! i, x ! i, s ! i]"
    using lanewise [OF assms(1-4)] unfolding P_def by blast
  note e = sixteen [OF len(1)] sixteen [OF len(2)] sixteen [OF len(3)] sixteen [OF len(4)]
  have lo8: "mm_unpacklo_epi8 p q = [p ! 0, q ! 0, p ! 1, q ! 1, p ! 2, q ! 2, p ! 3, q ! 3, p ! 4, q ! 4, p ! 5, q ! 5, p ! 6, q ! 6, p ! 7, q ! 7]"
    "mm_unpacklo_epi8 x s = [x ! 0, s ! 0, x ! 1, s ! 1, x ! 2, s ! 2, x ! 3, s ! 3, x ! 4, s ! 4, x ! 5, s ! 5, x ! 6, s ! 6, x ! 7, s ! 7]"
    by (subst e(1), subst e(2), rule unpack_bytes(1)) (subst e(3), subst e(4), rule unpack_bytes(1))
  have hi8: "mm_unpackhi_epi8 p q = [p ! 8, q ! 8, p ! 9, q ! 9, p ! 10, q ! 10, p ! 11, q ! 11, p ! 12, q ! 12, p ! 13, q ! 13, p ! 14, q ! 14, p ! 15, q ! 15]"
    "mm_unpackhi_epi8 x s = [x ! 8, s ! 8, x ! 9, s ! 9, x ! 10, s ! 10, x ! 11, s ! 11, x ! 12, s ! 12, x ! 13, s ! 13, x ! 14, s ! 14, x ! 15, s ! 15]"
    by (subst e(1), subst e(2), rule unpack_bytes(2)) (subst e(3), subst e(4), rule unpack_bytes(2))
  show "lo_pair (combine a r g b) = (P 0 @ P 1 @ P 4 @ P 5, P 2 @ P 3 @ P 6 @ P 7)"
    unfolding c lo_pair_def row_pair_def prod.case Let_def lo8 unpack_bytes by (simp add: px)
  show "hi_pair (combine a r g b) = (P 8 @ P 9 @ P 12 @ P 13, P 10 @ P 11 @ P 14 @ P 15)"
    unfolding c hi_pair_def row_pair_def prod.case Let_def hi8 unpack_bytes by (simp add: px)
  show "(case combine a r g b of (p, q, x, s) \<Rightarrow> mm_unpacklo_epi16 (mm_unpacklo_epi8 p q) (mm_unpacklo_epi8 x s)) = P 0 @ P 1 @ P 2 @ P 3"
    unfolding c prod.case lo8 unpack_bytes by (simp add: px)
qed

lemma lo_quads:
  assumes "length a = 16" "length r = 16" "length g = 16" "length b = 16"
    and "take 8 a = quads A1 A2 k 2" "take 8 r = quads R1 R2 k 2" "take 8 g = quads G1 G2 k 2" "take 8 b = quads B1 B2 k 2"
  shows "lo_pair (combine a r g b) = (concat (pairs (\<lambda>k s. pixel (A1 k s) (R1 k s) (G1 k s) (B1 k s)) k 2),
    concat (pairs (\<lambda>k s. pixel (A2 k s) (R2 k s) (G2 k s) (B2 k s)) k 2))"
  using quads_nth(1) [OF assms(1,5)] quads_nth(1) [OF assms(2,6)] quads_nth(1) [OF assms(3,7)] quads_nth(1) [OF assms(4,8)]
  by (simp add: registers [OF assms(1-4)] pairs_simps)

lemma hi_quads:
  "hi_pair (combine (quads A1 A2 k 4) (quads R1 R2 k 4) (quads G1 G2 k 4) (quads B1 B2 k 4))
    = (concat (pairs (\<lambda>k s. pixel (A1 k s) (R1 k s) (G1 k s) (B1 k s)) (k + 2) 2),
       concat (pairs (\<lambda>k s. pixel (A2 k s) (R2 k s) (G2 k s) (B2 k s)) (k + 2) 2))"
  by (subst registers(2)) (simp_all add: length_quads_4 pairs_simps quads_simps add.assoc)

lemma lo_quads_4:
  "lo_pair (combine (quads A1 A2 k 4) (quads R1 R2 k 4) (quads G1 G2 k 4) (quads B1 B2 k 4))
    = (concat (pairs (\<lambda>k s. pixel (A1 k s) (R1 k s) (G1 k s) (B1 k s)) k 2),
       concat (pairs (\<lambda>k s. pixel (A2 k s) (R2 k s) (G2 k s) (B2 k s)) k 2))"
  by (rule lo_quads) (simp_all add: quads_simps)

end

section \<open>The blocks\<close>

lemma pixel_at_eq:
  "(\<lambda>k s. pixel (A k s) (simd_r (Y k s) (V k)) (simd_g (Y k s) (U k) (V k)) (simd_b (Y k s) (U k))) = pixel_at pixel A Y U V"
  by (simp add: pixel_at_def fun_eq_iff)

lemma eight_of:
  "List.map (\<lambda>i. f (k + int i)) [0..<8] = [f k, f (k + 1), f (k + 2), f (k + 3), f (k + 4), f (k + 5), f (k + 6), f (k + 7)]"
  "List.map (\<lambda>i. f (k + int i)) [0..<4] = [f k, f (k + 1), f (k + 2), f (k + 3)]"
  "List.map (\<lambda>i. f (k + int i)) [0..<2] = [f k, f (k + 1)]"
  by (simp_all add: upt_8)

context pixel_format
begin

lemma length_pixel_at: "length (pixel_at pixel A Y U V k s) = 4"
  by (simp add: pixel_at_def four)

lemma save_at:
  assumes "p1 = pixel_at pixel A1 Y1 U V" "p2 = pixel_at pixel A2 Y2 U V" "row_target r n adr buf"
    and "row_done r p1 p2 adr buf k out" "0 \<le> k" "k + 2 \<le> n" "even k"
  shows "\<exists>o2. save_pair (concat (pairs p1 k 2), concat (pairs p2 k 2)) (c\<lparr>c_d1 := c_d1 r + 8 * k, c_d2 := c_d2 r + 8 * k\<rparr>, out)
    = Some (c\<lparr>c_d1 := c_d1 r + 8 * (k + 2), c_d2 := c_d2 r + 8 * (k + 2)\<rparr>, o2) \<and> row_done r p1 p2 adr buf (k + 2) o2"
proof -
  let ?c = "c\<lparr>c_d1 := c_d1 r + 8 * k, c_d2 := c_d2 r + 8 * k\<rparr>"
  have "\<exists>o2. save_pair (concat (pairs p1 k 2), concat (pairs p2 k 2)) (?c, out)
      = Some (?c\<lparr>c_d1 := c_d1 ?c + 16, c_d2 := c_d2 ?c + 16\<rparr>, o2) \<and> row_done r p1 p2 adr buf (k + 2) o2"
    by (rule row_done_save [OF assms(4)]) (use assms in \<open>simp_all add: row_target_def length_pixel_at\<close>)
  then show ?thesis by (simp add: algebra_simps)
qed

lemma simd16_step:
  assumes p1_def: "p1 = pixel_at pixel A1 (row_y y (c_y1 r)) (row_c u (c_u r)) (row_c v (c_v r))"
    and p2_def: "p2 = pixel_at pixel A2 (row_y y (c_y2 r)) (row_c u (c_u r)) (row_c v (c_v r))"
    and inp: "row_inputs ld alpha y v u r n A1 A2" and tgt: "row_target r n adr buf"
    and dn: "row_done r p1 p2 adr buf k out" and k: "0 \<le> k" "k + 8 \<le> n" "k mod 8 = 0"
  shows "\<exists>o2. simd16 combine ld alpha y v u (at_pair r k, out) = Some (at_pair r (k + 8), o2) \<and> row_done r p1 p2 adr buf (k + 8) o2"
proof -
  let ?c = "\<lambda>i. (advance 16 (at_pair r k))\<lparr>c_d1 := c_d1 r + 8 * (k + i), c_d2 := c_d2 r + 8 * (k + i)\<rparr>"
  define j where "j = k div 8"
  then have j: "k = 8 * j" "0 \<le> j" "even k" using k(1,3) by presburger+
  have ld: "ld y (c_y1 r + 2 * k) = load 16 (snd y) (c_y1 r + 2 * k)" "ld y (c_y2 r + 2 * k) = load 16 (snd y) (c_y2 r + 2 * k)"
    using inp j by (simp_all add: row_inputs_def)
  note ld = ld [unfolded luma_pairs [OF inp k(1), of 8, simplified, OF k(2)]]
  note ch = chroma_bytes [OF inp k(1), of 8, simplified, OF k(2), unfolded eight_of]
  have save: "\<exists>o2. save_pair (concat (pairs p1 (k + i) 2), concat (pairs p2 (k + i) 2)) (?c i, out) = Some (?c (i + 2), o2)
      \<and> row_done r p1 p2 adr buf (k + (i + 2)) o2"
    if "row_done r p1 p2 adr buf (k + i) out" "even i" "0 \<le> i" "i + 2 \<le> 8" for i out
    using save_at [OF p1_def p2_def tgt that(1)] that k j by (simp add: add.assoc)
  have first: "(advance 16 (at_pair r k)) = ?c 0" and last: "?c 8 = at_pair r (k + 8)"
    by (simp_all add: at_pair_def advance_def)
  obtain o1 where o1: "save_pair (concat (pairs p1 k 2), concat (pairs p2 k 2)) (?c 0, out) = Some (?c 2, o1)"
    "row_done r p1 p2 adr buf (k + 2) o1" using save [of 0 out] dn by auto
  obtain o2 where o2: "save_pair (concat (pairs p1 (k + 2) 2), concat (pairs p2 (k + 2) 2)) (?c 2, o1) = Some (?c 4, o2)"
    "row_done r p1 p2 adr buf (k + 4) o2" using save [of 2 o1] o1(2) by (auto simp: add.assoc)
  obtain o3 where o3: "save_pair (concat (pairs p1 (k + 4) 2), concat (pairs p2 (k + 4) 2)) (?c 4, o2) = Some (?c 6, o3)"
    "row_done r p1 p2 adr buf (k + 6) o3" using save [of 4 o2] o2(2) by (auto simp: add.assoc)
  obtain o4 where o4: "save_pair (concat (pairs p1 (k + 6) 2), concat (pairs p2 (k + 6) 2)) (?c 6, o3) = Some (?c 8, o4)"
    "row_done r p1 p2 adr buf (k + 8) o4" using save [of 6 o3] o3(2) by (auto simp: add.assoc)
  have c: "c_u (at_pair r k) = c_u r + k" "c_v (at_pair r k) = c_v r + k" "c_y1 (at_pair r k) = c_y1 r + 2 * k"
    "c_y2 (at_pair r k) = c_y2 r + 2 * k" by (simp_all add: at_pair_def)
  have six: "k + 4 + 2 = k + 6" by simp
  note eq = simd16_colours [where c = "at_pair r k" and u = u and v = v and y = y and U = "row_c u (c_u r)" and V = "row_c v (c_v r)" and k = k
      and ?Y1.0 = "row_y y (c_y1 r)" and ?Y2.0 = "row_y y (c_y2 r)", OF _ _ _ _ alpha16_quads [OF inp k],
      unfolded c mm_loadl_eq ch ld option.map(2), OF refl refl refl refl]
  have "simd16 combine ld alpha y v u (at_pair r k, out) = Some (?c 8, o4)"
    unfolding eq Let_def lo_quads_4 hi_quads pixel_at_eq p1_def [symmetric] p2_def [symmetric]
    by (subst first) (simp only: six o1(1) o2(1) o3(1) o4(1) Option.bind.simps)
  with o4(2) last show ?thesis by auto
qed

lemma simd8_step:
  assumes p1_def: "p1 = pixel_at pixel A1 (row_y y (c_y1 r)) (row_c u (c_u r)) (row_c v (c_v r))"
    and p2_def: "p2 = pixel_at pixel A2 (row_y y (c_y2 r)) (row_c u (c_u r)) (row_c v (c_v r))"
    and inp: "row_inputs ld alpha y v u r n A1 A2" and tgt: "row_target r n adr buf"
    and dn: "row_done r p1 p2 adr buf k out" and k: "0 \<le> k" "k + 4 \<le> n" "even k"
  shows "\<exists>o2. simd8 combine alpha y v u (at_pair r k, out) = Some (at_pair r (k + 4), o2) \<and> row_done r p1 p2 adr buf (k + 4) o2"
proof -
  let ?c = "\<lambda>i. (advance 8 (at_pair r k))\<lparr>c_d1 := c_d1 r + 8 * (k + i), c_d2 := c_d2 r + 8 * (k + i)\<rparr>"
  have first: "(advance 8 (at_pair r k)) = ?c 0" and last: "?c 4 = at_pair r (k + 4)"
    by (simp_all add: at_pair_def advance_def)
  obtain o1 where o1: "save_pair (concat (pairs p1 k 2), concat (pairs p2 k 2)) (?c 0, out) = Some (?c 2, o1)"
    "row_done r p1 p2 adr buf (k + 2) o1" using save_at [OF p1_def p2_def tgt dn, of "advance 8 (at_pair r k)"] k by auto
  obtain o2 where o2: "save_pair (concat (pairs p1 (k + 2) 2), concat (pairs p2 (k + 2) 2)) (?c 2, o1) = Some (?c 4, o2)"
    "row_done r p1 p2 adr buf (k + 4) o2" using save_at [OF p1_def p2_def tgt o1(2), of "advance 8 (at_pair r k)"] k by (auto simp: add.assoc)
  have c: "c_u (at_pair r k) = c_u r + k" "c_v (at_pair r k) = c_v r + k" "c_y1 (at_pair r k) = c_y1 r + 2 * k"
    "c_y2 (at_pair r k) = c_y2 r + 2 * k" by (simp_all add: at_pair_def)
  have al: "alpha_short 8 alpha (at_pair r k) = Some (quads A1 A2 k 4)"
    using alpha_short_quads [OF inp k(1), of 4] k(2) by (auto simp: numeral_eq_Suc)
  note ch = chroma_bytes [OF inp k(1), of 4, simplified, OF k(2), unfolded eight_of]
  note ld = luma_pairs [OF inp k(1), of 4, simplified, OF k(2)]
  note eq = simd8_colours [where c = "at_pair r k" and u = u and v = v and y = y and U = "row_c u (c_u r)" and V = "row_c v (c_v r)" and k = k
      and ?Y1.0 = "row_y y (c_y1 r)" and ?Y2.0 = "row_y y (c_y2 r)", OF _ _ _ _ al,
      unfolded c mm_loadl_eq ch ld option.map(2), OF refl refl refl refl]
  have "simd8 combine alpha y v u (at_pair r k, out) = Some (?c 4, o2)"
    unfolding eq Let_def lo_quads_4 hi_quads pixel_at_eq p1_def [symmetric] p2_def [symmetric]
    by (subst first) (simp only: o1(1) o2(1) Option.bind.simps)
  with o2(2) last show ?thesis by auto
qed

lemma simd4_step:
  assumes p1_def: "p1 = pixel_at pixel A1 (row_y y (c_y1 r)) (row_c u (c_u r)) (row_c v (c_v r))"
    and p2_def: "p2 = pixel_at pixel A2 (row_y y (c_y2 r)) (row_c u (c_u r)) (row_c v (c_v r))"
    and inp: "row_inputs ld alpha y v u r n A1 A2" and tgt: "row_target r n adr buf"
    and dn: "row_done r p1 p2 adr buf k out" and k: "0 \<le> k" "k + 2 \<le> n" "even k"
  shows "\<exists>o2. simd4 combine alpha y v u (at_pair r k, out) = Some (at_pair r (k + 2), o2) \<and> row_done r p1 p2 adr buf (k + 2) o2"
proof -
  let ?c = "\<lambda>i. (advance 4 (at_pair r k))\<lparr>c_d1 := c_d1 r + 8 * (k + i), c_d2 := c_d2 r + 8 * (k + i)\<rparr>"
  have first: "(advance 4 (at_pair r k)) = ?c 0" and last: "?c 2 = at_pair r (k + 2)"
    by (simp_all add: at_pair_def advance_def)
  obtain o1 where o1: "save_pair (concat (pairs p1 k 2), concat (pairs p2 k 2)) (?c 0, out) = Some (?c 2, o1)"
    "row_done r p1 p2 adr buf (k + 2) o1" using save_at [OF p1_def p2_def tgt dn, of "advance 4 (at_pair r k)"] k by auto
  have c: "c_u (at_pair r k) = c_u r + k" "c_v (at_pair r k) = c_v r + k" "c_y1 (at_pair r k) = c_y1 r + 2 * k"
    "c_y2 (at_pair r k) = c_y2 r + 2 * k" by (simp_all add: at_pair_def)
  obtain x where x: "alpha_short 4 alpha (at_pair r k) = Some x" "length x = 16" "take 8 x = quads A1 A2 k 2"
    using alpha_short_quads [OF inp k(1), of 2] k(2) by auto
  note ch = chroma_bytes [OF inp k(1), of 2, simplified, OF k(2), unfolded eight_of]
  note ld = luma_pairs [OF inp k(1), of 2, simplified, OF k(2)]
  note eq = simd4_colours [where c = "at_pair r k" and u = u and v = v and y = y and U = "row_c u (c_u r)" and V = "row_c v (c_v r)" and k = k
      and ?Y1.0 = "row_y y (c_y1 r)" and ?Y2.0 = "row_y y (c_y2 r)", OF _ _ _ _ x(1),
      unfolded c mm_loadl_eq ch ld option.map(2), OF refl refl refl refl]
  have "simd4 combine alpha y v u (at_pair r k, out) = save_pair (concat (pairs p1 k 2), concat (pairs p2 k 2)) (advance 4 (at_pair r k), out)"
    unfolding eq p1_def p2_def pixel_at_eq [symmetric]
    by (subst lo_quads [OF x(2) _ _ _ x(3)]) (simp_all add: quads_simps)
  also have "\<dots> = Some (?c 2, o1)" by (subst first) (rule o1(1))
  finally show ?thesis using o1(2) last by auto
qed

lemma simd2_step:
  assumes p1_def: "p1 = pixel_at pixel A1 (row_y y (c_y1 r)) (row_c u (c_u r)) (row_c v (c_v r))"
    and p2_def: "p2 = pixel_at pixel A2 (row_y y (c_y2 r)) (row_c u (c_u r)) (row_c v (c_v r))"
    and inp: "row_inputs ld alpha y v u r n A1 A2" and tgt: "row_target r n adr buf"
    and dn: "row_done r p1 p2 adr buf k out" and k: "0 \<le> k" "k + 1 \<le> n"
  shows "\<exists>c o2. simd2 combine alpha y v u (at_pair r k, out) = Some (c, o2) \<and> row_done r p1 p2 adr buf (k + 1) o2"
proof -
  have c: "c_u (at_pair r k) = c_u r + k" "c_v (at_pair r k) = c_v r + k" "c_y1 (at_pair r k) = c_y1 r + 2 * k"
    "c_y2 (at_pair r k) = c_y2 r + 2 * k" "c_d1 (at_pair r k) = c_d1 r + 8 * k" "c_d2 (at_pair r k) = c_d2 r + 8 * k"
    by (simp_all add: at_pair_def)
  obtain x where x: "alpha2 alpha (at_pair r k) = Some x" "length x = 16" "take 4 x = quads A1 A2 k 1"
    using alpha2_quads [OF inp k] by auto
  have ch: "rd (snd u) (c_u r + k) = Some (row_c u (c_u r) k)" "rd (snd v) (c_v r + k) = Some (row_c v (c_v r) k)"
    using inp k by (simp_all add: row_inputs_def row_c_def rd_in)
  have ld: "load 2 (snd y) (c_y1 r + 2 * k) = Some (pairs (row_y y (c_y1 r)) k 1)"
    "load 2 (snd y) (c_y2 r + 2 * k) = Some (pairs (row_y y (c_y2 r)) k 1)"
    using luma_pairs [OF inp k(1), of 1] k(2) by simp_all
  from simd2_colours [where c = "at_pair r k" and u = u and v = v and y = y and U = "row_c u (c_u r)" and V = "row_c v (c_v r)" and k = k
      and ?Y1.0 = "row_y y (c_y1 r)" and ?Y2.0 = "row_y y (c_y2 r)", OF _ _ _ _ x(1), unfolded c, OF ch ld, of combine out]
  obtain R G B where rgb: "length R = 16" "length G = 16" "length B = 16"
    "take 4 R = quads (\<lambda>k s. simd_r (row_y y (c_y1 r) k s) (row_c v (c_v r) k)) (\<lambda>k s. simd_r (row_y y (c_y2 r) k s) (row_c v (c_v r) k)) k 1"
    "take 4 G = quads (\<lambda>k s. simd_g (row_y y (c_y1 r) k s) (row_c u (c_u r) k) (row_c v (c_v r) k))
       (\<lambda>k s. simd_g (row_y y (c_y2 r) k s) (row_c u (c_u r) k) (row_c v (c_v r) k)) k 1"
    "take 4 B = quads (\<lambda>k s. simd_b (row_y y (c_y1 r) k s) (row_c u (c_u r) k)) (\<lambda>k s. simd_b (row_y y (c_y2 r) k s) (row_c u (c_u r) k)) k 1"
    and eq: "simd2 combine alpha y v u (at_pair r k, out) = (let (p, q, r', s) = combine x R G B;
         z = mm_unpacklo_epi16 (mm_unpacklo_epi8 p q) (mm_unpacklo_epi8 r' s)
       in do { buf \<leftarrow> mm_storel_epi64 out (c_d1 r + 8 * k) z;
         buf \<leftarrow> mm_storel_epi64 buf (c_d2 r + 8 * k) (drop 8 z @ replicate 8 0);
         Some ((advance 2 (at_pair r k))\<lparr>c_d1 := c_d1 r + 8 * k + 8, c_d2 := c_d2 r + 8 * k + 8\<rparr>, buf) })"
    by blast
  have z: "(case combine x R G B of (p, q, r', s) \<Rightarrow> mm_unpacklo_epi16 (mm_unpacklo_epi8 p q) (mm_unpacklo_epi8 r' s))
      = concat (pairs p1 k 1) @ concat (pairs p2 k 1)"
    using quads_nth(2) [OF x(2,3)] quads_nth(2) [OF rgb(1,4)] quads_nth(2) [OF rgb(2,5)] quads_nth(2) [OF rgb(3,6)]
    unfolding p1_def p2_def pixel_at_eq [symmetric] pairs_simps by (simp add: registers(3) [OF x(2) rgb(1-3)])
  have len: "length (concat (pairs p1 k 1)) = 8" "length (concat (pairs p2 k 1)) = 8"
    unfolding p1_def p2_def by (simp_all add: length_run length_pixel_at)
  obtain t o2 where st: "store (snd out) (c_d1 r + 8 * k) (concat (pairs p1 k 1)) = Some t"
    "store t (c_d2 r + 8 * k) (concat (pairs p2 k 1)) = Some o2" "row_done r p1 p2 adr buf (k + 1) (adr, o2)"
    using row_done_stores [OF dn, of 1] tgt k unfolding p1_def p2_def row_target_def by (auto simp: length_pixel_at)
  have "\<exists>c. simd2 combine alpha y v u (at_pair r k, out) = Some (c, (adr, o2))"
    using z st(1,2) len dn unfolding eq Let_def mm_storel_epi64_def row_done_def by (auto simp: split_beta)
  with st(3) show ?thesis by blast
qed

end

end
