(* ===== verification/Color_Image.thy ===== *)
theory Color_Image
  imports Color_Simd
begin

text \<open>
  Whole images by the SSE2 conversions, for each order of the bytes of a pixel, and their distance from the
  conversions in plain C.
\<close>

section \<open>One row of blocks\<close>

lemma at_pair_0: "at_pair r 0 = r"
  by (simp add: at_pair_def)

context pixel_format
begin

lemma simd16_loop:
  assumes p: "p1 = pixel_at pixel A1 (row_y y (c_y1 r)) (row_c u (c_u r)) (row_c v (c_v r))"
    "p2 = pixel_at pixel A2 (row_y y (c_y2 r)) (row_c u (c_u r)) (row_c v (c_v r))"
    and inp: "row_inputs ld alpha y v u r n A1 A2" and tgt: "row_target r n adr buf" and w: "0 \<le> w" "n = w div 2"
  shows "\<exists>k out. wloop (\<lambda>(iW, st). iW \<le> w - 16) (\<lambda>(iW, st). map_option (Pair (iW + 16)) (simd16 combine ld alpha y v u st)) (0, (r, (adr, buf)))
      = Some (2 * k, (at_pair r k, out)) \<and> 0 \<le> k \<and> even k \<and> w - 16 < 2 * k \<and> 2 * k \<le> w \<and> row_done r p1 p2 adr buf k out"
proof -
  let ?b = "\<lambda>(iW, st). iW \<le> w - 16"
  let ?c = "\<lambda>(iW, st). map_option (Pair (iW + 16)) (simd16 combine ld alpha y v u st)"
  let ?I = "\<lambda>s. \<exists>k out. s = (2 * k, (at_pair r k, out)) \<and> 0 \<le> k \<and> k mod 8 = 0 \<and> 2 * k \<le> w \<and> row_done r p1 p2 adr buf k out"
  have "\<exists>t. wloop ?b ?c (0, (r, (adr, buf))) = Some t \<and> ?I t \<and> \<not> ?b t"
  proof (rule wloop_total [where m = "\<lambda>(iW, st). nat (w - iW)"])
    have "row_done r p1 p2 adr buf 0 (adr, buf)" by (simp add: row_done_def)
    then show "?I (0, (r, (adr, buf)))" using w(1) by (intro exI [of _ 0] exI [of _ "(adr, buf)"]) (simp add: at_pair_0)
  next
    fix s assume I: "?I s" and b: "?b s"
    from I obtain k out where s: "s = (2 * k, (at_pair r k, out))" and k: "0 \<le> k" "k mod 8 = 0" "2 * k \<le> w"
      and dn: "row_done r p1 p2 adr buf k out" by (elim exE conjE) (rule that)
    have le: "k + 8 \<le> n" "2 * (k + 8) \<le> w" "(k + 8) mod 8 = 0" "0 \<le> k + 8"
      using b k w(2) unfolding s prod.case by presburger+
    from simd16_step [OF p inp tgt dn k(1) le(1) k(2)] obtain o2 where
      o2: "simd16 combine ld alpha y v u (at_pair r k, out) = Some (at_pair r (k + 8), o2)" "row_done r p1 p2 adr buf (k + 8) o2" by blast
    let ?t = "(2 * (k + 8), (at_pair r (k + 8), o2))"
    have "?c s = Some ?t" unfolding s prod.case o2(1) by simp
    moreover have "?I ?t" by (intro exI [of _ "k + 8"] exI [of _ o2] conjI refl le(2-4) o2(2))
    moreover have "nat (w - 2 * (k + 8)) < nat (w - 2 * k)" using le(2,4) by simp
    ultimately show "\<exists>t. ?c s = Some t \<and> ?I t \<and> (case t of (iW, st) \<Rightarrow> nat (w - iW)) < (case s of (iW, st) \<Rightarrow> nat (w - iW))"
      unfolding s by (intro exI [of _ ?t] conjI) simp_all
  qed
  then obtain t where t: "wloop ?b ?c (0, (r, (adr, buf))) = Some t" "?I t" "\<not> ?b t"
    by (elim exE) (elim conjE, rule that)
  from t(2) obtain k out where k: "t = (2 * k, (at_pair r k, out))" "0 \<le> k" "k mod 8 = 0" "2 * k \<le> w" "row_done r p1 p2 adr buf k out"
    by (elim exE conjE) (rule that)
  have "even k" "w - 16 < 2 * k" using k(3) t(3) unfolding k(1) prod.case by presburger+
  with t(1) k show ?thesis by (intro exI [of _ k] exI [of _ out]) simp
qed

lemma simd_row_done:
  assumes p: "p1 = pixel_at pixel A1 (row_y y (c_y1 r)) (row_c u (c_u r)) (row_c v (c_v r))"
    "p2 = pixel_at pixel A2 (row_y y (c_y2 r)) (row_c u (c_u r)) (row_c v (c_v r))"
    and inp: "row_inputs ld alpha y v u r n A1 A2" and tgt: "row_target r n adr buf" and w: "0 \<le> w" "n = w div 2"
  shows "\<exists>c out. simd_row combine ld alpha y v u w (r, (adr, buf)) = Some (c, out) \<and> row_done r p1 p2 adr buf n out"
proof -
  obtain k o1 where one: "wloop (\<lambda>(iW, st). iW \<le> w - 16) (\<lambda>(iW, st). map_option (Pair (iW + 16)) (simd16 combine ld alpha y v u st)) (0, (r, (adr, buf)))
      = Some (2 * k, (at_pair r k, o1))" "0 \<le> k" "even k" "w - 16 < 2 * k" "2 * k \<le> w" "row_done r p1 p2 adr buf k o1"
    using simd16_loop [OF assms] by blast
  have "\<exists>l o2. (if 2 * k \<le> w - 8 then map_option (Pair (2 * k + 8)) (simd8 combine alpha y v u (at_pair r k, o1)) else Some (2 * k, (at_pair r k, o1)))
      = Some (2 * l, (at_pair r l, o2)) \<and> 0 \<le> l \<and> even l \<and> w - 8 < 2 * l \<and> 2 * l \<le> w \<and> row_done r p1 p2 adr buf l o2"
  proof (cases "2 * k \<le> w - 8")
    case True
    then have "k + 4 \<le> n" using w by simp
    with simd8_step [OF p inp tgt one(6) one(2) _ one(3)] obtain o2 where
      "simd8 combine alpha y v u (at_pair r k, o1) = Some (at_pair r (k + 4), o2)" "row_done r p1 p2 adr buf (k + 4) o2" by blast
    with True one show ?thesis by (intro exI [of _ "k + 4"] exI [of _ o2]) auto
  next
    case False
    with one show ?thesis by (intro exI [of _ k] exI [of _ o1]) auto
  qed
  then obtain l o2 where two: "(if 2 * k \<le> w - 8 then map_option (Pair (2 * k + 8)) (simd8 combine alpha y v u (at_pair r k, o1)) else Some (2 * k, (at_pair r k, o1)))
      = Some (2 * l, (at_pair r l, o2))" "0 \<le> l" "even l" "w - 8 < 2 * l" "2 * l \<le> w" "row_done r p1 p2 adr buf l o2" by blast
  have "\<exists>m o3. (if 2 * l \<le> w - 4 then map_option (Pair (2 * l + 4)) (simd4 combine alpha y v u (at_pair r l, o2)) else Some (2 * l, (at_pair r l, o2)))
      = Some (2 * m, (at_pair r m, o3)) \<and> 0 \<le> m \<and> w - 4 < 2 * m \<and> 2 * m \<le> w \<and> row_done r p1 p2 adr buf m o3"
  proof (cases "2 * l \<le> w - 4")
    case True
    then have "l + 2 \<le> n" using w by simp
    with simd4_step [OF p inp tgt two(6) two(2) _ two(3)] obtain o3 where
      "simd4 combine alpha y v u (at_pair r l, o2) = Some (at_pair r (l + 2), o3)" "row_done r p1 p2 adr buf (l + 2) o3" by blast
    with True two show ?thesis by (intro exI [of _ "l + 2"] exI [of _ o3]) auto
  next
    case False
    with two show ?thesis by (intro exI [of _ l] exI [of _ o2]) auto
  qed
  then obtain m o3 where three: "(if 2 * l \<le> w - 4 then map_option (Pair (2 * l + 4)) (simd4 combine alpha y v u (at_pair r l, o2)) else Some (2 * l, (at_pair r l, o2)))
      = Some (2 * m, (at_pair r m, o3))" "0 \<le> m" "w - 4 < 2 * m" "2 * m \<le> w" "row_done r p1 p2 adr buf m o3" by blast
  have row: "simd_row combine ld alpha y v u w (r, (adr, buf))
      = (if 2 * m \<le> w - 2 then simd2 combine alpha y v u (at_pair r m, o3) else Some (at_pair r m, o3))"
    unfolding simd_row_def one(1) Option.bind.simps prod.case two(1) three(1) ..
  show ?thesis
  proof (cases "2 * m \<le> w - 2")
    case True
    then have "m + 1 \<le> n" "m + 1 = n" using w three(3) by auto
    with simd2_step [OF p inp tgt three(5) three(2)] True row show ?thesis by auto
  next
    case False
    then have "m = n" using w three(3,4) by auto
    with False row three(5) show ?thesis by auto
  qed
qed

end

section \<open>All rows\<close>

definition alpha_at :: "plane option \<Rightarrow> int \<Rightarrow> int \<Rightarrow> jbyte" where
  "alpha_at alpha off i = (case alpha of None \<Rightarrow> 0xff | Some a \<Rightarrow> snd a ! nat (off + i))"

definition simd_px ::
  "(jbyte \<Rightarrow> jbyte \<Rightarrow> jbyte \<Rightarrow> jbyte \<Rightarrow> jbyte list) \<Rightarrow> plane option \<Rightarrow> int \<Rightarrow> plane \<Rightarrow> int \<Rightarrow> plane \<Rightarrow> int \<Rightarrow> plane \<Rightarrow> int \<Rightarrow> int \<Rightarrow> int \<Rightarrow> jbyte list" where
  "simd_px pixel alpha as y ys v vs u us j i = (let
     Y = snd y ! nat (j * ys + i); U = snd u ! nat (j div 2 * us + i div 2); V = snd v ! nat (j div 2 * vs + i div 2)
   in pixel (alpha_at alpha (j * as) i) (simd_r Y V) (simd_g Y U V) (simd_b Y U))"

lemma by_column_px:
  "by_column (pixel_at pixel (\<lambda>k s. alpha_at alpha (j * as) (2 * k + s)) (row_y y (j * ys)) (row_c u (j div 2 * us)) (row_c v (j div 2 * vs)))
    = simd_px pixel alpha as y ys v vs u us j"
proof
  fix i :: int
  have "2 * (i div 2) + i mod 2 = i" by presburger
  then show "by_column (pixel_at pixel (\<lambda>k s. alpha_at alpha (j * as) (2 * k + s)) (row_y y (j * ys)) (row_c u (j div 2 * us)) (row_c v (j div 2 * vs))) i
    = simd_px pixel alpha as y ys v vs u us j i"
    by (simp add: by_column_def pixel_at_def simd_px_def row_y_def row_c_def Let_def add.assoc)
qed

definition loads_rows :: "(plane \<Rightarrow> int \<Rightarrow> m128 option) \<Rightarrow> plane \<Rightarrow> int \<Rightarrow> bool" where
  "loads_rows ld p stride \<longleftrightarrow> ld = mm_loadu_si128 \<or> ld = mm_load_si128 \<and> fst p mod 16 = 0 \<and> stride mod 16 = 0"

lemma loads_rows_load:
  assumes "loads_rows ld p stride"
  shows "ld p (j * stride + 16 * i) = load 16 (snd p) (j * stride + 16 * i)"
proof -
  have "(fst p + (j * stride + 16 * i)) mod 16 = 0" if "fst p mod 16 = 0" "stride mod 16 = 0"
    using that by (metis dvd_add dvd_eq_mod_eq_0 dvd_mult dvd_triv_left)
  with assms show ?thesis by (auto simp: loads_rows_def mm_loadu_si128_def mm_load_si128_def split_beta)
qed

context pixel_format
begin

lemma simd_image_done:
  assumes w: "0 \<le> w" "n = w div 2" and h: "0 \<le> h" "m = h div 2" "h < 2147483648"
    and s: "0 \<le> ys" "ys < 1073741824" "0 \<le> vs" "0 \<le> us" "0 \<le> as" "as < 1073741824" "8 * n \<le> ds" "0 < ds" "ds < 1073741824"
    and y: "(2 * m - 1) * ys + 2 * n \<le> int (length (snd y))" and v: "(m - 1) * vs + n \<le> int (length (snd v))"
    and u: "(m - 1) * us + n \<le> int (length (snd u))" and d: "(2 * m - 1) * ds + 8 * n \<le> int (length buf)"
    and a: "\<And>p. alpha = Some p \<Longrightarrow> (2 * m - 1) * as + 2 * n \<le> int (length (snd p)) \<and> loads_rows ld p as"
    and ld: "loads_rows ld y ys" and al: "2 \<le> n \<Longrightarrow> adr mod 16 = 0 \<and> ds mod 16 = 0"
  shows "\<exists>out. simd_image combine ld alpha (adr, buf) ds w h y v u ys vs us as = Some (0, (adr, out))
    \<and> rect_map 0 ds 0 (8 * n) (2 * m) (\<lambda>j k _. image_byte (simd_px pixel alpha as y ys v vs u us) j k) buf out"
proof -
  let ?r = "\<lambda>j. \<lparr>c_y1 = 2 * j * ys, c_y2 = (2 * j + 1) * ys, c_u = j * us, c_v = j * vs, c_d1 = 2 * j * ds, c_d2 = (2 * j + 1) * ds,
      c_a1 = 2 * j * as, c_a2 = (2 * j + 1) * as\<rparr>"
  let ?A = "\<lambda>j k s. alpha_at alpha (j * as) (2 * k + s)"
  let ?p = "\<lambda>j. pixel_at pixel (?A j) (row_y y (j * ys)) (row_c u (j div 2 * us)) (row_c v (j div 2 * vs))"
  let ?G = "\<lambda>j k. image_byte (simd_px pixel alpha as y ys v vs u us) j k"
  let ?I = "\<lambda>j (c, out). c = ?r j \<and> fst out = adr \<and> rect_map 0 ds 0 (8 * n) (2 * j) (\<lambda>j k _. ?G j k) buf (snd out)"
  let ?f = "\<lambda>j (rows, buf). do { (_, buf) \<leftarrow> simd_row combine ld alpha y v u w (rows, buf);
       Some (next_row_pairs ys vs us as ds rows, buf) }"
  have nn: "0 \<le> n" "0 \<le> m" using w h by simp_all
  have sar: "sar 1 h = m" using h by (simp add: sar_id)
  have "\<exists>t. cfor m ?f (first_rows ys as ds, (adr, buf)) = Some t \<and> ?I (max 0 m) t"
  proof (rule cfor_total)
    show "?I 0 (first_rows ys as ds, (adr, buf))" by (simp add: first_rows_def rect_map_none)
  next
    fix j t assume j: "0 \<le> j" "j < m" and I: "?I j t"
    obtain cur out where t: "t = (cur, (adr, out))" using I by (cases t) auto
    then have cur: "cur = ?r j" and out: "rect_map 0 ds 0 (8 * n) (2 * j) (\<lambda>j k _. ?G j k) buf out" using I by auto
    have len: "length out = length buf" by (rule rect_map_length [OF out])
    have two: "(2 * j) div 2 = j" "(2 * j + 1) div 2 = j" by presburger+
    note yb = row_bound [OF _ _ s(1) y, of "2 * j"] row_bound [OF _ _ s(1) y, of "2 * j + 1"]
    note db = row_bound [OF _ _ _ d, of "2 * j"] row_bound [OF _ _ _ d, of "2 * j + 1"]
    note cb = row_bound [OF j s(3) v] row_bound [OF j s(4) u]
    have rows: "2 * j * ds + 8 * n \<le> (2 * j + 1) * ds" using s(7) by (simp add: algebra_simps)
    have ab: "0 \<le> 2 * j * as \<and> 2 * j * as + 2 * n \<le> int (length (snd p)) \<and> 0 \<le> (2 * j + 1) * as \<and> (2 * j + 1) * as + 2 * n \<le> int (length (snd p))"
      if "alpha = Some p" for p
      using row_bound [OF _ _ s(5) conjunct1 [OF a [OF that]], of "2 * j"] row_bound [OF _ _ s(5) conjunct1 [OF a [OF that]], of "2 * j + 1"] j by simp
    have inp: "row_inputs ld alpha y v u (?r j) n (?A (2 * j)) (?A (2 * j + 1))"
      using yb cb j ab a unfolding row_inputs_def
      by (cases alpha) (simp_all add: alpha_at_def loads_rows_load [OF ld] loads_rows_load [where stride = as] add.assoc)
    have tgt: "row_target (?r j) n adr out"
      using db rows j s(8) al len unfolding row_target_def
      by (auto simp: mod_0_imp_dvd intro!: mod_0_imp_dvd [THEN dvd_add, THEN dvd_imp_mod_0])
    obtain c o2 where o2: "simd_row combine ld alpha y v u w (?r j, (adr, out)) = Some (c, o2)" "row_done (?r j) (?p (2 * j)) (?p (2 * j + 1)) adr out n o2"
      using simd_row_done [OF _ _ inp tgt w, of "?p (2 * j)" "?p (2 * j + 1)"] by (auto simp: two)
    have "pair_map (2 * j * ds) ((2 * j + 1) * ds) (8 * n) (?G (2 * j)) (?G (2 * j + 1)) out (snd o2)" and adr: "fst o2 = adr"
      using o2(2) unfolding row_done_def by_column_px image_byte_row by simp_all
    then have "rect_map 0 ds 0 (8 * n) (2 * j + 2) (\<lambda>j k _. ?G j k) buf (snd o2)"
      by (intro rect_map_pair [OF out]) (use s j in simp_all)
    moreover have "next_row_pairs ys vs us as ds (?r j) = ?r (j + 1)" using s nn by (simp add: next_row_pairs_def i32_id algebra_simps)
    ultimately show "\<exists>w. ?f j t = Some w \<and> ?I (j + 1) w"
      using o2(1) adr unfolding t cur by (simp add: algebra_simps)
  qed
  then obtain c out where "cfor m ?f (first_rows ys as ds, (adr, buf)) = Some (c, out)" "?I m (c, out)" using nn(2) by (auto simp: max_def)
  then show ?thesis unfolding simd_image_def sar by (intro exI [of _ "snd out"]) (cases out, simp)
qed

end

section \<open>The three orders\<close>

definition argb_pixel :: "jbyte \<Rightarrow> jbyte \<Rightarrow> jbyte \<Rightarrow> jbyte \<Rightarrow> jbyte list" where "argb_pixel a r g b = [a, r, g, b]"

definition straight_pixel :: "jbyte \<Rightarrow> jbyte \<Rightarrow> jbyte \<Rightarrow> jbyte \<Rightarrow> jbyte list" where "straight_pixel a r g b = [b, g, r, a]"

definition premultiplied_pixel :: "jbyte \<Rightarrow> jbyte \<Rightarrow> jbyte \<Rightarrow> jbyte \<Rightarrow> jbyte list" where
  "premultiplied_pixel a r g b = [premultiplied b a, premultiplied g a, premultiplied r a, a]"

interpretation argb: pixel_format argb_order argb_pixel
  by unfold_locales (simp_all add: argb_order_def argb_pixel_def)

interpretation bgra: pixel_format bgra_order straight_pixel
  by unfold_locales (simp_all add: bgra_order_def straight_pixel_def)

interpretation premultiplied: pixel_format bgra_premultiplied premultiplied_pixel
  by unfold_locales (simp_all add: bgra_premultiplied_def premultiplied_pixel_def premultiply_alpha_map2)

lemma pick_load_rows:
  assumes "fst p \<in> set values" "stride \<in> set values"
  shows "loads_rows (pick_load values) p stride"
  using assms by (auto simp: pick_load_def loads_rows_def list_ex_iff)

section \<open>The distance of the two versions\<close>

lemma clamp_distance:
  assumes "\<bar>a div 2 - b div 32\<bar> \<le> 1"
  shows "\<bar>uint (half_clamped a) - uint (clamp32 b)\<bar> \<le> 1"
proof -
  have "uint (word_of_int (max 0 (min 255 x)) :: jbyte) = max 0 (min 255 x)" for x :: int
    unfolding uint_word_of_int by simp
  moreover have "\<bar>max 0 (min 255 x) - max 0 (min 255 z)\<bar> \<le> 1" if "\<bar>x - z\<bar> \<le> 1" for x z :: int
    using that by linarith
  ultimately show ?thesis unfolding half_clamped_def clamp32_def using assms by simp
qed

text \<open>The sums of the tables are sixteenths of those of the words, but for rounding.\<close>

lemma div_bounds: "0 < k \<Longrightarrow> k * (x div k) \<le> x \<and> x \<le> k * (x div k) + (k - 1)" for k x :: int
  using pos_mod_bound [of k x] pos_mod_sign [of k x] mult_div_mod_eq [of k x] by linarith

lemma quotients_close:
  assumes "16 * a \<le> b + 32" "b \<le> 16 * a + 32"
  shows "\<bar>a div 2 - b div 32\<bar> \<le> (1 :: int)"
  using assms div_bounds [of 2 a] div_bounds [of 32 b] by simp

lemma luma_term:
  assumes "0 \<le> x" "x < (256 :: int)"
  shows "\<bar>16 * ((x * 23288 + 5000) div 10000) - x * 9539 div 256\<bar> \<le> 10"
proof -
  define l s where "l = (x * 23288 + 5000) div 10000" and "s = x * 9539 div 256"
  have "10000 * l \<le> x * 23288 + 5000" "x * 23288 + 5000 \<le> 10000 * l + 9999" "256 * s \<le> x * 9539" "x * 9539 \<le> 256 * s + 255"
    using div_bounds [of 10000 "x * 23288 + 5000"] div_bounds [of 256 "x * 9539"] unfolding l_def s_def by simp_all
  then have "\<bar>16 * l - s\<bar> \<le> 10" using assms by linarith
  then show ?thesis by (simp add: l_def s_def)
qed

lemma blue_term:
  assumes "0 \<le> x" "x < (256 :: int)"
  shows "\<bar>16 * ((x * 40368 + 5000) div 10000) - x * 16535 div 256\<bar> \<le> 10"
proof -
  define l s where "l = (x * 40368 + 5000) div 10000" and "s = x * 16535 div 256"
  have "10000 * l \<le> x * 40368 + 5000" "x * 40368 + 5000 \<le> 10000 * l + 9999" "256 * s \<le> x * 16535" "x * 16535 \<le> 256 * s + 255"
    using div_bounds [of 10000 "x * 40368 + 5000"] div_bounds [of 256 "x * 16535"] unfolding l_def s_def by simp_all
  then have "\<bar>16 * l - s\<bar> \<le> 10" using assms by linarith
  then show ?thesis by (simp add: l_def s_def)
qed

lemma red_term:
  assumes "0 \<le> x" "x < (256 :: int)"
  shows "\<bar>16 * ((x * 31932 + 5000) div 10000) - x * 13079 div 256\<bar> \<le> 10"
proof -
  define l s where "l = (x * 31932 + 5000) div 10000" and "s = x * 13079 div 256"
  have "10000 * l \<le> x * 31932 + 5000" "x * 31932 + 5000 \<le> 10000 * l + 9999" "256 * s \<le> x * 13079" "x * 13079 \<le> 256 * s + 255"
    using div_bounds [of 10000 "x * 31932 + 5000"] div_bounds [of 256 "x * 13079"] unfolding l_def s_def by simp_all
  then have "\<bar>16 * l - s\<bar> \<le> 10" using assms by linarith
  then show ?thesis by (simp add: l_def s_def)
qed

lemma green_u_term:
  assumes "0 \<le> x" "x < (256 :: int)"
  shows "\<bar>16 * ((2712704 - x * 7840 + 5000) div 10000) - (4340 - x * 3211 div 256)\<bar> \<le> 10"
proof -
  define l s where "l = (2712704 - x * 7840 + 5000) div 10000" and "s = x * 3211 div 256"
  have "10000 * l \<le> 2712704 - x * 7840 + 5000" "2712704 - x * 7840 + 5000 \<le> 10000 * l + 9999" "256 * s \<le> x * 3211" "x * 3211 \<le> 256 * s + 255"
    using div_bounds [of 10000 "2712704 - x * 7840 + 5000"] div_bounds [of 256 "x * 3211"] unfolding l_def s_def by simp_all
  then have "\<bar>16 * l - (4340 - s)\<bar> \<le> 10" using assms by linarith
  then show ?thesis by (simp add: l_def s_def)
qed

lemma green_v_term:
  assumes "0 \<le> x" "x < (256 :: int)"
  shows "\<bar>16 * ((x * 16264 + 5000) div 10000) - x * 6662 div 256\<bar> \<le> 10"
proof -
  define l s where "l = (x * 16264 + 5000) div 10000" and "s = x * 6662 div 256"
  have "10000 * l \<le> x * 16264 + 5000" "x * 16264 + 5000 \<le> 10000 * l + 9999" "256 * s \<le> x * 6662" "x * 6662 \<le> 256 * s + 255"
    using div_bounds [of 10000 "x * 16264 + 5000"] div_bounds [of 256 "x * 6662"] unfolding l_def s_def by simp_all
  then have "\<bar>16 * l - s\<bar> \<le> 10" using assms by linarith
  then show ?thesis by (simp add: l_def s_def)
qed

lemma colour_distance:
  "\<bar>uint (half_clamped (luma2 (uint y) + blue2 (uint u))) - uint (simd_b y u)\<bar> \<le> 1"
  "\<bar>uint (half_clamped (luma2 (uint y) + green2 (uint u) (uint v))) - uint (simd_g y u v)\<bar> \<le> 1"
  "\<bar>uint (half_clamped (luma2 (uint y) + red2 (uint v))) - uint (simd_r y v)\<bar> \<le> 1"
proof -
  note t = luma_term [OF byte_bounds, of y] blue_term [OF byte_bounds, of u] red_term [OF byte_bounds, of v]
    green_u_term [OF byte_bounds, of u] green_v_term [OF byte_bounds, of v]
  show "\<bar>uint (half_clamped (luma2 (uint y) + blue2 (uint u))) - uint (simd_b y u)\<bar> \<le> 1"
    unfolding simd_b_def luma2_def blue2_def by (intro clamp_distance quotients_close) (use t(1,2) in \<open>simp_all add: abs_le_iff\<close>)
  show "\<bar>uint (half_clamped (luma2 (uint y) + green2 (uint u) (uint v))) - uint (simd_g y u v)\<bar> \<le> 1"
    unfolding simd_g_def luma2_def green2_def by (intro clamp_distance quotients_close) (use t(1,4,5) in \<open>simp_all add: abs_le_iff\<close>)
  show "\<bar>uint (half_clamped (luma2 (uint y) + red2 (uint v))) - uint (simd_r y v)\<bar> \<le> 1"
    unfolding simd_r_def luma2_def red2_def by (intro clamp_distance quotients_close) (use t(1,3) in \<open>simp_all add: abs_le_iff\<close>)
qed

lemma rect_map_rel:
  assumes "rect_map off stride x0 w h g xs ys" "rect_map off stride x0 w h g' xs zs" "k < length xs" "\<And>x. R x x"
    and "\<And>j i x. R (g j i x) (g' j i x)"
  shows "R (ys ! k) (zs ! k)"
  using assms by (auto simp: rect_map_def Let_def)

lemma image_distance:
  "\<bar>uint (image_byte (px420 (snd y) ys (snd v) vs (snd u) us (\<lambda>j i. 0xff)) j k)
      - uint (image_byte (simd_px straight_pixel None as y ys v vs u us) j k)\<bar> \<le> 1"
proof -
  have "k mod 4 = 0 \<or> k mod 4 = 1 \<or> k mod 4 = 2 \<or> k mod 4 = 3" by presburger
  then show ?thesis
    by (elim disjE) (simp_all add: image_byte_def px420_def simd_px_def straight_pixel_def bgra_pixel_def alpha_at_def Let_def
      colour_distance)
qed

section \<open>Unaligned targets\<close>

lemma save_pair_faults: "(fst buf + c_d1 c) mod 16 \<noteq> 0 \<Longrightarrow> save_pair x (c, buf) = None"
  by (cases x) (simp add: save_pair_def mm_store_si128_def split_beta)

lemma advance_d1 [simp]: "c_d1 (advance n c) = c_d1 c"
  by (simp add: advance_def)

lemma blocks_fault:
  assumes "(fst buf + c_d1 c) mod 16 \<noteq> 0"
  shows "simd16 combine ld alpha y v u (c, buf) = None" "simd8 combine alpha y v u (c, buf) = None" "simd4 combine alpha y v u (c, buf) = None"
  using assms by (auto simp: simd16_def simd8_def simd4_def save_pair_faults Option.bind_eq_None_conv Let_def split: prod.split)

lemma simd_row_faults:
  assumes "(fst buf + c_d1 c) mod 16 \<noteq> 0" "4 \<le> w"
  shows "simd_row combine ld alpha y v u w (c, buf) = None"
proof -
  let ?b = "\<lambda>(iW, st). iW \<le> w - 16"
  let ?c = "\<lambda>(iW, st). map_option (Pair (iW + 16)) (simd16 combine ld alpha y v u st)"
  have "wloop ?b ?c (0, (c, buf)) = (if 16 \<le> w then None else Some (0, (c, buf)))"
    using blocks_fault(1) [OF assms(1)] by (simp add: wloop.simps)
  then show ?thesis unfolding simd_row_def using assms(2) by (simp add: blocks_fault [OF assms(1)])
qed

lemma simd_image_faults:
  assumes "fst argb mod 16 \<noteq> 0" "4 \<le> w" "2 \<le> h" "h < 2147483648"
  shows "simd_image combine ld alpha argb ds w h y v u ys vs us as = None"
proof -
  have "simd_row combine ld alpha y v u w (first_rows ys as ds, argb) = None"
    by (rule simd_row_faults) (use assms in \<open>simp_all add: first_rows_def\<close>)
  moreover have "0 < sar 1 h" using assms(3,4) by (simp add: sar_id)
  ultimately show ?thesis by (simp add: simd_image_def cfor_def wloop.simps)
qed

end
