(* ===== verification/Color_Properties.thy ===== *)
theory Color_Properties
  imports Color_Image
begin

text \<open>The properties of the colour conversion.\<close>

lemma even_test: "(w OR h) AND 1 = 0 \<longleftrightarrow> even w \<and> even (h :: int)"
  by (simp add: and_one_eq even_or_iff flip: even_iff_mod_2_eq_zero)

lemma even_test_1: "w AND 1 = 0 \<longleftrightarrow> even (w :: int)"
  by (simp add: and_one_eq flip: even_iff_mod_2_eq_zero)

text \<open>The tables hold the terms of the conversion as their comments define them, no sum of them
  leaves the saturation table, and there the table and the branch-free macro clamp alike.\<close>

lemma tables_and_clamps:
  "\<exists>l r g b. rd color_tYY (uint (y :: jbyte)) = Some l \<and> chroma (uint (u :: jbyte)) (uint (v :: jbyte)) = Some (r, g, b)
    \<and> l = luma2 (uint y) \<and> r = red2 (uint v) \<and> g = green2 (uint u) (uint v) \<and> b = blue2 (uint u)
    \<and> TCLAMP_U8 (l + r) = Some (SCLAMP_U8 (l + r)) \<and> SCLAMP_U8 (l + r) = half_clamped (l + r)
    \<and> TCLAMP_U8 (l + g) = Some (SCLAMP_U8 (l + g)) \<and> SCLAMP_U8 (l + g) = half_clamped (l + g)
    \<and> TCLAMP_U8 (l + b) = Some (SCLAMP_U8 (l + b)) \<and> SCLAMP_U8 (l + b) = half_clamped (l + b)"
  using term_range(1,2) [of y v] term_range(3,4) [of y u] term_range(5,6) [of y u v] by (simp add: luma_byte chroma_byte TCLAMP_clamps SCLAMP_clamps)

lemma no_alpha_exact:
  assumes "0 < w" "0 < h" "even w" "even h" "w < 2147483648" "h < 2147483648"
    and "0 \<le> ys" "ys < 1073741824" "0 \<le> vs" "0 \<le> us" "4 * w \<le> ds" "ds < 1073741824"
    and "(h - 1) * ys + w \<le> int (length y)" "(h div 2 - 1) * vs + w div 2 \<le> int (length v)"
    and "(h div 2 - 1) * us + w div 2 \<le> int (length u)" "(h - 1) * ds + 4 * w \<le> int (length bgra)"
  shows "\<exists>out. ColorConvert_YCbCr420p_to_BGRA32_no_alpha (Some bgra) ds w h (Some y) (Some v) (Some u) ys vs us = Some (0, Some out)
    \<and> rect_map 0 ds 0 (4 * w) h (\<lambda>j k _. image_byte (px420 y ys v vs u us (\<lambda>j i. 0xff)) j k) bgra out"
proof -
  define n m where "n = w div 2" and "m = h div 2"
  then have w: "w = 2 * n" "h = 2 * m" using assms(3,4) by simp_all
  note b = assms [unfolded w]
  have "\<exists>out. rows420 (\<lambda>i. Some 0xff) bgra ds (2 * n) (2 * m) y v u ys vs us 0 = Some out
      \<and> rect_map 0 ds 0 (8 * n) (2 * m) (\<lambda>j k _. image_byte (px420 y ys v vs u us (\<lambda>j i. 0xff)) j k) bgra out"
    by (rule rows420_exact) (use b in simp_all)
  then show ?thesis
    using b(1,2) unfolding w ColorConvert_YCbCr420p_to_BGRA32_no_alpha_def with_planes_def
    by (auto simp: even_test even_or_iff)
qed

lemma with_alpha_exact:
  assumes "0 < w" "0 < h" "even w" "even h" "w < 2147483648" "h < 2147483648"
    and "0 \<le> ys" "ys < 1073741824" "0 \<le> vs" "0 \<le> us" "0 \<le> as" "as < 1073741824" "4 * w \<le> ds" "ds < 1073741824"
    and "(h - 1) * ys + w \<le> int (length y)" "(h div 2 - 1) * vs + w div 2 \<le> int (length v)"
    and "(h div 2 - 1) * us + w div 2 \<le> int (length u)" "(h - 1) * as + w \<le> int (length a)"
    and "(h - 1) * ds + 4 * w \<le> int (length bgra)"
  shows "\<exists>out. ColorConvert_YCbCr420p_to_BGRA32 (Some bgra) ds w h (Some y) (Some v) (Some u) (Some a) ys vs us as = Some (0, Some out)
      \<and> rect_map 0 ds 0 (4 * w) h (\<lambda>j k _. image_byte (px420 y ys v vs u us (\<lambda>j i. a ! nat (j * as + i))) j k) bgra out"
proof -
  define n m where "n = w div 2" and "m = h div 2"
  then have w: "w = 2 * n" "h = 2 * m" using assms(3,4) by simp_all
  note b = assms [unfolded w]
  have alpha: "rd a (j * as + i) = Some (a ! nat (j * as + i))" if "0 \<le> j" "j < 2 * m" "0 \<le> i" "i < 2 * n" for j i
    using row_bound [of j "2 * m" as "2 * n" "int (length a)"] b(11,18) that by (intro rd_in) linarith+
  have "\<exists>out. rows420 (rd a) bgra ds (2 * n) (2 * m) y v u ys vs us as = Some out
      \<and> rect_map 0 ds 0 (8 * n) (2 * m) (\<lambda>j k _. image_byte (px420 y ys v vs u us (\<lambda>j i. a ! nat (j * as + i))) j k) bgra out"
    by (rule rows420_exact) (use b alpha in simp_all)
  then show "\<exists>out. ColorConvert_YCbCr420p_to_BGRA32 (Some bgra) ds w h (Some y) (Some v) (Some u) (Some a) ys vs us as = Some (0, Some out)
      \<and> rect_map 0 ds 0 (4 * w) h (\<lambda>j k _. image_byte (px420 y ys v vs u us (\<lambda>j i. a ! nat (j * as + i))) j k) bgra out"
    using b(1,2) unfolding w ColorConvert_YCbCr420p_to_BGRA32_def with_planes_def by (auto simp: even_test even_or_iff)
qed

text \<open>C37. Planes of 4:2:0 samples become an image in which every byte of the visible part is the one the
  pixel's four samples give, and nothing else changes; every access is inside its plane.\<close>

theorem convert_420p_exact:
  assumes "0 < w" "0 < h" "even w" "even h" "w < 2147483648" "h < 2147483648"
    and "0 \<le> ys" "ys < 1073741824" "0 \<le> vs" "0 \<le> us" "0 \<le> as" "as < 1073741824" "4 * w \<le> ds" "ds < 1073741824"
    and "(h - 1) * ys + w \<le> int (length y)" "(h div 2 - 1) * vs + w div 2 \<le> int (length v)"
    and "(h div 2 - 1) * us + w div 2 \<le> int (length u)" "(h - 1) * as + w \<le> int (length a)"
    and "(h - 1) * ds + 4 * w \<le> int (length bgra)"
  shows "(\<exists>out. ColorConvert_YCbCr420p_to_BGRA32 (Some bgra) ds w h (Some y) (Some v) (Some u) (Some a) ys vs us as = Some (0, Some out)
      \<and> rect_map 0 ds 0 (4 * w) h (\<lambda>j k _. image_byte (px420 y ys v vs u us (\<lambda>j i. a ! nat (j * as + i))) j k) bgra out)
    \<and> (\<exists>out. ColorConvert_YCbCr420p_to_BGRA32_no_alpha (Some bgra) ds w h (Some y) (Some v) (Some u) ys vs us = Some (0, Some out)
      \<and> rect_map 0 ds 0 (4 * w) h (\<lambda>j k _. image_byte (px420 y ys v vs u us (\<lambda>j i. 0xff)) j k) bgra out)"
  using with_alpha_exact [OF assms] no_alpha_exact [OF assms(1-10,13,14,15,16,17,19)] by blast

lemma convert_420p_exact_witness:
  "\<exists>out. ColorConvert_YCbCr420p_to_BGRA32 (Some (replicate 16 0)) 8 2 2 (Some [16, 81, 145, 235]) (Some [240]) (Some [90])
      (Some [255, 128, 64, 0]) 2 1 1 2 = Some (0, Some out) \<and> length out = 16"
  using convert_420p_exact [of 2 2 2 1 1 2 8 "[16, 81, 145, 235]" "[240]" "[90]" "[255, 128, 64, 0]" "replicate 16 0"]
  by (auto dest: rect_map_length)

text \<open>C38. The same of the 4:2:2 samples, whose rows hold one sample of each colour for two of luminance.\<close>

theorem convert_422p_exact:
  assumes "0 < w" "0 < h" "even w" "w < 2147483648" "0 \<le> ys" "0 \<le> uvs" "4 * w \<le> ds"
    and "(h - 1) * ys + 2 * w \<le> int (length y) + 1" "(h - 1) * uvs + 2 * w \<le> int (length v) + 3"
    and "(h - 1) * uvs + 2 * w \<le> int (length u) + 3" "(h - 1) * ds + 4 * w \<le> int (length bgra)"
  shows "\<exists>out. ColorConvert_YCbCr422p_to_BGRA32_no_alpha (Some bgra) ds w h (Some y) (Some v) (Some u) ys uvs = Some (0, Some out)
      \<and> rect_map 0 ds 0 (4 * w) h (\<lambda>j k _. image_byte (px422 y ys v u uvs) j k) bgra out"
proof -
  define n where "n = w div 2"
  then have w: "w = 2 * n" using assms(3) by simp
  note b = assms [unfolded w]
  have "\<exists>out. rows422 bgra ds (2 * n) h y v u ys uvs = Some out
      \<and> rect_map 0 ds 0 (8 * n) h (\<lambda>j k _. image_byte (px422 y ys v u uvs) j k) bgra out"
    by (rule rows422_exact) (use b in simp_all)
  then show ?thesis
    using b(1,2) unfolding w ColorConvert_YCbCr422p_to_BGRA32_no_alpha_def with_planes_def by (auto simp: even_test_1)
qed

lemma convert_422p_exact_witness:
  "\<exists>out. ColorConvert_YCbCr422p_to_BGRA32_no_alpha (Some (replicate 8 0)) 8 2 1 (Some [16, 0, 81]) (Some [240]) (Some [90]) 4 4
      = Some (0, Some out) \<and> length out = 8"
  using convert_422p_exact [of 2 1 4 4 8 "[16, 0, 81]" "[240]" "[90]" "replicate 8 0"]
  by (auto dest: rect_map_length)

lemma with_planes_refuses:
  "bgra = None \<or> y = None \<or> u = None \<or> v = None \<or> \<not> ok \<Longrightarrow> with_planes bgra y v u ok f = Some (1, bgra)"
  by (auto simp: with_planes_def split: option.split)

lemma cfor_faults: "0 < n \<Longrightarrow> f 0 s = None \<Longrightarrow> cfor n f s = None"
  by (simp add: cfor_def wloop.simps)

lemma no_alpha_faults:
  assumes "2 \<le> w" "w < 2147483648" "2 \<le> h" "h < 2147483648"
  shows "rows420 (\<lambda>i. None) bgra ds w h y v u ys vs us as = None"
proof -
  have "block420 (\<lambda>i. None) y v u t = None" for t
    by (auto simp: block420_def Option.bind_eq_None_conv split: prod.split)
  then show ?thesis using assms by (simp add: rows420_def cfor_faults sar_id)
qed

text \<open>C39. Arguments that cannot be converted are refused with the code 1 and the target as it was: a missing
  plane, a size that is not positive, an odd width, an odd height for 4:2:0. The alpha plane is not among
  the checks: without one the conversion faults.\<close>

theorem convert_refuses:
  "((bgra = None \<or> y = None \<or> u = None \<or> v = None \<or> w \<le> 0 \<or> h \<le> 0 \<or> odd w \<or> odd h) \<longrightarrow>
      ColorConvert_YCbCr420p_to_BGRA32 bgra ds w h y v u a ys vs us as = Some (1, bgra)
      \<and> ColorConvert_YCbCr420p_to_BGRA32_no_alpha bgra ds w h y v u ys vs us = Some (1, bgra))
    \<and> ((bgra = None \<or> y = None \<or> u = None \<or> v = None \<or> w \<le> 0 \<or> h \<le> 0 \<or> odd w) \<longrightarrow>
      ColorConvert_YCbCr422p_to_BGRA32_no_alpha bgra ds w h y v u ys uvs = Some (1, bgra))
    \<and> (0 < w \<and> w < 2147483648 \<and> even w \<and> 0 < h \<and> h < 2147483648 \<and> even h \<longrightarrow>
      ColorConvert_YCbCr420p_to_BGRA32 (Some d) ds w h (Some p) (Some q) (Some r) None ys vs us as = None)"
proof (intro conjI impI)
  show "ColorConvert_YCbCr420p_to_BGRA32 (Some d) ds w h (Some p) (Some q) (Some r) None ys vs us as = None"
    if "0 < w \<and> w < 2147483648 \<and> even w \<and> 0 < h \<and> h < 2147483648 \<and> even h"
  proof -
    have "2 \<le> w" "2 \<le> h" using that by presburger+
    with that show ?thesis by (simp add: ColorConvert_YCbCr420p_to_BGRA32_def with_planes_def even_test even_or_iff no_alpha_faults)
  qed
qed (auto simp: ColorConvert_YCbCr420p_to_BGRA32_def ColorConvert_YCbCr420p_to_BGRA32_no_alpha_def
    ColorConvert_YCbCr422p_to_BGRA32_no_alpha_def even_test even_test_1 even_or_iff intro!: with_planes_refuses)

lemma convert_refuses_witness:
  "ColorConvert_YCbCr420p_to_BGRA32 (Some [7]) 4 3 2 (Some [1]) (Some [2]) (Some [3]) None 2 1 1 2 = Some (1, Some [7])
    \<and> ColorConvert_YCbCr420p_to_BGRA32 (Some [7]) 8 2 2 (Some [1]) (Some [2]) (Some [3]) None 2 1 1 2 = None"
  using convert_refuses [of "Some [7]" "Some [1]" "Some [3]" "Some [2]" 3 2 4 None 2 1 1 2 0 "[]" "[]" "[]" "[]"]
    convert_refuses [of "Some [7]" "Some [1]" "Some [3]" "Some [2]" 2 2 8 None 2 1 1 2 0 "[7]" "[1]" "[2]" "[3]"] by simp


section \<open>The SSE2 conversions\<close>

text \<open>C5. The SSE2 conversions, in blocks of 16, 8, 4 and 2 columns of two rows, give every pixel of the
  visible part the value of one formula, in the order of its bytes that the name says, multiplied by alpha
  only in the conversion to BGRA with an alpha plane; an odd last column or row is left as it was. Loads
  need no alignment, the target does.\<close>

theorem convert_sse2_exact:
  assumes "0 \<le> w" "0 \<le> h" "h < 2147483648" "0 \<le> ys" "ys < 1073741824" "0 \<le> vs" "0 \<le> us" "0 \<le> as" "as < 1073741824"
    and "8 * (w div 2) \<le> ds" "0 < ds" "ds < 1073741824"
    and "(2 * (h div 2) - 1) * ys + 2 * (w div 2) \<le> int (length (snd y))" "(h div 2 - 1) * vs + w div 2 \<le> int (length (snd v))"
    and "(h div 2 - 1) * us + w div 2 \<le> int (length (snd u))" "(2 * (h div 2) - 1) * as + 2 * (w div 2) \<le> int (length (snd a))"
    and "(2 * (h div 2) - 1) * ds + 8 * (w div 2) \<le> int (length buf)" "adr mod 16 = 0" "ds mod 16 = 0"
  shows "(\<exists>out. ColorConvert_YCbCr420p_to_ARGB32_sse2 (adr, buf) ds w h y v u a ys vs us as = Some (0, (adr, out))
      \<and> rect_map 0 ds 0 (8 * (w div 2)) (2 * (h div 2)) (\<lambda>j k _. image_byte (simd_px argb_pixel (Some a) as y ys v vs u us) j k) buf out)
    \<and> (\<exists>out. ColorConvert_YCbCr420p_to_ARGB32_no_alpha_sse2 (adr, buf) ds w h y v u ys vs us = Some (0, (adr, out))
      \<and> rect_map 0 ds 0 (8 * (w div 2)) (2 * (h div 2)) (\<lambda>j k _. image_byte (simd_px argb_pixel None 0 y ys v vs u us) j k) buf out)
    \<and> (\<exists>out. ColorConvert_YCbCr420p_to_BGRA32_sse2 (adr, buf) ds w h y v u a ys vs us as = Some (0, (adr, out))
      \<and> rect_map 0 ds 0 (8 * (w div 2)) (2 * (h div 2)) (\<lambda>j k _. image_byte (simd_px premultiplied_pixel (Some a) as y ys v vs u us) j k) buf out)
    \<and> (\<exists>out. ColorConvert_YCbCr420p_to_BGRA32_no_alpha_sse2 (adr, buf) ds w h y v u ys vs us = Some (0, (adr, out))
      \<and> rect_map 0 ds 0 (8 * (w div 2)) (2 * (h div 2)) (\<lambda>j k _. image_byte (simd_px straight_pixel None 0 y ys v vs u us) j k) buf out)"
  unfolding ColorConvert_YCbCr420p_to_ARGB32_sse2_def ColorConvert_YCbCr420p_to_ARGB32_no_alpha_sse2_def
    ColorConvert_YCbCr420p_to_BGRA32_sse2_def ColorConvert_YCbCr420p_to_BGRA32_no_alpha_sse2_def
proof (intro conjI)
  note alpha = assms(1) refl assms(2) refl assms(3-15,17)
  note plain = assms(1) refl assms(2) refl assms(3-7) order_refl _ assms(10-15,17)
  show "\<exists>out. simd_image argb_order (pick_load [fst y, fst u, fst v, fst a, ys, us, vs, as]) (Some a) (adr, buf) ds w h y v u ys vs us as = Some (0, (adr, out))
      \<and> rect_map 0 ds 0 (8 * (w div 2)) (2 * (h div 2)) (\<lambda>j k _. image_byte (simd_px argb_pixel (Some a) as y ys v vs u us) j k) buf out"
    by (rule argb.simd_image_done [OF alpha]) (simp_all add: pick_load_rows assms(16,18,19))
  show "\<exists>out. simd_image bgra_premultiplied (pick_load [fst y, fst u, fst v, fst a, ys, us, vs, as]) (Some a) (adr, buf) ds w h y v u ys vs us as = Some (0, (adr, out))
      \<and> rect_map 0 ds 0 (8 * (w div 2)) (2 * (h div 2)) (\<lambda>j k _. image_byte (simd_px premultiplied_pixel (Some a) as y ys v vs u us) j k) buf out"
    by (rule premultiplied.simd_image_done [OF alpha]) (simp_all add: pick_load_rows assms(16,18,19))
  show "\<exists>out. simd_image argb_order (pick_load [fst y, fst u, fst v, ys, us, vs]) None (adr, buf) ds w h y v u ys vs us 0 = Some (0, (adr, out))
      \<and> rect_map 0 ds 0 (8 * (w div 2)) (2 * (h div 2)) (\<lambda>j k _. image_byte (simd_px argb_pixel None 0 y ys v vs u us) j k) buf out"
    by (rule argb.simd_image_done [OF plain]) (simp_all add: pick_load_rows assms(18,19))
  show "\<exists>out. simd_image bgra_order (pick_load [fst y, fst u, fst v, ys, us, vs]) None (adr, buf) ds w h y v u ys vs us 0 = Some (0, (adr, out))
      \<and> rect_map 0 ds 0 (8 * (w div 2)) (2 * (h div 2)) (\<lambda>j k _. image_byte (simd_px straight_pixel None 0 y ys v vs u us) j k) buf out"
    by (rule bgra.simd_image_done [OF plain]) (simp_all add: pick_load_rows assms(18,19))
qed

lemma convert_sse2_exact_witness:
  "\<exists>out. ColorConvert_YCbCr420p_to_BGRA32_sse2 (32, replicate 96 7) 48 11 2 (1, replicate 24 81) (2, replicate 6 90) (3, replicate 6 240)
      (4, replicate 24 128) 12 6 6 12 = Some (0, (32, out)) \<and> out ! 1 = premultiplied (simd_g 81 240 90) 128 \<and> out ! 40 = 7"
proof -
  have "\<exists>out. ColorConvert_YCbCr420p_to_BGRA32_sse2 (32, replicate 96 7) 48 11 2 (1, replicate 24 81) (2, replicate 6 90)
      (3, replicate 6 240) (4, replicate 24 128) 12 6 6 12 = Some (0, (32, out))
    \<and> rect_map 0 48 0 (8 * (11 div 2)) (2 * (2 div 2)) (\<lambda>j k _. image_byte (simd_px premultiplied_pixel (Some (4, replicate 24 128)) 12
        (1, replicate 24 81) 12 (2, replicate 6 90) 6 (3, replicate 6 240) 6) j k) (replicate 96 7) out"
    by (rule convert_sse2_exact [THEN conjunct2, THEN conjunct2, THEN conjunct1]) simp_all
  then obtain out where out: "ColorConvert_YCbCr420p_to_BGRA32_sse2 (32, replicate 96 7) 48 11 2 (1, replicate 24 81) (2, replicate 6 90)
      (3, replicate 6 240) (4, replicate 24 128) 12 6 6 12 = Some (0, (32, out))"
    and r: "rect_map 0 48 0 (8 * (11 div 2)) (2 * (2 div 2)) (\<lambda>j k _. image_byte (simd_px premultiplied_pixel (Some (4, replicate 24 128)) 12
        (1, replicate 24 81) 12 (2, replicate 6 90) 6 (3, replicate 6 240) 6) j k) (replicate 96 7) out" by blast
  have "out ! 1 = premultiplied (simd_g 81 240 90) 128"
    using rect_map_at [OF r, of 1 0 1] by (simp add: image_byte_def simd_px_def premultiplied_pixel_def alpha_at_def)
  moreover have "out ! 40 = 7" using rect_map_at [OF r, of 40 0 40] by simp
  ultimately show ?thesis using out by blast
qed

lemma straight_versions:
  assumes "0 < w" "0 < h" "even w" "even h" "w < 2147483648" "h < 2147483648"
    and "0 \<le> ys" "ys < 1073741824" "0 \<le> vs" "0 \<le> us" "4 * w \<le> ds" "ds < 1073741824"
    and "(h - 1) * ys + w \<le> int (length (snd y))" "(h div 2 - 1) * vs + w div 2 \<le> int (length (snd v))"
    and "(h div 2 - 1) * us + w div 2 \<le> int (length (snd u))" "(h - 1) * ds + 4 * w \<le> int (length buf)"
    and "adr mod 16 = 0" "ds mod 16 = 0"
  shows "\<exists>o1 o2. ColorConvert_YCbCr420p_to_BGRA32_no_alpha (Some buf) ds w h (Some (snd y)) (Some (snd v)) (Some (snd u)) ys vs us
      = Some (0, Some o1)
    \<and> ColorConvert_YCbCr420p_to_BGRA32_no_alpha_sse2 (adr, buf) ds w h y v u ys vs us = Some (0, (adr, o2))
    \<and> length o1 = length buf \<and> length o2 = length buf
    \<and> (\<forall>k < length buf. \<bar>uint (o1 ! k) - uint (o2 ! k)\<bar> \<le> 1)"
proof -
  have w: "8 * (w div 2) = 4 * w" "2 * (w div 2) = w" "2 * (h div 2) = h" using assms(3,4) by presburger+
  have "\<exists>out. ColorConvert_YCbCr420p_to_BGRA32_no_alpha_sse2 (adr, buf) ds w h y v u ys vs us = Some (0, (adr, out))
      \<and> rect_map 0 ds 0 (8 * (w div 2)) (2 * (h div 2)) (\<lambda>j k _. image_byte (simd_px straight_pixel None 0 y ys v vs u us) j k) buf out"
    unfolding ColorConvert_YCbCr420p_to_BGRA32_no_alpha_sse2_def
    by (rule bgra.simd_image_done) (use assms w in \<open>simp_all add: pick_load_rows\<close>)
  then obtain o2 where o2: "ColorConvert_YCbCr420p_to_BGRA32_no_alpha_sse2 (adr, buf) ds w h y v u ys vs us = Some (0, (adr, o2))"
    "rect_map 0 ds 0 (4 * w) h (\<lambda>j k _. image_byte (simd_px straight_pixel None 0 y ys v vs u us) j k) buf o2"
    unfolding w by blast
  obtain o1 where o1: "ColorConvert_YCbCr420p_to_BGRA32_no_alpha (Some buf) ds w h (Some (snd y)) (Some (snd v)) (Some (snd u)) ys vs us
      = Some (0, Some o1)"
    "rect_map 0 ds 0 (4 * w) h (\<lambda>j k _. image_byte (px420 (snd y) ys (snd v) vs (snd u) us (\<lambda>j i. 0xff)) j k) buf o1"
    using no_alpha_exact [OF assms(1-12) assms(13-16)] by blast
  have "\<bar>uint (o1 ! k) - uint (o2 ! k)\<bar> \<le> 1" if "k < length buf" for k
    by (rule rect_map_rel [OF o1(2) o2(2) that, where R = "\<lambda>a b. \<bar>uint a - uint b\<bar> \<le> 1"]) (simp_all add: image_distance)
  with o1 o2 rect_map_length [OF o1(2)] rect_map_length [OF o2(2)] show ?thesis by blast
qed

lemma alpha_distance:
  "\<exists>d. \<bar>uint (px420 (snd y) ys (snd v) vs (snd u) us A j i ! c) - uint d\<bar> \<le> 1
    \<and> simd_px premultiplied_pixel (Some a) as y ys v vs u us j i ! c = premultiplied d (snd a ! nat (j * as + i))" if "c < 3"
proof -
  have "c = 0 \<or> c = 1 \<or> c = 2" using that by auto
  then show ?thesis
    by (elim disjE) (auto simp: px420_def simd_px_def premultiplied_pixel_def bgra_pixel_def alpha_at_def Let_def intro: colour_distance)
qed

text \<open>The byte \<open>c\<close> of the pixel in row \<open>j\<close> and column \<open>i\<close> of an image.\<close>

lemma image_at:
  assumes "rect_map 0 ds 0 (4 * w) h (\<lambda>j k _. image_byte px j k) buf out"
    and "(h - 1) * ds + 4 * w \<le> int (length buf)" "4 * w \<le> ds" "0 \<le> j" "j < h" "0 \<le> i" "i < w" "c < 4"
  shows "out ! (nat (j * ds + 4 * i) + c) = px j i ! c"
proof -
  have b: "0 \<le> 4 * i + int c" "4 * i + int c < 4 * w" using assms(6-8) by linarith+
  have "0 \<le> ds" using assms(3,6,7) by linarith
  then have "j * ds \<le> (h - 1) * ds" "0 \<le> j * ds" using assms(4,5) by (simp_all add: mult_right_mono)
  then have k: "int (nat (j * ds + 4 * i) + c) = 0 + j * ds + (4 * i + int c)" "nat (j * ds + 4 * i) + c < length buf"
    using assms(2,6) b by linarith+
  have "(4 * i + int c) div 4 = i" "(4 * i + int c) mod 4 = int c" using assms(8) by auto
  then show ?thesis using rect_map_at [OF assms(1) k(2,1)] b assms(3-5) by (simp add: image_byte_def)
qed

lemma alpha_versions:
  assumes "0 < w" "0 < h" "even w" "even h" "w < 2147483648" "h < 2147483648"
    and "0 \<le> ys" "ys < 1073741824" "0 \<le> vs" "0 \<le> us" "4 * w \<le> ds" "ds < 1073741824"
    and "(h - 1) * ys + w \<le> int (length (snd y))" "(h div 2 - 1) * vs + w div 2 \<le> int (length (snd v))"
    and "(h div 2 - 1) * us + w div 2 \<le> int (length (snd u))" "(h - 1) * ds + 4 * w \<le> int (length buf)"
    and "adr mod 16 = 0" "ds mod 16 = 0"
    and "0 \<le> as" "as < 1073741824" "(h - 1) * as + w \<le> int (length (snd a))"
  shows "\<exists>o1 o2. ColorConvert_YCbCr420p_to_BGRA32 (Some buf) ds w h (Some (snd y)) (Some (snd v)) (Some (snd u)) (Some (snd a)) ys vs us as
      = Some (0, Some o1)
    \<and> ColorConvert_YCbCr420p_to_BGRA32_sse2 (adr, buf) ds w h y v u a ys vs us as = Some (0, (adr, o2))
    \<and> length o1 = length buf \<and> length o2 = length buf
    \<and> (\<forall>j i. 0 \<le> j \<and> j < h \<and> 0 \<le> i \<and> i < w \<longrightarrow> (let k = nat (j * ds + 4 * i) in o2 ! (k + 3) = o1 ! (k + 3)
        \<and> (\<forall>c < 3. \<exists>d. \<bar>uint (o1 ! (k + c)) - uint d\<bar> \<le> 1 \<and> o2 ! (k + c) = premultiplied d (o1 ! (k + 3)))))"
proof -
  have w: "8 * (w div 2) = 4 * w" "2 * (w div 2) = w" "2 * (h div 2) = h" using assms(3,4) by presburger+
  have "\<exists>out. ColorConvert_YCbCr420p_to_BGRA32_sse2 (adr, buf) ds w h y v u a ys vs us as = Some (0, (adr, out))
      \<and> rect_map 0 ds 0 (8 * (w div 2)) (2 * (h div 2)) (\<lambda>j k _. image_byte (simd_px premultiplied_pixel (Some a) as y ys v vs u us) j k) buf out"
    unfolding ColorConvert_YCbCr420p_to_BGRA32_sse2_def
    by (rule premultiplied.simd_image_done) (use assms w in \<open>simp_all add: pick_load_rows\<close>)
  then obtain o2 where o2: "ColorConvert_YCbCr420p_to_BGRA32_sse2 (adr, buf) ds w h y v u a ys vs us as = Some (0, (adr, o2))"
    "rect_map 0 ds 0 (4 * w) h (\<lambda>j k _. image_byte (simd_px premultiplied_pixel (Some a) as y ys v vs u us) j k) buf o2"
    unfolding w by blast
  obtain o1 where o1: "ColorConvert_YCbCr420p_to_BGRA32 (Some buf) ds w h (Some (snd y)) (Some (snd v)) (Some (snd u)) (Some (snd a)) ys vs us as
      = Some (0, Some o1)"
    "rect_map 0 ds 0 (4 * w) h (\<lambda>j k _. image_byte (px420 (snd y) ys (snd v) vs (snd u) us (\<lambda>j i. snd a ! nat (j * as + i))) j k) buf o1"
    using with_alpha_exact [OF assms(1-10,19,20,11-15,21,16)] by blast
  have "let k = nat (j * ds + 4 * i) in o2 ! (k + 3) = o1 ! (k + 3)
      \<and> (\<forall>c < 3. \<exists>d. \<bar>uint (o1 ! (k + c)) - uint d\<bar> \<le> 1 \<and> o2 ! (k + c) = premultiplied d (o1 ! (k + 3)))"
    if "0 \<le> j" "j < h" "0 \<le> i" "i < w" for j i
  proof -
    note at1 = image_at [OF o1(2) assms(16,11) that] and at2 = image_at [OF o2(2) assms(16,11) that]
    have "o1 ! (nat (j * ds + 4 * i) + 3) = snd a ! nat (j * as + i)" "o2 ! (nat (j * ds + 4 * i) + 3) = snd a ! nat (j * as + i)"
      using at1 [of 3] at2 [of 3] by (simp_all add: px420_def bgra_pixel_def simd_px_def premultiplied_pixel_def alpha_at_def Let_def)
    with at1 at2 alpha_distance show ?thesis by (simp add: Let_def)
  qed
  with o1(1) o2(1) rect_map_length [OF o1(2)] rect_map_length [OF o2(2)] show ?thesis by blast
qed

text \<open>C6. The two functions that both builds define for BGRA: without an alpha plane the SSE2 and the plain C
  conversion differ by at most one in every byte. With an alpha plane they agree on alpha only: the colours of
  the SSE2 version are multiplied by alpha and those of plain C are not; before that multiplication they
  differ by at most one as well.\<close>

theorem convert_versions_agree:
  assumes "0 < w" "0 < h" "even w" "even h" "w < 2147483648" "h < 2147483648"
    and "0 \<le> ys" "ys < 1073741824" "0 \<le> vs" "0 \<le> us" "4 * w \<le> ds" "ds < 1073741824"
    and "(h - 1) * ys + w \<le> int (length (snd y))" "(h div 2 - 1) * vs + w div 2 \<le> int (length (snd v))"
    and "(h div 2 - 1) * us + w div 2 \<le> int (length (snd u))" "(h - 1) * ds + 4 * w \<le> int (length buf)"
    and "adr mod 16 = 0" "ds mod 16 = 0"
    and "0 \<le> as" "as < 1073741824" "(h - 1) * as + w \<le> int (length (snd a))"
  shows "(\<exists>o1 o2. ColorConvert_YCbCr420p_to_BGRA32_no_alpha (Some buf) ds w h (Some (snd y)) (Some (snd v)) (Some (snd u)) ys vs us
      = Some (0, Some o1)
    \<and> ColorConvert_YCbCr420p_to_BGRA32_no_alpha_sse2 (adr, buf) ds w h y v u ys vs us = Some (0, (adr, o2))
    \<and> length o1 = length buf \<and> length o2 = length buf
    \<and> (\<forall>k < length buf. \<bar>uint (o1 ! k) - uint (o2 ! k)\<bar> \<le> 1))
  \<and> (\<exists>o1 o2. ColorConvert_YCbCr420p_to_BGRA32 (Some buf) ds w h (Some (snd y)) (Some (snd v)) (Some (snd u)) (Some (snd a)) ys vs us as
      = Some (0, Some o1)
    \<and> ColorConvert_YCbCr420p_to_BGRA32_sse2 (adr, buf) ds w h y v u a ys vs us as = Some (0, (adr, o2))
    \<and> length o1 = length buf \<and> length o2 = length buf
    \<and> (\<forall>j i. 0 \<le> j \<and> j < h \<and> 0 \<le> i \<and> i < w \<longrightarrow> (let k = nat (j * ds + 4 * i) in o2 ! (k + 3) = o1 ! (k + 3)
        \<and> (\<forall>c < 3. \<exists>d. \<bar>uint (o1 ! (k + c)) - uint d\<bar> \<le> 1 \<and> o2 ! (k + c) = premultiplied d (o1 ! (k + 3))))))"
  using straight_versions [OF assms(1-18)] alpha_versions [OF assms] by blast

lemma convert_versions_agree_witness:
  "\<exists>o1 o2. ColorConvert_YCbCr420p_to_BGRA32 (Some (replicate 32 0)) 16 2 2 (Some [16, 81, 145, 235]) (Some [240]) (Some [90])
      (Some [255, 128, 64, 0]) 2 1 1 2 = Some (0, Some o1)
    \<and> ColorConvert_YCbCr420p_to_BGRA32_sse2 (64, replicate 32 0) 16 2 2 (5, [16, 81, 145, 235]) (6, [240]) (7, [90])
      (8, [255, 128, 64, 0]) 2 1 1 2 = Some (0, (64, o2)) \<and> o2 ! 23 = o1 ! 23"
  using convert_versions_agree [of 2 2 2 1 1 16 "(5, [16, 81, 145, 235])" "(6, [240])" "(7, [90])" "replicate 32 0" 64 2
      "(8, [255, 128, 64, 0])"] by (auto dest!: spec [of _ 1] simp: Let_def)

text \<open>C40. Nothing checks the target of the SSE2 conversions: where it is not aligned to sixteen bytes and four
  columns or more are to be converted, the first aligned store faults.\<close>

theorem sse2_unaligned_target:
  assumes "fst argb mod 16 \<noteq> 0" "4 \<le> w" "2 \<le> h" "h < 2147483648"
  shows "ColorConvert_YCbCr420p_to_ARGB32_sse2 argb ds w h y v u a ys vs us as = None
    \<and> ColorConvert_YCbCr420p_to_ARGB32_no_alpha_sse2 argb ds w h y v u ys vs us = None
    \<and> ColorConvert_YCbCr420p_to_BGRA32_sse2 argb ds w h y v u a ys vs us as = None
    \<and> ColorConvert_YCbCr420p_to_BGRA32_no_alpha_sse2 argb ds w h y v u ys vs us = None"
  by (simp add: ColorConvert_YCbCr420p_to_ARGB32_sse2_def ColorConvert_YCbCr420p_to_ARGB32_no_alpha_sse2_def
    ColorConvert_YCbCr420p_to_BGRA32_sse2_def ColorConvert_YCbCr420p_to_BGRA32_no_alpha_sse2_def simd_image_faults [OF assms])

lemma sse2_unaligned_target_witness:
  "ColorConvert_YCbCr420p_to_BGRA32_no_alpha_sse2 (8, replicate 64 0) 32 8 2 (0, replicate 16 0) (0, replicate 4 0) (0, replicate 4 0) 8 4 4 = None"
  using sse2_unaligned_target [of "(8, replicate 64 0)" 8 2] by simp

end
