(* ===== verification/File_Cache.thy ===== *)
theory File_Cache
  imports Prelude
begin

text \<open>
  The file under a progress buffer, \<^verbatim>\<open>progressbuffer/posix/filecache.c\<close>: an unlinked temporary file with a
  handle for reading and one for writing, whose offsets are the two positions of the structure. How much of a
  buffer \<^verbatim>\<open>write\<close> stores is an argument; \<^verbatim>\<open>read\<close> answers what the file stores at the offset.
\<close>

record cache =
  cache_file :: "jbyte list"
  read_position :: int
  write_position :: int

definition create_cache :: cache where "create_cache = \<lparr>cache_file = [], read_position = 0, write_position = 0\<rparr>"

definition DEFAULT_BUFFER_SIZE :: int where "DEFAULT_BUFFER_SIZE = 4096"

definition file_write :: "jbyte list \<Rightarrow> int \<Rightarrow> jbyte list \<Rightarrow> jbyte list" where
  "file_write f pos bs = take (nat pos) (f @ replicate (nat pos - length f) 0) @ bs @ drop (nat pos + length bs) f"

definition file_read :: "jbyte list \<Rightarrow> int \<Rightarrow> int \<Rightarrow> jbyte list" where
  "file_read f pos n = take (nat n) (drop (nat pos) f)"

definition cache_write_buffer :: "int \<Rightarrow> jbyte list \<Rightarrow> cache \<Rightarrow> cache" where
  "cache_write_buffer written data c = (if 0 < written
     then c\<lparr>cache_file := file_write (cache_file c) (write_position c) (take (nat written) data),
            write_position := write_position c + written\<rparr>
     else c)"

definition cache_read_buffer :: "cache \<Rightarrow> int \<times> (int \<times> jbyte list) option \<times> cache" where
  "cache_read_buffer c = (let
     sz = (if write_position c - read_position c > 0 \<and> write_position c - read_position c < DEFAULT_BUFFER_SIZE
       then write_position c - read_position c else DEFAULT_BUFFER_SIZE);
     data = file_read (cache_file c) (read_position c) sz
   in if data \<noteq> [] then (read_position c + int (length data), Some (read_position c, data),
        c\<lparr>read_position := read_position c + int (length data)\<rparr>)
      else (0, None, c))"

definition cache_set_write_position :: "int \<Rightarrow> cache \<Rightarrow> bool \<times> cache" where
  "cache_set_write_position position c = (if position = write_position c then (True, c)
     else if 0 \<le> position then (True, c\<lparr>write_position := position\<rparr>) else (False, c))"

definition cache_set_read_position :: "int \<Rightarrow> cache \<Rightarrow> bool \<times> cache" where
  "cache_set_read_position position c = (if position = read_position c then (True, c)
     else if 0 \<le> position then (True, c\<lparr>read_position := position\<rparr>) else (False, c))"

definition cache_read_buffer_from_position :: "cache \<Rightarrow> int \<Rightarrow> int \<Rightarrow> bool \<times> (int \<times> jbyte list) option \<times> cache" where
  "cache_read_buffer_from_position c start_position sz = (case cache_set_read_position start_position c of
     (False, c) \<Rightarrow> (False, None, c)
   | (True, c) \<Rightarrow> let data = file_read (cache_file c) (read_position c) sz;
        buffer = (if int (length data) = sz then Some (read_position c, data) else None)
      in (buffer \<noteq> None, buffer, c\<lparr>read_position := read_position c + int (length data)\<rparr>))"

definition cache_has_enough_data :: "cache \<Rightarrow> bool" where
  "cache_has_enough_data c \<longleftrightarrow> read_position c < write_position c"

section \<open>The file as a queue\<close>

text \<open>\<open>stores c data r\<close>: the bytes written since the last reset are \<open>data\<close>, \<open>r\<close> of them have been read.\<close>

definition stores :: "cache \<Rightarrow> jbyte list \<Rightarrow> int \<Rightarrow> bool" where
  "stores c data r \<longleftrightarrow> write_position c = int (length data) \<and> read_position c = r \<and> 0 \<le> r \<and> r \<le> int (length data)
     \<and> length data \<le> length (cache_file c) \<and> take (length data) (cache_file c) = data"

lemma stores_reset: "stores (snd (cache_set_read_position 0 (snd (cache_set_write_position 0 c)))) [] 0"
  by (simp add: stores_def cache_set_read_position_def cache_set_write_position_def)

lemma stores_create: "stores create_cache [] 0"
  by (simp add: stores_def create_cache_def)

lemma stores_write:
  assumes "stores c data r"
  shows "stores (cache_write_buffer (int (length bs)) bs c) (data @ bs) r"
  using assms by (auto simp: stores_def cache_write_buffer_def file_write_def)

lemma stores_enough: "stores c data r \<Longrightarrow> cache_has_enough_data c \<longleftrightarrow> r < int (length data)"
  by (auto simp: stores_def cache_has_enough_data_def)

lemma stores_read:
  assumes "stores c data r" "r < int (length data)"
  defines "chunk \<equiv> take 4096 (drop (nat r) data)"
  shows "\<exists>c'. cache_read_buffer c = (r + int (length chunk), Some (r, chunk), c') \<and> stores c' data (r + int (length chunk)) \<and> chunk \<noteq> []"
proof -
  let ?n = "int (length data) - r"
  have c: "write_position c = int (length data)" "read_position c = r" "0 \<le> r" "take (length data) (cache_file c) = data"
    "length data \<le> length (cache_file c)" using assms(1) by (simp_all add: stores_def)
  have d: "data = take (length data) (cache_file c)" using c(4) by simp
  have "drop (nat r) data = take (nat ?n) (drop (nat r) (cache_file c))"
    by (subst d, subst drop_take) (use c in \<open>simp add: nat_diff_distrib'\<close>)
  then have chunk: "chunk = take (min 4096 (nat ?n)) (drop (nat r) (cache_file c))" by (simp add: chunk_def)
  have read: "file_read (cache_file c) r (if ?n > 0 \<and> ?n < DEFAULT_BUFFER_SIZE then ?n else DEFAULT_BUFFER_SIZE) = chunk"
    unfolding file_read_def chunk DEFAULT_BUFFER_SIZE_def using assms(2) by (auto simp: min_def)
  have len: "chunk \<noteq> []" "int (length chunk) \<le> ?n" using assms(2) c(3) by (auto simp: chunk_def)
  let ?c = "c\<lparr>read_position := r + int (length chunk)\<rparr>"
  have "cache_read_buffer c = (r + int (length chunk), Some (r, chunk), ?c)"
    unfolding cache_read_buffer_def c(1,2) Let_def read using len(1) by simp
  moreover have "stores ?c data (r + int (length chunk))" using c len by (simp add: stores_def)
  ultimately show ?thesis using len(1) by blast
qed

end
