(* ===== verification/Hls_Buffer.thy ===== *)
theory Hls_Buffer
  imports File_Cache
begin

text \<open>
  The buffer of HTTP live streams, \<^verbatim>\<open>progressbuffer/hlsprogressbuffer.c\<close>: a ring of three caches, each for one
  segment. The streaming thread brings events and data in, a task of the source pad pushes data out, other
  threads flush and change the state. A section under the lock is one step, and so is a stretch outside of
  it; where a thread stands between two sections is part of the state. A sleeping thread goes on when its
  condition is signalled; a signal without a sleeper is lost.
\<close>

section \<open>The state\<close>

definition NUM_OF_CACHED_SEGMENTS :: int where "NUM_OF_CACHED_SEGMENTS = 3"
definition HLS_FLOW_OK :: int where "HLS_FLOW_OK = 0"
definition HLS_FLOW_WRONG_STATE :: int where "HLS_FLOW_WRONG_STATE = - 2"

datatype hls_message = HLS_PB_MESSAGE_RESUME | HLS_PB_MESSAGE_HLS_EOS | HLS_PB_MESSAGE_FULL | HLS_PB_MESSAGE_NOT_FULL

text \<open>What leaves the element: buffers with their offset, events and messages.\<close>

datatype hls_call =
    Buffer_out int "jbyte list"
  | Eos_out
  | Segment_out int
  | Flush_start_out
  | Flush_stop_out
  | Message hls_message
  | Error_message

datatype producer =
    P_idle
  | P_chain "jbyte list"
  | P_segment int int int
  | P_next int
  | P_full int
  | P_relock int
  | P_asleep int
  | P_woken int
  | P_resume

datatype consumer =
    C_idle
  | C_asleep
  | C_woken
  | C_push int "jbyte list"

datatype flusher = F_idle | F_data | F_pause

record hls =
  caches :: "cache list"
  cache_size :: "int list"
  cache_write_ready :: "bool list"
  cache_write_index :: int
  cache_read_index :: int
  send_new_segment :: bool
  is_flushing :: bool
  is_eos :: bool
  srcresult :: int
  task_started :: bool
  prod :: producer
  cons :: consumer
  flush_thread :: flusher
  calls_out :: "hls_call list"

definition hls_progress_buffer_init :: hls where
  "hls_progress_buffer_init = \<lparr>caches = replicate 3 create_cache, cache_size = replicate 3 0, cache_write_ready = replicate 3 True,
     cache_write_index = - 1, cache_read_index = 0, send_new_segment = True, is_flushing = False, is_eos = False,
     srcresult = HLS_FLOW_OK, task_started = False, prod = P_idle, cons = C_idle, flush_thread = F_idle, calls_out = []\<rparr>"

definition call :: "hls_call \<Rightarrow> hls \<Rightarrow> hls" where "call x s = s\<lparr>calls_out := calls_out s @ [x]\<rparr>"

text \<open>\<^verbatim>\<open>g_cond_signal\<close> on the two conditions.\<close>

definition signal_add :: "hls \<Rightarrow> hls" where
  "signal_add s = (case cons s of C_asleep \<Rightarrow> s\<lparr>cons := C_woken\<rparr> | _ \<Rightarrow> s)"

definition signal_del :: "hls \<Rightarrow> hls" where
  "signal_del s = (case prod s of P_asleep stop \<Rightarrow> s\<lparr>prod := P_woken stop\<rparr> | _ \<Rightarrow> s)"

section \<open>Data in\<close>

text \<open>\<^verbatim>\<open>hls_progress_buffer_chain\<close>: the flags are read before the lock is taken.\<close>

definition chain_check :: "jbyte list \<Rightarrow> hls \<Rightarrow> hls" where
  "chain_check data s = (if is_flushing s \<or> is_eos s then s else s\<lparr>prod := P_chain data\<rparr>)"

definition chain_write :: "jbyte list \<Rightarrow> int \<Rightarrow> hls \<Rightarrow> hls option" where
  "chain_write data written s = do {
     c \<leftarrow> rd (caches s) (cache_write_index s);
     cs \<leftarrow> wr (caches s) (cache_write_index s) (cache_write_buffer written data c);
     Some (signal_add (s\<lparr>caches := cs, prod := P_idle\<rparr>)) }"

text \<open>The new-segment event of \<^verbatim>\<open>hls_progress_buffer_sink_event\<close>.\<close>

definition segment_check :: "int \<Rightarrow> int \<Rightarrow> int \<Rightarrow> hls \<Rightarrow> hls" where
  "segment_check start stop time s = (if srcresult s \<noteq> HLS_FLOW_OK then s else s\<lparr>prod := P_segment start stop time\<rparr>)"

definition segment_open :: "bool \<Rightarrow> int \<Rightarrow> int \<Rightarrow> int \<Rightarrow> hls \<Rightarrow> hls" where
  "segment_open linked start stop time s = (let
     s = (if is_eos s then s\<lparr>is_eos := False, srcresult := HLS_FLOW_OK, task_started := task_started s \<or> linked\<rparr> else s)
   in if i64 (stop - start) \<le> 0 then call Error_message (s\<lparr>prod := P_idle\<rparr>)
      else (let s = (if send_new_segment s then call (Segment_out time) (s\<lparr>send_new_segment := False\<rparr>) else s)
        in s\<lparr>prod := P_next stop\<rparr>))"

definition prepare_segment :: "int \<Rightarrow> hls \<Rightarrow> hls option" where
  "prepare_segment stop s = do {
     sizes \<leftarrow> wr (cache_size s) (cache_write_index s) (stop mod 2 ^ 32);
     readies \<leftarrow> wr (cache_write_ready s) (cache_write_index s) False;
     c \<leftarrow> rd (caches s) (cache_write_index s);
     cs \<leftarrow> wr (caches s) (cache_write_index s) (snd (cache_set_read_position 0 (snd (cache_set_write_position 0 c))));
     Some (s\<lparr>caches := cs, cache_size := sizes, cache_write_ready := readies, prod := P_resume\<rparr>) }"

definition segment_resume :: "hls \<Rightarrow> hls" where
  "segment_resume s = call (Message HLS_PB_MESSAGE_RESUME) (s\<lparr>prod := P_idle\<rparr>)"

definition wait_check :: "int \<Rightarrow> hls \<Rightarrow> hls option" where
  "wait_check stop s = do {
     ready \<leftarrow> rd (cache_write_ready s) (cache_write_index s);
     (if srcresult s = HLS_FLOW_OK \<and> \<not> ready then Some (s\<lparr>prod := P_full stop\<rparr>) else prepare_segment stop s) }"

definition segment_next :: "int \<Rightarrow> hls \<Rightarrow> hls option" where
  "segment_next stop s = wait_check stop (s\<lparr>cache_write_index := (cache_write_index s + 1) mod NUM_OF_CACHED_SEGMENTS\<rparr>)"

text \<open>The full message goes out without the lock; then the thread takes it again and sleeps without a look at the condition.\<close>

definition segment_full :: "int \<Rightarrow> hls \<Rightarrow> hls" where
  "segment_full stop s = call (Message HLS_PB_MESSAGE_FULL) (s\<lparr>prod := P_relock stop\<rparr>)"

definition segment_wait :: "int \<Rightarrow> hls \<Rightarrow> hls" where
  "segment_wait stop s = s\<lparr>prod := P_asleep stop\<rparr>"

definition segment_woken :: "int \<Rightarrow> hls \<Rightarrow> hls option" where
  "segment_woken stop s = (if srcresult s \<noteq> HLS_FLOW_OK then Some (s\<lparr>prod := P_idle\<rparr>) else wait_check stop s)"

section \<open>Data out\<close>

text \<open>\<^verbatim>\<open>hls_progress_buffer_loop\<close> up to the push, from the start or after sleeping, and its rest.\<close>

definition loop_end :: "int \<Rightarrow> hls \<Rightarrow> hls" where
  "loop_end res s = (if res \<noteq> HLS_FLOW_OK \<and> \<not> is_flushing s then s\<lparr>task_started := False, cons := C_idle\<rparr> else s\<lparr>cons := C_idle\<rparr>)"

definition loop_read :: "hls \<Rightarrow> hls option" where
  "loop_read s = do {
     c \<leftarrow> rd (caches s) (cache_read_index s);
     sz \<leftarrow> rd (cache_size s) (cache_read_index s);
     let (read_pos, buffer, c) = cache_read_buffer c;
     cs \<leftarrow> wr (caches s) (cache_read_index s) c;
     let s = s\<lparr>caches := cs\<rparr>;
     s \<leftarrow> (if read_pos = sz then do {
         readies \<leftarrow> wr (cache_write_ready s) (cache_read_index s) True;
         Some (signal_del (call (Message HLS_PB_MESSAGE_NOT_FULL)
           (s\<lparr>cache_write_ready := readies, cache_read_index := (cache_read_index s + 1) mod NUM_OF_CACHED_SEGMENTS\<rparr>))) }
       else Some s);
     (offset, data) \<leftarrow> buffer;
     Some (s\<lparr>cons := C_push offset data\<rparr>) }"

definition loop_section :: "hls \<Rightarrow> hls option" where
  "loop_section s = do {
     c \<leftarrow> rd (caches s) (cache_read_index s);
     (if srcresult s = HLS_FLOW_OK \<and> \<not> cache_has_enough_data c then
        (if is_eos s then Some (loop_end HLS_FLOW_WRONG_STATE (call Eos_out (s\<lparr>srcresult := HLS_FLOW_WRONG_STATE\<rparr>)))
         else Some (s\<lparr>cons := C_asleep\<rparr>))
      else if srcresult s = HLS_FLOW_OK then loop_read s
      else Some (loop_end (srcresult s) s)) }"

definition loop_pushed :: "int \<Rightarrow> int \<Rightarrow> jbyte list \<Rightarrow> hls \<Rightarrow> hls" where
  "loop_pushed res offset data s = (let s = call (Buffer_out offset data) s
     in if srcresult s = HLS_FLOW_OK \<or> res \<noteq> HLS_FLOW_OK then loop_end res (s\<lparr>srcresult := res\<rparr>) else loop_end (srcresult s) s)"

section \<open>Flushing, end of stream and activation\<close>

definition flush_cache :: "cache \<Rightarrow> cache" where
  "flush_cache c = snd (cache_set_read_position 0 (snd (cache_set_write_position 0 c)))"

definition hls_progress_buffer_flush_data :: "hls \<Rightarrow> hls" where
  "hls_progress_buffer_flush_data s = (let s = signal_del (signal_add (s\<lparr>srcresult := HLS_FLOW_WRONG_STATE\<rparr>))
     in s\<lparr>cache_write_index := - 1, cache_read_index := 0, caches := List.map flush_cache (caches s),
          cache_size := List.map (\<lambda>_. 0) (cache_size s), cache_write_ready := List.map (\<lambda>_. True) (cache_write_ready s)\<rparr>)"

definition flush_begin :: "hls \<Rightarrow> hls" where
  "flush_begin s = call Flush_start_out (s\<lparr>is_flushing := True, flush_thread := F_data\<rparr>)"

definition flush_pause :: "bool \<Rightarrow> hls \<Rightarrow> hls" where
  "flush_pause linked s = s\<lparr>task_started := task_started s \<and> \<not> linked, flush_thread := F_idle\<rparr>"

definition flush_stop :: "bool \<Rightarrow> hls \<Rightarrow> hls" where
  "flush_stop linked s = call Flush_stop_out (s\<lparr>send_new_segment := True, is_flushing := False, srcresult := HLS_FLOW_OK,
     task_started := task_started s \<or> (\<not> is_eos s \<and> linked)\<rparr>)"

definition eos_event :: "hls \<Rightarrow> hls" where
  "eos_event s = signal_add ((call (Message HLS_PB_MESSAGE_HLS_EOS) s)\<lparr>is_eos := True\<rparr>)"

definition hls_progress_buffer_activatepush_src :: "bool \<Rightarrow> bool \<Rightarrow> hls \<Rightarrow> hls" where
  "hls_progress_buffer_activatepush_src active linked s = (if active
     then s\<lparr>srcresult := HLS_FLOW_OK, task_started := task_started s \<or> linked\<rparr>
     else (signal_del (signal_add (s\<lparr>srcresult := HLS_FLOW_WRONG_STATE\<rparr>)))\<lparr>task_started := False\<rparr>)"

section \<open>Steps\<close>

datatype label =
    Chain "jbyte list" | Chain_write int
  | Segment int int int | Segment_open bool | Segment_next | Segment_full | Segment_wait | Segment_woken | Segment_resume
  | Eos
  | Loop | Loop_pushed int
  | Flush_start | Flush_data | Flush_pause bool | Flush_stop bool
  | Activate bool bool | Paused_to_ready
  | Spurious_add | Spurious_del

fun hls_step :: "label \<Rightarrow> hls \<Rightarrow> hls option option" where
  "hls_step (Chain data) s = (case prod s of P_idle \<Rightarrow> Some (Some (chain_check data s)) | _ \<Rightarrow> None)"
| "hls_step (Chain_write n) s = (case prod s of P_chain data \<Rightarrow>
     if - 1 \<le> n \<and> n \<le> int (length data) then Some (chain_write data n s) else None | _ \<Rightarrow> None)"
| "hls_step (Segment start stop time) s = (case prod s of P_idle \<Rightarrow> Some (Some (segment_check start stop time s)) | _ \<Rightarrow> None)"
| "hls_step (Segment_open linked) s = (case prod s of P_segment start stop time \<Rightarrow> Some (Some (segment_open linked start stop time s)) | _ \<Rightarrow> None)"
| "hls_step Segment_next s = (case prod s of P_next stop \<Rightarrow> Some (segment_next stop s) | _ \<Rightarrow> None)"
| "hls_step Segment_full s = (case prod s of P_full stop \<Rightarrow> Some (Some (segment_full stop s)) | _ \<Rightarrow> None)"
| "hls_step Segment_wait s = (case prod s of P_relock stop \<Rightarrow> Some (Some (segment_wait stop s)) | _ \<Rightarrow> None)"
| "hls_step Segment_woken s = (case prod s of P_woken stop \<Rightarrow> Some (segment_woken stop s) | _ \<Rightarrow> None)"
| "hls_step Segment_resume s = (case prod s of P_resume \<Rightarrow> Some (Some (segment_resume s)) | _ \<Rightarrow> None)"
| "hls_step Eos s = (case prod s of P_idle \<Rightarrow> Some (Some (eos_event s)) | _ \<Rightarrow> None)"
| "hls_step Loop s = (case cons s of C_woken \<Rightarrow> Some (loop_section s) | C_idle \<Rightarrow> if task_started s then Some (loop_section s) else None | _ \<Rightarrow> None)"
| "hls_step (Loop_pushed res) s = (case cons s of C_push offset data \<Rightarrow> Some (Some (loop_pushed res offset data s)) | _ \<Rightarrow> None)"
| "hls_step Flush_start s = (case flush_thread s of F_idle \<Rightarrow> Some (Some (flush_begin s)) | _ \<Rightarrow> None)"
| "hls_step Flush_data s = (case flush_thread s of F_data \<Rightarrow> Some (Some ((hls_progress_buffer_flush_data s)\<lparr>flush_thread := F_pause\<rparr>)) | _ \<Rightarrow> None)"
| "hls_step (Flush_pause linked) s = (case flush_thread s of F_pause \<Rightarrow> Some (Some (flush_pause linked s)) | _ \<Rightarrow> None)"
| "hls_step (Flush_stop linked) s = (case flush_thread s of F_idle \<Rightarrow> Some (Some (flush_stop linked s)) | _ \<Rightarrow> None)"
| "hls_step (Activate active linked) s = Some (Some (hls_progress_buffer_activatepush_src active linked s))"
| "hls_step Paused_to_ready s = Some (Some (hls_progress_buffer_flush_data s))"
| "hls_step Spurious_add s = (case cons s of C_asleep \<Rightarrow> Some (Some (s\<lparr>cons := C_woken\<rparr>)) | _ \<Rightarrow> None)"
| "hls_step Spurious_del s = (case prod s of P_asleep stop \<Rightarrow> Some (Some (s\<lparr>prod := P_woken stop\<rparr>)) | _ \<Rightarrow> None)"

text \<open>\<open>None\<close> outside: the step is not possible; \<open>Some None\<close>: it leaves an array or uses a missing buffer.\<close>

fun hls_run :: "label list \<Rightarrow> hls \<Rightarrow> hls option option" where
  "hls_run [] s = Some (Some s)"
| "hls_run (l # ls) s = (case hls_step l s of None \<Rightarrow> None | Some None \<Rightarrow> Some None | Some (Some t) \<Rightarrow> hls_run ls t)"

end
