(* ===== verification/Hls_Inv.thy ===== *)
theory Hls_Inv
  imports Hls_Buffer
begin

text \<open>
  The ring of caches as a queue of segments. \<open>slot s i\<close> is the \<open>i\<close>-th cache from the read index on; a window_ok
  \<open>W\<close> lists the segments in the ring, each with its size and the bytes that have arrived, and \<open>r\<close> bytes of the
  first have been read.
\<close>

section \<open>Slots\<close>

type_synonym segment_data = "int \<times> jbyte list"

definition at :: "hls \<Rightarrow> nat \<Rightarrow> nat" where "at s i = nat ((cache_read_index s + int i) mod 3)"

definition slot :: "hls \<Rightarrow> nat \<Rightarrow> cache \<times> int \<times> bool" where
  "slot s i = (caches s ! at s i, cache_size s ! at s i, cache_write_ready s ! at s i)"

definition slot_ok :: "segment_data list \<Rightarrow> int \<Rightarrow> nat \<Rightarrow> cache \<times> int \<times> bool \<Rightarrow> bool" where
  "slot_ok W r i x = (case x of (c, z, b) \<Rightarrow>
     if i < length W then z = fst (W ! i) \<and> \<not> b \<and> stores c (snd (W ! i)) (if i = 0 then r else 0)
     else b \<and> \<not> cache_has_enough_data c)"

definition three :: "hls \<Rightarrow> bool" where
  "three s \<longleftrightarrow> length (caches s) = 3 \<and> length (cache_size s) = 3 \<and> length (cache_write_ready s) = 3
     \<and> 0 \<le> cache_read_index s \<and> cache_read_index s < 3"

definition ring :: "hls \<Rightarrow> segment_data list \<Rightarrow> int \<Rightarrow> bool" where
  "ring s W r \<longleftrightarrow> three s \<and> length W \<le> 3 \<and> (\<forall>i<3. slot_ok W r i (slot s i))"

lemma at_lt: "at s i < 3"
  by (simp add: at_def nat_less_iff)

lemma at_0: "three s \<Longrightarrow> at s 0 = nat (cache_read_index s)"
  by (simp add: at_def three_def)

lemma at_eq: "i < 3 \<Longrightarrow> k < 3 \<Longrightarrow> at s i = at s k \<longleftrightarrow> i = k"
  unfolding at_def by (subst eq_nat_nat_iff) (simp, simp, presburger)

lemma at_index: "x mod 3 = (cache_read_index s + int i) mod 3 \<Longrightarrow> 0 \<le> x \<Longrightarrow> x < 3 \<Longrightarrow> at s i = nat x"
  by (simp add: at_def)

lemma ringI: "three s \<Longrightarrow> length W \<le> 3 \<Longrightarrow> (\<And>i. i < 3 \<Longrightarrow> slot_ok W r i (slot s i)) \<Longrightarrow> ring s W r"
  by (simp add: ring_def)

lemma ringD: "ring s W r \<Longrightarrow> three s" "ring s W r \<Longrightarrow> length W \<le> 3" "ring s W r \<Longrightarrow> i < 3 \<Longrightarrow> slot_ok W r i (slot s i)"
  by (simp_all add: ring_def)

text \<open>What a step leaves alone of the ring.\<close>

lemma ring_frame:
  assumes "ring s W r" "caches t = caches s" "cache_size t = cache_size s" "cache_write_ready t = cache_write_ready s"
    "cache_read_index t = cache_read_index s"
  shows "ring t W r"
  using assms by (simp add: ring_def three_def slot_def at_def)

lemma ring_frames [simp]:
  "ring (s\<lparr>prod := p\<rparr>) W r = ring s W r" "ring (s\<lparr>cons := k\<rparr>) W r = ring s W r" "ring (s\<lparr>calls_out := cs\<rparr>) W r = ring s W r"
  "ring (s\<lparr>cache_write_index := i\<rparr>) W r = ring s W r" "ring (s\<lparr>send_new_segment := b\<rparr>) W r = ring s W r"
  "ring (s\<lparr>is_eos := b\<rparr>) W r = ring s W r" "ring (s\<lparr>srcresult := res\<rparr>) W r = ring s W r" "ring (s\<lparr>task_started := b\<rparr>) W r = ring s W r"
  by (simp_all add: ring_def three_def slot_def at_def)

text \<open>One slot is replaced.\<close>

lemma ring_set:
  assumes ring: "ring s W r" and k: "k < 3"
    and t: "caches t = (caches s)[at s k := c]" "cache_size t = (cache_size s)[at s k := z]"
      "cache_write_ready t = (cache_write_ready s)[at s k := b]" "cache_read_index t = cache_read_index s"
    and new: "slot_ok V q k (c, z, b)" "length V \<le> 3"
    and same: "\<And>i. i < 3 \<Longrightarrow> i \<noteq> k \<Longrightarrow> slot_ok W r i (slot s i) \<Longrightarrow> slot_ok V q i (slot s i)"
  shows "ring t V q"
proof (rule ringI)
  have len: "length (caches s) = 3" "length (cache_size s) = 3" "length (cache_write_ready s) = 3"
    using ringD(1) [OF ring] by (simp_all add: three_def)
  show "three t" using ringD(1) [OF ring] t by (simp add: three_def)
  show "length V \<le> 3" by (fact new(2))
  fix i :: nat assume i: "i < 3"
  have at: "at t i = at s i" by (simp add: at_def t)
  show "slot_ok V q i (slot t i)"
  proof (cases "i = k")
    case True
    have "slot t i = (c, z, b)" using at_lt [of s k] at len True by (simp add: slot_def t)
    then show ?thesis using new(1) True by simp
  next
    case False
    have "slot t i = slot s i" using at_eq [OF i k, of s] False unfolding slot_def at t by simp
    then show ?thesis using same [OF i False ringD(3) [OF ring i]] by simp
  qed
qed

text \<open>The read index moves on.\<close>

lemma at_Suc: "cache_read_index t = (cache_read_index s + 1) mod 3 \<Longrightarrow> i < 2 \<Longrightarrow> at t i = at s (Suc i)"
  "cache_read_index t = (cache_read_index s + 1) mod 3 \<Longrightarrow> at t 2 = at s 0"
  unfolding at_def by (simp_all add: mod_simps algebra_simps)

lemma ring_advance:
  assumes three: "three s" and k: "cache_read_index t = (cache_read_index s + 1) mod 3"
    and same: "caches t = caches s" "cache_size t = cache_size s" "cache_write_ready t = cache_write_ready s"
    and free: "slot_ok V q 2 (slot s 0)" "length V \<le> 2"
    and moved: "\<And>i. i < 2 \<Longrightarrow> slot_ok V q i (slot s (Suc i))"
  shows "ring t V q"
proof (rule ringI)
  show "three t" using three same k by (simp add: three_def)
  show "length V \<le> 3" using free(2) by simp
  fix i :: nat assume i: "i < 3"
  show "slot_ok V q i (slot t i)"
  proof (cases "i < 2")
    case True
    have "slot t i = slot s (Suc i)" by (simp add: slot_def same at_Suc(1) [OF k True])
    then show ?thesis using moved [OF True] by simp
  next
    case False
    then have "i = 2" using i by simp
    have "slot t 2 = slot s 0" by (simp add: slot_def same at_Suc(2) [OF k])
    then show ?thesis using free(1) \<open>i = 2\<close> by simp
  qed
qed

lemma slot_accesses:
  assumes "three s" "x mod 3 = (cache_read_index s + int i) mod 3" "0 \<le> x" "x < 3"
  shows "rd (caches s) x = Some (fst (slot s i))" "rd (cache_size s) x = Some (fst (snd (slot s i)))"
    "rd (cache_write_ready s) x = Some (snd (snd (slot s i)))"
    "wr (caches s) x c = Some ((caches s)[at s i := c])" "wr (cache_size s) x z = Some ((cache_size s)[at s i := z])"
    "wr (cache_write_ready s) x b = Some ((cache_write_ready s)[at s i := b])"
  using assms at_index [OF assms(2-4)] by (simp_all add: three_def rd_def wr_def in_arr_def slot_def)

lemma slot_same:
  assumes "three s"
  shows "(cache_size s)[at s i := fst (snd (slot s i))] = cache_size s" "(cache_write_ready s)[at s i := snd (snd (slot s i))] = cache_write_ready s"
  by (simp_all add: slot_def)

section \<open>The operations on the ring\<close>

lemma ring_write_ready:
  assumes "ring s W r" "x mod 3 = (cache_read_index s + int (length W)) mod 3" "0 \<le> x" "x < 3"
  shows "rd (cache_write_ready s) x = Some (length W < 3)"
proof (cases "length W = 3")
  case True
  have "x mod 3 = (cache_read_index s + int 0) mod 3" using assms(2) True by (simp add: mod_simps)
  from slot_accesses(3) [OF ringD(1) [OF assms(1)] this assms(3,4)] show ?thesis using ringD(3) [OF assms(1), of 0] True
    by (cases "slot s 0") (simp add: slot_ok_def)
next
  case False
  then show ?thesis using slot_accesses(3) [OF ringD(1) [OF assms(1)] assms(2-4)] ringD(2) [OF assms(1)] ringD(3) [OF assms(1), of "length W"]
    by (cases "slot s (length W)") (simp add: slot_ok_def)
qed

lemma ring_prepare:
  assumes ring: "ring s W r" and x: "cache_write_index s mod 3 = (cache_read_index s + int (length W)) mod 3"
    "0 \<le> cache_write_index s" "cache_write_index s < 3" and room: "length W < 3" and stop: "0 \<le> stop" "stop < 2 ^ 32"
  shows "\<exists>t. prepare_segment stop s = Some t \<and> ring t (W @ [(stop, [])]) (if W = [] then 0 else r)
    \<and> t = s\<lparr>caches := caches t, cache_size := cache_size t, cache_write_ready := cache_write_ready t, prod := P_resume\<rparr>"
proof -
  note acc = slot_accesses [OF ringD(1) [OF ring] x]
  let ?c = "snd (cache_set_read_position 0 (snd (cache_set_write_position 0 (fst (slot s (length W))))))"
  let ?t = "s\<lparr>caches := (caches s)[at s (length W) := ?c], cache_size := (cache_size s)[at s (length W) := stop],
     cache_write_ready := (cache_write_ready s)[at s (length W) := False], prod := P_resume\<rparr>"
  have prep: "prepare_segment stop s = Some ?t"
    unfolding prepare_segment_def acc using stop by simp
  have "ring ?t (W @ [(stop, [])]) (if W = [] then 0 else r)"
  proof (rule ring_set [OF ring room, where c = ?c and z = stop and b = False])
    show "slot_ok (W @ [(stop, [])]) (if W = [] then 0 else r) (length W) (?c, stop, False)"
      using stores_reset by (simp add: slot_ok_def nth_append)
    fix i assume "i < 3" "i \<noteq> length W" "slot_ok W r i (slot s i)"
    then show "slot_ok (W @ [(stop, [])]) (if W = [] then 0 else r) i (slot s i)"
      by (auto simp: slot_ok_def nth_append split: prod.splits)
  qed (use room in simp_all)
  then show ?thesis using prep by (intro exI [of _ ?t]) simp
qed

lemma ring_write:
  assumes ring: "ring s (W @ [(z, d)]) r" and x: "cache_write_index s mod 3 = (cache_read_index s + int (length W)) mod 3"
    "0 \<le> cache_write_index s" "cache_write_index s < 3"
  shows "\<exists>c. chain_write bs (int (length bs)) s = Some (signal_add (s\<lparr>caches := c, prod := P_idle\<rparr>))
    \<and> ring (s\<lparr>caches := c, prod := P_idle\<rparr>) (W @ [(z, d @ bs)]) r"
proof -
  note acc = slot_accesses [OF ringD(1) [OF ring] x]
  have k: "length W < 3" using ringD(2) [OF ring] by simp
  obtain c where old: "slot s (length W) = (c, z, False)" "stores c d (if W = [] then r else 0)"
    using ringD(3) [OF ring k] by (cases "slot s (length W)") (simp add: slot_ok_def)
  let ?c = "cache_write_buffer (int (length bs)) bs c"
  let ?cs = "(caches s)[at s (length W) := ?c]"
  have "ring (s\<lparr>caches := ?cs, prod := P_idle\<rparr>) (W @ [(z, d @ bs)]) r"
  proof (rule ring_set [OF ring k, where c = ?c and z = z and b = False])
    show "slot_ok (W @ [(z, d @ bs)]) r (length W) (?c, z, False)"
      using stores_write [OF old(2), of bs] by (simp add: slot_ok_def nth_append)
    fix i assume "i < 3" "i \<noteq> length W" "slot_ok (W @ [(z, d)]) r i (slot s i)"
    then show "slot_ok (W @ [(z, d @ bs)]) r i (slot s i)"
      by (auto simp: slot_ok_def nth_append split: prod.splits)
  qed (use k slot_same [OF ringD(1) [OF ring], of "length W", unfolded old(1)] in simp_all)
  then show ?thesis unfolding chain_write_def acc old(1) by auto
qed

lemma ring_enough:
  assumes ring: "ring s W r"
  shows "\<exists>c. rd (caches s) (cache_read_index s) = Some c \<and> (cache_has_enough_data c \<longleftrightarrow> W \<noteq> [] \<and> r < int (length (snd (hd W))))"
proof -
  have "cache_read_index s mod 3 = (cache_read_index s + int 0) mod 3" by simp
  from slot_accesses(1) [OF ringD(1) [OF ring] this] ringD(1) [OF ring] ringD(3) [OF ring, of 0]
  show ?thesis by (cases "slot s 0"; cases "W = []") (simp_all add: three_def slot_ok_def hd_conv_nth stores_enough)
qed

text \<open>The consumer takes a chunk; when that was the last of the segment, the cache is free again.\<close>

lemma ring_read:
  assumes ring: "ring s ((z, d) # W) r" and r: "r < int (length d)"
  defines "chunk \<equiv> take 4096 (drop (nat r) d)"
  defines "q \<equiv> r + int (length chunk)"
  shows "\<exists>c. loop_read s = Some (if q = z
      then (signal_del (call (Message HLS_PB_MESSAGE_NOT_FULL) (s\<lparr>caches := c, cache_write_ready := (cache_write_ready s)[at s 0 := True],
        cache_read_index := (cache_read_index s + 1) mod 3\<rparr>)))\<lparr>cons := C_push r chunk\<rparr>
      else s\<lparr>caches := c, cons := C_push r chunk\<rparr>)
    \<and> (if q = z \<and> int (length d) = z then ring (s\<lparr>caches := c, cache_write_ready := (cache_write_ready s)[at s 0 := True],
        cache_read_index := (cache_read_index s + 1) mod 3\<rparr>) W 0 else q = z \<or> ring (s\<lparr>caches := c\<rparr>) ((z, d) # W) q)"
proof -
  have x: "cache_read_index s mod 3 = (cache_read_index s + int 0) mod 3" "0 \<le> cache_read_index s" "cache_read_index s < 3"
    using ringD(1) [OF ring] by (simp_all add: three_def)
  note acc = slot_accesses [OF ringD(1) [OF ring] x]
  obtain c where old: "slot s 0 = (c, z, False)" "stores c d r"
    using ringD(3) [OF ring, of 0] by (cases "slot s 0") (simp add: slot_ok_def)
  obtain c' where read: "cache_read_buffer c = (q, Some (r, chunk), c')" "stores c' d q"
    using stores_read [OF old(2) r] unfolding chunk_def q_def by blast
  let ?cs = "(caches s)[at s 0 := c']"
  let ?s = "s\<lparr>caches := ?cs\<rparr>"
  let ?t = "s\<lparr>caches := ?cs, cache_write_ready := (cache_write_ready s)[at s 0 := True]\<rparr>"
  have loop: "loop_read s = Some (if q = z
      then (signal_del (call (Message HLS_PB_MESSAGE_NOT_FULL) (?t\<lparr>cache_read_index := (cache_read_index s + 1) mod 3\<rparr>)))
        \<lparr>cons := C_push r chunk\<rparr>
      else ?s\<lparr>cons := C_push r chunk\<rparr>)"
    unfolding loop_read_def acc old(1) by (simp add: read(1) acc NUM_OF_CACHED_SEGMENTS_def)
  have more: "ring ?s ((z, d) # W) q"
  proof (rule ring_set [OF ring, where k = 0 and c = c' and z = z and b = False])
    show "slot_ok ((z, d) # W) q 0 (c', z, False)" using read(2) by (simp add: slot_ok_def)
  qed (use slot_same [OF ringD(1) [OF ring], of 0, unfolded old(1)] ringD(2) [OF ring] in \<open>auto simp: slot_ok_def split: prod.splits\<close>)
  have fin: "ring (?t\<lparr>cache_read_index := (cache_read_index s + 1) mod 3\<rparr>) W 0" if "q = z" "int (length d) = z"
  proof (rule ring_advance [where s = ?t])
    have len: "length (caches s) = 3" "length (cache_write_ready s) = 3" using ringD(1) [OF ring] by (simp_all add: three_def)
    have "slot ?t 0 = (c', z, True)" using at_lt [of s 0] len old(1) by (simp add: slot_def at_def)
    moreover have "\<not> cache_has_enough_data c'" using stores_enough [OF read(2)] that by simp
    moreover have "length W \<le> 2" using ringD(2) [OF ring] by simp
    ultimately show "slot_ok W 0 2 (slot ?t 0)" by (simp add: slot_ok_def)
    fix i :: nat assume i: "i < 2"
    have "at s (Suc i) \<noteq> at s 0" using at_eq [of "Suc i" 0 s] i by simp
    then have "slot ?t (Suc i) = slot s (Suc i)" by (simp add: slot_def at_def)
    then show "slot_ok W 0 i (slot ?t (Suc i))"
      using ringD(3) [OF ring, of "Suc i"] i by (cases "slot s (Suc i)"; cases "i < length W") (simp_all add: slot_ok_def)
  qed (use ringD(1,2) [OF ring] in \<open>simp_all add: three_def\<close>)
  show ?thesis unfolding loop using more fin by (intro exI [of _ ?cs]) simp
qed

end
