(* ===== verification/Hls_Fifo.thy ===== *)
theory Hls_Fifo
  imports Hls_Inv "HOL-Library.Sublist"
begin

text \<open>
  What the buffer promises: bytes come out in the order in which they came in, each once. An \<open>inflow\<close> is what
  the streaming thread may still bring: segments from 0 on, each filled to its size by buffers written in
  full before the next one or the end of the stream is announced, and no flush in between.
\<close>

section \<open>The inflow\<close>

record inflow =
  room :: int
  pending :: "jbyte list"
  received :: "jbyte list"
  closed :: bool

definition inflow_start :: inflow where "inflow_start = \<lparr>room = 0, pending = [], received = [], closed = False\<rparr>"

fun inflow_step :: "label \<Rightarrow> inflow \<Rightarrow> inflow option" where
  "inflow_step (Chain data) f = (if data \<noteq> [] \<and> int (length data) \<le> room f \<and> pending f = [] \<and> \<not> closed f
     then Some (f\<lparr>pending := data\<rparr>) else None)"
| "inflow_step (Chain_write n) f = (if n = int (length (pending f))
     then Some (f\<lparr>room := room f - n, pending := [], received := received f @ pending f\<rparr>) else None)"
| "inflow_step (Segment s_start s_stop s_time) f = (if s_start = 0 \<and> 0 < s_stop \<and> s_stop < 2 ^ 32 \<and> room f = 0 \<and> \<not> closed f
     then Some (f\<lparr>room := s_stop\<rparr>) else None)"
| "inflow_step Eos f = (if room f = 0 \<and> \<not> closed f then Some (f\<lparr>closed := True\<rparr>) else None)"
| "inflow_step Flush_start f = None"
| "inflow_step Flush_data f = None"
| "inflow_step (Flush_pause linked) f = None"
| "inflow_step (Flush_stop linked) f = None"
| "inflow_step (Activate active linked) f = None"
| "inflow_step Paused_to_ready f = None"
| "inflow_step l f = Some f"

fun inflow_run :: "label list \<Rightarrow> inflow \<Rightarrow> inflow option" where
  "inflow_run [] f = Some f"
| "inflow_run (l # ls) f = (case inflow_step l f of None \<Rightarrow> None | Some g \<Rightarrow> inflow_run ls g)"

definition hls_started :: hls where "hls_started = hls_progress_buffer_activatepush_src True True hls_progress_buffer_init"

text \<open>The bytes pushed downstream.\<close>

fun bytes_of :: "hls_call list \<Rightarrow> jbyte list" where
  "bytes_of [] = []"
| "bytes_of (Buffer_out offset data # xs) = data @ bytes_of xs"
| "bytes_of (_ # xs) = bytes_of xs"

lemma bytes_of_append [simp]: "bytes_of (xs @ ys) = bytes_of xs @ bytes_of ys"
  by (induction xs rule: bytes_of.induct) simp_all

section \<open>The window of segments\<close>

text \<open>All segments but the last are complete; the last lacks \<open>rest\<close> bytes; the first is not read to its end.\<close>

fun window_ok :: "segment_data list \<Rightarrow> int \<Rightarrow> bool" where
  "window_ok [] rest = (rest = 0)"
| "window_ok [(z, d)] rest = (0 < z \<and> 0 \<le> rest \<and> int (length d) + rest = z)"
| "window_ok ((z, d) # W) rest = (0 < z \<and> int (length d) = z \<and> window_ok W rest)"

fun unread :: "segment_data list \<Rightarrow> int \<Rightarrow> jbyte list" where
  "unread [] r = []"
| "unread ((z, d) # W) r = drop (nat r) d @ concat (map snd W)"

definition begun :: "segment_data list \<Rightarrow> int \<Rightarrow> bool" where
  "begun W r \<longleftrightarrow> 0 \<le> r \<and> (W \<noteq> [] \<longrightarrow> r < fst (hd W))"

lemma window_Cons: "window_ok ((z, d) # W) rest \<longleftrightarrow> 0 < z \<and> (if W = [] then 0 \<le> rest \<and> int (length d) + rest = z else int (length d) = z \<and> window_ok W rest)"
  by (cases W) simp_all

lemma window_open: "window_ok W 0 \<Longrightarrow> 0 < stop \<Longrightarrow> window_ok (W @ [(stop, [])]) stop"
  by (induction W) (auto simp: window_Cons split: if_splits)

lemma window_write: "window_ok (W @ [(z, d)]) rest \<Longrightarrow> int (length bs) \<le> rest \<Longrightarrow> window_ok (W @ [(z, d @ bs)]) (rest - int (length bs))"
  by (induction W) (auto simp: window_Cons)

lemma window_last: "window_ok W rest \<Longrightarrow> rest \<noteq> 0 \<Longrightarrow> \<exists>V z d. W = V @ [(z, d)]"
  by (cases W rule: rev_cases) auto

lemma unread_open: "unread (W @ [(stop, [])]) (if W = [] then 0 else r) = unread W r"
  by (cases W) auto

lemma unread_write: "(W = [] \<Longrightarrow> nat r \<le> length d) \<Longrightarrow> unread (W @ [(z, d @ bs)]) r = unread (W @ [(z, d)]) r @ bs"
  by (cases W) auto

section \<open>The invariant\<close>

definition opened :: "int \<Rightarrow> inflow \<Rightarrow> int \<Rightarrow> bool" where
  "opened stop f rest \<longleftrightarrow> 0 < stop \<and> stop < 2 ^ 32 \<and> room f = stop \<and> rest = 0 \<and> pending f = []"

definition at_last :: "hls \<Rightarrow> nat \<Rightarrow> bool" where
  "at_last s k \<longleftrightarrow> - 1 \<le> cache_write_index s \<and> cache_write_index s < 3 \<and> (cache_write_index s + 1) mod 3 = (cache_read_index s + int k) mod 3"

definition at_next :: "hls \<Rightarrow> nat \<Rightarrow> bool" where
  "at_next s k \<longleftrightarrow> 0 \<le> cache_write_index s \<and> cache_write_index s < 3 \<and> cache_write_index s mod 3 = (cache_read_index s + int k) mod 3"

definition producer_ok :: "hls \<Rightarrow> inflow \<Rightarrow> nat \<Rightarrow> int \<Rightarrow> bool" where
  "producer_ok s f k rest \<longleftrightarrow> (cache_write_index s = - 1 \<longrightarrow> k = 0 \<and> received f = [])
     \<and> (closed f \<longrightarrow> room f = 0 \<and> prod s = P_idle) \<and> (case prod s of
     P_idle \<Rightarrow> room f = rest \<and> pending f = [] \<and> at_last s k
   | P_resume \<Rightarrow> room f = rest \<and> pending f = [] \<and> at_last s k
   | P_chain d \<Rightarrow> room f = rest \<and> pending f = d \<and> d \<noteq> [] \<and> int (length d) \<le> rest \<and> at_last s k
   | P_segment s_start s_stop s_time \<Rightarrow> s_start = 0 \<and> opened s_stop f rest \<and> at_last s k
   | P_next stop \<Rightarrow> opened stop f rest \<and> at_last s k
   | P_full stop \<Rightarrow> opened stop f rest \<and> at_next s k
   | P_relock stop \<Rightarrow> opened stop f rest \<and> at_next s k
   | P_asleep stop \<Rightarrow> opened stop f rest \<and> at_next s k
   | P_woken stop \<Rightarrow> opened stop f rest \<and> at_next s k)"

definition in_flight :: "hls \<Rightarrow> jbyte list" where
  "in_flight s = (case cons s of C_push offset data \<Rightarrow> data | _ \<Rightarrow> [])"

definition flow :: "hls \<Rightarrow> inflow \<Rightarrow> segment_data list \<Rightarrow> int \<Rightarrow> int \<Rightarrow> bool" where
  "flow s f W r rest \<longleftrightarrow> ring s W r \<and> window_ok W rest \<and> begun W r
     \<and> bytes_of (calls_out s) @ in_flight s @ unread W r = received f
     \<and> srcresult s = HLS_FLOW_OK \<and> task_started s \<and> \<not> is_flushing s \<and> is_eos s = closed f \<and> Eos_out \<notin> set (calls_out s)
     \<and> (\<forall>offset. cons s \<noteq> C_push offset []) \<and> (cons s = C_asleep \<longrightarrow> unread W r = [] \<and> \<not> closed f)"

definition live :: "hls \<Rightarrow> inflow \<Rightarrow> segment_data list \<Rightarrow> int \<Rightarrow> int \<Rightarrow> bool" where
  "live s f W r rest \<longleftrightarrow> flow s f W r rest \<and> producer_ok s f (length W) rest"

text \<open>After an error downstream, or when the end of the stream is out, the consumer has stopped.\<close>

definition dead :: "hls \<Rightarrow> inflow \<Rightarrow> bool" where
  "dead s f \<longleftrightarrow> three s \<and> srcresult s \<noteq> HLS_FLOW_OK \<and> cons s = C_idle \<and> \<not> task_started s \<and> \<not> is_flushing s
     \<and> is_eos s = closed f \<and> prefix (bytes_of (calls_out s)) (received f)
     \<and> (Eos_out \<in> set (calls_out s) \<longrightarrow> closed f \<and> bytes_of (calls_out s) = received f)
     \<and> (closed f \<longrightarrow> prod s = P_idle) \<and> (\<not> closed f \<longrightarrow> 0 \<le> cache_write_index s \<and> cache_write_index s < 3)
     \<and> pending f = (case prod s of P_chain d \<Rightarrow> d | _ \<Rightarrow> [])
     \<and> (\<forall>a b t. prod s = P_segment a b t \<longrightarrow> a = 0 \<and> 0 < b \<and> b < 2 ^ 32)"

definition fifo_inv :: "hls \<Rightarrow> inflow \<Rightarrow> bool" where
  "fifo_inv s f \<longleftrightarrow> (\<exists>W r rest. live s f W r rest) \<or> dead s f"

lemma fifo_inv_start: "fifo_inv hls_started inflow_start"
proof -
  have "live hls_started inflow_start [] 0 0"
    by (auto simp: live_def flow_def hls_started_def hls_progress_buffer_activatepush_src_def hls_progress_buffer_init_def inflow_start_def
        ring_def three_def slot_ok_def slot_def at_def begun_def producer_ok_def at_last_def in_flight_def create_cache_def
        cache_has_enough_data_def nth_replicate nat_less_iff numeral_3_eq_3 less_Suc_eq)
  then show ?thesis unfolding fifo_inv_def by blast
qed

lemma signal_simps [simp]:
  "cons s \<noteq> C_asleep \<Longrightarrow> signal_add s = s"
  "cons s = C_asleep \<Longrightarrow> signal_add s = s\<lparr>cons := C_woken\<rparr>"
  by (simp_all add: signal_add_def split: consumer.splits)

lemma dead_step:
  assumes inv: "dead s f" and step: "hls_step l s = Some x" and inflow: "inflow_step l f = Some g"
  shows "x \<noteq> None \<and> dead (the x) g"
proof -
  have len: "length (caches s) = 3" "length (cache_size s) = 3" "length (cache_write_ready s) = 3"
    using inv by (simp_all add: dead_def three_def)
  note d = inv [unfolded dead_def three_def]
  show ?thesis using step inflow
  proof (cases l)
    case (Chain data)
    then show ?thesis using d step inflow by (auto simp: chain_check_def dead_def three_def split: producer.splits if_splits)
  next
    case (Chain_write n)
    then obtain data where p: "prod s = P_chain data" "n = int (length data)" "\<not> closed f"
      using d step inflow by (auto split: producer.splits if_splits)
    let ?i = "cache_write_index s"
    have i: "0 \<le> ?i" "?i < 3" using d p by auto
    let ?t = "s\<lparr>caches := (caches s)[nat ?i := cache_write_buffer n data (caches s ! nat ?i)], prod := P_idle\<rparr>"
    have "x = Some ?t" using Chain_write step p d i len by (auto simp: chain_write_def rd_in wr_in)
    moreover have "dead ?t g" using Chain_write inflow d p i by (auto simp: dead_def three_def)
    ultimately show ?thesis by simp
  next
    case (Segment a b t)
    then show ?thesis using d step inflow by (auto simp: segment_check_def dead_def three_def split: producer.splits if_splits)
  next
    case (Segment_open linked)
    then show ?thesis using d step inflow
      by (auto simp: segment_open_def call_def i64_id dead_def three_def Let_def split: producer.splits if_splits)
  next
    case Segment_next
    then obtain stop where p: "prod s = P_next stop" "\<not> closed f" using d step by (auto split: producer.splits)
    let ?i = "(cache_write_index s + 1) mod 3"
    let ?t = "s\<lparr>cache_write_index := ?i, caches := (caches s)[nat ?i := flush_cache (caches s ! nat ?i)],
      cache_size := (cache_size s)[nat ?i := stop mod 2 ^ 32], cache_write_ready := (cache_write_ready s)[nat ?i := False], prod := P_resume\<rparr>"
    have "x = Some ?t" using Segment_next step p d len
      by (auto simp: segment_next_def wait_check_def prepare_segment_def rd_in wr_in NUM_OF_CACHED_SEGMENTS_def flush_cache_def)
    moreover have "dead ?t g" using Segment_next inflow d p by (auto simp: dead_def three_def)
    ultimately show ?thesis by simp
  next
    case Segment_full
    then show ?thesis using d step inflow by (auto simp: segment_full_def call_def dead_def three_def split: producer.splits)
  next
    case Segment_wait
    then show ?thesis using d step inflow by (auto simp: segment_wait_def call_def dead_def three_def split: producer.splits)
  next
    case Segment_woken
    then show ?thesis using d step inflow by (auto simp: segment_woken_def call_def dead_def three_def split: producer.splits)
  next
    case Segment_resume
    then show ?thesis using d step inflow by (auto simp: segment_resume_def call_def dead_def three_def split: producer.splits)
  next
    case Eos
    then show ?thesis using d step inflow by (auto simp: eos_event_def call_def dead_def three_def split: producer.splits if_splits)
  next
    case Spurious_del
    then show ?thesis using d step inflow by (auto simp: dead_def three_def split: producer.splits)
  qed (use d step inflow in auto)
qed

section \<open>The steps of a running buffer\<close>

lemma liveI: "flow s f W r rest \<Longrightarrow> producer_ok s f (length W) rest \<Longrightarrow> fifo_inv s f"
  unfolding fifo_inv_def live_def by blast

text \<open>What the producer does outside of the ring leaves the flow as it is.\<close>

lemma flow_frames [simp]:
  "flow (s\<lparr>prod := p\<rparr>) f W r rest = flow s f W r rest"
  "flow (s\<lparr>cache_write_index := i\<rparr>) f W r rest = flow s f W r rest"
  "flow (s\<lparr>send_new_segment := b\<rparr>) f W r rest = flow s f W r rest"
  "flow s (f\<lparr>room := z\<rparr>) W r rest = flow s f W r rest"
  "flow s (f\<lparr>pending := d\<rparr>) W r rest = flow s f W r rest"
  by (simp_all add: flow_def in_flight_def)

lemma flow_message [simp]:
  "flow (call (Message m) s) f W r rest = flow s f W r rest" "flow (call (Segment_out t) s) f W r rest = flow s f W r rest"
  by (simp_all add: flow_def in_flight_def call_def)

lemma mod3_Suc: "(a + 1) mod 3 = (b + 1) mod 3 \<longleftrightarrow> a mod 3 = (b :: int) mod 3"
  by presburger

lemma at_last_next: "at_last s (Suc k) \<Longrightarrow> cache_write_index s \<noteq> - 1 \<Longrightarrow> at_next s k"
  using mod3_Suc [of "cache_write_index s" "cache_read_index s + int k"] by (auto simp: at_last_def at_next_def algebra_simps)

lemma at_next_last: "at_next s k \<Longrightarrow> at_last s (Suc k)"
  using mod3_Suc [of "cache_write_index s" "cache_read_index s + int k"] by (auto simp: at_last_def at_next_def algebra_simps)

lemma at_frames [simp]:
  "at_last (s\<lparr>prod := p\<rparr>) k = at_last s k" "at_next (s\<lparr>prod := p\<rparr>) k = at_next s k"
  "at_last (s\<lparr>cons := c\<rparr>) k = at_last s k" "at_next (s\<lparr>cons := c\<rparr>) k = at_next s k"
  "at_last (s\<lparr>calls_out := xs\<rparr>) k = at_last s k" "at_next (s\<lparr>calls_out := xs\<rparr>) k = at_next s k"
  "at_last (s\<lparr>send_new_segment := b\<rparr>) k = at_last s k" "at_next (s\<lparr>send_new_segment := b\<rparr>) k = at_next s k"
  "at_last (s\<lparr>is_eos := b\<rparr>) k = at_last s k" "at_next (s\<lparr>is_eos := b\<rparr>) k = at_next s k"
  "at_last (s\<lparr>caches := cs\<rparr>) k = at_last s k" "at_next (s\<lparr>caches := cs\<rparr>) k = at_next s k"
  by (simp_all add: at_last_def at_next_def)

lemma producer_frames [simp]:
  "producer_ok (call x s) f k rest = producer_ok s f k rest"
  "producer_ok (s\<lparr>cons := c\<rparr>) f k rest = producer_ok s f k rest"
  "producer_ok (s\<lparr>send_new_segment := b\<rparr>) f k rest = producer_ok s f k rest"
  "producer_ok (s\<lparr>caches := cs\<rparr>) f k rest = producer_ok s f k rest"
  by (simp_all add: producer_ok_def call_def cong: producer.case_cong)

lemma ring_begun: "ring s ((z, d) # W) r \<Longrightarrow> 0 \<le> r \<and> r \<le> int (length d)"
  using ringD(3) [of s "(z, d) # W" r 0] by (cases "slot s 0") (simp add: slot_ok_def stores_def)

text \<open>The thread that opens a segment finds the next cache free, or has to wait.\<close>

lemma live_wait_check:
  assumes flow: "flow s f W r 0" and at: "at_next s (length W)" and stop: "opened stop f 0" "\<not> closed f"
  shows "wait_check stop s \<noteq> None \<and> fifo_inv (the (wait_check stop s)) f"
proof -
  have ring: "ring s W r" and fl: "srcresult s = HLS_FLOW_OK" using flow by (simp_all add: flow_def)
  have x: "cache_write_index s mod 3 = (cache_read_index s + int (length W)) mod 3" "0 \<le> cache_write_index s" "cache_write_index s < 3"
    using at by (simp_all add: at_next_def)
  show ?thesis
  proof (cases "length W < 3")
    case True
    obtain t where t: "prepare_segment stop s = Some t" "ring t (W @ [(stop, [])]) (if W = [] then 0 else r)"
      "t = s\<lparr>caches := caches t, cache_size := cache_size t, cache_write_ready := cache_write_ready t, prod := P_resume\<rparr>"
      using ring_prepare [OF ring x True, of stop] stop by (auto simp: opened_def)
    have same: "calls_out t = calls_out s" "cons t = cons s" "srcresult t = srcresult s" "task_started t = task_started s"
      "is_flushing t = is_flushing s" "is_eos t = is_eos s" "prod t = P_resume" "cache_write_index t = cache_write_index s"
      "cache_read_index t = cache_read_index s"
      by (subst t(3), simp)+
    have "flow t f (W @ [(stop, [])]) (if W = [] then 0 else r) stop"
      using flow t(2) stop unread_open [of W stop r] window_open [of W stop]
      by (auto simp: flow_def same in_flight_def begun_def opened_def)
    moreover have "producer_ok t f (length (W @ [(stop, [])])) stop"
      using at_next_last [OF at] x(2) stop by (auto simp: producer_ok_def same at_last_def opened_def)
    ultimately show ?thesis using ring_write_ready [OF ring x] True t(1) fl
      by (auto simp: wait_check_def intro: liveI)
  next
    case False
    then have "wait_check stop s = Some (s\<lparr>prod := P_full stop\<rparr>)"
      using ring_write_ready [OF ring x] fl by (simp add: wait_check_def)
    moreover have "producer_ok (s\<lparr>prod := P_full stop\<rparr>) f (length W) 0"
      using at stop x(2) by (simp add: producer_ok_def at_next_def)
    ultimately show ?thesis using flow by (auto intro: liveI)
  qed
qed

lemma live_chain_write:
  assumes live: "live s f W r rest" and p: "prod s = P_chain bs"
  shows "chain_write bs (int (length bs)) s \<noteq> None
    \<and> fifo_inv (the (chain_write bs (int (length bs)) s)) (f\<lparr>room := room f - int (length bs), pending := [], received := received f @ bs\<rparr>)"
proof -
  have flow: "flow s f W r rest" and ring: "ring s W r" and win: "window_ok W rest" using live by (simp_all add: live_def flow_def)
  have pr: "room f = rest" "bs \<noteq> []" "int (length bs) \<le> rest" "at_last s (length W)" "\<not> closed f" "cache_write_index s \<noteq> - 1 \<or> W = []"
    using live p by (auto simp: live_def producer_ok_def)
  obtain V z d where W: "W = V @ [(z, d)]" using window_last [OF win] pr(2,3) by (cases bs) auto
  have x: "cache_write_index s mod 3 = (cache_read_index s + int (length V)) mod 3" "0 \<le> cache_write_index s" "cache_write_index s < 3"
    using at_last_next [of s "length V"] pr(4,6) W by (auto simp: at_next_def)
  obtain cs where wr: "chain_write bs (int (length bs)) s = Some (signal_add (s\<lparr>caches := cs, prod := P_idle\<rparr>))"
    and ring': "ring (s\<lparr>caches := cs, prod := P_idle\<rparr>) (V @ [(z, d @ bs)]) r"
    using ring_write [OF ring [unfolded W] x] by blast
  let ?s = "s\<lparr>caches := cs, prod := P_idle\<rparr>" and ?W = "V @ [(z, d @ bs)]"
  let ?f = "f\<lparr>room := room f - int (length bs), pending := [], received := received f @ bs\<rparr>"
  have ur: "unread ?W r = unread W r @ bs" unfolding W by (rule unread_write) (use ring_begun [of s z d "[]" r] ring W in auto)
  have "bytes_of (calls_out s) @ in_flight s @ unread W r = received f" using flow by (simp add: flow_def)
  then have bytes: "bytes_of (calls_out s) @ in_flight s @ unread ?W r = received f @ bs" unfolding ur by (metis append_assoc)
  have begun: "begun ?W r" using flow unfolding W by (cases V) (simp_all add: flow_def begun_def)
  note fl = flow [unfolded flow_def]
  have "flow (signal_add ?s) ?f ?W r (rest - int (length bs))"
    unfolding flow_def using bytes begun ring' window_write [OF win [unfolded W] pr(3)] pr(5) fl
    by (cases "cons s") (simp_all only: signal_simps, simp_all add: in_flight_def)
  moreover have "producer_ok (signal_add ?s) ?f (length ?W) (rest - int (length bs))"
    using pr x W by (cases "cons s") (simp_all add: producer_ok_def)
  ultimately show ?thesis unfolding wr by (auto intro: liveI)
qed

lemma window_read:
  assumes "window_ok ((z, d) # W) rest" "int (length d) = z"
  shows "window_ok W rest"
  using assms by (cases W) simp_all

lemma window_left: "window_ok ((z, d) # W) rest \<Longrightarrow> int (length d) < z \<Longrightarrow> W = []"
  by (cases W) auto

lemma window_le: "window_ok ((z, d) # W) rest \<Longrightarrow> int (length d) \<le> z"
  by (cases W) auto

lemma window_pos: "window_ok ((z, d) # W) rest \<Longrightarrow> W \<noteq> [] \<Longrightarrow> 0 < fst (hd W)"
  by (cases W; cases "tl W") auto

text \<open>The consumer waits only when everything has been read.\<close>

lemma nothing_unread:
  assumes "window_ok W rest" "begun W r" "\<not> (W \<noteq> [] \<and> r < int (length (snd (hd W))))"
  shows "unread W r = []"
proof (cases W)
  case (Cons x V)
  obtain z d where x: "x = (z, d)" by (cases x)
  have "int (length d) \<le> r" "r < z" using assms(2,3) unfolding Cons x begun_def by simp_all
  then show ?thesis using window_left [OF assms(1) [unfolded Cons x]] unfolding Cons x by simp
qed simp

lemma take_drop_length: "xs = take n xs @ drop (length (take n xs)) xs"
  by (cases "n \<le> length xs") simp_all

lemma unread_chunk:
  assumes "0 \<le> r"
  shows "unread ((z, d) # W) r = take 4096 (drop (nat r) d) @ unread ((z, d) # W) (r + int (length (take 4096 (drop (nat r) d))))"
proof -
  let ?c = "take 4096 (drop (nat r) d)"
  have "drop (nat r) d = ?c @ drop (length ?c) (drop (nat r) d)"
    by (rule take_drop_length)
  moreover have "drop (length ?c) (drop (nat r) d) = drop (nat (r + int (length ?c))) d"
    using assms by (simp add: nat_add_distrib add.commute)
  ultimately show ?thesis by simp
qed

lemma at_advance:
  assumes "cache_read_index t = (cache_read_index s + 1) mod 3" "cache_write_index t = cache_write_index s"
  shows "at_last t k = at_last s (Suc k)" "at_next t k = at_next s (Suc k)"
  using assms by (simp_all add: at_last_def at_next_def mod_simps algebra_simps)

lemma producer_advance:
  assumes "producer_ok s f (Suc k) rest" "cache_read_index t = (cache_read_index s + 1) mod 3" "cache_write_index t = cache_write_index s"
    "prod t = prod s"
  shows "producer_ok (signal_del t) f k rest"
  using assms(1) at_advance [OF assms(2,3), of k] assms(3,4)
  by (cases "prod s") (auto simp: producer_ok_def signal_del_def)

lemma live_pending: "producer_ok s f k rest \<Longrightarrow> pending f = (case prod s of P_chain d \<Rightarrow> d | _ \<Rightarrow> [])
    \<and> (\<forall>a b t. prod s = P_segment a b t \<longrightarrow> a = 0 \<and> 0 < b \<and> b < 2 ^ 32) \<and> - 1 \<le> cache_write_index s \<and> cache_write_index s < 3"
  by (cases "prod s") (auto simp: producer_ok_def opened_def at_last_def at_next_def)

lemma live_stops:
  assumes live: "live s f W r rest" and t: "three t" "srcresult t \<noteq> HLS_FLOW_OK" "cons t = C_idle" "\<not> task_started t"
    "is_flushing t = is_flushing s" "is_eos t = is_eos s" "prod t = prod s" "cache_write_index t = cache_write_index s"
    and out: "prefix (bytes_of (calls_out t)) (received f)" "Eos_out \<in> set (calls_out t) \<Longrightarrow> closed f \<and> bytes_of (calls_out t) = received f"
    and begun: "\<not> closed f \<Longrightarrow> received f \<noteq> []"
  shows "fifo_inv t f"
proof -
  have fl: "\<not> is_flushing s" "is_eos s = closed f" using live by (simp_all add: live_def flow_def)
  have pr: "producer_ok s f (length W) rest" using live by (simp add: live_def)
  have "cache_write_index s = - 1 \<Longrightarrow> received f = []" "closed f \<Longrightarrow> prod s = P_idle" using pr by (simp_all add: producer_ok_def)
  then have "dead t f" using t out begun fl live_pending [OF pr] unfolding dead_def by force
  then show ?thesis by (simp add: fifo_inv_def)
qed

lemma live_loop:
  assumes live: "live s f W r rest" and c: "cons s = C_idle \<or> cons s = C_woken"
  shows "loop_section s \<noteq> None \<and> fifo_inv (the (loop_section s)) f"
proof -
  have flow: "flow s f W r rest" and pr: "producer_ok s f (length W) rest" using live by (simp_all add: live_def)
  have fl: "ring s W r" "window_ok W rest" "begun W r" "srcresult s = HLS_FLOW_OK" "\<not> is_flushing s" "is_eos s = closed f"
    "bytes_of (calls_out s) @ unread W r = received f" "Eos_out \<notin> set (calls_out s)" "task_started s"
    using flow c by (auto simp: flow_def in_flight_def)
  obtain ch where ch: "rd (caches s) (cache_read_index s) = Some ch"
    "cache_has_enough_data ch \<longleftrightarrow> W \<noteq> [] \<and> r < int (length (snd (hd W)))" using ring_enough [OF fl(1)] by blast
  show ?thesis
  proof (cases "W \<noteq> [] \<and> r < int (length (snd (hd W)))")
    case False
    have none: "unread W r = []" by (rule nothing_unread [OF fl(2,3) False])
    show ?thesis
    proof (cases "closed f")
      case True
      let ?t = "s\<lparr>srcresult := HLS_FLOW_WRONG_STATE, calls_out := calls_out s @ [Eos_out], task_started := False, cons := C_idle\<rparr>"
      have "loop_section s = Some ?t"
        using True False ch fl by (simp add: loop_section_def loop_end_def call_def HLS_FLOW_OK_def HLS_FLOW_WRONG_STATE_def)
      moreover have "fifo_inv ?t f"
        by (rule live_stops [OF live])
          (use ringD(1) [OF fl(1)] fl none True in \<open>auto simp: three_def HLS_FLOW_OK_def HLS_FLOW_WRONG_STATE_def\<close>)
      ultimately show ?thesis by simp
    next
      case nc: False
      have "loop_section s = Some (s\<lparr>cons := C_asleep\<rparr>)" using nc False ch fl by (simp add: loop_section_def)
      moreover have "flow (s\<lparr>cons := C_asleep\<rparr>) f W r rest" using flow c none nc by (auto simp: flow_def in_flight_def)
      ultimately show ?thesis using pr by (auto intro: liveI)
    qed
  next
    case True
    then obtain z d V where W: "W = (z, d) # V" and r: "r < int (length d)" by (cases W) auto
    let ?chunk = "take 4096 (drop (nat r) d)"
    let ?q = "r + int (length ?chunk)"
    have r0: "0 \<le> r" using fl(3) by (simp add: begun_def)
    have ne: "?chunk \<noteq> []" using r r0 by auto
    have le: "?q \<le> int (length d)" using r r0 by auto
    have bytes: "bytes_of (calls_out s) @ ?chunk @ unread W ?q = received f"
      using fl(7) unread_chunk [OF r0, of z d V] unfolding W by (metis append_assoc)
    have run: "loop_section s = loop_read s" using True ch fl by (simp add: loop_section_def)
    obtain cs where loop: "loop_read s = Some (if ?q = z
        then (signal_del (call (Message HLS_PB_MESSAGE_NOT_FULL) (s\<lparr>caches := cs, cache_write_ready := (cache_write_ready s)[at s 0 := True],
          cache_read_index := (cache_read_index s + 1) mod 3\<rparr>)))\<lparr>cons := C_push r ?chunk\<rparr>
        else s\<lparr>caches := cs, cons := C_push r ?chunk\<rparr>)"
      and ring: "if ?q = z \<and> int (length d) = z then ring (s\<lparr>caches := cs, cache_write_ready := (cache_write_ready s)[at s 0 := True],
        cache_read_index := (cache_read_index s + 1) mod 3\<rparr>) V 0 else ?q = z \<or> ring (s\<lparr>caches := cs\<rparr>) ((z, d) # V) ?q"
      using ring_read [OF fl(1) [unfolded W] r] by blast
    show ?thesis
    proof (cases "?q = z")
      case qz: True
      have dz: "int (length d) = z" using window_le [OF fl(2) [unfolded W]] le qz by simp
      let ?u = "s\<lparr>caches := cs, cache_write_ready := (cache_write_ready s)[at s 0 := True], cache_read_index := (cache_read_index s + 1) mod 3\<rparr>"
      let ?t = "(signal_del (call (Message HLS_PB_MESSAGE_NOT_FULL) ?u))\<lparr>cons := C_push r ?chunk\<rparr>"
      have "unread W ?q = unread V 0" unfolding W using dz qz by (cases V) auto
      then have "flow (?u\<lparr>cons := C_push r ?chunk\<rparr>) f V 0 rest"
        using ring qz dz fl bytes ne window_read [OF fl(2) [unfolded W] dz] window_pos [OF fl(2) [unfolded W]]
        by (simp add: flow_def in_flight_def begun_def)
      then have flow': "flow ?t f V 0 rest"
        by (cases "prod s") (simp_all add: signal_del_def call_def flow_def in_flight_def)
      have "producer_ok (signal_del (call (Message HLS_PB_MESSAGE_NOT_FULL) ?u)) f (length V) rest"
        by (rule producer_advance [OF pr [unfolded W list.size add_Suc_right add_0_right]]) (simp_all add: call_def)
      then show ?thesis using flow' qz loop run by (auto intro: liveI)
    next
      case qz: False
      let ?t = "s\<lparr>caches := cs, cons := C_push r ?chunk\<rparr>"
      have "?q < z" using window_le [OF fl(2) [unfolded W]] le qz by simp
      then have "begun W ?q" using r0 by (simp add: begun_def W)
      then have "flow ?t f W ?q rest"
        using ring qz fl bytes ne by (simp add: flow_def in_flight_def W)
      moreover have "producer_ok ?t f (length W) rest" using pr by simp
      ultimately show ?thesis using qz loop run by (auto intro: liveI)
    qed
  qed
qed

lemma live_pushed:
  assumes live: "live s f W r rest" and c: "cons s = C_push offset data"
  shows "fifo_inv (loop_pushed res offset data s) f"
proof -
  have flow: "flow s f W r rest" and pr: "producer_ok s f (length W) rest" using live by (simp_all add: live_def)
  have fl: "three s" "srcresult s = HLS_FLOW_OK" "\<not> is_flushing s" "is_eos s = closed f"
    "bytes_of (calls_out s) @ data @ unread W r = received f" "Eos_out \<notin> set (calls_out s)" "data \<noteq> []"
    using flow c ringD(1) [of s W r] by (auto simp: flow_def in_flight_def)
  show ?thesis
  proof (cases "res = HLS_FLOW_OK")
    case True
    let ?t = "s\<lparr>srcresult := HLS_FLOW_OK, calls_out := calls_out s @ [Buffer_out offset data], cons := C_idle\<rparr>"
    have "loop_pushed res offset data s = ?t" using fl(2) True by (simp add: loop_pushed_def loop_end_def call_def)
    moreover have "flow ?t f W r rest" using flow fl by (simp add: flow_def in_flight_def)
    moreover have "producer_ok ?t f (length W) rest" using pr by (cases "prod s") (auto simp: producer_ok_def at_last_def at_next_def)
    ultimately show ?thesis by (auto intro: liveI)
  next
    case False
    let ?t = "s\<lparr>srcresult := res, calls_out := calls_out s @ [Buffer_out offset data], task_started := False, cons := C_idle\<rparr>"
    have "prefix (bytes_of (calls_out s) @ data) (received f)" using fl(5) by (metis append_assoc prefixI)
    then have "fifo_inv ?t f"
      by (intro live_stops [OF live]) (use fl False in \<open>auto simp: three_def\<close>)
    moreover have "loop_pushed res offset data s = ?t" using fl(2,3) False by (simp add: loop_pushed_def loop_end_def call_def Let_def)
    ultimately show ?thesis by simp
  qed
qed

lemma live_eos:
  assumes live: "live s f W r rest" and p: "prod s = P_idle" "room f = 0" "\<not> closed f"
  shows "fifo_inv (eos_event s) (f\<lparr>closed := True\<rparr>)"
proof -
  let ?t = "signal_add ((call (Message HLS_PB_MESSAGE_HLS_EOS) s)\<lparr>is_eos := True\<rparr>)"
  have flow: "flow s f W r rest" and pr: "producer_ok s f (length W) rest" using live by (simp_all add: live_def)
  have "flow ?t (f\<lparr>closed := True\<rparr>) W r rest"
    using flow by (cases "cons s") (auto simp: flow_def call_def in_flight_def)
  moreover have "producer_ok ?t (f\<lparr>closed := True\<rparr>) (length W) rest"
    using pr p by (cases "cons s") (simp_all add: producer_ok_def call_def)
  ultimately show ?thesis unfolding eos_event_def by (rule liveI)
qed

lemma live_step:
  assumes live: "live s f W r rest" and step: "hls_step l s = Some x" and inflow: "inflow_step l f = Some g"
  shows "x \<noteq> None \<and> fifo_inv (the x) g"
proof -
  have flow: "flow s f W r rest" and pr: "producer_ok s f (length W) rest" using live by (simp_all add: live_def)
  have fl: "srcresult s = HLS_FLOW_OK" "\<not> is_flushing s" "is_eos s = closed f" "task_started s" using flow by (simp_all add: flow_def)
  show ?thesis
  proof (cases l)
    case (Chain data)
    have "producer_ok (s\<lparr>prod := P_chain data\<rparr>) (f\<lparr>pending := data\<rparr>) (length W) rest"
      using Chain step inflow pr by (auto simp: producer_ok_def split: producer.splits if_splits)
    then show ?thesis using Chain step inflow flow fl
      by (auto simp: chain_check_def intro: liveI split: producer.splits if_splits)
  next
    case (Chain_write n)
    then obtain data where p: "prod s = P_chain data" using step by (auto split: producer.splits)
    have "pending f = data" using pr p by (simp add: producer_ok_def)
    then have "x = chain_write data (int (length data)) s"
      "g = f\<lparr>room := room f - int (length data), pending := [], received := received f @ data\<rparr>"
      using Chain_write step inflow p by (auto split: if_splits)
    then show ?thesis using live_chain_write [OF live p] by simp
  next
    case (Segment a b t)
    have "producer_ok (s\<lparr>prod := P_segment a b t\<rparr>) (f\<lparr>room := b\<rparr>) (length W) rest"
      using Segment step inflow pr by (auto simp: producer_ok_def opened_def split: producer.splits if_splits)
    then show ?thesis using Segment step inflow flow fl
      by (auto simp: segment_check_def intro: liveI split: producer.splits if_splits)
  next
    case (Segment_open linked)
    then obtain a b t where p: "prod s = P_segment a b t" using step by (auto split: producer.splits)
    have st: "a = 0" "0 < b" "b < 2 ^ 32" "\<not> closed f" using pr p by (auto simp: producer_ok_def opened_def)
    let ?s = "if send_new_segment s then call (Segment_out t) (s\<lparr>send_new_segment := False\<rparr>) else s"
    have "x = Some (?s\<lparr>prod := P_next b\<rparr>)" using Segment_open step p st fl by (auto simp: segment_open_def i64_id Let_def)
    moreover have "flow (?s\<lparr>prod := P_next b\<rparr>) f W r rest" using flow by simp
    moreover have "producer_ok (?s\<lparr>prod := P_next b\<rparr>) f (length W) rest"
      using pr p by (simp add: producer_ok_def call_def)
    ultimately show ?thesis using Segment_open inflow by (auto intro: liveI)
  next
    case Segment_next
    then obtain stop where p: "prod s = P_next stop" using step by (auto split: producer.splits)
    have st: "opened stop f rest" "at_last s (length W)" "\<not> closed f" using pr p by (auto simp: producer_ok_def)
    let ?s = "s\<lparr>cache_write_index := (cache_write_index s + 1) mod 3\<rparr>"
    have "rest = 0" using st by (simp add: opened_def)
    moreover have "at_next ?s (length W)" using st(2) by (simp add: at_last_def at_next_def)
    ultimately have "wait_check stop ?s \<noteq> None \<and> fifo_inv (the (wait_check stop ?s)) f"
      using live_wait_check [of ?s f W r stop] flow st by simp
    then show ?thesis using Segment_next step inflow p by (auto simp: segment_next_def NUM_OF_CACHED_SEGMENTS_def)
  next
    case Segment_woken
    then obtain stop where p: "prod s = P_woken stop" using step by (auto split: producer.splits)
    have st: "opened stop f rest" "at_next s (length W)" "\<not> closed f" using pr p by (auto simp: producer_ok_def)
    then show ?thesis using live_wait_check [of s f W r stop] flow Segment_woken step inflow p fl
      by (auto simp: segment_woken_def opened_def)
  next
    case Loop
    then have "x = loop_section s" "g = f" "cons s = C_idle \<or> cons s = C_woken"
      using step inflow by (auto split: consumer.splits if_splits)
    then show ?thesis using live_loop [OF live] by blast
  next
    case (Loop_pushed res)
    then show ?thesis using live_pushed [OF live] step inflow by (auto split: consumer.splits)
  next
    case Eos
    then show ?thesis using live_eos [OF live] step inflow by (auto split: producer.splits if_splits)
  next
    case Segment_full
    then obtain stop where p: "prod s = P_full stop" using step by (auto split: producer.splits)
    have "producer_ok (s\<lparr>prod := P_relock stop\<rparr>) f (length W) rest" using pr p by (simp add: producer_ok_def)
    then show ?thesis using flow step inflow p Segment_full by (auto simp: segment_full_def intro!: liveI)
  next
    case Segment_wait
    then obtain stop where p: "prod s = P_relock stop" using step by (auto split: producer.splits)
    have "producer_ok (s\<lparr>prod := P_asleep stop\<rparr>) f (length W) rest" using pr p by (simp add: producer_ok_def)
    then show ?thesis using flow step inflow p Segment_wait by (auto simp: segment_wait_def intro!: liveI)
  next
    case Segment_resume
    then have p: "prod s = P_resume" using step by (auto split: producer.splits)
    have "producer_ok (s\<lparr>prod := P_idle\<rparr>) f (length W) rest" using pr p by (simp add: producer_ok_def)
    then show ?thesis using flow step inflow p Segment_resume by (auto simp: segment_resume_def intro!: liveI)
  next
    case Spurious_add
    have "cons s = C_asleep \<Longrightarrow> flow (s\<lparr>cons := C_woken\<rparr>) f W r rest" using flow by (auto simp: flow_def in_flight_def)
    then show ?thesis using Spurious_add pr step inflow by (auto intro!: liveI split: consumer.splits)
  next
    case Spurious_del
    then obtain stop where p: "prod s = P_asleep stop" using step by (auto split: producer.splits)
    have "producer_ok (s\<lparr>prod := P_woken stop\<rparr>) f (length W) rest" using pr p by (simp add: producer_ok_def)
    then show ?thesis using flow step inflow p Spurious_del by (auto intro!: liveI)
  qed (use inflow in auto)
qed

lemma fifo_step:
  assumes "fifo_inv s f" "hls_step l s = Some x" "inflow_step l f = Some g"
  shows "\<exists>t. x = Some t \<and> fifo_inv t g"
proof -
  have "x \<noteq> None \<and> fifo_inv (the x) g"
    using assms(1) live_step [OF _ assms(2,3)] dead_step [OF _ assms(2,3)] unfolding fifo_inv_def by blast
  then show ?thesis by auto
qed

lemma fifo_run:
  "fifo_inv s f \<Longrightarrow> hls_run ls s = Some x \<Longrightarrow> inflow_run ls f = Some g \<Longrightarrow> \<exists>t. x = Some t \<and> fifo_inv t g"
proof (induction ls arbitrary: s f)
  case (Cons l ls)
  obtain h where h: "inflow_step l f = Some h" "inflow_run ls h = Some g" using Cons.prems(3) by (auto split: option.splits)
  obtain y where y: "hls_step l s = Some y" using Cons.prems(2) by (auto split: option.splits)
  obtain t where t: "y = Some t" "fifo_inv t h" using fifo_step [OF Cons.prems(1) y h(1)] by blast
  have "hls_run ls t = Some x" using Cons.prems(2) y t(1) by simp
  then show ?case using Cons.IH [OF t(2) _ h(2)] by blast
qed auto

end
