(* ===== verification/Hls_Safety.thy ===== *)
theory Hls_Safety
  imports Hls_Inv
begin

text \<open>
  Which steps of the buffer leave its arrays, whatever the threads do and in whatever order: data or a late
  wake-up that meets a write index of -1, and nothing else.
\<close>

definition cache_wf :: "cache \<Rightarrow> bool" where
  "cache_wf c \<longleftrightarrow> 0 \<le> read_position c \<and> 0 \<le> write_position c \<and> write_position c \<le> int (length (cache_file c))"

definition hls_wf :: "hls \<Rightarrow> bool" where
  "hls_wf s \<longleftrightarrow> three s \<and> - 1 \<le> cache_write_index s \<and> cache_write_index s < 3 \<and> (\<forall>c \<in> set (caches s). cache_wf c)"

lemma hls_wf_init: "hls_wf hls_progress_buffer_init"
  by (simp add: hls_wf_def three_def hls_progress_buffer_init_def cache_wf_def create_cache_def)

lemma hls_wf_frame:
  assumes "hls_wf s" "caches t = caches s" "cache_size t = cache_size s" "cache_write_ready t = cache_write_ready s"
    "cache_read_index t = cache_read_index s" "cache_write_index t = cache_write_index s"
  shows "hls_wf t"
  using assms by (simp add: hls_wf_def three_def)

lemma hls_wf_frames [simp]:
  "hls_wf (s\<lparr>prod := p\<rparr>) = hls_wf s" "hls_wf (s\<lparr>cons := k\<rparr>) = hls_wf s" "hls_wf (s\<lparr>calls_out := cs\<rparr>) = hls_wf s"
  "hls_wf (s\<lparr>send_new_segment := b\<rparr>) = hls_wf s" "hls_wf (s\<lparr>is_eos := b\<rparr>) = hls_wf s" "hls_wf (s\<lparr>srcresult := res\<rparr>) = hls_wf s"
  "hls_wf (s\<lparr>task_started := b\<rparr>) = hls_wf s" "hls_wf (s\<lparr>is_flushing := b\<rparr>) = hls_wf s" "hls_wf (s\<lparr>flush_thread := p'\<rparr>) = hls_wf s"
  "hls_wf (call x s) = hls_wf s" "hls_wf (signal_add s) = hls_wf s" "hls_wf (signal_del s) = hls_wf s"
  by (auto simp: hls_wf_def three_def call_def signal_add_def signal_del_def split: consumer.split producer.split)

lemma signal_fields [simp]:
  "caches (signal_add s) = caches s" "caches (signal_del s) = caches s"
  "cache_size (signal_add s) = cache_size s" "cache_size (signal_del s) = cache_size s"
  "cache_write_ready (signal_add s) = cache_write_ready s" "cache_write_ready (signal_del s) = cache_write_ready s"
  by (auto simp: signal_add_def signal_del_def split: consumer.split producer.split)

section \<open>The caches\<close>

lemma cache_wf_rewound: "cache_wf c \<Longrightarrow> cache_wf (snd (cache_set_read_position 0 (snd (cache_set_write_position 0 c))))"
  by (simp add: cache_wf_def cache_set_read_position_def cache_set_write_position_def)

lemma cache_wf_write:
  assumes "cache_wf c" "n \<le> int (length bs)"
  shows "cache_wf (cache_write_buffer n bs c)"
  using assms by (auto simp: cache_wf_def cache_write_buffer_def file_write_def min_def)

lemma cache_wf_read:
  assumes "cache_wf c" "cache_has_enough_data c"
  shows "\<exists>q offset data c'. cache_read_buffer c = (q, Some (offset, data), c') \<and> cache_wf c'"
proof -
  let ?d = "\<lambda>sz. file_read (cache_file c) (read_position c) sz"
  have "?d sz \<noteq> []" if "0 < sz" for sz
    using assms that by (auto simp: cache_wf_def cache_has_enough_data_def file_read_def)
  then show ?thesis using assms(1)
    by (simp add: cache_read_buffer_def Let_def DEFAULT_BUFFER_SIZE_def cache_wf_def)
qed

section \<open>The operations\<close>

lemma wf_access:
  assumes "hls_wf s" "0 \<le> x" "x < 3"
  shows "rd (caches s) x = Some (caches s ! nat x)" "rd (cache_size s) x = Some (cache_size s ! nat x)"
    "rd (cache_write_ready s) x = Some (cache_write_ready s ! nat x)"
    "wr (caches s) x c = Some ((caches s)[nat x := c])" "wr (cache_size s) x z = Some ((cache_size s)[nat x := z])"
    "wr (cache_write_ready s) x b = Some ((cache_write_ready s)[nat x := b])"
    "cache_wf (caches s ! nat x)"
  using assms by (auto simp: hls_wf_def three_def rd_def wr_def in_arr_def)

lemma hls_wf_put:
  assumes "hls_wf s" "cache_wf c"
  shows "hls_wf (s\<lparr>caches := (caches s)[i := c]\<rparr>)"
  using assms by (auto simp: hls_wf_def three_def dest: set_update_subset_insert [THEN subsetD])

lemma prepare_wf:
  assumes "hls_wf s" "0 \<le> cache_write_index s"
  shows "\<exists>t. prepare_segment stop s = Some t \<and> hls_wf t"
proof -
  let ?i = "nat (cache_write_index s)"
  have i: "cache_write_index s < 3" using assms(1) by (simp add: hls_wf_def)
  note acc = wf_access [OF assms(1) assms(2) i]
  let ?c = "snd (cache_set_read_position 0 (snd (cache_set_write_position 0 (caches s ! ?i))))"
  have "hls_wf (s\<lparr>caches := (caches s)[?i := ?c]\<rparr>)" by (rule hls_wf_put [OF assms(1) cache_wf_rewound [OF acc(7)]])
  then show ?thesis unfolding prepare_segment_def acc by (simp add: hls_wf_def three_def)
qed

lemma wait_wf:
  assumes "hls_wf s" "0 \<le> cache_write_index s"
  shows "\<exists>t. wait_check stop s = Some t \<and> hls_wf t"
proof -
  have i: "cache_write_index s < 3" using assms(1) by (simp add: hls_wf_def)
  show ?thesis unfolding wait_check_def wf_access [OF assms i] using assms(1) prepare_wf [OF assms] by simp
qed

lemma wait_fault:
  assumes "cache_write_index s = - 1"
  shows "wait_check stop s = None"
  by (simp add: wait_check_def rd_def in_arr_def assms)

lemma write_wf:
  assumes "hls_wf s" "n \<le> int (length bs)"
  shows "if cache_write_index s = - 1 then chain_write bs n s = None else \<exists>t. chain_write bs n s = Some t \<and> hls_wf t"
proof (cases "cache_write_index s = - 1")
  case True
  then show ?thesis by (simp add: chain_write_def rd_def in_arr_def)
next
  case False
  then have i: "0 \<le> cache_write_index s" "cache_write_index s < 3" using assms(1) by (simp_all add: hls_wf_def)
  let ?s = "s\<lparr>caches := (caches s)[nat (cache_write_index s) := cache_write_buffer n bs (caches s ! nat (cache_write_index s))]\<rparr>"
  have "hls_wf ?s" by (rule hls_wf_put [OF assms(1) cache_wf_write [OF wf_access(7) [OF assms(1) i] assms(2)]])
  then show ?thesis unfolding chain_write_def wf_access [OF assms(1) i] using False by simp
qed

lemma loop_end_wf [simp]: "hls_wf (loop_end res s) = hls_wf s"
  by (simp add: loop_end_def)

lemma loop_read_wf:
  assumes "hls_wf s" "cache_has_enough_data (caches s ! nat (cache_read_index s))"
  shows "\<exists>t. loop_read s = Some t \<and> hls_wf t"
proof -
  let ?i = "nat (cache_read_index s)"
  have i: "0 \<le> cache_read_index s" "cache_read_index s < 3" using assms(1) by (simp_all add: hls_wf_def three_def)
  note acc = wf_access [OF assms(1) i]
  obtain q offset data c where c: "cache_read_buffer (caches s ! ?i) = (q, Some (offset, data), c)" "cache_wf c"
    using cache_wf_read [OF acc(7) assms(2)] by blast
  have "hls_wf (s\<lparr>caches := (caches s)[?i := c]\<rparr>)" by (rule hls_wf_put [OF assms(1) c(2)])
  then show ?thesis unfolding loop_read_def acc Option.bind.simps c(1) prod.case Let_def
    using acc i by (simp add: NUM_OF_CACHED_SEGMENTS_def) (simp add: hls_wf_def three_def)
qed

lemma loop_section_wf:
  assumes "hls_wf s"
  shows "\<exists>t. loop_section s = Some t \<and> hls_wf t"
proof -
  have i: "0 \<le> cache_read_index s" "cache_read_index s < 3" using assms by (simp_all add: hls_wf_def three_def)
  note acc = wf_access [OF assms i]
  show ?thesis unfolding loop_section_def acc using assms loop_read_wf [OF assms] by auto
qed

lemma flush_data_wf: "hls_wf s \<Longrightarrow> hls_wf (hls_progress_buffer_flush_data s)"
  using cache_wf_rewound by (simp add: hls_progress_buffer_flush_data_def Let_def hls_wf_def three_def flush_cache_def)

section \<open>Any step\<close>

definition stray :: "label \<Rightarrow> hls \<Rightarrow> bool" where
  "stray l s \<longleftrightarrow> cache_write_index s = - 1 \<and> (case l of Chain_write n \<Rightarrow> True | Segment_woken \<Rightarrow> srcresult s = HLS_FLOW_OK | _ \<Rightarrow> False)"

lemma step_wf:
  assumes wf: "hls_wf s" and step: "hls_step l s = Some x"
  shows "if stray l s then x = None else \<exists>t. x = Some t \<and> hls_wf t"
proof (cases l)
  case (Chain_write n)
  then show ?thesis using step write_wf [OF wf] by (auto simp: stray_def split: producer.splits if_splits)
next
  case Segment_next
  let ?s = "s\<lparr>cache_write_index := (cache_write_index s + 1) mod 3\<rparr>"
  have "hls_wf ?s" using wf by (simp add: hls_wf_def three_def)
  from wait_wf [OF this] show ?thesis using step Segment_next
    by (auto simp: stray_def segment_next_def NUM_OF_CACHED_SEGMENTS_def split: producer.splits)
next
  case Segment_woken
  have "- 1 \<le> cache_write_index s" using wf by (simp add: hls_wf_def)
  then show ?thesis using step Segment_woken wf wait_wf [OF wf] wait_fault [of s]
    by (cases "cache_write_index s = - 1") (auto simp: stray_def segment_woken_def split: producer.splits if_splits)
next
  case Loop
  obtain t where t: "loop_section s = Some t" "hls_wf t" using loop_section_wf [OF wf] by blast
  have "x = Some t" using step unfolding Loop hls_step.simps t(1) by (simp split: consumer.splits if_splits)
  then show ?thesis using t(2) Loop by (simp add: stray_def)
qed (use step wf flush_data_wf in \<open>auto simp: stray_def chain_check_def segment_check_def segment_open_def segment_full_def
    segment_wait_def segment_resume_def eos_event_def loop_pushed_def flush_begin_def flush_pause_def flush_stop_def
    hls_progress_buffer_activatepush_src_def Let_def split: producer.splits consumer.splits flusher.splits\<close>)

lemma run_wf: "hls_wf s \<Longrightarrow> hls_run ls s = Some (Some t) \<Longrightarrow> hls_wf t"
proof (induction ls arbitrary: s)
  case (Cons l ls)
  then obtain u where u: "hls_step l s = Some (Some u)" "hls_run ls u = Some (Some t)"
    by (auto split: option.splits)
  with step_wf [OF Cons.prems(1) u(1)] Cons.IH [of u] show ?case by (auto split: if_splits)
qed simp

end
