(* ===== verification/Hls_Properties.thy ===== *)
theory Hls_Properties
  imports Hls_Fifo Hls_Safety
begin

text \<open>
  The properties of the buffer of HTTP live streams: order and completeness of the bytes, the steps that
  leave its arrays, and a signal that is lost.
\<close>

section \<open>Order\<close>




section \<open>Faults\<close>

text \<open>
  C13. Whatever comes in, with flushes and changes of state at any moment and peers that answer anything: a step
  leaves the arrays of the buffer exactly if it stores data, or looks at the next cache after sleeping without
  an error, while the write index is -1. Both happen: a buffer that arrives before its segment, or has passed the
  check of the flags when a flush resets the index, and an opening of a segment that wakes up after the
  flush has ended.
\<close>

theorem hls_faults:
  assumes "hls_run ls hls_progress_buffer_init = Some (Some s)" "hls_step l s = Some x"
  shows "x = None \<longleftrightarrow> cache_write_index s = - 1 \<and>
    (case l of Chain_write n \<Rightarrow> True | Segment_woken \<Rightarrow> srcresult s = HLS_FLOW_OK | _ \<Rightarrow> False)"
  using step_wf [OF run_wf [OF hls_wf_init assms(1)] assms(2)] by (auto simp: stray_def split: if_splits)

definition late_buffer :: "label list" where
  "late_buffer = [Activate True True, Segment 0 2 0, Segment_open True, Segment_next, Segment_resume, Chain [1],
     Flush_start, Flush_data]"

definition late_segment :: "label list" where
  "late_segment = [Activate True True, Segment 0 2 0, Segment_open True, Segment_next, Segment_resume,
     Segment 0 2 0, Segment_open True, Segment_next, Segment_resume, Segment 0 2 0, Segment_open True, Segment_next, Segment_resume,
     Segment 0 2 0, Segment_open True, Segment_next, Segment_full, Segment_wait,
     Flush_start, Flush_data, Flush_pause True, Flush_stop True]"

theorem hls_faults_witness:
  "hls_run (late_buffer @ [Chain_write 1]) hls_progress_buffer_init = Some None
    \<and> hls_run (late_segment @ [Segment_woken]) hls_progress_buffer_init = Some None"
proof -
  have fault: "hls_run (ls @ [l]) t = Some None" if "hls_run ls t = Some (Some s)" "hls_step l s = Some None" for ls l s t
    using that by (induction ls arbitrary: t) (auto split: option.splits)
  have "(case hls_run late_buffer hls_progress_buffer_init of
      Some (Some s) \<Rightarrow> cache_write_index s = - 1 \<and> hls_step (Chain_write 1) s \<noteq> None | _ \<Rightarrow> False)" by code_simp
  then obtain s x where s: "hls_run late_buffer hls_progress_buffer_init = Some (Some s)" "cache_write_index s = - 1"
    "hls_step (Chain_write 1) s = Some x" by (auto split: option.splits)
  have "(case hls_run late_segment hls_progress_buffer_init of
      Some (Some s) \<Rightarrow> cache_write_index s = - 1 \<and> srcresult s = HLS_FLOW_OK \<and> hls_step Segment_woken s \<noteq> None | _ \<Rightarrow> False)" by code_simp
  then obtain t y where t: "hls_run late_segment hls_progress_buffer_init = Some (Some t)" "cache_write_index t = - 1"
    "srcresult t = HLS_FLOW_OK" "hls_step Segment_woken t = Some y" by (auto split: option.splits)
  from hls_faults [OF s(1,3)] hls_faults [OF t(1,4)] s t fault [of late_buffer _ s] fault [of late_segment _ t]
  show ?thesis by simp
qed

section \<open>A lost signal\<close>

text \<open>What goes on without a flush, a change of state or a wake-up out of nothing.\<close>

definition ordinary :: "label list" where
  "ordinary = [Segment_open False, Segment_open True, Segment_next, Segment_full, Segment_wait, Segment_woken,
     Segment_resume, Eos, Loop]"

definition stuck :: "hls \<Rightarrow> bool" where
  "stuck s \<longleftrightarrow> (\<forall>l \<in> set ordinary. hls_step l s = None) \<and> (\<forall>data. hls_step (Chain data) s = None)
     \<and> (\<forall>n. hls_step (Chain_write n) s = None) \<and> (\<forall>a b t. hls_step (Segment a b t) s = None)
     \<and> (\<forall>res. hls_step (Loop_pushed res) s = None)"

definition lost_run :: "label list" where
  "lost_run = concat (replicate 3 [Segment 0 2 0, Segment_open True, Segment_next, Segment_resume, Chain [1, 2], Chain_write 2])
     @ [Segment 0 2 0, Segment_open True, Segment_next, Segment_full]
     @ concat (replicate 3 [Loop, Loop_pushed 0]) @ [Loop, Segment_wait]"

text \<open>
  C14. A signal can be lost: between the message that the buffer is full and the wait, the thread that opens a
  segment does not hold the lock; when the task empties all caches in between, it sleeps after it although its cache is free
  by then, the task sleeps for want of data, all bytes are out, and no thread of an orderly stream can go on.
\<close>

theorem hls_lost_wakeup:
  "\<exists>s f. hls_run lost_run hls_started = Some (Some s) \<and> inflow_run lost_run inflow_start = Some f
    \<and> prod s = P_asleep 2 \<and> cache_write_ready s = [True, True, True] \<and> cons s = C_asleep \<and> stuck s
    \<and> bytes_of (calls_out s) = received f \<and> \<not> closed f"
proof -
  have "(case hls_run lost_run hls_started of Some (Some s) \<Rightarrow> prod s = P_asleep 2 \<and> cons s = C_asleep
      \<and> cache_write_ready s = [True, True, True] \<and> bytes_of (calls_out s) = [1, 2, 1, 2, 1, 2] | _ \<Rightarrow> False)"
    "(case inflow_run lost_run inflow_start of Some f \<Rightarrow> received f = [1, 2, 1, 2, 1, 2] \<and> \<not> closed f | _ \<Rightarrow> False)"
    by code_simp+
  then obtain s f where s: "hls_run lost_run hls_started = Some (Some s)" "prod s = P_asleep 2" "cons s = C_asleep"
    "cache_write_ready s = [True, True, True]" "bytes_of (calls_out s) = [1, 2, 1, 2, 1, 2]"
    and f: "inflow_run lost_run inflow_start = Some f" "received f = [1, 2, 1, 2, 1, 2]" "\<not> closed f" by (auto split: option.splits)
  have "stuck s" using s(2,3) by (simp add: stuck_def ordinary_def)
  then show ?thesis using s f by (intro exI [of _ s] exI [of _ f]) simp
qed

end
