(* ===== verification/Spec2Isabelle.thy ===== *)
theory Spec2Isabelle
  imports Renderer_Properties Surface_Properties Media_Properties Metadata_Properties Demux_Properties
    Color_Properties Hls_Properties
begin

text \<open>
  A verification library for four native parts of OpenJFX 8u40.

  \<^bold>\<open>The program.\<close> OpenJFX is a Java user-interface toolkit over C libraries. Four parts hold
  algorithms of the project's own and are modelled here.

  \<^item> The software renderer Pisces, \<^verbatim>\<open>modules/graphics/src/main/native-prism-sw\<close>. A \<^verbatim>\<open>Renderer\<close>
    structure keeps the paint, composite, mask and clip state. Java calls set that state
    (\<^verbatim>\<open>PiscesRenderer.inl\<close>) and mark what became stale in \<^verbatim>\<open>_rendererState\<close>; a drawing call
    (\<^verbatim>\<open>JPiscesRenderer.c\<close>) acquires the pixels of the surface, revalidates (which selects function
    pointers for painting, row blitting and line emission), lets the paint generator fill a buffer
    (\<^verbatim>\<open>PiscesPaint.c\<close>) and lets the blitter or emitter combine it with the surface
    (\<^verbatim>\<open>PiscesBlit.c\<close>).
  \<^item> The FLV container of the media library, \<^verbatim>\<open>modules/media/.../gstreamer/plugins/vp6\<close>. A parser
    (\<^verbatim>\<open>flvparser.c\<close>) is a state machine that asks for a block of bytes, reads it and asks for the
    next; script blocks go to the metadata reader (\<^verbatim>\<open>flvmetadata.c\<close>). The demuxer
    (\<^verbatim>\<open>flvdemux.c\<close>) feeds the parser, from pushed buffers or by pulling, creates an output pad per
    stream, stamps and pushes the packets, keeps an index of key frames (a sorted \<^verbatim>\<open>GList\<close>) and answers
    seeks with it.
  \<^item> The colour conversion of video frames, \<^verbatim>\<open>modules/media/src/main/native/jfxmedia/Utils/ColorConverter.c\<close>:
    planar YCbCr samples become ARGB or BGRA pixels. One build converts 4:2:0 planes with SSE2 blocks of 16, 8,
    4 and 2 columns, the other with tables in plain C; interleaved 4:2:2 samples are converted in plain C in both.
  \<^item> The buffer of HTTP live streams, \<^verbatim>\<open>modules/media/.../gstreamer/plugins/progressbuffer/hlsprogressbuffer.c\<close>: a
    ring of three segment files (\<^verbatim>\<open>posix/filecache.c\<close>) between the streaming thread that fills them and a task that
    pushes their bytes on, with a lock, two conditions, flushes and changes of state.

  \<^bold>\<open>Conventions\<close> (theory Prelude). A \<^verbatim>\<open>jint\<close> is an integer; where the C code can leave 32 bits the
  wrap is written out by \<^const>\<open>i32\<close>, shifts are \<^const>\<open>sar\<close>, \<^verbatim>\<open>jlong\<close> values use \<^const>\<open>i64\<close>.
  Pixels are 32-bit words, bytes 8-bit words. An array is a list and every access goes through
  \<^const>\<open>rd\<close>, \<^const>\<open>wr\<close> or \<^const>\<open>upd\<close>, which answer \<^term>\<open>None\<close> outside of its bounds; a call of a
  null function pointer, a division by zero and an oversized shift are \<^term>\<open>None\<close> too. So
  ``the result is \<open>Some\<close>'' is memory safety. Loops are \<^const>\<open>wloop\<close> (a partial function, undefined
  if the loop does not end) and \<^const>\<open>cfor\<close>; a theorem that a call is \<open>Some\<close> is therefore also its
  termination. The one function with fuel is the skip handler of the metadata, whose depth of nesting is
  bounded by the length of the block. Structures updated through a pointer are passed in and
  returned. \<^const>\<open>slice_map\<close> and \<^const>\<open>rect_map\<close> say that an array differs from another exactly on a
  run or a rectangle, by a given function of the position.

  \<^bold>\<open>The theories.\<close>

  \<^item> Float_Ops: the \<^verbatim>\<open>float\<close> and \<^verbatim>\<open>double\<close> arithmetic is a parameter (a record of operations), because C
    leaves precision to the implementation; a fixed-point instance runs the witnesses.
  \<^item> Transform: \<^verbatim>\<open>PiscesTransform.c\<close>, S15.16 matrices.
  \<^item> Renderer and Renderer_Ops: the state of \<^verbatim>\<open>PiscesRenderer.h\<close>, the revalidation and the setters of
    \<^verbatim>\<open>PiscesRenderer.inl\<close>; the interface as a step relation, its reachable states and the invariant
    that the selected routines are those of the modes unless a flag says otherwise.
  \<^item> Pixel_Blend: the blend functions of \<^verbatim>\<open>PiscesBlit.c\<close>; division by 255, premultiplied pixels, gamma.
  \<^item> Emit_Lines and Blit_Rows: the four line emitters and the nine row blitters; the locales
    \<open>line_emitter\<close> and \<open>row_blitter\<close> (with \<open>aa_blitter\<close>, \<open>mask_blitter\<close>) are the contract behind the
    function pointers and are interpreted on every routine and on the dispatching call.
  \<^item> Paint and Texture_Paint: the gradient and texture generators of \<^verbatim>\<open>PiscesPaint.c\<close>, one definition per
    loop body.
  \<^item> Fill: the drawing calls of \<^verbatim>\<open>JPiscesRenderer.c\<close>; the locale \<open>rect_source\<close> is what the three phases of
    \<^verbatim>\<open>fillRect\<close> need of a painter and is interpreted for flat and for generated paint.
  \<^item> Renderer_Properties: the properties of the renderer, with a 4 by 4 surface as witness.
  \<^item> Surface and Surface_Properties: the pixel access of \<^verbatim>\<open>JAbstractSurface.c\<close>, \<^verbatim>\<open>PiscesSurface.inl\<close> and
    \<^verbatim>\<open>JJavaSurface.c\<close> and its properties.
  \<^item> Flv_Parser: \<^verbatim>\<open>flvparser.c\<close>; the locale \<open>block_reader\<close> is the contract of its reading operations; the
    feeding loop of the demuxer as \<^const>\<open>feed\<close>; an encoder of the format for the round trip.
  \<^item> Media_Properties: the properties of the parser.
  \<^item> Flv_Metadata: the reader of script data, \<^verbatim>\<open>flvmetadata.c\<close>, with the growable array of glib that holds
    the keyframes; the locales \<open>value_callback\<close> and \<open>element_callback\<close> are what the readers of objects and
    arrays need of a handler, and are interpreted on the skip, keyframe and value handlers.
  \<^item> Amf: an encoder of script data; the locale \<open>exact_callback\<close> says that a handler reads exactly one
    encoded value with a known effect, and is interpreted on the same three handlers.
  \<^item> Metadata_Properties: the properties of the script data reader.
  \<^item> Flv_Index: the keyframe index and the two operations of \<^verbatim>\<open>glist.c\<close> under it, as a finite map.
  \<^item> Gst_Segment: the operations of \<^verbatim>\<open>gstsegment.c\<close> the demuxer calls; doubles are their bits.
  \<^item> Flv_Demux: \<^verbatim>\<open>flvdemux.c\<close>. Calls to pads, peers, tasks and the bus go to a log, \<^const>\<open>dx_calls\<close>, and their
    results are arbitrary functions of that log (the record \<open>gst_env\<close>), so a theorem holds for every peer.
  \<^item> Demux_Inv: the invariant of the demuxer over all of its entry points, as a step relation; calls that
    push nothing are collected in \<^const>\<open>calm\<close>, the stages of a tag in \<^const>\<open>tag_stage\<close> and \<^const>\<open>handled\<close>.
  \<^item> Demux_File: one block, one tag and a whole file through the demuxer, between peers that accept
    everything (\<^const>\<open>obliging\<close>).
  \<^item> Demux_Seek: the indexing loop over a file (\<^const>\<open>reads_file\<close>) and where a seek leads.
  \<^item> Demux_Properties: the properties of the demuxer.
  \<^item> Color_Tables and Color_Convert: the tables of \<^verbatim>\<open>ColorConverter.c\<close> as literals with the closed forms of
    their entries, and the plain C conversions; a loop advances a record of cursors into planes that are
    lists of bytes. Byte_Rows: loads and stores of blocks, and images written two rows at a time.
  \<^item> Sse2: the intrinsics, on registers that are lists of sixteen bytes; a register of words is \<^const>\<open>unlanes\<close> of
    eight words, and the lemmas evaluate every intrinsic on registers written out.
  \<^item> Color_Sse2: the SSE2 conversions. Their four functions have one text up to the alpha values, the order of the
    bytes and the multiplication by alpha, which are parameters; a plane has an address, because aligned
    accesses fault elsewhere.
  \<^item> Color_Simd and Color_Image: the blocks, rows and images of these, proved once in the locale \<open>pixel_format\<close>,
    the contract of an order of bytes, which is interpreted on the three orders of the code; the distance of a
    colour from that of the tables.
  \<^item> Color_Properties: the properties of the colour conversion.
  \<^item> File_Cache: a segment file, with how much \<^verbatim>\<open>write\<close> stores as an argument.
  \<^item> Hls_Buffer: the element; every section under the lock, and every stretch outside of it, is a step
    \<^const>\<open>hls_step\<close> of a labelled transition function, and where each thread stands is part of the state. A signal wakes a
    sleeping thread and is lost otherwise; threads may also wake up without one.
  \<^item> Hls_Inv and Hls_Fifo: the ring as a window of segments; the invariant that ties the bytes pushed, in flight and
    unread to those received, for a streaming thread that fills its segments (\<^const>\<open>inflow_step\<close>).
  \<^item> Hls_Safety: the steps that leave the arrays, under any interleaving.
  \<^item> Hls_Properties: the properties of the buffer.

  \<^bold>\<open>What is shown.\<close> Control state: after any calls revalidation selects the right routines.
  Refinement: a rectangle filled under SRC_OVER is the pointwise blend of its coverage, whatever batches, edges and
  fast paths the code uses; under SRC and CLEAR a thin row leaves its edge columns undrawn, which is stated
  exactly; equivalence of the optimised emitters, blitters, bilinear fetches and
  texture loops with pointwise definitions; safety and termination of the gradients for every
  arithmetic and of the texture loops for every matrix, where filtered textures have at least two pixels each way
  (one-pixel textures fault, which is shown too); exactness and bounds of the pixel
  arithmetic. Parser: totality on any bytes, the file round trip, and
  when a packet lies inside of its block. Pixel access: exact copies of the visible part and nothing else.
  Script data: safety and termination as long as the counts of the arrays of a keyframes object
  differ by at most one (\<^const>\<open>counts_ok\<close>), the effect of the metadata tag as an abstract run over its members,
  and the exact condition under which the keyframe reader leaves its array. Demuxer: the protocol of
  the output streams under any calls and peers, the index as an ordered finite map, a file through the
  demuxer packet by packet, with the times and offsets of its index entries, termination and result of indexing, and the place of a seek inside and past the
  index. Colour conversion: the exact image by both builds from one formula per pixel, with all accesses inside
  of planes and tables; their distance, at most one in every byte, and where they differ by a multiplication with
  alpha; refused arguments and unaligned targets. Live
  streams: the bytes come out complete and in order under every interleaving, exactly which steps leave the
  arrays, and a run that ends with both threads asleep for good.

  \<^bold>\<open>Not modelled.\<close> Failing allocations and JNI calls; JNI field lookup; the floating-point path
  rasterizer (native-prism); windowing (native-glass), OpenGL, fonts and image codecs, which call
  operating-system or vendored libraries; of the demuxer, class registration, disposal, locks and
  the queries of position and duration; the VP6 decoder, whose library is not part of the repository; of the live
  stream buffer, plugin registration and the Windows version of the file; the progressive download buffer and
  the Java source.
  WebKit, glib, GStreamer and libjpeg are third-party code kept in the tree.
\<close>

end
